(* ===== verification/Prelude.thy ===== *)
theory Prelude
  imports Complex_Main "HOL-Library.Sublist" "HOL-Library.Multiset"
begin

text \<open>
  What the component theories share: object identities, the generic notion of a reachable
  state with its invariant rule, JavaScript array operations on lists with their lemmas,
  and the collections the component proofs extend.
\<close>

named_theorems wf_intros \<open>operations that keep a component's well-formedness invariant\<close>
named_theorems op_defs \<open>definitions of a component's operations, unfolded together\<close>

text \<open>
  JavaScript compares objects by identity. Where the code relies on it (\<open>indexOf\<close>,
  \<open>===\<close>, a \<open>Set\<close> of objects) an object is an address into a heap of object states.
\<close>

type_synonym ref = nat

section \<open>Reachable states\<close>

inductive reach :: "('s \<Rightarrow> bool) \<Rightarrow> ('s \<Rightarrow> 's \<Rightarrow> bool) \<Rightarrow> 's \<Rightarrow> bool"
  for init :: "'s \<Rightarrow> bool" and step :: "'s \<Rightarrow> 's \<Rightarrow> bool" where
  reach_init: "init s \<Longrightarrow> reach init step s"
| reach_step: "reach init step s \<Longrightarrow> step s t \<Longrightarrow> reach init step t"

text \<open>
  The contract of a component that is a state machine: an initial condition, a step
  relation and an invariant that holds at the start and is kept by every step.
\<close>

locale invariant_machine =
  fixes init :: "'s \<Rightarrow> bool"
    and step :: "'s \<Rightarrow> 's \<Rightarrow> bool"
    and inv :: "'s \<Rightarrow> bool"
  assumes inv_init: "init s \<Longrightarrow> inv s"
    and inv_step: "inv s \<Longrightarrow> step s t \<Longrightarrow> inv t"
begin

lemma inv_reach: "reach init step s \<Longrightarrow> inv s"
  by (induction rule: reach.induct) (auto intro: inv_init inv_step)

lemma inv_steps: "step\<^sup>*\<^sup>* s t \<Longrightarrow> inv s \<Longrightarrow> inv t"
  by (induction rule: rtranclp_induct) (auto intro: inv_step)

end

section \<open>JavaScript arrays as lists\<close>

text \<open>\<open>xs.splice(i, 0, x)\<close> for \<open>0 \<le> i \<le> xs.length\<close>.\<close>

definition insert_at :: "nat \<Rightarrow> 'a \<Rightarrow> 'a list \<Rightarrow> 'a list" where
  "insert_at i x xs = take i xs @ x # drop i xs"

text \<open>\<open>xs.splice(i, 1)\<close>.\<close>

definition remove_at :: "nat \<Rightarrow> 'a list \<Rightarrow> 'a list" where
  "remove_at i xs = take i xs @ drop (Suc i) xs"

text \<open>\<open>xs.findIndex(p)\<close>, with None for the -1 of the source.\<close>

fun find_index :: "('a \<Rightarrow> bool) \<Rightarrow> 'a list \<Rightarrow> nat option" where
  "find_index p [] = None"
| "find_index p (x # xs) = (if p x then Some 0 else map_option Suc (find_index p xs))"

text \<open>\<open>xs.indexOf(x)\<close>.\<close>

definition index_of :: "'a \<Rightarrow> 'a list \<Rightarrow> nat option" where
  "index_of x xs = find_index (\<lambda>y. y = x) xs"

lemma set_insert_at [simp]: "set (insert_at i x xs) = insert x (set xs)"
proof -
  have "set xs = set (take i xs @ drop i xs)" by simp
  then have "set xs = set (take i xs) \<union> set (drop i xs)" by (simp only: set_append)
  then show ?thesis by (auto simp: insert_at_def)
qed

lemma distinct_insert_at [simp]: "distinct (insert_at i x xs) \<longleftrightarrow> x \<notin> set xs \<and> distinct xs"
proof -
  have eq: "xs = take i xs @ drop i xs" by simp
  have d: "distinct xs \<longleftrightarrow> distinct (take i xs @ drop i xs)" by (simp only: append_take_drop_id)
  have s: "set xs = set (take i xs @ drop i xs)" by (simp only: append_take_drop_id)
  show ?thesis
    unfolding insert_at_def d s by (auto simp del: append_take_drop_id)
qed

lemma length_insert_at [simp]: "length (insert_at i x xs) = Suc (length xs)"
  by (simp add: insert_at_def)

lemma filter_insert_at:
  "filter p (insert_at i x xs) =
     filter p (take i xs) @ (if p x then [x] else []) @ filter p (drop i xs)"
  by (simp add: insert_at_def)

lemma find_index_Some:
  "find_index p xs = Some i \<Longrightarrow> i < length xs \<and> p (xs ! i) \<and> (\<forall>j<i. \<not> p (xs ! j))"
proof (induction xs arbitrary: i)
  case Nil
  then show ?case by simp
next
  case (Cons x xs)
  show ?case
  proof (cases "p x")
    case True
    with Cons.prems show ?thesis by simp
  next
    case False
    with Cons.prems obtain k where k: "find_index p xs = Some k" "i = Suc k" by auto
    have "k < length xs \<and> p (xs ! k) \<and> (\<forall>j<k. \<not> p (xs ! j))" by (rule Cons.IH [OF k(1)])
    with k(2) False show ?thesis by (auto simp: nth_Cons split: nat.splits)
  qed
qed

lemma find_index_None: "find_index p xs = None \<longleftrightarrow> (\<forall>x\<in>set xs. \<not> p x)"
  by (induction xs) auto

lemma find_index_split:
  assumes "find_index p xs = Some i"
  shows "xs = take i xs @ xs ! i # drop (Suc i) xs" and "p (xs ! i)"
    and "\<forall>x\<in>set (take i xs). \<not> p x"
proof -
  from find_index_Some [OF assms] have i: "i < length xs" "p (xs ! i)" "\<forall>j<i. \<not> p (xs ! j)" by auto
  from i(1) show "xs = take i xs @ xs ! i # drop (Suc i) xs" by (rule id_take_nth_drop)
  from i(2) show "p (xs ! i)" .
  from i show "\<forall>x\<in>set (take i xs). \<not> p x" by (auto simp: in_set_conv_nth)
qed

lemma index_of_Some: "index_of x xs = Some i \<Longrightarrow> i < length xs \<and> xs ! i = x"
  unfolding index_of_def by (drule find_index_Some) simp

lemma index_of_None [simp]: "index_of x xs = None \<longleftrightarrow> x \<notin> set xs"
  by (auto simp: index_of_def find_index_None)

lemma remove_at_split: "i < length xs \<Longrightarrow> mset xs = add_mset (xs ! i) (mset (remove_at i xs))"
  unfolding remove_at_def
  by (metis append_Cons id_take_nth_drop mset.simps(2) mset_append union_mset_add_mset_right)

lemma set_remove_at:
  assumes "distinct xs" and "i < length xs"
  shows "set (remove_at i xs) = set xs - {xs ! i}" and "distinct (remove_at i xs)"
proof -
  have xs: "xs = take i xs @ xs ! i # drop (Suc i) xs"
    using assms(2) by (rule id_take_nth_drop)
  with assms(1) have d: "distinct (take i xs @ xs ! i # drop (Suc i) xs)" by metis
  have s: "set xs = set (take i xs @ xs ! i # drop (Suc i) xs)" using xs by metis
  from d show "distinct (remove_at i xs)" by (auto simp: remove_at_def)
  from d show "set (remove_at i xs) = set xs - {xs ! i}"
    unfolding s by (auto simp: remove_at_def)
qed

section \<open>Text\<close>

text \<open>The white space of \<open>\s\<close> and \<open>trim\<close> among the characters of a string.\<close>

definition js_space :: "char \<Rightarrow> bool" where
  "js_space c = (let n = of_char c :: nat in 9 \<le> n \<and> n \<le> 13 \<or> n = 32 \<or> n = 160)"

definition trim_text :: "string \<Rightarrow> string" where
  "trim_text s = rev (dropWhile js_space (rev (dropWhile js_space s)))"

definition is_digit :: "char \<Rightarrow> bool" where
  "is_digit c = (let n = of_char c :: nat in 48 \<le> n \<and> n \<le> 57)"

definition to_lower :: "string \<Rightarrow> string" where
  "to_lower s = map (\<lambda>c. let n = of_char c :: nat in if 65 \<le> n \<and> n \<le> 90 then char_of (n + 32) else c) s"

text \<open>\<open>split(sep)\<close> for a single character.\<close>

fun split_at :: "char \<Rightarrow> string \<Rightarrow> string list" where
  "split_at sep [] = [[]]"
| "split_at sep (c # cs) =
     (if c = sep then [] # split_at sep cs
      else case split_at sep cs of w # ws \<Rightarrow> (c # w) # ws | [] \<Rightarrow> [[c]])"

section \<open>Numbers\<close>

text \<open>
  A JavaScript number where the code tests for the values that are not finite. Finite
  values are exact rationals: rounding of doubles is not modelled.
\<close>

datatype jsnumber = Finite rat | Infinite bool | NaN

fun is_finite :: "jsnumber \<Rightarrow> bool" where
  "is_finite (Finite _) = True"
| "is_finite _ = False"

end
