(* ===== verification/Session_Actions.thy ===== *)
theory Session_Actions
  imports Prelude
begin

text \<open>
  The queue of session actions: \<open>packages/coding-agent/src/core/session-action-store.ts\<close>.
  An action is an object the store and its callers share, so the model keeps the objects in
  a heap and the two delivery lanes hold references. The lifecycle is the source's table of
  legal transitions; the store's operations follow in the order of the class. Promises of
  a ticket are their settlement state. Last come the residency policies of the file.
\<close>

section \<open>Data\<close>

datatype delivery_policy = Next_turn_boundary | When_run_idle

datatype wake_policy = Immediate | On_lower_boundary | External_resume

datatype action_priority = Pinned | User | Background

datatype action_placement = P_priority | P_tail | P_front

datatype message_lane = Steering | Follow_up

fun priority_rank :: "action_priority \<Rightarrow> nat" where
  "priority_rank Pinned = 2"
| "priority_rank User = 1"
| "priority_rank Background = 0"

fun queuedMessageLaneDeliveryPolicy :: "message_lane \<Rightarrow> delivery_policy" where
  "queuedMessageLaneDeliveryPolicy Steering = Next_turn_boundary"
| "queuedMessageLaneDeliveryPolicy Follow_up = When_run_idle"

datatype delivery_role = Primary | Prefix | Next_turn

record delivery_record =
  rec_id :: string
  rec_role :: delivery_role
  rec_message :: ref
  rec_started :: bool
  rec_durable :: bool
  rec_owner :: string

datatype action_payload =
    Turn_payload "delivery_record list" string "string option" \<comment> \<open>records, text, preview\<close>
  | Command_payload string string \<comment> \<open>command, text\<close>

datatype execution = Agent_turn | Session_command

datatype lifecycle =
    Queued | Selected | Preparing "ref option" | Committing | Running execution
  | Completed | Failed string | Cancelled

datatype lifecycle_state =
    S_queued | S_selected | S_preparing | S_committing | S_running
  | S_completed | S_failed | S_cancelled

fun lc_state :: "lifecycle \<Rightarrow> lifecycle_state" where
  "lc_state Queued = S_queued"
| "lc_state Selected = S_selected"
| "lc_state (Preparing _) = S_preparing"
| "lc_state Committing = S_committing"
| "lc_state (Running _) = S_running"
| "lc_state Completed = S_completed"
| "lc_state (Failed _) = S_failed"
| "lc_state Cancelled = S_cancelled"

record action =
  act_id :: string
  act_source :: string
  act_delivery :: delivery_policy
  act_priority :: action_priority
  act_wake :: wake_policy
  act_payload :: action_payload
  act_lifecycle :: lifecycle
  act_queueKey :: "string option"
  act_agentMessageId :: "string option"
  act_suppress :: "bool option"

record rollback_proof =
  dispatchSettled :: bool
  transcript :: "ref list"

datatype action_error =
    Illegal_transition lifecycle_state lifecycle_state
  | Rollback_needs_proof
  | Primary_message_durable
  | Only_queued_can_be_enqueued
  | Duplicate_action_id string
  | Only_same_lane_swap
  | Not_owned_by_store
  | Only_queued_can_be_moved
  | Nonterminal_release string
  | No_primary_record string

text \<open>Priorities are ordered by their rank, so that the library's order facts apply.\<close>

instantiation action_priority :: linorder
begin

definition less_eq_action_priority :: "action_priority \<Rightarrow> action_priority \<Rightarrow> bool" where
  "less_eq_action_priority a b \<longleftrightarrow> priority_rank a \<le> priority_rank b"

definition less_action_priority :: "action_priority \<Rightarrow> action_priority \<Rightarrow> bool" where
  "less_action_priority a b \<longleftrightarrow> priority_rank a < priority_rank b"

instance
proof
  fix x y z :: action_priority
  show "(x < y) = (x \<le> y \<and> \<not> y \<le> x)"
    by (auto simp: less_eq_action_priority_def less_action_priority_def)
  show "x \<le> x" by (simp add: less_eq_action_priority_def)
  show "x \<le> y \<Longrightarrow> y \<le> z \<Longrightarrow> x \<le> z" by (simp add: less_eq_action_priority_def)
  show "x \<le> y \<Longrightarrow> y \<le> x \<Longrightarrow> x = y"
    by (cases x; cases y) (auto simp: less_eq_action_priority_def)
  show "x \<le> y \<or> y \<le> x" by (auto simp: less_eq_action_priority_def)
qed

end

section \<open>The lifecycle of an action\<close>

fun terminal_state :: "lifecycle_state \<Rightarrow> bool" where
  "terminal_state S_completed = True"
| "terminal_state S_failed = True"
| "terminal_state S_cancelled = True"
| "terminal_state _ = False"

fun active_state :: "lifecycle_state \<Rightarrow> bool" where
  "active_state S_selected = True"
| "active_state S_preparing = True"
| "active_state S_committing = True"
| "active_state S_running = True"
| "active_state _ = False"

fun clearable_state :: "lifecycle_state \<Rightarrow> bool" where
  "clearable_state S_queued = True"
| "clearable_state S_selected = True"
| "clearable_state S_preparing = True"
| "clearable_state _ = False"

definition isClearable :: "action \<Rightarrow> bool" where
  "isClearable a = clearable_state (lc_state (act_lifecycle a))"

fun legal_transitions :: "lifecycle_state \<Rightarrow> lifecycle_state list" where
  "legal_transitions S_queued = [S_selected, S_failed, S_cancelled]"
| "legal_transitions S_selected = [S_queued, S_preparing, S_running, S_failed, S_cancelled]"
| "legal_transitions S_preparing = [S_queued, S_committing, S_failed, S_cancelled]"
| "legal_transitions S_committing = [S_queued, S_running, S_failed, S_cancelled]"
| "legal_transitions S_running = [S_completed, S_failed, S_cancelled]"
| "legal_transitions S_completed = []"
| "legal_transitions S_failed = []"
| "legal_transitions S_cancelled = []"

definition legal :: "lifecycle_state \<Rightarrow> lifecycle_state \<Rightarrow> bool" where
  "legal s t = (t \<in> set (legal_transitions s))"

definition primaryRecords :: "action \<Rightarrow> delivery_record list" where
  "primaryRecords a = (case act_payload a of
     Turn_payload rs _ _ \<Rightarrow> filter (\<lambda>r. rec_role r = Primary) rs
   | Command_payload _ _ \<Rightarrow> [])"

definition transitionSessionAction ::
    "action \<Rightarrow> lifecycle \<Rightarrow> rollback_proof option \<Rightarrow> action_error + action" where
  "transitionSessionAction a nxt proof =
     (let prev = lc_state (act_lifecycle a) in
      if \<not> legal prev (lc_state nxt) then Inl (Illegal_transition prev (lc_state nxt))
      else if prev = S_committing \<and> lc_state nxt = S_queued then
        (case proof of
           None \<Rightarrow> Inl Rollback_needs_proof
         | Some p \<Rightarrow>
             if \<not> dispatchSettled p then Inl Rollback_needs_proof
             else if list_ex (\<lambda>r. rec_message r \<in> set (transcript p)) (primaryRecords a)
             then Inl Primary_message_durable
             else Inr (a\<lparr>act_lifecycle := nxt\<rparr>))
      else Inr (a\<lparr>act_lifecycle := nxt\<rparr>))"

section \<open>Tickets\<close>

datatype 'a deferred = Pending_promise | Resolved 'a | Rejected string

fun settle :: "'a deferred \<Rightarrow> 'a \<Rightarrow> bool \<times> 'a deferred" where
  "settle Pending_promise v = (True, Resolved v)"
| "settle d v = (False, d)"

fun reject :: "'a deferred \<Rightarrow> string \<Rightarrow> bool \<times> 'a deferred" where
  "reject Pending_promise e = (True, Rejected e)"
| "reject d e = (False, d)"

datatype admission_disposition = Starts_when_admitted | Disposition_queued

datatype submission_outcome =
    Accepted string admission_disposition | Coalesced string
  | Handled_without_turn | Extension_command ref

datatype delivery_outcome = Delivered | Not_applicable

record ticket =
  tk_id :: string
  tk_accepted :: "submission_outcome deferred"
  tk_delivered :: "delivery_outcome deferred"
  tk_completed :: "unit deferred"

definition newTicket :: "string \<Rightarrow> ticket" where
  "newTicket i = \<lparr>tk_id = i, tk_accepted = Pending_promise, tk_delivered = Pending_promise,
     tk_completed = Pending_promise\<rparr>"

definition settleAccepted :: "ticket \<Rightarrow> submission_outcome \<Rightarrow> bool \<times> ticket" where
  "settleAccepted t out = (let (b, d) = settle (tk_accepted t) out in (b, t\<lparr>tk_accepted := d\<rparr>))"

definition settleDelivered :: "ticket \<Rightarrow> delivery_outcome \<Rightarrow> bool \<times> ticket" where
  "settleDelivered t out = (let (b, d) = settle (tk_delivered t) out in (b, t\<lparr>tk_delivered := d\<rparr>))"

definition rejectDelivered :: "ticket \<Rightarrow> string \<Rightarrow> bool \<times> ticket" where
  "rejectDelivered t e = (let (b, d) = reject (tk_delivered t) e in (b, t\<lparr>tk_delivered := d\<rparr>))"

definition settleCompleted :: "ticket \<Rightarrow> string option \<Rightarrow> bool \<times> ticket" where
  "settleCompleted t err =
     (let (b, d) = (case err of Some e \<Rightarrow> reject (tk_completed t) e
                              | None \<Rightarrow> settle (tk_completed t) ())
      in (b, t\<lparr>tk_completed := d\<rparr>))"

section \<open>The store\<close>

text \<open>
  \<open>objs\<close> is the heap of action objects. An operation that throws leaves the mutations it
  made before the throw, so every result carries the store as well.
\<close>

record store =
  objs :: "ref \<Rightarrow> action"
  nextTurnBoundary :: "ref list"
  whenRunIdle :: "ref list"
  tickets :: "string \<rightharpoonup> ticket"

type_synonym 'a outcome = "(action_error + 'a) \<times> store"

definition emptyStore :: "(ref \<Rightarrow> action) \<Rightarrow> store" where
  "emptyStore h = \<lparr>objs = h, nextTurnBoundary = [], whenRunIdle = [], tickets = Map.empty\<rparr>"

definition lane :: "store \<Rightarrow> delivery_policy \<Rightarrow> ref list" where
  "lane s p = (case p of Next_turn_boundary \<Rightarrow> nextTurnBoundary s | When_run_idle \<Rightarrow> whenRunIdle s)"

definition set_lane :: "delivery_policy \<Rightarrow> ref list \<Rightarrow> store \<Rightarrow> store" where
  "set_lane p xs s = (case p of
     Next_turn_boundary \<Rightarrow> s\<lparr>nextTurnBoundary := xs\<rparr> | When_run_idle \<Rightarrow> s\<lparr>whenRunIdle := xs\<rparr>)"

definition actions :: "store \<Rightarrow> delivery_policy option \<Rightarrow> ref list" where
  "actions s p = (case p of Some q \<Rightarrow> lane s q | None \<Rightarrow> nextTurnBoundary s @ whenRunIdle s)"

definition state_of :: "store \<Rightarrow> ref \<Rightarrow> lifecycle_state" where
  "state_of s r = lc_state (act_lifecycle (objs s r))"

definition is_queued :: "(ref \<Rightarrow> action) \<Rightarrow> ref \<Rightarrow> bool" where
  "is_queued h r = (lc_state (act_lifecycle (h r)) = S_queued)"

text \<open>The loop of \<open>insertionIndex\<close>, from the last position towards the first.\<close>

fun insertion_scan :: "(ref \<Rightarrow> action) \<Rightarrow> nat \<Rightarrow> ref list \<Rightarrow> nat \<Rightarrow> nat \<Rightarrow> nat" where
  "insertion_scan h rank xs 0 index = index"
| "insertion_scan h rank xs (Suc position) index =
     (let item = xs ! position in
      if \<not> is_queued h item \<or> rank \<le> priority_rank (act_priority (h item)) then index
      else insertion_scan h rank xs position position)"

definition insertionIndex ::
    "(ref \<Rightarrow> action) \<Rightarrow> ref list \<Rightarrow> action \<Rightarrow> action_placement \<Rightarrow> nat" where
  "insertionIndex h xs a placement = (case placement of
     P_tail \<Rightarrow> length xs
   | P_front \<Rightarrow> (case find_index (is_queued h) xs of None \<Rightarrow> length xs | Some i \<Rightarrow> i)
   | P_priority \<Rightarrow> insertion_scan h (priority_rank (act_priority a)) xs (length xs) (length xs))"

definition assertNewAction :: "store \<Rightarrow> ref \<Rightarrow> action_error option" where
  "assertNewAction s r =
     (if state_of s r \<noteq> S_queued then Some Only_queued_can_be_enqueued
      else if tickets s (act_id (objs s r)) \<noteq> None then Some (Duplicate_action_id (act_id (objs s r)))
      else None)"

definition enqueue :: "ref \<Rightarrow> action_placement \<Rightarrow> store \<Rightarrow> unit outcome" where
  "enqueue r placement s = (case assertNewAction s r of
     Some e \<Rightarrow> (Inl e, s)
   | None \<Rightarrow>
       (let a = objs s r; p = act_delivery a; xs = lane s p;
            xs' = insert_at (insertionIndex (objs s) xs a placement) r xs
        in (Inr (), (set_lane p xs' s)\<lparr>tickets := (tickets s)(act_id a \<mapsto> newTicket (act_id a))\<rparr>)))"

text \<open>\<open>transitionSessionAction\<close> on an object of the heap.\<close>

definition transition_ref ::
    "ref \<Rightarrow> lifecycle \<Rightarrow> rollback_proof option \<Rightarrow> store \<Rightarrow> unit outcome" where
  "transition_ref r nxt proof s = (case transitionSessionAction (objs s r) nxt proof of
     Inl e \<Rightarrow> (Inl e, s)
   | Inr a \<Rightarrow> (Inr (), s\<lparr>objs := (objs s)(r := a)\<rparr>))"

definition selectFirst :: "store \<Rightarrow> ref option outcome" where
  "selectFirst s =
     (let found = (case find (is_queued (objs s)) (nextTurnBoundary s) of
                     Some r \<Rightarrow> Some r
                   | None \<Rightarrow> find (is_queued (objs s)) (whenRunIdle s))
      in case found of
           None \<Rightarrow> (Inr None, s)
         | Some r \<Rightarrow> (case transition_ref r Selected None s of
                        (Inl e, s') \<Rightarrow> (Inl e, s')
                      | (Inr _, s') \<Rightarrow> (Inr (Some r), s')))"

fun cancel_all :: "ref list \<Rightarrow> store \<Rightarrow> unit outcome" where
  "cancel_all [] s = (Inr (), s)"
| "cancel_all (r # rs) s = (case transition_ref r Cancelled None s of
     (Inl e, s') \<Rightarrow> (Inl e, s')
   | (Inr _, s') \<Rightarrow> cancel_all rs s')"

definition remove :: "(action \<Rightarrow> bool) \<Rightarrow> ref list \<Rightarrow> store \<Rightarrow> ref list outcome" where
  "remove pred candidates s =
     (let removed = filter (\<lambda>r. pred (objs s r)) candidates in
      case cancel_all removed s of
        (Inl e, s') \<Rightarrow> (Inl e, s')
      | (Inr _, s') \<Rightarrow> (Inr removed, s'))"

definition rollback :: "ref \<Rightarrow> rollback_proof option \<Rightarrow> store \<Rightarrow> unit outcome" where
  "rollback r proof s = transition_ref r Queued proof s"

definition swapQueued :: "ref \<Rightarrow> ref \<Rightarrow> store \<Rightarrow> unit outcome" where
  "swapQueued left right s =
     (if state_of s left \<noteq> S_queued \<or> state_of s right \<noteq> S_queued
         \<or> act_delivery (objs s left) \<noteq> act_delivery (objs s right)
      then (Inl Only_same_lane_swap, s)
      else let p = act_delivery (objs s left); xs = lane s p in
        case (index_of left xs, index_of right xs) of
          (Some i, Some j) \<Rightarrow> (Inr (), set_lane p (xs[i := right, j := left]) s)
        | _ \<Rightarrow> (Inl Not_owned_by_store, s))"

text \<open>
  \<open>move_position\<close> is the index of the second \<open>splice\<close> of \<open>moveQueued\<close> and
  \<open>detach\<close> its first three statements: take the action out, change its lane.
\<close>

definition move_position :: "(ref \<Rightarrow> action) \<Rightarrow> ref list \<Rightarrow> int \<Rightarrow> nat" where
  "move_position h target index =
     (let queued = filter (is_queued h) target;
          k = nat (max 0 (min index (int (length queued))));
          before = (if k < length queued then Some (queued ! k) else None)
      in case before of
           None \<Rightarrow> length target
         | Some b \<Rightarrow> (case index_of b target of None \<Rightarrow> length target - 1 | Some j \<Rightarrow> j))"

definition detach :: "ref \<Rightarrow> nat \<Rightarrow> delivery_policy \<Rightarrow> store \<Rightarrow> store" where
  "detach r i dest s =
     (let p = act_delivery (objs s r); s1 = set_lane p (remove_at i (lane s p)) s
      in s1\<lparr>objs := (objs s1)(r := (objs s1 r)\<lparr>act_delivery := dest\<rparr>)\<rparr>)"

definition moveQueued :: "ref \<Rightarrow> delivery_policy \<Rightarrow> int \<Rightarrow> store \<Rightarrow> unit outcome" where
  "moveQueued r dest index s =
     (if state_of s r \<noteq> S_queued then (Inl Only_queued_can_be_moved, s)
      else case index_of r (lane s (act_delivery (objs s r))) of
          None \<Rightarrow> (Inl Not_owned_by_store, s)
        | Some i \<Rightarrow>
            (let s2 = detach r i dest s; target = lane s2 dest in
             (Inr (), set_lane dest (insert_at (move_position (objs s2) target index) r target) s2)))"

definition queuedActions :: "store \<Rightarrow> delivery_policy option \<Rightarrow> ref list" where
  "queuedActions s p = filter (\<lambda>r. state_of s r = S_queued) (actions s p)"

definition clearableActions :: "store \<Rightarrow> delivery_policy option \<Rightarrow> ref list" where
  "clearableActions s p = filter (\<lambda>r. isClearable (objs s r)) (actions s p)"

definition unfinishedActions :: "store \<Rightarrow> delivery_policy option \<Rightarrow> ref list" where
  "unfinishedActions s p = filter (\<lambda>r. \<not> terminal_state (state_of s r)) (actions s p)"

definition activeActions :: "store \<Rightarrow> delivery_policy option \<Rightarrow> ref list" where
  "activeActions s p = filter (\<lambda>r. active_state (state_of s r)) (actions s p)"

definition payload_preview :: "action_payload \<Rightarrow> string" where
  "payload_preview p = (case p of
     Turn_payload _ txt preview \<Rightarrow> (case preview of Some v \<Rightarrow> v | None \<Rightarrow> txt)
   | Command_payload _ txt \<Rightarrow> txt)"

definition queuePreview :: "store \<Rightarrow> delivery_policy \<Rightarrow> string list" where
  "queuePreview s p = map (\<lambda>r. payload_preview (act_payload (objs s r))) (queuedActions s (Some p))"

definition ticketFor :: "store \<Rightarrow> ref \<Rightarrow> action_error + ticket" where
  "ticketFor s r = (case tickets s (act_id (objs s r)) of
     None \<Rightarrow> Inl Not_owned_by_store | Some t \<Rightarrow> Inr t)"

definition actionsForMessage :: "store \<Rightarrow> ref \<Rightarrow> ref list" where
  "actionsForMessage s m = filter (\<lambda>r. case act_payload (objs s r) of
      Turn_payload recs _ _ \<Rightarrow> list_ex (\<lambda>d. rec_message d = m) recs
    | Command_payload _ _ \<Rightarrow> False) (actions s None)"

definition releaseTerminal :: "ref \<Rightarrow> store \<Rightarrow> unit outcome" where
  "releaseTerminal r s =
     (if \<not> terminal_state (state_of s r) then (Inl (Nonterminal_release (act_id (objs s r))), s)
      else let p = act_delivery (objs s r); xs = lane s p;
               s1 = (case index_of r xs of None \<Rightarrow> s | Some i \<Rightarrow> set_lane p (remove_at i xs) s)
           in (Inr (), s1\<lparr>tickets := (tickets s1)(act_id (objs s r) := None)\<rparr>))"

section \<open>Residency policies\<close>

record runtime_activity =
  lowerAgentRun :: bool
  ra_compaction :: bool
  ra_retry :: bool
  ra_bash :: bool
  refinementApply :: bool
  branchMutation :: bool
  schedulerPauseCount :: int
  disposing :: bool

datatype idle_minutes = Minutes jsnumber | Off

record session_snapshot =
  isSessionActive :: bool
  attachedClients :: int
  hasRegisteredCronJob :: bool
  lastActivityAt :: jsnumber

record passivation_snapshot = session_snapshot +
  hasParent :: bool
  hasNonPassiveDescendants :: bool
  isHydrating :: bool

datatype worker_lifecycle = W_starting | W_ready | W_recovering | W_stopping | W_failed

record worker_snapshot =
  w_lifecycle :: worker_lifecycle
  isConnected :: bool
  isStopping :: bool
  hasOwnerClient :: bool
  isPreparingUpdateRestart :: bool
  hasWakeBlindSchedule :: bool
  w_sessions :: "session_snapshot list"

definition isIdleEvictionThresholdMet ::
    "'a session_snapshot_scheme \<Rightarrow> idle_minutes \<Rightarrow> rat \<Rightarrow> bool" where
  "isIdleEvictionThresholdMet x m now = (case m of
     Minutes (Finite k) \<Rightarrow>
       k > 0 \<and> \<not> isSessionActive x \<and> attachedClients x = 0 \<and> \<not> hasRegisteredCronJob x
       \<and> (case lastActivityAt x of Finite t \<Rightarrow> now - t \<ge> k * 60000 | _ \<Rightarrow> False)
   | _ \<Rightarrow> False)"

definition canPassivateSession :: "passivation_snapshot \<Rightarrow> idle_minutes \<Rightarrow> rat \<Rightarrow> bool" where
  "canPassivateSession x m now \<longleftrightarrow>
     hasParent x \<and> \<not> hasNonPassiveDescendants x \<and> \<not> isHydrating x
     \<and> isIdleEvictionThresholdMet x m now"

definition canEvictWorker :: "worker_snapshot \<Rightarrow> idle_minutes \<Rightarrow> rat \<Rightarrow> bool" where
  "canEvictWorker w m now =
     (if w_lifecycle w \<noteq> W_ready \<or> \<not> isConnected w \<or> isStopping w \<or> hasOwnerClient w
         \<or> isPreparingUpdateRestart w \<or> hasWakeBlindSchedule w \<or> length (w_sessions w) = 0
      then False
      else list_all (\<lambda>x. isIdleEvictionThresholdMet x m now) (w_sessions w))"

definition canSelectSessionAction :: "runtime_activity \<Rightarrow> bool" where
  "canSelectSessionAction x \<longleftrightarrow>
     \<not> lowerAgentRun x \<and> \<not> ra_compaction x \<and> \<not> ra_retry x \<and> \<not> ra_bash x
     \<and> \<not> refinementApply x \<and> \<not> branchMutation x \<and> schedulerPauseCount x = 0 \<and> \<not> disposing x"

section \<open>Well-formed stores\<close>

definition owned :: "store \<Rightarrow> ref set" where
  "owned s = set (nextTurnBoundary s) \<union> set (whenRunIdle s)"

definition wf_store :: "store \<Rightarrow> bool" where
  "wf_store s \<longleftrightarrow>
     distinct (nextTurnBoundary s @ whenRunIdle s)
     \<and> (\<forall>r \<in> set (nextTurnBoundary s). act_delivery (objs s r) = Next_turn_boundary)
     \<and> (\<forall>r \<in> set (whenRunIdle s). act_delivery (objs s r) = When_run_idle)
     \<and> inj_on (\<lambda>r. act_id (objs s r)) (owned s)
     \<and> dom (tickets s) = (\<lambda>r. act_id (objs s r)) ` owned s"

section \<open>Lemmas on lanes\<close>

lemma lane_simps [simp]:
  "lane (set_lane p xs s) p = xs"
  "p \<noteq> q \<Longrightarrow> lane (set_lane p xs s) q = lane s q"
  "lane (s\<lparr>objs := h\<rparr>) p = lane s p"
  "lane (s\<lparr>tickets := t\<rparr>) p = lane s p"
  by (auto simp: lane_def set_lane_def split: delivery_policy.splits)

lemma set_lane_fields [simp]:
  "objs (set_lane p xs s) = objs s"
  "tickets (set_lane p xs s) = tickets s"
  by (auto simp: set_lane_def split: delivery_policy.splits)

lemma owned_lanes: "owned s = (\<Union>p. set (lane s p))"
  unfolding owned_def lane_def by (auto split: delivery_policy.splits)

lemma set_actions: "set (actions s None) = owned s"
  by (simp add: actions_def owned_def)

lemma all_policies: "(\<forall>p. P p) \<longleftrightarrow> P Next_turn_boundary \<and> P When_run_idle"
  by (metis delivery_policy.exhaust)

lemma wf_store_lanes:
  "wf_store s \<longleftrightarrow>
     (\<forall>p. distinct (lane s p)) \<and> (\<forall>p. \<forall>r \<in> set (lane s p). act_delivery (objs s r) = p)
     \<and> inj_on (\<lambda>r. act_id (objs s r)) (owned s)
     \<and> dom (tickets s) = (\<lambda>r. act_id (objs s r)) ` owned s"
  unfolding wf_store_def all_policies lane_def by fastforce

lemma wf_storeI:
  assumes "\<And>p. distinct (lane s p)" and "\<And>p r. r \<in> set (lane s p) \<Longrightarrow> act_delivery (objs s r) = p"
    and "inj_on (\<lambda>r. act_id (objs s r)) (owned s)"
    and "dom (tickets s) = (\<lambda>r. act_id (objs s r)) ` owned s"
  shows "wf_store s"
  using assms by (auto simp: wf_store_lanes)

lemma wf_storeD:
  assumes "wf_store s"
  shows "distinct (lane s p)" and "r \<in> set (lane s p) \<Longrightarrow> act_delivery (objs s r) = p"
    and "inj_on (\<lambda>r. act_id (objs s r)) (owned s)"
    and "dom (tickets s) = (\<lambda>r. act_id (objs s r)) ` owned s"
  using assms by (auto simp: wf_store_lanes)

lemma owned_lane: "wf_store s \<Longrightarrow> r \<in> owned s \<longleftrightarrow> r \<in> set (lane s (act_delivery (objs s r)))"
  by (auto simp: owned_lanes dest: wf_storeD(2))

lemma owned_same_id:
  "wf_store s \<Longrightarrow> r \<in> owned s \<Longrightarrow> q \<in> owned s \<Longrightarrow> act_id (objs s r) = act_id (objs s q) \<Longrightarrow> r = q"
  by (rule inj_onD [OF wf_storeD(3)])

lemma assertNewAction_None:
  "assertNewAction s r = None \<longleftrightarrow> state_of s r = S_queued \<and> tickets s (act_id (objs s r)) = None"
  by (simp add: assertNewAction_def)

lemma set_lane_lanes: "set (lane (set_lane p xs s) q) = (if q = p then set xs else set (lane s q))"
  by auto

lemma owned_set_lane: "owned (set_lane p xs s) = set xs \<union> (\<Union>q\<in>-{p}. set (lane s q))"
  unfolding owned_lanes set_lane_lanes by auto

lemma owned_other_fields [simp]:
  "owned (s\<lparr>objs := h\<rparr>) = owned s" "owned (s\<lparr>tickets := t\<rparr>) = owned s"
  by (simp_all add: owned_lanes)

lemma owned_set_lane_insert:
  "owned (set_lane p (insert_at i r (lane s p)) s) = insert r (owned s)"
  unfolding owned_set_lane unfolding owned_lanes by auto

text \<open>An operation that changes only the lifecycle fields of objects keeps the invariant.\<close>

lemma wf_store_lifecycles:
  assumes "wf_store s"
    and "\<And>r. act_id (h r) = act_id (objs s r)" and "\<And>r. act_delivery (h r) = act_delivery (objs s r)"
  shows "wf_store (s\<lparr>objs := h\<rparr>)"
  using assms by (auto simp: wf_store_lanes)

lemma transitionSessionAction_Inr:
  assumes "transitionSessionAction a nxt proof = Inr b"
  shows "b = a\<lparr>act_lifecycle := nxt\<rparr>" and "legal (lc_state (act_lifecycle a)) (lc_state nxt)"
  using assms by (auto simp: transitionSessionAction_def Let_def split: if_splits option.splits)

lemma transition_ref_state:
  assumes "transition_ref r nxt proof s = (res, s')"
  shows "(\<exists>e. res = Inl e) \<and> s' = s \<or> s' = s\<lparr>objs := (objs s)(r := (objs s r)\<lparr>act_lifecycle := nxt\<rparr>)\<rparr>"
  using assms transitionSessionAction_Inr(1) [of "objs s r" nxt "proof"]
  by (auto simp: transition_ref_def split: sum.splits)

lemma wf_transition_ref [wf_intros]:
  "wf_store s \<Longrightarrow> transition_ref r nxt proof s = (res, s') \<Longrightarrow> wf_store s'"
  by (drule transition_ref_state) (auto intro!: wf_store_lifecycles)

lemma wf_cancel_all [wf_intros]:
  "wf_store s \<Longrightarrow> cancel_all rs s = (res, s') \<Longrightarrow> wf_store s'"
proof (induction rs arbitrary: s)
  case (Cons r rs)
  from Cons.prems Cons.IH show ?case
    by (auto split: prod.splits sum.splits intro: wf_transition_ref)
qed simp

lemma wf_enqueue [wf_intros]:
  assumes wf: "wf_store s" and enq: "enqueue r placement s = (res, s')"
  shows "wf_store s'"
proof (cases "assertNewAction s r")
  case (Some e)
  with enq wf show ?thesis by (simp add: enqueue_def)
next
  case None
  define p where "p = act_delivery (objs s r)"
  define i where "i = insertionIndex (objs s) (lane s p) (objs s r) placement"
  from None enq have s': "s' = (set_lane p (insert_at i r (lane s p)) s)\<lparr>tickets :=
      (tickets s)(act_id (objs s r) \<mapsto> newTicket (act_id (objs s r)))\<rparr>"
    by (simp add: enqueue_def Let_def p_def i_def)
  from None have new: "tickets s (act_id (objs s r)) = None" by (simp add: assertNewAction_None)
  then have "act_id (objs s r) \<notin> (\<lambda>q. act_id (objs s q)) ` owned s"
    using wf_storeD(4) [OF wf] by (auto simp: domIff)
  then have fresh: "r \<notin> owned s" and ids: "act_id (objs s r) \<notin> (\<lambda>q. act_id (objs s q)) ` owned s" by auto
  from fresh have notin: "r \<notin> set (lane s q)" for q by (auto simp: owned_lanes)
  have owned: "owned s' = insert r (owned s)" by (simp add: s' owned_set_lane_insert)
  show ?thesis
  proof (rule wf_storeI)
    show "distinct (lane s' q)" for q
      by (cases "q = p") (simp_all add: s' wf_storeD(1) [OF wf] notin)
    show "act_delivery (objs s' q) = pp" if "q \<in> set (lane s' pp)" for q pp
      using that wf_storeD(2) [OF wf] by (cases "pp = p") (auto simp: s' p_def)
    show "inj_on (\<lambda>q. act_id (objs s' q)) (owned s')"
      unfolding owned using ids wf_storeD(3) [OF wf] fresh by (simp add: s')
    show "dom (tickets s') = (\<lambda>q. act_id (objs s' q)) ` owned s'"
      unfolding owned using wf_storeD(4) [OF wf] by (simp add: s')
  qed
qed

lemma wf_selectFirst [wf_intros]:
  assumes "wf_store s" and "selectFirst s = (res, s')" shows "wf_store s'"
  using assms by (auto simp: selectFirst_def Let_def split: option.splits prod.splits sum.splits
      intro: wf_transition_ref)

lemma wf_remove [wf_intros]:
  assumes "wf_store s" and "remove pred candidates s = (res, s')" shows "wf_store s'"
  using assms by (auto simp: remove_def Let_def split: prod.splits sum.splits intro: wf_cancel_all)

lemma wf_rollback [wf_intros]:
  "wf_store s \<Longrightarrow> rollback r proof s = (res, s') \<Longrightarrow> wf_store s'"
  unfolding rollback_def by (rule wf_transition_ref)

lemma mset_swap_list:
  "i < length xs \<Longrightarrow> j < length xs \<Longrightarrow> mset (xs[i := xs ! j, j := xs ! i]) = mset xs"
  by (rule mset_swap)

lemma wf_store_same_lanes:
  assumes "wf_store s" and "mset xs = mset (lane s p)"
  shows "wf_store (set_lane p xs s)"
proof -
  have st: "set xs = set (lane s p)" using assms(2) by (metis set_mset_mset)
  have di: "distinct xs \<longleftrightarrow> distinct (lane s p)" using assms(2) mset_eq_imp_distinct_iff by blast
  have ow: "owned (set_lane p xs s) = owned s"
    unfolding owned_set_lane st unfolding owned_lanes by auto
  show ?thesis
  proof (rule wf_storeI)
    show "distinct (lane (set_lane p xs s) q)" for q
      by (cases "q = p") (simp_all add: di wf_storeD(1) [OF assms(1)])
    show "act_delivery (objs (set_lane p xs s) r) = q" if "r \<in> set (lane (set_lane p xs s) q)" for q r
      using that wf_storeD(2) [OF assms(1)] by (cases "q = p") (auto simp: st)
  qed (use ow wf_storeD(3,4) [OF assms(1)] in auto)
qed

lemma wf_swapQueued [wf_intros]:
  assumes "wf_store s" and "swapQueued l r s = (res, s')" shows "wf_store s'"
proof -
  have "wf_store (set_lane p ((lane s p)[i := r, j := l]) s)"
    if "index_of l (lane s p) = Some i" "index_of r (lane s p) = Some j" for p i j
    using index_of_Some [OF that(1)] index_of_Some [OF that(2)]
    by (intro wf_store_same_lanes [OF assms(1)]) (auto intro: mset_swap_list)
  with assms show ?thesis
    by (auto simp: swapQueued_def Let_def split: if_splits option.splits)
qed

text \<open>What \<open>moveQueued\<close> leaves: the action at its place among the queued ones of the target.\<close>

lemma detach_simps:
  assumes wf: "wf_store s" and i: "index_of r (lane s (act_delivery (objs s r))) = Some i"
  shows "objs (detach r i dest s) = (objs s)(r := (objs s r)\<lparr>act_delivery := dest\<rparr>)"
    and "tickets (detach r i dest s) = tickets s"
    and "lane (detach r i dest s) q = filter (\<lambda>x. x \<noteq> r) (lane s q)"
proof -
  define p where "p = act_delivery (objs s r)"
  from index_of_Some [OF i] have il: "i < length (lane s p)" "lane s p ! i = r" by (auto simp: p_def)
  have notin: "r \<notin> set (lane s t)" if "t \<noteq> p" for t
    using that wf_storeD(2) [OF wf, of r t] by (auto simp: p_def)
  have rem: "remove_at i (lane s p) = filter (\<lambda>x. x \<noteq> r) (lane s p)"
  proof -
    have sp: "lane s p = take i (lane s p) @ r # drop (Suc i) (lane s p)"
      using id_take_nth_drop [OF il(1)] il(2) by simp
    have "distinct (take i (lane s p) @ r # drop (Suc i) (lane s p))"
      using wf_storeD(1) [OF wf, of p] sp by metis
    then have "\<forall>x\<in>set (take i (lane s p)). x \<noteq> r" "\<forall>x\<in>set (drop (Suc i) (lane s p)). x \<noteq> r"
      by auto
    then have "filter (\<lambda>x. x \<noteq> r) (take i (lane s p) @ r # drop (Suc i) (lane s p)) = remove_at i (lane s p)"
      by (simp add: remove_at_def)
    with sp show ?thesis by metis
  qed
  show "lane (detach r i dest s) q = filter (\<lambda>x. x \<noteq> r) (lane s q)"
  proof (cases "q = p")
    case True
    then show ?thesis by (simp add: detach_def Let_def rem p_def [symmetric])
  next
    case False
    then have "lane (detach r i dest s) q = lane s q" by (simp add: detach_def Let_def p_def [symmetric])
    also have "\<dots> = filter (\<lambda>x. x \<noteq> r) (lane s q)"
      by (rule filter_True [symmetric]) (use notin [OF False] in auto)
    finally show ?thesis .
  qed
qed (simp_all add: detach_def Let_def)

lemma moveQueued_Inr:
  assumes "moveQueued r dest index s = (Inr u, s')"
  obtains i s2 where "index_of r (lane s (act_delivery (objs s r))) = Some i" and "state_of s r = S_queued"
    and "s2 = detach r i dest s"
    and "s' = set_lane dest (insert_at (move_position (objs s2) (lane s2 dest) index) r (lane s2 dest)) s2"
  using assms by (auto simp: moveQueued_def Let_def split: if_splits option.splits)

lemma moveQueued_Inl: "moveQueued r dest index s = (Inl e, s') \<Longrightarrow> s' = s"
  by (auto simp: moveQueued_def Let_def split: if_splits option.splits)

lemma wf_moveQueued [wf_intros]:
  assumes wf: "wf_store s" and mv: "moveQueued r dest index s = (res, s')"
  shows "wf_store s'"
proof (cases res)
  case (Inl e)
  with mv wf show ?thesis by (auto dest: moveQueued_Inl)
next
  case (Inr u)
  obtain i s2 where i: "index_of r (lane s (act_delivery (objs s r))) = Some i"
    and s2: "s2 = detach r i dest s"
    and s': "s' = set_lane dest (insert_at (move_position (objs s2) (lane s2 dest) index) r (lane s2 dest)) s2"
    by (rule moveQueued_Inr [OF mv [unfolded Inr]])
  note d = detach_simps [OF wf i, of dest, folded s2]
  from index_of_Some [OF i] have r: "r \<in> set (lane s (act_delivery (objs s r)))"
    by (metis nth_mem)
  have ro: "r \<in> owned s" using r by (auto simp: owned_lanes)
  have ow: "owned s' = owned s"
    unfolding s' owned_set_lane_insert using ro by (auto simp: owned_lanes d)
  have id: "act_id (objs s' q) = act_id (objs s q)" for q by (simp add: s' d)
  have tk: "tickets s' = tickets s" by (simp add: s' d)
  show ?thesis
  proof (rule wf_storeI)
    show "distinct (lane s' q)" for q
      using wf_storeD(1) [OF wf] by (cases "q = dest") (auto simp: s' d)
    show "act_delivery (objs s' q) = pp" if "q \<in> set (lane s' pp)" for q pp
      using that wf_storeD(2) [OF wf] by (cases "pp = dest") (auto simp: s' d)
  qed (use wf_storeD(3,4) [OF wf] in \<open>simp_all add: ow id tk\<close>)
qed

lemma wf_releaseTerminal [wf_intros]:
  assumes wf: "wf_store s" and ro: "r \<in> owned s" and rel: "releaseTerminal r s = (res, s')"
  shows "wf_store s'"
proof (cases "terminal_state (state_of s r)")
  case False
  with rel wf show ?thesis by (simp add: releaseTerminal_def)
next
  case True
  define p where "p = act_delivery (objs s r)"
  from ro have rin: "r \<in> set (lane s p)" unfolding p_def by (simp add: owned_lane [OF wf])
  then obtain i where i: "index_of r (lane s p) = Some i" by (cases "index_of r (lane s p)") auto
  from index_of_Some [OF i] have il: "i < length (lane s p)" "lane s p ! i = r" by auto
  from True rel i have s': "s' = (set_lane p (remove_at i (lane s p)) s)\<lparr>tickets :=
      (tickets s)(act_id (objs s r) := None)\<rparr>"
    by (simp add: releaseTerminal_def Let_def p_def)
  have st: "set (remove_at i (lane s p)) = set (lane s p) - {r}"
    and di: "distinct (remove_at i (lane s p))"
    using set_remove_at [OF wf_storeD(1) [OF wf] il(1)] il(2) by auto
  have only: "r \<notin> set (lane s q)" if "q \<noteq> p" for q
    using that wf_storeD(2) [OF wf, of r q] by (auto simp: p_def)
  have ow: "owned s' = owned s - {r}"
    unfolding s' owned_other_fields owned_set_lane st using only by (auto simp: owned_lanes)
  show ?thesis
  proof (rule wf_storeI)
    show "distinct (lane s' q)" for q
      using di wf_storeD(1) [OF wf] by (cases "q = p") (auto simp: s')
    show "act_delivery (objs s' q) = pp" if "q \<in> set (lane s' pp)" for q pp
      using that wf_storeD(2) [OF wf] by (cases "pp = p") (auto simp: s' st)
    show "inj_on (\<lambda>q. act_id (objs s' q)) (owned s')"
      unfolding ow using wf_storeD(3) [OF wf] by (auto simp: s' intro: inj_on_subset)
    show "dom (tickets s') = (\<lambda>q. act_id (objs s' q)) ` owned s'"
      unfolding ow using wf_storeD(4) [OF wf] owned_same_id [OF wf] ro by (auto simp: s')
  qed
qed

section \<open>The store as a state machine\<close>

text \<open>
  The steps of the store and its callers. A caller may allocate an object that no lane holds,
  call any operation on any object, and release only an action the store owns.
\<close>

definition store_init :: "store \<Rightarrow> bool" where
  "store_init s = (s = emptyStore (objs s))"

inductive store_step :: "store \<Rightarrow> store \<Rightarrow> bool" where
  Enqueue: "enqueue r placement s = (res, s') \<Longrightarrow> store_step s s'"
| Select: "selectFirst s = (found, s') \<Longrightarrow> store_step s s'"
| Remove: "remove pred candidates s = (removed, s') \<Longrightarrow> store_step s s'"
| Rollback: "rollback r proof s = (res, s') \<Longrightarrow> store_step s s'"
| Transition: "transition_ref r nxt proof s = (res, s') \<Longrightarrow> store_step s s'"
| Swap: "swapQueued l r s = (res, s') \<Longrightarrow> store_step s s'"
| Move: "moveQueued r dest index s = (res, s') \<Longrightarrow> store_step s s'"
| Release: "r \<in> owned s \<Longrightarrow> releaseTerminal r s = (res, s') \<Longrightarrow> store_step s s'"
| Allocate: "r \<notin> owned s \<Longrightarrow> store_step s (s\<lparr>objs := (objs s)(r := a)\<rparr>)"

lemma wf_emptyStore: "wf_store (emptyStore h)"
  by (simp add: wf_store_def emptyStore_def owned_def)

lemma wf_allocate [wf_intros]:
  "wf_store s \<Longrightarrow> r \<notin> owned s \<Longrightarrow> wf_store (s\<lparr>objs := (objs s)(r := a)\<rparr>)"
  unfolding wf_store_def owned_def by (auto simp: inj_on_def image_iff)

interpretation store_machine: invariant_machine store_init store_step wf_store
proof
  show "wf_store s" if "store_init s" for s
    using that wf_emptyStore [of "objs s"] by (simp add: store_init_def)
  show "wf_store t" if "wf_store s" "store_step s t" for s t
    using that(2,1) by cases (auto intro: wf_intros)
qed

section \<open>Queue order\<close>

lemma is_queued_state: "is_queued (objs s) r \<longleftrightarrow> state_of s r = S_queued"
  by (simp add: is_queued_def state_of_def)

lemma queuedActions_lane: "queuedActions s (Some p) = filter (is_queued (objs s)) (lane s p)"
  by (simp add: queuedActions_def actions_def is_queued_state [abs_def])

lemma insertion_scan_split:
  assumes "insertion_scan h rank xs n n = i" and "n \<le> length xs"
  shows "i \<le> n \<and> (\<forall>j. i \<le> j \<and> j < n \<longrightarrow> is_queued h (xs ! j) \<and> priority_rank (act_priority (h (xs ! j))) < rank)
    \<and> (i = 0 \<or> \<not> is_queued h (xs ! (i - 1)) \<or> rank \<le> priority_rank (act_priority (h (xs ! (i - 1)))))"
  using assms
proof (induction n)
  case (Suc n)
  show ?case
  proof (cases "\<not> is_queued h (xs ! n) \<or> rank \<le> priority_rank (act_priority (h (xs ! n)))")
    case True
    with Suc.prems(1) have "i = Suc n" by auto
    with True show ?thesis by auto
  next
    case False
    with Suc.prems have "insertion_scan h rank xs n n = i" and "n \<le> length xs" by (auto simp: Let_def)
    from Suc.IH [OF this] False show ?thesis by (auto simp: less_Suc_eq)
  qed
qed simp

text \<open>
  A lane is ordered when its actions that are no longer queued come first and the queued
  ones follow by descending priority.
\<close>

definition lane_ordered :: "store \<Rightarrow> delivery_policy \<Rightarrow> bool" where
  "lane_ordered s p =
     (let waiting = dropWhile (\<lambda>r. \<not> is_queued (objs s) r) (lane s p) in
      list_all (is_queued (objs s)) waiting
      \<and> sorted_wrt (\<lambda>a b. act_priority (objs s b) \<le> act_priority (objs s a)) waiting)"

lemma lane_ordered_split:
  "lane_ordered s p \<longleftrightarrow> (\<exists>pre post. lane s p = pre @ post
     \<and> (\<forall>r\<in>set pre. \<not> is_queued (objs s) r) \<and> (\<forall>r\<in>set post. is_queued (objs s) r)
     \<and> sorted_wrt (\<lambda>a b. act_priority (objs s b) \<le> act_priority (objs s a)) post)"
    (is "_ \<longleftrightarrow> ?R")
proof
  assume o: "lane_ordered s p"
  let ?pre = "takeWhile (\<lambda>r. \<not> is_queued (objs s) r) (lane s p)"
  let ?post = "dropWhile (\<lambda>r. \<not> is_queued (objs s) r) (lane s p)"
  have "lane s p = ?pre @ ?post" by (rule takeWhile_dropWhile_id [symmetric])
  moreover have "\<forall>r\<in>set ?pre. \<not> is_queued (objs s) r" by (metis set_takeWhileD)
  moreover have "\<forall>r\<in>set ?post. is_queued (objs s) r"
    using o unfolding lane_ordered_def Let_def list_all_iff by (rule conjunct1)
  moreover have "sorted_wrt (\<lambda>a b. act_priority (objs s b) \<le> act_priority (objs s a)) ?post"
    using o unfolding lane_ordered_def Let_def list_all_iff by (rule conjunct2)
  ultimately show ?R by (intro exI [of _ ?pre] exI [of _ ?post] conjI)
next
  assume ?R
  then obtain pre post where l: "lane s p = pre @ post" "\<forall>r\<in>set pre. \<not> is_queued (objs s) r"
    and q: "\<forall>r\<in>set post. is_queued (objs s) r"
    and o: "sorted_wrt (\<lambda>a b. act_priority (objs s b) \<le> act_priority (objs s a)) post" by auto
  have "dropWhile (\<lambda>r. \<not> is_queued (objs s) r) (pre @ post) = post"
    using l(2) q by (cases post) (auto simp: dropWhile_append2 dropWhile_eq_Nil_conv)
  with l(1) have "dropWhile (\<lambda>r. \<not> is_queued (objs s) r) (lane s p) = post" by simp
  then show "lane_ordered s p" unfolding lane_ordered_def Let_def list_all_iff using q o by simp
qed

lemma sorted_desc_split:
  fixes f :: "'a \<Rightarrow> 'b :: linorder"
  assumes "sorted_wrt (\<lambda>a b. f b \<le> f a) (xs @ ys)" and "\<forall>y\<in>set ys. f y < c"
    and "xs = [] \<or> c \<le> f (last xs)"
  shows "filter (\<lambda>x. c \<le> f x) (xs @ ys) = xs" and "filter (\<lambda>x. f x < c) (xs @ ys) = ys"
    and "\<forall>x\<in>set xs. c \<le> f x"
proof -
  have x: "c \<le> f x" if "x \<in> set xs" for x
  proof -
    from that assms(3) have l: "c \<le> f (last xs)" by auto
    from that obtain ys' where "xs = butlast xs @ [last xs]" by (cases xs rule: rev_cases) auto
    with assms(1) that have "f (last xs) \<le> f x"
      by (metis Un_iff order.refl list.set_intros(1) set_ConsD set_append sorted_wrt_append empty_iff empty_set)
    with l show ?thesis by simp
  qed
  then show "\<forall>x\<in>set xs. c \<le> f x" by blast
  show "filter (\<lambda>x. c \<le> f x) (xs @ ys) = xs" "filter (\<lambda>x. f x < c) (xs @ ys) = ys"
    using x assms(2) by (auto simp: filter_id_conv filter_empty_conv not_le not_less)
qed

lemma enqueue_Inr:
  assumes "enqueue r placement s = (Inr u, s')"
  shows "state_of s r = S_queued" and "objs s' = objs s"
    and "lane s' (act_delivery (objs s r)) = insert_at (insertionIndex (objs s)
           (lane s (act_delivery (objs s r))) (objs s r) placement) r (lane s (act_delivery (objs s r)))"
    and "q \<noteq> act_delivery (objs s r) \<Longrightarrow> lane s' q = lane s q"
    and "tickets s' = (tickets s)(act_id (objs s r) \<mapsto> newTicket (act_id (objs s r)))"
  using assms by (auto simp: enqueue_def Let_def assertNewAction_def split: option.splits if_splits)

lemma enqueue_priority_split:
  assumes "enqueue r P_priority s = (Inr u, s')" and "p = act_delivery (objs s r)"
  obtains pre post where "lane s p = pre @ post" and "lane s' p = pre @ r # post"
    and "\<forall>q\<in>set post. is_queued (objs s) q \<and> act_priority (objs s q) < act_priority (objs s r)"
    and "pre = [] \<or> \<not> is_queued (objs s) (last pre) \<or> act_priority (objs s r) \<le> act_priority (objs s (last pre))"
proof -
  define i where "i = insertionIndex (objs s) (lane s p) (objs s r) P_priority"
  then have sc: "insertion_scan (objs s) (priority_rank (act_priority (objs s r))) (lane s p)
      (length (lane s p)) (length (lane s p)) = i"
    by (simp add: insertionIndex_def)
  note split = insertion_scan_split [OF sc order.refl]
  have il: "i \<le> length (lane s p)" using split by blast
  show ?thesis
  proof (rule that [of "take i (lane s p)" "drop i (lane s p)"])
    show "lane s p = take i (lane s p) @ drop i (lane s p)" by simp
    show "lane s' p = take i (lane s p) @ r # drop i (lane s p)"
      using enqueue_Inr(3) [OF assms(1)] by (simp add: assms(2) i_def insert_at_def)
    show "\<forall>q\<in>set (drop i (lane s p)). is_queued (objs s) q \<and> act_priority (objs s q) < act_priority (objs s r)"
      using split by (auto simp: in_set_conv_nth less_action_priority_def)
    show "take i (lane s p) = [] \<or> \<not> is_queued (objs s) (last (take i (lane s p)))
        \<or> act_priority (objs s r) \<le> act_priority (objs s (last (take i (lane s p))))"
    proof (cases "i = 0")
      case False
      with il have "last (take i (lane s p)) = lane s p ! (i - 1)"
        by (cases i) (simp_all add: take_Suc_conv_app_nth)
      with split False show ?thesis by (simp add: less_eq_action_priority_def)
    qed simp
  qed
qed

lemma queued_filter_conv:
  "(\<forall>r\<in>set pre. \<not> is_queued h r) \<Longrightarrow> (\<forall>r\<in>set post. is_queued h r) \<Longrightarrow>
     filter (is_queued h) (pre @ post) = post"
  by (simp add: filter_empty_conv filter_id_conv)

lemma find_filter: "find P xs = (case filter P xs of [] \<Rightarrow> None | y # _ \<Rightarrow> Some y)"
  by (induction xs) auto

lemma queuedActions_all: "queuedActions s None = filter (is_queued (objs s)) (nextTurnBoundary s @ whenRunIdle s)"
  by (simp add: queuedActions_def actions_def is_queued_state [abs_def])

lemma transition_queued_selected:
  "state_of s r = S_queued \<Longrightarrow>
     transition_ref r Selected None s = (Inr (), s\<lparr>objs := (objs s)(r := (objs s r)\<lparr>act_lifecycle := Selected\<rparr>)\<rparr>)"
  by (simp add: transition_ref_def transitionSessionAction_def state_of_def legal_def)

lemma transition_clearable_cancelled:
  "isClearable (objs s r) \<Longrightarrow>
     transition_ref r Cancelled proof s = (Inr (), s\<lparr>objs := (objs s)(r := (objs s r)\<lparr>act_lifecycle := Cancelled\<rparr>)\<rparr>)"
  by (cases "act_lifecycle (objs s r)")
    (simp_all add: transition_ref_def transitionSessionAction_def isClearable_def legal_def)

lemma cancel_all_clearable:
  assumes "\<forall>r\<in>set rs. isClearable (objs s r)" and "distinct rs"
  shows "cancel_all rs s = (Inr (), s\<lparr>objs := (\<lambda>r. if r \<in> set rs
           then (objs s r)\<lparr>act_lifecycle := Cancelled\<rparr> else objs s r)\<rparr>)"
  using assms
proof (induction rs arbitrary: s)
  case (Cons r rs)
  define s1 where "s1 = s\<lparr>objs := (objs s)(r := (objs s r)\<lparr>act_lifecycle := Cancelled\<rparr>)\<rparr>"
  have "cancel_all rs s1 = (Inr (), s1\<lparr>objs := (\<lambda>q. if q \<in> set rs
           then (objs s1 q)\<lparr>act_lifecycle := Cancelled\<rparr> else objs s1 q)\<rparr>)"
    by (rule Cons.IH) (use Cons.prems in \<open>auto simp: s1_def\<close>)
  moreover have "transition_ref r Cancelled None s = (Inr (), s1)"
    using Cons.prems by (simp add: transition_clearable_cancelled s1_def)
  ultimately show ?case using Cons.prems(2) by (auto simp: s1_def fun_eq_iff)
qed simp

section \<open>Properties\<close>

text \<open>
  C1: In every store reachable by the operations of the class and of its callers each action is
  in one lane only, in the lane its delivery policy names; the ids of the owned actions are
  distinct, and the tickets are exactly those of the owned actions.
\<close>

theorem store_wf_reachable:
  assumes "reach store_init store_step s"
  shows "wf_store s"
  using assms by (rule store_machine.inv_reach)

definition sample_action :: "string \<Rightarrow> action_priority \<Rightarrow> action" where
  "sample_action i prio = \<lparr>act_id = i, act_source = ''internal'', act_delivery = When_run_idle,
     act_priority = prio, act_wake = Immediate, act_payload = Command_payload ''/new'' ''new'',
     act_lifecycle = Queued, act_queueKey = None, act_agentMessageId = None, act_suppress = None\<rparr>"

definition sample_heap :: "ref \<Rightarrow> action" where
  "sample_heap r = (if r = 0 then sample_action ''a'' Background
     else if r = 1 then sample_action ''b'' User
     else if r = 2 then sample_action ''c'' Background
     else if r = 3 then sample_action ''d'' User else sample_action ''e'' Pinned)"

definition sample_store :: store where
  "sample_store = snd (enqueue 2 P_priority (snd (enqueue 1 P_priority (snd (enqueue 0 P_priority
     (emptyStore sample_heap))))))"

lemma sample_store_reach: "reach store_init store_step sample_store"
proof -
  have e: "reach store_init store_step (snd (enqueue r P_priority s))" if "reach store_init store_step s" for s r
    by (rule reach_step [OF that], rule store_step.Enqueue [of r P_priority s "fst (enqueue r P_priority s)"]) simp
  have "reach store_init store_step (emptyStore sample_heap)"
    by (rule reach_init) (simp add: store_init_def emptyStore_def)
  then show ?thesis unfolding sample_store_def by (intro e)
qed

lemma sample_store_eval:
  "nextTurnBoundary sample_store = []" "whenRunIdle sample_store = [1, 0, 2]" "objs sample_store = sample_heap"
  by (simp_all add: sample_store_def enqueue_def assertNewAction_def emptyStore_def state_of_def
      sample_heap_def sample_action_def lane_def set_lane_def insertionIndex_def Let_def insert_at_def
      is_queued_def numeral_2_eq_2)

lemma store_wf_reachable_witness: "wf_store sample_store"
  by (rule store_wf_reachable [OF sample_store_reach])

text \<open>
  C2: Priority placement is a stable insertion. In an ordered lane the action goes behind every
  queued action of at least its priority and ahead of every queued action of lower priority,
  those that have left the queue keep their places, and the lane stays ordered.
\<close>

theorem enqueue_stable_priority:
  assumes ordered: "lane_ordered s p" and p: "p = act_delivery (objs s r)"
    and enq: "enqueue r P_priority s = (Inr u, s')"
  shows "lane_ordered s' p
    \<and> queuedActions s' (Some p) =
           filter (\<lambda>q. act_priority (objs s r) \<le> act_priority (objs s q)) (queuedActions s (Some p))
           @ r # filter (\<lambda>q. act_priority (objs s q) < act_priority (objs s r)) (queuedActions s (Some p))
    \<and> filter (\<lambda>q. \<not> is_queued (objs s') q) (lane s' p) = filter (\<lambda>q. \<not> is_queued (objs s) q) (lane s p)"
proof (intro conjI)
  let ?ge = "\<lambda>a b. act_priority (objs s b) \<le> act_priority (objs s a)"
  obtain pre post where l: "lane s p = pre @ post" and l': "lane s' p = pre @ r # post"
    and post: "\<forall>q\<in>set post. is_queued (objs s) q \<and> act_priority (objs s q) < act_priority (objs s r)"
    and bd: "pre = [] \<or> \<not> is_queued (objs s) (last pre) \<or> ?ge (last pre) r"
    by (rule enqueue_priority_split [OF enq p])
  obtain a b where ab: "lane s p = a @ b" "\<forall>q\<in>set a. \<not> is_queued (objs s) q" "\<forall>q\<in>set b. is_queued (objs s) q"
    and sb: "sorted_wrt ?ge b"
    using ordered unfolding lane_ordered_split by auto
  obtain c where c: "pre = a @ c" "b = c @ post"
  proof -
    from l ab(1) obtain us where "pre = a @ us \<and> us @ post = b \<or> pre @ us = a \<and> post = us @ b"
      by (auto simp: append_eq_append_conv2)
    moreover have "us = []" if "pre @ us = a" "post = us @ b"
      using post ab(2) that by (cases us) auto
    ultimately show ?thesis by (intro that [of us]) auto
  qed
  have cq: "\<forall>q\<in>set c. is_queued (objs s) q" using ab(3) c(2) by simp
  have cl: "c = [] \<or> ?ge (last c) r"
    using bd c(1) cq by (cases "c = []") auto
  note sp = sorted_desc_split [of "\<lambda>q. act_priority (objs s q)" c post, OF sb [unfolded c(2)] _ cl]
  have pp: "\<forall>q\<in>set post. act_priority (objs s q) < act_priority (objs s r)" using post by blast
  have o: "objs s' = objs s" and rq: "is_queued (objs s) r"
    using enqueue_Inr [OF enq] by (simp_all add: is_queued_state)
  have q: "queuedActions s (Some p) = c @ post"
    using l c ab(2,3) by (simp add: queuedActions_lane queued_filter_conv)
  have q': "queuedActions s' (Some p) = c @ r # post"
    using l' c(1) ab(2,3) c(2) rq by (simp add: queuedActions_lane o queued_filter_conv)
  show "queuedActions s' (Some p) =
           filter (\<lambda>q. act_priority (objs s r) \<le> act_priority (objs s q)) (queuedActions s (Some p))
           @ r # filter (\<lambda>q. act_priority (objs s q) < act_priority (objs s r)) (queuedActions s (Some p))"
    unfolding q q' sp(1) [OF pp] sp(2) [OF pp] ..
  show "filter (\<lambda>q. \<not> is_queued (objs s') q) (lane s' p) = filter (\<lambda>q. \<not> is_queued (objs s) q) (lane s p)"
    by (simp add: o l l' rq)
  have "sorted_wrt ?ge (c @ r # post)"
    using sb c(2) sp(3) [OF pp] pp by (auto simp: sorted_wrt_append intro: less_imp_le)
  then show "lane_ordered s' p"
    unfolding lane_ordered_split o using ab(2) cq post rq l' c(1)
    by (intro exI [of _ a] exI [of _ "c @ r # post"]) auto
qed

lemma enqueue_stable_priority_witness:
  "queuedActions (snd (enqueue 3 P_priority sample_store)) (Some When_run_idle) = [1, 3, 0, 2]"
proof -
  have "lane_ordered sample_store When_run_idle"
    by (simp add: lane_ordered_def lane_def sample_store_eval is_queued_def sample_heap_def
        sample_action_def less_eq_action_priority_def)
  moreover have "When_run_idle = act_delivery (objs sample_store 3)"
    by (simp add: sample_store_eval sample_heap_def sample_action_def)
  moreover have "enqueue 3 P_priority sample_store = (Inr (), snd (enqueue 3 P_priority sample_store))"
    by (simp add: sample_store_def enqueue_def assertNewAction_def emptyStore_def state_of_def
      sample_heap_def sample_action_def lane_def set_lane_def insertionIndex_def Let_def insert_at_def
      is_queued_def numeral_2_eq_2)
  ultimately have "queuedActions (snd (enqueue 3 P_priority sample_store)) (Some When_run_idle) =
      filter (\<lambda>q. act_priority (sample_heap 3) \<le> act_priority (sample_heap q)) [1, 0, 2]
      @ 3 # filter (\<lambda>q. act_priority (sample_heap q) < act_priority (sample_heap 3)) [1, 0, 2]"
    using enqueue_stable_priority [where s = sample_store and r = 3 and p = When_run_idle and u = "()"
        and s' = "snd (enqueue 3 P_priority sample_store)"]
    by (simp add: queuedActions_lane lane_def sample_store_eval is_queued_def sample_heap_def sample_action_def)
  then show ?thesis
    by (simp add: sample_heap_def sample_action_def less_eq_action_priority_def less_action_priority_def)
qed

text \<open>
  \<open>selectFirst\<close> dequeues. It never fails; with no queued action it changes nothing, and
  otherwise it returns the first queued action, next-turn-boundary before run-idle, marks it
  selected, and leaves as queued exactly the others in their order.
\<close>

lemma selectFirst_dequeues:
  assumes wf: "wf_store s"
  shows "case queuedActions s None of
     [] \<Rightarrow> selectFirst s = (Inr None, s)
   | r # rest \<Rightarrow> (\<exists>s'. selectFirst s = (Inr (Some r), s') \<and> state_of s' r = S_selected
        \<and> queuedActions s' None = rest \<and> nextTurnBoundary s' = nextTurnBoundary s
        \<and> whenRunIdle s' = whenRunIdle s \<and> (\<forall>q. q \<noteq> r \<longrightarrow> objs s' q = objs s q))"
proof (cases "queuedActions s None")
  case Nil
  then show ?thesis
    by (auto simp: selectFirst_def queuedActions_all find_filter split: list.splits)
next
  case (Cons r rest)
  have found: "(case find (is_queued (objs s)) (nextTurnBoundary s) of
        Some r \<Rightarrow> Some r | None \<Rightarrow> find (is_queued (objs s)) (whenRunIdle s)) = Some r"
    using Cons by (auto simp: queuedActions_all find_filter split: list.splits)
  have rq: "state_of s r = S_queued"
  proof -
    have "r \<in> set (queuedActions s None)" by (simp add: Cons)
    then show ?thesis by (simp add: queuedActions_def)
  qed
  define s' where "s' = s\<lparr>objs := (objs s)(r := (objs s r)\<lparr>act_lifecycle := Selected\<rparr>)\<rparr>"
  have sel: "selectFirst s = (Inr (Some r), s')"
    unfolding selectFirst_def Let_def found by (simp add: transition_queued_selected [OF rq] s'_def)
  have fr: "\<forall>q. q \<noteq> r \<longrightarrow> objs s' q = objs s q" "nextTurnBoundary s' = nextTurnBoundary s"
    "whenRunIdle s' = whenRunIdle s" by (simp_all add: s'_def)
  have iq: "is_queued (objs s') q \<longleftrightarrow> is_queued (objs s) q \<and> q \<noteq> r" for q
    by (simp add: s'_def is_queued_def)
  have d: "distinct (r # rest)"
    using wf Cons unfolding wf_store_def by (metis queuedActions_all distinct_filter)
  have "queuedActions s' None = filter (\<lambda>q. q \<noteq> r) (queuedActions s None)"
    unfolding queuedActions_all filter_filter
    by (simp add: iq fr cong: filter_cong)
  also have "\<dots> = rest"
    unfolding Cons using d by (auto simp: filter_id_conv)
  finally have qs: "queuedActions s' None = rest" .
  have st: "state_of s' r = S_selected" by (simp add: s'_def state_of_def)
  show ?thesis
    unfolding Cons list.case
    by (intro exI [of _ s'] conjI sel st qs fr)
qed

text \<open>
  \<open>remove\<close> over the clearable actions (its default candidates) never fails, whatever the
  predicate: it cancels exactly the clearable actions that satisfy it, leaves every other object
  and both lanes as they were, and the clearable actions that remain are the others in order.
\<close>

lemma remove_clearable_exact:
  assumes wf: "wf_store s"
  shows "\<exists>s'. remove pred (clearableActions s None) s =
      (Inr (filter (\<lambda>r. pred (objs s r)) (clearableActions s None)), s')
    \<and> (\<forall>r. objs s' r = (if r \<in> owned s \<and> isClearable (objs s r) \<and> pred (objs s r)
                        then (objs s r)\<lparr>act_lifecycle := Cancelled\<rparr> else objs s r))
    \<and> actions s' None = actions s None \<and> tickets s' = tickets s
    \<and> clearableActions s' None = filter (\<lambda>r. \<not> pred (objs s r)) (clearableActions s None)"
proof -
  let ?rs = "filter (\<lambda>r. pred (objs s r)) (clearableActions s None)"
  define s' where "s' = s\<lparr>objs := (\<lambda>r. if r \<in> set ?rs
     then (objs s r)\<lparr>act_lifecycle := Cancelled\<rparr> else objs s r)\<rparr>"
  have d: "distinct ?rs"
    using wf by (auto simp: wf_store_def clearableActions_def actions_def)
  have c: "\<forall>r\<in>set ?rs. isClearable (objs s r)" by (simp add: clearableActions_def)
  have rm: "remove pred (clearableActions s None) s = (Inr ?rs, s')"
    unfolding remove_def Let_def cancel_all_clearable [OF c d] by (simp add: s'_def)
  have mem: "r \<in> set ?rs \<longleftrightarrow> r \<in> owned s \<and> isClearable (objs s r) \<and> pred (objs s r)" for r
    by (auto simp: clearableActions_def set_actions)
  have ac: "actions s' None = actions s None" by (simp add: s'_def actions_def)
  have nc: "\<not> isClearable ((objs s r)\<lparr>act_lifecycle := Cancelled\<rparr>)" for r by (simp add: isClearable_def)
  have "clearableActions s' None = filter (\<lambda>r. \<not> pred (objs s r)) (clearableActions s None)"
    unfolding clearableActions_def ac filter_filter
    by (rule filter_cong) (auto simp: s'_def mem nc set_actions clearableActions_def)
  then show ?thesis
    by (intro exI [of _ s'] conjI rm ac allI) (simp_all add: s'_def mem del: set_filter)
qed

lemma filter_index_split:
  assumes "k < length (filter P xs)"
  obtains a b where "xs = a @ (filter P xs ! k) # b" and "filter P a = take k (filter P xs)"
    and "filter P b = drop (Suc k) (filter P xs)"
  using assms
proof (induction xs arbitrary: k thesis)
  case (Cons x xs)
  show ?case
  proof (cases "P x \<and> k = 0")
    case True
    then show ?thesis by (intro Cons.prems(1) [of "[]" xs]) auto
  next
    case False
    let ?k = "if P x then k - 1 else k"
    have "?k < length (filter P xs)" using Cons.prems(2) False by (auto split: if_splits)
    then obtain a b where "xs = a @ (filter P xs ! ?k) # b" "filter P a = take ?k (filter P xs)"
      "filter P b = drop (Suc ?k) (filter P xs)" by (rule Cons.IH [rotated])
    with False show ?thesis
      by (intro Cons.prems(1) [of "x # a" b]) (auto simp: nth_Cons take_Cons drop_Cons split: nat.splits)
  qed
qed simp

lemma index_of_append_distinct:
  "x \<notin> set a \<Longrightarrow> index_of x (a @ x # b) = Some (length a)"
  unfolding index_of_def by (induction a) auto

text \<open>The queued actions of the target around the insertion point of \<open>moveQueued\<close>.\<close>

lemma move_position_split:
  fixes h :: "ref \<Rightarrow> action" and target :: "ref list" and index :: int
  assumes "distinct target"
  defines "q \<equiv> filter (is_queued h) target"
  defines "k \<equiv> nat (max 0 (min index (int (length q))))"
  shows "filter (is_queued h) (take (move_position h target index) target) = take k q
    \<and> filter (is_queued h) (drop (move_position h target index) target) = drop k q"
proof (cases "k < length q")
  case True
  then obtain a b where ab: "target = a @ (q ! k) # b" "filter (is_queued h) a = take k q"
    "filter (is_queued h) b = drop (Suc k) q"
    unfolding q_def by (rule filter_index_split)
  have qk: "is_queued h (q ! k)" using nth_mem [OF True] by (simp add: q_def)
  from ab(1) assms(1) have "q ! k \<notin> set a" by (metis distinct_append distinct.simps(2) disjoint_iff list.set_intros(1))
  then have io: "index_of (q ! k) target = Some (length a)"
    by (subst ab(1)) (rule index_of_append_distinct)
  have "move_position h target index = length a"
    unfolding move_position_def Let_def q_def [symmetric] k_def [symmetric] using True io by simp
  then show ?thesis
    using ab(2,3) qk Cons_nth_drop_Suc [OF True] arg_cong [OF ab(1), of "take (length a)"]
      arg_cong [OF ab(1), of "drop (length a)"] by simp
next
  case False
  then have "k = length q" by (auto simp: k_def)
  moreover have "move_position h target index = length target"
    unfolding move_position_def Let_def q_def [symmetric] k_def [symmetric] using False by simp
  ultimately show ?thesis by (simp add: q_def)
qed

text \<open>
  \<open>moveQueued\<close> puts the action at the requested place among the queued actions of the target
  lane: at index clamped to the queue's length, the others keep their order, the items that are
  no longer queued keep theirs, and the lane it came from only loses it.
\<close>

lemma moveQueued_position:
  assumes wf: "wf_store s" and mv: "moveQueued r dest index s = (Inr u, s')"
  shows "queuedActions s' (Some dest) =
      (let others = filter (\<lambda>q. q \<noteq> r) (queuedActions s (Some dest))
       in insert_at (nat (max 0 (min index (int (length others))))) r others)
    \<and> filter (\<lambda>q. \<not> is_queued (objs s') q) (lane s' dest) = filter (\<lambda>q. \<not> is_queued (objs s) q) (lane s dest)
    \<and> (\<forall>p. p \<noteq> dest \<longrightarrow> lane s' p = filter (\<lambda>q. q \<noteq> r) (lane s p))
    \<and> act_delivery (objs s' r) = dest"
proof -
  obtain i s2 where i: "index_of r (lane s (act_delivery (objs s r))) = Some i" and rq: "state_of s r = S_queued"
    and s2: "s2 = detach r i dest s"
    and s': "s' = set_lane dest (insert_at (move_position (objs s2) (lane s2 dest) index) r (lane s2 dest)) s2"
    by (rule moveQueued_Inr [OF mv])
  note d = detach_simps [OF wf i, of dest, folded s2]
  let ?l = "filter (\<lambda>x. x \<noteq> r) (lane s dest)" and ?n = "move_position (objs s2) (lane s2 dest) index"
  have iq: "is_queued (objs s2) x = is_queued (objs s) x" for x by (simp add: d(1) is_queued_def)
  have o: "objs s' = objs s2" by (simp add: s')
  have l: "lane s2 dest = ?l" by (rule d(3))
  have oth: "filter (\<lambda>q. q \<noteq> r) (queuedActions s (Some dest)) = filter (is_queued (objs s2)) ?l"
    unfolding queuedActions_lane filter_filter iq by (rule filter_cong) auto
  have "distinct ?l" using wf_storeD(1) [OF wf] by simp
  note pos = move_position_split [OF this, of "objs s2" index]
  have rq2: "is_queued (objs s2) r" using rq iq [of r] is_queued_state [of s r] by blast
  have "queuedActions s' (Some dest) = insert_at (nat (max 0 (min index (int (length
      (filter (is_queued (objs s2)) ?l)))))) r (filter (is_queued (objs s2)) ?l)"
    unfolding queuedActions_lane o s' lane_simps filter_insert_at l
    using pos rq2 by (simp add: insert_at_def)
  moreover have "filter (\<lambda>q. \<not> is_queued (objs s') q) (lane s' dest) = filter (\<lambda>q. \<not> is_queued (objs s) q) (lane s dest)"
  proof -
    have "filter (\<lambda>q. \<not> is_queued (objs s') q) (lane s' dest) = filter (\<lambda>q. \<not> is_queued (objs s2) q) ?l"
      unfolding o s' lane_simps filter_insert_at l using rq2
      by (simp add: filter_append [symmetric] del: filter_append)
    also have "\<dots> = filter (\<lambda>q. \<not> is_queued (objs s) q) (lane s dest)"
      unfolding filter_filter iq using rq by (intro filter_cong) (auto simp: is_queued_state)
    finally show ?thesis .
  qed
  moreover have "\<forall>p. p \<noteq> dest \<longrightarrow> lane s' p = filter (\<lambda>q. q \<noteq> r) (lane s p)" "act_delivery (objs s' r) = dest"
    by (simp_all add: s' d)
  ultimately show ?thesis unfolding Let_def oth by blast
qed

text \<open>A history of one action: the transitions its owners apply, each of which must succeed.\<close>

fun transition_all :: "(lifecycle \<times> rollback_proof option) list \<Rightarrow> action \<Rightarrow> action_error + action" where
  "transition_all [] a = Inr a"
| "transition_all ((nxt, pr) # rest) a =
     (case transitionSessionAction a nxt pr of Inl e \<Rightarrow> Inl e | Inr b \<Rightarrow> transition_all rest b)"

lemma transition_all_snoc:
  "transition_all (h @ [(nxt, pr)]) a =
     (case transition_all h a of Inl e \<Rightarrow> Inl e | Inr b \<Rightarrow> transitionSessionAction b nxt pr)"
  by (induction h arbitrary: a) (auto split: sum.splits)

lemma transition_all_last:
  "transition_all h a = Inr b \<Longrightarrow> act_lifecycle b = (if h = [] then act_lifecycle a else fst (last h))"
  by (cases h rule: rev_cases)
    (auto simp: transition_all_snoc split: sum.splits dest!: transitionSessionAction_Inr(1))

lemma transition_all_payload:
  "transition_all h a = Inr b \<Longrightarrow> act_payload b = act_payload a"
  by (induction h arbitrary: a) (auto split: sum.splits dest!: transitionSessionAction_Inr(1))

lemma legal_into:
  "legal s S_completed \<longleftrightarrow> s = S_running"
  "legal s S_running \<longleftrightarrow> s = S_selected \<or> s = S_committing"
  "legal s S_committing \<longleftrightarrow> s = S_preparing"
  "legal s S_preparing \<longleftrightarrow> s = S_selected"
  "legal s S_selected \<longleftrightarrow> s = S_queued"
  "terminal_state s \<Longrightarrow> \<not> legal s t"
  by (cases s; simp add: legal_def)+

text \<open>
  Along any history of successful transitions that starts from a queued action, an action
  that is completed was running immediately before and nothing follows it: no transition
  succeeds on a completed, failed or cancelled action.
\<close>

lemma completed_only_from_running:
  assumes queued: "act_lifecycle a = Queued" and hist: "transition_all (h @ rest) a = Inr b"
    and h: "h \<noteq> []" and tm: "terminal_state (lc_state (fst (last h)))"
  shows "rest = [] \<and> (lc_state (fst (last h)) = S_completed \<longrightarrow>
           butlast h \<noteq> [] \<and> (\<exists>x. fst (last (butlast h)) = Running x))"
proof -
  have app: "transition_all (g @ rest) a = (case transition_all g a of Inl e \<Rightarrow> Inl e | Inr c \<Rightarrow> transition_all rest c)"
    for g a by (induction g arbitrary: a) (auto split: sum.splits)
  from hist obtain c where c: "transition_all h a = Inr c" "transition_all rest c = Inr b"
    by (auto simp: app split: sum.splits)
  have lc: "act_lifecycle c = fst (last h)" using transition_all_last [OF c(1)] h by simp
  have "rest = []"
  proof (cases rest)
    case (Cons p ps)
    with c(2) obtain d where "transitionSessionAction c (fst p) (snd p) = Inr d"
      by (cases p) (auto split: sum.splits)
    from transitionSessionAction_Inr(2) [OF this] lc tm legal_into(6) show ?thesis by metis
  qed simp
  moreover have "butlast h \<noteq> [] \<and> (\<exists>x. fst (last (butlast h)) = Running x)"
    if fin: "lc_state (fst (last h)) = S_completed"
  proof -
    obtain g nxt pr where g: "h = g @ [(nxt, pr)]" using h by (metis rev_exhaust surj_pair)
    with c(1) obtain m where m: "transition_all g a = Inr m" "transitionSessionAction m nxt pr = Inr c"
      by (auto simp: transition_all_snoc split: sum.splits)
    from transitionSessionAction_Inr(2) [OF m(2)] fin g have "lc_state (act_lifecycle m) = S_running"
      by (simp add: legal_into)
    then obtain x where x: "act_lifecycle m = Running x" by (cases "act_lifecycle m") auto
    have "act_lifecycle m = (if g = [] then Queued else fst (last g))"
      using transition_all_last [OF m(1)] queued by simp
    with x g show ?thesis by (auto split: if_splits)
  qed
  ultimately show ?thesis by blast
qed

text \<open>
  Whole-worker eviction is a conjunction over the sessions: a worker that may be evicted is
  ready, connected, unowned and has sessions, and each of them has been inactive, detached and
  without a cron job for at least the threshold, which is a finite positive number of minutes.
  Waiting longer keeps it evictable, and an unlimited, non-finite or non-positive threshold
  evicts nothing.
\<close>

theorem evict_only_idle_workers:
  assumes "canEvictWorker w m now"
  shows "(\<exists>k. m = Minutes (Finite k) \<and> k > 0 \<and> w_sessions w \<noteq> []
      \<and> (\<forall>x \<in> set (w_sessions w). \<not> isSessionActive x \<and> attachedClients x = 0 \<and> \<not> hasRegisteredCronJob x
           \<and> (\<exists>t. lastActivityAt x = Finite t \<and> t + k * 60000 \<le> now)))
    \<and> (later \<ge> now \<longrightarrow> canEvictWorker w m later)"
proof -
  have ne: "w_sessions w \<noteq> []" and all: "\<forall>x\<in>set (w_sessions w). isIdleEvictionThresholdMet x m now"
    using assms by (auto simp: canEvictWorker_def list_all_iff split: if_splits)
  from all last_in_set [OF ne] have "isIdleEvictionThresholdMet (last (w_sessions w)) m now" by (rule bspec)
  then obtain k where k: "m = Minutes (Finite k)" "k > 0"
    by (auto simp: isIdleEvictionThresholdMet_def split: idle_minutes.splits jsnumber.splits)
  have each: "\<not> isSessionActive x \<and> attachedClients x = 0 \<and> \<not> hasRegisteredCronJob x
           \<and> (\<exists>t. lastActivityAt x = Finite t \<and> t + k * 60000 \<le> now)" if "x \<in> set (w_sessions w)" for x
    using bspec [OF all that] k
    by (cases "lastActivityAt x") (auto simp: isIdleEvictionThresholdMet_def algebra_simps)
  have "isIdleEvictionThresholdMet x m later" if "x \<in> set (w_sessions w)" "later \<ge> now" for x
    using all that k by (fastforce simp: isIdleEvictionThresholdMet_def split: jsnumber.splits)
  with assms have "later \<ge> now \<longrightarrow> canEvictWorker w m later"
    by (auto simp: canEvictWorker_def list_all_iff split: if_splits)
  with k ne each show ?thesis by blast
qed

definition sample_worker :: worker_snapshot where
  "sample_worker = \<lparr>w_lifecycle = W_ready, isConnected = True, isStopping = False, hasOwnerClient = False,
     isPreparingUpdateRestart = False, hasWakeBlindSchedule = False,
     w_sessions = [\<lparr>isSessionActive = False, attachedClients = 0, hasRegisteredCronJob = False,
       lastActivityAt = Finite 5\<rparr>]\<rparr>"

end
