(* ===== verification/Action_Delivery.thy ===== *)
theory Action_Delivery
  imports Session_Actions
begin

text \<open>
  How a session delivers the turns of its queue:
  \<open>packages/coding-agent/src/core/agent-session.ts\<close>, the message events of
  \<open>_handleAgentEvent\<close> and what \<open>_pumpSessionInputs\<close> does with a batch after its dispatch
  returned or threw. The store is that of \<open>Session_Actions\<close>; messages are references, as the
  code compares them by identity. Not here: preparing a turn, the policies of the pump, the
  notices it sends and the capture of cancelled runs (a parameter).
\<close>


section \<open>Records of a turn\<close>

definition payload_records :: "action_payload \<Rightarrow> delivery_record list" where
  "payload_records p = (case p of Turn_payload rs _ _ \<Rightarrow> rs | Command_payload _ _ \<Rightarrow> [])"

definition is_turn :: "action \<Rightarrow> bool" where
  "is_turn a = (case act_payload a of Turn_payload _ _ _ \<Rightarrow> True | Command_payload _ _ \<Rightarrow> False)"

definition primaryDeliveryRecord :: "action \<Rightarrow> delivery_record option" where
  "primaryDeliveryRecord a = find (\<lambda>d. rec_role d = Primary) (payload_records (act_payload a))"

definition record_for :: "ref \<Rightarrow> action \<Rightarrow> delivery_record option" where
  "record_for m a = find (\<lambda>d. rec_message d = m) (payload_records (act_payload a))"

text \<open>Assigning to a field of the first record that satisfies a test.\<close>

fun mark_first :: "(delivery_record \<Rightarrow> bool) \<Rightarrow> (delivery_record \<Rightarrow> delivery_record)
    \<Rightarrow> delivery_record list \<Rightarrow> delivery_record list" where
  "mark_first test f [] = []"
| "mark_first test f (d # ds) = (if test d then f d # ds else d # mark_first test f ds)"

definition set_records :: "(delivery_record list \<Rightarrow> delivery_record list) \<Rightarrow> ref \<Rightarrow> store \<Rightarrow> store" where
  "set_records f r s = (case act_payload (objs s r) of
     Turn_payload rs txt pv \<Rightarrow>
       s\<lparr>objs := (objs s)(r := (objs s r)\<lparr>act_payload := Turn_payload (f rs) txt pv\<rparr>)\<rparr>
   | Command_payload _ _ \<Rightarrow> s)"

text \<open>Statements in sequence, where the first may throw, and \<open>for (const action of actions)\<close>.\<close>

definition and_do :: "unit outcome \<Rightarrow> (store \<Rightarrow> 'a outcome) \<Rightarrow> 'a outcome" where
  "and_do p k = (case p of (Inl e, s) \<Rightarrow> (Inl e, s) | (Inr _, s) \<Rightarrow> k s)"

fun for_each :: "(ref \<Rightarrow> store \<Rightarrow> unit outcome) \<Rightarrow> ref list \<Rightarrow> store \<Rightarrow> unit outcome" where
  "for_each body [] s = (Inr (), s)"
| "for_each body (r # rs) s = and_do (body r s) (for_each body rs)"

definition with_ticket :: "(ticket \<Rightarrow> bool \<times> ticket) \<Rightarrow> ref \<Rightarrow> store \<Rightarrow> unit outcome" where
  "with_ticket f r s = (case ticketFor s r of
     Inl e \<Rightarrow> (Inl e, s)
   | Inr t \<Rightarrow> (Inr (), s\<lparr>tickets := (tickets s)(act_id (objs s r) \<mapsto> snd (f t))\<rparr>))"

definition primary_messages :: "delivery_record list \<Rightarrow> ref list" where
  "primary_messages ds = map rec_message (filter (\<lambda>d. rec_role d = Primary) ds)"

section \<open>Message events of the run\<close>

definition start_record :: "ref \<Rightarrow> ref \<Rightarrow> store \<Rightarrow> unit outcome" where
  "start_record m r s =
     (let s1 = set_records (mark_first (\<lambda>d. rec_message d = m) (\<lambda>d. d\<lparr>rec_started := True\<rparr>)) r s
      in case record_for m (objs s r) of
           Some d \<Rightarrow> if rec_role d = Primary then with_ticket (\<lambda>t. settleDelivered t Delivered) r s1
                     else (Inr (), s1)
         | None \<Rightarrow> (Inr (), s1))"

definition on_message_start :: "ref \<Rightarrow> store \<Rightarrow> unit outcome" where
  "on_message_start m s = for_each (start_record m) (actionsForMessage s m) s"

definition end_record :: "ref \<Rightarrow> ref \<Rightarrow> store \<Rightarrow> unit outcome" where
  "end_record m r s =
     (let s1 = set_records (mark_first (\<lambda>d. rec_message d = m) (\<lambda>d. d\<lparr>rec_durable := True\<rparr>)) r s
      in case record_for m (objs s r) of
           Some d \<Rightarrow> if rec_role d = Primary \<and> state_of s1 r = S_committing
                     then transition_ref r (Running Agent_turn) None s1 else (Inr (), s1)
         | None \<Rightarrow> (Inr (), s1))"

definition on_message_end :: "ref \<Rightarrow> store \<Rightarrow> unit outcome" where
  "on_message_end m s = for_each (end_record m) (actionsForMessage s m) s"

section \<open>The end of a dispatch\<close>

text \<open>A dispatch that returned: every delivered action is completed.\<close>

definition arrived :: "ref list \<Rightarrow> ref \<Rightarrow> store \<Rightarrow> unit outcome" where
  "arrived msgs r s =
     (if state_of s r \<noteq> S_committing then (Inr (), s)
      else case primaryDeliveryRecord (objs s r) of
          None \<Rightarrow> (Inl (No_primary_record (act_id (objs s r))), s)
        | Some d \<Rightarrow>
            if rec_message d \<in> set msgs
            then transition_ref r (Running Agent_turn) None
              (set_records (mark_first (\<lambda>d. rec_role d = Primary) (\<lambda>d. d\<lparr>rec_durable := True\<rparr>)) r s)
            else (Inr (), s))"

definition complete_one :: "ref list \<Rightarrow> ref \<Rightarrow> store \<Rightarrow> unit outcome" where
  "complete_one msgs r s = and_do (arrived msgs r s) (\<lambda>s1.
     if state_of s1 r \<noteq> S_running then (Inr (), s1)
     else and_do (transition_ref r Completed None s1) (with_ticket (\<lambda>t. settleCompleted t None) r))"

text \<open>
  A dispatch that threw. The records learn what reached the transcript, prefixes that did and
  next-turn context that did not are dropped, and the actions whose primary record is not
  durable are the undelivered ones.
\<close>

definition prune_records :: "ref list \<Rightarrow> delivery_record list \<Rightarrow> delivery_record list" where
  "prune_records msgs ds =
     filter (\<lambda>d. case rec_role d of Prefix \<Rightarrow> \<not> rec_durable d | Next_turn \<Rightarrow> rec_durable d | Primary \<Rightarrow> True)
       (map (\<lambda>d. d\<lparr>rec_durable := rec_durable d \<or> rec_message d \<in> set msgs\<rparr>) ds)"

fun collect_undelivered :: "ref list \<Rightarrow> ref list \<Rightarrow> store \<Rightarrow> ref list outcome" where
  "collect_undelivered msgs [] s = (Inr [], s)"
| "collect_undelivered msgs (r # rs) s =
     (if \<not> is_turn (objs s r) \<or> state_of s r = S_cancelled then collect_undelivered msgs rs s
      else let s1 = set_records (prune_records msgs) r s in
        case primaryDeliveryRecord (objs s1 r) of
          None \<Rightarrow> (Inl (No_primary_record (act_id (objs s1 r))), s1)
        | Some d \<Rightarrow>
            (case collect_undelivered msgs rs s1 of
               (Inl e, s2) \<Rightarrow> (Inl e, s2)
             | (Inr us, s2) \<Rightarrow> (Inr (if rec_durable d then us else r # us), s2)))"

definition rollback_one :: "ref list \<Rightarrow> ref \<Rightarrow> store \<Rightarrow> unit outcome" where
  "rollback_one msgs r s =
     (if state_of s r = S_committing
      then rollback r (Some \<lparr>dispatchSettled = True, transcript = msgs\<rparr>) s
      else if state_of s r = S_preparing \<or> state_of s r = S_selected then rollback r None s
      else (Inr (), s))"

definition fail_one :: "string \<Rightarrow> ref list \<Rightarrow> ref \<Rightarrow> store \<Rightarrow> unit outcome" where
  "fail_one err us r s =
     (if state_of s r = S_cancelled then (Inr (), s)
      else and_do (if state_of s r \<noteq> S_completed \<and> state_of s r \<noteq> S_failed
                   then transition_ref r (Failed err) None s else (Inr (), s)) (\<lambda>s1.
           and_do (with_ticket (\<lambda>t. if r \<in> set us then rejectDelivered t err else (True, t)) r s1)
             (with_ticket (\<lambda>t. settleCompleted t (Some err)) r)))"

definition recover_dispatch :: "bool \<Rightarrow> string \<Rightarrow> ref list \<Rightarrow> ref list \<Rightarrow> store \<Rightarrow> unit outcome" where
  "recover_dispatch deferred err msgs rs s = (case collect_undelivered msgs rs s of
     (Inl e, s1) \<Rightarrow> (Inl e, s1)
   | (Inr us, s1) \<Rightarrow> if deferred then for_each (rollback_one msgs) us s1
                     else for_each (fail_one err us) rs s1)"

text \<open>The \<open>finally\<close> block; \<open>retained\<close> are the cancelled turns that still capture their run.\<close>

definition release_one :: "(ref \<Rightarrow> bool) \<Rightarrow> ref \<Rightarrow> store \<Rightarrow> unit outcome" where
  "release_one retained r s =
     (if \<not> (state_of s r = S_cancelled \<and> is_turn (objs s r) \<and> retained r) \<and> terminal_state (state_of s r)
      then releaseTerminal r s else (Inr (), s))"

text \<open>
  What the pump does with a batch after its dispatch: the dispatch returned or threw. An error
  thrown while completing is handled like one of the dispatch; \<open>classify\<close> says whether it is a
  deferral and gives its text.
\<close>

definition end_dispatch :: "(action_error \<Rightarrow> bool \<times> string) \<Rightarrow> (bool \<times> string) option \<Rightarrow> (ref \<Rightarrow> bool)
    \<Rightarrow> ref list \<Rightarrow> ref list \<Rightarrow> store \<Rightarrow> unit outcome" where
  "end_dispatch classify thrown retained msgs rs s =
     (let (res, s1) = (case thrown of
            None \<Rightarrow> (case for_each (complete_one msgs) rs s of
                (Inr _, s1) \<Rightarrow> (Inr (), s1)
              | (Inl e, s1) \<Rightarrow> recover_dispatch (fst (classify e)) (snd (classify e)) msgs rs s1)
          | Some (deferred, err) \<Rightarrow> recover_dispatch deferred err msgs rs s)
      in case for_each (release_one retained) rs s1 of
           (Inl e, s2) \<Rightarrow> (Inl e, s2)
         | (Inr _, s2) \<Rightarrow> (res, s2))"

section \<open>The session around the store\<close>

record delivery_world =
  dw_store :: store
  dw_transcript :: "ref list"
  dw_allocated :: "ref set"

text \<open>
  The steps of a session: a message joins the transcript and its events are handled, the
  pump takes actions on and ends their dispatch, callers use the store. A rollback that gives
  a proof shows the whole transcript. Messages are taken out of the transcript only when no
  action that waits for its message to arrive loses it, and a new action object is a new
  reference.
\<close>

inductive delivery_step :: "delivery_world \<Rightarrow> delivery_world \<Rightarrow> bool" where
  Message_start: "on_message_start m (dw_store w) = (res, s) \<Longrightarrow> delivery_step w (w\<lparr>dw_store := s\<rparr>)"
| Message_end: "on_message_end m (dw_store w) = (res, s) \<Longrightarrow>
    delivery_step w (w\<lparr>dw_store := s, dw_transcript := dw_transcript w @ [m]\<rparr>)"
| Transcript: "(\<And>r d. state_of (dw_store w) r = S_committing \<Longrightarrow> d \<in> set (primaryRecords (objs (dw_store w) r)) \<Longrightarrow>
      rec_message d \<in> set (dw_transcript w) \<Longrightarrow> rec_message d \<in> set msgs) \<Longrightarrow>
    delivery_step w (w\<lparr>dw_transcript := msgs\<rparr>)"
| Finish: "end_dispatch classify thrown retained (dw_transcript w) rs (dw_store w) = (res, s) \<Longrightarrow>
    delivery_step w (w\<lparr>dw_store := s\<rparr>)"
| Add_context: "(\<And>ds. filter (\<lambda>d. rec_role d = Primary) (f ds) = filter (\<lambda>d. rec_role d = Primary) ds) \<Longrightarrow>
    delivery_step w (w\<lparr>dw_store := set_records f r (dw_store w)\<rparr>)"
| Enqueue: "r \<in> dw_allocated w \<Longrightarrow> enqueue r placement (dw_store w) = (res, s) \<Longrightarrow>
    delivery_step w (w\<lparr>dw_store := s\<rparr>)"
| Select: "selectFirst (dw_store w) = (found, s) \<Longrightarrow> delivery_step w (w\<lparr>dw_store := s\<rparr>)"
| Remove: "remove pred candidates (dw_store w) = (removed, s) \<Longrightarrow> delivery_step w (w\<lparr>dw_store := s\<rparr>)"
| Move_on: "transition_ref r nxt None (dw_store w) = (res, s) \<Longrightarrow> delivery_step w (w\<lparr>dw_store := s\<rparr>)"
| Roll_back: "(\<And>p. proof = Some p \<Longrightarrow> set (dw_transcript w) \<subseteq> set (transcript p)) \<Longrightarrow>
    rollback r proof (dw_store w) = (res, s) \<Longrightarrow> delivery_step w (w\<lparr>dw_store := s\<rparr>)"
| Swap: "swapQueued l r (dw_store w) = (res, s) \<Longrightarrow> delivery_step w (w\<lparr>dw_store := s\<rparr>)"
| Move: "moveQueued r dest index (dw_store w) = (res, s) \<Longrightarrow> delivery_step w (w\<lparr>dw_store := s\<rparr>)"
| Release: "releaseTerminal r (dw_store w) = (res, s) \<Longrightarrow> delivery_step w (w\<lparr>dw_store := s\<rparr>)"
| Allocate: "r \<notin> dw_allocated w \<Longrightarrow> delivery_step w (w\<lparr>dw_store := (dw_store w)\<lparr>objs :=
    (objs (dw_store w))(r := a)\<rparr>, dw_allocated := insert r (dw_allocated w)\<rparr>)"

section \<open>A delivered message stays delivered\<close>

text \<open>
  An action is taken when it is past preparing; while it is still committing one of its
  primary messages is among the given ones.
\<close>

definition taken_on :: "ref set \<Rightarrow> ref \<Rightarrow> store \<Rightarrow> bool" where
  "taken_on msgs r s \<longleftrightarrow>
     (state_of s r = S_committing \<and> (\<exists>d\<in>set (primaryRecords (objs s r)). rec_message d \<in> msgs))
     \<or> state_of s r = S_running \<or> terminal_state (state_of s r)"

named_theorems taken_intros \<open>operations that keep an action taken on\<close>

lemma taken_not_queued: "taken_on msgs r s \<Longrightarrow> state_of s r \<noteq> S_queued"
  by (auto simp: taken_on_def)

lemma taken_on_objs: "objs s' r = objs s r \<Longrightarrow> taken_on msgs r s' = taken_on msgs r s"
  by (simp add: taken_on_def state_of_def)

lemma taken_on_messages:
  "taken_on msgs r s \<longleftrightarrow>
     (state_of s r = S_committing \<and> set (primary_messages (payload_records (act_payload (objs s r)))) \<inter> msgs \<noteq> {})
     \<or> state_of s r = S_running \<or> terminal_state (state_of s r)"
  by (cases "act_payload (objs s r)") (auto simp: taken_on_def primaryRecords_def payload_records_def primary_messages_def)

lemma taken_transition [taken_intros]:
  assumes t: "taken_on msgs r s" and p: "\<And>p. proof = Some p \<Longrightarrow> msgs \<subseteq> set (transcript p)"
    and st: "transition_ref q nxt proof s = (res, s')"
  shows "taken_on msgs r s'"
proof (cases "q = r")
  case False
  with transition_ref_state [OF st] t show ?thesis by (auto simp: taken_on_def state_of_def)
next
  case True
  show ?thesis
  proof (cases "transitionSessionAction (objs s r) nxt proof")
    case (Inl e)
    with st t True show ?thesis by (simp add: transition_ref_def)
  next
    case (Inr b)
    with st True have s': "s' = s\<lparr>objs := (objs s)(r := b)\<rparr>" by (simp add: transition_ref_def)
    note tr = transitionSessionAction_Inr [OF Inr]
    have lg: "legal (state_of s r) (lc_state nxt)" using tr(2) by (simp add: state_of_def)
    have st: "state_of s' r = lc_state nxt" by (simp add: s' state_of_def tr(1))
    have pr: "primaryRecords (objs s' r) = primaryRecords (objs s r)" by (simp add: s' tr(1) primaryRecords_def)
    show ?thesis
    proof (cases "state_of s r = S_committing")
      case True
      with t have d: "\<exists>d\<in>set (primaryRecords (objs s r)). rec_message d \<in> msgs" by (simp add: taken_on_def)
      have "lc_state nxt \<noteq> S_queued"
      proof
        assume "lc_state nxt = S_queued"
        with Inr True obtain p where "proof = Some p"
            "\<not> list_ex (\<lambda>r. rec_message r \<in> set (transcript p)) (primaryRecords (objs s r))"
          by (auto simp: transitionSessionAction_def Let_def state_of_def split: option.splits if_splits)
        with p d show False by (auto simp: list_ex_iff)
      qed
      with lg True show ?thesis unfolding taken_on_def st pr
        by (cases "lc_state nxt") (simp_all add: legal_def)
    next
      case False
      with t lg show ?thesis unfolding taken_on_def st pr
        by (cases "state_of s r"; cases "lc_state nxt") (simp_all add: legal_def)
    qed
  qed
qed

lemma taken_move_on:
  "transition_ref q nxt None s = (res, s') \<Longrightarrow> taken_on msgs r s \<Longrightarrow> taken_on msgs r s'"
  by (rule taken_transition [where ?proof = None]) simp_all

lemma taken_rollback [taken_intros]:
  assumes "taken_on msgs r s" and "\<And>p. proof = Some p \<Longrightarrow> msgs \<subseteq> set (transcript p)"
    and "rollback q proof s = (res, s')"
  shows "taken_on msgs r s'"
  using taken_transition [OF assms(1,2)] assms(3) by (simp add: rollback_def)

lemma taken_set_records [taken_intros]:
  assumes "taken_on msgs r s"
    and "\<And>ds. primary_messages (f ds) = primary_messages ds"
  shows "taken_on msgs r (set_records f q s)"
  using assms
  by (auto simp: taken_on_messages set_records_def state_of_def payload_records_def split: action_payload.splits)

lemma mark_first_primaries:
  assumes "\<And>d. rec_role (f d) = rec_role d" and "\<And>d. rec_message (f d) = rec_message d"
  shows "primary_messages (mark_first test f ds) = primary_messages ds"
  by (induction ds) (auto simp: primary_messages_def assms)

lemma prune_primaries:
  "primary_messages (prune_records msgs ds) = primary_messages ds"
  by (induction ds) (auto simp: primary_messages_def prune_records_def)

lemma taken_mark:
  assumes "taken_on msgs r s"
  shows "taken_on msgs r (set_records (mark_first test (\<lambda>d. d\<lparr>rec_started := True\<rparr>)) q s)"
    and "taken_on msgs r (set_records (mark_first test (\<lambda>d. d\<lparr>rec_durable := True\<rparr>)) q s)"
  by (rule taken_set_records [OF assms mark_first_primaries]; simp)+

lemma taken_ticket:
  "with_ticket f q s = (res, s') \<Longrightarrow> taken_on msgs r s \<Longrightarrow> taken_on msgs r s'"
  by (auto simp: with_ticket_def taken_on_def state_of_def split: sum.splits)

lemma taken_and_do:
  assumes "and_do p k = (res, s')" and "\<And>x s1. p = (x, s1) \<Longrightarrow> taken_on msgs r s1"
    and "\<And>s1. taken_on msgs r s1 \<Longrightarrow> k s1 = (res, s') \<Longrightarrow> taken_on msgs r s'"
  shows "taken_on msgs r s'"
  using assms by (auto simp: and_do_def split: prod.splits sum.splits)

lemma taken_for_each:
  assumes "\<And>q s res s'. taken_on msgs r s \<Longrightarrow> body q s = (res, s') \<Longrightarrow> taken_on msgs r s'"
  shows "taken_on msgs r s \<Longrightarrow> for_each body rs s = (res, s') \<Longrightarrow> taken_on msgs r s'"
proof (induction rs arbitrary: s)
  case (Cons q rs)
  from Cons.prems(2) [unfolded for_each.simps] show ?case
    by (rule taken_and_do) (blast intro: assms [OF Cons.prems(1)] Cons.IH)+
qed simp

lemma taken_start_record:
  "taken_on msgs r s \<Longrightarrow> start_record m q s = (res, s') \<Longrightarrow> taken_on msgs r s'"
  by (auto simp: start_record_def Let_def split: option.splits if_splits
      intro: taken_ticket taken_mark)

lemma taken_end_record:
  "taken_on msgs r s \<Longrightarrow> end_record m q s = (res, s') \<Longrightarrow> taken_on msgs r s'"
  by (auto simp: end_record_def Let_def split: option.splits if_splits
      intro: taken_move_on taken_mark)

lemma taken_arrived:
  "arrived ms q s = (res, s') \<Longrightarrow> taken_on msgs r s \<Longrightarrow> taken_on msgs r s'"
  by (auto simp: arrived_def split: option.splits if_splits intro: taken_move_on taken_mark)

lemma taken_complete_one:
  assumes "taken_on msgs r s" and "complete_one ms q s = (res, s')"
  shows "taken_on msgs r s'"
  using assms(2) unfolding complete_one_def
  by (rule taken_and_do)
    (auto intro: taken_arrived assms(1) taken_move_on taken_ticket elim!: taken_and_do split: if_splits)

lemma taken_collect:
  "taken_on msgs r s \<Longrightarrow> collect_undelivered ms rs s = (res, s') \<Longrightarrow> taken_on msgs r s'"
proof (induction rs arbitrary: s res s')
  case (Cons q rs)
  have t: "taken_on msgs r (set_records (prune_records ms) q s)"
    by (rule taken_set_records [OF Cons.prems(1) prune_primaries])
  note IH = Cons.IH [OF t] Cons.IH [OF Cons.prems(1)]
  show ?case using Cons.prems(2) t
    by (auto simp: Let_def split: option.splits if_splits prod.splits sum.splits dest: IH)
qed simp

lemma taken_rollback_one:
  "taken_on msgs r s \<Longrightarrow> msgs \<subseteq> set ms \<Longrightarrow> rollback_one ms q s = (res, s') \<Longrightarrow> taken_on msgs r s'"
  by (auto simp: rollback_one_def split: if_splits elim!: taken_rollback [rotated 2])

lemma taken_fail_one:
  assumes "taken_on msgs r s" and "fail_one err us q s = (res, s')"
  shows "taken_on msgs r s'"
  using assms by (auto simp: fail_one_def split: if_splits elim!: taken_and_do intro: taken_move_on taken_ticket)

lemma taken_releaseTerminal [taken_intros]:
  "taken_on msgs r s \<Longrightarrow> releaseTerminal q s = (res, s') \<Longrightarrow> taken_on msgs r s'"
  by (auto simp: releaseTerminal_def Let_def taken_on_def state_of_def split: if_splits option.splits)

lemma taken_finish:
  assumes t: "taken_on msgs r s" and m: "msgs \<subseteq> set ms" and f: "end_dispatch classify thrown retained ms rs s = (res, s')"
  shows "taken_on msgs r s'"
proof -
  have rel: "taken_on msgs r s'" if "taken_on msgs r s" "for_each (release_one retained) rs s = (x, s')" for s x s'
    by (rule taken_for_each [OF _ that]) (auto simp: release_one_def split: if_splits intro: taken_releaseTerminal)
  have rec: "taken_on msgs r s'" if "recover_dispatch deferred err ms rs s = (x, s')" "taken_on msgs r s" for deferred err s x s'
    using that by (auto simp: recover_dispatch_def split: prod.splits sum.splits if_splits
        intro: taken_collect taken_for_each [OF taken_rollback_one [OF _ m]] taken_for_each [OF taken_fail_one])
  have com: "taken_on msgs r s'" if "for_each (complete_one ms) rs s = (x, s')" for x s'
    by (rule taken_for_each [OF taken_complete_one t that])
  define mid where "mid = (case thrown of
            None \<Rightarrow> (case for_each (complete_one ms) rs s of
                (Inr _, s1) \<Rightarrow> (Inr (), s1)
              | (Inl e, s1) \<Rightarrow> recover_dispatch (fst (classify e)) (snd (classify e)) ms rs s1)
          | Some (deferred, err) \<Rightarrow> recover_dispatch deferred err ms rs s)"
  have m1: "taken_on msgs r (snd mid)"
    by (cases "for_each (complete_one ms) rs s")
      (auto simp: mid_def split: option.splits prod.splits sum.splits intro: rec [OF surjective_pairing] com t)
  have "fst (for_each (release_one retained) rs (snd mid)) = fst (for_each (release_one retained) rs (snd mid))
      \<and> s' = snd (for_each (release_one retained) rs (snd mid))"
    using f by (auto simp: end_dispatch_def mid_def [symmetric] Let_def split: prod.splits sum.splits)
  then show ?thesis using rel [OF m1 surjective_pairing] by simp
qed

lemma taken_mono: "taken_on ms r s \<Longrightarrow> ms \<inter> rec_message ` set (primaryRecords (objs s r)) \<subseteq> ns \<or> state_of s r \<noteq> S_committing
    \<Longrightarrow> taken_on ns r s"
  by (auto simp: taken_on_def)

definition delivered :: "ref \<Rightarrow> delivery_world \<Rightarrow> bool" where
  "delivered r w \<longleftrightarrow> r \<in> dw_allocated w \<and> taken_on (set (dw_transcript w)) r (dw_store w)"

lemma taken_store_operations:
  "enqueue q placement s = (res, s') \<Longrightarrow> taken_on msgs r s \<Longrightarrow> taken_on msgs r s'"
  "swapQueued l q s = (res, s') \<Longrightarrow> taken_on msgs r s \<Longrightarrow> taken_on msgs r s'"
  "on_message_start m s = (res, s') \<Longrightarrow> taken_on msgs r s \<Longrightarrow> taken_on msgs r s'"
  "on_message_end m s = (res, s') \<Longrightarrow> taken_on msgs r s \<Longrightarrow> taken_on msgs r s'"
  by (auto simp: enqueue_def swapQueued_def Let_def on_message_start_def on_message_end_def
      split: option.splits if_splits elim: taken_on_objs [THEN iffD2, rotated]
      intro: taken_for_each [OF taken_start_record] taken_for_each [OF taken_end_record])

lemma taken_moveQueued:
  assumes mv: "moveQueued q dest index s = (res, s')" and t: "taken_on msgs r s" shows "taken_on msgs r s'"
proof -
  have "s' = s \<or> q \<noteq> r \<and> objs s' r = objs s r"
    using mv taken_not_queued [OF t]
    by (auto simp: moveQueued_def detach_def Let_def split: option.splits if_splits)
  then show ?thesis using t by (metis taken_on_objs)
qed

lemma taken_cancel_all: "cancel_all rs s = (res, s') \<Longrightarrow> taken_on msgs r s \<Longrightarrow> taken_on msgs r s'"
  by (induction rs arbitrary: s) (auto split: prod.splits sum.splits intro: taken_move_on)

lemma taken_remove: "remove pred cs s = (res, s') \<Longrightarrow> taken_on msgs r s \<Longrightarrow> taken_on msgs r s'"
  by (auto simp: remove_def Let_def split: prod.splits sum.splits intro: taken_cancel_all)

lemma taken_selectFirst: "selectFirst s = (res, s') \<Longrightarrow> taken_on msgs r s \<Longrightarrow> taken_on msgs r s'"
  by (auto simp: selectFirst_def Let_def split: option.splits prod.splits sum.splits intro: taken_move_on)

lemma delivered_step: "delivery_step w w' \<Longrightarrow> delivered r w \<Longrightarrow> delivered r w'"
proof (induction rule: delivery_step.induct)
  case (Message_end m w res s)
  then have "taken_on (set (dw_transcript w)) r s" by (auto simp: delivered_def intro: taken_store_operations)
  then show ?case using Message_end.prems by (auto simp: delivered_def intro: taken_mono)
next
  case (Transcript w msgs)
  then show ?case by (auto simp: delivered_def intro: taken_mono)
next
  case (Finish classify thrown retained w rs res s)
  then show ?case by (auto simp: delivered_def intro: taken_finish [OF _ order.refl])
next
  case (Add_context f w q)
  then show ?case by (auto simp: delivered_def primary_messages_def intro!: taken_set_records)
next
  case (Roll_back pr w q res s)
  then show ?case by (auto simp: delivered_def intro: taken_rollback)
next
  case (Allocate q w a)
  then have "q \<noteq> r" by (auto simp: delivered_def)
  with Allocate show ?case by (auto simp: delivered_def taken_on_def state_of_def)
qed (auto simp: delivered_def intro: taken_store_operations taken_moveQueued taken_remove taken_selectFirst
    taken_move_on taken_releaseTerminal)

interpretation delivery: invariant_machine "delivered r" delivery_step "delivered r" for r
  by unfold_locales (auto intro: delivered_step)

text \<open>
  C3: A turn is delivered at most once. Once the primary message of a committing turn is in the
  transcript, nothing puts the turn back: whatever the run, the pump and the callers do
  afterwards, it is committing, running or finished, so it is not among the queued actions,
  the store never selects it again, and a rollback that shows the transcript does not queue it.
\<close>

theorem delivered_turn_never_requeued:
  assumes "r \<in> dw_allocated w" and "state_of (dw_store w) r = S_committing"
    and "d \<in> set (primaryRecords (objs (dw_store w) r))" and "rec_message d \<in> set (dw_transcript w)"
    and later: "delivery_step\<^sup>*\<^sup>* w w'"
  shows "state_of (dw_store w') r \<in> {S_committing, S_running, S_completed, S_failed, S_cancelled}
    \<and> r \<notin> set (queuedActions (dw_store w') p)
    \<and> fst (selectFirst (dw_store w')) \<noteq> Inr (Some r)
    \<and> (set (dw_transcript w') \<subseteq> set (transcript shown) \<longrightarrow>
         state_of (snd (rollback r (Some shown) (dw_store w'))) r \<noteq> S_queued)"
proof -
  from assms(1-4) have "delivered r w" by (auto simp: delivered_def taken_on_def)
  from delivery.inv_steps [OF later this] have t: "taken_on (set (dw_transcript w')) r (dw_store w')"
    by (simp add: delivered_def)
  have "state_of (dw_store w') r \<in> {S_committing, S_running, S_completed, S_failed, S_cancelled}"
    using t by (cases "state_of (dw_store w') r") (auto simp: taken_on_def)
  moreover have "fst (selectFirst (dw_store w')) \<noteq> Inr (Some r)"
    using taken_not_queued [OF t]
    by (auto simp: selectFirst_def Let_def is_queued_state find_Some_iff split: option.splits prod.splits sum.splits)
  moreover have "state_of (snd (rollback r (Some shown) (dw_store w'))) r \<noteq> S_queued"
    if "set (dw_transcript w') \<subseteq> set (transcript shown)"
    by (rule taken_not_queued, rule taken_rollback [OF t, of "Some shown" r _ "snd (rollback r (Some shown) (dw_store w'))"])
      (use that in \<open>auto intro: surjective_pairing\<close>)
  ultimately show ?thesis using taken_not_queued [OF t] by (auto simp: queuedActions_def)
qed

definition sample_turn :: action where
  "sample_turn = \<lparr>act_id = ''t'', act_source = ''user'', act_delivery = When_run_idle, act_priority = User,
     act_wake = Immediate, act_payload = Turn_payload
       [\<lparr>rec_id = ''p'', rec_role = Prefix, rec_message = 6, rec_started = False, rec_durable = False, rec_owner = ''t''\<rparr>,
        \<lparr>rec_id = ''m'', rec_role = Primary, rec_message = 7, rec_started = False, rec_durable = False, rec_owner = ''t''\<rparr>]
       ''hello'' None,
     act_lifecycle = Committing, act_queueKey = None, act_agentMessageId = None, act_suppress = None\<rparr>"

definition sample_delivery :: "ref list \<Rightarrow> delivery_world" where
  "sample_delivery msgs = \<lparr>dw_store = \<lparr>objs = (\<lambda>_. sample_turn), nextTurnBoundary = [], whenRunIdle = [0],
     tickets = [''t'' \<mapsto> newTicket ''t'']\<rparr>, dw_transcript = msgs, dw_allocated = {0}\<rparr>"

text \<open>
  A dispatch that failed after its message arrived: ending it with a deferral leaves the turn
  committing; had the message not arrived, the turn would be queued again.
\<close>

lemma delivered_turn_never_requeued_witness:
  "state_of (snd (end_dispatch (\<lambda>_. (False, [])) (Some (True, ''busy'')) (\<lambda>_. False) [6, 7] [0] (dw_store (sample_delivery [6, 7])))) 0 \<noteq> S_queued
   \<and> state_of (snd (end_dispatch (\<lambda>_. (False, [])) (Some (True, ''busy'')) (\<lambda>_. False) [6] [0] (dw_store (sample_delivery [6])))) 0 = S_queued"
proof
  let ?w = "sample_delivery [6, 7]"
  define s where "s = snd (end_dispatch (\<lambda>_. (False, [])) (Some (True, ''busy'')) (\<lambda>_. False) [6, 7] [0] (dw_store ?w))"
  define res where "res = fst (end_dispatch (\<lambda>_. (False, [])) (Some (True, ''busy'')) (\<lambda>_. False) [6, 7] [0] (dw_store ?w))"
  have tr: "dw_transcript ?w = [6, 7]" by (simp add: sample_delivery_def)
  have "delivery_step ?w (?w\<lparr>dw_store := s\<rparr>)"
    by (rule delivery_step.Finish [of "\<lambda>_. (False, [])" "Some (True, ''busy'')" "\<lambda>_. False" _ "[0]" res]) (simp add: tr s_def res_def)
  then have "delivery_step\<^sup>*\<^sup>* ?w (?w\<lparr>dw_store := s\<rparr>)" by (rule r_into_rtranclp)
  from delivered_turn_never_requeued [OF _ _ _ _ this, of 0
      "\<lparr>rec_id = ''m'', rec_role = Primary, rec_message = 7, rec_started = False, rec_durable = False, rec_owner = ''t''\<rparr>"]
  show "state_of s 0 \<noteq> S_queued"
    by (auto simp: sample_delivery_def sample_turn_def state_of_def primaryRecords_def)
  show "state_of (snd (end_dispatch (\<lambda>_. (False, [])) (Some (True, ''busy'')) (\<lambda>_. False) [6] [0] (dw_store (sample_delivery [6])))) 0 = S_queued"
    by (simp add: end_dispatch_def recover_dispatch_def sample_delivery_def sample_turn_def set_records_def prune_records_def
        primaryDeliveryRecord_def payload_records_def is_turn_def state_of_def rollback_one_def rollback_def and_do_def
        transition_ref_def transitionSessionAction_def legal_def primaryRecords_def release_one_def Let_def)
qed

end
