(* ===== verification/Messages.thy ===== *)
theory Messages
  imports Prelude
begin

text \<open>
  The message vocabulary the components share: the content blocks and messages of
  \<open>packages/ai/src/types.ts\<close>, the coding agent's own messages and their conversion for the
  model (\<open>packages/coding-agent/src/core/messages.ts\<close>), and token usage
  (\<open>packages/coding-agent/src/core/usage.ts\<close>). A string is a list of characters; a number
  inside JSON is kept by the text JavaScript prints for it.
\<close>

section \<open>JSON\<close>

datatype json =
    JNull | JBool bool | JNum string | JStr string
  | JArr "json list" | JObj "(string \<times> json) list"

text \<open>\<open>JSON.stringify\<close>: the escapes of a string, then the value.\<close>

definition hex_digit :: "nat \<Rightarrow> char" where
  "hex_digit n = ''0123456789abcdef'' ! (n mod 16)"

definition json_escape_char :: "char \<Rightarrow> string" where
  "json_escape_char c =
     (let n = (of_char c :: nat) in
      if n = 34 then [CHR 92, CHR 34]
      else if n = 92 then [CHR 92, CHR 92]
      else if n = 8 then [CHR 92, CHR ''b'']
      else if n = 12 then [CHR 92, CHR ''f'']
      else if n = 10 then [CHR 92, CHR ''n'']
      else if n = 13 then [CHR 92, CHR ''r'']
      else if n = 9 then [CHR 92, CHR ''t'']
      else if n < 32 then [CHR 92, CHR ''u'', CHR ''0'', CHR ''0'', hex_digit (n div 16), hex_digit n]
      else [c])"

definition json_quote :: "string \<Rightarrow> string" where
  "json_quote s = [CHR 34] @ concat (map json_escape_char s) @ [CHR 34]"

fun join_with :: "string \<Rightarrow> string list \<Rightarrow> string" where
  "join_with sep [] = []"
| "join_with sep [x] = x"
| "join_with sep (x # y # xs) = x @ sep @ join_with sep (y # xs)"

fun json_stringify :: "json \<Rightarrow> string" where
  "json_stringify JNull = ''null''"
| "json_stringify (JBool b) = (if b then ''true'' else ''false'')"
| "json_stringify (JNum n) = n"
| "json_stringify (JStr s) = json_quote s"
| "json_stringify (JArr xs) = ''['' @ join_with '','' (map json_stringify xs) @ '']''"
| "json_stringify (JObj ps) =
     ''{'' @ join_with '','' (map (\<lambda>(k, v). json_quote k @ '':'' @ json_stringify v) ps) @ ''}''"

definition json_field :: "string \<Rightarrow> json \<Rightarrow> json option" where
  "json_field k v = (case v of JObj ps \<Rightarrow> map_of ps k | _ \<Rightarrow> None)"

section \<open>Usage\<close>

record usage_cost =
  c_input :: rat
  c_output :: rat
  c_cacheRead :: rat
  c_cacheWrite :: rat
  c_total :: rat

record usage =
  u_input :: int
  u_output :: int
  u_cacheRead :: int
  u_cacheWrite :: int
  u_totalTokens :: int
  u_cost :: usage_cost

definition emptyUsage :: usage where
  "emptyUsage = \<lparr>u_input = 0, u_output = 0, u_cacheRead = 0, u_cacheWrite = 0, u_totalTokens = 0,
     u_cost = \<lparr>c_input = 0, c_output = 0, c_cacheRead = 0, c_cacheWrite = 0, c_total = 0\<rparr>\<rparr>"

definition addAssistantUsage :: "usage \<Rightarrow> usage \<Rightarrow> usage" where
  "addAssistantUsage acc x = \<lparr>u_input = u_input acc + u_input x, u_output = u_output acc + u_output x,
     u_cacheRead = u_cacheRead acc + u_cacheRead x, u_cacheWrite = u_cacheWrite acc + u_cacheWrite x,
     u_totalTokens = u_totalTokens acc + u_totalTokens x,
     u_cost = \<lparr>c_input = c_input (u_cost acc) + c_input (u_cost x),
       c_output = c_output (u_cost acc) + c_output (u_cost x),
       c_cacheRead = c_cacheRead (u_cost acc) + c_cacheRead (u_cost x),
       c_cacheWrite = c_cacheWrite (u_cost acc) + c_cacheWrite (u_cost x),
       c_total = c_total (u_cost acc) + c_total (u_cost x)\<rparr>\<rparr>"

definition subtractAssistantUsage :: "usage \<Rightarrow> usage \<Rightarrow> usage" where
  "subtractAssistantUsage acc x =
     \<lparr>u_input = max 0 (u_input acc - u_input x), u_output = max 0 (u_output acc - u_output x),
     u_cacheRead = max 0 (u_cacheRead acc - u_cacheRead x),
     u_cacheWrite = max 0 (u_cacheWrite acc - u_cacheWrite x),
     u_totalTokens = max 0 (u_totalTokens acc - u_totalTokens x),
     u_cost = \<lparr>c_input = max 0 (c_input (u_cost acc) - c_input (u_cost x)),
       c_output = max 0 (c_output (u_cost acc) - c_output (u_cost x)),
       c_cacheRead = max 0 (c_cacheRead (u_cost acc) - c_cacheRead (u_cost x)),
       c_cacheWrite = max 0 (c_cacheWrite (u_cost acc) - c_cacheWrite (u_cost x)),
       c_total = max 0 (c_total (u_cost acc) - c_total (u_cost x))\<rparr>\<rparr>"

definition cloneUsage :: "usage \<Rightarrow> usage" where
  "cloneUsage x = \<lparr>u_input = u_input x, u_output = u_output x, u_cacheRead = u_cacheRead x,
     u_cacheWrite = u_cacheWrite x, u_totalTokens = u_totalTokens x,
     u_cost = \<lparr>c_input = c_input (u_cost x), c_output = c_output (u_cost x),
       c_cacheRead = c_cacheRead (u_cost x), c_cacheWrite = c_cacheWrite (u_cost x),
       c_total = c_total (u_cost x)\<rparr>\<rparr>"

record usage_summary =
  inputTokens :: int
  outputTokens :: int
  us_cost :: rat

definition sessionUsageSummaryFrom :: "usage \<Rightarrow> usage_summary option" where
  "sessionUsageSummaryFrom x =
     (let inp = u_input x + u_cacheRead x + u_cacheWrite x in
      if inp = 0 \<and> u_output x = 0 \<and> c_total (u_cost x) = 0 then None
      else Some \<lparr>inputTokens = inp, outputTokens = u_output x, us_cost = c_total (u_cost x)\<rparr>)"

section \<open>Messages\<close>

datatype content_block =
    Text_content string "string option" \<comment> \<open>text, signature\<close>
  | Image_content string string \<comment> \<open>data, mime type\<close>

datatype user_content = Plain string | Blocks "content_block list"

record tool_call =
  tc_id :: string
  tc_name :: string
  tc_arguments :: json
  tc_thoughtSignature :: "string option"

datatype assistant_block =
    A_text string "string option"
  | A_thinking string "string option" "bool option"
  | A_tool_call tool_call

datatype stop_reason = Stop | Length_limit | Tool_use | Error_stop | Aborted

record user_message =
  um_content :: user_content
  um_timestamp :: jsnumber

record assistant_message =
  am_content :: "assistant_block list"
  am_api :: string
  am_provider :: string
  am_model :: string
  am_responseModel :: "string option"
  am_responseId :: "string option"
  am_diagnostics :: "json list option"
  am_usage :: usage
  am_stopReason :: stop_reason
  am_stopReasonRaw :: "string option"
  am_errorMessage :: "string option"
  am_timestamp :: jsnumber

record tool_result_message =
  tr_toolCallId :: string
  tr_toolName :: string
  tr_content :: "content_block list"
  tr_details :: "json option"
  tr_isError :: bool
  tr_timestamp :: jsnumber

record bash_execution =
  be_command :: string
  be_output :: string
  be_exitCode :: "int option"
  be_cancelled :: bool
  be_truncated :: bool
  be_fullOutputPath :: "string option"
  be_timestamp :: jsnumber
  be_excludeFromContext :: bool

record custom_message =
  cm_customType :: string
  cm_content :: user_content
  cm_display :: bool
  cm_details :: "json option"
  cm_timestamp :: jsnumber

record branch_summary =
  bs_summary :: string
  bs_fromId :: string
  bs_timestamp :: jsnumber

record compaction_summary =
  cs_summary :: string
  cs_tokensBefore :: int
  cs_retainedMessageCount :: "nat option"
  cs_customInstructions :: "string option"
  cs_harnessDigest :: "string option"
  cs_harnessStateFingerprint :: "string option"
  cs_timestamp :: jsnumber

datatype agent_message =
    User_msg user_message
  | Assistant_msg assistant_message
  | Tool_result_msg tool_result_message
  | Bash_msg bash_execution
  | Custom_msg custom_message
  | Branch_summary_msg branch_summary
  | Compaction_summary_msg compaction_summary

text \<open>The \<open>type\<close> filter \<open>content.filter((c) => c.type === "toolCall")\<close> of the loop.\<close>

fun tool_calls_of :: "assistant_block list \<Rightarrow> tool_call list" where
  "tool_calls_of [] = []"
| "tool_calls_of (A_tool_call c # bs) = c # tool_calls_of bs"
| "tool_calls_of (_ # bs) = tool_calls_of bs"

section \<open>Conversion for the model\<close>

definition nl :: string where "nl = [CHR 10]"

definition COMPACTION_SUMMARY_PREFIX :: string where
  "COMPACTION_SUMMARY_PREFIX = ''[compaction-summary]'' @ nl @ nl
     @ ''The conversation history before this point was compacted into the following summary:'' @ nl @ nl
     @ ''<summary>'' @ nl"

definition COMPACTION_SUMMARY_SUFFIX :: string where
  "COMPACTION_SUMMARY_SUFFIX = nl @ ''</summary>''"

definition BRANCH_SUMMARY_PREFIX :: string where
  "BRANCH_SUMMARY_PREFIX = ''[branch-summary]'' @ nl @ nl
     @ ''The following is a summary of a branch that this conversation came back from:'' @ nl @ nl
     @ ''<summary>'' @ nl"

definition BRANCH_SUMMARY_SUFFIX :: string where
  "BRANCH_SUMMARY_SUFFIX = ''</summary>''"

definition HARNESS_DIGEST_PREFIX :: string where
  "HARNESS_DIGEST_PREFIX = ''[harness-digest]'' @ nl @ nl
     @ ''The persistent memories produced across this session so far:'' @ nl @ nl @ ''<harness_state>'' @ nl"

definition HARNESS_DIGEST_SUFFIX :: string where
  "HARNESS_DIGEST_SUFFIX = nl @ ''</harness_state>''"

definition SESSION_SLASH_COMMAND_CUSTOM_TYPE :: string where
  "SESSION_SLASH_COMMAND_CUSTOM_TYPE = ''session_slash_command''"
definition SESSION_SLASH_COMMAND_RESULT_CUSTOM_TYPE :: string where
  "SESSION_SLASH_COMMAND_RESULT_CUSTOM_TYPE = ''session_slash_command_result''"
definition COMPACTION_OUTCOME_CUSTOM_TYPE :: string where
  "COMPACTION_OUTCOME_CUSTOM_TYPE = ''compaction_outcome''"
definition MCP_CONNECTION_OUTCOME_CUSTOM_TYPE :: string where
  "MCP_CONNECTION_OUTCOME_CUSTOM_TYPE = ''mcp_connection_outcome''"
definition REFINEMENT_OUTCOME_CUSTOM_TYPE :: string where
  "REFINEMENT_OUTCOME_CUSTOM_TYPE = ''refinement_outcome''"
definition HARNESS_DIGEST_CUSTOM_TYPE :: string where
  "HARNESS_DIGEST_CUSTOM_TYPE = ''harness_digest''"

text \<open>The lengths of the maximal runs of backticks, the matches of the regular expression of the source.\<close>

fun backtick_runs :: "nat \<Rightarrow> string \<Rightarrow> nat list" where
  "backtick_runs n [] = (if n = 0 then [] else [n])"
| "backtick_runs n (c # cs) =
     (if c = CHR 96 then backtick_runs (Suc n) cs
      else if n = 0 then backtick_runs 0 cs else n # backtick_runs 0 cs)"

definition fence_for :: "string \<Rightarrow> string" where
  "fence_for out =
     (let longest = fold max (backtick_runs 0 out) 0
      in replicate (max 3 (longest + 1)) (CHR 96))"

fun nat_digits :: "nat \<Rightarrow> string" where
  "nat_digits n = (if n < 10 then [char_of (48 + n)] else nat_digits (n div 10) @ [char_of (48 + n mod 10)])"

declare nat_digits.simps [simp del]

definition int_text :: "int \<Rightarrow> string" where
  "int_text k = (if k < 0 then ''-'' @ nat_digits (nat (- k)) else nat_digits (nat k))"

definition bashOutputToText :: "bash_execution \<Rightarrow> string" where
  "bashOutputToText m =
     (if be_output m \<noteq> [] then
        (let fence = fence_for (be_output m) in fence @ nl @ be_output m @ nl @ fence)
      else ''(no output)'')
     @ (if be_cancelled m then nl @ nl @ ''(command cancelled)''
        else case be_exitCode m of
          Some k \<Rightarrow> (if k \<noteq> 0 then nl @ nl @ ''Command exited with code '' @ int_text k else [])
        | None \<Rightarrow> [])
     @ (if be_truncated m then
          (case be_fullOutputPath m of
             Some p \<Rightarrow> (if p \<noteq> [] then nl @ nl @ ''[Output truncated. Full output: '' @ p @ '']''
                        else nl @ nl @ ''[Output truncated.]'')
           | None \<Rightarrow> nl @ nl @ ''[Output truncated.]'')
        else [])"

definition bashExecutionToText :: "bash_execution \<Rightarrow> string" where
  "bashExecutionToText m = ''Ran '' @ [CHR 96] @ be_command m @ [CHR 96] @ nl @ bashOutputToText m"

definition createBranchSummaryMessage ::
    "(string \<Rightarrow> jsnumber) \<Rightarrow> string \<Rightarrow> string \<Rightarrow> string \<Rightarrow> agent_message" where
  "createBranchSummaryMessage date summary fromId ts =
     Branch_summary_msg \<lparr>bs_summary = summary, bs_fromId = fromId, bs_timestamp = date ts\<rparr>"

definition createCompactionSummaryMessage ::
    "(string \<Rightarrow> jsnumber) \<Rightarrow> string \<Rightarrow> int \<Rightarrow> string \<Rightarrow> string option \<Rightarrow> nat option
      \<Rightarrow> string option \<Rightarrow> string option \<Rightarrow> agent_message" where
  "createCompactionSummaryMessage date summary before ts instr retained digest fp =
     Compaction_summary_msg \<lparr>cs_summary = summary, cs_tokensBefore = before,
       cs_retainedMessageCount = retained, cs_customInstructions = instr, cs_harnessDigest = digest,
       cs_harnessStateFingerprint = fp, cs_timestamp = date ts\<rparr>"

definition createCustomMessage ::
    "(string \<Rightarrow> jsnumber) \<Rightarrow> string \<Rightarrow> user_content \<Rightarrow> bool \<Rightarrow> json option \<Rightarrow> string \<Rightarrow> agent_message" where
  "createCustomMessage date ty content display details ts =
     Custom_msg \<lparr>cm_customType = ty, cm_content = content, cm_display = display,
       cm_details = details, cm_timestamp = date ts\<rparr>"

definition user_text :: "string \<Rightarrow> jsnumber \<Rightarrow> agent_message" where
  "user_text s ts = User_msg \<lparr>um_content = Blocks [Text_content s None], um_timestamp = ts\<rparr>"

text \<open>One message of \<open>convertToLlm\<close>; the conversion keeps the order and drops the undefined ones.\<close>

definition convert_message :: "agent_message \<Rightarrow> agent_message option" where
  "convert_message m = (case m of
     Bash_msg b \<Rightarrow>
       if be_excludeFromContext b then None else Some (user_text (bashExecutionToText b) (be_timestamp b))
   | Custom_msg c \<Rightarrow>
       if cm_customType c \<in> {SESSION_SLASH_COMMAND_CUSTOM_TYPE, SESSION_SLASH_COMMAND_RESULT_CUSTOM_TYPE,
           COMPACTION_OUTCOME_CUSTOM_TYPE, MCP_CONNECTION_OUTCOME_CUSTOM_TYPE, REFINEMENT_OUTCOME_CUSTOM_TYPE}
       then None
       else Some (User_msg \<lparr>um_content = (case cm_content c of
              Plain s \<Rightarrow> Blocks [Text_content s None] | Blocks bs \<Rightarrow> Blocks bs),
            um_timestamp = cm_timestamp c\<rparr>)
   | Branch_summary_msg b \<Rightarrow>
       Some (user_text (BRANCH_SUMMARY_PREFIX @ bs_summary b @ BRANCH_SUMMARY_SUFFIX) (bs_timestamp b))
   | Compaction_summary_msg c \<Rightarrow>
       (let digest = (case cs_harnessDigest c of
              Some d \<Rightarrow> (if d \<noteq> [] then HARNESS_DIGEST_PREFIX @ d @ HARNESS_DIGEST_SUFFIX @ nl @ nl else [])
            | None \<Rightarrow> [])
        in Some (user_text (digest @ COMPACTION_SUMMARY_PREFIX @ cs_summary c @ COMPACTION_SUMMARY_SUFFIX)
                  (cs_timestamp c)))
   | _ \<Rightarrow> Some m)"

definition convertToLlm :: "agent_message list \<Rightarrow> agent_message list" where
  "convertToLlm ms = map the (filter (\<lambda>x. x \<noteq> None) (map convert_message ms))"

section \<open>Lemmas\<close>

lemma backtick_runs_pending: "0 < n \<Longrightarrow> \<exists>r \<in> set (backtick_runs n s). n \<le> r"
proof (induction s arbitrary: n)
  case (Cons c s)
  show ?case
  proof (cases "c = CHR 96")
    case True
    with Cons.IH [of "Suc n"] show ?thesis by (auto intro: Suc_leD)
  qed (use Cons.prems in auto)
qed simp

lemma backtick_runs_replicate:
  "backtick_runs n (replicate k (CHR 96) @ b) = backtick_runs (n + k) b"
  by (induction k arbitrary: n) auto

lemma backtick_runs_infix:
  "0 < k \<Longrightarrow> \<exists>r \<in> set (backtick_runs n (a @ replicate k (CHR 96) @ b)). k \<le> r"
proof (induction a arbitrary: n)
  case Nil
  have "\<exists>r \<in> set (backtick_runs (n + k) b). n + k \<le> r"
    using Nil by (intro backtick_runs_pending) simp
  then show ?case unfolding append_Nil backtick_runs_replicate by (meson add_leE)
next
  case (Cons c a)
  then show ?case by (cases "c = CHR 96 \<or> n = 0") auto
qed

lemma fold_max_start: "(m :: nat) \<le> fold max xs m"
proof (induction xs arbitrary: m)
  case (Cons y ys)
  have "m \<le> max y m" by simp
  also have "\<dots> \<le> fold max ys (max y m)" by (rule Cons.IH)
  finally show ?case by simp
qed simp

lemma fold_max_upper: "x \<in> set xs \<Longrightarrow> x \<le> fold max xs (m :: nat)"
proof (induction xs arbitrary: m)
  case (Cons y ys)
  show ?case
  proof (cases "x = y")
    case True
    have "x \<le> max y m" by (simp add: True)
    also have "\<dots> \<le> fold max ys (max y m)" by (rule fold_max_start)
    finally show ?thesis by simp
  next
    case False
    with Cons.prems have "x \<in> set ys" by simp
    from Cons.IH [OF this, of "max y m"] show ?thesis by simp
  qed
qed simp

lemma convertToLlm_append: "convertToLlm (xs @ ys) = convertToLlm xs @ convertToLlm ys"
  by (simp add: convertToLlm_def)

lemma convertToLlm_Cons:
  "convertToLlm (x # xs) = (case convert_message x of None \<Rightarrow> convertToLlm xs | Some y \<Rightarrow> y # convertToLlm xs)"
  by (simp add: convertToLlm_def split: option.splits)

lemma convertToLlm_Nil [simp]: "convertToLlm [] = []"
  by (simp add: convertToLlm_def)

section \<open>Properties\<close>

text \<open>
  Command output cannot close the code block it is shown in: the fence has at least three
  backticks and does not occur anywhere in the output it encloses.
\<close>

lemma bash_output_cannot_close_fence:
  "3 \<le> length (fence_for out) \<and> \<not> sublist (fence_for out) out"
proof -
  define n where "n = max 3 (fold max (backtick_runs 0 out) 0 + 1)"
  have n: "3 \<le> n" "fold max (backtick_runs 0 out) 0 < n" unfolding n_def by linarith+
  have f: "fence_for out = replicate n (CHR 96)" unfolding fence_for_def Let_def n_def ..
  have "\<not> sublist (replicate n (CHR 96)) out"
  proof
    assume "sublist (replicate n (CHR 96)) out"
    then obtain a b where out: "out = a @ replicate n (CHR 96) @ b" by (auto simp: sublist_def)
    have "0 < n" using n(1) by linarith
    from backtick_runs_infix [OF this, of 0 a b] obtain r
      where r: "r \<in> set (backtick_runs 0 out)" "n \<le> r" unfolding out by blast
    from fold_max_upper [OF r(1), of 0] r(2) n(2) show False by linarith
  qed
  then show ?thesis unfolding f using n(1) by simp
qed

text \<open>
  The model sees only user, assistant and tool-result messages. The conversion passes
  assistant and tool-result messages through unchanged and in their order, so a tool result
  keeps its place behind the call it answers.
\<close>

theorem convertToLlm_keeps_tool_traffic:
  "list_all (\<lambda>m. case m of User_msg _ \<Rightarrow> True | Assistant_msg _ \<Rightarrow> True
       | Tool_result_msg _ \<Rightarrow> True | _ \<Rightarrow> False) (convertToLlm ms)
   \<and> filter (\<lambda>m. case m of Assistant_msg _ \<Rightarrow> True | Tool_result_msg _ \<Rightarrow> True | _ \<Rightarrow> False) (convertToLlm ms)
     = filter (\<lambda>m. case m of Assistant_msg _ \<Rightarrow> True | Tool_result_msg _ \<Rightarrow> True | _ \<Rightarrow> False) ms"
proof (induction ms)
  case (Cons m ms)
  then show ?case
    by (cases m) (auto simp: convertToLlm_Cons convert_message_def user_text_def Let_def)
qed simp

definition usage_fields :: "usage \<Rightarrow> rat list" where
  "usage_fields x = map of_int [u_input x, u_output x, u_cacheRead x, u_cacheWrite x, u_totalTokens x]
     @ [c_input (u_cost x), c_output (u_cost x), c_cacheRead (u_cost x), c_cacheWrite (u_cost x), c_total (u_cost x)]"

text \<open>
  Attributing a child's usage to a message and removing it again restores the message's
  usage, and removing more than was added never makes a counter negative.
\<close>

theorem usage_add_subtract:
  "((\<forall>f \<in> set (usage_fields t). 0 \<le> f) \<longrightarrow> subtractAssistantUsage (addAssistantUsage t x) x = t)
   \<and> (\<forall>f \<in> set (usage_fields (subtractAssistantUsage t x)). 0 \<le> f)"
  by (auto simp: usage_fields_def subtractAssistantUsage_def addAssistantUsage_def max_def)

end
