(* ===== verification/Agent_Loop.thy ===== *)
theory Agent_Loop
  imports Messages
begin

text \<open>
  The agent loop: \<open>packages/agent/src/agent-loop.ts\<close> with the interfaces of
  \<open>packages/agent/src/types.ts\<close>. Everything the loop awaits that is not part of the file (the
  provider stream, the tools, the hooks, the listeners, the abort signal, the clock) is a
  function of an abstract world in a configuration record. A program of the loop maps a loop
  state to a result and a new state; \<open>None\<close> means that the fuel for the stream, the tools or the
  turns ran out. The events the loop emits are recorded in the state in order.
\<close>

section \<open>Errors and awaited operations\<close>

datatype js_error = Js_error string string \<comment> \<open>name, message\<close> | Thrown string \<comment> \<open>not an Error\<close>

definition ABORT_ERROR_MESSAGE :: string where
  "ABORT_ERROR_MESSAGE = ''Request was aborted''"

definition createAbortError :: js_error where
  "createAbortError = Js_error ''Error'' ABORT_ERROR_MESSAGE"

fun isAbortError :: "js_error \<Rightarrow> bool" where
  "isAbortError (Js_error name message) = (message = ABORT_ERROR_MESSAGE \<or> name = ''AbortError'')"
| "isAbortError (Thrown _) = False"

fun error_text :: "js_error \<Rightarrow> string" where
  "error_text (Js_error _ message) = message"
| "error_text (Thrown s) = s"

text \<open>
  How a promise raced against the abort signal settles: with a value, with an error, or not
  before the signal fires.
\<close>

datatype 'a settled = Settled 'a | Failed js_error | Interrupted

type_synonym ('w, 'a) async = "'w \<Rightarrow> 'a settled \<times> 'w"

section \<open>Events, tools and configuration\<close>

record tool_result =
  tl_content :: "content_block list"
  tl_details :: json
  tl_terminate :: "bool option"

datatype update_kind =
    Text_start | Text_delta string | Text_end string | Thinking_start | Thinking_delta string
  | Thinking_end string | Toolcall_start | Toolcall_delta string | Toolcall_end tool_call

datatype stream_event =
    Ev_start assistant_message
  | Ev_update update_kind nat assistant_message \<comment> \<open>kind, content index, partial\<close>
  | Ev_done stop_reason assistant_message
  | Ev_error stop_reason assistant_message

fun getTerminalMessage :: "stream_event \<Rightarrow> assistant_message" where
  "getTerminalMessage (Ev_done _ m) = m"
| "getTerminalMessage (Ev_error _ m) = m"
| "getTerminalMessage (Ev_start m) = m"
| "getTerminalMessage (Ev_update _ _ m) = m"

datatype agent_event =
    Agent_start
  | Agent_end "agent_message list"
  | Turn_start
  | Turn_end agent_message "tool_result_message list"
  | Message_start agent_message
  | Message_update agent_message stream_event
  | Message_end agent_message
  | Tool_execution_start string string json
  | Tool_execution_update string string json tool_result
  | Tool_execution_end string string tool_result bool

datatype execution_mode = Sequential | Parallel

datatype tool_progress = Partial_result tool_result | Returned "tool_result settled"

text \<open>
  A tool. \<open>tool_step\<close> is its execution seen from the loop: given the call id and the validated
  arguments it either publishes a partial result or settles. \<open>tool_validate\<close> is the schema
  validation of the third-party validator.
\<close>

record 'w agent_tool =
  tool_name :: string
  tool_mode :: "execution_mode option"
  tool_prepareArguments :: "(json \<Rightarrow> js_error + json) option"
  tool_validate :: "json \<Rightarrow> js_error + json"
  tool_step :: "string \<Rightarrow> json \<Rightarrow> 'w \<Rightarrow> tool_progress \<times> 'w"

record before_result =
  br_block :: "bool option"
  br_reason :: "string option"

record after_result =
  ar_content :: "content_block list option"
  ar_details :: "json option"
  ar_isError :: "bool option"
  ar_terminate :: "bool option"

record turn_context =
  tx_message :: assistant_message
  tx_toolResults :: "tool_result_message list"
  tx_messages :: "agent_message list"
  tx_newMessages :: "agent_message list"

record llm_context =
  lc_systemPrompt :: string
  lc_messages :: "agent_message list"

text \<open>
  The configuration, the context's tools and system prompt, and the world's observables. The
  signal that was not given is the one that never aborts. \<open>response_next\<close>, \<open>response_close\<close> and
  \<open>response_result\<close> are the iterator and the result promise of a response, which \<open>streamFn\<close> names by a
  number. \<open>pick\<close> is the order in which concurrent tools make progress.
\<close>

record 'w config =
  cfg_api :: string
  cfg_provider :: string
  cfg_modelId :: string
  cfg_apiKey :: "string option"
  cfg_systemPrompt :: string
  cfg_tools :: "'w agent_tool list"
  cfg_sequential :: bool
  transformContext :: "(agent_message list \<Rightarrow> ('w, agent_message list) async) option"
  convertLlm :: "agent_message list \<Rightarrow> ('w, agent_message list) async"
  getSystemPrompt :: "('w \<Rightarrow> string) option"
  getApiKey :: "(string \<Rightarrow> ('w, string option) async) option"
  streamFn :: "llm_context \<Rightarrow> string option \<Rightarrow> ('w, nat) async"
  response_next :: "nat \<Rightarrow> ('w, stream_event option) async"
  response_close :: "nat \<Rightarrow> 'w \<Rightarrow> 'w"
  response_result :: "nat \<Rightarrow> ('w, assistant_message) async"
  shouldStopAfterTurn :: "(turn_context \<Rightarrow> ('w, bool) async) option"
  shouldStopBeforeTurn :: "('w \<Rightarrow> bool \<times> 'w) option"
  getSteeringMessages :: "('w, agent_message list) async option"
  getFollowUpMessages :: "('w, agent_message list) async option"
  getContinuationMessages :: "(turn_context \<Rightarrow> ('w, agent_message list) async) option"
  beforeToolCall :: "(assistant_message \<Rightarrow> tool_call \<Rightarrow> json \<Rightarrow> agent_message list
                       \<Rightarrow> ('w, before_result option) async) option"
  afterToolCall :: "(assistant_message \<Rightarrow> tool_call \<Rightarrow> json \<Rightarrow> tool_result \<Rightarrow> bool \<Rightarrow> agent_message list
                       \<Rightarrow> ('w, after_result option) async) option"
  emit_event :: "agent_event \<Rightarrow> 'w \<Rightarrow> js_error option \<times> 'w"
  signal_aborted :: "'w \<Rightarrow> bool"
  date_now :: "'w \<Rightarrow> jsnumber"
  pick :: "'w \<Rightarrow> nat"

section \<open>Programs\<close>

text \<open>
  The state of a run. \<open>ls_partial\<close> and \<open>ls_added\<close> are the variables \<open>partialMessage\<close> and
  \<open>addedPartial\<close> of the response that is being streamed.
\<close>

record 'w lstate =
  world :: 'w
  trace :: "agent_event list"
  ctx :: "agent_message list"
  newMessages :: "agent_message list"
  ls_partial :: "assistant_message option"
  ls_added :: bool

type_synonym ('w, 'a) prog = "'w lstate \<Rightarrow> ((js_error + 'a) \<times> 'w lstate) option"

definition ret :: "'a \<Rightarrow> ('w, 'a) prog" where
  "ret x s = Some (Inr x, s)"

definition throw :: "js_error \<Rightarrow> ('w, 'a) prog" where
  "throw e s = Some (Inl e, s)"

definition bindS :: "('w, 'a) prog \<Rightarrow> ('a \<Rightarrow> ('w, 'b) prog) \<Rightarrow> ('w, 'b) prog" where
  "bindS m f s = (case m s of
     None \<Rightarrow> None | Some (Inl e, t) \<Rightarrow> Some (Inl e, t) | Some (Inr x, t) \<Rightarrow> f x t)"

definition seqS :: "('w, unit) prog \<Rightarrow> ('w, 'b) prog \<Rightarrow> ('w, 'b) prog" where
  "seqS m n = bindS m (\<lambda>_. n)"

definition tryS :: "('w, 'a) prog \<Rightarrow> (js_error \<Rightarrow> ('w, 'a) prog) \<Rightarrow> ('w, 'a) prog" where
  "tryS m h s = (case m s of
     None \<Rightarrow> None | Some (Inl e, t) \<Rightarrow> h e t | Some (Inr x, t) \<Rightarrow> Some (Inr x, t))"

definition getS :: "('w lstate \<Rightarrow> 'a) \<Rightarrow> ('w, 'a) prog" where
  "getS f s = Some (Inr (f s), s)"

definition modS :: "('w lstate \<Rightarrow> 'w lstate) \<Rightarrow> ('w, unit) prog" where
  "modS f s = Some (Inr (), f s)"

definition is_aborted :: "'w config \<Rightarrow> ('w, bool) prog" where
  "is_aborted c = getS (\<lambda>s. signal_aborted c (world s))"

definition throwIfAborted :: "'w config \<Rightarrow> ('w, unit) prog" where
  "throwIfAborted c = bindS (is_aborted c) (\<lambda>b. if b then throw createAbortError else ret ())"

text \<open>
  \<open>raceWithAbort\<close>: the operation is started in any case; with the signal already aborted, or
  firing first, \<open>onAbort\<close> runs and the race rejects.
\<close>

definition raceWithAbort ::
    "'w config \<Rightarrow> ('w, 'a) async \<Rightarrow> ('w \<Rightarrow> 'w) \<Rightarrow> ('w, 'a) prog" where
  "raceWithAbort c operation onAbort s =
     (let (r, w) = operation (world s) in
      if signal_aborted c (world s) then Some (Inl createAbortError, s\<lparr>world := onAbort w\<rparr>)
      else case r of
        Settled v \<Rightarrow> Some (Inr v, s\<lparr>world := w\<rparr>)
      | Failed e \<Rightarrow> Some (Inl e, s\<lparr>world := w\<rparr>)
      | Interrupted \<Rightarrow> Some (Inl createAbortError, s\<lparr>world := onAbort w\<rparr>))"

definition maybePromiseWithAbort :: "'w config \<Rightarrow> ('w, 'a) async \<Rightarrow> ('w, 'a) prog" where
  "maybePromiseWithAbort c operation = raceWithAbort c operation (\<lambda>w. w)"

text \<open>\<open>settlePostTurn\<close>: None for the status \<open>aborted\<close>.\<close>

definition settlePostTurn :: "'w config \<Rightarrow> ('w, 'a) prog \<Rightarrow> ('w, 'a option) prog" where
  "settlePostTurn c m = tryS (bindS m (\<lambda>v. ret (Some v)))
     (\<lambda>e. bindS (is_aborted c) (\<lambda>b. if b \<and> isAbortError e then ret None else throw e))"

definition pollMessagesUnlessAborted ::
    "'w config \<Rightarrow> ('w, agent_message list) async option \<Rightarrow> ('w, agent_message list) prog" where
  "pollMessagesUnlessAborted c poll = bindS (is_aborted c) (\<lambda>b.
     case poll of
       None \<Rightarrow> ret []
     | Some p \<Rightarrow> if b then ret [] else maybePromiseWithAbort c p)"

definition emit :: "'w config \<Rightarrow> agent_event \<Rightarrow> ('w, unit) prog" where
  "emit c e s =
     (let (err, w) = emit_event c e (world s); t = s\<lparr>world := w, trace := trace s @ [e]\<rparr>
      in case err of None \<Rightarrow> Some (Inr (), t) | Some x \<Rightarrow> Some (Inl x, t))"

definition push_ctx :: "agent_message \<Rightarrow> ('w, unit) prog" where
  "push_ctx m = modS (\<lambda>s. s\<lparr>ctx := ctx s @ [m]\<rparr>)"

definition push_new :: "agent_message \<Rightarrow> ('w, unit) prog" where
  "push_new m = modS (\<lambda>s. s\<lparr>newMessages := newMessages s @ [m]\<rparr>)"

definition set_last_ctx :: "agent_message \<Rightarrow> ('w, unit) prog" where
  "set_last_ctx m = modS (\<lambda>s. s\<lparr>ctx := butlast (ctx s) @ [m]\<rparr>)"

section \<open>Streaming an assistant response\<close>

definition cloneAssistantContent :: "assistant_block list \<Rightarrow> assistant_block list" where
  "cloneAssistantContent content = map (\<lambda>b. b) content"

definition EMPTY_USAGE :: usage where
  "EMPTY_USAGE = emptyUsage"

definition createAbortedAssistantMessage ::
    "'w config \<Rightarrow> assistant_message option \<Rightarrow> jsnumber \<Rightarrow> assistant_message" where
  "createAbortedAssistantMessage c partial now =
     \<lparr>am_content = (case partial of Some p \<Rightarrow> cloneAssistantContent (am_content p) | None \<Rightarrow> [A_text [] None]),
      am_api = (case partial of Some p \<Rightarrow> am_api p | None \<Rightarrow> cfg_api c),
      am_provider = (case partial of Some p \<Rightarrow> am_provider p | None \<Rightarrow> cfg_provider c),
      am_model = (case partial of Some p \<Rightarrow> am_model p | None \<Rightarrow> cfg_modelId c),
      am_responseModel = None, am_responseId = None, am_diagnostics = None,
      am_usage = cloneUsage (case partial of Some p \<Rightarrow> am_usage p | None \<Rightarrow> EMPTY_USAGE),
      am_stopReason = Aborted, am_stopReasonRaw = None,
      am_errorMessage = Some ABORT_ERROR_MESSAGE, am_timestamp = now\<rparr>"

text \<open>The end of a response: the final message replaces the partial one or is added.\<close>

definition place_final :: "'w config \<Rightarrow> assistant_message \<Rightarrow> ('w, assistant_message) prog" where
  "place_final c m = bindS (getS ls_added) (\<lambda>added.
     seqS (if added then set_last_ctx (Assistant_msg m)
           else seqS (push_ctx (Assistant_msg m)) (emit c (Message_start (Assistant_msg m))))
     (seqS (emit c (Message_end (Assistant_msg m))) (ret m)))"

definition finishAbortedMessage :: "'w config \<Rightarrow> ('w, assistant_message) prog" where
  "finishAbortedMessage c = bindS (getS (\<lambda>s. (ls_partial s, date_now c (world s)))) (\<lambda>(p, now).
     place_final c (createAbortedAssistantMessage c p now))"

fun stream_loop :: "'w config \<Rightarrow> nat \<Rightarrow> nat \<Rightarrow> ('w, assistant_message) prog" where
  "stream_loop c response 0 = (\<lambda>s. None)"
| "stream_loop c response (Suc k) =
     bindS (raceWithAbort c (response_next c response) (response_close c response)) (\<lambda>nxt.
       case nxt of
         None \<Rightarrow> bindS (maybePromiseWithAbort c (response_result c response)) (place_final c)
       | Some ev \<Rightarrow>
         (case ev of
            Ev_start p \<Rightarrow>
              seqS (modS (\<lambda>s. s\<lparr>ls_partial := Some p, ctx := ctx s @ [Assistant_msg p], ls_added := True\<rparr>))
              (seqS (emit c (Message_start (Assistant_msg p))) (stream_loop c response k))
          | Ev_update kind i p \<Rightarrow>
              bindS (getS ls_partial) (\<lambda>part.
                seqS (if part \<noteq> None
                      then seqS (modS (\<lambda>s. s\<lparr>ls_partial := Some p\<rparr>))
                           (seqS (set_last_ctx (Assistant_msg p))
                                 (emit c (Message_update (Assistant_msg p) ev)))
                      else ret ())
                (stream_loop c response k))
          | _ \<Rightarrow>
              bindS (tryS (maybePromiseWithAbort c (response_result c response))
                      (\<lambda>e. bindS (is_aborted c) (\<lambda>b.
                         if \<not> b \<or> \<not> isAbortError e then throw e else ret (getTerminalMessage ev))))
                (place_final c)))"

definition streamAssistantResponse :: "'w config \<Rightarrow> nat \<Rightarrow> ('w, assistant_message) prog" where
  "streamAssistantResponse c k =
     seqS (modS (\<lambda>s. s\<lparr>ls_partial := None, ls_added := False\<rparr>))
     (tryS
       (seqS (throwIfAborted c)
       (bindS (getS ctx) (\<lambda>ms.
        bindS (case transformContext c of None \<Rightarrow> ret ms | Some f \<Rightarrow> maybePromiseWithAbort c (f ms)) (\<lambda>ms'.
        bindS (maybePromiseWithAbort c (convertLlm c ms')) (\<lambda>llm.
        bindS (case getApiKey c of None \<Rightarrow> ret None
                 | Some f \<Rightarrow> maybePromiseWithAbort c (f (cfg_provider c))) (\<lambda>key.
        bindS (getS (\<lambda>s. case getSystemPrompt c of None \<Rightarrow> cfg_systemPrompt c | Some f \<Rightarrow> f (world s))) (\<lambda>sys.
        bindS (maybePromiseWithAbort c (streamFn c \<lparr>lc_systemPrompt = sys, lc_messages = llm\<rparr>
                 (case key of Some x \<Rightarrow> (if x = [] then cfg_apiKey c else Some x) | None \<Rightarrow> cfg_apiKey c)))
        (\<lambda>response. stream_loop c response k))))))))
       (\<lambda>e. bindS (is_aborted c) (\<lambda>b. if b \<and> isAbortError e then finishAbortedMessage c else throw e)))"

section \<open>Tool calls\<close>

record finalized =
  fz_toolCall :: tool_call
  fz_result :: tool_result
  fz_isError :: bool

record 'w prepared =
  pr_toolCall :: tool_call
  pr_tool :: "'w agent_tool"
  pr_args :: json

datatype 'w preparation = Prepared "'w prepared" | Immediate tool_result bool

definition createErrorToolResult :: "string \<Rightarrow> tool_result" where
  "createErrorToolResult message =
     \<lparr>tl_content = [Text_content message None], tl_details = JObj [], tl_terminate = None\<rparr>"

definition shouldTerminateToolBatch :: "finalized list \<Rightarrow> bool" where
  "shouldTerminateToolBatch fs = (0 < length fs \<and> list_all (\<lambda>f. tl_terminate (fz_result f) = Some True) fs)"

definition find_tool :: "'w config \<Rightarrow> string \<Rightarrow> 'w agent_tool option" where
  "find_tool c name = find (\<lambda>t. tool_name t = name) (cfg_tools c)"

definition prepareToolCallArguments :: "'w agent_tool \<Rightarrow> tool_call \<Rightarrow> js_error + tool_call" where
  "prepareToolCallArguments t tc = (case tool_prepareArguments t of
     None \<Rightarrow> Inr tc
   | Some f \<Rightarrow> (case f (tc_arguments tc) of
                  Inl e \<Rightarrow> Inl e
                | Inr a \<Rightarrow> if a = tc_arguments tc then Inr tc else Inr (tc\<lparr>tc_arguments := a\<rparr>)))"

definition lift_result :: "js_error + 'a \<Rightarrow> ('w, 'a) prog" where
  "lift_result r = (case r of Inl e \<Rightarrow> throw e | Inr x \<Rightarrow> ret x)"

definition prepareToolCall ::
    "'w config \<Rightarrow> assistant_message \<Rightarrow> tool_call \<Rightarrow> ('w, 'w preparation) prog" where
  "prepareToolCall c am tc = (case find_tool c (tc_name tc) of
     None \<Rightarrow> ret (Immediate (createErrorToolResult (''Tool '' @ tc_name tc @ '' not found'')) True)
   | Some t \<Rightarrow>
       tryS
         (bindS (lift_result (prepareToolCallArguments t tc)) (\<lambda>ptc.
          bindS (lift_result (tool_validate t (tc_arguments ptc))) (\<lambda>args.
          bindS (case beforeToolCall c of
                   None \<Rightarrow> ret None
                 | Some f \<Rightarrow> bindS (getS ctx) (\<lambda>ms. maybePromiseWithAbort c (f am tc args ms))) (\<lambda>before.
          case before of
            Some b \<Rightarrow>
              if br_block b = Some True
              then ret (Immediate (createErrorToolResult (case br_reason b of
                     Some r \<Rightarrow> (if r = [] then ''Tool execution was blocked'' else r)
                   | None \<Rightarrow> ''Tool execution was blocked'')) True)
              else ret (Prepared \<lparr>pr_toolCall = tc, pr_tool = t, pr_args = args\<rparr>)
          | None \<Rightarrow> ret (Prepared \<lparr>pr_toolCall = tc, pr_tool = t, pr_args = args\<rparr>)))))
         (\<lambda>e. ret (Immediate (createErrorToolResult (error_text e)) True)))"

text \<open>
  The states of one tool execution: running, with the first error a partial update's listener
  raised; executed; finalized; or entirely done.
\<close>

datatype 'w entry =
    E_running "'w prepared" "js_error option"
  | E_executed "'w prepared" tool_result bool
  | E_finalized finalized
  | E_done finalized

definition start_entry :: "'w config \<Rightarrow> 'w prepared \<Rightarrow> ('w, 'w entry) prog" where
  "start_entry c p = bindS (is_aborted c) (\<lambda>b.
     if b then ret (E_executed p (createErrorToolResult ''Tool execution aborted'') True)
     else ret (E_running p None))"

text \<open>
  One step of a running tool. A partial result is published at once and its listener is not
  awaited; the listeners' first error surfaces when the tool has settled.
\<close>

definition exec_step :: "'w config \<Rightarrow> 'w prepared \<Rightarrow> js_error option \<Rightarrow> ('w, 'w entry) prog" where
  "exec_step c p ue s =
     (let tc = pr_toolCall p; (prog, w) = tool_step (pr_tool p) (tc_id tc) (pr_args p) (world s);
          s1 = s\<lparr>world := w\<rparr>; b = signal_aborted c w;
          failed = (\<lambda>e. E_executed p (createErrorToolResult
                     (if b then ''Tool execution aborted'' else error_text e)) True)
      in case prog of
        Partial_result r \<Rightarrow>
          if b then Some (Inr (E_running p ue), s1)
          else (case emit c (Tool_execution_update (tc_id tc) (tc_name tc) (tc_arguments tc) r) s1 of
                  None \<Rightarrow> None
                | Some (Inr _, s2) \<Rightarrow> Some (Inr (E_running p ue), s2)
                | Some (Inl e, s2) \<Rightarrow> Some (Inr (E_running p (case ue of None \<Rightarrow> Some e | Some e0 \<Rightarrow> Some e0)), s2))
      | Returned x \<Rightarrow>
          (case x of
             Settled r \<Rightarrow>
               (case ue of
                  None \<Rightarrow> Some (Inr (E_executed p r False), s1)
                | Some e \<Rightarrow> if \<not> b \<or> \<not> isAbortError e then Some (Inr (failed e), s1)
                             else Some (Inr (E_executed p r False), s1))
           | Failed e \<Rightarrow> Some (Inr (failed e), s1)
           | Interrupted \<Rightarrow> Some (Inr (failed createAbortError), s1)))"

definition nullish :: "json option \<Rightarrow> bool" where
  "nullish d = (d = None \<or> d = Some JNull)"

definition finalizeExecutedToolCall ::
    "'w config \<Rightarrow> assistant_message \<Rightarrow> 'w prepared \<Rightarrow> tool_result \<Rightarrow> bool \<Rightarrow> ('w, finalized) prog" where
  "finalizeExecutedToolCall c am p r isErr = (case afterToolCall c of
     None \<Rightarrow> ret \<lparr>fz_toolCall = pr_toolCall p, fz_result = r, fz_isError = isErr\<rparr>
   | Some f \<Rightarrow>
       tryS
         (bindS (getS ctx) (\<lambda>ms.
          bindS (maybePromiseWithAbort c (f am (pr_toolCall p) (pr_args p) r isErr ms)) (\<lambda>after.
          case after of
            None \<Rightarrow> ret \<lparr>fz_toolCall = pr_toolCall p, fz_result = r, fz_isError = isErr\<rparr>
          | Some a \<Rightarrow> ret \<lparr>fz_toolCall = pr_toolCall p,
              fz_result = \<lparr>tl_content = (case ar_content a of None \<Rightarrow> tl_content r | Some x \<Rightarrow> x),
                tl_details = (if nullish (ar_details a) then tl_details r else the (ar_details a)),
                tl_terminate = (case ar_terminate a of None \<Rightarrow> tl_terminate r | Some x \<Rightarrow> Some x)\<rparr>,
              fz_isError = (case ar_isError a of None \<Rightarrow> isErr | Some x \<Rightarrow> x)\<rparr>)))
         (\<lambda>e. ret \<lparr>fz_toolCall = pr_toolCall p, fz_result = createErrorToolResult (error_text e),
                fz_isError = True\<rparr>))"

definition emitToolExecutionEnd :: "'w config \<Rightarrow> finalized \<Rightarrow> ('w, unit) prog" where
  "emitToolExecutionEnd c f =
     emit c (Tool_execution_end (tc_id (fz_toolCall f)) (tc_name (fz_toolCall f)) (fz_result f) (fz_isError f))"

definition createToolResultMessage :: "finalized \<Rightarrow> jsnumber \<Rightarrow> tool_result_message" where
  "createToolResultMessage f now =
     \<lparr>tr_toolCallId = tc_id (fz_toolCall f), tr_toolName = tc_name (fz_toolCall f),
      tr_content = tl_content (fz_result f), tr_details = Some (tl_details (fz_result f)),
      tr_isError = fz_isError f, tr_timestamp = now\<rparr>"

definition emitToolResultMessage :: "'w config \<Rightarrow> tool_result_message \<Rightarrow> ('w, unit) prog" where
  "emitToolResultMessage c m =
     seqS (emit c (Message_start (Tool_result_msg m))) (emit c (Message_end (Tool_result_msg m)))"

section \<open>Batches of tool calls\<close>

record batch =
  bt_messages :: "tool_result_message list"
  bt_terminate :: bool

fun exec_loop :: "'w config \<Rightarrow> nat \<Rightarrow> 'w entry \<Rightarrow> ('w, 'w entry) prog" where
  "exec_loop c 0 e = (\<lambda>s. None)"
| "exec_loop c (Suc k) e = (case e of
     E_running p ue \<Rightarrow> bindS (exec_step c p ue) (exec_loop c k)
   | _ \<Rightarrow> ret e)"

definition emit_result :: "'w config \<Rightarrow> finalized \<Rightarrow> ('w, tool_result_message) prog" where
  "emit_result c f = bindS (getS (\<lambda>s. createToolResultMessage f (date_now c (world s)))) (\<lambda>m.
     seqS (emitToolResultMessage c m) (ret m))"

definition emit_tool_start :: "'w config \<Rightarrow> tool_call \<Rightarrow> ('w, unit) prog" where
  "emit_tool_start c tc = emit c (Tool_execution_start (tc_id tc) (tc_name tc) (tc_arguments tc))"

text \<open>One call of a sequential batch: prepared, executed and finalized before the next.\<close>

definition run_one :: "'w config \<Rightarrow> nat \<Rightarrow> assistant_message \<Rightarrow> tool_call \<Rightarrow> ('w, finalized) prog" where
  "run_one c k am tc = bindS (prepareToolCall c am tc) (\<lambda>prep.
     case prep of
       Immediate r isErr \<Rightarrow> ret \<lparr>fz_toolCall = tc, fz_result = r, fz_isError = isErr\<rparr>
     | Prepared p \<Rightarrow>
         bindS (start_entry c p) (\<lambda>e0. bindS (exec_loop c k e0) (\<lambda>e.
           case e of
             E_executed q r isErr \<Rightarrow> finalizeExecutedToolCall c am q r isErr
           | _ \<Rightarrow> (\<lambda>s. None))))"

fun sequential_loop ::
    "'w config \<Rightarrow> nat \<Rightarrow> assistant_message \<Rightarrow> tool_call list \<Rightarrow> ('w, (finalized \<times> tool_result_message) list) prog" where
  "sequential_loop c k am [] = ret []"
| "sequential_loop c k am (tc # tcs) = bindS (is_aborted c) (\<lambda>b.
     if b then ret []
     else seqS (emit_tool_start c tc)
       (bindS (run_one c k am tc) (\<lambda>f.
        seqS (emitToolExecutionEnd c f)
       (bindS (emit_result c f) (\<lambda>m.
        bindS (is_aborted c) (\<lambda>b2.
          if b2 then ret [(f, m)]
          else bindS (sequential_loop c k am tcs) (\<lambda>rest. ret ((f, m) # rest))))))))"

definition executeToolCallsSequential ::
    "'w config \<Rightarrow> nat \<Rightarrow> assistant_message \<Rightarrow> tool_call list \<Rightarrow> ('w, batch) prog" where
  "executeToolCallsSequential c k am tcs = bindS (sequential_loop c k am tcs) (\<lambda>fs.
     ret \<lparr>bt_messages = map snd fs, bt_terminate = shouldTerminateToolBatch (map fst fs)\<rparr>)"

text \<open>
  A parallel batch. The calls are prepared in order; the prepared ones then start in order and
  make progress in the order the world picks, one step at a time. Next to its fuel for partial
  results a batch has three steps for every call: to settle, to be finalized and to end.
\<close>

fun prepare_all ::
    "'w config \<Rightarrow> assistant_message \<Rightarrow> tool_call list \<Rightarrow> ('w, (finalized + 'w prepared) list) prog" where
  "prepare_all c am [] = ret []"
| "prepare_all c am (tc # tcs) =
     seqS (emit_tool_start c tc)
     (bindS (prepareToolCall c am tc) (\<lambda>prep.
      bindS (case prep of
               Immediate r isErr \<Rightarrow>
                 (let f = \<lparr>fz_toolCall = tc, fz_result = r, fz_isError = isErr\<rparr>
                  in seqS (emitToolExecutionEnd c f) (ret (Inl f)))
             | Prepared p \<Rightarrow> ret (Inr p)) (\<lambda>x.
      bindS (prepare_all c am tcs) (\<lambda>xs. ret (x # xs)))))"

fun start_all :: "'w config \<Rightarrow> (finalized + 'w prepared) list \<Rightarrow> ('w, 'w entry list) prog" where
  "start_all c [] = ret []"
| "start_all c (x # xs) =
     bindS (case x of Inl f \<Rightarrow> ret (E_done f) | Inr p \<Rightarrow> start_entry c p) (\<lambda>e.
     bindS (start_all c xs) (\<lambda>es. ret (e # es)))"

definition entry_step :: "'w config \<Rightarrow> assistant_message \<Rightarrow> 'w entry \<Rightarrow> ('w, 'w entry) prog" where
  "entry_step c am e = (case e of
     E_running p ue \<Rightarrow> exec_step c p ue
   | E_executed p r isErr \<Rightarrow> bindS (finalizeExecutedToolCall c am p r isErr) (\<lambda>f. ret (E_finalized f))
   | E_finalized f \<Rightarrow> seqS (emitToolExecutionEnd c f) (ret (E_done f))
   | E_done f \<Rightarrow> ret e)"

fun is_done :: "'w entry \<Rightarrow> bool" where
  "is_done (E_done _) = True"
| "is_done _ = False"

fun done_of :: "'w entry \<Rightarrow> finalized list" where
  "done_of (E_done f) = [f]"
| "done_of _ = []"

definition choose_entry :: "nat \<Rightarrow> 'w entry list \<Rightarrow> nat" where
  "choose_entry i es =
     (let pending = filter (\<lambda>j. \<not> is_done (es ! j)) [0..<length es]
      in if i \<in> set pending then i else hd pending)"

fun parallel_loop :: "'w config \<Rightarrow> nat \<Rightarrow> assistant_message \<Rightarrow> 'w entry list \<Rightarrow> ('w, finalized list) prog" where
  "parallel_loop c 0 am es = (\<lambda>s. None)"
| "parallel_loop c (Suc k) am es =
     (if list_all is_done es then ret (concat (map done_of es))
      else bindS (getS (\<lambda>s. choose_entry (pick c (world s)) es)) (\<lambda>i.
           bindS (entry_step c am (es ! i)) (\<lambda>e. parallel_loop c k am (es[i := e]))))"

fun emit_results :: "'w config \<Rightarrow> finalized list \<Rightarrow> ('w, tool_result_message list) prog" where
  "emit_results c [] = ret []"
| "emit_results c (f # fs) = bindS (emit_result c f) (\<lambda>m. bindS (emit_results c fs) (\<lambda>ms. ret (m # ms)))"

definition executeToolCallsParallel ::
    "'w config \<Rightarrow> nat \<Rightarrow> assistant_message \<Rightarrow> tool_call list \<Rightarrow> ('w, batch) prog" where
  "executeToolCallsParallel c k am tcs =
     bindS (prepare_all c am tcs) (\<lambda>xs.
     bindS (start_all c xs) (\<lambda>es.
     bindS (parallel_loop c (k + 3 * length es) am es) (\<lambda>fs.
     bindS (emit_results c fs) (\<lambda>ms.
       ret \<lparr>bt_messages = ms, bt_terminate = shouldTerminateToolBatch fs\<rparr>))))"

definition executeToolCalls :: "'w config \<Rightarrow> nat \<Rightarrow> assistant_message \<Rightarrow> ('w, batch) prog" where
  "executeToolCalls c k am =
     (let tcs = tool_calls_of (am_content am);
          hasSequential = list_ex (\<lambda>tc. case find_tool c (tc_name tc) of
            None \<Rightarrow> False | Some t \<Rightarrow> tool_mode t = Some Sequential) tcs
      in if cfg_sequential c \<or> hasSequential then executeToolCallsSequential c k am tcs
         else executeToolCallsParallel c k am tcs)"

section \<open>The loop\<close>

text \<open>The variables of \<open>runLoop\<close>; \<open>lv_last\<close> is \<open>lastTurn\<close> without the arrays it shares with the run.\<close>

record loop_vars =
  lv_first :: bool
  lv_last :: "(assistant_message \<times> tool_result_message list) option"
  lv_pending :: "agent_message list"
  lv_more :: bool

definition turn_context_of ::
    "assistant_message \<Rightarrow> tool_result_message list \<Rightarrow> 'w lstate \<Rightarrow> turn_context" where
  "turn_context_of am rs s =
     \<lparr>tx_message = am, tx_toolResults = rs, tx_messages = ctx s, tx_newMessages = newMessages s\<rparr>"

definition stop_before_turn :: "'w config \<Rightarrow> bool \<Rightarrow> ('w, bool) prog" where
  "stop_before_turn c first = (case shouldStopBeforeTurn c of
     None \<Rightarrow> ret False
   | Some f \<Rightarrow> if first then ret False
               else bindS (getS (\<lambda>s. f (world s))) (\<lambda>(b, w). seqS (modS (\<lambda>s. s\<lparr>world := w\<rparr>)) (ret b)))"

definition emit_end :: "'w config \<Rightarrow> ('w, unit) prog" where
  "emit_end c = bindS (getS newMessages) (\<lambda>ms. emit c (Agent_end ms))"

fun inject :: "'w config \<Rightarrow> agent_message list \<Rightarrow> ('w, unit) prog" where
  "inject c [] = ret ()"
| "inject c (m # ms) =
     seqS (emit c (Message_start m)) (seqS (emit c (Message_end m))
     (seqS (push_ctx m) (seqS (push_new m) (inject c ms))))"

fun push_results :: "tool_result_message list \<Rightarrow> ('w, unit) prog" where
  "push_results [] = ret ()"
| "push_results (r # rs) =
     seqS (push_ctx (Tool_result_msg r)) (seqS (push_new (Tool_result_msg r)) (push_results rs))"

text \<open>One pass of the inner loop: None when the run has ended, otherwise the next variables.\<close>

definition after_turn ::
    "'w config \<Rightarrow> assistant_message \<Rightarrow> tool_result_message list \<Rightarrow> bool \<Rightarrow> ('w, loop_vars option) prog" where
  "after_turn c am rs again =
     seqS (emit c (Turn_end (Assistant_msg am) rs))
     (bindS (is_aborted c) (\<lambda>b. if b then seqS (emit_end c) (ret None)
      else bindS (getS (turn_context_of am rs)) (\<lambda>tx.
        bindS (settlePostTurn c (case shouldStopAfterTurn c of
                 None \<Rightarrow> bindS (is_aborted c) (\<lambda>b. if b then throw createAbortError else ret False)
               | Some f \<Rightarrow> maybePromiseWithAbort c (f tx))) (\<lambda>stop.
        if stop = None then seqS (emit_end c) (ret None)
        else bindS (if the stop then ret True else stop_before_turn c False) (\<lambda>halt.
          if halt then seqS (emit_end c) (ret None)
          else bindS (settlePostTurn c (pollMessagesUnlessAborted c (getSteeringMessages c))) (\<lambda>steering.
            if steering = None then seqS (emit_end c) (ret None)
            else bindS (if the steering = [] then stop_before_turn c False else ret False) (\<lambda>halt2.
              if halt2 then seqS (emit_end c) (ret None)
              else ret (Some \<lparr>lv_first = False, lv_last = Some (am, rs), lv_pending = the steering,
                              lv_more = again\<rparr>))))))))"

definition turn :: "'w config \<Rightarrow> nat \<Rightarrow> loop_vars \<Rightarrow> ('w, loop_vars option) prog" where
  "turn c k v =
     seqS (throwIfAborted c)
     (seqS (if lv_first v then ret () else emit c Turn_start)
     (seqS (inject c (lv_pending v))
     (bindS (streamAssistantResponse c k) (\<lambda>am.
      seqS (push_new (Assistant_msg am))
      (if am_stopReason am = Error_stop \<or> am_stopReason am = Aborted
       then seqS (emit c (Turn_end (Assistant_msg am) [])) (seqS (emit_end c) (ret None))
       else if tool_calls_of (am_content am) = [] then after_turn c am [] False
       else bindS (executeToolCalls c k am) (\<lambda>bt.
              seqS (push_results (bt_messages bt))
                   (after_turn c am (bt_messages bt) (\<not> bt_terminate bt))))))))"

text \<open>
  The outer loop once the inner one is left: the messages that start another turn, or None
  when the run has ended.
\<close>

definition boundary :: "'w config \<Rightarrow> loop_vars \<Rightarrow> ('w, agent_message list option) prog" where
  "boundary c v = bindS (stop_before_turn c (lv_first v)) (\<lambda>halt.
     if halt then seqS (emit_end c) (ret None)
     else bindS (settlePostTurn c (pollMessagesUnlessAborted c (getFollowUpMessages c))) (\<lambda>followUp.
       if followUp = None then seqS (emit_end c) (ret None)
       else if the followUp \<noteq> [] then ret followUp
       else bindS (stop_before_turn c (lv_first v)) (\<lambda>halt2.
         if halt2 then seqS (emit_end c) (ret None)
         else bindS (case lv_last v of
                None \<Rightarrow> ret (Some [])
              | Some (am, rs) \<Rightarrow> (case getContinuationMessages c of
                  None \<Rightarrow> settlePostTurn c (bindS (is_aborted c) (\<lambda>b. if b then throw createAbortError else ret []))
                | Some f \<Rightarrow> bindS (getS (turn_context_of am rs)) (\<lambda>tx.
                    settlePostTurn c (maybePromiseWithAbort c (f tx))))) (\<lambda>continuation.
           if continuation = None then seqS (emit_end c) (ret None)
           else if the continuation \<noteq> [] then ret continuation
           else seqS (emit_end c) (ret None)))))"

text \<open>
  \<open>runLoop\<close>, with \<open>n\<close> bounding the passes and \<open>k\<close> the steps of a response or of a tool batch.
\<close>

fun run_loop :: "'w config \<Rightarrow> nat \<Rightarrow> nat \<Rightarrow> loop_vars \<Rightarrow> ('w, unit) prog" where
  "run_loop c k 0 v = (\<lambda>s. None)"
| "run_loop c k (Suc n) v =
     (if lv_more v \<or> lv_pending v \<noteq> [] then
        bindS (turn c k v) (\<lambda>r. case r of None \<Rightarrow> ret () | Some v' \<Rightarrow> run_loop c k n v')
      else bindS (boundary c v) (\<lambda>r. case r of
             None \<Rightarrow> ret ()
           | Some ms \<Rightarrow> seqS (throwIfAborted c) (run_loop c k n (v\<lparr>lv_pending := ms, lv_more := True\<rparr>))))"

definition runLoop :: "'w config \<Rightarrow> nat \<Rightarrow> nat \<Rightarrow> ('w, unit) prog" where
  "runLoop c k n = bindS (pollMessagesUnlessAborted c (getSteeringMessages c)) (\<lambda>pending.
     seqS (throwIfAborted c)
       (run_loop c k n \<lparr>lv_first = True, lv_last = None, lv_pending = pending, lv_more = True\<rparr>))"

fun emit_prompts :: "'w config \<Rightarrow> agent_message list \<Rightarrow> ('w, unit) prog" where
  "emit_prompts c [] = ret ()"
| "emit_prompts c (m # ms) =
     seqS (emit c (Message_start m)) (seqS (emit c (Message_end m)) (emit_prompts c ms))"

definition start_state :: "'w \<Rightarrow> agent_message list \<Rightarrow> agent_message list \<Rightarrow> 'w lstate" where
  "start_state w messages new =
     \<lparr>world = w, trace = [], ctx = messages, newMessages = new, ls_partial = None, ls_added = False\<rparr>"

definition runAgentLoop ::
    "'w config \<Rightarrow> nat \<Rightarrow> nat \<Rightarrow> agent_message list \<Rightarrow> agent_message list \<Rightarrow> 'w
      \<Rightarrow> ((js_error + agent_message list) \<times> 'w lstate) option" where
  "runAgentLoop c k n prompts messages w =
     (seqS (emit c Agent_start) (seqS (emit c Turn_start) (seqS (emit_prompts c prompts)
       (seqS (runLoop c k n) (getS newMessages)))))
     (start_state w (messages @ prompts) prompts)"

definition CANNOT_CONTINUE :: js_error where
  "CANNOT_CONTINUE = Js_error ''Error'' ''Cannot continue: no messages in context''"

definition CANNOT_CONTINUE_ASSISTANT :: js_error where
  "CANNOT_CONTINUE_ASSISTANT = Js_error ''Error'' ''Cannot continue from message role: assistant''"

definition is_assistant :: "agent_message \<Rightarrow> bool" where
  "is_assistant m = (case m of Assistant_msg _ \<Rightarrow> True | _ \<Rightarrow> False)"

definition runAgentLoopContinue ::
    "'w config \<Rightarrow> nat \<Rightarrow> nat \<Rightarrow> agent_message list \<Rightarrow> 'w
      \<Rightarrow> ((js_error + agent_message list) \<times> 'w lstate) option" where
  "runAgentLoopContinue c k n messages w =
     (if messages = [] then Some (Inl CANNOT_CONTINUE, start_state w messages [])
      else if is_assistant (last messages) then Some (Inl CANNOT_CONTINUE_ASSISTANT, start_state w messages [])
      else (seqS (emit c Agent_start) (seqS (emit c Turn_start)
             (seqS (runLoop c k n) (getS newMessages)))) (start_state w messages []))"

end
