(* ===== verification/Agent_Loop_Runs.thy ===== *)
theory Agent_Loop_Runs
  imports Agent_Loop
begin

text \<open>
  What a run of the agent loop does. Programs are reasoned about by weakest preconditions; the
  events of a run are read through projections (messages started and ended, tool executions
  started and ended, the frame of agent and turn events). One lemma per function of the loop
  states what it adds to the trace, from the streamed response over the tool batches and the
  turns to the whole run, on return and on a throw.
\<close>

section \<open>Weakest preconditions\<close>

text \<open>
  \<open>wp m s R\<close>: if the program returns at all, its result and state satisfy \<open>R\<close>. The equations
  below reduce a program to its postcondition by simplification.
\<close>

definition wp :: "('w, 'a) prog \<Rightarrow> 'w lstate \<Rightarrow> (js_error + 'a \<Rightarrow> 'w lstate \<Rightarrow> bool) \<Rightarrow> bool" where
  "wp m s R = (case m s of None \<Rightarrow> True | Some (r, t) \<Rightarrow> R r t)"

text \<open>A postcondition on success only.\<close>

definition onOk :: "('a \<Rightarrow> 'w lstate \<Rightarrow> bool) \<Rightarrow> js_error + 'a \<Rightarrow> 'w lstate \<Rightarrow> bool" where
  "onOk R r t = (case r of Inl _ \<Rightarrow> True | Inr x \<Rightarrow> R x t)"

lemma onOk_simps [simp]: "onOk R (Inl e) t" "onOk R (Inr x) t = R x t"
  by (simp_all add: onOk_def)

text \<open>A postcondition on both ways to return: \<open>E\<close> on the state after an error, \<open>R\<close> on success.\<close>

definition onBoth :: "('w lstate \<Rightarrow> bool) \<Rightarrow> ('a \<Rightarrow> 'w lstate \<Rightarrow> bool) \<Rightarrow> js_error + 'a \<Rightarrow> 'w lstate \<Rightarrow> bool" where
  "onBoth E R r t = (case r of Inl _ \<Rightarrow> E t | Inr x \<Rightarrow> R x t)"

lemma onBoth_simps [simp]: "onBoth E R (Inl e) t = E t" "onBoth E R (Inr x) t = R x t"
  by (simp_all add: onBoth_def)

lemma wp_D: "wp m s R \<Longrightarrow> m s = Some (r, t) \<Longrightarrow> R r t"
  by (simp add: wp_def)

lemma wp_mono: "wp m s R \<Longrightarrow> (\<And>r t. R r t \<Longrightarrow> Q r t) \<Longrightarrow> wp m s Q"
  by (auto simp: wp_def split: option.splits)

lemma wp_onOk_mono: "wp m s (onOk R) \<Longrightarrow> (\<And>x t. R x t \<Longrightarrow> Q x t) \<Longrightarrow> wp m s (onOk Q)"
  by (auto simp: wp_def onOk_def split: option.splits sum.splits)

lemma wp_onBoth_mono:
  "wp m s (onBoth E R) \<Longrightarrow> (\<And>t. E t \<Longrightarrow> F t) \<Longrightarrow> (\<And>x t. R x t \<Longrightarrow> Q x t) \<Longrightarrow> wp m s (onBoth F Q)"
  by (auto simp: wp_def onBoth_def split: option.splits sum.splits)

named_theorems wp_simps \<open>reduction of weakest preconditions\<close>

lemma wp_ret [wp_simps]: "wp (ret x) s R = R (Inr x) s"
  by (simp add: wp_def ret_def)

lemma wp_throw [wp_simps]: "wp (throw e) s R = R (Inl e) s"
  by (simp add: wp_def throw_def)

lemma wp_none [wp_simps]: "wp (\<lambda>s. None) s R = True"
  by (simp add: wp_def)

lemma wp_get [wp_simps]: "wp (getS f) s R = R (Inr (f s)) s"
  by (simp add: wp_def getS_def)

lemma wp_mod [wp_simps]: "wp (modS g) s R = R (Inr ()) (g s)"
  by (simp add: wp_def modS_def)

lemma wp_bind [wp_simps]:
  "wp (bindS m f) s R = wp m s (\<lambda>r t. case r of Inl e \<Rightarrow> R (Inl e) t | Inr x \<Rightarrow> wp (f x) t R)"
  by (auto simp: wp_def bindS_def split: option.splits sum.splits)

lemma wp_seq [wp_simps]:
  "wp (seqS m n) s R = wp m s (\<lambda>r t. case r of Inl e \<Rightarrow> R (Inl e) t | Inr x \<Rightarrow> wp n t R)"
  by (simp add: seqS_def wp_bind)

lemma wp_try [wp_simps]:
  "wp (tryS m h) s R = wp m s (\<lambda>r t. case r of Inl e \<Rightarrow> wp (h e) t R | Inr x \<Rightarrow> R (Inr x) t)"
  by (auto simp: wp_def tryS_def split: option.splits sum.splits)

lemma wp_bind_onOk:
  "wp (bindS m f) s (onOk R) = wp m s (onOk (\<lambda>x t. wp (f x) t (onOk R)))"
  unfolding wp_bind onOk_def [abs_def] by (simp cong del: sum.case_cong_weak)

lemma wp_seq_onOk:
  "wp (seqS m n) s (onOk R) = wp m s (onOk (\<lambda>_ t. wp n t (onOk R)))"
  unfolding seqS_def by (rule wp_bind_onOk)

lemma wp_bind_onBoth:
  "wp (bindS m f) s (onBoth E R) = wp m s (onBoth E (\<lambda>x t. wp (f x) t (onBoth E R)))"
  unfolding wp_bind onBoth_def [abs_def] by (simp cong del: sum.case_cong_weak)

lemma wp_seq_onBoth:
  "wp (seqS m n) s (onBoth E R) = wp m s (onBoth E (\<lambda>_ t. wp n t (onBoth E R)))"
  unfolding seqS_def by (rule wp_bind_onBoth)

lemma wp_bindB:
  assumes "wp m s (onBoth E P)" and "\<And>x t. P x t \<Longrightarrow> wp (f x) t (onBoth E R)"
  shows "wp (bindS m f) s (onBoth E R)"
  unfolding wp_bind_onBoth by (rule wp_onBoth_mono [OF assms(1)]) (simp_all add: assms(2))

lemma wp_seqB:
  assumes "wp m s (onBoth E P)" and "\<And>x t. P x t \<Longrightarrow> wp n t (onBoth E R)"
  shows "wp (seqS m n) s (onBoth E R)"
  unfolding seqS_def by (rule wp_bindB [OF assms(1)]) (rule assms(2))

text \<open>Programs that do not throw; of them a postcondition on success says everything.\<close>

definition no_throw :: "('w, 'a) prog \<Rightarrow> bool" where
  "no_throw m \<longleftrightarrow> (\<forall>s e t. m s \<noteq> Some (Inl e, t))"

named_theorems no_throws \<open>programs that do not throw\<close>

lemma wp_no_throw: "wp m s (onOk R) \<Longrightarrow> no_throw m \<Longrightarrow> wp m s (onBoth E R)"
  by (auto simp: wp_def onOk_def onBoth_def no_throw_def split: option.splits sum.splits)

lemma no_throw_basic [no_throws, simp]:
  "no_throw (ret x)" "no_throw (getS f)" "no_throw (modS g)" "no_throw (\<lambda>s. None)" "no_throw (is_aborted c)"
  "no_throw (push_ctx m)" "no_throw (push_new m)" "no_throw (set_last_ctx m)"
  by (simp_all add: no_throw_def ret_def getS_def modS_def is_aborted_def push_ctx_def push_new_def set_last_ctx_def)

lemma no_throw_bind [no_throws]: "no_throw m \<Longrightarrow> (\<And>x. no_throw (f x)) \<Longrightarrow> no_throw (bindS m f)"
  by (auto simp: no_throw_def bindS_def split: option.splits sum.splits)

lemma no_throw_seq [no_throws]: "no_throw m \<Longrightarrow> no_throw n \<Longrightarrow> no_throw (seqS m n)"
  unfolding seqS_def by (rule no_throw_bind)

lemma no_throw_try [no_throws]: "(\<And>e. no_throw (h e)) \<Longrightarrow> no_throw (tryS m h)"
  by (auto simp: no_throw_def tryS_def split: option.splits sum.splits)

lemma wp_is_aborted [wp_simps]: "wp (is_aborted c) s R = R (Inr (signal_aborted c (world s))) s"
  by (simp add: is_aborted_def wp_get)

lemma wp_throwIfAborted [wp_simps]:
  "wp (throwIfAborted c) s R =
     (if signal_aborted c (world s) then R (Inl createAbortError) s else R (Inr ()) s)"
  by (simp add: throwIfAborted_def wp_simps)

text \<open>Awaiting the outside changes the world only.\<close>

lemma wp_race:
  assumes "\<And>r w. R r (s\<lparr>world := w\<rparr>)"
  shows "wp (raceWithAbort c op ab) s R"
  using assms by (auto simp: wp_def raceWithAbort_def split: option.splits prod.splits settled.splits)

lemma wp_maybe: "(\<And>r w. R r (s\<lparr>world := w\<rparr>)) \<Longrightarrow> wp (maybePromiseWithAbort c op) s R"
  unfolding maybePromiseWithAbort_def by (rule wp_race)

lemma wp_poll:
  assumes "\<And>r w. R r (s\<lparr>world := w\<rparr>)"
  shows "wp (pollMessagesUnlessAborted c p) s R"
proof -
  have s: "R r s" for r using assms [of r "world s"] by simp
  show ?thesis
  proof (cases p)
    case None
    then show ?thesis by (simp add: pollMessagesUnlessAborted_def wp_simps s)
  next
    case (Some q)
    then show ?thesis
      by (cases "signal_aborted c (world s)")
        (auto simp: pollMessagesUnlessAborted_def wp_simps s intro: wp_maybe assms)
  qed
qed

lemma wp_settle:
  assumes m: "wp m s (\<lambda>r t. \<exists>w. t = s\<lparr>world := w\<rparr>)" and R: "\<And>r w. R r (s\<lparr>world := w\<rparr>)"
  shows "wp (settlePostTurn c m) s R"
  unfolding settlePostTurn_def wp_try wp_bind
  by (rule wp_mono [OF m]) (auto simp: wp_simps R split: sum.splits)

text \<open>The listeners of the agent do not throw.\<close>

definition listeners_quiet :: "'w config \<Rightarrow> bool" where
  "listeners_quiet c = (\<forall>e w. fst (emit_event c e w) = None)"

lemma wp_emit:
  assumes "listeners_quiet c"
  shows "wp (emit c e) s R =
    R (Inr ()) (s\<lparr>world := snd (emit_event c e (world s)), trace := trace s @ [e]\<rparr>)"
  using assms [unfolded listeners_quiet_def, rule_format, of e "world s"]
  by (cases "emit_event c e (world s)") (simp add: wp_def emit_def Let_def)

lemma wp_context [wp_simps]:
  "wp (push_ctx m) s R = R (Inr ()) (s\<lparr>ctx := ctx s @ [m]\<rparr>)"
  "wp (push_new m) s R = R (Inr ()) (s\<lparr>newMessages := newMessages s @ [m]\<rparr>)"
  "wp (set_last_ctx m) s R = R (Inr ()) (s\<lparr>ctx := butlast (ctx s) @ [m]\<rparr>)"
  by (simp_all add: push_ctx_def push_new_def set_last_ctx_def wp_simps)

lemma no_throw_emit [no_throws]: "listeners_quiet c \<Longrightarrow> no_throw (emit c e)"
  unfolding no_throw_def
proof (intro allI)
  fix s :: "'a lstate" and x t
  assume "listeners_quiet c"
  then have "fst (emit_event c e (world s)) = None" by (simp add: listeners_quiet_def)
  then show "emit c e s \<noteq> Some (Inl x, t)" by (cases "emit_event c e (world s)") (simp add: emit_def)
qed

section \<open>What the events record\<close>

definition message_ends :: "agent_event list \<Rightarrow> agent_message list" where
  "message_ends es = concat (map (\<lambda>e. case e of Message_end m \<Rightarrow> [m] | _ \<Rightarrow> []) es)"

definition message_starts :: "agent_event list \<Rightarrow> agent_message list" where
  "message_starts es = concat (map (\<lambda>e. case e of Message_start m \<Rightarrow> [m] | _ \<Rightarrow> []) es)"

definition tool_starts :: "agent_event list \<Rightarrow> string list" where
  "tool_starts es = concat (map (\<lambda>e. case e of Tool_execution_start i _ _ \<Rightarrow> [i] | _ \<Rightarrow> []) es)"

definition tool_ends :: "agent_event list \<Rightarrow> string list" where
  "tool_ends es = concat (map (\<lambda>e. case e of Tool_execution_end i _ _ _ \<Rightarrow> [i] | _ \<Rightarrow> []) es)"

definition frame_events :: "agent_event list \<Rightarrow> agent_event list" where
  "frame_events es = filter (\<lambda>e. case e of Agent_start \<Rightarrow> True | Agent_end _ \<Rightarrow> True
     | Turn_start \<Rightarrow> True | Turn_end _ _ \<Rightarrow> True | _ \<Rightarrow> False) es"

lemma projections_append [simp]:
  "message_ends (xs @ ys) = message_ends xs @ message_ends ys"
  "message_starts (xs @ ys) = message_starts xs @ message_starts ys"
  "tool_starts (xs @ ys) = tool_starts xs @ tool_starts ys"
  "tool_ends (xs @ ys) = tool_ends xs @ tool_ends ys"
  "frame_events (xs @ ys) = frame_events xs @ frame_events ys"
  by (simp_all add: message_ends_def message_starts_def tool_starts_def tool_ends_def frame_events_def)

lemma projections_Nil [simp]:
  "message_ends [] = []" "message_starts [] = []" "tool_starts [] = []" "tool_ends [] = []" "frame_events [] = []"
  by (simp_all add: message_ends_def message_starts_def tool_starts_def tool_ends_def frame_events_def)

lemma projections_Cons [simp]:
  "message_ends (e # es) = (case e of Message_end m \<Rightarrow> m # message_ends es | _ \<Rightarrow> message_ends es)"
  "message_starts (e # es) = (case e of Message_start m \<Rightarrow> m # message_starts es | _ \<Rightarrow> message_starts es)"
  "tool_starts (e # es) = (case e of Tool_execution_start i _ _ \<Rightarrow> i # tool_starts es | _ \<Rightarrow> tool_starts es)"
  "tool_ends (e # es) = (case e of Tool_execution_end i _ _ _ \<Rightarrow> i # tool_ends es | _ \<Rightarrow> tool_ends es)"
  "frame_events (e # es) = (case e of Agent_start \<Rightarrow> e # frame_events es | Agent_end _ \<Rightarrow> e # frame_events es
     | Turn_start \<Rightarrow> e # frame_events es | Turn_end _ _ \<Rightarrow> e # frame_events es | _ \<Rightarrow> frame_events es)"
  by (auto simp: message_ends_def message_starts_def tool_starts_def tool_ends_def frame_events_def
      split: agent_event.splits)

section \<open>The streamed response\<close>

text \<open>While a response streams: nothing is ended, and the partial message is the last of the context.\<close>

definition streaming :: "'w lstate \<Rightarrow> 'w lstate \<Rightarrow> bool" where
  "streaming s0 s \<longleftrightarrow> newMessages s = newMessages s0 \<and> (\<exists>es. trace s = trace s0 @ es
     \<and> frame_events es = [] \<and> tool_starts es = [] \<and> tool_ends es = [] \<and> message_ends es = []
     \<and> (if ls_added s then message_starts es \<noteq> []
          \<and> (length (message_starts es) = 1 \<longrightarrow> (\<exists>m. ctx s = ctx s0 @ [m]))
        else message_starts es = [] \<and> ctx s = ctx s0 \<and> ls_partial s = None))"

definition streamed :: "'w lstate \<Rightarrow> assistant_message \<Rightarrow> 'w lstate \<Rightarrow> bool" where
  "streamed s0 am s \<longleftrightarrow> newMessages s = newMessages s0 \<and> (\<exists>es. trace s = trace s0 @ es
     \<and> frame_events es = [] \<and> tool_starts es = [] \<and> tool_ends es = [] \<and> message_ends es = [Assistant_msg am]
     \<and> message_starts es \<noteq> [] \<and> (length (message_starts es) = 1 \<longrightarrow> ctx s = ctx s0 @ [Assistant_msg am]))"

lemma streaming_world: "streaming s0 s \<Longrightarrow> streaming s0 (s\<lparr>world := w\<rparr>)"
  by (auto simp: streaming_def split: if_splits)

lemma wp_place_final:
  assumes "listeners_quiet c" and "streaming s0 s"
  shows "wp (place_final c m) s (onBoth (streaming s0) (streamed s0))"
  using assms(2)
  by (auto simp: place_final_def wp_simps wp_emit [OF assms(1)] streaming_def streamed_def
      split: if_splits)

lemma wp_stream_loop:
  assumes quiet: "listeners_quiet c"
  shows "streaming s0 s \<Longrightarrow> wp (stream_loop c response k) s
    (\<lambda>r t. case r of Inl e \<Rightarrow> streaming s0 t | Inr am \<Rightarrow> streamed s0 am t)"
proof (induction k arbitrary: s)
  case 0
  then show ?case by (simp add: wp_simps)
next
  case (Suc k)
  let ?R = "\<lambda>r t. case r of Inl e \<Rightarrow> streaming s0 t | Inr am \<Rightarrow> streamed s0 am t"
  have final: "wp (place_final c m) t ?R" if "streaming s0 t" for m t
    using that
    by (auto simp: place_final_def wp_simps wp_emit [OF quiet] streaming_def streamed_def split: if_splits)
  have start: "wp (stream_loop c response k) (t\<lparr>ls_partial := Some p, ctx := ctx t @ [Assistant_msg p], ls_added := True,
      world := w, trace := trace t @ [Message_start (Assistant_msg p)]\<rparr>) ?R"
    if "streaming s0 t" for t w p
    by (rule Suc.IH) (use that in \<open>auto simp: streaming_def split: if_splits\<close>)
  have upd: "wp (stream_loop c response k) (t\<lparr>ls_partial := Some p, ctx := butlast (ctx t) @ [Assistant_msg p],
      world := w, trace := trace t @ [Message_update (Assistant_msg p) ev]\<rparr>) ?R"
    if "streaming s0 t" "ls_partial t \<noteq> None" for t w p ev
    by (rule Suc.IH) (use that in \<open>auto simp: streaming_def split: if_splits\<close>)
  have event: "wp (case nxt of
         None \<Rightarrow> bindS (maybePromiseWithAbort c (response_result c response)) (place_final c)
       | Some ev \<Rightarrow>
         (case ev of
            Ev_start p \<Rightarrow>
              seqS (modS (\<lambda>s. s\<lparr>ls_partial := Some p, ctx := ctx s @ [Assistant_msg p], ls_added := True\<rparr>))
              (seqS (emit c (Message_start (Assistant_msg p))) (stream_loop c response k))
          | Ev_update kind i p \<Rightarrow>
              bindS (getS ls_partial) (\<lambda>part.
                seqS (if part \<noteq> None
                      then seqS (modS (\<lambda>s. s\<lparr>ls_partial := Some p\<rparr>))
                           (seqS (set_last_ctx (Assistant_msg p))
                                 (emit c (Message_update (Assistant_msg p) ev)))
                      else ret ())
                (stream_loop c response k))
          | _ \<Rightarrow>
              bindS (tryS (maybePromiseWithAbort c (response_result c response))
                      (\<lambda>e. bindS (is_aborted c) (\<lambda>b.
                         if \<not> b \<or> \<not> isAbortError e then throw e else ret (getTerminalMessage ev))))
                (place_final c))) t ?R" if st: "streaming s0 t" for nxt t
  proof -
    have st': "streaming s0 (t\<lparr>world := w\<rparr>)" for w by (rule streaming_world [OF st])
    have fin: "wp (maybePromiseWithAbort c op) t (\<lambda>r t. case r of Inl e \<Rightarrow> streaming s0 t | Inr m \<Rightarrow> wp (place_final c m) t ?R)"
      for op by (rule wp_maybe) (simp add: st' final split: sum.splits)
    have terminal: "wp (maybePromiseWithAbort c op) t (\<lambda>r t. case r of
        Inl e \<Rightarrow> (if \<not> signal_aborted c (world t) \<or> \<not> isAbortError e then streaming s0 t else wp (place_final c m) t ?R)
      | Inr x \<Rightarrow> wp (place_final c x) t ?R)" for op m
      by (rule wp_maybe) (simp add: st' final split: sum.splits)
    show ?thesis
    proof (cases nxt)
      case None
      with fin show ?thesis by (simp add: wp_simps cong del: sum.case_cong_weak)
    next
      case (Some ev)
      show ?thesis
      proof (cases ev)
        case (Ev_start p)
        with Some start [OF st] show ?thesis by (simp add: wp_simps wp_emit [OF quiet])
      next
        case (Ev_update kind i p)
        with Some upd [OF st] Suc.IH [OF st] show ?thesis
          by (simp add: wp_simps wp_emit [OF quiet])
      next
        case (Ev_done x m)
        with Some terminal show ?thesis
          by (simp add: wp_simps if_distrib [of "\<lambda>p. wp p _ _"] cong: if_cong cong del: sum.case_cong_weak)
      next
        case (Ev_error x m)
        with Some terminal show ?thesis
          by (simp add: wp_simps if_distrib [of "\<lambda>p. wp p _ _"] cong: if_cong cong del: sum.case_cong_weak)
      qed
    qed
  qed
  show ?case
    unfolding stream_loop.simps wp_bind
    by (rule wp_race) (auto simp: streaming_world [OF Suc.prems] event split: sum.splits)
qed

lemma wp_streamAssistantResponse:
  assumes quiet: "listeners_quiet c"
  shows "wp (streamAssistantResponse c k) s (onBoth (streaming s) (streamed s))"
proof -
  let ?R = "\<lambda>r t. case r of Inl e \<Rightarrow> streaming s t | Inr am \<Rightarrow> streamed s am t"
  define s1 where "s1 = s\<lparr>ls_partial := None, ls_added := False\<rparr>"
  have s1: "streaming s (s1\<lparr>world := w\<rparr>)" for w by (simp add: streaming_def s1_def)
  have s1': "streaming s s1" by (simp add: streaming_def s1_def)
  have loop: "wp (stream_loop c r k) (s1\<lparr>world := w\<rparr>) ?R" for r w
    by (rule wp_stream_loop [OF quiet s1])
  have maybe: "wp (maybePromiseWithAbort c op) (s1\<lparr>world := w\<rparr>) R"
    if "\<And>r w. R r (s1\<lparr>world := w\<rparr>)" for op R w
    by (rule wp_maybe) (use that in simp)
  have opt: "wp (case f of None \<Rightarrow> ret x | Some g \<Rightarrow> maybePromiseWithAbort c (g y)) (s1\<lparr>world := w\<rparr>) R"
    if "\<And>r w. R r (s1\<lparr>world := w\<rparr>)" for f x y w R
    using that by (cases f) (simp_all add: wp_simps maybe)
  have body: "wp (bindS (getS ctx) (\<lambda>ms.
        bindS (case transformContext c of None \<Rightarrow> ret ms | Some f \<Rightarrow> maybePromiseWithAbort c (f ms)) (\<lambda>ms'.
        bindS (maybePromiseWithAbort c (convertLlm c ms')) (\<lambda>llm.
        bindS (case getApiKey c of None \<Rightarrow> ret None
                 | Some f \<Rightarrow> maybePromiseWithAbort c (f (cfg_provider c))) (\<lambda>key.
        bindS (getS (\<lambda>s. case getSystemPrompt c of None \<Rightarrow> cfg_systemPrompt c | Some f \<Rightarrow> f (world s))) (\<lambda>sys.
        bindS (maybePromiseWithAbort c (streamFn c \<lparr>lc_systemPrompt = sys, lc_messages = llm\<rparr>
                 (case key of Some x \<Rightarrow> (if x = [] then cfg_apiKey c else Some x) | None \<Rightarrow> cfg_apiKey c)))
        (\<lambda>response. stream_loop c response k))))))) (s1\<lparr>world := w\<rparr>) ?R" for w
    unfolding wp_bind wp_get sum.case
    by (rule opt, rule sum.split [THEN iffD2], intro conjI allI impI, simp add: s1,
        rule maybe, rule sum.split [THEN iffD2], intro conjI allI impI, simp add: s1,
        rule opt, rule sum.split [THEN iffD2], intro conjI allI impI, simp add: s1,
        rule maybe, rule sum.split [THEN iffD2], intro conjI allI impI, simp add: s1, rule loop)
  have fin: "wp (finishAbortedMessage c) t (onBoth (streaming s) (streamed s))" if "streaming s t" for t
    using wp_place_final [OF quiet that] by (simp add: finishAbortedMessage_def wp_simps)
  have body': "wp (seqS (throwIfAborted c) (bindS (getS ctx) (\<lambda>ms.
        bindS (case transformContext c of None \<Rightarrow> ret ms | Some f \<Rightarrow> maybePromiseWithAbort c (f ms)) (\<lambda>ms'.
        bindS (maybePromiseWithAbort c (convertLlm c ms')) (\<lambda>llm.
        bindS (case getApiKey c of None \<Rightarrow> ret None
                 | Some f \<Rightarrow> maybePromiseWithAbort c (f (cfg_provider c))) (\<lambda>key.
        bindS (getS (\<lambda>s. case getSystemPrompt c of None \<Rightarrow> cfg_systemPrompt c | Some f \<Rightarrow> f (world s))) (\<lambda>sys.
        bindS (maybePromiseWithAbort c (streamFn c \<lparr>lc_systemPrompt = sys, lc_messages = llm\<rparr>
                 (case key of Some x \<Rightarrow> (if x = [] then cfg_apiKey c else Some x) | None \<Rightarrow> cfg_apiKey c)))
        (\<lambda>response. stream_loop c response k)))))))) s1 ?R"
    using body [of "world s1"] s1' by (simp add: wp_seq wp_throwIfAborted)
  show ?thesis
    unfolding streamAssistantResponse_def wp_seq [of "modS _"] wp_mod sum.case s1_def [symmetric] wp_try
    by (rule wp_mono [OF body']) (auto simp: wp_simps fin split: sum.splits)
qed

section \<open>Tool batches\<close>

lemma wp_bindI:
  assumes "wp m s (onOk P)" and "\<And>x t. P x t \<Longrightarrow> wp (f x) t (onOk R)"
  shows "wp (bindS m f) s (onOk R)"
  unfolding wp_bind_onOk by (rule wp_onOk_mono [OF assms(1)]) (rule assms(2))

lemma wp_seqI:
  assumes "wp m s (onOk P)" and "\<And>x t. P x t \<Longrightarrow> wp n t (onOk R)"
  shows "wp (seqS m n) s (onOk R)"
  unfolding seqS_def by (rule wp_bindI [OF assms(1)]) (rule assms(2))

lemma wp_retI: "R x s \<Longrightarrow> wp (ret x) s (onOk R)"
  by (simp add: wp_simps)

lemma wp_getI: "(\<And>t. t = s \<Longrightarrow> P (f s) t) \<Longrightarrow> wp (getS f) s (onOk P)"
  by (simp add: wp_simps)

text \<open>
  What a stretch of tool work adds to the trace: executions started and ended, and tool-result
  messages, in order. It leaves the transcript to its caller.
\<close>

definition tool_phase ::
    "'w lstate \<Rightarrow> string list \<Rightarrow> string list \<Rightarrow> agent_message list \<Rightarrow> 'w lstate \<Rightarrow> bool" where
  "tool_phase s a b ms t \<longleftrightarrow> newMessages t = newMessages s \<and> ctx t = ctx s \<and> (\<exists>es. trace t = trace s @ es
     \<and> frame_events es = [] \<and> tool_starts es = a \<and> tool_ends es = b \<and> message_ends es = ms \<and> message_starts es = ms)"

lemma tool_phase_world [simp]: "tool_phase s [] [] [] (s\<lparr>world := w\<rparr>)"
  by (simp add: tool_phase_def)

lemma tool_phase_refl [simp]: "tool_phase s [] [] [] s"
  by (simp add: tool_phase_def)

lemma tool_phase_trans:
  assumes "tool_phase s a b ms t" and "tool_phase t a' b' ms' u"
  shows "tool_phase s (a @ a') (b @ b') (ms @ ms') u"
proof -
  from assms obtain es es' where "trace t = trace s @ es" "trace u = trace t @ es'"
    "frame_events es = []" "tool_starts es = a" "tool_ends es = b" "message_ends es = ms" "message_starts es = ms"
    "frame_events es' = []" "tool_starts es' = a'" "tool_ends es' = b'" "message_ends es' = ms'" "message_starts es' = ms'"
    by (auto simp: tool_phase_def)
  with assms show ?thesis
    unfolding tool_phase_def by (intro conjI exI [of _ "es @ es'"]) simp_all
qed

lemma tool_phase_quiet: "tool_phase s [] [] [] t \<Longrightarrow> tool_phase t a b ms u \<Longrightarrow> tool_phase s a b ms u"
  by (drule (1) tool_phase_trans) simp

lemma tool_phase_emit:
  "tool_phase s [i] [] [] (s\<lparr>world := w, trace := trace s @ [Tool_execution_start i n a]\<rparr>)"
  "tool_phase s [] [] [] (s\<lparr>world := w, trace := trace s @ [Tool_execution_update i n a r]\<rparr>)"
  "tool_phase s [] [i] [] (s\<lparr>world := w, trace := trace s @ [Tool_execution_end i n r' e]\<rparr>)"
  by (simp_all add: tool_phase_def)

lemma wp_prepareToolCall:
  "wp (prepareToolCall c am tc) s (onOk (\<lambda>p t. tool_phase s [] [] [] t \<and>
     (case p of Prepared q \<Rightarrow> pr_toolCall q = tc | Immediate _ _ \<Rightarrow> True)))"
proof -
  have m: "wp (maybePromiseWithAbort c op) s R" if "\<And>r w. R r (s\<lparr>world := w\<rparr>)" for op R
    by (rule wp_maybe) (rule that)
  show ?thesis
    unfolding prepareToolCall_def lift_result_def
    by (auto simp: wp_simps intro!: m split: option.splits sum.splits preparation.splits if_splits)
qed

fun entry_call :: "'w entry \<Rightarrow> tool_call" where
  "entry_call (E_running p _) = pr_toolCall p"
| "entry_call (E_executed p _ _) = pr_toolCall p"
| "entry_call (E_finalized f) = fz_toolCall f"
| "entry_call (E_done f) = fz_toolCall f"

fun in_execution :: "'w entry \<Rightarrow> bool" where
  "in_execution (E_running _ _) = True"
| "in_execution (E_executed _ _ _) = True"
| "in_execution _ = False"

lemma wp_start_entry:
  "wp (start_entry c p) s (onOk (\<lambda>e t. t = s \<and> entry_call e = pr_toolCall p \<and> in_execution e))"
  by (auto simp: start_entry_def wp_simps)

lemma wp_exec_step:
  assumes quiet: "listeners_quiet c"
  shows "wp (exec_step c p ue) s (onOk (\<lambda>e t. tool_phase s [] [] [] t \<and>
     entry_call e = pr_toolCall p \<and> in_execution e))"
proof -
  obtain prog w where st: "tool_step (pr_tool p) (tc_id (pr_toolCall p)) (pr_args p) (world s) = (prog, w)"
    by fastforce
  show ?thesis
  proof (cases prog)
    case (Partial_result r)
    obtain w' where em: "emit_event c (Tool_execution_update (tc_id (pr_toolCall p)) (tc_name (pr_toolCall p))
        (tc_arguments (pr_toolCall p)) r) w = (None, w')"
      using quiet by (metis listeners_quiet_def prod.collapse)
    show ?thesis
      using Partial_result st em
      by (simp add: wp_def exec_step_def Let_def emit_def tool_phase_def)
  next
    case (Returned x)
    then show ?thesis
      using st by (simp add: wp_def exec_step_def Let_def split: settled.splits option.splits)
  qed
qed

lemma wp_finalize:
  "wp (finalizeExecutedToolCall c am p r isErr) s (onOk (\<lambda>f t. tool_phase s [] [] [] t \<and>
     fz_toolCall f = pr_toolCall p))"
proof -
  have m: "wp (maybePromiseWithAbort c op) s R" if "\<And>r w. R r (s\<lparr>world := w\<rparr>)" for op R
    by (rule wp_maybe) (rule that)
  show ?thesis
    unfolding finalizeExecutedToolCall_def
    by (auto simp: wp_simps intro!: m split: option.splits sum.splits)
qed

lemma wp_emitToolExecutionEnd:
  assumes "listeners_quiet c"
  shows "wp (emitToolExecutionEnd c f) s (onOk (\<lambda>_ t. tool_phase s [] [tc_id (fz_toolCall f)] [] t))"
  by (simp add: emitToolExecutionEnd_def wp_emit [OF assms] tool_phase_emit)

lemma wp_emit_tool_start:
  assumes "listeners_quiet c"
  shows "wp (emit_tool_start c tc) s (onOk (\<lambda>_ t. tool_phase s [tc_id tc] [] [] t))"
  by (simp add: emit_tool_start_def wp_emit [OF assms] tool_phase_emit)

text \<open>A tool-result message answers the call whose id and name it carries.\<close>

definition answers :: "tool_call \<Rightarrow> tool_result_message \<Rightarrow> bool" where
  "answers tc m \<longleftrightarrow> tr_toolCallId m = tc_id tc \<and> tr_toolName m = tc_name tc"

lemma wp_emit_result:
  assumes "listeners_quiet c"
  shows "wp (emit_result c f) s (onOk (\<lambda>m t. answers (fz_toolCall f) m
     \<and> tool_phase s [] [] [Tool_result_msg m] t))"
  by (simp add: emit_result_def emitToolResultMessage_def wp_simps wp_emit [OF assms] answers_def
      createToolResultMessage_def tool_phase_def)

lemma wp_exec_loop:
  fixes c :: "'w config"
  assumes quiet: "listeners_quiet c"
  shows "in_execution e \<Longrightarrow> wp (exec_loop c k e) s (onOk (\<lambda>x t. tool_phase s [] [] [] t \<and>
     (\<exists>p r isErr. x = E_executed p r isErr \<and> pr_toolCall p = entry_call e)))"
proof (induction k arbitrary: e s)
  case 0
  then show ?case by (simp add: wp_simps)
next
  case (Suc k)
  show ?case
  proof (cases e)
    case (E_running p ue)
    show ?thesis
      unfolding exec_loop.simps E_running entry.case entry_call.simps
    proof (rule wp_bindI [OF wp_exec_step [OF quiet]], elim conjE)
      fix e' :: "'w entry" and t
      assume e': "tool_phase s [] [] [] t" "entry_call e' = pr_toolCall p" "in_execution e'"
      show "wp (exec_loop c k e') t (onOk (\<lambda>x t. tool_phase s [] [] [] t \<and>
          (\<exists>q r isErr. x = E_executed q r isErr \<and> pr_toolCall q = pr_toolCall p)))"
        by (rule wp_onOk_mono [OF Suc.IH [OF e'(3)]]) (use e' in \<open>auto intro: tool_phase_quiet\<close>)
    qed
  qed (use Suc.prems in \<open>simp_all add: wp_simps\<close>)
qed

lemma wp_run_one:
  assumes quiet: "listeners_quiet c"
  shows "wp (run_one c k am tc) s (onOk (\<lambda>f t. tool_phase s [] [] [] t \<and> fz_toolCall f = tc))"
  unfolding run_one_def
proof (rule wp_bindI [OF wp_prepareToolCall], elim conjE)
  fix prep :: "'a preparation" and t
  assume A: "tool_phase s [] [] [] t" "case prep of Prepared q \<Rightarrow> pr_toolCall q = tc | Immediate _ _ \<Rightarrow> True"
  show "wp (case prep of Immediate r isErr \<Rightarrow> ret \<lparr>fz_toolCall = tc, fz_result = r, fz_isError = isErr\<rparr>
       | Prepared p \<Rightarrow> bindS (start_entry c p) (\<lambda>e0. bindS (exec_loop c k e0) (\<lambda>e.
           case e of E_executed q r isErr \<Rightarrow> finalizeExecutedToolCall c am q r isErr | _ \<Rightarrow> (\<lambda>s. None)))) t
       (onOk (\<lambda>f t. tool_phase s [] [] [] t \<and> fz_toolCall f = tc))"
  proof (cases prep)
    case (Immediate x isErr)
    with A show ?thesis by (simp add: wp_simps)
  next
    case (Prepared p)
    with A have p: "pr_toolCall p = tc" by auto
    show ?thesis
      unfolding Prepared preparation.case
      by (rule wp_bindI [OF wp_start_entry], elim conjE, rule wp_bindI [OF wp_exec_loop [OF quiet]], simp,
          elim conjE exE, simp, rule wp_onOk_mono [OF wp_finalize])
        (use A p in \<open>auto intro: tool_phase_quiet\<close>)
  qed
qed

lemma wp_sequential_loop:
  assumes quiet: "listeners_quiet c"
  shows "wp (sequential_loop c k am tcs) s (onOk (\<lambda>fs t. \<exists>a. tool_phase s a a (map (\<lambda>x. Tool_result_msg (snd x)) fs) t
     \<and> length fs \<le> length tcs \<and> list_all2 answers (take (length fs) tcs) (map snd fs)))"
proof (induction tcs arbitrary: s)
  case Nil
  show ?case by (simp add: wp_simps exI [of _ "[]"])
next
  case (Cons tc tcs)
  let ?Q = "\<lambda>fs t. \<exists>a. tool_phase s a a (map (\<lambda>x. Tool_result_msg (snd x)) fs) t
     \<and> length fs \<le> length (tc # tcs) \<and> list_all2 answers (take (length fs) (tc # tcs)) (map snd fs)"
  have one: "wp (seqS (emit_tool_start c tc)
       (bindS (run_one c k am tc) (\<lambda>f.
        seqS (emitToolExecutionEnd c f)
       (bindS (emit_result c f) (\<lambda>m.
        bindS (is_aborted c) (\<lambda>b2.
          if b2 then ret [(f, m)]
          else bindS (sequential_loop c k am tcs) (\<lambda>rest. ret ((f, m) # rest)))))))) s (onOk ?Q)"
  proof (rule wp_seqI [OF wp_emit_tool_start [OF quiet]], rule wp_bindI [OF wp_run_one [OF quiet]],
      rule wp_seqI [OF wp_emitToolExecutionEnd [OF quiet]], rule wp_bindI [OF wp_emit_result [OF quiet]], elim conjE)
    fix t1 t2 t3 t4 :: "'a lstate" and f :: finalized and m
    assume p1: "tool_phase s [tc_id tc] [] [] t1" and p2: "tool_phase t1 [] [] [] t2" and fc: "fz_toolCall f = tc"
      and p3: "tool_phase t2 [] [tc_id (fz_toolCall f)] [] t3" and ans: "answers (fz_toolCall f) m"
      and p4: "tool_phase t3 [] [] [Tool_result_msg m] t4"
    have ph: "tool_phase s [tc_id tc] [tc_id tc] [Tool_result_msg m] t4"
      using tool_phase_trans [OF tool_phase_trans [OF tool_phase_trans [OF p1 p2] p3] p4] fc by simp
    have ans': "answers tc m" using ans fc by simp
    have rest: "wp (bindS (sequential_loop c k am tcs) (\<lambda>rest. ret ((f, m) # rest))) t4 (onOk ?Q)"
    proof (rule wp_bindI [OF Cons.IH], elim exE conjE)
      fix fs :: "(finalized \<times> tool_result_message) list" and u :: "'a lstate" and a
      assume u: "tool_phase t4 a a (map (\<lambda>x. Tool_result_msg (snd x)) fs) u" "length fs \<le> length tcs"
        "list_all2 answers (take (length fs) tcs) (map snd fs)"
      show "wp (ret ((f, m) # fs)) u (onOk ?Q)"
        by (rule wp_retI, rule exI [of _ "tc_id tc # a"])
          (use tool_phase_trans [OF ph u(1)] u ans' in simp)
    qed
    show "wp (bindS (is_aborted c) (\<lambda>b2. if b2 then ret [(f, m)]
          else bindS (sequential_loop c k am tcs) (\<lambda>rest. ret ((f, m) # rest)))) t4 (onOk ?Q)"
    proof (cases "signal_aborted c (world t4)")
      case True
      then show ?thesis using ph ans' by (auto simp: wp_simps)
    next
      case False
      with rest show ?thesis by (simp add: wp_bind_onOk wp_is_aborted)
    qed
  qed
  show ?case
  proof (cases "signal_aborted c (world s)")
    case True
    then show ?thesis by (simp add: wp_simps exI [of _ "[]"])
  next
    case False
    with one show ?thesis by (simp add: wp_bind_onOk wp_is_aborted)
  qed
qed

definition call_of :: "finalized + 'w prepared \<Rightarrow> tool_call" where
  "call_of x = (case x of Inl f \<Rightarrow> fz_toolCall f | Inr p \<Rightarrow> pr_toolCall p)"

text \<open>The ids of the executions that have not ended yet, as a multiset.\<close>

definition pending_id :: "'w entry \<Rightarrow> string multiset" where
  "pending_id e = (if is_done e then {#} else {#tc_id (entry_call e)#})"

definition pending_ids :: "'w entry list \<Rightarrow> string multiset" where
  "pending_ids es = sum_list (map pending_id es)"

definition ended_ids :: "(finalized + 'w prepared) list \<Rightarrow> string multiset" where
  "ended_ids xs = sum_list (map (\<lambda>x. case x of Inl f \<Rightarrow> {#tc_id (fz_toolCall f)#} | Inr _ \<Rightarrow> {#}) xs)"

lemma pending_ids_update:
  "i < length es \<Longrightarrow> pending_ids (es[i := e]) + pending_id (es ! i) = pending_ids es + pending_id e"
proof (induction es arbitrary: i)
  case (Cons x es)
  then show ?case by (cases i) (auto simp: pending_ids_def ac_simps)
qed simp

lemma pending_ids_done: "list_all is_done es \<Longrightarrow> pending_ids es = {#}"
  by (induction es) (auto simp: pending_ids_def pending_id_def)

lemma choose_entry_lt:
  assumes "\<not> list_all is_done es"
  shows "choose_entry i es < length es"
proof -
  let ?p = "filter (\<lambda>j. \<not> is_done (es ! j)) [0..<length es]"
  from assms obtain j where "j < length es" "\<not> is_done (es ! j)"
    by (auto simp: list_all_iff in_set_conv_nth)
  then have "j \<in> set ?p" by simp
  then have "?p \<noteq> []" by (metis empty_iff empty_set)
  then have "hd ?p \<in> set ?p" by (rule hd_in_set)
  then show ?thesis unfolding choose_entry_def Let_def by auto
qed

lemma wp_prepare_all:
  assumes quiet: "listeners_quiet c"
  shows "wp (prepare_all c am tcs) s (onOk (\<lambda>xs t. map call_of xs = tcs
     \<and> (\<exists>b. tool_phase s (map tc_id tcs) b [] t \<and> mset b = ended_ids xs)))"
proof (induction tcs arbitrary: s)
  case Nil
  show ?case by (simp add: wp_simps ended_ids_def exI [of _ "[]"])
next
  case (Cons tc tcs)
  let ?Q = "\<lambda>xs t. map call_of xs = tc # tcs
     \<and> (\<exists>b. tool_phase s (map tc_id (tc # tcs)) b [] t \<and> mset b = ended_ids xs)"
  have fin: "wp (bindS (prepare_all c am tcs) (\<lambda>xs. ret (x # xs))) t (onOk ?Q)"
    if x: "call_of x = tc" and ph: "tool_phase s [tc_id tc] b [] t"
      and b: "mset b = ended_ids [x]" for x b t
  proof (rule wp_bindI [OF Cons.IH], elim conjE exE)
    fix xs :: "(finalized + 'a prepared) list" and u :: "'a lstate" and b'
    assume u: "map call_of xs = tcs" "tool_phase t (map tc_id tcs) b' [] u" "mset b' = ended_ids xs"
    show "wp (ret (x # xs)) u (onOk ?Q)"
      by (rule wp_retI) (use tool_phase_trans [OF ph u(2)] x u b in \<open>auto simp: ended_ids_def intro!: exI [of _ "b @ b'"]\<close>)
  qed
  show ?case
    unfolding prepare_all.simps
  proof (rule wp_seqI [OF wp_emit_tool_start [OF quiet]], rule wp_bindI [OF wp_prepareToolCall], elim conjE)
    fix t1 t2 :: "'a lstate" and prep :: "'a preparation"
    assume p: "tool_phase s [tc_id tc] [] [] t1" "tool_phase t1 [] [] [] t2"
      "case prep of Prepared q \<Rightarrow> pr_toolCall q = tc | Immediate _ _ \<Rightarrow> True"
    have p2: "tool_phase s [tc_id tc] [] [] t2" using tool_phase_trans [OF p(1,2)] by simp
    show "wp (bindS (case prep of
               Immediate r isErr \<Rightarrow>
                 (let f = \<lparr>fz_toolCall = tc, fz_result = r, fz_isError = isErr\<rparr>
                  in seqS (emitToolExecutionEnd c f) (ret (Inl f)))
             | Prepared p \<Rightarrow> ret (Inr p)) (\<lambda>x. bindS (prepare_all c am tcs) (\<lambda>xs. ret (x # xs)))) t2 (onOk ?Q)"
    proof (cases prep)
      case (Immediate r isErr)
      define f where "f = \<lparr>fz_toolCall = tc, fz_result = r, fz_isError = isErr\<rparr>"
      have ftc: "fz_toolCall f = tc" by (simp add: f_def)
      have "wp (seqS (emitToolExecutionEnd c f) (ret (Inl f))) t2
        (onOk (\<lambda>x t. x = Inl f \<and> tool_phase s [tc_id tc] [tc_id tc] [] t))"
        by (rule wp_seqI [OF wp_emitToolExecutionEnd [OF quiet]], rule wp_retI)
          (use tool_phase_trans [OF p2] ftc in fastforce)
      then show ?thesis
        unfolding Immediate preparation.case Let_def f_def [symmetric]
        by (rule wp_bindI) (elim conjE, hypsubst, rule fin, simp_all add: call_of_def ftc ended_ids_def)
    next
      case (Prepared q)
      with p(3) have cq: "call_of (Inr q) = tc" by (simp add: call_of_def)
      have "mset [] = ended_ids [Inr q]" by (simp add: ended_ids_def)
      from fin [OF cq p2 this] show ?thesis
        unfolding Prepared preparation.case by (simp add: wp_bind_onOk [of "ret _"] wp_ret)
    qed
  qed
qed

lemma wp_start_all:
  "wp (start_all c xs) s (onOk (\<lambda>es t. tool_phase s [] [] [] t \<and> map entry_call es = map call_of xs
     \<and> ended_ids xs + pending_ids es = mset (map (\<lambda>x. tc_id (call_of x)) xs)))"
proof (induction xs arbitrary: s)
  case Nil
  show ?case by (simp add: wp_simps ended_ids_def pending_ids_def)
next
  case (Cons x xs)
  have hd: "wp (case x of Inl f \<Rightarrow> ret (E_done f) | Inr p \<Rightarrow> start_entry c p) s
    (onOk (\<lambda>e t. t = s \<and> entry_call e = call_of x \<and> ended_ids [x] + pending_id e = {#tc_id (call_of x)#}))"
  proof (cases x)
    case (Inl f)
    then show ?thesis by (simp add: wp_simps call_of_def ended_ids_def pending_id_def)
  next
    case (Inr p)
    have nd: "in_execution e \<Longrightarrow> \<not> is_done e" for e :: "'a entry" by (cases e) auto
    show ?thesis
      unfolding Inr sum.case
      by (rule wp_onOk_mono [OF wp_start_entry]) (auto simp: call_of_def ended_ids_def pending_id_def dest: nd)
  qed
  show ?case
    unfolding start_all.simps
  proof (rule wp_bindI [OF hd], rule wp_bindI [OF Cons.IH], rule wp_retI, elim conjE)
    fix e :: "'a entry" and es :: "'a entry list" and t u :: "'a lstate"
    assume h: "t = s" "entry_call e = call_of x" "ended_ids [x] + pending_id e = {#tc_id (call_of x)#}"
      and r: "tool_phase t [] [] [] u" "map entry_call es = map call_of xs"
        "ended_ids xs + pending_ids es = mset (map (\<lambda>x. tc_id (call_of x)) xs)"
    have "ended_ids (x # xs) + pending_ids (e # es) = (ended_ids [x] + pending_id e) + (ended_ids xs + pending_ids es)"
      by (simp add: ended_ids_def pending_ids_def ac_simps)
    also have "\<dots> = mset (map (\<lambda>x. tc_id (call_of x)) (x # xs))" unfolding h(3) r(3) by simp
    finally show "tool_phase s [] [] [] u \<and> map entry_call (e # es) = map call_of (x # xs)
      \<and> ended_ids (x # xs) + pending_ids (e # es) = mset (map (\<lambda>x. tc_id (call_of x)) (x # xs))"
      using h r by simp
  qed
qed

lemma wp_entry_step:
  assumes quiet: "listeners_quiet c"
  shows "wp (entry_step c am e) s (onOk (\<lambda>e' t. entry_call e' = entry_call e
     \<and> (\<exists>b. tool_phase s [] b [] t \<and> mset b + pending_id e' = pending_id e)))"
proof (cases e)
  case (E_running p ue)
  have nd: "in_execution e \<Longrightarrow> \<not> is_done e" for e :: "'a entry" by (cases e) auto
  show ?thesis
    unfolding entry_step_def E_running entry.case
    by (rule wp_onOk_mono [OF wp_exec_step [OF quiet]])
      (auto simp: pending_id_def dest: nd intro!: exI [of _ "[]"])
next
  case (E_executed p r isErr)
  show ?thesis
    unfolding entry_step_def E_executed entry.case
    by (rule wp_bindI [OF wp_finalize], rule wp_retI) (auto simp: pending_id_def intro!: exI [of _ "[]"])
next
  case (E_finalized f)
  show ?thesis
    unfolding entry_step_def E_finalized entry.case
    by (rule wp_seqI [OF wp_emitToolExecutionEnd [OF quiet]], rule wp_retI)
      (auto simp: pending_id_def intro!: exI [of _ "[tc_id (fz_toolCall f)]"])
next
  case (E_done f)
  then show ?thesis by (simp add: entry_step_def wp_simps exI [of _ "[]"])
qed

lemma wp_parallel_loop:
  assumes quiet: "listeners_quiet c"
  shows "wp (parallel_loop c k am es) s (onOk (\<lambda>fs t. map fz_toolCall fs = map entry_call es
     \<and> (\<exists>b. tool_phase s [] b [] t \<and> mset b = pending_ids es)))"
proof (induction k arbitrary: es s)
  case 0
  then show ?case by (simp add: wp_simps)
next
  case (Suc k)
  show ?case
  proof (cases "list_all is_done es")
    case True
    then have "map fz_toolCall (concat (map done_of es)) = map entry_call es"
    proof (induction es)
      case (Cons e es)
      then show ?case by (cases e) auto
    qed simp
    with True show ?thesis by (simp add: wp_simps pending_ids_done exI [of _ "[]"])
  next
    case False
    define i where "i = choose_entry (pick c (world s)) es"
    have il: "i < length es" unfolding i_def by (rule choose_entry_lt [OF False])
    have step: "wp (bindS (entry_step c am (es ! i)) (\<lambda>e. parallel_loop c k am (es[i := e]))) s
      (onOk (\<lambda>fs t. map fz_toolCall fs = map entry_call es \<and> (\<exists>b. tool_phase s [] b [] t \<and> mset b = pending_ids es)))"
    proof (rule wp_bindI [OF wp_entry_step [OF quiet]], elim conjE exE)
      fix e' :: "'a entry" and t :: "'a lstate" and b
      assume e': "entry_call e' = entry_call (es ! i)" "tool_phase s [] b [] t" "mset b + pending_id e' = pending_id (es ! i)"
      have calls: "map entry_call (es[i := e']) = map entry_call es"
        unfolding map_update e'(1) by (metis list_update_id map_update)
      have ids: "mset b + pending_ids (es[i := e']) = pending_ids es"
      proof -
        have "(mset b + pending_ids (es[i := e'])) + pending_id e' = pending_ids es + pending_id e'"
          using pending_ids_update [OF il, of e'] unfolding e'(3) [symmetric] by (simp add: ac_simps)
        then show ?thesis by (simp only: add_right_cancel)
      qed
      show "wp (parallel_loop c k am (es[i := e'])) t
        (onOk (\<lambda>fs t. map fz_toolCall fs = map entry_call es \<and> (\<exists>b. tool_phase s [] b [] t \<and> mset b = pending_ids es)))"
        by (rule wp_onOk_mono [OF Suc.IH]) (use calls ids tool_phase_trans [OF e'(2)] in fastforce)
    qed
    then show ?thesis using False by (simp add: wp_bind_onOk wp_get i_def)
  qed
qed

lemma wp_emit_results:
  assumes quiet: "listeners_quiet c"
  shows "wp (emit_results c fs) s (onOk (\<lambda>ms t. list_all2 answers (map fz_toolCall fs) ms
     \<and> tool_phase s [] [] (map Tool_result_msg ms) t))"
proof (induction fs arbitrary: s)
  case Nil
  show ?case by (simp add: wp_simps)
next
  case (Cons f fs)
  show ?case
    unfolding emit_results.simps
    by (rule wp_bindI [OF wp_emit_result [OF quiet]], rule wp_bindI [OF Cons.IH], rule wp_retI)
      (auto dest: tool_phase_trans)
qed

lemma wp_executeToolCallsParallel:
  assumes quiet: "listeners_quiet c"
  shows "wp (executeToolCallsParallel c k am tcs) s (onOk (\<lambda>bt t.
     (\<exists>b. tool_phase s (map tc_id tcs) b (map Tool_result_msg (bt_messages bt)) t \<and> mset (map tc_id tcs) = mset b)
     \<and> list_all2 answers tcs (bt_messages bt)))"
  unfolding executeToolCallsParallel_def
proof (rule wp_bindI [OF wp_prepare_all [OF quiet]], rule wp_bindI [OF wp_start_all],
    rule wp_bindI [OF wp_parallel_loop [OF quiet]], rule wp_bindI [OF wp_emit_results [OF quiet]],
    rule wp_retI, elim conjE exE)
  fix xs :: "(finalized + 'a prepared) list" and es :: "'a entry list" and fs :: "finalized list" and ms b b'
    and t1 t2 t3 t4 :: "'a lstate"
  assume calls: "map call_of xs = tcs" "map entry_call es = map call_of xs" "map fz_toolCall fs = map entry_call es"
    and ids: "mset b = ended_ids xs" "ended_ids xs + pending_ids es = mset (map (\<lambda>x. tc_id (call_of x)) xs)"
      "mset b' = pending_ids es"
    and ans: "list_all2 answers (map fz_toolCall fs) ms"
    and ph: "tool_phase s (map tc_id tcs) b [] t1" "tool_phase t1 [] [] [] t2" "tool_phase t2 [] b' [] t3"
      "tool_phase t3 [] [] (map Tool_result_msg ms) t4"
  have p: "tool_phase s (map tc_id tcs) (b @ b') (map Tool_result_msg ms) t4"
    using tool_phase_trans [OF tool_phase_trans [OF tool_phase_trans [OF ph(1,2)] ph(3)] ph(4)] by simp
  have "map tc_id tcs = map (\<lambda>x. tc_id (call_of x)) xs" unfolding calls(1) [symmetric] by simp
  then have "mset (map tc_id tcs) = mset (b @ b')" using ids by simp
  moreover have "list_all2 answers tcs ms" using ans calls by simp
  ultimately show "(\<exists>b. tool_phase s (map tc_id tcs) b (map Tool_result_msg
        (bt_messages \<lparr>bt_messages = ms, bt_terminate = shouldTerminateToolBatch fs\<rparr>)) t4
      \<and> mset (map tc_id tcs) = mset b)
    \<and> list_all2 answers tcs (bt_messages \<lparr>bt_messages = ms, bt_terminate = shouldTerminateToolBatch fs\<rparr>)"
    using p by (intro conjI exI [of _ "b @ b'"]) simp_all
qed

lemma wp_executeToolCalls:
  assumes quiet: "listeners_quiet c"
  shows "wp (executeToolCalls c k am) s (onOk (\<lambda>bt t. \<exists>a b. tool_phase s a b (map Tool_result_msg (bt_messages bt)) t
     \<and> mset a = mset b \<and> length (bt_messages bt) \<le> length (tool_calls_of (am_content am))
     \<and> list_all2 answers (take (length (bt_messages bt)) (tool_calls_of (am_content am))) (bt_messages bt)))"
proof -
  define tcs where "tcs = tool_calls_of (am_content am)"
  let ?Q = "\<lambda>bt t. \<exists>a b. tool_phase s a b (map Tool_result_msg (bt_messages bt)) t
     \<and> mset a = mset b \<and> length (bt_messages bt) \<le> length tcs
     \<and> list_all2 answers (take (length (bt_messages bt)) tcs) (bt_messages bt)"
  have sq: "wp (executeToolCallsSequential c k am tcs) s (onOk ?Q)"
    unfolding executeToolCallsSequential_def
    by (rule wp_bindI [OF wp_sequential_loop [OF quiet]], rule wp_retI) (auto simp: comp_def)
  have par: "wp (executeToolCallsParallel c k am tcs) s (onOk ?Q)"
  proof (rule wp_onOk_mono [OF wp_executeToolCallsParallel [OF quiet]], elim conjE exE)
    fix bt and t :: "'a lstate" and b
    assume "tool_phase s (map tc_id tcs) b (map Tool_result_msg (bt_messages bt)) t"
      "mset (map tc_id tcs) = mset b" and ans: "list_all2 answers tcs (bt_messages bt)"
    moreover from ans have "length (bt_messages bt) = length tcs" by (simp add: list_all2_lengthD)
    ultimately show "?Q bt t" by (intro exI [of _ "map tc_id tcs"] exI [of _ b]) simp
  qed
  show ?thesis
    unfolding executeToolCalls_def Let_def tcs_def [symmetric] using sq par by simp
qed

text \<open>Nothing in a batch throws: every error becomes a result.\<close>

lemma no_throw_calls:
  shows "no_throw (prepareToolCall c am tc)" and "no_throw (start_entry c p)"
    and "no_throw (finalizeExecutedToolCall c am p r isErr)"
  by (auto simp: prepareToolCall_def start_entry_def finalizeExecutedToolCall_def intro!: no_throws split: option.splits)

lemma no_throw_exec_step: "listeners_quiet c \<Longrightarrow> no_throw (exec_step c p ue)"
  unfolding no_throw_def exec_step_def Let_def
  by (auto split: prod.splits option.splits sum.splits if_splits tool_progress.splits settled.splits)

lemma no_throw_events:
  assumes "listeners_quiet c"
  shows "no_throw (emit_tool_start c tc)" and "no_throw (emitToolExecutionEnd c f)" and "no_throw (emit_result c f)"
  by (simp_all add: emit_tool_start_def emitToolExecutionEnd_def emit_result_def emitToolResultMessage_def no_throws assms)

lemma no_throw_exec_loop: "listeners_quiet c \<Longrightarrow> no_throw (exec_loop c k e)"
  by (induction k arbitrary: e) (auto intro!: no_throws no_throw_exec_step split: entry.splits)

lemma no_throw_run_one: "listeners_quiet c \<Longrightarrow> no_throw (run_one c k am tc)"
  unfolding run_one_def
  by (auto intro!: no_throws no_throw_calls no_throw_exec_loop split: preparation.splits entry.splits)

lemma no_throw_sequential: "listeners_quiet c \<Longrightarrow> no_throw (executeToolCallsSequential c k am tcs)"
proof -
  assume q: "listeners_quiet c"
  have "no_throw (sequential_loop c k am tcs)"
    by (induction tcs) (auto intro!: no_throws no_throw_events no_throw_run_one q)
  then show ?thesis unfolding executeToolCallsSequential_def by (intro no_throws)
qed

lemma no_throw_parallel:
  assumes q: "listeners_quiet c"
  shows "no_throw (executeToolCallsParallel c k am tcs)"
proof -
  have 1: "no_throw (prepare_all c am tcs)"
    by (induction tcs)
      (auto simp: Let_def intro!: no_throws no_throw_events no_throw_calls q split: preparation.splits)
  have 2: "no_throw (start_all c xs)" for xs :: "(finalized + 'a prepared) list"
    by (induction xs) (auto intro!: no_throws no_throw_calls split: sum.splits)
  have step: "no_throw (entry_step c am e)" for e
    unfolding entry_step_def by (auto intro!: no_throws no_throw_events no_throw_calls no_throw_exec_step q split: entry.splits)
  have 3: "no_throw (parallel_loop c j am es)" for j es
    by (induction j arbitrary: es) (auto intro!: no_throws step)
  have 4: "no_throw (emit_results c fs)" for fs
    by (induction fs) (auto intro!: no_throws no_throw_events q)
  show ?thesis unfolding executeToolCallsParallel_def by (intro no_throws 1 2 3 4)
qed

lemma no_throw_executeToolCalls: "listeners_quiet c \<Longrightarrow> no_throw (executeToolCalls c k am)"
  by (simp add: executeToolCalls_def Let_def no_throw_sequential no_throw_parallel)

section \<open>Turns\<close>

text \<open>
  The effect of a completed stretch of the run: it adds \<open>es\<close> to the trace, the messages it ends to
  the new messages, and, when every message it starts it also ends, exactly those to the
  context; and every tool execution it starts has ended.
\<close>

definition framed :: "'w lstate \<Rightarrow> agent_event list \<Rightarrow> 'w lstate \<Rightarrow> bool" where
  "framed s fs t \<longleftrightarrow> (\<exists>es. trace t = trace s @ es \<and> frame_events es = fs
     \<and> newMessages t = newMessages s @ message_ends es
     \<and> length (message_ends es) \<le> length (message_starts es)
     \<and> (length (message_starts es) = length (message_ends es) \<longrightarrow> ctx t = ctx s @ message_ends es)
     \<and> mset (tool_starts es) = mset (tool_ends es))"

lemma framed_world [simp]: "framed s [] (s\<lparr>world := w\<rparr>)"
  by (simp add: framed_def)

lemma framed_refl [simp]: "framed s [] s"
  by (simp add: framed_def)

lemma framed_trans:
  assumes "framed s fs t" and "framed t fs' u"
  shows "framed s (fs @ fs') u"
proof -
  from assms obtain es es' where "trace t = trace s @ es" "frame_events es = fs"
     "newMessages t = newMessages s @ message_ends es"
     "length (message_ends es) \<le> length (message_starts es)"
     "length (message_starts es) = length (message_ends es) \<longrightarrow> ctx t = ctx s @ message_ends es"
     "mset (tool_starts es) = mset (tool_ends es)"
     "trace u = trace t @ es'" "frame_events es' = fs'"
     "newMessages u = newMessages t @ message_ends es'"
     "length (message_ends es') \<le> length (message_starts es')"
     "length (message_starts es') = length (message_ends es') \<longrightarrow> ctx u = ctx t @ message_ends es'"
     "mset (tool_starts es') = mset (tool_ends es')"
    unfolding framed_def by blast
  then show ?thesis
    unfolding framed_def by (intro exI [of _ "es @ es'"]) auto
qed

lemma framed_quiet: "framed s [] t \<Longrightarrow> framed t fs u \<Longrightarrow> framed s fs u"
  using framed_trans [of s "[]" t fs u] by simp

lemma framed_emit:
  "framed s [Turn_start] (s\<lparr>world := w, trace := trace s @ [Turn_start]\<rparr>)"
  "framed s [Agent_start] (s\<lparr>world := w, trace := trace s @ [Agent_start]\<rparr>)"
  "framed s [Turn_end m rs] (s\<lparr>world := w, trace := trace s @ [Turn_end m rs]\<rparr>)"
  "framed s [Agent_end ms] (s\<lparr>world := w, trace := trace s @ [Agent_end ms]\<rparr>)"
  by (simp_all add: framed_def)

lemma framed_streamed:
  assumes "streamed s am t"
  shows "framed s [] (t\<lparr>newMessages := newMessages t @ [Assistant_msg am]\<rparr>)"
proof -
  from assms obtain es where e: "newMessages t = newMessages s" "trace t = trace s @ es" "frame_events es = []"
    "tool_starts es = []" "tool_ends es = []" "message_ends es = [Assistant_msg am]"
    "message_starts es \<noteq> []" "length (message_starts es) = 1 \<longrightarrow> ctx t = ctx s @ [Assistant_msg am]"
    unfolding streamed_def by blast
  then show ?thesis
    unfolding framed_def by (intro exI [of _ es]) (auto simp: Suc_le_eq)
qed

lemma framed_streaming: "streaming s t \<Longrightarrow> framed s [] t"
  by (fastforce simp: streaming_def framed_def split: if_splits)

lemma framed_tools:
  assumes "tool_phase s a b (map Tool_result_msg rs) t" and "mset a = mset b"
  shows "framed s [] (t\<lparr>ctx := ctx t @ map Tool_result_msg rs, newMessages := newMessages t @ map Tool_result_msg rs\<rparr>)"
  using assms by (auto simp: framed_def tool_phase_def)

lemma wp_push_results:
  "wp (push_results rs) s (onOk (\<lambda>_ t. t = s\<lparr>ctx := ctx s @ map Tool_result_msg rs,
     newMessages := newMessages s @ map Tool_result_msg rs\<rparr>))"
proof (induction rs arbitrary: s)
  case (Cons r rs)
  show ?case
    unfolding push_results.simps
    by (simp add: wp_seq_onOk wp_context, rule wp_onOk_mono [OF Cons.IH]) simp
qed (simp add: wp_simps)

lemma no_throw_push_results: "no_throw (push_results rs)"
  by (induction rs) (auto intro!: no_throws)

lemma no_throw_inject: "listeners_quiet c \<Longrightarrow> no_throw (inject c ms)"
  by (induction ms) (auto intro!: no_throws)

lemma no_throw_emit_end: "listeners_quiet c \<Longrightarrow> no_throw (emit_end c)"
  unfolding emit_end_def by (intro no_throws)

lemma wp_inject:
  assumes quiet: "listeners_quiet c"
  shows "wp (inject c ms) s (onOk (\<lambda>_ t. framed s [] t))"
proof (induction ms arbitrary: s)
  case (Cons m ms)
  have one: "framed s [] (s\<lparr>world := w, trace := trace s @ [Message_start m, Message_end m],
      ctx := ctx s @ [m], newMessages := newMessages s @ [m]\<rparr>)" for w
    by (simp add: framed_def)
  show ?case
    by (simp add: wp_seq_onOk wp_context wp_emit [OF quiet], rule wp_onOk_mono [OF Cons.IH])
      (rule framed_quiet [OF one], assumption)
qed (simp add: wp_simps)

text \<open>Awaiting a hook or a queue changes the world only, whether it returns or throws.\<close>

abbreviation world_only :: "'w lstate \<Rightarrow> js_error + 'a \<Rightarrow> 'w lstate \<Rightarrow> bool" where
  "world_only s \<equiv> onBoth (\<lambda>t. \<exists>w. t = s\<lparr>world := w\<rparr>) (\<lambda>_ t. \<exists>w. t = s\<lparr>world := w\<rparr>)"

lemma world_only_world [simp]: "world_only s r (s\<lparr>world := w\<rparr>)"
  by (auto simp: onBoth_def split: sum.splits)

lemma world_only_refl [simp]: "world_only s r s"
  using world_only_world [of s r "world s"] by simp

lemma wp_await_world:
  "wp (settlePostTurn c (maybePromiseWithAbort c op)) s (world_only s)"
  "wp (settlePostTurn c (pollMessagesUnlessAborted c p)) s (world_only s)"
  by (rule wp_settle, (rule wp_maybe wp_poll; auto), simp)+

lemma wp_stop_before_turn: "wp (stop_before_turn c b) s (world_only s)"
  by (auto simp: stop_before_turn_def wp_simps split: option.splits prod.splits)

lemma wp_emit_end:
  assumes quiet: "listeners_quiet c"
  shows "wp (emit_end c) s (onOk (\<lambda>_ t. framed s [Agent_end (newMessages s)] t \<and> newMessages t = newMessages s))"
  by (simp add: emit_end_def wp_simps wp_emit [OF quiet] framed_emit)

text \<open>The run ends here: \<open>agent_end\<close> with all the new messages is the last event.\<close>

definition ends_run :: "'w lstate \<Rightarrow> agent_event list \<Rightarrow> 'w lstate \<Rightarrow> bool" where
  "ends_run s fs t \<longleftrightarrow> framed s (fs @ [Agent_end (newMessages t)]) t \<and> last (trace t) = Agent_end (newMessages t)"

lemma wp_end_run:
  assumes quiet: "listeners_quiet c" and f: "framed s0 fs s"
  shows "wp (seqS (emit_end c) (ret x)) s (onBoth E (\<lambda>y t. y = x \<and> ends_run s0 fs t))"
  using framed_trans [OF f framed_emit(4)]
  by (simp add: emit_end_def wp_simps wp_emit [OF quiet] ends_run_def)

text \<open>The results of a turn answer a prefix of its calls; a failed turn has none.\<close>

definition failed_turn :: "assistant_message \<Rightarrow> bool" where
  "failed_turn am = (am_stopReason am = Error_stop \<or> am_stopReason am = Aborted)"

definition good_turn :: "assistant_message \<times> tool_result_message list \<Rightarrow> bool" where
  "good_turn x = (case x of (am, rs) \<Rightarrow>
     length rs \<le> length (tool_calls_of (am_content am))
     \<and> list_all2 answers (take (length rs) (tool_calls_of (am_content am))) rs
     \<and> (failed_turn am \<longrightarrow> rs = []))"

text \<open>The frame of a sequence of turns; the first one may have its \<open>turn_start\<close> already.\<close>

fun turn_frames :: "bool \<Rightarrow> (assistant_message \<times> tool_result_message list) list \<Rightarrow> agent_event list" where
  "turn_frames first [] = []"
| "turn_frames first ((am, rs) # ts) =
     (if first then [] else [Turn_start]) @ Turn_end (Assistant_msg am) rs # turn_frames False ts"

lemma wp_after_turn:
  assumes quiet: "listeners_quiet c"
  shows "wp (after_turn c am rs again) s (onBoth (framed s [Turn_end (Assistant_msg am) rs]) (\<lambda>r t. case r of
      None \<Rightarrow> ends_run s [Turn_end (Assistant_msg am) rs] t
    | Some v \<Rightarrow> framed s [Turn_end (Assistant_msg am) rs] t \<and> \<not> lv_first v))"
proof -
  let ?te = "[Turn_end (Assistant_msg am) rs]"
  let ?Q = "\<lambda>r t. case r of None \<Rightarrow> ends_run s ?te t | Some (v :: loop_vars) \<Rightarrow> framed s ?te t \<and> \<not> lv_first v"
  have fin: "wp (seqS (emit_end c) (ret None)) t (onBoth (framed s ?te) ?Q)" if "framed s ?te t" for t
    by (rule wp_onBoth_mono [OF wp_end_run [OF quiet that]]) simp_all
  have w: "framed s ?te (t\<lparr>world := w\<rparr>)" if "framed s ?te t" for t w
    using framed_trans [OF that framed_world] by simp
  have none: "wp (bindS (is_aborted c) (\<lambda>b. if b then throw createAbortError else ret x)) t (\<lambda>r u. \<exists>w. u = t\<lparr>world := w\<rparr>)"
    for x and t :: "'a lstate"
    by (simp add: wp_simps exI [of _ "world t"])
  have settle: "wp (settlePostTurn c (case shouldStopAfterTurn c of
                 None \<Rightarrow> bindS (is_aborted c) (\<lambda>b. if b then throw createAbortError else ret False)
               | Some f \<Rightarrow> maybePromiseWithAbort c (f tx))) t (world_only t)" for tx t
  proof (cases "shouldStopAfterTurn c")
    case None
    show ?thesis
      unfolding None option.case by (rule wp_settle [OF none]) simp
  qed (simp add: wp_await_world(1))
  have stop: "wp (if b then ret x else stop_before_turn c False) t (world_only t)" for b x t
    using wp_stop_before_turn by (auto simp: wp_simps)
  have stop2: "wp (if b then stop_before_turn c False else ret x) t (world_only t)" for b x t
    using wp_stop_before_turn by (auto simp: wp_simps)
  have ok: "wp (bindS m f) t (onBoth (framed s ?te) ?Q)"
    if "wp m t (world_only t)" "framed s ?te t"
      "\<And>x u. framed s ?te u \<Longrightarrow> wp (f x) u (onBoth (framed s ?te) ?Q)" for m f t
    by (rule wp_bindB [OF wp_onBoth_mono [OF that(1)]]) (use that(2,3) w in auto)
  have iteI: "wp (if b then seqS (emit_end c) (ret None) else m) t (onBoth (framed s ?te) ?Q)"
    if "framed s ?te t" "wp m t (onBoth (framed s ?te) ?Q)" for b m t
    using fin [OF that(1)] that(2) by simp
  show ?thesis
    unfolding after_turn_def
    apply (simp only: wp_seq_onBoth wp_emit [OF quiet] onBoth_simps)
    apply (simp only: wp_bind_onBoth [of "is_aborted c"] wp_is_aborted onBoth_simps)
    apply (rule iteI)
     apply (rule framed_emit)
    apply (simp only: wp_bind_onBoth [of "getS _"] wp_get onBoth_simps)
    apply (rule ok [OF settle framed_emit(3)])
    apply (rule iteI, assumption)
    apply (rule ok [OF stop], assumption)
    apply (rule iteI, assumption)
    apply (rule ok [OF wp_await_world(2)], assumption)
    apply (rule iteI, assumption)
    apply (rule ok [OF stop2], assumption)
    apply (rule iteI, assumption)
    apply (simp add: wp_ret)
    done
qed

text \<open>What one pass of the inner loop does.\<close>

definition turn_post ::
    "bool \<Rightarrow> 'w lstate \<Rightarrow> loop_vars option \<Rightarrow> 'w lstate \<Rightarrow> bool" where
  "turn_post first s r t \<longleftrightarrow> (\<exists>am rs. good_turn (am, rs) \<and> (case r of
      None \<Rightarrow> ends_run s (turn_frames first [(am, rs)]) t
    | Some v \<Rightarrow> framed s (turn_frames first [(am, rs)]) t \<and> \<not> lv_first v \<and> \<not> failed_turn am))"

text \<open>
  Where a run that throws breaks off: after whole turns, none of which failed, and perhaps with a
  turn open.
\<close>

definition broken :: "bool \<Rightarrow> 'w lstate \<Rightarrow> 'w lstate \<Rightarrow> bool" where
  "broken first s t \<longleftrightarrow> (\<exists>ts op. framed s (turn_frames first ts @ op) t
     \<and> list_all (\<lambda>x. good_turn x \<and> \<not> failed_turn (fst x)) ts
     \<and> (op = [] \<or> op = [Turn_start] \<and> (first \<longrightarrow> ts \<noteq> [])))"

lemma brokenI:
  "framed s [] t \<Longrightarrow> broken first s t"
  "framed s [Turn_start] t \<Longrightarrow> broken False s t"
  "framed s (turn_frames first [(am, rs)]) t \<Longrightarrow> good_turn (am, rs) \<Longrightarrow> \<not> failed_turn am \<Longrightarrow> broken first s t"
proof -
  show "broken first s t" if "framed s [] t"
    unfolding broken_def using that by (intro exI [of _ "[]"]) simp
  show "broken False s t" if "framed s [Turn_start] t"
    unfolding broken_def using that by (intro exI [of _ "[]"] exI [of _ "[Turn_start]"]) simp
  show "broken first s t" if "framed s (turn_frames first [(am, rs)]) t" "good_turn (am, rs)" "\<not> failed_turn am"
    unfolding broken_def using that by (intro exI [of _ "[(am, rs)]"] exI [of _ "[]"]) simp
qed

lemma ends_run_trans: "framed s fs t \<Longrightarrow> ends_run t fs' u \<Longrightarrow> ends_run s (fs @ fs') u"
  by (auto simp: ends_run_def dest: framed_trans)

lemma wp_turn:
  assumes quiet: "listeners_quiet c"
  shows "wp (turn c k v) s (onBoth (broken (lv_first v) s) (turn_post (lv_first v) s))"
proof -
  let ?E = "broken (lv_first v) s"
  let ?st = "if lv_first v then [] else [Turn_start :: agent_event]"
  have start: "wp (seqS (throwIfAborted c) (seqS (if lv_first v then ret () else emit c Turn_start) m)) s (onBoth ?E Q)"
    if "\<And>t. framed s ?st t \<Longrightarrow> wp m t (onBoth ?E Q)" for m and Q :: "loop_vars option \<Rightarrow> 'a lstate \<Rightarrow> bool"
  proof -
    have "wp m s (onBoth ?E Q)" if "lv_first v" by (rule \<open>\<And>t. framed s ?st t \<Longrightarrow> wp m t (onBoth ?E Q)\<close>) (simp add: that)
    moreover have "wp m (s\<lparr>world := w, trace := trace s @ [Turn_start]\<rparr>) (onBoth ?E Q)" if "\<not> lv_first v" for w
      by (rule \<open>\<And>t. framed s ?st t \<Longrightarrow> wp m t (onBoth ?E Q)\<close>) (simp add: that framed_emit)
    ultimately show ?thesis by (simp add: wp_seq_onBoth wp_throwIfAborted brokenI(1) wp_ret wp_emit [OF quiet])
  qed
  have tf: "turn_frames (lv_first v) [(am, rs)] = ?st @ [Turn_end (Assistant_msg am) rs]" for am rs by simp
  have aft: "wp (after_turn c am rs again) t (onBoth ?E (turn_post (lv_first v) s))"
    if "framed s ?st t" "good_turn (am, rs)" "\<not> failed_turn am" for am rs again t
  proof (rule wp_onBoth_mono [OF wp_after_turn [OF quiet]])
    fix u
    assume "framed t [Turn_end (Assistant_msg am) rs] u"
    from framed_trans [OF that(1) this] show "?E u" by (intro brokenI(3)) (use that(2,3) in \<open>simp_all add: tf\<close>)
  next
    fix r :: "loop_vars option" and u
    assume "case r of None \<Rightarrow> ends_run t [Turn_end (Assistant_msg am) rs] u
      | Some v \<Rightarrow> framed t [Turn_end (Assistant_msg am) rs] u \<and> \<not> lv_first v"
    then show "turn_post (lv_first v) s r u"
      unfolding turn_post_def tf
      by (intro exI [of _ am] exI [of _ rs] conjI that(2), cases r)
        (use that(3) framed_trans [OF that(1), of "[Turn_end (Assistant_msg am) rs]" u]
           ends_run_trans [OF that(1), of "[Turn_end (Assistant_msg am) rs]" u] in simp_all)
  qed
  have stream_throws: "?E u" if "framed s ?st t1" "framed t1 [] t2" "streaming t2 u" for t1 t2 u
  proof -
    have "framed s ?st u" using framed_trans [OF that(1) framed_trans [OF that(2) framed_streaming [OF that(3)]]] by simp
    then show ?thesis by (cases "lv_first v") (auto intro: brokenI)
  qed
  have stream: "wp (streamAssistantResponse c k) t2 (onBoth ?E (streamed t2))" if "framed s ?st t1" "framed t1 [] t2" for t1 t2
    by (rule wp_onBoth_mono [OF wp_streamAssistantResponse [OF quiet]]) (use stream_throws [OF that] in simp_all)
  show ?thesis
    unfolding turn_def
  proof (rule start, rule wp_seqB [OF wp_no_throw [OF wp_inject [OF quiet] no_throw_inject [OF quiet]]],
      rule wp_bindB [OF stream], assumption, assumption, rule wp_seqB [where P = "\<lambda>_ t. framed s ?st t"])
    fix t1 t2 t3 :: "'a lstate" and am
    assume p: "framed s ?st t1" "framed t1 [] t2" "streamed t2 am t3"
    show "wp (push_new (Assistant_msg am)) t3 (onBoth ?E (\<lambda>_ t. framed s ?st t))"
      using framed_trans [OF framed_trans [OF p(1,2)] framed_streamed [OF p(3)]] by (simp add: wp_context)
  next
    fix am and t :: "'a lstate"
    assume f: "framed s ?st t"
    show "wp (if am_stopReason am = Error_stop \<or> am_stopReason am = Aborted
       then seqS (emit c (Turn_end (Assistant_msg am) [])) (seqS (emit_end c) (ret None))
       else if tool_calls_of (am_content am) = [] then after_turn c am [] False
       else bindS (executeToolCalls c k am) (\<lambda>bt.
              seqS (push_results (bt_messages bt))
                   (after_turn c am (bt_messages bt) (\<not> bt_terminate bt)))) t (onBoth ?E (turn_post (lv_first v) s))"
    proof (cases "failed_turn am")
      case True
      have g: "good_turn (am, [])" by (simp add: good_turn_def)
      have "wp (seqS (emit_end c) (ret None)) (t\<lparr>world := w, trace := trace t @ [Turn_end (Assistant_msg am) []]\<rparr>)
        (onBoth ?E (turn_post (lv_first v) s))" for w
        by (rule wp_onBoth_mono [OF wp_end_run [OF quiet framed_trans [OF f framed_emit(3)]]])
          (use g tf in \<open>auto simp: turn_post_def intro!: exI [of _ am] exI [of _ "[]"]\<close>)
      with True show ?thesis by (simp add: failed_turn_def wp_seq_onBoth [of "emit c _"] wp_emit [OF quiet])
    next
      case False
      have b: "wp (bindS (executeToolCalls c k am) (\<lambda>bt. seqS (push_results (bt_messages bt))
                   (after_turn c am (bt_messages bt) (\<not> bt_terminate bt)))) t (onBoth ?E (turn_post (lv_first v) s))"
      proof (rule wp_bindB [OF wp_no_throw [OF wp_executeToolCalls [OF quiet] no_throw_executeToolCalls [OF quiet]]], elim exE conjE)
        fix bt and u :: "'a lstate" and a b
        assume u: "tool_phase t a b (map Tool_result_msg (bt_messages bt)) u" "mset a = mset b"
          "length (bt_messages bt) \<le> length (tool_calls_of (am_content am))"
          "list_all2 answers (take (length (bt_messages bt)) (tool_calls_of (am_content am))) (bt_messages bt)"
        have g: "good_turn (am, bt_messages bt)" using u(3,4) False by (simp add: good_turn_def)
        show "wp (seqS (push_results (bt_messages bt)) (after_turn c am (bt_messages bt) (\<not> bt_terminate bt))) u
          (onBoth ?E (turn_post (lv_first v) s))"
          by (rule wp_seqB [OF wp_no_throw [OF wp_push_results no_throw_push_results]], hypsubst, rule aft [OF _ g False])
            (use framed_trans [OF f framed_tools [OF u(1,2)]] in simp)
      qed
      have "good_turn (am, [])" by (simp add: good_turn_def)
      from aft [OF f this False] b False show ?thesis by (simp add: failed_turn_def)
    qed
  qed
qed

lemma wp_boundary:
  assumes quiet: "listeners_quiet c"
  shows "wp (boundary c v) s (onBoth (framed s []) (\<lambda>r t. case r of None \<Rightarrow> ends_run s [] t | Some ms \<Rightarrow> framed s [] t \<and> ms \<noteq> []))"
proof -
  let ?Q = "\<lambda>r t. case r of None \<Rightarrow> ends_run s [] t | Some (ms :: agent_message list) \<Rightarrow> framed s [] t \<and> ms \<noteq> []"
  have fin: "wp (seqS (emit_end c) (ret None)) t (onBoth (framed s []) ?Q)" if "framed s [] t" for t
    by (rule wp_onBoth_mono [OF wp_end_run [OF quiet that]]) simp_all
  have w: "framed s [] (t\<lparr>world := w\<rparr>)" if "framed s [] t" for t w
    using framed_trans [OF that framed_world] by simp
  have none: "wp (bindS (is_aborted c) (\<lambda>b. if b then throw createAbortError else ret x)) t (\<lambda>r u. \<exists>w. u = t\<lparr>world := w\<rparr>)"
    for x and t :: "'a lstate"
    by (simp add: wp_simps exI [of _ "world t"])
  have wid: "\<exists>w. t = t\<lparr>world := w\<rparr>" for t :: "'a lstate" by (rule exI [of _ "world t"]) simp
  have sn: "wp (settlePostTurn c (bindS (is_aborted c) (\<lambda>b. if b then throw createAbortError else ret []))) t
    (world_only t)" for t
    by (rule wp_settle [OF none]) simp
  have cont: "wp (case lv_last v of
                None \<Rightarrow> ret (Some [])
              | Some (am, rs) \<Rightarrow> (case getContinuationMessages c of
                  None \<Rightarrow> settlePostTurn c (bindS (is_aborted c) (\<lambda>b. if b then throw createAbortError else ret []))
                | Some f \<Rightarrow> bindS (getS (turn_context_of am rs)) (\<lambda>tx.
                    settlePostTurn c (maybePromiseWithAbort c (f tx))))) t (world_only t)" for t
    using sn wp_await_world(1) wid
    by (auto simp: wp_ret wp_bind_onBoth [of "getS _"] wp_get split: option.splits)
  have ok: "wp (bindS m f) t (onBoth (framed s []) ?Q)"
    if "wp m t (world_only t)" "framed s [] t"
      "\<And>x u. framed s [] u \<Longrightarrow> wp (f x) u (onBoth (framed s []) ?Q)" for m f t
    by (rule wp_bindB [OF wp_onBoth_mono [OF that(1)]]) (use that(2,3) w in auto)
  have iteI: "wp (if b then seqS (emit_end c) (ret None) else m) t (onBoth (framed s []) ?Q)"
    if "framed s [] t" "\<not> b \<Longrightarrow> wp m t (onBoth (framed s []) ?Q)" for b m t
    using fin [OF that(1)] that(2) by simp
  have retI: "wp (if ms \<noteq> None \<and> the ms \<noteq> [] then ret ms else m) t (onBoth (framed s []) ?Q)"
    if "framed s [] t" "wp m t (onBoth (framed s []) ?Q)" for ms m t
    using that by (auto simp: wp_ret)
  have some: "wp (if the ms \<noteq> [] then ret ms else m) t (onBoth (framed s []) ?Q)"
    if "ms \<noteq> None" "framed s [] t" "wp m t (onBoth (framed s []) ?Q)" for ms m t
    using that by (auto simp: wp_ret)
  show ?thesis
    unfolding boundary_def
    apply (rule ok [OF wp_stop_before_turn framed_refl])
    apply (rule iteI, assumption)
    apply (rule ok [OF wp_await_world(2)], assumption)
    apply (rule iteI, assumption)
    apply (rule some, assumption, assumption)
    apply (rule ok [OF wp_stop_before_turn], assumption)
    apply (rule iteI, assumption)
    apply (rule ok [OF cont], assumption)
    apply (rule iteI, assumption)
    apply (rule some, assumption, assumption)
    apply (rule fin, assumption)
    done
qed

lemma turn_frames_Cons:
  "turn_frames first (x # xs) = turn_frames first [x] @ turn_frames False xs"
  by (cases x) simp

definition loop_post :: "bool \<Rightarrow> bool \<Rightarrow> 'w lstate \<Rightarrow> 'w lstate \<Rightarrow> bool" where
  "loop_post first some s t \<longleftrightarrow> (\<exists>ts. ends_run s (turn_frames first ts) t \<and> list_all good_turn ts
     \<and> (some \<longrightarrow> ts \<noteq> []) \<and> list_all (\<lambda>x. \<not> failed_turn (fst x)) (butlast ts))"

lemma broken_quiet: "framed s [] t \<Longrightarrow> broken first t u \<Longrightarrow> broken first s u"
  unfolding broken_def by (blast dest: framed_quiet)

lemma broken_turn:
  assumes f: "framed s (turn_frames first [(am, rs)]) t" and g: "good_turn (am, rs)" "\<not> failed_turn am"
    and b: "broken False t u"
  shows "broken first s u"
proof -
  from b obtain ts op where "framed t (turn_frames False ts @ op) u"
    "list_all (\<lambda>x. good_turn x \<and> \<not> failed_turn (fst x)) ts" "op = [] \<or> op = [Turn_start]"
    unfolding broken_def by blast
  then show ?thesis
    unfolding broken_def using framed_trans [OF f] g
    by (intro exI [of _ "(am, rs) # ts"] exI [of _ op]) (simp add: turn_frames_Cons [of first _ ts])
qed

lemma wp_run_loop:
  assumes quiet: "listeners_quiet c"
  shows "wp (run_loop c k n v) s (onBoth (broken (lv_first v) s) (\<lambda>_. loop_post (lv_first v) (lv_more v \<or> lv_pending v \<noteq> []) s))"
proof (induction n arbitrary: v s)
  case 0
  then show ?case by (simp add: wp_simps)
next
  case (Suc n)
  show ?case
  proof (cases "lv_more v \<or> lv_pending v \<noteq> []")
    case True
    have "wp (bindS (turn c k v) (\<lambda>r. case r of None \<Rightarrow> ret () | Some v' \<Rightarrow> run_loop c k n v')) s
      (onBoth (broken (lv_first v) s) (\<lambda>_. loop_post (lv_first v) True s))"
    proof (rule wp_bindB [OF wp_turn [OF quiet]])
      fix r :: "loop_vars option" and t :: "'a lstate"
      assume tp: "turn_post (lv_first v) s r t"
      show "wp (case r of None \<Rightarrow> ret () | Some v' \<Rightarrow> run_loop c k n v') t (onBoth (broken (lv_first v) s) (\<lambda>_. loop_post (lv_first v) True s))"
      proof (cases r)
        case None
        with tp obtain am rs where "good_turn (am, rs)" "ends_run s (turn_frames (lv_first v) [(am, rs)]) t"
          by (auto simp: turn_post_def)
        then have "loop_post (lv_first v) True s t"
          unfolding loop_post_def by (intro exI [of _ "[(am, rs)]"]) simp
        with None show ?thesis by (simp add: wp_ret)
      next
        case (Some v')
        with tp obtain am rs where a: "good_turn (am, rs)" "framed s (turn_frames (lv_first v) [(am, rs)]) t"
          "\<not> lv_first v'" "\<not> failed_turn am" by (auto simp: turn_post_def)
        have "wp (run_loop c k n v') t (onBoth (broken (lv_first v) s) (\<lambda>_. loop_post (lv_first v) True s))"
        proof (rule wp_onBoth_mono [OF Suc.IH])
          fix u
          assume "broken (lv_first v') t u"
          with a show "broken (lv_first v) s u" by (auto intro: broken_turn)
        next
          fix u
          assume "loop_post (lv_first v') (lv_more v' \<or> lv_pending v' \<noteq> []) t u"
          then obtain ts where ts: "ends_run t (turn_frames False ts) u" "list_all good_turn ts"
            "list_all (\<lambda>x. \<not> failed_turn (fst x)) (butlast ts)" using a(3) by (auto simp: loop_post_def)
          show "loop_post (lv_first v) True s u"
            unfolding loop_post_def
            by (rule exI [of _ "(am, rs) # ts"], subst turn_frames_Cons)
              (use ends_run_trans [OF a(2) ts(1)] ts a in simp)
        qed
        with Some show ?thesis by simp
      qed
    qed
    moreover have "(lv_more v \<or> lv_pending v \<noteq> []) = True" using True by blast
    ultimately show ?thesis by simp
  next
    case False
    have "wp (bindS (boundary c v) (\<lambda>r. case r of
             None \<Rightarrow> ret ()
           | Some ms \<Rightarrow> seqS (throwIfAborted c) (run_loop c k n (v\<lparr>lv_pending := ms, lv_more := True\<rparr>)))) s
      (onBoth (broken (lv_first v) s) (\<lambda>_. loop_post (lv_first v) False s))"
    proof (rule wp_bindB [OF wp_onBoth_mono [OF wp_boundary [OF quiet]]], rule brokenI(1), assumption, assumption)
      fix r :: "agent_message list option" and t :: "'a lstate"
      assume b: "case r of None \<Rightarrow> ends_run s [] t | Some ms \<Rightarrow> framed s [] t \<and> ms \<noteq> []"
      show "wp (case r of None \<Rightarrow> ret () | Some ms \<Rightarrow> seqS (throwIfAborted c)
          (run_loop c k n (v\<lparr>lv_pending := ms, lv_more := True\<rparr>))) t (onBoth (broken (lv_first v) s) (\<lambda>_. loop_post (lv_first v) False s))"
      proof (cases r)
        case None
        with b have "loop_post (lv_first v) False s t"
          unfolding loop_post_def by (intro exI [of _ "[]"]) simp
        with None show ?thesis by (simp add: wp_ret)
      next
        case (Some ms)
        with b have f: "framed s [] t" by simp
        have "wp (run_loop c k n (v\<lparr>lv_pending := ms, lv_more := True\<rparr>)) t (onBoth (broken (lv_first v) s) (\<lambda>_. loop_post (lv_first v) False s))"
          by (rule wp_onBoth_mono [OF Suc.IH]) (use ends_run_trans [OF f] broken_quiet [OF f] in \<open>force simp: loop_post_def\<close>)+
        with Some show ?thesis by (simp add: wp_seq_onBoth wp_throwIfAborted brokenI(1) [OF f])
      qed
    qed
    moreover have "(lv_more v \<or> lv_pending v \<noteq> []) = False" using False by blast
    ultimately show ?thesis using False by simp
  qed
qed

lemma wp_runLoop:
  assumes quiet: "listeners_quiet c"
  shows "wp (runLoop c k n) s (onBoth (broken True s) (\<lambda>_. loop_post True True s))"
proof -
  have "wp (seqS (throwIfAborted c) (run_loop c k n \<lparr>lv_first = True, lv_last = None, lv_pending = p, lv_more = True\<rparr>))
    (s\<lparr>world := w\<rparr>) (onBoth (broken True s) (\<lambda>_. loop_post True True s))" for p w
  proof -
    have "wp (run_loop c k n \<lparr>lv_first = True, lv_last = None, lv_pending = p, lv_more = True\<rparr>)
      (s\<lparr>world := w\<rparr>) (onBoth (broken True s) (\<lambda>_. loop_post True True s))"
      by (rule wp_onBoth_mono [OF wp_run_loop [OF quiet]])
        (use ends_run_trans [OF framed_world] broken_quiet [OF framed_world] in \<open>force simp: loop_post_def\<close>)+
    then show ?thesis by (simp add: wp_seq_onBoth wp_throwIfAborted brokenI(1))
  qed
  then show ?thesis
    unfolding runLoop_def wp_bind_onBoth
    by (intro wp_poll) (simp add: onBoth_def brokenI(1) split: sum.splits)
qed

text \<open>The frame of a whole run: every turn is opened and closed, and the last event ends the run.\<close>

definition run_frame :: "(assistant_message \<times> tool_result_message list) list \<Rightarrow> agent_message list \<Rightarrow> agent_event list" where
  "run_frame ts msgs = Agent_start # concat (map (\<lambda>(am, rs). [Turn_start, Turn_end (Assistant_msg am) rs]) ts) @ [Agent_end msgs]"

lemma turn_frames_run: "ts \<noteq> [] \<Longrightarrow> Turn_start # turn_frames True ts =
    concat (map (\<lambda>(am, rs). [Turn_start, Turn_end (Assistant_msg am) rs]) ts)"
proof (induction ts)
  case (Cons x xs)
  have "turn_frames False ys = concat (map (\<lambda>(am, rs). [Turn_start, Turn_end (Assistant_msg am) rs]) ys)" for ys
    by (induction ys) auto
  then show ?case by (cases x) simp
qed simp

lemma wp_emit_prompts:
  assumes quiet: "listeners_quiet c"
  shows "wp (emit_prompts c ms) s (onOk (\<lambda>_ t. \<exists>es. trace t = trace s @ es \<and> newMessages t = newMessages s
     \<and> ctx t = ctx s \<and> frame_events es = [] \<and> message_ends es = ms \<and> message_starts es = ms
     \<and> tool_starts es = [] \<and> tool_ends es = []))"
proof (induction ms arbitrary: s)
  case (Cons m ms)
  show ?case
    unfolding emit_prompts.simps
    by (simp add: wp_seq_onOk wp_emit [OF quiet], rule wp_onOk_mono [OF Cons.IH])
      (elim exE, rule_tac x = "Message_start m # Message_end m # es" in exI, simp)
qed (simp add: wp_simps)

text \<open>What a run that returns has done; \<open>prompts\<close> is empty for a continuation.\<close>

definition completed_run ::
    "agent_message list \<Rightarrow> agent_message list \<Rightarrow> agent_message list \<Rightarrow> 'w lstate \<Rightarrow> bool" where
  "completed_run messages prompts msgs s \<longleftrightarrow>
     newMessages s = msgs \<and> message_ends (trace s) = msgs \<and> prefix prompts msgs
     \<and> length msgs \<le> length (message_starts (trace s))
     \<and> (length (message_starts (trace s)) = length msgs \<longrightarrow> ctx s = messages @ msgs)
     \<and> mset (tool_starts (trace s)) = mset (tool_ends (trace s))
     \<and> (\<exists>ts. ts \<noteq> [] \<and> frame_events (trace s) = run_frame ts msgs \<and> list_all good_turn ts
          \<and> list_all (\<lambda>x. \<not> failed_turn (fst x)) (butlast ts))
     \<and> last (trace s) = Agent_end msgs"

lemma loop_completes:
  assumes post: "loop_post True True s t"
    and s: "trace s = Agent_start # Turn_start # es" "frame_events es = []" "message_ends es = prompts"
      "message_starts es = prompts" "tool_starts es = []" "tool_ends es = []" "newMessages s = prompts"
      "ctx s = messages @ prompts"
  shows "completed_run messages prompts (newMessages t) t"
proof -
  from post obtain ts where ts: "ends_run s (turn_frames True ts) t" "list_all good_turn ts" "ts \<noteq> []"
    "list_all (\<lambda>x. \<not> failed_turn (fst x)) (butlast ts)" unfolding loop_post_def by blast
  from ts(1) obtain es' where f: "trace t = trace s @ es'" "frame_events es' = turn_frames True ts @ [Agent_end (newMessages t)]"
    "newMessages t = newMessages s @ message_ends es'" "length (message_ends es') \<le> length (message_starts es')"
    "length (message_starts es') = length (message_ends es') \<longrightarrow> ctx t = ctx s @ message_ends es'"
    "mset (tool_starts es') = mset (tool_ends es')" "last (trace t) = Agent_end (newMessages t)"
    unfolding ends_run_def framed_def by blast
  have "frame_events (trace t) = run_frame ts (newMessages t)"
    using s f(1,2) turn_frames_run [OF ts(3)] by (simp add: run_frame_def)
  with ts f s show ?thesis
    unfolding completed_run_def by (intro conjI exI [of _ ts]) auto
qed

text \<open>The turns of a run as frame events, and what a run that throws has done.\<close>

definition turns_of :: "(assistant_message \<times> tool_result_message list) list \<Rightarrow> agent_event list" where
  "turns_of ts = concat (map (\<lambda>(am, rs). [Turn_start, Turn_end (Assistant_msg am) rs]) ts)"

definition thrown_run :: "agent_message list \<Rightarrow> agent_message list \<Rightarrow> 'w lstate \<Rightarrow> bool" where
  "thrown_run messages prompts s \<longleftrightarrow>
     message_ends (trace s) = newMessages s \<and> prefix prompts (newMessages s)
     \<and> (length (message_starts (trace s)) = length (newMessages s) \<longrightarrow> ctx s = messages @ newMessages s)
     \<and> mset (tool_starts (trace s)) = mset (tool_ends (trace s))
     \<and> (\<exists>ts op. frame_events (trace s) = Agent_start # turns_of ts @ op \<and> (op = [] \<or> op = [Turn_start])
          \<and> list_all (\<lambda>x. good_turn x \<and> \<not> failed_turn (fst x)) ts)"

lemma loop_throws:
  assumes post: "broken True s t"
    and s: "trace s = Agent_start # Turn_start # es" "frame_events es = []" "message_ends es = prompts"
      "message_starts es = prompts" "tool_starts es = []" "tool_ends es = []" "newMessages s = prompts"
      "ctx s = messages @ prompts"
  shows "thrown_run messages prompts t"
proof -
  from post obtain ts op where ts: "framed s (turn_frames True ts @ op) t"
    "list_all (\<lambda>x. good_turn x \<and> \<not> failed_turn (fst x)) ts" "op = [] \<or> op = [Turn_start] \<and> ts \<noteq> []"
    unfolding broken_def by blast
  from ts(1) obtain es' where f: "trace t = trace s @ es'" "frame_events es' = turn_frames True ts @ op"
    "newMessages t = newMessages s @ message_ends es'"
    "length (message_starts es') = length (message_ends es') \<longrightarrow> ctx t = ctx s @ message_ends es'"
    "mset (tool_starts es') = mset (tool_ends es')"
    unfolding framed_def by blast
  have "\<exists>op'. frame_events (trace t) = Agent_start # turns_of ts @ op' \<and> (op' = [] \<or> op' = [Turn_start])"
  proof (cases "ts = []")
    case True
    with ts(3) f s show ?thesis by (intro exI [of _ "[Turn_start]"]) (simp add: turns_of_def)
  next
    case False
    with turn_frames_run [OF False] ts(3) f s show ?thesis by (intro exI [of _ op]) (auto simp: turns_of_def)
  qed
  with ts(2) f s show ?thesis unfolding thrown_run_def by auto
qed

text \<open>What a run has done, however it ended.\<close>

definition run_done :: "agent_message list \<Rightarrow> agent_message list \<Rightarrow> js_error + agent_message list \<Rightarrow> 'w lstate \<Rightarrow> bool" where
  "run_done messages prompts r s = (case r of
     Inr msgs \<Rightarrow> completed_run messages prompts msgs s | Inl _ \<Rightarrow> thrown_run messages prompts s)"

lemma run_done_onBoth: "run_done messages prompts = onBoth (thrown_run messages prompts) (completed_run messages prompts)"
  by (simp add: fun_eq_iff run_done_def onBoth_def)

lemma no_throw_emit_prompts: "listeners_quiet c \<Longrightarrow> no_throw (emit_prompts c ms)"
  by (induction ms) (auto intro!: no_throws)

lemma wp_run:
  assumes quiet: "listeners_quiet c" and s: "ctx s = messages @ prompts" "newMessages s = prompts" "trace s = []"
  shows "wp (seqS (emit c Agent_start) (seqS (emit c Turn_start) (seqS (emit_prompts c prompts)
       (seqS (runLoop c k n) (getS newMessages))))) s (run_done messages prompts)"
  unfolding run_done_onBoth
  by (simp only: wp_seq_onBoth wp_emit [OF quiet] onBoth_simps wp_get,
      rule wp_onBoth_mono [OF wp_no_throw [OF wp_emit_prompts [OF quiet] no_throw_emit_prompts [OF quiet]]], assumption,
      elim exE conjE, rule wp_onBoth_mono [OF wp_runLoop [OF quiet]])
    (auto simp: s intro: loop_completes loop_throws)

lemma runAgentLoop_done:
  assumes "listeners_quiet c" and "runAgentLoop c k n prompts messages w = Some (r, t)"
  shows "run_done messages prompts r t"
  by (rule wp_D [OF wp_run [OF assms(1)] assms(2) [unfolded runAgentLoop_def]]) (simp_all add: start_state_def)

lemma runAgentLoop_completed:
  assumes "listeners_quiet c" and "runAgentLoop c k n prompts messages w = Some (Inr msgs, t)"
  shows "completed_run messages prompts msgs t"
  using runAgentLoop_done [OF assms] by (simp add: run_done_def)

lemma runAgentLoopContinue_completed:
  assumes quiet: "listeners_quiet c"
    and run: "runAgentLoopContinue c k n messages w = Some (Inr msgs, t)"
  shows "completed_run messages [] msgs t"
proof -
  have "(seqS (emit c Agent_start) (seqS (emit c Turn_start) (seqS (emit_prompts c [])
       (seqS (runLoop c k n) (getS newMessages))))) (start_state w messages []) = Some (Inr msgs, t)"
    using run by (auto simp: runAgentLoopContinue_def seqS_def bindS_def ret_def split: if_splits option.splits sum.splits)
  from wp_D [OF wp_run [OF quiet] this] show ?thesis by (simp add: start_state_def run_done_def)
qed

section \<open>Properties\<close>

text \<open>A run for the witnesses: one tool call, then a final answer.\<close>

definition sample_call :: tool_call where
  "sample_call = \<lparr>tc_id = ''c1'', tc_name = ''t'', tc_arguments = JObj [], tc_thoughtSignature = None\<rparr>"

definition sample_assistant :: "assistant_block list \<Rightarrow> stop_reason \<Rightarrow> assistant_message" where
  "sample_assistant bs r = \<lparr>am_content = bs, am_api = ''a'', am_provider = ''p'', am_model = ''m'',
     am_responseModel = None, am_responseId = None, am_diagnostics = None, am_usage = emptyUsage,
     am_stopReason = r, am_stopReasonRaw = None, am_errorMessage = None, am_timestamp = NaN\<rparr>"

definition sample_result :: tool_result where
  "sample_result = \<lparr>tl_content = [], tl_details = JNull, tl_terminate = None\<rparr>"

definition sample_tool :: "nat agent_tool" where
  "sample_tool = \<lparr>tool_name = ''t'', tool_mode = None, tool_prepareArguments = None, tool_validate = Inr,
     tool_step = (\<lambda>_ _ w. (Returned (Settled sample_result), w))\<rparr>"

definition sample_answer :: "nat \<Rightarrow> assistant_message" where
  "sample_answer w = (if w = 1 then sample_assistant [A_tool_call sample_call] Tool_use
     else sample_assistant [A_text ''ok'' None] Stop)"

definition sample_config :: "nat config" where
  "sample_config = \<lparr>cfg_api = ''a'', cfg_provider = ''p'', cfg_modelId = ''m'', cfg_apiKey = None,
     cfg_systemPrompt = [], cfg_tools = [sample_tool], cfg_sequential = False, transformContext = None,
     convertLlm = (\<lambda>ms w. (Settled (convertToLlm ms), w)), getSystemPrompt = None, getApiKey = None,
     streamFn = (\<lambda>_ _ w. (Settled 0, w)),
     response_next = (\<lambda>_ w. (Settled (Some (Ev_done Stop (sample_answer (w + 1)))), w + 1)),
     response_close = (\<lambda>_ w. w), response_result = (\<lambda>_ w. (Settled (sample_answer w), w)),
     shouldStopAfterTurn = None, shouldStopBeforeTurn = None, getSteeringMessages = None,
     getFollowUpMessages = None, getContinuationMessages = None, beforeToolCall = None, afterToolCall = None,
     emit_event = (\<lambda>_ w. (None, w)), signal_aborted = (\<lambda>_. False), date_now = (\<lambda>_. NaN), pick = (\<lambda>_. 0)\<rparr>"

definition sample_prompt :: agent_message where
  "sample_prompt = User_msg \<lparr>um_content = Plain ''hi'', um_timestamp = NaN\<rparr>"

definition sample_tool_message :: tool_result_message where
  "sample_tool_message = \<lparr>tr_toolCallId = ''c1'', tr_toolName = ''t'', tr_content = [], tr_details = Some JNull,
     tr_isError = False, tr_timestamp = NaN\<rparr>"

definition sample_messages :: "agent_message list" where
  "sample_messages = [sample_prompt, Assistant_msg (sample_answer 1), Tool_result_msg sample_tool_message,
     Assistant_msg (sample_answer 2)]"

lemma sample_quiet: "listeners_quiet sample_config"
  by (simp add: listeners_quiet_def sample_config_def)

lemmas loop_eval = bindS_def seqS_def tryS_def ret_def throw_def getS_def modS_def is_aborted_def throwIfAborted_def
  raceWithAbort_def maybePromiseWithAbort_def settlePostTurn_def pollMessagesUnlessAborted_def emit_def push_ctx_def
  push_new_def set_last_ctx_def place_final_def streamAssistantResponse_def find_tool_def prepareToolCallArguments_def
  lift_result_def prepareToolCall_def start_entry_def exec_step_def finalizeExecutedToolCall_def
  emitToolExecutionEnd_def createToolResultMessage_def emitToolResultMessage_def emit_result_def emit_tool_start_def
  entry_step_def choose_entry_def executeToolCallsParallel_def executeToolCalls_def stop_before_turn_def emit_end_def
  after_turn_def turn_def boundary_def runLoop_def runAgentLoop_def start_state_def turn_context_of_def
  shouldTerminateToolBatch_def

lemma sample_run: "\<exists>t. runAgentLoop sample_config 5 5 [sample_prompt] [] 0 = Some (Inr sample_messages, t)"
  by (simp add: loop_eval sample_config_def sample_answer_def sample_assistant_def sample_call_def sample_tool_def
      sample_result_def sample_tool_message_def sample_messages_def numeral_eq_Suc)

end
