(* ===== verification/Agent_Loop_Ends.thy ===== *)
theory Agent_Loop_Ends
  imports Agent_Loop_Runs
begin

text \<open>
  When a run of the agent loop ends, and the properties of runs. A measure of the work the world
  still has bounds the fuel a response, a tool batch and a run need; with more of it they return or
  throw.
\<close>

section \<open>Finite work\<close>

definition keeps :: "('w \<Rightarrow> nat) \<Rightarrow> ('w \<Rightarrow> 'a \<times> 'w) \<Rightarrow> bool" where
  "keeps \<mu> f \<longleftrightarrow> (\<forall>w. \<mu> (snd (f w)) \<le> \<mu> w)"

text \<open>
  What makes a run end. A measure of the world that nothing raises goes down with every response
  a provider begins, every event of a response and every partial result of a tool: there are
  finitely many of them.
\<close>

definition finite_work :: "('w \<Rightarrow> nat) \<Rightarrow> 'w config \<Rightarrow> bool" where
  "finite_work \<mu> c \<longleftrightarrow>
     (\<forall>e. keeps \<mu> (emit_event c e)) \<and> (\<forall>ms. keeps \<mu> (convertLlm c ms))
     \<and> (\<forall>f ms. transformContext c = Some f \<longrightarrow> keeps \<mu> (f ms))
     \<and> (\<forall>f p. getApiKey c = Some f \<longrightarrow> keeps \<mu> (f p))
     \<and> (\<forall>x key. keeps \<mu> (streamFn c x key)
          \<and> (\<forall>w v u. streamFn c x key w = (Settled v, u) \<longrightarrow> \<mu> u < \<mu> w))
     \<and> (\<forall>i. keeps \<mu> (response_next c i)
          \<and> (\<forall>w ev u. response_next c i w = (Settled (Some ev), u) \<longrightarrow> \<mu> u < \<mu> w))
     \<and> (\<forall>i w. \<mu> (response_close c i w) \<le> \<mu> w) \<and> (\<forall>i. keeps \<mu> (response_result c i))
     \<and> (\<forall>f tx. shouldStopAfterTurn c = Some f \<longrightarrow> keeps \<mu> (f tx))
     \<and> (\<forall>f. shouldStopBeforeTurn c = Some f \<longrightarrow> keeps \<mu> f)
     \<and> (\<forall>f. getSteeringMessages c = Some f \<longrightarrow> keeps \<mu> f)
     \<and> (\<forall>f. getFollowUpMessages c = Some f \<longrightarrow> keeps \<mu> f)
     \<and> (\<forall>f tx. getContinuationMessages c = Some f \<longrightarrow> keeps \<mu> (f tx))
     \<and> (\<forall>f am tc a ms. beforeToolCall c = Some f \<longrightarrow> keeps \<mu> (f am tc a ms))
     \<and> (\<forall>f am tc a r b ms. afterToolCall c = Some f \<longrightarrow> keeps \<mu> (f am tc a r b ms))
     \<and> (\<forall>t\<in>set (cfg_tools c). \<forall>i a. keeps \<mu> (tool_step t i a)
          \<and> (\<forall>w r u. tool_step t i a w = (Partial_result r, u) \<longrightarrow> \<mu> u < \<mu> w))"

text \<open>A program that returns and does not raise the measure, and programs that do below a bound.\<close>

definition settles :: "('w \<Rightarrow> nat) \<Rightarrow> ('w, 'a) prog \<Rightarrow> 'w lstate \<Rightarrow> bool" where
  "settles \<mu> m s \<longleftrightarrow> (\<exists>r t. m s = Some (r, t) \<and> \<mu> (world t) \<le> \<mu> (world s))"

definition settles_below :: "('w \<Rightarrow> nat) \<Rightarrow> nat \<Rightarrow> ('w, 'a) prog \<Rightarrow> bool" where
  "settles_below \<mu> j m \<longleftrightarrow> (\<forall>s. \<mu> (world s) < j \<longrightarrow> settles \<mu> m s)"

named_theorems belows \<open>programs that settle below a bound\<close>

lemma settles_bind:
  assumes "settles \<mu> m s" and "wp m s (onOk P)"
    and "\<And>x t. P x t \<Longrightarrow> \<mu> (world t) \<le> \<mu> (world s) \<Longrightarrow> settles \<mu> (f x) t"
  shows "settles \<mu> (bindS m f) s"
proof -
  from assms(1) obtain r t where r: "m s = Some (r, t)" "\<mu> (world t) \<le> \<mu> (world s)" unfolding settles_def by blast
  show ?thesis
  proof (cases r)
    case (Inl e)
    with r show ?thesis by (simp add: settles_def bindS_def)
  next
    case (Inr x)
    from wp_D [OF assms(2) r(1)] Inr have "P x t" by simp
    from assms(3) [OF this r(2)] obtain r' u where "f x t = Some (r', u)" "\<mu> (world u) \<le> \<mu> (world t)"
      unfolding settles_def by blast
    with r Inr show ?thesis by (simp add: settles_def bindS_def)
  qed
qed

lemma wp_try_onOk:
  assumes "wp m s (onOk R)" and "\<And>e t. wp (h e) t (onOk R)"
  shows "wp (tryS m h) s (onOk R)"
  unfolding wp_try by (rule wp_mono [OF assms(1)]) (auto simp: assms(2) split: sum.splits)

lemma wp_any: "wp m s (onOk (\<lambda>_ _. True))"
  by (auto simp: wp_def onOk_def split: option.splits sum.splits)

lemma below_bind [belows]: "settles_below \<mu> j m \<Longrightarrow> (\<And>x. settles_below \<mu> j (f x)) \<Longrightarrow> settles_below \<mu> j (bindS m f)"
  unfolding settles_below_def by (auto intro: settles_bind [OF _ wp_any])

lemma below_seq [belows]: "settles_below \<mu> j m \<Longrightarrow> settles_below \<mu> j n \<Longrightarrow> settles_below \<mu> j (seqS m n)"
  unfolding seqS_def by (rule below_bind)

lemma below_try [belows]:
  fixes m :: "('w, 'a) prog"
  shows "settles_below \<mu> j m \<Longrightarrow> (\<And>e. settles_below \<mu> j (h e)) \<Longrightarrow> settles_below \<mu> j (tryS m h)"
  unfolding settles_below_def
proof (intro allI impI)
  fix s :: "'w lstate"
  assume m: "\<forall>s. \<mu> (world s) < j \<longrightarrow> settles \<mu> m s" and h: "\<And>e. \<forall>s. \<mu> (world s) < j \<longrightarrow> settles \<mu> (h e) s"
    and s: "\<mu> (world s) < j"
  from m s obtain r t where r: "m s = Some (r, t)" "\<mu> (world t) \<le> \<mu> (world s)" unfolding settles_def by blast
  show "settles \<mu> (tryS m h) s"
  proof (cases r)
    case (Inl e)
    have "settles \<mu> (h e) t" using h [of e] r(2) s by simp
    with r Inl show ?thesis by (auto simp: settles_def tryS_def)
  qed (use r in \<open>simp add: settles_def tryS_def\<close>)
qed

lemma below_basic [belows]:
  "settles_below \<mu> j (ret x)" "settles_below \<mu> j (throw e)" "settles_below \<mu> j (getS f)" "settles_below \<mu> j (is_aborted c)"
  "settles_below \<mu> j (throwIfAborted c)" "settles_below \<mu> j (push_ctx m)" "settles_below \<mu> j (push_new m)" "settles_below \<mu> j (set_last_ctx m)"
  by (simp_all add: settles_below_def settles_def ret_def throw_def getS_def modS_def is_aborted_def throwIfAborted_def
      bindS_def push_ctx_def push_new_def set_last_ctx_def)

lemma below_mod [belows]: "(\<And>s. \<mu> (world (g s)) \<le> \<mu> (world s)) \<Longrightarrow> settles_below \<mu> j (modS g)"
  by (simp add: settles_below_def settles_def modS_def)

lemma below_race [belows]:
  assumes "keeps \<mu> op" and "\<And>w. \<mu> (ab w) \<le> \<mu> w"
  shows "settles_below \<mu> j (raceWithAbort c op ab)"
  unfolding settles_below_def
proof (intro allI impI)
  fix s :: "'a lstate"
  obtain r u where o: "op (world s) = (r, u)" by fastforce
  then have u: "\<mu> u \<le> \<mu> (world s)" using assms(1) by (metis keeps_def snd_conv)
  have "\<mu> (ab u) \<le> \<mu> (world s)" using assms(2) [of u] u by linarith
  with o u show "settles \<mu> (raceWithAbort c op ab) s"
    by (cases r) (simp_all add: settles_def raceWithAbort_def)
qed

lemma below_maybe [belows]: "keeps \<mu> op \<Longrightarrow> settles_below \<mu> j (maybePromiseWithAbort c op)"
  unfolding maybePromiseWithAbort_def by (rule below_race) simp_all

lemma below_settlePostTurn [belows]: "settles_below \<mu> j m \<Longrightarrow> settles_below \<mu> j (settlePostTurn c m)"
  unfolding settlePostTurn_def by (intro belows) (auto intro!: belows)

lemma below_lift [belows]: "settles_below \<mu> j (lift_result r)"
  by (cases r) (simp_all add: lift_result_def belows)

lemma below_wp: "settles_below \<mu> j m \<Longrightarrow> \<mu> (world s) < j \<Longrightarrow> wp m s (\<lambda>_ t. \<mu> (world t) \<le> \<mu> (world s))"
  unfolding settles_below_def settles_def wp_def by force

text \<open>The programs of the loop, one after the other.\<close>

lemma finite_workD:
  assumes "finite_work \<mu> c"
  shows "keeps \<mu> (emit_event c e)" and "keeps \<mu> (convertLlm c ms)"
    and "transformContext c = Some f1 \<Longrightarrow> keeps \<mu> (f1 ms)" and "getApiKey c = Some f2 \<Longrightarrow> keeps \<mu> (f2 p)"
    and "keeps \<mu> (streamFn c x key)" and "streamFn c x key w = (Settled v, u) \<Longrightarrow> \<mu> u < \<mu> w"
    and "keeps \<mu> (response_next c i)" and "response_next c i w = (Settled (Some ev), u) \<Longrightarrow> \<mu> u < \<mu> w"
    and "\<mu> (response_close c i w) \<le> \<mu> w" and "keeps \<mu> (response_result c i)"
    and "shouldStopAfterTurn c = Some f3 \<Longrightarrow> keeps \<mu> (f3 tx)" and "shouldStopBeforeTurn c = Some f4 \<Longrightarrow> keeps \<mu> f4"
    and "getSteeringMessages c = Some f5 \<Longrightarrow> keeps \<mu> f5" and "getFollowUpMessages c = Some f5 \<Longrightarrow> keeps \<mu> f5"
    and "getContinuationMessages c = Some f6 \<Longrightarrow> keeps \<mu> (f6 tx)"
    and "beforeToolCall c = Some f7 \<Longrightarrow> keeps \<mu> (f7 am tc a ms)"
    and "afterToolCall c = Some f8 \<Longrightarrow> keeps \<mu> (f8 am tc a r b ms)"
    and "t \<in> set (cfg_tools c) \<Longrightarrow> keeps \<mu> (tool_step t n a)"
    and "t \<in> set (cfg_tools c) \<Longrightarrow> tool_step t n a w = (Partial_result r, u) \<Longrightarrow> \<mu> u < \<mu> w"
  using assms unfolding finite_work_def apply -
  apply (elim conjE, (blast | meson))+
  done

lemma below_emit [belows]: "finite_work \<mu> c \<Longrightarrow> settles_below \<mu> j (emit c e)"
  unfolding settles_below_def
proof (intro allI impI)
  fix s :: "'a lstate"
  assume "finite_work \<mu> c"
  from finite_workD(1) [OF this, of e] have "\<mu> (snd (emit_event c e (world s))) \<le> \<mu> (world s)" by (simp add: keeps_def)
  then show "settles \<mu> (emit c e) s"
    by (cases "emit_event c e (world s)") (auto simp: settles_def emit_def Let_def split: option.splits)
qed

lemma below_poll [belows]:
  "(\<And>f. p = Some f \<Longrightarrow> keeps \<mu> f) \<Longrightarrow> settles_below \<mu> j (pollMessagesUnlessAborted c p)"
  unfolding pollMessagesUnlessAborted_def
  by (cases p) (auto intro!: belows)

lemma below_stop_before [belows]: "finite_work \<mu> c \<Longrightarrow> settles_below \<mu> j (stop_before_turn c b)"
proof -
  assume fin: "finite_work \<mu> c"
  have "settles_below \<mu> j (bindS (getS (\<lambda>s. f (world s))) (\<lambda>(b, w). seqS (modS (\<lambda>s. s\<lparr>world := w\<rparr>)) (ret b)))"
    if "keeps \<mu> f" for f :: "'a \<Rightarrow> bool \<times> 'a"
    using that by (auto simp: settles_below_def settles_def keeps_def bindS_def seqS_def getS_def modS_def ret_def split: prod.splits)
      (metis snd_conv)
  then show ?thesis
    unfolding stop_before_turn_def using finite_workD(12) [OF fin] by (auto intro!: belows split: option.splits)
qed

lemma below_place_final [belows]: "finite_work \<mu> c \<Longrightarrow> settles_below \<mu> j (place_final c m)"
  unfolding place_final_def by (auto intro!: belows)

lemma below_finishAborted [belows]: "finite_work \<mu> c \<Longrightarrow> settles_below \<mu> j (finishAbortedMessage c)"
  unfolding finishAbortedMessage_def by (auto intro!: belows)

section \<open>Responses\<close>

lemma race_Inr:
  "raceWithAbort c op ab s = Some (Inr v, t) \<Longrightarrow> \<exists>u. op (world s) = (Settled v, u) \<and> t = s\<lparr>world := u\<rparr>"
  by (auto simp: raceWithAbort_def split: prod.splits settled.splits if_splits)

lemma wp_race_Inr:
  "wp (raceWithAbort c op ab) s (onOk (\<lambda>v t. \<exists>u. op (world s) = (Settled v, u) \<and> t = s\<lparr>world := u\<rparr>))"
  by (auto simp: wp_def onOk_def split: option.splits sum.splits dest: race_Inr)

lemma below_stream_loop:
  assumes fin: "finite_work \<mu> c"
  shows "settles_below \<mu> k (stream_loop c r k)"
proof (induction k)
  case 0
  then show ?case by (simp add: settles_below_def)
next
  case (Suc k)
  have raceb: "settles_below \<mu> (Suc k) (raceWithAbort c (response_next c r) (response_close c r))"
    by (rule below_race, rule finite_workD(7) [OF fin], rule finite_workD(9) [OF fin])
  have res: "settles_below \<mu> (Suc k) (maybePromiseWithAbort c (response_result c r))"
    by (intro belows finite_workD(10) [OF fin])
  have resb: "settles_below \<mu> (Suc k) (bindS (maybePromiseWithAbort c (response_result c r)) (place_final c))"
    by (intro belows finite_workD(10) [OF fin] fin)
  have terminal: "settles_below \<mu> (Suc k) (bindS (tryS (maybePromiseWithAbort c (response_result c r))
                      (\<lambda>e. bindS (is_aborted c) (\<lambda>b.
                         if \<not> b \<or> \<not> isAbortError e then throw e else ret (getTerminalMessage e')))) (place_final c))" for e'
    by (auto intro!: belows finite_workD(10) [OF fin] fin)
  show ?case
    unfolding settles_below_def
  proof (intro allI impI)
    fix s :: "'a lstate"
    assume s: "\<mu> (world s) < Suc k"
    have race: "settles \<mu> (raceWithAbort c (response_next c r) (response_close c r)) s"
      using raceb s unfolding settles_below_def by blast
    show "settles \<mu> (stream_loop c r (Suc k)) s"
      unfolding stream_loop.simps
    proof (rule settles_bind [OF race wp_race_Inr], elim exE conjE, goal_cases)
      case (1 nxt t u)
      have le: "\<mu> (world t) < Suc k" using 1(1) s by simp
      show ?case
      proof (cases nxt)
        case None
        with resb le show ?thesis by (simp add: settles_below_def)
      next
        case (Some ev)
        have "\<mu> u < \<mu> (world s)" using finite_workD(8) [OF fin] 1(2) Some by blast
        then have lt: "\<mu> (world t) < k" using s 1(3) by simp
        have start: "settles_below \<mu> k (seqS (modS (\<lambda>s. s\<lparr>ls_partial := Some p, ctx := ctx s @ [Assistant_msg p], ls_added := True\<rparr>))
              (seqS (emit c (Message_start (Assistant_msg p))) (stream_loop c r k)))" for p
          by (intro belows fin Suc.IH) simp
        have upd: "settles_below \<mu> k (bindS (getS ls_partial) (\<lambda>part.
                seqS (if part \<noteq> None
                      then seqS (modS (\<lambda>s. s\<lparr>ls_partial := Some p\<rparr>))
                           (seqS (set_last_ctx (Assistant_msg p))
                                 (emit c (Message_update (Assistant_msg p) e')))
                      else ret ())
                (stream_loop c r k)))" for p e'
          by (auto intro!: belows fin Suc.IH)
        show ?thesis
        proof (cases ev)
          case (Ev_start p)
          with Some start [of p] lt show ?thesis
            unfolding settles_below_def by simp
        next
          case (Ev_update kind i p)
          with Some upd [of p "Ev_update kind i p"] lt show ?thesis
            unfolding settles_below_def by simp
        next
          case (Ev_done x m)
          with Some terminal [of "Ev_done x m"] le show ?thesis unfolding settles_below_def by simp
        next
          case (Ev_error x m)
          with Some terminal [of "Ev_error x m"] le show ?thesis unfolding settles_below_def by simp
        qed
      qed
    qed
  qed
qed

lemma below_response:
  assumes fin: "finite_work \<mu> c" and j: "j \<le> k"
  shows "settles_below \<mu> j (streamAssistantResponse c k)"
proof -
  have loop: "settles_below \<mu> j (stream_loop c r k)" for r
    using below_stream_loop [OF fin, of k r] j by (simp add: settles_below_def)
  have tc: "settles_below \<mu> j (case transformContext c of None \<Rightarrow> ret ms | Some f \<Rightarrow> maybePromiseWithAbort c (f ms))" for ms
    using finite_workD(3) [OF fin] by (auto intro!: belows split: option.splits)
  have ak: "settles_below \<mu> j (case getApiKey c of None \<Rightarrow> ret None | Some f \<Rightarrow> maybePromiseWithAbort c (f p))" for p
    using finite_workD(4) [OF fin] by (auto intro!: belows split: option.splits)
  show ?thesis
    unfolding streamAssistantResponse_def
    by (intro belows tc ak loop finite_workD(2,5) [OF fin]) (auto intro!: belows fin)
qed

text \<open>A response that is not a failure was begun by the provider, so the measure went down.\<close>

lemma wp_place_final_is: "wp (place_final c m) s (onOk (\<lambda>am _. am = m))"
proof -
  have e: "wp (emit c x) t (onOk (\<lambda>_ _. True))" for x and t :: "'a lstate" by (rule wp_any)
  show ?thesis
    unfolding place_final_def
    by (rule wp_bindI [OF wp_any], rule wp_seqI [OF wp_any], rule wp_seqI [OF e], rule wp_retI) simp
qed

lemma wp_onOk_bind_le:
  assumes "settles_below \<mu> j m" and "\<mu> (world s) < j"
    and "\<And>x t. \<mu> (world t) \<le> \<mu> (world s) \<Longrightarrow> wp (f x) t (onOk R)"
  shows "wp (bindS m f) s (onOk R)"
  by (rule wp_bindI [where P = "\<lambda>_ t. \<mu> (world t) \<le> \<mu> (world s)"], rule wp_mono [OF below_wp [OF assms(1,2)]])
    (auto simp: onOk_def assms(3) split: sum.splits)

lemma response_uses_work:
  assumes fin: "finite_work \<mu> c"
  shows "wp (streamAssistantResponse c k) s (onOk (\<lambda>am t. failed_turn am \<or> k \<le> \<mu> (world s) \<or> \<mu> (world t) < \<mu> (world s)))"
proof (cases "k \<le> \<mu> (world s)")
  case True
  then show ?thesis by (simp add: wp_any)
next
  case False
  let ?R = "\<lambda>am t. failed_turn am \<or> k \<le> \<mu> (world s) \<or> \<mu> (world t) < \<mu> (world s)"
  define s1 where "s1 = s\<lparr>ls_partial := None, ls_added := False\<rparr>"
  have w: "world s1 = world s" by (simp add: s1_def)
  have j: "\<mu> (world t) < k" if "\<mu> (world t) \<le> \<mu> (world s)" for t :: "'a lstate" using False that by simp
  have loop: "wp (stream_loop c r k) t (onOk ?R)" if "\<mu> (world t) < \<mu> (world s)" for r t
    by (rule wp_mono [OF below_wp [OF below_stream_loop [OF fin]]]) (use that False in \<open>auto simp: onOk_def split: sum.splits\<close>)
  have tc: "settles_below \<mu> k (case transformContext c of None \<Rightarrow> ret ms | Some f \<Rightarrow> maybePromiseWithAbort c (f ms))" for ms
    using finite_workD(3) [OF fin] by (auto intro!: belows split: option.splits)
  have ak: "settles_below \<mu> k (case getApiKey c of None \<Rightarrow> ret None | Some f \<Rightarrow> maybePromiseWithAbort c (f p))" for p
    using finite_workD(4) [OF fin] by (auto intro!: belows split: option.splits)
  have req: "wp (bindS (maybePromiseWithAbort c (streamFn c x key)) (\<lambda>response. stream_loop c response k)) t (onOk ?R)"
    if "\<mu> (world t) \<le> \<mu> (world s)" for x key t
    unfolding maybePromiseWithAbort_def
  proof (rule wp_bindI [OF wp_race_Inr], elim exE conjE)
    fix v t' u
    assume "streamFn c x key (world t) = (Settled v, u)" "t' = t\<lparr>world := u\<rparr>"
    then show "wp (stream_loop c v k) t' (onOk ?R)"
      using finite_workD(6) [OF fin] that by (intro loop) fastforce
  qed
  have fin_ab: "wp (finishAbortedMessage c) t (onOk ?R)" for t
    unfolding finishAbortedMessage_def
    by (simp add: wp_bind_onOk [of "getS _"] wp_get, rule wp_onOk_mono [OF wp_place_final_is])
      (simp add: failed_turn_def createAbortedAssistantMessage_def)
  show ?thesis
    unfolding streamAssistantResponse_def wp_seq_onOk [of "modS _"] wp_mod onOk_simps s1_def [symmetric]
  proof (rule wp_try_onOk)
    show "wp (seqS (throwIfAborted c)
       (bindS (getS ctx) (\<lambda>ms.
        bindS (case transformContext c of None \<Rightarrow> ret ms | Some f \<Rightarrow> maybePromiseWithAbort c (f ms)) (\<lambda>ms'.
        bindS (maybePromiseWithAbort c (convertLlm c ms')) (\<lambda>llm.
        bindS (case getApiKey c of None \<Rightarrow> ret None
                 | Some f \<Rightarrow> maybePromiseWithAbort c (f (cfg_provider c))) (\<lambda>key.
        bindS (getS (\<lambda>s. case getSystemPrompt c of None \<Rightarrow> cfg_systemPrompt c | Some f \<Rightarrow> f (world s))) (\<lambda>sys.
        bindS (maybePromiseWithAbort c (streamFn c \<lparr>lc_systemPrompt = sys, lc_messages = llm\<rparr>
                 (case key of Some x \<Rightarrow> (if x = [] then cfg_apiKey c else Some x) | None \<Rightarrow> cfg_apiKey c)))
        (\<lambda>response. stream_loop c response k)))))))) s1 (onOk ?R)"
      unfolding seqS_def
      by (rule wp_onOk_bind_le [where \<mu> = \<mu> and j = k], rule belows, simp add: w j,
          rule wp_onOk_bind_le [where \<mu> = \<mu> and j = k], rule belows, rule j, simp add: w,
          rule wp_onOk_bind_le [where \<mu> = \<mu> and j = k], rule tc, rule j, simp add: w,
          rule wp_onOk_bind_le [where \<mu> = \<mu> and j = k], intro belows finite_workD(2) [OF fin], rule j, simp add: w,
          rule wp_onOk_bind_le [where \<mu> = \<mu> and j = k], rule ak, rule j, simp add: w,
          rule wp_onOk_bind_le [where \<mu> = \<mu> and j = k], rule belows, rule j, simp add: w,
          rule req, simp add: w)
    show "wp (bindS (is_aborted c) (\<lambda>b. if b \<and> isAbortError e then finishAbortedMessage c else throw e)) t (onOk ?R)" for e t
      using fin_ab by (simp add: wp_bind_onOk wp_is_aborted wp_throw)
  qed
qed

section \<open>Tools\<close>

fun has_tool :: "'w config \<Rightarrow> 'w entry \<Rightarrow> bool" where
  "has_tool c (E_running p _) = (pr_tool p \<in> set (cfg_tools c))"
| "has_tool c _ = True"

fun entry_weight :: "'w entry \<Rightarrow> nat" where
  "entry_weight (E_running _ _) = 3"
| "entry_weight (E_executed _ _ _) = 2"
| "entry_weight (E_finalized _) = 1"
| "entry_weight (E_done _) = 0"

lemma below_prepare [belows]: "finite_work \<mu> c \<Longrightarrow> settles_below \<mu> j (prepareToolCall c am tc)"
  unfolding prepareToolCall_def
  by (auto intro!: belows finite_workD(16) split: option.splits)

lemma wp_prepare_tool:
  "wp (prepareToolCall c am tc) s (onOk (\<lambda>p _. case p of Prepared q \<Rightarrow> pr_tool q \<in> set (cfg_tools c) | Immediate _ _ \<Rightarrow> True))"
proof (cases "find_tool c (tc_name tc)")
  case (Some t)
  then have t: "t \<in> set (cfg_tools c)" by (auto simp: find_tool_def find_Some_iff)
  have m: "wp (maybePromiseWithAbort c op) s R" if "\<And>r w. R r (s\<lparr>world := w\<rparr>)" for op R
    by (rule wp_maybe) (rule that)
  show ?thesis
    unfolding prepareToolCall_def lift_result_def Some
    by (auto simp: wp_simps t intro!: m split: option.splits sum.splits preparation.splits if_splits)
qed (simp add: prepareToolCall_def wp_simps)

lemma below_start [belows]: "settles_below \<mu> j (start_entry c p)"
  unfolding start_entry_def by (auto intro!: belows)

lemma below_finalize [belows]: "finite_work \<mu> c \<Longrightarrow> settles_below \<mu> j (finalizeExecutedToolCall c am p r b)"
  unfolding finalizeExecutedToolCall_def
  by (auto intro!: belows finite_workD(17) split: option.splits)

lemma below_events [belows]:
  assumes "finite_work \<mu> c"
  shows "settles_below \<mu> j (emit_tool_start c tc)" and "settles_below \<mu> j (emitToolExecutionEnd c f)"
    and "settles_below \<mu> j (emit_result c f)"
  by (auto simp: emit_tool_start_def emitToolExecutionEnd_def emit_result_def emitToolResultMessage_def
      intro!: belows assms)

text \<open>A step of a running tool either uses up work or leaves the tool executed.\<close>

lemma exec_step_progress:
  assumes fin: "finite_work \<mu> c" and tool: "pr_tool p \<in> set (cfg_tools c)"
  shows "\<exists>e t. exec_step c p ue s = Some (Inr e, t) \<and> has_tool c e
    \<and> (\<mu> (world t) < \<mu> (world s) \<and> (\<exists>ue'. e = E_running p ue')
       \<or> \<mu> (world t) \<le> \<mu> (world s) \<and> (\<exists>r b. e = E_executed p r b))"
proof -
  let ?tc = "pr_toolCall p"
  obtain prog w where st: "tool_step (pr_tool p) (tc_id ?tc) (pr_args p) (world s) = (prog, w)" by fastforce
  have w: "\<mu> w \<le> \<mu> (world s)" using finite_workD(18) [OF fin tool, of "tc_id ?tc" "pr_args p"] st
    by (metis keeps_def snd_conv)
  show ?thesis
  proof (cases prog)
    case (Partial_result r)
    have lt: "\<mu> w < \<mu> (world s)" using finite_workD(19) [OF fin tool] st Partial_result by blast
    obtain err u where em: "emit_event c (Tool_execution_update (tc_id ?tc) (tc_name ?tc) (tc_arguments ?tc) r) w = (err, u)"
      by fastforce
    have "\<mu> u \<le> \<mu> w" using finite_workD(1) [OF fin, of "Tool_execution_update (tc_id ?tc) (tc_name ?tc) (tc_arguments ?tc) r"] em
      by (metis keeps_def snd_conv)
    with lt Partial_result st em tool show ?thesis
      by (cases "signal_aborted c w"; cases err) (auto simp: exec_step_def Let_def emit_def)
  next
    case (Returned x)
    then show ?thesis using st w
      by (cases x; cases ue) (auto simp: exec_step_def Let_def)
  qed
qed

lemma below_exec_loop:
  assumes fin: "finite_work \<mu> c"
  shows "Suc (\<mu> (world s)) < k \<or> (\<exists>q r b. e = E_executed q r b) \<and> 0 < k \<Longrightarrow> has_tool c e \<Longrightarrow> in_execution e \<Longrightarrow>
    \<exists>q r b t. exec_loop c k e s = Some (Inr (E_executed q r b), t) \<and> \<mu> (world t) \<le> \<mu> (world s)"
proof (induction k arbitrary: e s)
  case (Suc k)
  show ?case
  proof (cases e)
    case (E_running p ue)
    with Suc.prems have p: "pr_tool p \<in> set (cfg_tools c)" and mk: "\<mu> (world s) < k" by auto
    obtain e' t where st: "exec_step c p ue s = Some (Inr e', t)" "has_tool c e'"
      and pr: "\<mu> (world t) < \<mu> (world s) \<and> (\<exists>ue'. e' = E_running p ue')
       \<or> \<mu> (world t) \<le> \<mu> (world s) \<and> (\<exists>r b. e' = E_executed p r b)"
      using exec_step_progress [OF fin p] by blast
    have "\<exists>q r b u. exec_loop c k e' t = Some (Inr (E_executed q r b), u) \<and> \<mu> (world u) \<le> \<mu> (world t)"
      by (rule Suc.IH) (use pr mk st(2) in auto)
    moreover have "\<mu> (world t) \<le> \<mu> (world s)" using pr by auto
    ultimately show ?thesis using E_running st(1) by (fastforce simp: bindS_def)
  qed (use Suc.prems in \<open>auto simp: ret_def\<close>)
qed simp

lemma below_run_one:
  assumes fin: "finite_work \<mu> c" and j: "j < k"
  shows "settles_below \<mu> j (run_one c k am tc)"
  unfolding settles_below_def
proof (intro allI impI)
  fix s :: "'a lstate"
  assume s: "\<mu> (world s) < j"
  have pre: "settles \<mu> (prepareToolCall c am tc) s" using below_prepare [OF fin, of j am tc] s by (simp add: settles_below_def)
  show "settles \<mu> (run_one c k am tc) s"
    unfolding run_one_def
  proof (rule settles_bind [OF pre wp_prepare_tool])
    fix prep :: "'a preparation" and t :: "'a lstate"
    assume t: "case prep of Prepared q \<Rightarrow> pr_tool q \<in> set (cfg_tools c) | Immediate _ _ \<Rightarrow> True" "\<mu> (world t) \<le> \<mu> (world s)"
    show "settles \<mu> (case prep of Immediate r isErr \<Rightarrow> ret \<lparr>fz_toolCall = tc, fz_result = r, fz_isError = isErr\<rparr>
       | Prepared p \<Rightarrow> bindS (start_entry c p) (\<lambda>e0. bindS (exec_loop c k e0) (\<lambda>e.
           case e of E_executed q r isErr \<Rightarrow> finalizeExecutedToolCall c am q r isErr | _ \<Rightarrow> (\<lambda>s. None)))) t"
    proof (cases prep)
      case (Immediate r isErr)
      then show ?thesis by (simp add: settles_def ret_def)
    next
      case (Prepared p)
      obtain e0 where e0: "start_entry c p t = Some (Inr e0, t)" "has_tool c e0" "in_execution e0"
        using t(1) Prepared by (cases "signal_aborted c (world t)") (auto simp: start_entry_def is_aborted_def bindS_def getS_def ret_def split: if_splits)
      obtain q r b u where lo: "exec_loop c k e0 t = Some (Inr (E_executed q r b), u)" "\<mu> (world u) \<le> \<mu> (world t)"
        using below_exec_loop [OF fin, of t k e0] e0 t(2) s j by force
      have "settles \<mu> (finalizeExecutedToolCall c am q r b) u"
        using below_finalize [OF fin, of j am q r b] lo(2) t(2) s by (simp add: settles_below_def)
      with lo e0(1) Prepared show ?thesis by (fastforce simp: settles_def bindS_def)
    qed
  qed
qed

lemma below_sequential:
  assumes fin: "finite_work \<mu> c" and j: "j < k"
  shows "settles_below \<mu> j (executeToolCallsSequential c k am tcs)"
proof -
  have "settles_below \<mu> j (sequential_loop c k am tcs)"
    by (induction tcs) (auto intro!: belows below_run_one fin j)
  then show ?thesis unfolding executeToolCallsSequential_def by (intro belows)
qed

text \<open>A parallel batch: the work left and the steps left of its entries.\<close>

definition batch_weight :: "'w entry list \<Rightarrow> nat" where
  "batch_weight es = sum_list (map entry_weight es)"

lemma batch_weight_update:
  "i < length es \<Longrightarrow> batch_weight (es[i := e]) + entry_weight (es ! i) = batch_weight es + entry_weight e"
proof (induction es arbitrary: i)
  case (Cons x es)
  then show ?case by (cases i) (auto simp: batch_weight_def)
qed simp

lemma batch_weight_le: "batch_weight es \<le> 3 * length es"
proof (induction es)
  case (Cons e es)
  then show ?case by (cases e) (auto simp: batch_weight_def)
qed (simp add: batch_weight_def)

lemma choose_entry_pending: "\<not> list_all is_done es \<Longrightarrow> \<not> is_done (es ! choose_entry i es)"
proof -
  assume n: "\<not> list_all is_done es"
  let ?p = "filter (\<lambda>j. \<not> is_done (es ! j)) [0..<length es]"
  from n obtain j where "j < length es" "\<not> is_done (es ! j)" by (auto simp: list_all_iff in_set_conv_nth)
  then have "j \<in> set ?p" by simp
  then have "?p \<noteq> []" by (metis empty_iff empty_set)
  then have "hd ?p \<in> set ?p" by (rule hd_in_set)
  then show ?thesis unfolding choose_entry_def Let_def by auto
qed

lemma entry_step_progress:
  assumes fin: "finite_work \<mu> c" and tool: "has_tool c e" and nd: "\<not> is_done e"
  shows "\<exists>r t. entry_step c am e s = Some (r, t) \<and> \<mu> (world t) \<le> \<mu> (world s)
    \<and> (\<forall>e'. r = Inr e' \<longrightarrow> has_tool c e' \<and> \<mu> (world t) + entry_weight e' < \<mu> (world s) + entry_weight e)"
proof (cases e)
  case (E_running p ue)
  with exec_step_progress [OF fin, of p ue s] tool show ?thesis
    by (fastforce simp: entry_step_def)
next
  case (E_executed p r b)
  have "settles \<mu> (finalizeExecutedToolCall c am p r b) s"
    using below_finalize [OF fin, of "Suc (\<mu> (world s))" am p r b] by (simp add: settles_below_def)
  with E_executed show ?thesis by (fastforce simp: entry_step_def settles_def bindS_def ret_def split: sum.splits)
next
  case (E_finalized f)
  have "settles \<mu> (emitToolExecutionEnd c f) s"
    using below_events(2) [OF fin, of "Suc (\<mu> (world s))" f] by (simp add: settles_below_def)
  with E_finalized show ?thesis by (fastforce simp: entry_step_def settles_def bindS_def seqS_def ret_def split: sum.splits)
qed (use nd in simp)

lemma parallel_loop_settles:
  assumes fin: "finite_work \<mu> c"
  shows "\<mu> (world s) + batch_weight es < k \<Longrightarrow> list_all (has_tool c) es \<Longrightarrow> settles \<mu> (parallel_loop c k am es) s"
proof (induction k arbitrary: es s)
  case (Suc k)
  show ?case
  proof (cases "list_all is_done es")
    case True
    then show ?thesis by (simp add: settles_def ret_def)
  next
    case False
    define i where "i = choose_entry (pick c (world s)) es"
    have il: "i < length es" unfolding i_def by (rule choose_entry_lt [OF False])
    have nd: "\<not> is_done (es ! i)" unfolding i_def by (rule choose_entry_pending [OF False])
    have ti: "has_tool c (es ! i)" using Suc.prems(2) il by (simp add: list_all_length)
    from entry_step_progress [OF fin ti nd] obtain r t where st: "entry_step c am (es ! i) s = Some (r, t)"
      "\<mu> (world t) \<le> \<mu> (world s)"
      "\<And>e'. r = Inr e' \<Longrightarrow> has_tool c e' \<and> \<mu> (world t) + entry_weight e' < \<mu> (world s) + entry_weight (es ! i)"
      by blast
    have "settles \<mu> (bindS (entry_step c am (es ! i)) (\<lambda>e. parallel_loop c k am (es[i := e]))) s"
    proof (cases r)
      case (Inl e)
      with st show ?thesis by (simp add: settles_def bindS_def)
    next
      case (Inr e')
      have "\<mu> (world t) + batch_weight (es[i := e']) < k"
        using batch_weight_update [OF il, of e'] st(3) [OF Inr] Suc.prems(1) by linarith
      moreover have "list_all (has_tool c) (es[i := e'])"
        using Suc.prems(2) st(3) [OF Inr] by (auto simp: list_all_iff dest: set_update_subset_insert [THEN subsetD])
      ultimately have "settles \<mu> (parallel_loop c k am (es[i := e'])) t" by (rule Suc.IH)
      with st(1,2) Inr show ?thesis by (fastforce simp: settles_def bindS_def)
    qed
    with False show ?thesis by (simp add: i_def settles_def bindS_def [of "getS _"] getS_def)
  qed
qed simp

lemma wp_prepare_all_tools:
  "wp (prepare_all c am tcs) s (onOk (\<lambda>xs _. \<forall>p. Inr p \<in> set xs \<longrightarrow> pr_tool p \<in> set (cfg_tools c)))"
proof (induction tcs arbitrary: s)
  case (Cons tc tcs)
  show ?case
    unfolding prepare_all.simps
  proof (rule wp_seqI [OF wp_any], rule wp_bindI [OF wp_prepare_tool], goal_cases)
    case (1 x t prep u)
    show ?case
      by (rule wp_bindI [where P = "\<lambda>x _. \<forall>p. x = Inr p \<longrightarrow> pr_tool p \<in> set (cfg_tools c)"],
          cases prep; (use 1 in \<open>simp add: wp_ret Let_def\<close>)?)
        (auto simp: wp_ret intro!: wp_seqI [OF wp_any] wp_bindI [OF Cons.IH])
  qed
qed (simp add: wp_ret)

lemma wp_start_all_tools:
  "(\<forall>p. Inr p \<in> set xs \<longrightarrow> pr_tool p \<in> set (cfg_tools c)) \<Longrightarrow> wp (start_all c xs) s (onOk (\<lambda>es _. list_all (has_tool c) es))"
proof (induction xs arbitrary: s)
  case (Cons x xs)
  have h: "wp (case x of Inl f \<Rightarrow> ret (E_done f) | Inr p \<Rightarrow> start_entry c p) s (onOk (\<lambda>e _. has_tool c e))" for s
    using Cons.prems by (cases x) (auto simp: wp_ret start_entry_def wp_bind_onOk wp_is_aborted)
  show ?case
    unfolding start_all.simps
    by (rule wp_bindI [OF h], rule wp_bindI [OF Cons.IH]) (use Cons.prems in \<open>auto simp: wp_ret\<close>)
qed (simp add: wp_ret)

lemma below_parallel:
  assumes fin: "finite_work \<mu> c" and j: "j \<le> k"
  shows "settles_below \<mu> j (executeToolCallsParallel c k am tcs)"
proof -
  have pa: "settles_below \<mu> j (prepare_all c am tcs)"
    by (induction tcs) (auto simp: Let_def intro!: belows fin split: preparation.splits)
  have sa: "settles_below \<mu> j (start_all c xs)" for xs :: "(finalized + 'a prepared) list"
    by (induction xs) (auto intro!: belows split: sum.splits)
  have er: "settles_below \<mu> j (emit_results c fs)" for fs
    by (induction fs) (auto intro!: belows fin)
  show ?thesis
    unfolding settles_below_def
  proof (intro allI impI)
    fix s :: "'a lstate"
    assume s: "\<mu> (world s) < j"
    show "settles \<mu> (executeToolCallsParallel c k am tcs) s"
      unfolding executeToolCallsParallel_def
    proof (rule settles_bind [OF _ wp_prepare_all_tools], goal_cases)
      case 1
      then show ?case using pa s by (simp add: settles_below_def)
    next
      case (2 xs t)
      show ?case
      proof (rule settles_bind [OF _ wp_start_all_tools [OF 2(1)]], goal_cases)
        case 1
        then show ?case using sa [of xs] s 2(2) by (simp add: settles_below_def)
      next
        case (2 es u)
        have "settles \<mu> (parallel_loop c (k + 3 * length es) am es) u"
          by (rule parallel_loop_settles [OF fin _ 2(1)]) (use batch_weight_le [of es] 2(2) \<open>\<mu> (world t) \<le> \<mu> (world s)\<close> s j in linarith)
        then show ?case
        proof (rule settles_bind [OF _ wp_any], goal_cases)
          case (1 fs v)
          then have "\<mu> (world v) < j" using 2(2) \<open>\<mu> (world t) \<le> \<mu> (world s)\<close> s by linarith
          moreover have "settles_below \<mu> j (bindS (emit_results c fs) (\<lambda>ms. ret \<lparr>bt_messages = ms, bt_terminate = shouldTerminateToolBatch fs\<rparr>))"
            by (intro belows er)
          ultimately show ?case by (simp add: settles_below_def)
        qed
      qed
    qed
  qed
qed

lemma below_tools: "finite_work \<mu> c \<Longrightarrow> j < k \<Longrightarrow> settles_below \<mu> j (executeToolCalls c k am)"
  by (simp add: executeToolCalls_def Let_def below_sequential below_parallel)

section \<open>Turns and runs\<close>

lemma below_loops [belows]:
  assumes "finite_work \<mu> c"
  shows "settles_below \<mu> j (emit_end c)" and "settles_below \<mu> j (inject c ms)" and "settles_below \<mu> j (push_results rs)"
    and "settles_below \<mu> j (emit_prompts c ms)"
proof -
  show "settles_below \<mu> j (emit_end c)" unfolding emit_end_def by (intro belows assms)
  show "settles_below \<mu> j (inject c ms)" by (induction ms) (auto intro!: belows assms)
  show "settles_below \<mu> j (push_results rs)" by (induction rs) (auto intro!: belows)
  show "settles_below \<mu> j (emit_prompts c ms)" by (induction ms) (auto intro!: belows assms)
qed

lemma below_after_turn:
  assumes fin: "finite_work \<mu> c"
  shows "settles_below \<mu> j (after_turn c am rs again)"
proof -
  have s: "settles_below \<mu> j (settlePostTurn c (case shouldStopAfterTurn c of
                 None \<Rightarrow> bindS (is_aborted c) (\<lambda>b. if b then throw createAbortError else ret False)
               | Some f \<Rightarrow> maybePromiseWithAbort c (f tx)))" for tx
    using finite_workD(11) [OF fin] by (auto intro!: belows split: option.splits)
  have p: "settles_below \<mu> j (settlePostTurn c (pollMessagesUnlessAborted c (getSteeringMessages c)))"
    by (intro belows finite_workD(13) [OF fin])
  show ?thesis
    unfolding after_turn_def by (intro belows s p) (auto intro!: belows s p fin)
qed

lemma below_turn:
  assumes fin: "finite_work \<mu> c" and j: "j < k"
  shows "settles_below \<mu> j (turn c k v)"
  unfolding turn_def
  by (intro belows below_response [OF fin] below_after_turn [OF fin] below_tools [OF fin] less_imp_le [OF j] fin)
    (auto intro!: belows below_after_turn below_tools fin j)

text \<open>A turn that leads to another pass has used up work.\<close>

lemma turn_uses_work:
  assumes fin: "finite_work \<mu> c" and j: "\<mu> (world s) < j" "j < k"
  shows "wp (turn c k v) s (onOk (\<lambda>r t. r \<noteq> None \<longrightarrow> \<mu> (world t) < \<mu> (world s)))"
proof -
  let ?R = "\<lambda>r t. r \<noteq> None \<longrightarrow> \<mu> (world t) < \<mu> (world s)"
  have after: "wp m u (onOk ?R)" if "settles_below \<mu> j m" "\<mu> (world u) < \<mu> (world s)"
    for m :: "('a, loop_vars option) prog" and u
    by (rule wp_mono [OF below_wp [OF that(1)]]) (use that j in \<open>auto simp: onOk_def split: sum.splits\<close>)
  have le: "\<mu> (world t) < j" if "\<mu> (world t) \<le> \<mu> (world s)" for t :: "'a lstate" using that j by simp
  have none: "wp (seqS (emit c e) (seqS (emit_end c) (ret None))) u (onOk ?R)" for e u
    by (rule wp_seqI [OF wp_any], rule wp_seqI [OF wp_any], rule wp_retI) simp
  have st: "settles_below \<mu> j (if lv_first v then ret () else emit c Turn_start)" by (auto intro!: belows fin)
  have tail: "wp (seqS (push_new (Assistant_msg am))
      (if am_stopReason am = Error_stop \<or> am_stopReason am = Aborted
       then seqS (emit c (Turn_end (Assistant_msg am) [])) (seqS (emit_end c) (ret None))
       else if tool_calls_of (am_content am) = [] then after_turn c am [] False
       else bindS (executeToolCalls c k am) (\<lambda>bt.
              seqS (push_results (bt_messages bt))
                   (after_turn c am (bt_messages bt) (\<not> bt_terminate bt))))) t (onOk ?R)"
    if "failed_turn am \<or> \<mu> (world t) < \<mu> (world s)" for am t
  proof (cases "failed_turn am")
    case True
    then show ?thesis
      using none unfolding failed_turn_def by (simp add: wp_seq_onOk [of "push_new _"] wp_context cong: if_cong del: not_None_eq)
  next
    case False
    with that have lt: "\<mu> (world t) < \<mu> (world s)" by simp
    have "settles_below \<mu> j (seqS (push_new (Assistant_msg am)) (if tool_calls_of (am_content am) = [] then after_turn c am [] False
       else bindS (executeToolCalls c k am) (\<lambda>bt.
              seqS (push_results (bt_messages bt)) (after_turn c am (bt_messages bt) (\<not> bt_terminate bt)))))"
      by (auto intro!: belows below_after_turn below_tools fin j)
    from after [OF this lt] False show ?thesis by (simp add: failed_turn_def)
  qed
  have resp: "wp (streamAssistantResponse c k) t (onOk (\<lambda>am u. failed_turn am \<or> \<mu> (world u) < \<mu> (world s)))"
    if "\<mu> (world t) \<le> \<mu> (world s)" for t
    by (rule wp_onOk_mono [OF response_uses_work [OF fin]]) (use that j in auto)
  show ?thesis
    unfolding turn_def
    unfolding seqS_def [of "throwIfAborted c"] seqS_def [of "if _ then _ else _"] seqS_def [of "inject _ _"]
    by (rule wp_onOk_bind_le [where \<mu> = \<mu> and j = j], rule belows, rule j(1),
        rule wp_onOk_bind_le [where \<mu> = \<mu> and j = j], rule st, rule le, simp,
        rule wp_onOk_bind_le [where \<mu> = \<mu> and j = j], rule below_loops [OF fin], rule le, simp,
        rule wp_bindI [OF resp], simp, rule tail, assumption)
qed

lemma below_boundary:
  assumes fin: "finite_work \<mu> c"
  shows "settles_below \<mu> j (boundary c v)"
proof -
  have p: "settles_below \<mu> j (settlePostTurn c (pollMessagesUnlessAborted c (getFollowUpMessages c)))"
    by (intro belows finite_workD(14) [OF fin])
  have q: "settles_below \<mu> j (case lv_last v of
                None \<Rightarrow> ret (Some [])
              | Some (am, rs) \<Rightarrow> (case getContinuationMessages c of
                  None \<Rightarrow> settlePostTurn c (bindS (is_aborted c) (\<lambda>b. if b then throw createAbortError else ret []))
                | Some f \<Rightarrow> bindS (getS (turn_context_of am rs)) (\<lambda>tx.
                    settlePostTurn c (maybePromiseWithAbort c (f tx)))))"
    using finite_workD(15) [OF fin] by (auto intro!: belows split: option.splits prod.splits)
  show ?thesis
    unfolding boundary_def by (intro belows p fin) (auto intro!: belows p q fin)
qed

lemma run_loop_settles:
  assumes fin: "finite_work \<mu> c" and j: "j < k"
  shows "\<mu> (world s) < j \<Longrightarrow> (if lv_more v \<or> lv_pending v \<noteq> [] then 2 * \<mu> (world s) < n else 2 * \<mu> (world s) + 1 < n)
    \<Longrightarrow> settles \<mu> (run_loop c k n v) s"
proof (induction n arbitrary: v s)
  case (Suc n)
  show ?case
  proof (cases "lv_more v \<or> lv_pending v \<noteq> []")
    case True
    have t: "settles \<mu> (turn c k v) s" using below_turn [OF fin j, of v] Suc.prems(1) by (simp add: settles_below_def)
    have "settles \<mu> (bindS (turn c k v) (\<lambda>r. case r of None \<Rightarrow> ret () | Some v' \<Rightarrow> run_loop c k n v')) s"
    proof (rule settles_bind [OF t turn_uses_work [OF fin Suc.prems(1) j]])
      fix r :: "loop_vars option" and t :: "'a lstate"
      assume r: "r \<noteq> None \<longrightarrow> \<mu> (world t) < \<mu> (world s)"
      show "settles \<mu> (case r of None \<Rightarrow> ret () | Some v' \<Rightarrow> run_loop c k n v') t"
      proof (cases r)
        case (Some v')
        then have "settles \<mu> (run_loop c k n v') t" by (intro Suc.IH) (use r Suc.prems True in auto)
        with Some show ?thesis by simp
      qed (simp add: settles_def ret_def)
    qed
    with True show ?thesis by simp
  next
    case False
    have b: "settles \<mu> (boundary c v) s" using below_boundary [OF fin, of j v] Suc.prems(1) by (simp add: settles_below_def)
    have "settles \<mu> (bindS (boundary c v) (\<lambda>r. case r of
             None \<Rightarrow> ret ()
           | Some ms \<Rightarrow> seqS (throwIfAborted c) (run_loop c k n (v\<lparr>lv_pending := ms, lv_more := True\<rparr>)))) s"
    proof (rule settles_bind [OF b wp_any])
      fix r :: "agent_message list option" and t :: "'a lstate"
      assume le: "\<mu> (world t) \<le> \<mu> (world s)"
      show "settles \<mu> (case r of None \<Rightarrow> ret ()
           | Some ms \<Rightarrow> seqS (throwIfAborted c) (run_loop c k n (v\<lparr>lv_pending := ms, lv_more := True\<rparr>))) t"
      proof (cases r)
        case (Some ms)
        have "settles \<mu> (run_loop c k n (v\<lparr>lv_pending := ms, lv_more := True\<rparr>)) t"
          by (rule Suc.IH) (use le Suc.prems False in auto)
        then have "settles \<mu> (seqS (throwIfAborted c) (run_loop c k n (v\<lparr>lv_pending := ms, lv_more := True\<rparr>))) t"
          by (auto simp: settles_def seqS_def throwIfAborted_def is_aborted_def bindS_def getS_def throw_def ret_def)
        with Some show ?thesis by simp
      qed (simp add: settles_def ret_def)
    qed
    with False show ?thesis by simp
  qed
qed (simp split: if_splits)

text \<open>With fuel above the work there is, a run returns or throws.\<close>

lemma runAgentLoop_settles:
  assumes fin: "finite_work \<mu> c" and k: "Suc (\<mu> w) < k" and n: "2 * \<mu> w < n"
  shows "\<exists>r t. runAgentLoop c k n prompts messages w = Some (r, t) \<and> \<mu> (world t) \<le> \<mu> w"
proof -
  have loop: "settles_below \<mu> (Suc (\<mu> w)) (runLoop c k n)"
    unfolding settles_below_def
  proof (intro allI impI)
    fix s :: "'a lstate"
    assume s: "\<mu> (world s) < Suc (\<mu> w)"
    have poll: "settles \<mu> (pollMessagesUnlessAborted c (getSteeringMessages c)) s"
      using below_poll [of "getSteeringMessages c" \<mu> "Suc (\<mu> w)" c] finite_workD(13) [OF fin] s by (simp add: settles_below_def)
    show "settles \<mu> (runLoop c k n) s"
      unfolding runLoop_def
    proof (rule settles_bind [OF poll wp_any])
      fix pending and t :: "'a lstate"
      assume "\<mu> (world t) \<le> \<mu> (world s)"
      then have "settles \<mu> (run_loop c k n \<lparr>lv_first = True, lv_last = None, lv_pending = pending, lv_more = True\<rparr>) t"
        by (intro run_loop_settles [OF fin k]) (use s n in auto)
      then show "settles \<mu> (seqS (throwIfAborted c) (run_loop c k n \<lparr>lv_first = True, lv_last = None, lv_pending = pending, lv_more = True\<rparr>)) t"
        by (auto simp: settles_def seqS_def throwIfAborted_def is_aborted_def bindS_def getS_def throw_def ret_def)
    qed
  qed
  have "settles_below \<mu> (Suc (\<mu> w)) (seqS (emit c Agent_start) (seqS (emit c Turn_start) (seqS (emit_prompts c prompts)
       (seqS (runLoop c k n) (getS newMessages)))))"
    by (intro belows fin loop)
  then show ?thesis
    unfolding settles_below_def settles_def runAgentLoop_def
    by (drule_tac x = "start_state w (messages @ prompts) prompts" in spec) (simp add: start_state_def)
qed

section \<open>Properties\<close>

text \<open>A world that counts down: a call of a tool with two units left, the answer with none.\<close>

definition countdown_config :: "nat config" where
  "countdown_config = sample_config\<lparr>
     streamFn := (\<lambda>_ _ w. if w = 0 then (Failed createAbortError, 0) else (Settled 0, w - 1)),
     response_next := (\<lambda>_ w. if w = 0 then (Settled None, 0) else (Settled (Some (Ev_done Stop (sample_answer 2))), w - 1)),
     response_result := (\<lambda>_ w. (Settled (sample_answer (if w = 2 then 1 else 2)), w))\<rparr>"

lemma countdown_quiet: "listeners_quiet countdown_config"
  by (simp add: listeners_quiet_def countdown_config_def sample_config_def)

lemma countdown_finite: "finite_work id countdown_config"
  by (auto simp: finite_work_def keeps_def countdown_config_def sample_config_def sample_tool_def split: if_splits)

lemma countdown_run: "\<exists>t. runAgentLoop countdown_config 6 9 [sample_prompt] [] 4 = Some (Inr sample_messages, t)"
  by (simp add: loop_eval countdown_config_def sample_config_def sample_answer_def sample_assistant_def sample_call_def
      sample_tool_def sample_result_def sample_tool_message_def sample_messages_def numeral_eq_Suc)

text \<open>
  C4: The transcript of a run, when no listener throws. Whatever the provider, the tools, the hooks
  and the order of concurrent tools do, and whether the run returns or throws, its new messages are
  exactly those whose \<open>message_end\<close> it emitted, in that order, the prompts first; they are what it
  returns; when no message was started twice the context it leaves is the given one followed by
  these; and the executions it started are those it ended. A run with finitely many responses,
  events and partial results comes to an end: with fuel above their number it returns or throws.
\<close>

theorem agent_run_transcript:
  assumes "listeners_quiet c"
  shows "(\<forall>r t. runAgentLoop c k n prompts messages w = Some (r, t) \<longrightarrow>
      (\<forall>msgs. r = Inr msgs \<longrightarrow> msgs = newMessages t)
      \<and> message_ends (trace t) = newMessages t \<and> prefix prompts (newMessages t)
      \<and> (length (message_starts (trace t)) = length (newMessages t) \<longrightarrow> ctx t = messages @ newMessages t)
      \<and> mset (tool_starts (trace t)) = mset (tool_ends (trace t)))
    \<and> (finite_work \<mu> c \<and> Suc (\<mu> w) < k \<and> 2 * \<mu> w < n \<longrightarrow> runAgentLoop c k n prompts messages w \<noteq> None)"
proof (intro conjI allI impI, goal_cases)
  case (1 r t msgs)
  then show ?case using runAgentLoop_done [OF assms] by (fastforce simp: run_done_def completed_run_def)
next
  case 6
  then show ?case using runAgentLoop_settles [of \<mu> c w k n prompts messages] by auto
qed (use runAgentLoop_done [OF assms] in \<open>fastforce simp: run_done_def completed_run_def thrown_run_def split: sum.splits\<close>)+

lemma agent_run_transcript_witness:
  "\<exists>t. runAgentLoop countdown_config 6 9 [sample_prompt] [] 4 = Some (Inr sample_messages, t)
     \<and> message_ends (trace t) = sample_messages \<and> newMessages t = sample_messages"
proof -
  obtain t where t: "runAgentLoop countdown_config 6 9 [sample_prompt] [] 4 = Some (Inr sample_messages, t)"
    using countdown_run by blast
  have "runAgentLoop countdown_config 6 9 [sample_prompt] [] 4 \<noteq> None"
    using agent_run_transcript [OF countdown_quiet, of 6 9 "[sample_prompt]" "[]" 4 id] countdown_finite by simp
  with t agent_run_transcript [OF countdown_quiet, of 6 9 "[sample_prompt]" "[]" 4 id] show ?thesis by metis
qed

text \<open>
  C5: The frame of a run, when no listener throws. The agent and turn events of a run that
  returns are \<open>agent_start\<close>, then at least one turn, each opened and closed, then \<open>agent_end\<close> with the
  returned messages, which is the last event of all; a turn that failed or was aborted is the
  last. Those of a run that throws are \<open>agent_start\<close>, whole turns none of which failed, perhaps a turn
  that is still open, and no \<open>agent_end\<close>. The tool results of every closed turn answer a prefix
  of the calls of its assistant message, in order and by id, and a failed turn has none. With
  finitely many responses, events and partial results, and fuel above their number, a run
  returns or throws.
\<close>

theorem agent_run_turns:
  assumes "listeners_quiet c"
  shows "(\<forall>r t. runAgentLoop c k n prompts messages w = Some (r, t) \<longrightarrow>
      (\<exists>ts op. list_all good_turn ts
        \<and> (case r of
            Inr msgs \<Rightarrow> ts \<noteq> [] \<and> frame_events (trace t) = Agent_start # turns_of ts @ [Agent_end msgs]
              \<and> last (trace t) = Agent_end msgs \<and> list_all (\<lambda>x. \<not> failed_turn (fst x)) (butlast ts)
          | Inl e \<Rightarrow> frame_events (trace t) = Agent_start # turns_of ts @ op \<and> (op = [] \<or> op = [Turn_start])
              \<and> list_all (\<lambda>x. \<not> failed_turn (fst x)) ts)))
    \<and> (finite_work \<mu> c \<and> Suc (\<mu> w) < k \<and> 2 * \<mu> w < n \<longrightarrow> runAgentLoop c k n prompts messages w \<noteq> None)"
proof (intro conjI allI impI)
  fix r t
  assume "runAgentLoop c k n prompts messages w = Some (r, t)"
  note d = runAgentLoop_done [OF assms this]
  show "\<exists>ts op. list_all good_turn ts
        \<and> (case r of
            Inr msgs \<Rightarrow> ts \<noteq> [] \<and> frame_events (trace t) = Agent_start # turns_of ts @ [Agent_end msgs]
              \<and> last (trace t) = Agent_end msgs \<and> list_all (\<lambda>x. \<not> failed_turn (fst x)) (butlast ts)
          | Inl e \<Rightarrow> frame_events (trace t) = Agent_start # turns_of ts @ op \<and> (op = [] \<or> op = [Turn_start])
              \<and> list_all (\<lambda>x. \<not> failed_turn (fst x)) ts)"
  proof (cases r)
    case (Inl e)
    with d show ?thesis by (auto simp: run_done_def thrown_run_def list_all_iff)
  next
    case (Inr msgs)
    with d show ?thesis by (auto simp: run_done_def completed_run_def run_frame_def turns_of_def)
  qed
qed (use runAgentLoop_settles [of \<mu> c w k n prompts messages] in auto)

lemma agent_run_turns_witness:
  "\<exists>t ts. runAgentLoop countdown_config 6 9 [sample_prompt] [] 4 = Some (Inr sample_messages, t)
     \<and> frame_events (trace t) = Agent_start # turns_of ts @ [Agent_end sample_messages] \<and> ts \<noteq> []"
proof -
  obtain t where t: "runAgentLoop countdown_config 6 9 [sample_prompt] [] 4 = Some (Inr sample_messages, t)"
    using countdown_run by blast
  with agent_run_turns [OF countdown_quiet, of 6 9 "[sample_prompt]" "[]" 4 id] show ?thesis by fastforce
qed

text \<open>
  C6: A parallel batch answers every call, when no listener throws. Whatever the interleaving of
  the tools and whether preparation, the tool, a hook or the abort signal failed them, a batch that
  comes to an end has not thrown: it has one result per call in source order, and has started and
  ended exactly one execution per call. With finitely many partial results, and fuel above their
  number, it does come to an end.
\<close>

theorem parallel_batch_answers_every_call:
  assumes "listeners_quiet c"
  shows "(\<forall>r t. executeToolCallsParallel c k am tcs s = Some (r, t) \<longrightarrow>
      (\<exists>bt. r = Inr bt \<and> list_all2 answers tcs (bt_messages bt) \<and> newMessages t = newMessages s \<and> ctx t = ctx s
        \<and> (\<exists>es. trace t = trace s @ es \<and> tool_starts es = map tc_id tcs \<and> mset (tool_ends es) = mset (map tc_id tcs)
             \<and> message_ends es = map Tool_result_msg (bt_messages bt))))
    \<and> (finite_work \<mu> c \<and> \<mu> (world s) < k \<longrightarrow> executeToolCallsParallel c k am tcs s \<noteq> None)"
proof (intro conjI allI impI)
  fix r t
  assume r: "executeToolCallsParallel c k am tcs s = Some (r, t)"
  then obtain bt where bt: "r = Inr bt"
    using no_throw_parallel [OF assms, of k am tcs] by (cases r) (auto simp: no_throw_def)
  from wp_D [OF wp_executeToolCallsParallel [OF assms] r [unfolded bt]]
  show "\<exists>bt. r = Inr bt \<and> list_all2 answers tcs (bt_messages bt) \<and> newMessages t = newMessages s \<and> ctx t = ctx s
        \<and> (\<exists>es. trace t = trace s @ es \<and> tool_starts es = map tc_id tcs \<and> mset (tool_ends es) = mset (map tc_id tcs)
             \<and> message_ends es = map Tool_result_msg (bt_messages bt))"
    unfolding onOk_simps tool_phase_def bt by metis
next
  assume f: "finite_work \<mu> c \<and> \<mu> (world s) < k"
  then have "settles_below \<mu> k (executeToolCallsParallel c k am tcs)" by (intro below_parallel) simp_all
  with f show "executeToolCallsParallel c k am tcs s \<noteq> None" by (auto simp: settles_below_def settles_def)
qed

lemma parallel_batch_answers_every_call_witness:
  "\<exists>bt t. executeToolCallsParallel countdown_config 10 (sample_answer 1) [sample_call, sample_call] (start_state 4 [] [])
      = Some (Inr bt, t) \<and> list_all2 answers [sample_call, sample_call] (bt_messages bt)"
proof -
  let ?m = "executeToolCallsParallel countdown_config 10 (sample_answer 1) [sample_call, sample_call] (start_state 4 [] [])"
  note th = parallel_batch_answers_every_call [OF countdown_quiet, of 10 "sample_answer 1" "[sample_call, sample_call]" "start_state 4 [] []" id]
  have "?m \<noteq> None" using th countdown_finite by (simp add: start_state_def)
  then obtain r t where "?m = Some (r, t)" by auto
  with th show ?thesis by blast
qed

end
