(* ===== verification/Agent_State.thy ===== *)
theory Agent_State
  imports Agent_Loop_Ends
begin

text \<open>
  The agent around the loop: \<open>packages/agent/src/agent.ts\<close>. The queues of pending message
  batches, the state the agent keeps and its reduction of the loop's events, the decision of
  \<open>continue\<close>, and the lifecycle of a run. Listeners and the provider belong to the world of
  the loop's configuration.
\<close>

section \<open>Pending messages\<close>

datatype queue_mode = All | One_at_a_time

record message_queue =
  q_mode :: queue_mode
  q_batches :: "agent_message list list"

definition new_queue :: "queue_mode \<Rightarrow> message_queue" where
  "new_queue m = \<lparr>q_mode = m, q_batches = []\<rparr>"

text \<open>The argument of \<open>enqueue\<close> is the batch; a single message is a batch of one.\<close>

definition q_enqueue :: "agent_message list \<Rightarrow> message_queue \<Rightarrow> message_queue" where
  "q_enqueue batch q = (if 0 < length batch then q\<lparr>q_batches := q_batches q @ [batch]\<rparr> else q)"

definition q_hasItems :: "message_queue \<Rightarrow> bool" where
  "q_hasItems q = (0 < length (q_batches q))"

definition q_drain :: "message_queue \<Rightarrow> agent_message list \<times> message_queue" where
  "q_drain q = (case q_mode q of
     All \<Rightarrow> (concat (q_batches q), q\<lparr>q_batches := []\<rparr>)
   | One_at_a_time \<Rightarrow> (case q_batches q of
       [] \<Rightarrow> ([], q)
     | first # rest \<Rightarrow> (first, q\<lparr>q_batches := rest\<rparr>)))"

definition q_clear :: "message_queue \<Rightarrow> message_queue" where
  "q_clear q = q\<lparr>q_batches := []\<rparr>"

fun split_batches :: "(agent_message \<Rightarrow> bool) \<Rightarrow> agent_message list list \<Rightarrow> agent_message list \<times> agent_message list list" where
  "split_batches pred [] = ([], [])"
| "split_batches pred (b # bs) =
     (let (removed, retained) = split_batches pred bs in
      if list_ex pred b then (b @ removed, retained) else (removed, b # retained))"

definition q_removeWhere :: "(agent_message \<Rightarrow> bool) \<Rightarrow> message_queue \<Rightarrow> agent_message list \<times> message_queue" where
  "q_removeWhere pred q =
     (let (removed, retained) = split_batches pred (q_batches q) in (removed, q\<lparr>q_batches := retained\<rparr>))"

section \<open>The agent\<close>

record agent =
  ag_api :: string
  ag_provider :: string
  ag_modelId :: string
  ag_systemPrompt :: string
  ag_messages :: "agent_message list"
  ag_isStreaming :: bool
  ag_streamingMessage :: "agent_message option"
  ag_pendingToolCalls :: "string set"
  ag_errorMessage :: "string option"
  ag_steering :: message_queue
  ag_followUp :: message_queue
  ag_activeRun :: bool

definition steer :: "agent_message list \<Rightarrow> agent \<Rightarrow> agent" where
  "steer batch a = a\<lparr>ag_steering := q_enqueue batch (ag_steering a)\<rparr>"

definition followUp :: "agent_message list \<Rightarrow> agent \<Rightarrow> agent" where
  "followUp batch a = a\<lparr>ag_followUp := q_enqueue batch (ag_followUp a)\<rparr>"

definition clearSteeringQueue :: "agent \<Rightarrow> agent" where
  "clearSteeringQueue a = a\<lparr>ag_steering := q_clear (ag_steering a)\<rparr>"

definition clearFollowUpQueue :: "agent \<Rightarrow> agent" where
  "clearFollowUpQueue a = a\<lparr>ag_followUp := q_clear (ag_followUp a)\<rparr>"

definition clearAllQueues :: "agent \<Rightarrow> agent" where
  "clearAllQueues a = clearFollowUpQueue (clearSteeringQueue a)"

definition removeQueuedMessages :: "(agent_message \<Rightarrow> bool) \<Rightarrow> agent \<Rightarrow> agent_message list \<times> agent" where
  "removeQueuedMessages pred a =
     (let (r1, q1) = q_removeWhere pred (ag_steering a); (r2, q2) = q_removeWhere pred (ag_followUp a)
      in (r1 @ r2, a\<lparr>ag_steering := q1, ag_followUp := q2\<rparr>))"

definition hasQueuedMessages :: "agent \<Rightarrow> bool" where
  "hasQueuedMessages a = (q_hasItems (ag_steering a) \<or> q_hasItems (ag_followUp a))"

definition reset :: "agent \<Rightarrow> agent" where
  "reset a = clearSteeringQueue (clearFollowUpQueue (a\<lparr>ag_messages := [], ag_isStreaming := False,
     ag_streamingMessage := None, ag_pendingToolCalls := {}, ag_errorMessage := None\<rparr>))"

text \<open>\<open>processEvents\<close>, the part that reduces the state.\<close>

definition reduce_event :: "agent_event \<Rightarrow> agent \<Rightarrow> agent" where
  "reduce_event e a = (case e of
     Message_start m \<Rightarrow> a\<lparr>ag_streamingMessage := Some m\<rparr>
   | Message_update m _ \<Rightarrow> a\<lparr>ag_streamingMessage := Some m\<rparr>
   | Message_end m \<Rightarrow> a\<lparr>ag_streamingMessage := None, ag_messages := ag_messages a @ [m]\<rparr>
   | Tool_execution_start i _ _ \<Rightarrow> a\<lparr>ag_pendingToolCalls := insert i (ag_pendingToolCalls a)\<rparr>
   | Tool_execution_end i _ _ _ \<Rightarrow> a\<lparr>ag_pendingToolCalls := ag_pendingToolCalls a - {i}\<rparr>
   | Turn_end m _ \<Rightarrow> (case m of
        Assistant_msg am \<Rightarrow> (case am_errorMessage am of
            Some x \<Rightarrow> (if x = [] then a else a\<lparr>ag_errorMessage := Some x\<rparr>) | None \<Rightarrow> a)
      | _ \<Rightarrow> a)
   | Agent_end _ \<Rightarrow> a\<lparr>ag_streamingMessage := None\<rparr>
   | _ \<Rightarrow> a)"

definition begin_run :: "agent \<Rightarrow> agent" where
  "begin_run a = a\<lparr>ag_activeRun := True, ag_isStreaming := True, ag_streamingMessage := None,
     ag_errorMessage := None\<rparr>"

definition finishRun :: "agent \<Rightarrow> agent" where
  "finishRun a = a\<lparr>ag_isStreaming := False, ag_streamingMessage := None, ag_pendingToolCalls := {},
     ag_activeRun := False\<rparr>"

definition failure_message :: "agent \<Rightarrow> js_error \<Rightarrow> bool \<Rightarrow> json list \<Rightarrow> jsnumber \<Rightarrow> agent_message" where
  "failure_message a err abort diagnostics now = Assistant_msg
     \<lparr>am_content = [A_text [] None], am_api = ag_api a, am_provider = ag_provider a, am_model = ag_modelId a,
      am_responseModel = None, am_responseId = None,
      am_diagnostics = (if abort then None else Some diagnostics), am_usage = EMPTY_USAGE,
      am_stopReason = (if abort then Aborted else Error_stop), am_stopReasonRaw = None,
      am_errorMessage = Some (error_text err), am_timestamp = now\<rparr>"



section \<open>Continuing\<close>

datatype continue_error = Busy | Nothing_to_continue

text \<open>What \<open>continue\<close> starts: a run on queued messages, or a continuation of the transcript.\<close>

datatype continue_run = Run_prompts "agent_message list" bool \<comment> \<open>skip the initial steering poll\<close>
  | Run_continuation

definition runQueuedMessages :: "agent \<Rightarrow> continue_run option \<times> agent" where
  "runQueuedMessages a =
     (let (steering, q1) = q_drain (ag_steering a); a1 = a\<lparr>ag_steering := q1\<rparr> in
      if 0 < length steering then (Some (Run_prompts steering True), a1)
      else let (followUps, q2) = q_drain (ag_followUp a1); a2 = a1\<lparr>ag_followUp := q2\<rparr> in
        if 0 < length followUps then (Some (Run_prompts followUps False), a2) else (None, a2))"

definition agent_continue :: "agent \<Rightarrow> (continue_error + continue_run) \<times> agent" where
  "agent_continue a =
     (if ag_activeRun a then (Inl Busy, a)
      else if ag_messages a = [] then
        (case runQueuedMessages a of (Some r, a1) \<Rightarrow> (Inr r, a1) | (None, a1) \<Rightarrow> (Inl Nothing_to_continue, a1))
      else case last (ag_messages a) of
        Assistant_msg _ \<Rightarrow>
          (case runQueuedMessages a of (Some r, a1) \<Rightarrow> (Inr r, a1) | (None, a1) \<Rightarrow> (Inl Nothing_to_continue, a1))
      | Custom_msg _ \<Rightarrow>
          (case runQueuedMessages a of (Some r, a1) \<Rightarrow> (Inr r, a1) | (None, a1) \<Rightarrow> (Inr Run_continuation, a1))
      | _ \<Rightarrow> (Inr Run_continuation, a))"

datatype prompt_input = Prompt_text string "content_block list option" | Prompt_messages "agent_message list"

definition normalizePromptInput :: "prompt_input \<Rightarrow> jsnumber \<Rightarrow> agent_message list" where
  "normalizePromptInput input now = (case input of
     Prompt_messages ms \<Rightarrow> ms
   | Prompt_text s images \<Rightarrow>
       [User_msg \<lparr>um_content = Blocks (Text_content s None #
          (case images of Some xs \<Rightarrow> (if 0 < length xs then xs else []) | None \<Rightarrow> [])),
        um_timestamp = now\<rparr>])"

text \<open>
  The polls of \<open>createLoopConfig\<close> on an agent and the flag that skips the first steering poll.
\<close>

definition poll_steering :: "bool \<times> agent \<Rightarrow> agent_message list \<times> bool \<times> agent" where
  "poll_steering x = (case x of (skip, a) \<Rightarrow>
     if skip then ([], False, a)
     else (let (ms, q) = q_drain (ag_steering a) in (ms, False, a\<lparr>ag_steering := q\<rparr>)))"

definition poll_followUps :: "agent \<Rightarrow> agent_message list \<times> agent" where
  "poll_followUps a = (let (ms, q) = q_drain (ag_followUp a) in (ms, a\<lparr>ag_followUp := q\<rparr>))"

section \<open>Runs\<close>

text \<open>
  The world of a run: the agent itself, the variable \<open>skipInitialSteeringPoll\<close> and the rest. The
  hooks and listeners of the configuration see all of it: they may queue messages while the run
  goes on.
\<close>

record 'w agent_world =
  aw_agent :: agent
  aw_skip :: bool
  aw_env :: 'w

definition on_agent :: "(agent \<Rightarrow> agent) \<Rightarrow> 'w agent_world \<Rightarrow> 'w agent_world" where
  "on_agent f x = x\<lparr>aw_agent := f (aw_agent x)\<rparr>"

text \<open>\<open>processEvents\<close>: the state is reduced, then the listeners are called.\<close>

definition processEvents :: "'w agent_world config \<Rightarrow> agent_event \<Rightarrow> 'w agent_world \<Rightarrow> js_error option \<times> 'w agent_world" where
  "processEvents c e x = emit_event c e (on_agent (reduce_event e) x)"

definition getSteering :: "('w agent_world, agent_message list) async" where
  "getSteering x = (case poll_steering (aw_skip x, aw_agent x) of
     (ms, skip, a) \<Rightarrow> (Settled ms, x\<lparr>aw_skip := skip, aw_agent := a\<rparr>))"

definition getFollowUps :: "('w agent_world, agent_message list) async" where
  "getFollowUps x = (case poll_followUps (aw_agent x) of (ms, a) \<Rightarrow> (Settled ms, x\<lparr>aw_agent := a\<rparr>))"

text \<open>
  \<open>createLoopConfig\<close> with \<open>createContextSnapshot\<close>: what the options of the agent give is in \<open>c\<close>; the
  model, the prompt, the polls and the event sink are the agent's.
\<close>

definition createLoopConfig :: "'w agent_world config \<Rightarrow> agent \<Rightarrow> 'w agent_world config" where
  "createLoopConfig c a = c\<lparr>
     cfg_api := ag_api a, cfg_provider := ag_provider a, cfg_modelId := ag_modelId a,
     cfg_systemPrompt := ag_systemPrompt a, getSystemPrompt := Some (\<lambda>x. ag_systemPrompt (aw_agent x)),
     shouldStopAfterTurn := Some (case shouldStopAfterTurn c of
       Some f \<Rightarrow> f | None \<Rightarrow> (\<lambda>_ x. (Settled False, x))),
     shouldStopBeforeTurn := Some (case shouldStopBeforeTurn c of Some f \<Rightarrow> f | None \<Rightarrow> (\<lambda>x. (False, x))),
     getSteeringMessages := Some getSteering, getFollowUpMessages := Some getFollowUps,
     getContinuationMessages := Some (case getContinuationMessages c of
       Some f \<Rightarrow> f | None \<Rightarrow> (\<lambda>_ x. (Settled [], x))),
     emit_event := processEvents c\<rparr>"

text \<open>The end of a run, \<open>handleRunFailure\<close> with its listeners and \<open>finishRun\<close>.\<close>

definition end_of_run :: "'w agent_world config \<Rightarrow> json list \<Rightarrow> js_error + 'a \<Rightarrow> 'w agent_world \<Rightarrow> 'w agent_world" where
  "end_of_run c d r x = on_agent finishRun (case r of
     Inr _ \<Rightarrow> x
   | Inl e \<Rightarrow>
       (let m = failure_message (aw_agent x) e (signal_aborted c x) d (date_now c x)
        in fold (\<lambda>ev y. snd (processEvents c ev y)) [Message_start m, Message_end m, Agent_end [m]]
             (on_agent (\<lambda>a. a\<lparr>ag_errorMessage := Some (error_text e)\<rparr>) x)))"

text \<open>
  \<open>runPromptMessages\<close> and \<open>runContinuation\<close> under \<open>runWithLifecycle\<close>: the left side is the error of
  an agent that is running, None a run that does not end within its fuel.
\<close>

definition begin_world :: "bool \<Rightarrow> 'w agent_world \<Rightarrow> 'w agent_world" where
  "begin_world skip x = on_agent begin_run (x\<lparr>aw_skip := skip\<rparr>)"

definition runPromptMessages :: "'w agent_world config \<Rightarrow> json list \<Rightarrow> nat \<Rightarrow> nat \<Rightarrow> agent_message list \<Rightarrow> bool
    \<Rightarrow> 'w agent_world \<Rightarrow> (continue_error + 'w agent_world) option" where
  "runPromptMessages c d k n messages skip x =
     (if ag_activeRun (aw_agent x) then Some (Inl Busy)
      else let x1 = begin_world skip x in
        map_option (\<lambda>(r, t). Inr (end_of_run c d r (world t)))
          (runAgentLoop (createLoopConfig c (aw_agent x1)) k n messages (ag_messages (aw_agent x1)) x1))"

definition runContinuation :: "'w agent_world config \<Rightarrow> json list \<Rightarrow> nat \<Rightarrow> nat
    \<Rightarrow> 'w agent_world \<Rightarrow> (continue_error + 'w agent_world) option" where
  "runContinuation c d k n x =
     (if ag_activeRun (aw_agent x) then Some (Inl Busy)
      else let x1 = begin_world False x in
        map_option (\<lambda>(r, t). Inr (end_of_run c d r (world t)))
          (runAgentLoopContinue (createLoopConfig c (aw_agent x1)) k n (ag_messages (aw_agent x1)) x1))"

definition agent_prompt :: "'w agent_world config \<Rightarrow> json list \<Rightarrow> nat \<Rightarrow> nat \<Rightarrow> prompt_input
    \<Rightarrow> 'w agent_world \<Rightarrow> (continue_error + 'w agent_world) option" where
  "agent_prompt c d k n input x =
     (if ag_activeRun (aw_agent x) then Some (Inl Busy)
      else runPromptMessages c d k n (normalizePromptInput input (date_now c x)) False x)"

section \<open>Invariants of the world during a run\<close>

text \<open>
  A relation between the world and the events so far that every hook keeps and every event
  extends holds after the run. The predicate lists the operations of a configuration once.
\<close>

definition keeps_world :: "('w \<Rightarrow> agent_event list \<Rightarrow> bool) \<Rightarrow> ('w \<Rightarrow> 'a \<times> 'w) \<Rightarrow> bool" where
  "keeps_world I f \<longleftrightarrow> (\<forall>w es. I w es \<longrightarrow> I (snd (f w)) es)"

definition hooks_keep :: "('w \<Rightarrow> agent_event list \<Rightarrow> bool) \<Rightarrow> 'w config \<Rightarrow> bool" where
  "hooks_keep I c \<longleftrightarrow>
     (\<forall>ms. keeps_world I (convertLlm c ms))
     \<and> (\<forall>f ms. transformContext c = Some f \<longrightarrow> keeps_world I (f ms))
     \<and> (\<forall>f p. getApiKey c = Some f \<longrightarrow> keeps_world I (f p))
     \<and> (\<forall>x key. keeps_world I (streamFn c x key)) \<and> (\<forall>i. keeps_world I (response_next c i))
     \<and> (\<forall>i. keeps_world I (\<lambda>w. ((), response_close c i w))) \<and> (\<forall>i. keeps_world I (response_result c i))
     \<and> (\<forall>f tx. shouldStopAfterTurn c = Some f \<longrightarrow> keeps_world I (f tx))
     \<and> (\<forall>f. shouldStopBeforeTurn c = Some f \<longrightarrow> keeps_world I f)
     \<and> (\<forall>f tx. getContinuationMessages c = Some f \<longrightarrow> keeps_world I (f tx))
     \<and> (\<forall>f am tc a ms. beforeToolCall c = Some f \<longrightarrow> keeps_world I (f am tc a ms))
     \<and> (\<forall>f am tc a r b ms. afterToolCall c = Some f \<longrightarrow> keeps_world I (f am tc a r b ms))
     \<and> (\<forall>t\<in>set (cfg_tools c). \<forall>i a. keeps_world I (tool_step t i a))"

definition loop_invariant :: "('w \<Rightarrow> agent_event list \<Rightarrow> bool) \<Rightarrow> 'w config \<Rightarrow> bool" where
  "loop_invariant I c \<longleftrightarrow> hooks_keep I c
     \<and> (\<forall>f. getSteeringMessages c = Some f \<longrightarrow> keeps_world I f)
     \<and> (\<forall>f. getFollowUpMessages c = Some f \<longrightarrow> keeps_world I f)
     \<and> (\<forall>e w es. I w es \<longrightarrow> I (snd (emit_event c e w)) (es @ [e]))"

lemma hooks_keepD:
  assumes "hooks_keep I c"
  shows "keeps_world I (convertLlm c ms)"
    and "transformContext c = Some f1 \<Longrightarrow> keeps_world I (f1 ms)" and "getApiKey c = Some f2 \<Longrightarrow> keeps_world I (f2 p)"
    and "keeps_world I (streamFn c x key)" and "keeps_world I (response_next c i)"
    and "keeps_world I (\<lambda>w. ((), response_close c i w))" and "keeps_world I (response_result c i)"
    and "shouldStopAfterTurn c = Some f3 \<Longrightarrow> keeps_world I (f3 tx)" and "shouldStopBeforeTurn c = Some f4 \<Longrightarrow> keeps_world I f4"
    and "getContinuationMessages c = Some f6 \<Longrightarrow> keeps_world I (f6 tx)"
    and "beforeToolCall c = Some f7 \<Longrightarrow> keeps_world I (f7 am tc a ms)"
    and "afterToolCall c = Some f8 \<Longrightarrow> keeps_world I (f8 am tc a r b ms)"
    and "t \<in> set (cfg_tools c) \<Longrightarrow> keeps_world I (tool_step t n a)"
  using assms unfolding hooks_keep_def apply -
  apply (elim conjE, (blast | meson))+
  done

definition holds :: "('w \<Rightarrow> agent_event list \<Rightarrow> bool) \<Rightarrow> 'w lstate \<Rightarrow> bool" where
  "holds I s = I (world s) (trace s)"

definition preserves :: "('w \<Rightarrow> agent_event list \<Rightarrow> bool) \<Rightarrow> ('w, 'a) prog \<Rightarrow> bool" where
  "preserves I m \<longleftrightarrow> (\<forall>s r t. holds I s \<longrightarrow> m s = Some (r, t) \<longrightarrow> holds I t)"

named_theorems preservers \<open>programs that preserve an invariant of the world\<close>

lemma preserves_wp: "preserves I m \<longleftrightarrow> (\<forall>s. holds I s \<longrightarrow> wp m s (\<lambda>_ t. holds I t))"
  by (auto simp: preserves_def wp_def split: option.splits)

lemma preserves_bind [preservers]: "preserves I m \<Longrightarrow> (\<And>x. preserves I (f x)) \<Longrightarrow> preserves I (bindS m f)"
  unfolding preserves_wp wp_bind
proof (intro allI impI)
  fix s
  assume m: "\<forall>s. holds I s \<longrightarrow> wp m s (\<lambda>_. holds I)" and f: "\<And>x. \<forall>s. holds I s \<longrightarrow> wp (f x) s (\<lambda>_. holds I)"
    and s: "holds I s"
  from m s have "wp m s (\<lambda>_. holds I)" by blast
  then show "wp m s (\<lambda>r t. case r of Inl e \<Rightarrow> holds I t | Inr x \<Rightarrow> wp (f x) t (\<lambda>_. holds I))"
    by (rule wp_mono) (use f in \<open>simp split: sum.split\<close>)
qed

lemma preserves_seq [preservers]: "preserves I m \<Longrightarrow> preserves I n \<Longrightarrow> preserves I (seqS m n)"
  unfolding seqS_def by (rule preserves_bind)

lemma preserves_try [preservers]: "preserves I m \<Longrightarrow> (\<And>e. preserves I (h e)) \<Longrightarrow> preserves I (tryS m h)"
  unfolding preserves_wp wp_try
proof (intro allI impI)
  fix s
  assume m: "\<forall>s. holds I s \<longrightarrow> wp m s (\<lambda>_. holds I)" and h: "\<And>x. \<forall>s. holds I s \<longrightarrow> wp (h x) s (\<lambda>_. holds I)"
    and s: "holds I s"
  from m s have "wp m s (\<lambda>_. holds I)" by blast
  then show "wp m s (\<lambda>r t. case r of Inl e \<Rightarrow> wp (h e) t (\<lambda>_. holds I) | Inr x \<Rightarrow> holds I t)"
    by (rule wp_mono) (use h in \<open>simp split: sum.split\<close>)
qed

lemma preserves_basic [preservers]:
  "preserves I (ret x)" "preserves I (throw e)" "preserves I (getS f)" "preserves I (is_aborted c)" "preserves I (\<lambda>s. None)"
  "preserves I (throwIfAborted c)" "preserves I (push_ctx m)" "preserves I (push_new m)" "preserves I (set_last_ctx m)"
  "preserves I (lift_result y)"
  by (auto simp: preserves_def holds_def ret_def throw_def getS_def modS_def is_aborted_def throwIfAborted_def
      bindS_def push_ctx_def push_new_def set_last_ctx_def lift_result_def split: if_splits sum.splits)

lemma preserves_mod [preservers]: "(\<And>s. holds I s \<Longrightarrow> holds I (g s)) \<Longrightarrow> preserves I (modS g)"
  by (simp add: preserves_def modS_def)

lemma preserves_race [preservers]:
  assumes op: "keeps_world I op" and ab: "keeps_world I (\<lambda>w. ((), ab w))"
  shows "preserves I (raceWithAbort c op ab)"
  unfolding preserves_def
proof (intro allI impI)
  fix s r t
  assume s: "holds I s" and r: "raceWithAbort c op ab s = Some (r, t)"
  obtain x u where o: "op (world s) = (x, u)" by fastforce
  have u: "I u (trace s)" using op s o by (metis holds_def keeps_world_def snd_conv)
  then have a: "I (ab u) (trace s)" using ab by (simp add: keeps_world_def)
  from r o u a show "holds I t"
    by (auto simp: raceWithAbort_def holds_def split: if_splits settled.splits)
qed

lemma preserves_maybe [preservers]: "keeps_world I op \<Longrightarrow> preserves I (maybePromiseWithAbort c op)"
  unfolding maybePromiseWithAbort_def by (rule preserves_race) (simp_all add: keeps_world_def)

lemma preserves_settlePostTurn [preservers]: "preserves I m \<Longrightarrow> preserves I (settlePostTurn c m)"
  unfolding settlePostTurn_def by (intro preservers) (auto intro!: preservers)

lemma preserves_poll [preservers]:
  "(\<And>f. p = Some f \<Longrightarrow> keeps_world I f) \<Longrightarrow> preserves I (pollMessagesUnlessAborted c p)"
  unfolding pollMessagesUnlessAborted_def by (cases p) (auto intro!: preservers)

lemma preserves_emit [preservers]: "loop_invariant I c \<Longrightarrow> preserves I (emit c e)"
  unfolding preserves_def
proof (intro allI impI)
  fix s :: "'a lstate" and r t
  assume "loop_invariant I c" "holds I s" "emit c e s = Some (r, t)"
  moreover from this have "I (snd (emit_event c e (world s))) (trace s @ [e])" by (auto simp: loop_invariant_def holds_def)
  ultimately show "holds I t"
    by (cases "emit_event c e (world s)") (auto simp: emit_def Let_def holds_def split: option.splits)
qed

lemma preserves_response:
  assumes inv: "loop_invariant I c"
  shows "preserves I (streamAssistantResponse c k)"
proof -
  from inv have h: "hooks_keep I c" by (simp add: loop_invariant_def)
  have pf: "preserves I (place_final c m)" for m unfolding place_final_def by (auto intro!: preservers inv)
  have loop: "preserves I (stream_loop c r k)" for r
  proof (induction k)
    case (Suc k)
    show ?case
      unfolding stream_loop.simps
      by (rule preserves_bind [OF preserves_race [OF hooks_keepD(5,6) [OF h]]])
        (auto intro!: preservers pf inv Suc.IH hooks_keepD(7) [OF h] simp: holds_def split: option.splits stream_event.splits)
  qed (simp add: preserves_def)
  have tc: "preserves I (case transformContext c of None \<Rightarrow> ret ms | Some f \<Rightarrow> maybePromiseWithAbort c (f ms))" for ms
    using hooks_keepD(2) [OF h] by (auto intro!: preservers split: option.splits)
  have ak: "preserves I (case getApiKey c of None \<Rightarrow> ret None | Some f \<Rightarrow> maybePromiseWithAbort c (f p))" for p
    using hooks_keepD(3) [OF h] by (auto intro!: preservers split: option.splits)
  show ?thesis
    unfolding streamAssistantResponse_def finishAbortedMessage_def
    by (intro preservers tc ak loop hooks_keepD(1,4) [OF h]) (auto intro!: preservers pf inv simp: holds_def)
qed

lemma preserves_calls [preservers]:
  assumes inv: "loop_invariant I c"
  shows "preserves I (prepareToolCall c am tc)" and "preserves I (start_entry c p)"
    and "preserves I (finalizeExecutedToolCall c am p r b)"
    and "preserves I (emit_tool_start c tc)" and "preserves I (emitToolExecutionEnd c f)" and "preserves I (emit_result c f)"
proof -
  from inv have h: "hooks_keep I c" by (simp add: loop_invariant_def)
  show "preserves I (prepareToolCall c am tc)"
    unfolding prepareToolCall_def by (auto intro!: preservers hooks_keepD(11) [OF h] split: option.splits)
  show "preserves I (start_entry c p)" unfolding start_entry_def by (auto intro!: preservers)
  show "preserves I (finalizeExecutedToolCall c am p r b)"
    unfolding finalizeExecutedToolCall_def by (auto intro!: preservers hooks_keepD(12) [OF h] split: option.splits)
qed (auto simp: emit_tool_start_def emitToolExecutionEnd_def emit_result_def emitToolResultMessage_def
    intro!: preservers inv)

lemma preserves_exec_step:
  assumes inv: "loop_invariant I c" and tool: "pr_tool p \<in> set (cfg_tools c)"
  shows "preserves I (exec_step c p ue)"
  unfolding preserves_def
proof (intro allI impI)
  fix s :: "'a lstate" and r t
  assume s: "holds I s" and r: "exec_step c p ue s = Some (r, t)"
  let ?tc = "pr_toolCall p"
  obtain prog w where st: "tool_step (pr_tool p) (tc_id ?tc) (pr_args p) (world s) = (prog, w)" by fastforce
  from inv have h: "hooks_keep I c" by (simp add: loop_invariant_def)
  have w: "holds I (s\<lparr>world := w\<rparr>)" using hooks_keepD(13) [OF h tool, of "tc_id ?tc" "pr_args p"] s st
    by (auto simp: keeps_world_def holds_def) (metis snd_conv)
  have e: "holds I u" if "emit c ev (s\<lparr>world := w\<rparr>) = Some (x, u)" for ev x u
    using preserves_emit [OF inv] w that unfolding preserves_def by blast
  show "holds I t"
    using r st w by (auto simp: exec_step_def Let_def split: tool_progress.splits if_splits option.splits prod.splits
        sum.splits settled.splits dest: e)
qed

lemma has_tool_step: "exec_step c p ue s = Some (Inr e, t) \<Longrightarrow> pr_tool p \<in> set (cfg_tools c) \<Longrightarrow> has_tool c e"
  by (auto simp: exec_step_def Let_def split: prod.splits tool_progress.splits if_splits option.splits sum.splits settled.splits)

lemma wp_has_tool: "pr_tool p \<in> set (cfg_tools c) \<Longrightarrow> wp (exec_step c p ue) s (onOk (\<lambda>e _. has_tool c e))"
  by (auto simp: wp_def onOk_def split: option.splits sum.splits dest: has_tool_step)

text \<open>A program that preserves the invariant when the values it works on satisfy a condition.\<close>

lemma wp_holds_bind:
  assumes "preserves I m" and "holds I s" and "wp m s (onOk (\<lambda>x _. Q x))"
    and "\<And>x t. Q x \<Longrightarrow> holds I t \<Longrightarrow> wp (f x) t (\<lambda>_. holds I)"
  shows "wp (bindS m f) s (\<lambda>_. holds I)"
proof -
  have "wp m s (\<lambda>r t. holds I t \<and> onOk (\<lambda>x _. Q x) r t)"
    using assms(1,2,3) by (auto simp: preserves_wp wp_def split: option.splits)
  then show ?thesis
    unfolding wp_bind by (rule wp_mono) (use assms(4) in \<open>auto split: sum.split\<close>)
qed

lemma preserves_exec_loop:
  assumes inv: "loop_invariant I c"
  shows "holds I s \<Longrightarrow> has_tool c e \<Longrightarrow> wp (exec_loop c k e) s (\<lambda>_. holds I)"
proof (induction k arbitrary: e s)
  case (Suc k)
  show ?case
  proof (cases e)
    case (E_running p ue)
    with Suc.prems have p: "pr_tool p \<in> set (cfg_tools c)" by simp
    show ?thesis
      unfolding exec_loop.simps E_running entry.case
      by (rule wp_holds_bind [OF preserves_exec_step [OF inv p] Suc.prems(1) wp_has_tool [OF p]]) (rule Suc.IH)
  qed (use Suc.prems in \<open>simp_all add: wp_ret\<close>)
qed (simp add: wp_none)

lemma wp_start_has_tool: "pr_tool p \<in> set (cfg_tools c) \<Longrightarrow> wp (start_entry c p) s (onOk (\<lambda>e _. has_tool c e))"
  by (simp add: start_entry_def wp_bind_onOk wp_is_aborted wp_ret)

lemma preserves_run_one:
  assumes inv: "loop_invariant I c"
  shows "preserves I (run_one c k am tc)"
  unfolding preserves_wp run_one_def
proof (intro allI impI, rule wp_holds_bind [OF preserves_calls(1) [OF inv] _ wp_prepare_tool], assumption)
  fix prep :: "'a preparation" and t
  assume p: "case prep of Prepared q \<Rightarrow> pr_tool q \<in> set (cfg_tools c) | Immediate _ _ \<Rightarrow> True" and t: "holds I t"
  have fin: "wp (case e of E_executed q r isErr \<Rightarrow> finalizeExecutedToolCall c am q r isErr | _ \<Rightarrow> (\<lambda>s. None)) u (\<lambda>_. holds I)"
    if "holds I u" for e and u
    using preserves_calls(3) [OF inv] that by (cases e) (auto simp: preserves_wp wp_none)
  show "wp (case prep of Immediate r isErr \<Rightarrow> ret \<lparr>fz_toolCall = tc, fz_result = r, fz_isError = isErr\<rparr>
       | Prepared p \<Rightarrow> bindS (start_entry c p) (\<lambda>e0. bindS (exec_loop c k e0) (\<lambda>e.
           case e of E_executed q r isErr \<Rightarrow> finalizeExecutedToolCall c am q r isErr | _ \<Rightarrow> (\<lambda>s. None)))) t (\<lambda>_. holds I)"
  proof (cases prep)
    case (Prepared q)
    show ?thesis
      unfolding Prepared preparation.case
    proof (rule wp_holds_bind [OF preserves_calls(2) [OF inv] t wp_start_has_tool])
      show "pr_tool q \<in> set (cfg_tools c)" using p Prepared by simp
      fix e0 u
      assume e0: "has_tool c e0" "holds I u"
      show "wp (bindS (exec_loop c k e0) (\<lambda>e. case e of E_executed q r isErr \<Rightarrow> finalizeExecutedToolCall c am q r isErr
          | _ \<Rightarrow> (\<lambda>s. None))) u (\<lambda>_. holds I)"
        unfolding wp_bind
        by (rule wp_mono [OF preserves_exec_loop [OF inv e0(2,1)]]) (use fin in \<open>auto split: sum.split\<close>)
    qed
  qed (simp add: wp_ret t)
qed

lemma preserves_sequential:
  assumes inv: "loop_invariant I c"
  shows "preserves I (executeToolCallsSequential c k am tcs)"
proof -
  have "preserves I (sequential_loop c k am tcs)"
    by (induction tcs) (auto intro!: preservers preserves_run_one inv)
  then show ?thesis unfolding executeToolCallsSequential_def by (intro preservers)
qed

lemma wp_entry_has_tool: "has_tool c e \<Longrightarrow> wp (entry_step c am e) s (onOk (\<lambda>e' _. has_tool c e'))"
proof (cases e)
  case (E_running p ue)
  then show "has_tool c e \<Longrightarrow> ?thesis" by (simp add: entry_step_def wp_has_tool)
next
  case (E_executed p r b)
  show ?thesis unfolding entry_step_def E_executed entry.case by (rule wp_bindI [OF wp_any], rule wp_retI) simp
next
  case (E_finalized f)
  show ?thesis unfolding entry_step_def E_finalized entry.case by (rule wp_seqI [OF wp_any], rule wp_retI) simp
qed (simp add: entry_step_def wp_ret)

lemma preserves_entry_step: "loop_invariant I c \<Longrightarrow> has_tool c e \<Longrightarrow> preserves I (entry_step c am e)"
  by (cases e) (auto simp: entry_step_def intro!: preservers preserves_exec_step)

lemma preserves_parallel_loop:
  assumes inv: "loop_invariant I c"
  shows "holds I s \<Longrightarrow> list_all (has_tool c) es \<Longrightarrow> wp (parallel_loop c k am es) s (\<lambda>_. holds I)"
proof (induction k arbitrary: es s)
  case (Suc k)
  show ?case
  proof (cases "list_all is_done es")
    case True
    with Suc.prems show ?thesis by (simp add: wp_ret)
  next
    case False
    define i where "i = choose_entry (pick c (world s)) es"
    have il: "i < length es" unfolding i_def by (rule choose_entry_lt [OF False])
    have ti: "has_tool c (es ! i)" using Suc.prems(2) il by (simp add: list_all_length)
    have "wp (bindS (entry_step c am (es ! i)) (\<lambda>e. parallel_loop c k am (es[i := e]))) s (\<lambda>_. holds I)"
    proof (rule wp_holds_bind [OF preserves_entry_step [OF inv ti] Suc.prems(1) wp_entry_has_tool [OF ti]])
      fix e t
      assume "has_tool c e" "holds I t"
      then show "wp (parallel_loop c k am (es[i := e])) t (\<lambda>_. holds I)"
        using Suc.prems(2) by (intro Suc.IH) (auto simp: list_all_iff dest: set_update_subset_insert [THEN subsetD])
    qed
    with False show ?thesis by (simp add: i_def wp_bind [of "getS _"] wp_get)
  qed
qed (simp add: wp_none)

lemma preserves_parallel:
  assumes inv: "loop_invariant I c"
  shows "preserves I (executeToolCallsParallel c k am tcs)"
proof -
  have pa: "preserves I (prepare_all c am tcs)"
    by (induction tcs) (auto simp: Let_def intro!: preservers inv split: preparation.splits)
  have sa: "preserves I (start_all c xs)" for xs :: "(finalized + 'a prepared) list"
    by (induction xs) (auto intro!: preservers inv split: sum.splits)
  have er: "preserves I (emit_results c fs)" for fs
    by (induction fs) (auto intro!: preservers inv)
  have rest: "preserves I (bindS (emit_results c fs) (\<lambda>ms. ret \<lparr>bt_messages = ms, bt_terminate = shouldTerminateToolBatch fs\<rparr>))" for fs
    by (intro preservers er)
  show ?thesis
    unfolding preserves_wp executeToolCallsParallel_def
  proof (intro allI impI, rule wp_holds_bind [OF pa _ wp_prepare_all_tools], assumption,
      rule wp_holds_bind [OF sa _ wp_start_all_tools], assumption, assumption)
    fix es :: "'a entry list" and u
    assume e: "list_all (has_tool c) es" "holds I u"
    show "wp (bindS (parallel_loop c (k + 3 * length es) am es) (\<lambda>fs. bindS (emit_results c fs) (\<lambda>ms.
        ret \<lparr>bt_messages = ms, bt_terminate = shouldTerminateToolBatch fs\<rparr>))) u (\<lambda>_. holds I)"
      unfolding wp_bind [of "parallel_loop _ _ _ _"]
      by (rule wp_mono [OF preserves_parallel_loop [OF inv e(2,1)]])
        (use rest in \<open>auto simp: preserves_wp split: sum.split\<close>)
  qed
qed

lemma preserves_run:
  assumes inv: "loop_invariant I c"
  shows "preserves I (seqS (emit c Agent_start) (seqS (emit c Turn_start) (seqS (emit_prompts c prompts)
       (seqS (runLoop c k n) (getS newMessages)))))"
proof -
  from inv have h: "hooks_keep I c" by (simp add: loop_invariant_def)
  have st: "keeps_world I f" if "getSteeringMessages c = Some f \<or> getFollowUpMessages c = Some f" for f
    using inv that by (auto simp: loop_invariant_def)
  have tools: "preserves I (executeToolCalls c k am)" for am
    by (simp add: executeToolCalls_def Let_def preserves_sequential preserves_parallel inv)
  have ee: "preserves I (emit_end c)" unfolding emit_end_def by (intro preservers inv)
  have ij: "preserves I (inject c ms)" for ms by (induction ms) (auto intro!: preservers inv)
  have pr: "preserves I (push_results rs)" for rs by (induction rs) (auto intro!: preservers)
  have ep: "preserves I (emit_prompts c ms)" for ms by (induction ms) (auto intro!: preservers inv)
  have sb: "preserves I (stop_before_turn c b)" for b
    using hooks_keepD(9) [OF h]
    by (auto simp: stop_before_turn_def preserves_def holds_def keeps_world_def bindS_def seqS_def getS_def modS_def ret_def
        split: option.splits prod.splits) (metis snd_conv)
  have sa: "preserves I (settlePostTurn c (case shouldStopAfterTurn c of
                 None \<Rightarrow> bindS (is_aborted c) (\<lambda>b. if b then throw createAbortError else ret False)
               | Some f \<Rightarrow> maybePromiseWithAbort c (f tx)))" for tx
    using hooks_keepD(8) [OF h] by (auto intro!: preservers split: option.splits)
  have ps: "preserves I (settlePostTurn c (pollMessagesUnlessAborted c (getSteeringMessages c)))"
    "preserves I (settlePostTurn c (pollMessagesUnlessAborted c (getFollowUpMessages c)))"
    "preserves I (pollMessagesUnlessAborted c (getSteeringMessages c))"
    by (auto intro!: preservers st)
  have ct: "preserves I (case lv_last v of
                None \<Rightarrow> ret (Some [])
              | Some (am, rs) \<Rightarrow> (case getContinuationMessages c of
                  None \<Rightarrow> settlePostTurn c (bindS (is_aborted c) (\<lambda>b. if b then throw createAbortError else ret []))
                | Some f \<Rightarrow> bindS (getS (turn_context_of am rs)) (\<lambda>tx.
                    settlePostTurn c (maybePromiseWithAbort c (f tx)))))" for v
    using hooks_keepD(10) [OF h] by (auto intro!: preservers split: option.splits prod.splits)
  have at: "preserves I (after_turn c am rs again)" for am rs again
    unfolding after_turn_def by (intro preservers sa ps) (auto intro!: preservers sa ps sb ee inv)
  have tu: "preserves I (turn c k v)" for v
    unfolding turn_def by (intro preservers preserves_response tools ij pr inv) (auto intro!: preservers tools pr at ee inv)
  have bo: "preserves I (boundary c v)" for v
    unfolding boundary_def by (intro preservers ps sb) (auto intro!: preservers ps sb ct ee inv)
  have rl: "preserves I (run_loop c k n v)" for v
    by (induction n arbitrary: v) (auto intro!: preservers tu bo split: option.splits)
  have "preserves I (runLoop c k n)" unfolding runLoop_def by (intro preservers ps rl)
  then show ?thesis by (intro preservers ep inv)
qed

lemma run_preserves:
  assumes "loop_invariant I c" and "I w []" and "runAgentLoop c k n prompts messages w = Some (r, t)"
  shows "I (world t) (trace t)"
proof -
  have "holds I (start_state w (messages @ prompts) prompts)" using assms(2) by (simp add: holds_def start_state_def)
  with preserves_run [OF assms(1)] assms(3) show ?thesis unfolding runAgentLoop_def preserves_def holds_def by blast
qed

section \<open>Lemmas\<close>

lemma reduce_messages:
  "ag_messages (fold reduce_event es a) = ag_messages a @ message_ends es"
proof (induction es arbitrary: a)
  case (Cons e es)
  have "ag_messages (reduce_event e a) = ag_messages a @ message_ends [e]"
    by (auto simp: reduce_event_def split: agent_event.splits agent_message.splits option.splits)
  then show ?case using Cons by (simp split: agent_event.splits)
qed simp

lemma reduce_queues:
  "ag_steering (fold reduce_event es a) = ag_steering a \<and> ag_followUp (fold reduce_event es a) = ag_followUp a"
proof (induction es arbitrary: a)
  case (Cons e es)
  have "ag_steering (reduce_event e a) = ag_steering a \<and> ag_followUp (reduce_event e a) = ag_followUp a"
    by (auto simp: reduce_event_def split: agent_event.splits agent_message.splits option.splits)
  then show ?case using Cons [of "reduce_event e a"] by simp
qed simp

text \<open>A queue promises what a FIFO of batches does: its contents and how a drain splits them.\<close>

definition wf_queue :: "message_queue \<Rightarrow> bool" where
  "wf_queue q = ([] \<notin> set (q_batches q))"

definition q_contents :: "message_queue \<Rightarrow> agent_message list" where
  "q_contents q = concat (q_batches q)"

lemma wf_new_queue [simp]: "wf_queue (new_queue m)"
  by (simp add: wf_queue_def new_queue_def)

lemma q_enqueue_laws [wf_intros]:
  "wf_queue q \<Longrightarrow> wf_queue (q_enqueue b q)" "q_contents (q_enqueue b q) = q_contents q @ b"
  by (auto simp: wf_queue_def q_enqueue_def q_contents_def)

lemma q_drain_laws:
  assumes "wf_queue q" and "q_drain q = (ms, q')"
  shows "wf_queue q'" and "q_contents q = ms @ q_contents q'" and "ms = [] \<longleftrightarrow> q_contents q = []"
  using assms by (auto simp: wf_queue_def q_drain_def q_contents_def split: queue_mode.splits list.splits)

text \<open>The interface the agent uses its queues through, and what follows from it alone.\<close>

locale fifo =
  fixes valid :: "'q \<Rightarrow> bool"
    and contents :: "'q \<Rightarrow> 'a list"
    and enq :: "'a list \<Rightarrow> 'q \<Rightarrow> 'q"
    and drain :: "'q \<Rightarrow> 'a list \<times> 'q"
  assumes enq_valid: "valid q \<Longrightarrow> valid (enq b q)"
    and enq_contents: "contents (enq b q) = contents q @ b"
    and drain_valid: "valid q \<Longrightarrow> drain q = (ms, q') \<Longrightarrow> valid q'"
    and drain_contents: "valid q \<Longrightarrow> drain q = (ms, q') \<Longrightarrow> contents q = ms @ contents q'"
    and drain_progress: "valid q \<Longrightarrow> drain q = (ms, q') \<Longrightarrow> ms = [] \<longleftrightarrow> contents q = []"
begin

text \<open>Operations on a queue: a batch put in or a drain; the output collects what the drains gave.\<close>

fun run_ops :: "('a list option) list \<Rightarrow> 'q \<Rightarrow> 'a list \<times> 'q" where
  "run_ops [] q = ([], q)"
| "run_ops (Some b # ops) q = run_ops ops (enq b q)"
| "run_ops (None # ops) q =
     (let (ms, q1) = drain q; (out, q2) = run_ops ops q1 in (ms @ out, q2))"

fun inputs :: "('a list option) list \<Rightarrow> 'a list" where
  "inputs [] = []"
| "inputs (Some b # ops) = b @ inputs ops"
| "inputs (None # ops) = inputs ops"

lemma run_ops_fifo:
  "valid q \<Longrightarrow> run_ops ops q = (out, q') \<Longrightarrow> valid q' \<and> contents q @ inputs ops = out @ contents q'"
proof (induction ops arbitrary: q out)
  case (Cons x ops)
  show ?case
  proof (cases x)
    case None
    obtain ms q1 where d: "drain q = (ms, q1)" by fastforce
    with Cons.prems None obtain o2 where o: "run_ops ops q1 = (o2, q')" "out = ms @ o2"
      by (auto split: prod.splits)
    from Cons.IH [OF drain_valid [OF Cons.prems(1) d] o(1)] drain_contents [OF Cons.prems(1) d] o(2) None
    show ?thesis by simp
  next
    case (Some b)
    with Cons.prems have "run_ops ops (enq b q) = (out, q')" by simp
    from Cons.IH [OF enq_valid [OF Cons.prems(1)] this] Some show ?thesis by (simp add: enq_contents)
  qed
qed simp

end

interpretation message_fifo: fifo wf_queue q_contents q_enqueue q_drain
  by unfold_locales (auto intro: q_enqueue_laws(1) simp: q_enqueue_laws(2) dest: q_drain_laws)

section \<open>Properties\<close>

text \<open>What the agent shows of a run, and hooks and listeners that leave it alone; they may queue messages.\<close>

definition agent_core where
  "agent_core a = (ag_messages a, ag_isStreaming a, ag_streamingMessage a, ag_pendingToolCalls a, ag_errorMessage a, ag_activeRun a)"

definition agent_untouched :: "'w agent_world config \<Rightarrow> bool" where
  "agent_untouched c \<longleftrightarrow> (\<forall>v. hooks_keep (\<lambda>x _. agent_core (aw_agent x) = v) c)
     \<and> (\<forall>e x. agent_core (aw_agent (snd (emit_event c e x))) = agent_core (aw_agent x))"

definition mirrors :: "agent \<Rightarrow> 'w agent_world \<Rightarrow> agent_event list \<Rightarrow> bool" where
  "mirrors a x es \<longleftrightarrow> agent_core (aw_agent x) = agent_core (fold reduce_event es a)"

lemma core_reduce:
  assumes "agent_core a = agent_core b"
  shows "agent_core (reduce_event e a) = agent_core (reduce_event e b)"
proof -
  have f: "ag_messages a = ag_messages b" "ag_isStreaming a = ag_isStreaming b" "ag_streamingMessage a = ag_streamingMessage b"
    "ag_pendingToolCalls a = ag_pendingToolCalls b" "ag_errorMessage a = ag_errorMessage b" "ag_activeRun a = ag_activeRun b"
    using assms unfolding agent_core_def prod.inject by blast+
  show ?thesis
  proof (cases e)
    case (Turn_end m rs)
    show ?thesis
    proof (cases m)
      case (Assistant_msg am)
      with Turn_end f show ?thesis by (cases "am_errorMessage am") (simp_all add: agent_core_def reduce_event_def)
    qed (use Turn_end f in \<open>simp_all add: agent_core_def reduce_event_def\<close>)
  qed (use f in \<open>simp_all add: agent_core_def reduce_event_def\<close>)
qed

lemma core_fold: "agent_core a = agent_core b \<Longrightarrow> agent_core (fold reduce_event es a) = agent_core (fold reduce_event es b)"
proof (induction es arbitrary: a b)
  case (Cons e es)
  from Cons.IH [OF core_reduce [OF Cons.prems]] show ?case by simp
qed simp

lemma keeps_mirrors:
  assumes "\<And>v. keeps_world (\<lambda>x _. agent_core (aw_agent x) = v) f"
  shows "keeps_world (mirrors a) f"
  using assms unfolding keeps_world_def mirrors_def by blast

lemma core_queues [simp]: "agent_core (a\<lparr>ag_steering := q\<rparr>) = agent_core a" "agent_core (a\<lparr>ag_followUp := q\<rparr>) = agent_core a"
  by (simp_all add: agent_core_def)

lemma keeps_polls: "keeps_world (mirrors a) getSteering" "keeps_world (mirrors a) getFollowUps"
  by (auto simp: keeps_world_def mirrors_def getSteering_def getFollowUps_def poll_steering_def poll_followUps_def
      split: prod.splits)

lemma processEvents_core:
  "agent_untouched c \<Longrightarrow> agent_core (aw_agent (snd (processEvents c e x))) = agent_core (reduce_event e (aw_agent x))"
  by (simp add: agent_untouched_def processEvents_def on_agent_def)

lemma mirrors_invariant:
  assumes "agent_untouched c"
  shows "loop_invariant (mirrors a1) (createLoopConfig c a)"
proof -
  have h: "hooks_keep (\<lambda>x _. agent_core (aw_agent x) = v) c" for v
    using assms unfolding agent_untouched_def by blast
  note d = hooks_keepD [OF h]
  have hm: "hooks_keep (mirrors a1) c"
    unfolding hooks_keep_def by (intro conjI allI impI ballI keeps_mirrors; (rule d | rule d, assumption))
  have sa: "keeps_world (mirrors a1) ((case shouldStopAfterTurn c of Some f \<Rightarrow> f | None \<Rightarrow> (\<lambda>_ x. (Settled False, x))) tx)" for tx
  proof (cases "shouldStopAfterTurn c")
    case (Some f)
    with hooks_keepD(8) [OF hm Some] show ?thesis by simp
  qed (simp add: keeps_world_def)
  have sb: "keeps_world (mirrors a1) (case shouldStopBeforeTurn c of Some f \<Rightarrow> f | None \<Rightarrow> (\<lambda>x. (False, x)))"
  proof (cases "shouldStopBeforeTurn c")
    case (Some f)
    with hooks_keepD(9) [OF hm Some] show ?thesis by simp
  qed (simp add: keeps_world_def)
  have co: "keeps_world (mirrors a1) ((case getContinuationMessages c of Some f \<Rightarrow> f | None \<Rightarrow> (\<lambda>_ x. (Settled [], x))) tx)" for tx
  proof (cases "getContinuationMessages c")
    case (Some f)
    with hooks_keepD(10) [OF hm Some] show ?thesis by simp
  qed (simp add: keeps_world_def)
  have "hooks_keep (mirrors a1) (createLoopConfig c a)"
    using hm sa sb co unfolding hooks_keep_def createLoopConfig_def by simp
  moreover have "mirrors a1 (snd (processEvents c e x)) (es @ [e])" if "mirrors a1 x es" for e x es
    using core_reduce [OF that [unfolded mirrors_def], of e] by (simp add: mirrors_def processEvents_core [OF assms])
  ultimately show ?thesis
    by (simp add: loop_invariant_def createLoopConfig_def keeps_polls)
qed

lemma core_failure:
  assumes "agent_untouched c"
  shows "agent_core (aw_agent (fold (\<lambda>ev y. snd (processEvents c ev y)) evs x)) = agent_core (fold reduce_event evs (aw_agent x))"
proof (induction evs arbitrary: x)
  case (Cons e evs)
  have "agent_core (fold reduce_event evs (aw_agent (snd (processEvents c e x))))
      = agent_core (fold reduce_event evs (reduce_event e (aw_agent x)))"
    by (rule core_fold) (rule processEvents_core [OF assms])
  with Cons.IH show ?case by simp
qed simp

text \<open>
  C7: The agent and the loop agree on the transcript. The agent keeps its own copy of the
  messages and learns of new ones only through the events it is sent, while the loop polls the
  agent's queues. When no listener throws and hooks and listeners leave the agent alone but for its
  queues, a run that returned leaves the agent with its old messages followed by those the loop
  returned, which are the loop's context when no message was started twice; a run that threw leaves
  it with those that ended before and one failed assistant message with the error's text. Either way
  the agent is idle, with no streaming message and no pending tool call.
\<close>

theorem agent_mirrors_loop:
  assumes quiet: "listeners_quiet c" and hooks: "agent_untouched c" and idle: "\<not> ag_activeRun (aw_agent x)"
    and run: "runPromptMessages c d k n prompts skip x = Some res"
  shows "\<exists>y r t. res = Inr y
    \<and> runAgentLoop (createLoopConfig c (begin_run (aw_agent x))) k n prompts (ag_messages (aw_agent x)) (begin_world skip x)
        = Some (r, t)
    \<and> (case r of
        Inr msgs \<Rightarrow> ag_messages (aw_agent y) = ag_messages (aw_agent x) @ msgs
          \<and> (length (message_starts (trace t)) = length msgs \<longrightarrow> ag_messages (aw_agent y) = ctx t)
      | Inl e \<Rightarrow> \<exists>am. ag_messages (aw_agent y) = ag_messages (aw_agent x) @ newMessages t @ [Assistant_msg am]
          \<and> failed_turn am \<and> am_errorMessage am = Some (error_text e) \<and> ag_errorMessage (aw_agent y) = Some (error_text e))
    \<and> \<not> ag_activeRun (aw_agent y) \<and> \<not> ag_isStreaming (aw_agent y) \<and> ag_streamingMessage (aw_agent y) = None
    \<and> ag_pendingToolCalls (aw_agent y) = {}"
proof -
  let ?c = "createLoopConfig c (begin_run (aw_agent x))" and ?x = "begin_world skip x" and ?a = "begin_run (aw_agent x)"
  have ax: "aw_agent ?x = ?a" by (simp add: begin_world_def on_agent_def)
  have ms: "ag_messages ?a = ag_messages (aw_agent x)" by (simp add: begin_run_def)
  from run idle obtain r t where rt: "runAgentLoop ?c k n prompts (ag_messages (aw_agent x)) ?x = Some (r, t)"
    and res: "res = Inr (end_of_run c d r (world t))"
    by (auto simp: runPromptMessages_def Let_def ax ms)
  have "mirrors ?a ?x []" by (simp add: mirrors_def ax)
  from run_preserves [OF mirrors_invariant [OF hooks] this rt]
  have m: "agent_core (aw_agent (world t)) = agent_core (fold reduce_event (trace t) ?a)" by (simp add: mirrors_def)
  then have mm: "ag_messages (aw_agent (world t)) = ag_messages (aw_agent x) @ message_ends (trace t)"
    by (simp add: agent_core_def reduce_messages ms)
  have q: "listeners_quiet ?c"
    using quiet by (simp add: listeners_quiet_def createLoopConfig_def processEvents_def)
  note fin = runAgentLoop_done [OF q rt]
  define y where "y = end_of_run c d r (world t)"
  have idle_y: "\<not> ag_activeRun (aw_agent y) \<and> \<not> ag_isStreaming (aw_agent y) \<and> ag_streamingMessage (aw_agent y) = None
    \<and> ag_pendingToolCalls (aw_agent y) = {}"
    by (simp add: y_def end_of_run_def on_agent_def finishRun_def)
  have "case r of
        Inr msgs \<Rightarrow> ag_messages (aw_agent y) = ag_messages (aw_agent x) @ msgs
          \<and> (length (message_starts (trace t)) = length msgs \<longrightarrow> ag_messages (aw_agent y) = ctx t)
      | Inl e \<Rightarrow> \<exists>am. ag_messages (aw_agent y) = ag_messages (aw_agent x) @ newMessages t @ [Assistant_msg am]
          \<and> failed_turn am \<and> am_errorMessage am = Some (error_text e) \<and> ag_errorMessage (aw_agent y) = Some (error_text e)"
  proof (cases r)
    case (Inr msgs)
    with fin mm show ?thesis
      by (simp add: y_def end_of_run_def on_agent_def finishRun_def run_done_def completed_run_def)
  next
    case (Inl e)
    let ?z = "on_agent (\<lambda>a. a\<lparr>ag_errorMessage := Some (error_text e)\<rparr>) (world t)"
    let ?m = "failure_message (aw_agent (world t)) e (signal_aborted c (world t)) d (date_now c (world t))"
    from core_failure [OF hooks, of "[Message_start ?m, Message_end ?m, Agent_end [?m]]" ?z]
    have c: "ag_messages (aw_agent y) = ag_messages (aw_agent (world t)) @ [?m]" "ag_errorMessage (aw_agent y) = Some (error_text e)"
      using Inl by (simp_all add: y_def end_of_run_def Let_def on_agent_def finishRun_def agent_core_def reduce_event_def)
    obtain am where am: "?m = Assistant_msg am" "failed_turn am" "am_errorMessage am = Some (error_text e)"
      by (simp add: failure_message_def failed_turn_def)
    from fin Inl have "message_ends (trace t) = newMessages t" by (simp add: run_done_def thrown_run_def)
    with c mm am Inl show ?thesis by simp
  qed
  with idle_y rt res show ?thesis unfolding y_def by blast
qed

definition sample_agent :: agent where
  "sample_agent = \<lparr>ag_api = ''a'', ag_provider = ''p'', ag_modelId = ''m'', ag_systemPrompt = [],
     ag_messages = [], ag_isStreaming = False, ag_streamingMessage = None, ag_pendingToolCalls = {},
     ag_errorMessage = None, ag_steering = new_queue One_at_a_time, ag_followUp = new_queue One_at_a_time,
     ag_activeRun = False\<rparr>"

definition sample_world :: "nat agent_world" where
  "sample_world = \<lparr>aw_agent = sample_agent\<lparr>ag_steering := \<lparr>q_mode = One_at_a_time, q_batches = [[sample_prompt]]\<rparr>\<rparr>,
     aw_skip = False, aw_env = 0\<rparr>"

text \<open>A provider that answers with a text; the run also takes up the queued message.\<close>

definition sample_options :: "nat agent_world config" where
  "sample_options = \<lparr>cfg_api = [], cfg_provider = [], cfg_modelId = [], cfg_apiKey = None,
     cfg_systemPrompt = [], cfg_tools = [], cfg_sequential = False, transformContext = None,
     convertLlm = (\<lambda>ms w. (Settled (convertToLlm ms), w)), getSystemPrompt = None, getApiKey = None,
     streamFn = (\<lambda>_ _ w. (Settled 0, w)),
     response_next = (\<lambda>_ w. (Settled (Some (Ev_done Stop (sample_answer 2))), w)),
     response_close = (\<lambda>_ w. w), response_result = (\<lambda>_ w. (Settled (sample_answer 2), w)),
     shouldStopAfterTurn = None, shouldStopBeforeTurn = None, getSteeringMessages = None,
     getFollowUpMessages = None, getContinuationMessages = None, beforeToolCall = None, afterToolCall = None,
     emit_event = (\<lambda>_ w. (None, w)), signal_aborted = (\<lambda>_. False), date_now = (\<lambda>_. NaN), pick = (\<lambda>_. 0)\<rparr>"

lemma sample_agent_run:
  "\<exists>y. runPromptMessages sample_options [] 3 3 [sample_prompt] False sample_world = Some (Inr y)
     \<and> ag_messages (aw_agent y) = [sample_prompt, sample_prompt, Assistant_msg (sample_answer 2)]
     \<and> \<not> hasQueuedMessages (aw_agent y)"
  by (simp add: runPromptMessages_def loop_eval createLoopConfig_def sample_options_def sample_world_def sample_agent_def
      begin_world_def begin_run_def on_agent_def processEvents_def getSteering_def getFollowUps_def poll_steering_def
      poll_followUps_def q_drain_def new_queue_def sample_answer_def sample_assistant_def end_of_run_def finishRun_def
      reduce_event_def sample_prompt_def hasQueuedMessages_def q_hasItems_def numeral_eq_Suc)

lemma agent_mirrors_loop_witness:
  "\<exists>y r t. runPromptMessages sample_options [] 3 3 [sample_prompt] False sample_world = Some (Inr y)
    \<and> runAgentLoop (createLoopConfig sample_options (begin_run (aw_agent sample_world))) 3 3 [sample_prompt]
        (ag_messages (aw_agent sample_world)) (begin_world False sample_world) = Some (r, t)
    \<and> ag_messages (aw_agent y) = [sample_prompt, sample_prompt, Assistant_msg (sample_answer 2)]
    \<and> \<not> ag_activeRun (aw_agent y)"
proof -
  obtain y where y: "runPromptMessages sample_options [] 3 3 [sample_prompt] False sample_world = Some (Inr y)"
    "ag_messages (aw_agent y) = [sample_prompt, sample_prompt, Assistant_msg (sample_answer 2)]"
    using sample_agent_run by blast
  have q: "listeners_quiet sample_options" by (simp add: listeners_quiet_def sample_options_def)
  have u: "agent_untouched sample_options"
    by (simp add: agent_untouched_def hooks_keep_def keeps_world_def sample_options_def)
  have i: "\<not> ag_activeRun (aw_agent sample_world)" by (simp add: sample_world_def sample_agent_def)
  from agent_mirrors_loop [OF q u i y(1)] y show ?thesis by auto
qed



text \<open>
  Pending messages are first in, first out. Over any sequence of enqueued batches and
  drains, in either mode, what the drains returned followed by what is still queued is what was
  queued followed by what came in: nothing is lost, duplicated or reordered.
\<close>

lemma pending_messages_fifo:
  assumes "wf_queue q" and "message_fifo.run_ops ops q = (out, q')"
  shows "wf_queue q' \<and> q_contents q @ message_fifo.inputs ops = out @ q_contents q'"
  by (rule message_fifo.run_ops_fifo [OF assms])

lemma wf_queue_empty: "wf_queue q \<Longrightarrow> q_contents q = [] \<Longrightarrow> \<not> q_hasItems q"
  by (cases "q_batches q") (auto simp: wf_queue_def q_contents_def q_hasItems_def)

text \<open>What a run on queued messages takes out of the queues.\<close>

lemma runQueuedMessages_takes:
  assumes wf: "wf_queue (ag_steering a)" "wf_queue (ag_followUp a)" and rq: "runQueuedMessages a = (r0, a1)"
  shows "(case r0 of None \<Rightarrow> \<not> hasQueuedMessages a
        \<and> q_contents (ag_steering a1) = q_contents (ag_steering a) \<and> q_contents (ag_followUp a1) = q_contents (ag_followUp a)
    | Some (Run_prompts ms skip) \<Rightarrow> ms \<noteq> []
        \<and> (if skip then q_contents (ag_steering a) = ms @ q_contents (ag_steering a1) \<and> ag_followUp a1 = ag_followUp a
           else q_contents (ag_steering a) = [] \<and> q_contents (ag_followUp a) = ms @ q_contents (ag_followUp a1))
    | Some Run_continuation \<Rightarrow> False) \<and> ag_messages a1 = ag_messages a"
proof -
  obtain ms1 q1 where d1: "q_drain (ag_steering a) = (ms1, q1)" by fastforce
  obtain ms2 q2 where d2: "q_drain (ag_followUp a) = (ms2, q2)" by fastforce
  note s = q_drain_laws [OF wf(1) d1] and f = q_drain_laws [OF wf(2) d2]
  have run: "(r0, a1) = (if ms1 \<noteq> [] then (Some (Run_prompts ms1 True), a\<lparr>ag_steering := q1\<rparr>)
      else (if ms2 \<noteq> [] then Some (Run_prompts ms2 False) else None, a\<lparr>ag_steering := q1, ag_followUp := q2\<rparr>))"
    using rq by (auto simp: runQueuedMessages_def d1 d2 Let_def split: if_splits)
  consider "ms1 \<noteq> []" | "ms1 = []" "ms2 \<noteq> []" | "ms1 = []" "ms2 = []" by blast
  then show ?thesis
  proof cases
    case 1
    then show ?thesis using run s(2) by simp
  next
    case 2
    then have "q_contents (ag_steering a) = []" using s(3) by blast
    then show ?thesis using 2 run f(2) by simp
  next
    case 3
    then have e: "q_contents (ag_steering a) = []" "q_contents (ag_followUp a) = []" using s(3) f(3) by blast+
    then have "\<not> hasQueuedMessages a"
      unfolding hasQueuedMessages_def using wf_queue_empty [OF wf(1)] wf_queue_empty [OF wf(2)] by blast
    then show ?thesis using 3 run e s(2) f(2) by simp
  qed
qed

text \<open>\<open>continue\<close> of an idle agent by the last message.\<close>

definition continues_only :: "agent \<Rightarrow> bool" where
  "continues_only a = (ag_messages a = [] \<or> is_assistant (last (ag_messages a)))"

lemma agent_continue_idle:
  assumes "\<not> ag_activeRun a" "runQueuedMessages a = (r0, a1)"
  defines "custom \<equiv> \<exists>m. ag_messages a \<noteq> [] \<and> last (ag_messages a) = Custom_msg m"
  shows "agent_continue a =
     (if continues_only a then (case r0 of Some x \<Rightarrow> (Inr x, a1) | None \<Rightarrow> (Inl Nothing_to_continue, a1))
      else if custom then (case r0 of Some x \<Rightarrow> (Inr x, a1) | None \<Rightarrow> (Inr Run_continuation, a1))
      else (Inr Run_continuation, a))"
  using assms(1,2)
  by (cases "last (ag_messages a)")
     (simp_all add: agent_continue_def continues_only_def custom_def is_assistant_def split: option.splits)

text \<open>
  \<open>continue\<close> starts a run only when it can. While a run is active it fails as busy. A queued
  steering batch comes before a queued follow-up, and only a run on steering messages skips the
  first steering poll. A continuation is started only on a transcript the loop accepts, and
  \<open>continue\<close> fails for want of something to do only with both queues empty.
\<close>

lemma continue_starts_only_valid_runs:
  assumes wf: "wf_queue (ag_steering a)" "wf_queue (ag_followUp a)"
    and cont: "agent_continue a = (r, a')"
  shows "(case r of
      Inl Busy \<Rightarrow> ag_activeRun a \<and> a' = a
    | Inl Nothing_to_continue \<Rightarrow> \<not> ag_activeRun a \<and> \<not> hasQueuedMessages a
        \<and> (ag_messages a = [] \<or> is_assistant (last (ag_messages a)))
    | Inr Run_continuation \<Rightarrow> \<not> ag_activeRun a \<and> ag_messages a \<noteq> [] \<and> \<not> is_assistant (last (ag_messages a))
        \<and> q_contents (ag_steering a') = q_contents (ag_steering a) \<and> q_contents (ag_followUp a') = q_contents (ag_followUp a)
    | Inr (Run_prompts ms skip) \<Rightarrow> \<not> ag_activeRun a \<and> ms \<noteq> []
        \<and> (if skip then q_contents (ag_steering a) = ms @ q_contents (ag_steering a') \<and> ag_followUp a' = ag_followUp a
           else q_contents (ag_steering a) = [] \<and> q_contents (ag_followUp a) = ms @ q_contents (ag_followUp a')))
    \<and> ag_messages a' = ag_messages a"
proof (cases "ag_activeRun a")
  case True
  with cont have "r = Inl Busy" "a' = a" by (auto simp: agent_continue_def)
  with True show ?thesis by simp
next
  case idle: False
  obtain r0 a1 where rq: "runQueuedMessages a = (r0, a1)" by fastforce
  note q = runQueuedMessages_takes [OF wf rq] and form = agent_continue_idle [OF idle rq]
  have ne: "\<not> continues_only a \<Longrightarrow> ag_messages a \<noteq> [] \<and> \<not> is_assistant (last (ag_messages a))" by (simp add: continues_only_def)
  show ?thesis
  proof (cases r0)
    case None
    with q have qn: "\<not> hasQueuedMessages a" "q_contents (ag_steering a1) = q_contents (ag_steering a)"
      "q_contents (ag_followUp a1) = q_contents (ag_followUp a)" "ag_messages a1 = ag_messages a" by simp_all
    show ?thesis
    proof (cases "continues_only a")
      case True
      with cont form None have "r = Inl Nothing_to_continue" "a' = a1" by simp_all
      then show ?thesis using True idle qn(1,4) by (simp add: continues_only_def)
    next
      case False
      with cont form None have "r = Inr Run_continuation" "a' = a1 \<or> a' = a" by (auto split: if_splits)
      then show ?thesis using ne [OF False] idle qn(2,3,4) by auto
    qed
  next
    case (Some x)
    then obtain ms skip where x: "x = Run_prompts ms skip" using q by (cases x) simp_all
    consider "r = Inr x" "a' = a1" | "\<not> continues_only a" "r = Inr Run_continuation" "a' = a"
      using cont form Some by (auto split: if_splits)
    then show ?thesis
    proof cases
      case 1
      then show ?thesis using q idle unfolding Some x by simp
    qed (use ne idle in simp)
  qed
qed

end
