(* ===== verification/Session_Tree.thy ===== *)
theory Session_Tree
  imports Messages
begin

text \<open>
  The session tree: \<open>packages/coding-agent/src/core/session-manager.ts\<close>. A session is a list of
  entries, each naming its parent; the manager keeps it with an index by id, the resolved
  labels, the current leaf and what it knows of the file. Operations receive the id and the
  timestamp they generate, and, where they write, whether the write succeeds. The file is
  absent, holds a list of entries, or is torn by a write that failed.
\<close>

section \<open>Entries\<close>

record compaction_data =
  cd_summary :: string
  cd_firstKeptEntryId :: string
  cd_firstKeptEntryIndex :: "nat option" \<comment> \<open>of the first file version\<close>
  cd_tokensBefore :: int
  cd_details :: "json option"
  cd_fromHook :: bool
  cd_customInstructions :: "string option"
  cd_usage :: "usage option"
  cd_harnessDigest :: "string option"
  cd_harnessStateFingerprint :: "string option"

datatype session_status = Active | Archived | Crash

text \<open>\<open>normalizeSessionStateStatus\<close> maps the names of older files.\<close>

definition normalizeSessionStateStatus :: "string \<Rightarrow> session_status option" where
  "normalizeSessionStateStatus v =
     (if v = ''active'' then Some Active
      else if v = ''archived'' then Some Archived
      else if v = ''crash'' then Some Crash
      else if v = ''hidden'' \<or> v = ''sleep'' then Some Archived
      else None)"

definition status_text :: "session_status \<Rightarrow> string" where
  "status_text st = (case st of Active \<Rightarrow> ''active'' | Archived \<Rightarrow> ''archived'' | Crash \<Rightarrow> ''crash'')"

record git_context =
  gc_repoUrl :: "string option"
  gc_commit :: "string option"
  gc_branch :: "string option"

definition gitContextsEqual :: "git_context \<Rightarrow> git_context \<Rightarrow> bool" where
  "gitContextsEqual a b = (gc_repoUrl a = gc_repoUrl b \<and> gc_commit a = gc_commit b \<and> gc_branch a = gc_branch b)"

datatype entry_data =
    D_message agent_message
  | D_thinking_level_change string
  | D_service_tier_change string
  | D_model_change string string
  | D_compaction compaction_data
  | D_branch_summary string string "json option" bool "usage option" \<comment> \<open>fromId, summary, details, fromHook, usage\<close>
  | D_custom string "json option"
  | D_child_usage_attributed string usage usage "string option" \<comment> \<open>target, child, aggregate, origin\<close>
  | D_custom_message string user_content bool "json option" \<comment> \<open>type, content, display, details\<close>
  | D_label string "string option"
  | D_session_info "string option"
  | D_session_state string
  | D_agent_status string "string option" nat
  | D_git_state git_context

record entry =
  en_id :: string
  en_parentId :: "string option"
  en_timestamp :: string
  en_data :: entry_data

record header =
  hd_version :: "nat option"
  hd_id :: string
  hd_timestamp :: string
  hd_cwd :: string
  hd_parentSession :: "string option"
  hd_rlmDepth :: "nat option"
  hd_git :: "git_context option"

datatype file_entry = Header header | Entry entry

fun entries_of :: "file_entry list \<Rightarrow> entry list" where
  "entries_of [] = []"
| "entries_of (Header _ # es) = entries_of es"
| "entries_of (Entry e # es) = e # entries_of es"

text \<open>A string is falsy when it is empty, so an empty parent id ends a walk.\<close>

fun truthy :: "string option \<Rightarrow> string option" where
  "truthy (Some s) = (if s = [] then None else Some s)"
| "truthy None = None"

definition is_assistant_entry :: "entry \<Rightarrow> bool" where
  "is_assistant_entry e = (case en_data e of D_message (Assistant_msg _) \<Rightarrow> True | _ \<Rightarrow> False)"

text \<open>
  \<open>generateId\<close>: up to a hundred short ids are drawn until one is new, then a long one is used.
\<close>

definition generateId :: "(string \<Rightarrow> bool) \<Rightarrow> string list \<Rightarrow> string \<Rightarrow> string" where
  "generateId has draws full = (case find (\<lambda>i. \<not> has i) (take 100 draws) of Some i \<Rightarrow> i | None \<Rightarrow> full)"

section \<open>Child usage\<close>

definition set_usage :: "usage \<Rightarrow> entry \<Rightarrow> entry" where
  "set_usage u e = (case en_data e of
     D_message (Assistant_msg am) \<Rightarrow> e\<lparr>en_data := D_message (Assistant_msg (am\<lparr>am_usage := cloneUsage u\<rparr>))\<rparr>
   | _ \<Rightarrow> e)"

definition on_entry :: "(entry \<Rightarrow> entry) \<Rightarrow> file_entry \<Rightarrow> file_entry" where
  "on_entry f x = (case x of Header h \<Rightarrow> Header h | Entry e \<Rightarrow> Entry (f e))"

text \<open>
  \<open>applyChildUsageAttributions\<close>: every attribution sets the usage of the assistant entry it
  names. \<open>assistantEntriesById\<close> holds the last assistant entry with an id.
\<close>

definition set_usage_of :: "string \<Rightarrow> usage \<Rightarrow> file_entry list \<Rightarrow> file_entry list" where
  "set_usage_of target u es =
     map (on_entry (\<lambda>e. if en_id e = target \<and> is_assistant_entry e then set_usage u e else e)) es"

definition apply_attribution :: "entry \<Rightarrow> file_entry list \<Rightarrow> file_entry list" where
  "apply_attribution e es = (case en_data e of
     D_child_usage_attributed target child aggregate origin \<Rightarrow> set_usage_of target aggregate es
   | _ \<Rightarrow> es)"

definition applyChildUsageAttributions :: "file_entry list \<Rightarrow> file_entry list" where
  "applyChildUsageAttributions es = fold apply_attribution (entries_of es) es"

definition finalizeLoadedEntries :: "file_entry list \<Rightarrow> file_entry list" where
  "finalizeLoadedEntries es = (case es of
     Header h # _ \<Rightarrow> applyChildUsageAttributions es | _ \<Rightarrow> [])"

section \<open>The manager\<close>

datatype disk = Absent | Content "file_entry list" | Torn

record session =
  sm_entries :: "file_entry list"
  sm_byId :: "string \<rightharpoonup> entry"
  sm_labels :: "string \<rightharpoonup> string"
  sm_labelTimes :: "string \<rightharpoonup> string"
  sm_leaf :: "string option"
  sm_hasAssistant :: bool
  sm_persist :: bool
  sm_flushed :: bool
  sm_disk :: disk

datatype session_error = Entry_not_found string | Assistant_not_found string | Write_failed

type_synonym 'a sm_result = "(session_error + 'a) \<times> session"

definition has_assistant :: "file_entry list \<Rightarrow> bool" where
  "has_assistant es = list_ex is_assistant_entry (entries_of es)"

definition refreshHasAssistantEntry :: "session \<Rightarrow> session" where
  "refreshHasAssistantEntry s = s\<lparr>sm_hasAssistant := has_assistant (sm_entries s)\<rparr>"

definition index_entry :: "entry \<Rightarrow> session \<Rightarrow> session" where
  "index_entry e s =
     (let s1 = s\<lparr>sm_byId := (sm_byId s)(en_id e \<mapsto> e), sm_leaf := Some (en_id e)\<rparr> in
      case en_data e of
        D_label target label \<Rightarrow> (case truthy label of
            Some l \<Rightarrow> s1\<lparr>sm_labels := (sm_labels s1)(target \<mapsto> l),
                         sm_labelTimes := (sm_labelTimes s1)(target \<mapsto> en_timestamp e)\<rparr>
          | None \<Rightarrow> s1\<lparr>sm_labels := (sm_labels s1)(target := None),
                       sm_labelTimes := (sm_labelTimes s1)(target := None)\<rparr>)
      | _ \<Rightarrow> s1)"

definition buildIndex :: "session \<Rightarrow> session" where
  "buildIndex s = fold index_entry (entries_of (sm_entries s))
     (s\<lparr>sm_byId := Map.empty, sm_labels := Map.empty, sm_labelTimes := Map.empty, sm_leaf := None\<rparr>)"

definition newSession :: "header \<Rightarrow> session \<Rightarrow> session" where
  "newSession h s = s\<lparr>sm_entries := [Header h], sm_hasAssistant := False, sm_byId := Map.empty,
     sm_labels := Map.empty, sm_labelTimes := Map.empty, sm_leaf := None, sm_flushed := False\<rparr>"

text \<open>
  \<open>io\<close> says whether the write succeeds. \<open>writeFileAtomicSync\<close> renames a finished file, so a rewrite
  that fails leaves the file as it was; an append that fails (\<open>persist_entry\<close>) leaves it torn.
\<close>

definition rewriteFile :: "bool \<Rightarrow> session \<Rightarrow> unit sm_result" where
  "rewriteFile io s =
     (if \<not> sm_persist s then (Inr (), s)
      else if io then (Inr (), s\<lparr>sm_disk := Content (sm_entries s)\<rparr>)
      else (Inl Write_failed, s))"

definition persist_entry :: "bool \<Rightarrow> entry \<Rightarrow> session \<Rightarrow> unit sm_result" where
  "persist_entry io e s =
     (if \<not> sm_persist s then (Inr (), s)
      else if \<not> sm_hasAssistant s
         \<and> \<not> (case en_data e of D_session_state _ \<Rightarrow> True | D_session_info _ \<Rightarrow> True | _ \<Rightarrow> False)
      then (Inr (), s\<lparr>sm_flushed := False\<rparr>)
      else if \<not> sm_flushed s \<or> sm_disk s = Absent then
        (case rewriteFile io s of
           (Inl x, s1) \<Rightarrow> (Inl x, s1)
         | (Inr _, s1) \<Rightarrow> (Inr (), s1\<lparr>sm_flushed := True\<rparr>))
      else if io then
        (Inr (), s\<lparr>sm_disk := (case sm_disk s of Content d \<Rightarrow> Content (d @ [Entry e]) | x \<Rightarrow> x)\<rparr>)
      else (Inl Write_failed, s\<lparr>sm_disk := Torn\<rparr>))"

definition flushNow :: "bool \<Rightarrow> session \<Rightarrow> unit sm_result" where
  "flushNow io s =
     (if \<not> sm_persist s then (Inr (), s)
      else if sm_flushed s \<and> sm_disk s \<noteq> Absent then (Inr (), s)
      else case rewriteFile io s of
        (Inl x, s1) \<Rightarrow> (Inl x, s1)
      | (Inr _, s1) \<Rightarrow> (Inr (), s1\<lparr>sm_flushed := True\<rparr>))"

definition appendEntry :: "bool \<Rightarrow> entry \<Rightarrow> session \<Rightarrow> unit sm_result" where
  "appendEntry io e s =
     persist_entry io e (s\<lparr>sm_entries := sm_entries s @ [Entry e],
       sm_hasAssistant := (sm_hasAssistant s \<or> is_assistant_entry e),
       sm_byId := (sm_byId s)(en_id e \<mapsto> e), sm_leaf := Some (en_id e)\<rparr>)"

text \<open>The common shape of the append operations: the new entry is a child of the leaf.\<close>

definition append_data :: "bool \<Rightarrow> string \<Rightarrow> string \<Rightarrow> entry_data \<Rightarrow> session \<Rightarrow> string sm_result" where
  "append_data io i ts d s =
     (case appendEntry io \<lparr>en_id = i, en_parentId = sm_leaf s, en_timestamp = ts, en_data = d\<rparr> s of
        (Inl x, s1) \<Rightarrow> (Inl x, s1) | (Inr _, s1) \<Rightarrow> (Inr i, s1))"

definition appendMessage :: "bool \<Rightarrow> string \<Rightarrow> string \<Rightarrow> agent_message \<Rightarrow> session \<Rightarrow> string sm_result" where
  "appendMessage io i ts m = append_data io i ts (D_message m)"

definition appendThinkingLevelChange :: "bool \<Rightarrow> string \<Rightarrow> string \<Rightarrow> string \<Rightarrow> session \<Rightarrow> string sm_result" where
  "appendThinkingLevelChange io i ts lv = append_data io i ts (D_thinking_level_change lv)"

definition appendServiceTierChange :: "bool \<Rightarrow> string \<Rightarrow> string \<Rightarrow> string \<Rightarrow> session \<Rightarrow> string sm_result" where
  "appendServiceTierChange io i ts tier = append_data io i ts (D_service_tier_change tier)"

definition appendModelChange :: "bool \<Rightarrow> string \<Rightarrow> string \<Rightarrow> string \<Rightarrow> string \<Rightarrow> session \<Rightarrow> string sm_result" where
  "appendModelChange io i ts provider model = append_data io i ts (D_model_change provider model)"

definition appendCompaction :: "bool \<Rightarrow> string \<Rightarrow> string \<Rightarrow> compaction_data \<Rightarrow> session \<Rightarrow> string sm_result" where
  "appendCompaction io i ts c = append_data io i ts (D_compaction c)"

definition appendCustomEntry :: "bool \<Rightarrow> string \<Rightarrow> string \<Rightarrow> string \<Rightarrow> json option \<Rightarrow> session \<Rightarrow> string sm_result" where
  "appendCustomEntry io i ts ty d = append_data io i ts (D_custom ty d)"

text \<open>The target object is shared by the list and the index, so both see its new usage.\<close>

definition appendChildUsageAttribution ::
    "bool \<Rightarrow> string \<Rightarrow> string \<Rightarrow> string \<Rightarrow> usage \<Rightarrow> usage \<Rightarrow> string option \<Rightarrow> session \<Rightarrow> string sm_result" where
  "appendChildUsageAttribution io i ts target child aggregate origin s = (case sm_byId s target of
     None \<Rightarrow> (Inl (Assistant_not_found target), s)
   | Some e \<Rightarrow>
       if \<not> is_assistant_entry e then (Inl (Assistant_not_found target), s)
       else append_data io i ts (D_child_usage_attributed target (cloneUsage child) (cloneUsage aggregate) origin)
         (s\<lparr>sm_entries := set_usage_of target aggregate (sm_entries s),
            sm_byId := (sm_byId s)(target \<mapsto> set_usage aggregate e)\<rparr>))"

text \<open>\<open>trim\<close> removes white space at both ends.\<close>

definition is_space :: "char \<Rightarrow> bool" where
  "is_space c = (of_char c \<in> {9, 10, 11, 12, 13, 32, 160 :: nat})"

definition trim :: "string \<Rightarrow> string" where
  "trim s = rev (dropWhile is_space (rev (dropWhile is_space s)))"

definition appendSessionInfo :: "bool \<Rightarrow> string \<Rightarrow> string \<Rightarrow> string \<Rightarrow> session \<Rightarrow> string sm_result" where
  "appendSessionInfo io i ts name = append_data io i ts (D_session_info (Some (trim name)))"

definition appendSessionState :: "bool \<Rightarrow> string \<Rightarrow> string \<Rightarrow> session_status \<Rightarrow> session \<Rightarrow> string sm_result" where
  "appendSessionState io i ts st = append_data io i ts (D_session_state (status_text st))"

definition appendAgentStatus ::
    "bool \<Rightarrow> string \<Rightarrow> string \<Rightarrow> string \<Rightarrow> string option \<Rightarrow> nat \<Rightarrow> session \<Rightarrow> string sm_result" where
  "appendAgentStatus io i ts summary taskState n = append_data io i ts (D_agent_status summary taskState n)"

definition appendGitState :: "bool \<Rightarrow> string \<Rightarrow> string \<Rightarrow> git_context \<Rightarrow> session \<Rightarrow> string sm_result" where
  "appendGitState io i ts g = append_data io i ts (D_git_state g)"

definition appendCustomMessageEntry ::
    "bool \<Rightarrow> string \<Rightarrow> string \<Rightarrow> string \<Rightarrow> user_content \<Rightarrow> bool \<Rightarrow> json option \<Rightarrow> session \<Rightarrow> string sm_result" where
  "appendCustomMessageEntry io i ts ty content display details =
     append_data io i ts (D_custom_message ty content display details)"

definition appendLabelChange ::
    "bool \<Rightarrow> string \<Rightarrow> string \<Rightarrow> string \<Rightarrow> string option \<Rightarrow> session \<Rightarrow> string sm_result" where
  "appendLabelChange io i ts target label s =
     (if sm_byId s target = None then (Inl (Entry_not_found target), s)
      else case append_data io i ts (D_label target label) s of
        (Inl x, s1) \<Rightarrow> (Inl x, s1)
      | (Inr _, s1) \<Rightarrow> (case truthy label of
          Some l \<Rightarrow> (Inr i, s1\<lparr>sm_labels := (sm_labels s1)(target \<mapsto> l),
                               sm_labelTimes := (sm_labelTimes s1)(target \<mapsto> ts)\<rparr>)
        | None \<Rightarrow> (Inr i, s1\<lparr>sm_labels := (sm_labels s1)(target := None),
                             sm_labelTimes := (sm_labelTimes s1)(target := None)\<rparr>)))"

text \<open>
  \<open>appendEntryWithRollback\<close>: \<open>act\<close> is the operation, \<open>io1\<close> and \<open>io2\<close> say whether the flush after
  it and the one that restores the file succeed.
\<close>

definition appendEntryWithRollback ::
    "bool \<Rightarrow> bool \<Rightarrow> (session \<Rightarrow> string sm_result) \<Rightarrow> session \<Rightarrow> string sm_result" where
  "appendEntryWithRollback io1 io2 act s =
     (let attempt = (case act s of
            (Inl x, s1) \<Rightarrow> (Inl x, s1)
          | (Inr i, s1) \<Rightarrow> (case flushNow io1 s1 of (Inl x, s2) \<Rightarrow> (Inl x, s2) | (Inr _, s2) \<Rightarrow> (Inr i, s2)))
      in case attempt of
        (Inr i, s1) \<Rightarrow> (Inr i, s1)
      | (Inl x, s1) \<Rightarrow>
          if sm_leaf s1 \<noteq> None \<and> sm_leaf s1 \<noteq> sm_leaf s then
            (let s2 = refreshHasAssistantEntry (s1\<lparr>sm_byId := (sm_byId s1)(the (sm_leaf s1) := None),
                        sm_entries := butlast (sm_entries s1)\<rparr>);
                 s3 = s2\<lparr>sm_leaf := sm_leaf s, sm_flushed := False\<rparr>
             in case flushNow io2 s3 of
                  (Inl _, s4) \<Rightarrow> (Inl x, s4\<lparr>sm_flushed := False\<rparr>)
                | (Inr _, s4) \<Rightarrow> (Inl x, s4))
          else (Inl x, s1))"

definition appendCustomEntryWithRollback ::
    "bool \<Rightarrow> bool \<Rightarrow> bool \<Rightarrow> string \<Rightarrow> string \<Rightarrow> string \<Rightarrow> json option \<Rightarrow> session \<Rightarrow> string sm_result" where
  "appendCustomEntryWithRollback io io1 io2 i ts ty d =
     appendEntryWithRollback io1 io2 (appendCustomEntry io i ts ty d)"

definition appendCustomMessageEntryWithRollback ::
    "bool \<Rightarrow> bool \<Rightarrow> bool \<Rightarrow> string \<Rightarrow> string \<Rightarrow> string \<Rightarrow> user_content \<Rightarrow> bool \<Rightarrow> json option
      \<Rightarrow> session \<Rightarrow> string sm_result" where
  "appendCustomMessageEntryWithRollback io io1 io2 i ts ty content display details =
     appendEntryWithRollback io1 io2 (appendCustomMessageEntry io i ts ty content display details)"

definition branch :: "string \<Rightarrow> session \<Rightarrow> unit sm_result" where
  "branch i s = (if sm_byId s i = None then (Inl (Entry_not_found i), s) else (Inr (), s\<lparr>sm_leaf := Some i\<rparr>))"

definition resetLeaf :: "session \<Rightarrow> session" where
  "resetLeaf s = s\<lparr>sm_leaf := None\<rparr>"

definition branchWithSummary ::
    "bool \<Rightarrow> string \<Rightarrow> string \<Rightarrow> string option \<Rightarrow> string \<Rightarrow> json option \<Rightarrow> bool \<Rightarrow> usage option
      \<Rightarrow> session \<Rightarrow> string sm_result" where
  "branchWithSummary io i ts target summary details fromHook u s =
     (if target \<noteq> None \<and> sm_byId s (the target) = None then (Inl (Entry_not_found (the target)), s)
      else append_data io i ts
        (D_branch_summary (case target of Some f \<Rightarrow> f | None \<Rightarrow> ''root'') summary details fromHook u)
        (s\<lparr>sm_leaf := target\<rparr>))"

section \<open>Branches and context\<close>

text \<open>
  The walk from an entry to its root, \<open>while (current)\<close>, with the entries it passes. None
  means that it did not end within the fuel.
\<close>

fun walk :: "nat \<Rightarrow> (string \<rightharpoonup> entry) \<Rightarrow> string option \<Rightarrow> entry list option" where
  "walk n m None = Some []"
| "walk 0 m (Some i) = None"
| "walk (Suc n) m (Some i) = (case m i of
     None \<Rightarrow> Some []
   | Some e \<Rightarrow> map_option (Cons e) (walk n m (truthy (en_parentId e))))"

definition getBranch :: "nat \<Rightarrow> string option \<Rightarrow> session \<Rightarrow> entry list option" where
  "getBranch n fromId s =
     map_option rev (walk n (sm_byId s) (truthy (case fromId of Some i \<Rightarrow> Some i | None \<Rightarrow> sm_leaf s)))"

definition getEntries :: "session \<Rightarrow> entry list" where
  "getEntries s = entries_of (sm_entries s)"

text \<open>\<open>byId.values()\<close>: a JavaScript map lists its keys in the order of their first insertion.\<close>

definition byId_values :: "session \<Rightarrow> entry list" where
  "byId_values s = List.map_filter (sm_byId s) (rev (remdups (rev (map en_id (getEntries s)))))"

definition getChildren :: "string \<Rightarrow> session \<Rightarrow> entry list" where
  "getChildren parent s = filter (\<lambda>e. en_parentId e = Some parent) (byId_values s)"

definition getHeader :: "session \<Rightarrow> header option" where
  "getHeader s = (case find (\<lambda>x. case x of Header _ \<Rightarrow> True | _ \<Rightarrow> False) (sm_entries s) of
     Some (Header h) \<Rightarrow> Some h | _ \<Rightarrow> None)"

definition getFlatTree :: "session \<Rightarrow> (entry \<times> string option \<times> string option) list" where
  "getFlatTree s = map (\<lambda>e. (e, sm_labels s (en_id e), sm_labelTimes s (en_id e))) (getEntries s)"

definition getLabel :: "string \<Rightarrow> session \<Rightarrow> string option" where
  "getLabel i s = sm_labels s i"

definition getLeafEntry :: "session \<Rightarrow> entry option" where
  "getLeafEntry s = (case truthy (sm_leaf s) of Some i \<Rightarrow> sm_byId s i | None \<Rightarrow> None)"

definition getSessionName :: "session \<Rightarrow> string option" where
  "getSessionName s =
     (case find (\<lambda>e. case en_data e of D_session_info _ \<Rightarrow> True | _ \<Rightarrow> False) (rev (getEntries s)) of
        Some e \<Rightarrow> (case en_data e of D_session_info (Some n) \<Rightarrow> truthy (Some (trim n)) | _ \<Rightarrow> None)
      | None \<Rightarrow> None)"

definition getSessionState :: "session \<Rightarrow> session_status option" where
  "getSessionState s =
     (let found = List.map_filter (\<lambda>e. case en_data e of
            D_session_state st \<Rightarrow> normalizeSessionStateStatus st | _ \<Rightarrow> None) (rev (getEntries s))
      in case found of [] \<Rightarrow> None | st # _ \<Rightarrow> Some st)"

definition is_content_entry :: "entry \<Rightarrow> bool" where
  "is_content_entry e = (case en_data e of
     D_message _ \<Rightarrow> True | D_custom_message _ _ _ _ \<Rightarrow> True | D_custom _ _ \<Rightarrow> True | D_model_change _ _ \<Rightarrow> True
   | D_thinking_level_change _ \<Rightarrow> True | D_service_tier_change _ \<Rightarrow> True | D_session_info _ \<Rightarrow> True
   | D_label _ _ \<Rightarrow> True | D_compaction _ \<Rightarrow> True | D_branch_summary _ _ _ _ _ \<Rightarrow> True | _ \<Rightarrow> False)"

text \<open>\<open>skip_first p xs\<close> is \<open>if (p(xs[start])) start++\<close> on the rest of a list.\<close>

definition skip_first :: "('a \<Rightarrow> bool) \<Rightarrow> 'a list \<Rightarrow> 'a list" where
  "skip_first p xs = (case xs of [] \<Rightarrow> [] | x # rest \<Rightarrow> if p x then rest else xs)"

definition hasUserContent :: "session \<Rightarrow> bool" where
  "hasUserContent s =
     (let content = filter is_content_entry (getEntries s);
          c1 = skip_first (\<lambda>e. case en_data e of D_model_change _ _ \<Rightarrow> True | _ \<Rightarrow> False) content;
          c2 = skip_first (\<lambda>e. case en_data e of D_thinking_level_change _ \<Rightarrow> True | _ \<Rightarrow> False) c1;
          c3 = skip_first (\<lambda>e. case en_data e of D_service_tier_change _ \<Rightarrow> True | _ \<Rightarrow> False) c2
      in 0 < length c3)"

definition getLatestAgentStatus :: "nat \<Rightarrow> session \<Rightarrow> (string \<times> string option \<times> nat) option option" where
  "getLatestAgentStatus n s = map_option (\<lambda>path.
     (case find (\<lambda>e. case en_data e of D_agent_status _ _ _ \<Rightarrow> True | _ \<Rightarrow> False) path of
        Some e \<Rightarrow> (case en_data e of D_agent_status x t k \<Rightarrow> Some (x, t, k) | _ \<Rightarrow> None)
      | None \<Rightarrow> None)) (walk n (sm_byId s) (truthy (sm_leaf s)))"

text \<open>The last git state on the branch, else the one of the header.\<close>

definition getActiveGitContext :: "nat \<Rightarrow> session \<Rightarrow> git_context option option" where
  "getActiveGitContext n s = map_option (\<lambda>path.
     (case find (\<lambda>e. case en_data e of D_git_state _ \<Rightarrow> True | _ \<Rightarrow> False) path of
        Some e \<Rightarrow> (case en_data e of D_git_state g \<Rightarrow> Some g | _ \<Rightarrow> None)
      | None \<Rightarrow> (case sm_entries s of Header h # _ \<Rightarrow> hd_git h | _ \<Rightarrow> None)))
     (walk n (sm_byId s) (truthy (sm_leaf s)))"

text \<open>\<open>captured\<close> is what \<open>captureGitContext\<close> reports for the working directory.\<close>

definition recordGitStateIfChanged ::
    "nat \<Rightarrow> bool \<Rightarrow> string \<Rightarrow> string \<Rightarrow> git_context option \<Rightarrow> session \<Rightarrow> string option sm_result option" where
  "recordGitStateIfChanged n io i ts captured s =
     (if \<not> sm_persist s then Some (Inr None, s)
      else case captured of
        None \<Rightarrow> Some (Inr None, s)
      | Some g \<Rightarrow> map_option (\<lambda>active.
          if (case active of Some l \<Rightarrow> gitContextsEqual l g | None \<Rightarrow> False) then (Inr None, s)
          else case appendGitState io i ts g s of
            (Inl x, s1) \<Rightarrow> (Inl x, s1) | (Inr j, s1) \<Rightarrow> (Inr (Some j), s1))
          (getActiveGitContext n s))"

definition getLatestCompactionEntry :: "entry list \<Rightarrow> entry option" where
  "getLatestCompactionEntry es =
     find (\<lambda>e. case en_data e of D_compaction _ \<Rightarrow> True | _ \<Rightarrow> False) (rev es)"

record session_context =
  sc_messages :: "agent_message list"
  sc_thinkingLevel :: string
  sc_serviceTier :: string
  sc_model :: "(string \<times> string) option"

definition empty_context :: session_context where
  "empty_context = \<lparr>sc_messages = [], sc_thinkingLevel = ''off'', sc_serviceTier = ''default'', sc_model = None\<rparr>"

text \<open>The settings a path leaves, and its last compaction.\<close>

definition settings_step :: "entry \<Rightarrow> session_context \<times> entry option \<Rightarrow> session_context \<times> entry option" where
  "settings_step e x = (case x of (c, latest) \<Rightarrow> (case en_data e of
     D_thinking_level_change lv \<Rightarrow> (c\<lparr>sc_thinkingLevel := lv\<rparr>, latest)
   | D_service_tier_change t \<Rightarrow> (c\<lparr>sc_serviceTier := t\<rparr>, latest)
   | D_model_change p m \<Rightarrow> (c\<lparr>sc_model := Some (p, m)\<rparr>, latest)
   | D_message (Assistant_msg am) \<Rightarrow> (c\<lparr>sc_model := Some (am_provider am, am_model am)\<rparr>, latest)
   | D_compaction _ \<Rightarrow> (c, Some e)
   | _ \<Rightarrow> (c, latest)))"

text \<open>\<open>appendMessage\<close> of \<open>buildSessionContext\<close>; \<open>date\<close> is \<open>new Date(_).getTime()\<close>.\<close>

definition entry_messages :: "(string \<Rightarrow> jsnumber) \<Rightarrow> entry \<Rightarrow> agent_message list" where
  "entry_messages date e = (case en_data e of
     D_message m \<Rightarrow> [m]
   | D_custom_message ty content display details \<Rightarrow>
       [createCustomMessage date ty content display details (en_timestamp e)]
   | D_branch_summary fromId summary _ _ _ \<Rightarrow>
       (if summary = [] then [] else [createBranchSummaryMessage date summary fromId (en_timestamp e)])
   | _ \<Rightarrow> [])"

definition is_compaction :: "string \<Rightarrow> entry \<Rightarrow> bool" where
  "is_compaction i e = ((case en_data e of D_compaction _ \<Rightarrow> True | _ \<Rightarrow> False) \<and> en_id e = i)"

definition context_messages :: "(string \<Rightarrow> jsnumber) \<Rightarrow> entry list \<Rightarrow> entry option \<Rightarrow> agent_message list" where
  "context_messages date path latest = (case latest of
     None \<Rightarrow> concat (map (entry_messages date) path)
   | Some ce \<Rightarrow> (case en_data ce of
       D_compaction c \<Rightarrow>
         (let k = (case find_index (is_compaction (en_id ce)) path of Some k \<Rightarrow> k | None \<Rightarrow> 0);
              retained = concat (map (entry_messages date)
                (dropWhile (\<lambda>e. en_id e \<noteq> cd_firstKeptEntryId c) (take k path)))
          in createCompactionSummaryMessage date (cd_summary c) (cd_tokensBefore c) (en_timestamp ce)
               (cd_customInstructions c) (Some (length retained)) (cd_harnessDigest c)
               (cd_harnessStateFingerprint c)
             # retained @ concat (map (entry_messages date) (drop (Suc k) path)))
     | _ \<Rightarrow> []))"

definition context_of_path :: "(string \<Rightarrow> jsnumber) \<Rightarrow> entry list \<Rightarrow> session_context" where
  "context_of_path date path =
     (let (c, latest) = fold settings_step path (empty_context, None)
      in c\<lparr>sc_messages := context_messages date path latest\<rparr>)"

text \<open>
  \<open>buildSessionContext\<close>: the outer option of \<open>leafId\<close> is \<open>undefined\<close>, the inner one \<open>null\<close>.
\<close>

definition buildSessionContext ::
    "nat \<Rightarrow> (string \<Rightarrow> jsnumber) \<Rightarrow> entry list \<Rightarrow> string option option \<Rightarrow> (string \<rightharpoonup> entry)
      \<Rightarrow> session_context option" where
  "buildSessionContext n date es leafId m =
     (if leafId = Some None then Some empty_context
      else let found = (case leafId of
              Some (Some i) \<Rightarrow> (if i = [] then None else m i) | _ \<Rightarrow> None);
            leaf = (case found of Some e \<Rightarrow> Some e
                    | None \<Rightarrow> (if es = [] then None else Some (last es)))
        in case leaf of
          None \<Rightarrow> Some empty_context
        | Some e \<Rightarrow> map_option (\<lambda>up. context_of_path date (rev (e # up))) (walk n m (truthy (en_parentId e))))"

definition manager_context :: "nat \<Rightarrow> (string \<Rightarrow> jsnumber) \<Rightarrow> session \<Rightarrow> session_context option" where
  "manager_context n date s = buildSessionContext n date (getEntries s) (Some (sm_leaf s)) (sm_byId s)"

section \<open>Branched sessions\<close>

definition is_label :: "entry \<Rightarrow> bool" where
  "is_label e = (case en_data e of D_label _ _ \<Rightarrow> True | _ \<Rightarrow> False)"

text \<open>The chain of label entries that is put behind the copied path.\<close>

fun label_chain :: "(string set \<Rightarrow> string) \<Rightarrow> string set \<Rightarrow> string option \<Rightarrow> (string \<times> string \<times> string) list \<Rightarrow> entry list" where
  "label_chain fresh used parent [] = []"
| "label_chain fresh used parent ((target, label, ts) # rest) =
     (let i = fresh used;
          e = \<lparr>en_id = i, en_parentId = parent, en_timestamp = ts, en_data = D_label target (Some label)\<rparr>
      in e # label_chain fresh (insert i used) (Some i) rest)"

text \<open>
  \<open>createBranchedSession\<close>: \<open>fresh\<close> is \<open>generateId\<close>, \<open>order\<close> the labelled ids in the order of the
  map of labels.
\<close>

definition createBranchedSession ::
    "nat \<Rightarrow> header \<Rightarrow> (string set \<Rightarrow> string) \<Rightarrow> string list \<Rightarrow> bool \<Rightarrow> string \<Rightarrow> session \<Rightarrow> unit sm_result option" where
  "createBranchedSession n h fresh order io leaf s = (case getBranch n (Some leaf) s of
     None \<Rightarrow> None
   | Some path \<Rightarrow> Some (
       if path = [] then (Inl (Entry_not_found leaf), s)
       else let kept = filter (\<lambda>e. \<not> is_label e) path;
                ids = set (map en_id kept);
                labels = concat (map (\<lambda>t. case (sm_labels s t, sm_labelTimes s t) of
                  (Some l, Some ts) \<Rightarrow> (if t \<in> ids then [(t, l, ts)] else []) | _ \<Rightarrow> []) order);
                parent = (if kept = [] then None else truthy (Some (en_id (last kept))));
                es = Header h # map Entry kept @ map Entry (label_chain fresh ids parent labels);
                s1 = buildIndex (refreshHasAssistantEntry (s\<lparr>sm_entries := es\<rparr>))
            in if \<not> sm_persist s then (Inr (), s1)
               else let s2 = s1\<lparr>sm_disk := Absent\<rparr> in
                 if sm_hasAssistant s2 then
                   (case rewriteFile io s2 of
                      (Inl x, s3) \<Rightarrow> (Inl x, s3) | (Inr _, s3) \<Rightarrow> (Inr (), s3\<lparr>sm_flushed := True\<rparr>))
                 else (Inr (), s2\<lparr>sm_flushed := False\<rparr>)))"

section \<open>Older file versions\<close>

text \<open>
  \<open>migrateV1ToV2\<close> goes through the array in place: \<open>draws k\<close> are the short ids drawn for entry k.
  The set of ids it checks them against stays empty.
\<close>

definition set_entry :: "nat \<Rightarrow> entry \<Rightarrow> file_entry list \<Rightarrow> file_entry list" where
  "set_entry k e es = es[k := Entry e]"

definition relink_compaction :: "file_entry list \<Rightarrow> entry_data \<Rightarrow> entry_data" where
  "relink_compaction es d = (case d of
     D_compaction c \<Rightarrow> (case cd_firstKeptEntryIndex c of
         None \<Rightarrow> d
       | Some j \<Rightarrow>
           D_compaction ((if j < length es then
               (case es ! j of Entry t \<Rightarrow> c\<lparr>cd_firstKeptEntryId := en_id t\<rparr> | Header _ \<Rightarrow> c)
             else c)\<lparr>cd_firstKeptEntryIndex := None\<rparr>))
   | _ \<Rightarrow> d)"

definition migrate_step ::
    "(nat \<Rightarrow> string list) \<Rightarrow> nat \<Rightarrow> file_entry list \<times> string option \<Rightarrow> file_entry list \<times> string option" where
  "migrate_step draws k x = (case x of (es, prev) \<Rightarrow> (case es ! k of
     Header h \<Rightarrow> (es[k := Header (h\<lparr>hd_version := Some 2\<rparr>)], prev)
   | Entry e \<Rightarrow>
       (let i = generateId (\<lambda>_. False) (draws k) [];
            e1 = e\<lparr>en_id := i, en_parentId := prev\<rparr>;
            es1 = set_entry k e1 es
        in (set_entry k (e1\<lparr>en_data := relink_compaction es1 (en_data e1)\<rparr>) es1, Some i))))"

definition migrateV1ToV2 :: "(nat \<Rightarrow> string list) \<Rightarrow> file_entry list \<Rightarrow> file_entry list" where
  "migrateV1ToV2 draws es = fst (fold (migrate_step draws) [0..<length es] (es, None))"

text \<open>
  \<open>migrateV2ToV3\<close>. \<open>rename_role\<close> stands for turning the role hookMessage into custom, which is
  a no-op on the messages of the present file version.
\<close>

definition migrateV2ToV3 :: "(agent_message \<Rightarrow> agent_message) \<Rightarrow> file_entry list \<Rightarrow> file_entry list" where
  "migrateV2ToV3 rename_role es = map (\<lambda>x. case x of
     Header h \<Rightarrow> Header (h\<lparr>hd_version := Some 3\<rparr>)
   | Entry e \<Rightarrow> (case en_data e of
       D_message m \<Rightarrow> Entry (e\<lparr>en_data := D_message (rename_role m)\<rparr>) | _ \<Rightarrow> Entry e)) es"

definition CURRENT_SESSION_VERSION :: nat where "CURRENT_SESSION_VERSION = 3"

definition file_version :: "file_entry list \<Rightarrow> nat" where
  "file_version es = (case find (\<lambda>x. case x of Header _ \<Rightarrow> True | _ \<Rightarrow> False) es of
     Some (Header h) \<Rightarrow> (case hd_version h of Some v \<Rightarrow> v | None \<Rightarrow> 1) | _ \<Rightarrow> 1)"

definition migrateToCurrentVersion ::
    "(nat \<Rightarrow> string list) \<Rightarrow> (agent_message \<Rightarrow> agent_message) \<Rightarrow> file_entry list \<Rightarrow> bool \<times> file_entry list" where
  "migrateToCurrentVersion draws rename_role es =
     (let v = file_version es in
      if CURRENT_SESSION_VERSION \<le> v then (False, es)
      else let es1 = (if v < 2 then migrateV1ToV2 draws es else es);
               es2 = (if v < 3 then migrateV2ToV3 rename_role es1 else es1)
           in (True, es2))"

text \<open>
  \<open>setSessionFile\<close>: \<open>loaded\<close> is what the file's lines parse to, None where there is no file; \<open>h\<close>
  the header of a new session; \<open>depth\<close> the nesting depth resolved for a header that has a
  parent but no valid depth.
\<close>

definition repair_depth :: "nat \<Rightarrow> file_entry list \<Rightarrow> bool \<times> file_entry list" where
  "repair_depth depth es = (case es of
     Header h # rest \<Rightarrow>
       (if truthy (hd_parentSession h) \<noteq> None \<and> hd_rlmDepth h = None
        then (True, Header (h\<lparr>hd_rlmDepth := Some depth\<rparr>) # rest) else (False, es))
   | _ \<Rightarrow> (False, es))"

definition setSessionFile ::
    "bool \<Rightarrow> header \<Rightarrow> nat \<Rightarrow> (nat \<Rightarrow> string list) \<Rightarrow> (agent_message \<Rightarrow> agent_message)
      \<Rightarrow> file_entry list option \<Rightarrow> session \<Rightarrow> unit sm_result" where
  "setSessionFile io h depth draws rename_role loaded s = (case loaded of
     None \<Rightarrow> (Inr (), newSession h s)
   | Some raw \<Rightarrow>
       (let s1 = refreshHasAssistantEntry (s\<lparr>sm_entries := finalizeLoadedEntries raw\<rparr>) in
        if sm_entries s1 = [] then
          (case rewriteFile io (newSession h s1) of
             (Inl x, s2) \<Rightarrow> (Inl x, s2) | (Inr _, s2) \<Rightarrow> (Inr (), s2\<lparr>sm_flushed := True\<rparr>))
        else let (migrated, es1) = migrateToCurrentVersion draws rename_role (sm_entries s1);
                 (repaired, es2) = repair_depth depth es1;
                 s2 = s1\<lparr>sm_entries := es2\<rparr>
             in case (if migrated \<or> repaired then rewriteFile io s2 else (Inr (), s2)) of
                  (Inl x, s3) \<Rightarrow> (Inl x, s3)
                | (Inr _, s3) \<Rightarrow> (Inr (), (buildIndex s3)\<lparr>sm_flushed := True\<rparr>)))"

end
