(* ===== verification/Session_Invariant.thy ===== *)
theory Session_Invariant
  imports Session_Tree
begin

text \<open>
  What every operation of the session manager keeps: the order of the entries, the index by id,
  the labels, and that the file, where it is believed up to date, reloads to the entries in
  memory. The operations form a step relation, and the invariant is an interpretation of the
  generic machine over it.
\<close>

section \<open>The list of entries\<close>

abbreviation (input) ids_of :: "entry list \<Rightarrow> string set" where
  "ids_of es \<equiv> set (map en_id es)"

definition attribution_target :: "entry \<Rightarrow> string option" where
  "attribution_target e = (case en_data e of D_child_usage_attributed t _ _ _ \<Rightarrow> Some t | _ \<Rightarrow> None)"

text \<open>An entry may follow the entries before it: its parent and what it attributes usage to are there.\<close>

definition follows :: "entry list \<Rightarrow> entry \<Rightarrow> bool" where
  "follows before e \<longleftrightarrow> en_id e \<noteq> [] \<and> en_id e \<notin> ids_of before
     \<and> (\<forall>p. en_parentId e = Some p \<longrightarrow> p \<in> ids_of before)
     \<and> (\<forall>t. attribution_target e = Some t \<longrightarrow> t \<in> ids_of before)"

definition entries_ok :: "entry list \<Rightarrow> bool" where
  "entries_ok es \<longleftrightarrow> (\<forall>i<length es. follows (take i es) (es ! i))"

definition id_index :: "entry list \<Rightarrow> (string \<rightharpoonup> entry)" where
  "id_index es = fold (\<lambda>e m. m(en_id e \<mapsto> e)) es Map.empty"

definition label_step :: "entry \<Rightarrow> (string \<rightharpoonup> string) \<times> (string \<rightharpoonup> string) \<Rightarrow> (string \<rightharpoonup> string) \<times> (string \<rightharpoonup> string)" where
  "label_step e x = (case en_data e of
     D_label target label \<Rightarrow> (case truthy label of
         Some l \<Rightarrow> ((fst x)(target \<mapsto> l), (snd x)(target \<mapsto> en_timestamp e))
       | None \<Rightarrow> ((fst x)(target := None), (snd x)(target := None)))
   | _ \<Rightarrow> x)"

definition label_index :: "entry list \<Rightarrow> (string \<rightharpoonup> string) \<times> (string \<rightharpoonup> string)" where
  "label_index es = fold label_step es (Map.empty, Map.empty)"

lemma entries_ok_Nil [simp]: "entries_ok []"
  by (simp add: entries_ok_def)

lemma entries_ok_snoc [simp]: "entries_ok (es @ [e]) \<longleftrightarrow> entries_ok es \<and> follows es e"
  unfolding entries_ok_def by (auto simp: nth_append less_Suc_eq)

lemma entries_ok_distinct: "entries_ok es \<Longrightarrow> distinct (map en_id es)"
  by (induction es rule: rev_induct) (auto simp: follows_def)

lemma entries_of_append [simp]: "entries_of (xs @ ys) = entries_of xs @ entries_of ys"
  by (induction xs rule: entries_of.induct) auto

lemma entries_of_map_Entry [simp]: "entries_of (map Entry es) = es"
  by (induction es) auto

lemma entries_of_map_Entry_comp [simp]: "entries_of (map (Entry \<circ> f) es) = map f es"
  by (induction es) auto

lemma entries_of_on_entry [simp]: "entries_of (map (on_entry f) es) = map f (entries_of es)"
  by (induction es rule: entries_of.induct) (auto simp: on_entry_def)

lemma id_index_Nil [simp]: "id_index [] = Map.empty"
  by (simp add: id_index_def)

lemma id_index_snoc [simp]: "id_index (es @ [e]) = (id_index es)(en_id e \<mapsto> e)"
  by (simp add: id_index_def)

lemma label_index_snoc [simp]: "label_index (es @ [e]) = label_step e (label_index es)"
  by (simp add: label_index_def)

lemma id_index_eq_None: "id_index es i = None \<longleftrightarrow> i \<notin> ids_of es"
  by (induction es rule: rev_induct) auto

lemma id_index_Some: "id_index es i = Some e \<Longrightarrow> e \<in> set es \<and> en_id e = i"
  by (induction es rule: rev_induct) (auto split: if_splits)

lemma id_index_member: "distinct (map en_id es) \<Longrightarrow> e \<in> set es \<Longrightarrow> id_index es (en_id e) = Some e"
  by (induction es rule: rev_induct) (auto simp: image_iff)

lemma id_index_map:
  assumes "\<And>e. en_id (f e) = en_id e"
  shows "id_index (map f es) = map_option f \<circ> id_index es"
  by (induction es rule: rev_induct) (auto simp: assms)

lemma id_index_remove:
  assumes "en_id e \<notin> ids_of es"
  shows "(id_index (es @ [e]))(en_id e := None) = id_index es"
proof -
  have "id_index es (en_id e) = None" using assms by (simp add: id_index_eq_None)
  then show ?thesis by (auto simp: fun_eq_iff)
qed

text \<open>The index that \<open>buildIndex\<close> makes is the one the operations maintain.\<close>

lemma fold_index_entry:
  "fold index_entry es s =
     s\<lparr>sm_byId := fold (\<lambda>e m. m(en_id e \<mapsto> e)) es (sm_byId s),
       sm_labels := fst (fold label_step es (sm_labels s, sm_labelTimes s)),
       sm_labelTimes := snd (fold label_step es (sm_labels s, sm_labelTimes s)),
       sm_leaf := (if es = [] then sm_leaf s else Some (en_id (last es)))\<rparr>"
proof (induction es arbitrary: s)
  case Nil
  then show ?case by simp
next
  case (Cons e es)
  show ?case
    unfolding fold_simps o_apply Cons.IH
    by (auto simp: index_entry_def label_step_def Let_def split: entry_data.splits option.splits)
qed

lemma buildIndex_eq:
  "buildIndex s = s\<lparr>sm_byId := id_index (getEntries s), sm_labels := fst (label_index (getEntries s)),
     sm_labelTimes := snd (label_index (getEntries s)),
     sm_leaf := (if getEntries s = [] then None else Some (en_id (last (getEntries s))))\<rparr>"
  by (simp add: buildIndex_def fold_index_entry id_index_def label_index_def getEntries_def)

section \<open>Walks end\<close>

lemma walk_more_fuel: "walk n m i = Some p \<Longrightarrow> n \<le> k \<Longrightarrow> walk k m i = Some p"
proof (induction n arbitrary: i k p)
  case 0
  then show ?case by (cases i) auto
next
  case (Suc n)
  from Suc.prems obtain l where l: "k = Suc l" "n \<le> l" by (cases k) auto
  show ?case
  proof (cases i)
    case (Some x)
    show ?thesis
    proof (cases "m x")
      case (Some e)
      with \<open>i = Some x\<close> Suc.prems(1) obtain q where q: "walk n m (truthy (en_parentId e)) = Some q" "p = e # q"
        by auto
      from Suc.IH [OF q(1) l(2)] q(2) Some \<open>i = Some x\<close> l(1) show ?thesis by simp
    qed (use Suc.prems Some l in simp)
  qed (use Suc.prems in simp)
qed

lemma parent_earlier:
  assumes "entries_ok es" and "id_index es j = Some x" and "truthy (en_parentId x) = Some y"
  shows "y \<in> ids_of es"
proof -
  from assms(2) have "x \<in> set es" by (blast dest: id_index_Some)
  then obtain k where k: "k < length es" "es ! k = x" by (auto simp: in_set_conv_nth)
  with assms(1) have "follows (take k es) x" by (auto simp: entries_ok_def)
  moreover have "en_parentId x = Some y" using assms(3) by (cases "en_parentId x") (auto split: if_splits)
  ultimately have "y \<in> ids_of (take k es)" by (simp add: follows_def)
  then show ?thesis by (auto dest: in_set_takeD)
qed

text \<open>An index that is only extended away from the entries of a walk does not change it.\<close>

lemma walk_fresh:
  assumes "entries_ok es" and "follows es e"
  shows "\<forall>x. i = Some x \<longrightarrow> x \<in> ids_of es \<Longrightarrow> walk n (id_index (es @ [e])) i = walk n (id_index es) i"
proof (induction n arbitrary: i)
  case 0
  then show ?case by (cases i) auto
next
  case (Suc n)
  show ?case
  proof (cases i)
    case (Some j)
    with Suc.prems have "j \<in> ids_of es" by blast
    with assms(2) have ne: "j \<noteq> en_id e" unfolding follows_def by metis
    show ?thesis
    proof (cases "id_index es j")
      case (Some x)
      have "\<forall>y. truthy (en_parentId x) = Some y \<longrightarrow> y \<in> ids_of es"
        using parent_earlier [OF assms(1) Some] by blast
      from Suc.IH [OF this] show ?thesis using \<open>i = Some j\<close> ne Some by simp
    qed (use ne \<open>i = Some j\<close> in simp)
  qed simp
qed

lemma walk_bound:
  "entries_ok es \<Longrightarrow> \<forall>x. i = Some x \<longrightarrow> x \<in> ids_of es \<Longrightarrow> \<exists>p. walk (length es) (id_index es) i = Some p"
proof (induction es arbitrary: i rule: rev_induct)
  case Nil
  then show ?case by (cases i) auto
next
  case (snoc e es)
  then have ok: "entries_ok es" and f: "follows es e" by auto
  show ?case
  proof (cases i)
    case (Some x)
    show ?thesis
    proof (cases "x = en_id e")
      case True
      have up: "\<forall>y. truthy (en_parentId e) = Some y \<longrightarrow> y \<in> ids_of es"
        using f by (cases "en_parentId e") (auto simp: follows_def split: if_splits)
      from snoc.IH [OF ok up] obtain p where "walk (length es) (id_index es) (truthy (en_parentId e)) = Some p" ..
      with walk_fresh [OF ok f up] have "walk (length es) (id_index (es @ [e])) (truthy (en_parentId e)) = Some p"
        by simp
      then show ?thesis unfolding True Some by (simp del: fun_upd_apply add: fun_upd_same)
    next
      case False
      with snoc.prems(2) Some have up: "\<forall>y. i = Some y \<longrightarrow> y \<in> ids_of es" by auto
      from snoc.IH [OF ok up] obtain p where "walk (length es) (id_index es) i = Some p" ..
      with walk_fresh [OF ok f up] have "walk (length es) (id_index (es @ [e])) i = Some p" by simp
      then have "walk (length (es @ [e])) (id_index (es @ [e])) i = Some p"
        by (rule walk_more_fuel) simp
      then show ?thesis ..
    qed
  qed simp
qed

section \<open>Child usage\<close>

definition usage_step :: "string \<Rightarrow> usage \<Rightarrow> entry \<Rightarrow> entry" where
  "usage_step t u e = (if en_id e = t \<and> is_assistant_entry e then set_usage u e else e)"

definition attribution_step :: "entry \<Rightarrow> entry \<Rightarrow> entry" where
  "attribution_step a e = (case en_data a of D_child_usage_attributed t child u origin \<Rightarrow> usage_step t u e | _ \<Rightarrow> e)"

definition usage_after :: "entry list \<Rightarrow> entry \<Rightarrow> entry" where
  "usage_after as = fold attribution_step as"

lemma set_usage_shape [simp]:
  "en_id (set_usage u e) = en_id e" "en_parentId (set_usage u e) = en_parentId e"
  "is_assistant_entry (set_usage u e) = is_assistant_entry e"
  "attribution_target (set_usage u e) = attribution_target e"
  by (auto simp: set_usage_def is_assistant_entry_def attribution_target_def
      split: entry_data.splits agent_message.splits)

lemma usage_step_shape [simp]:
  "en_id (usage_step t u e) = en_id e" "en_parentId (usage_step t u e) = en_parentId e"
  "is_assistant_entry (usage_step t u e) = is_assistant_entry e"
  "attribution_target (usage_step t u e) = attribution_target e"
  by (auto simp: usage_step_def)

lemma usage_step_other:
  "\<not> is_assistant_entry e \<Longrightarrow> usage_step t u e = e" "en_id e \<noteq> t \<Longrightarrow> usage_step t u e = e"
  by (auto simp: usage_step_def)

lemma set_usage_twice [simp]: "set_usage u (set_usage v e) = set_usage u e"
  by (auto simp: set_usage_def split: entry_data.splits agent_message.splits)

lemma usage_step_absorb: "usage_step t u (usage_step t v e) = usage_step t u e"
  by (simp add: usage_step_def)

lemma usage_step_commute: "t \<noteq> s \<Longrightarrow> usage_step t u (usage_step s v e) = usage_step s v (usage_step t u e)"
  by (auto simp: usage_step_def)

lemma attribution_step_shape [simp]:
  "en_id (attribution_step a e) = en_id e" "en_parentId (attribution_step a e) = en_parentId e"
  "is_assistant_entry (attribution_step a e) = is_assistant_entry e"
  "attribution_target (attribution_step a e) = attribution_target e"
  by (auto simp: attribution_step_def split: entry_data.splits)

lemma attribution_not_assistant: "attribution_target e = Some t \<Longrightarrow> \<not> is_assistant_entry e"
  by (auto simp: attribution_target_def is_assistant_entry_def split: entry_data.splits)

lemma attribution_step_none: "attribution_target a = None \<Longrightarrow> attribution_step a e = e"
  by (auto simp: attribution_step_def attribution_target_def split: entry_data.splits)

lemma usage_after_Nil [simp]: "usage_after [] e = e"
  by (simp add: usage_after_def)

lemma usage_after_snoc [simp]: "usage_after (as @ [a]) e = attribution_step a (usage_after as e)"
  by (simp add: usage_after_def)

lemma usage_after_shape [simp]:
  "en_id (usage_after as e) = en_id e" "en_parentId (usage_after as e) = en_parentId e"
  "is_assistant_entry (usage_after as e) = is_assistant_entry e"
  "attribution_target (usage_after as e) = attribution_target e"
  by (induction as rule: rev_induct) auto

lemma usage_after_untargeted:
  "\<forall>a\<in>set as. attribution_target a \<noteq> Some (en_id e) \<Longrightarrow> usage_after as e = e"
  by (induction as rule: rev_induct)
    (auto simp: attribution_step_def attribution_target_def usage_step_def split: entry_data.splits)

lemma usage_after_absorb: "usage_step t u (usage_after as (usage_step t v e)) = usage_step t u (usage_after as e)"
proof (induction as rule: rev_induct)
  case Nil
  then show ?case by (simp add: usage_step_absorb)
next
  case (snoc a as)
  show ?case
  proof (cases "en_data a")
    case (D_child_usage_attributed s c w origin)
    then have st: "attribution_step a x = usage_step s w x" for x by (simp add: attribution_step_def)
    show ?thesis
    proof (cases "s = t")
      case True
      show ?thesis unfolding usage_after_snoc st True usage_step_absorb by (rule snoc.IH)
    next
      case False
      then have "usage_step t u (usage_step s w x) = usage_step s w (usage_step t u x)" for x
        using usage_step_commute by metis
      with snoc.IH show ?thesis by (simp add: st)
    qed
  qed (use snoc.IH in \<open>simp_all add: attribution_step_def\<close>)
qed

lemma attribution_step_data:
  assumes "attribution_target a = Some t"
  obtains child u origin where "en_data a = D_child_usage_attributed t child u origin"
  using assms by (auto simp: attribution_target_def split: entry_data.splits)

lemma set_usage_of_eq: "set_usage_of t u es = map (on_entry (usage_step t u)) es"
  unfolding set_usage_of_def usage_step_def by simp

lemma on_entry_comp: "on_entry f (on_entry g x) = on_entry (\<lambda>e. f (g e)) x"
  by (simp add: on_entry_def split: file_entry.splits)

lemma on_entry_id [simp]: "on_entry (\<lambda>e. e) = (\<lambda>x. x)"
  by (auto simp: on_entry_def fun_eq_iff split: file_entry.splits)

lemma fold_apply_attribution:
  "fold apply_attribution as es = map (on_entry (usage_after as)) es"
proof (induction as rule: rev_induct)
  case Nil
  have "usage_after [] = (\<lambda>e. e)" by (simp add: fun_eq_iff)
  then show ?case by simp
next
  case (snoc a as)
  have "fold apply_attribution (as @ [a]) es = apply_attribution a (map (on_entry (usage_after as)) es)"
    using snoc.IH by simp
  also have "\<dots> = map (on_entry (attribution_step a)) (map (on_entry (usage_after as)) es)"
    by (cases "en_data a") (simp_all add: apply_attribution_def set_usage_of_eq attribution_step_def[abs_def])
  finally show ?case by (simp add: on_entry_comp)
qed

lemma applyChildUsageAttributions_eq:
  "applyChildUsageAttributions es = map (on_entry (usage_after (entries_of es))) es"
  by (simp add: applyChildUsageAttributions_def fold_apply_attribution)

text \<open>Reloading a file to which an entry was appended.\<close>

lemma reload_snoc:
  assumes "attribution_target e = None" and "\<forall>a\<in>set (entries_of es). attribution_target a \<noteq> Some (en_id e)"
  shows "applyChildUsageAttributions (es @ [Entry e]) = applyChildUsageAttributions es @ [Entry e]"
proof -
  have "usage_after (entries_of es @ [e]) = usage_after (entries_of es)"
    using assms(1) by (auto simp: fun_eq_iff attribution_step_none)
  moreover have "usage_after (entries_of es) e = e" using assms(2) by (rule usage_after_untargeted)
  ultimately show ?thesis by (simp add: applyChildUsageAttributions_eq on_entry_def)
qed

lemma reload_attribution:
  assumes "en_data e = D_child_usage_attributed t child u origin"
    and "\<forall>a\<in>set (entries_of es). attribution_target a \<noteq> Some (en_id e)"
  shows "applyChildUsageAttributions (es @ [Entry e]) = set_usage_of t u (applyChildUsageAttributions es) @ [Entry e]"
proof -
  have st: "attribution_step e x = usage_step t u x" for x using assms(1) by (simp add: attribution_step_def)
  have "usage_after (entries_of es) e = e" using assms(2) by (rule usage_after_untargeted)
  moreover have "\<not> is_assistant_entry e" using assms(1) by (simp add: is_assistant_entry_def)
  ultimately show ?thesis
    by (simp add: applyChildUsageAttributions_eq set_usage_of_eq on_entry_comp st)
      (simp add: on_entry_def usage_step_other st split: file_entry.splits)
qed

lemma attribution_targets_reload [simp]:
  "map attribution_target (entries_of (applyChildUsageAttributions es)) = map attribution_target (entries_of es)"
  by (simp add: applyChildUsageAttributions_eq)

lemma attribution_step_usage: "attribution_step (usage_step t u a) = attribution_step a"
  by (auto simp: attribution_step_def usage_step_def set_usage_def fun_eq_iff
      split: entry_data.splits agent_message.splits)

lemma reload_set_usage_of:
  "set_usage_of t u (applyChildUsageAttributions (set_usage_of t u es)) = set_usage_of t u (applyChildUsageAttributions es)"
proof -
  have "usage_after (map (usage_step t u) as) = usage_after as" for as
    by (simp add: usage_after_def fold_map comp_def attribution_step_usage)
  then show ?thesis
    by (simp add: applyChildUsageAttributions_eq set_usage_of_eq on_entry_comp usage_after_absorb)
qed

section \<open>The invariant\<close>

definition wf_core :: "session \<Rightarrow> bool" where
  "wf_core s \<longleftrightarrow> (\<exists>h. sm_entries s = Header h # map Entry (getEntries s))
     \<and> entries_ok (getEntries s)
     \<and> sm_byId s = id_index (getEntries s)
     \<and> (sm_labels s, sm_labelTimes s) = label_index (getEntries s)
     \<and> (\<forall>l. sm_leaf s = Some l \<longrightarrow> l \<in> ids_of (getEntries s))
     \<and> sm_hasAssistant s = has_assistant (sm_entries s)
     \<and> applyChildUsageAttributions (sm_entries s) = sm_entries s"

text \<open>What the file holds, when it is up to date, loads to the entries in memory.\<close>

definition disk_ok :: "session \<Rightarrow> bool" where
  "disk_ok s \<longleftrightarrow> (\<forall>d. sm_persist s \<and> sm_flushed s \<and> sm_disk s = Content d
     \<longrightarrow> applyChildUsageAttributions d = sm_entries s)"

definition tree_wf :: "session \<Rightarrow> bool" where
  "tree_wf s \<longleftrightarrow> wf_core s \<and> disk_ok s"

definition fresh_id :: "string \<Rightarrow> session \<Rightarrow> bool" where
  "fresh_id i s \<longleftrightarrow> i \<noteq> [] \<and> sm_byId s i = None"

definition grow :: "entry \<Rightarrow> session \<Rightarrow> session" where
  "grow e s = s\<lparr>sm_entries := sm_entries s @ [Entry e],
     sm_hasAssistant := (sm_hasAssistant s \<or> is_assistant_entry e),
     sm_byId := (sm_byId s)(en_id e \<mapsto> e), sm_leaf := Some (en_id e)\<rparr>"

lemma appendEntry_grow: "appendEntry io e s = persist_entry io e (grow e s)"
  by (simp add: appendEntry_def grow_def)

lemma getEntries_simps [simp]:
  "getEntries (s\<lparr>sm_byId := a\<rparr>) = getEntries s" "getEntries (s\<lparr>sm_labels := b\<rparr>) = getEntries s"
  "getEntries (s\<lparr>sm_labelTimes := c\<rparr>) = getEntries s" "getEntries (s\<lparr>sm_leaf := l\<rparr>) = getEntries s"
  "getEntries (s\<lparr>sm_hasAssistant := g\<rparr>) = getEntries s" "getEntries (s\<lparr>sm_flushed := f\<rparr>) = getEntries s"
  "getEntries (s\<lparr>sm_disk := d\<rparr>) = getEntries s" "getEntries (s\<lparr>sm_entries := es\<rparr>) = entries_of es"
  by (simp_all add: getEntries_def)

lemma getEntries_grow [simp]: "getEntries (grow e s) = getEntries s @ [e]"
  by (simp add: grow_def getEntries_def)

lemma wf_core_io [simp]:
  "wf_core (s\<lparr>sm_flushed := f\<rparr>) = wf_core s" "wf_core (s\<lparr>sm_disk := d\<rparr>) = wf_core s"
  by (simp_all add: wf_core_def)

text \<open>Writing changes nothing but the file and the flag.\<close>

lemma persist_entry_cases:
  obtains f d where "snd (persist_entry io e s) = s\<lparr>sm_flushed := f, sm_disk := d\<rparr>"
proof (rule that)
  show "snd (persist_entry io e s) = s\<lparr>sm_flushed := sm_flushed (snd (persist_entry io e s)),
      sm_disk := sm_disk (snd (persist_entry io e s))\<rparr>"
    by (rule session.equality) (simp_all add: persist_entry_def rewriteFile_def)
qed

lemma flushNow_cases:
  obtains f d where "snd (flushNow io s) = s\<lparr>sm_flushed := f, sm_disk := d\<rparr>"
proof (rule that)
  show "snd (flushNow io s) = s\<lparr>sm_flushed := sm_flushed (snd (flushNow io s)),
      sm_disk := sm_disk (snd (flushNow io s))\<rparr>"
    by (rule session.equality) (simp_all add: flushNow_def rewriteFile_def)
qed

lemma wf_core_persist [simp]: "wf_core (snd (persist_entry io e s)) = wf_core s"
  by (rule persist_entry_cases [of io e s]) simp

lemma wf_core_flushNow [simp]: "wf_core (snd (flushNow io s)) = wf_core s"
  by (rule flushNow_cases [of io s]) simp

lemma disk_ok_flushNow:
  assumes "applyChildUsageAttributions (sm_entries s) = sm_entries s" and "disk_ok s"
  shows "disk_ok (snd (flushNow io s))"
  using assms by (auto simp: flushNow_def rewriteFile_def disk_ok_def)

lemma disk_ok_persist:
  assumes "applyChildUsageAttributions (sm_entries s) = sm_entries s"
    and "\<And>d. sm_persist s \<Longrightarrow> sm_flushed s \<Longrightarrow> sm_disk s = Content d \<Longrightarrow> applyChildUsageAttributions (d @ [Entry e]) = sm_entries s"
  shows "disk_ok (snd (persist_entry io e s))"
  using assms by (auto simp: persist_entry_def rewriteFile_def disk_ok_def split: disk.splits)

section \<open>Every operation keeps the invariant\<close>

lemma has_assistant_snoc [simp]: "has_assistant (es @ [Entry e]) \<longleftrightarrow> has_assistant es \<or> is_assistant_entry e"
  by (simp add: has_assistant_def)

lemma label_step_plain: "\<not> is_label e \<Longrightarrow> label_step e x = x"
  by (auto simp: is_label_def label_step_def split: entry_data.splits)

lemma targets_known:
  assumes "wf_core s" and "follows (getEntries s) e"
    and "map attribution_target (entries_of d) = map attribution_target (getEntries s)"
  shows "\<forall>a\<in>set (entries_of d). attribution_target a \<noteq> Some (en_id e)"
proof
  fix a assume a: "a \<in> set (entries_of d)"
  show "attribution_target a \<noteq> Some (en_id e)"
  proof
    assume t: "attribution_target a = Some (en_id e)"
    have "Some (en_id e) \<in> set (map attribution_target (entries_of d))" using a t by force
    then have "Some (en_id e) \<in> set (map attribution_target (getEntries s))" by (simp only: assms(3))
    then obtain b where "b \<in> set (getEntries s)" and bt: "attribution_target b = Some (en_id e)" by auto
    then obtain k where k: "k < length (getEntries s)" "getEntries s ! k = b" by (auto simp: in_set_conv_nth)
    with assms(1) have "follows (take k (getEntries s)) b" by (auto simp: wf_core_def entries_ok_def)
    with bt have "en_id e \<in> ids_of (take k (getEntries s))" by (simp add: follows_def)
    then have "en_id e \<in> ids_of (getEntries s)" by (auto dest: in_set_takeD)
    with assms(2) show False by (simp add: follows_def)
  qed
qed

lemma wf_core_reload: "wf_core s \<Longrightarrow> applyChildUsageAttributions (sm_entries s) = sm_entries s"
  by (simp add: wf_core_def)

lemma wf_core_grow:
  assumes "wf_core s" and "follows (getEntries s) e" and "\<not> is_label e" and "attribution_target e = None"
  shows "wf_core (grow e s)"
proof -
  have "\<forall>a\<in>set (entries_of (sm_entries s)). attribution_target a \<noteq> Some (en_id e)"
    by (rule targets_known [OF assms(1,2)]) (simp add: getEntries_def)
  from reload_snoc [OF assms(4) this] wf_core_reload [OF assms(1)]
  have "applyChildUsageAttributions (sm_entries s @ [Entry e]) = sm_entries s @ [Entry e]" by simp
  then show ?thesis
    using assms by (auto simp: wf_core_def grow_def label_step_plain)
qed

lemma follows_leaf:
  assumes "wf_core s" and "fresh_id i s" and "attribution_target \<lparr>en_id = i, en_parentId = p, en_timestamp = ts, en_data = d\<rparr> = None"
    and "\<And>x. p = Some x \<Longrightarrow> x \<in> ids_of (getEntries s)"
  shows "follows (getEntries s) \<lparr>en_id = i, en_parentId = p, en_timestamp = ts, en_data = d\<rparr>"
  using assms by (auto simp: follows_def wf_core_def fresh_id_def id_index_eq_None)

definition plain_data :: "entry_data \<Rightarrow> bool" where
  "plain_data d = (case d of D_label _ _ \<Rightarrow> False | D_child_usage_attributed _ _ _ _ \<Rightarrow> False | _ \<Rightarrow> True)"

lemma plain_entry:
  "plain_data d \<Longrightarrow> en_data e = d \<Longrightarrow> \<not> is_label e \<and> attribution_target e = None"
  by (auto simp: plain_data_def is_label_def attribution_target_def split: entry_data.splits)

lemma disk_reload_snoc:
  assumes "tree_wf s" and "follows (getEntries s) e" and "attribution_target e = None"
    and "sm_persist s" "sm_flushed s" "sm_disk s = Content d"
  shows "applyChildUsageAttributions (d @ [Entry e]) = sm_entries s @ [Entry e]"
proof -
  from assms have d: "applyChildUsageAttributions d = sm_entries s" by (auto simp: tree_wf_def disk_ok_def)
  have "map attribution_target (entries_of d) = map attribution_target (getEntries s)"
    unfolding getEntries_def d [symmetric] by simp
  with assms have "\<forall>a\<in>set (entries_of d). attribution_target a \<noteq> Some (en_id e)"
    by (auto simp: tree_wf_def dest: targets_known)
  from reload_snoc [OF assms(3) this] d show ?thesis by simp
qed

lemma grow_simps [simp]:
  "sm_persist (grow e s) = sm_persist s" "sm_flushed (grow e s) = sm_flushed s" "sm_disk (grow e s) = sm_disk s"
  "sm_entries (grow e s) = sm_entries s @ [Entry e]" "sm_leaf (grow e s) = Some (en_id e)"
  "sm_labels (grow e s) = sm_labels s" "sm_labelTimes (grow e s) = sm_labelTimes s"
  "sm_byId (grow e s) = (sm_byId s)(en_id e \<mapsto> e)"
  by (simp_all add: grow_def)

lemma tree_wf_appendEntry:
  assumes "tree_wf s" and "follows (getEntries s) e" and "\<not> is_label e" and "attribution_target e = None"
  shows "tree_wf (snd (appendEntry io e s))"
proof -
  from assms have core: "wf_core (grow e s)" by (auto simp: tree_wf_def intro: wf_core_grow)
  have "disk_ok (snd (persist_entry io e (grow e s)))"
  proof (rule disk_ok_persist)
    show "applyChildUsageAttributions (sm_entries (grow e s)) = sm_entries (grow e s)"
      by (rule wf_core_reload [OF core])
    fix d assume "sm_persist (grow e s)" "sm_flushed (grow e s)" "sm_disk (grow e s) = Content d"
    then show "applyChildUsageAttributions (d @ [Entry e]) = sm_entries (grow e s)"
      using disk_reload_snoc [OF assms(1,2,4)] by simp
  qed
  with core show ?thesis by (simp add: tree_wf_def appendEntry_grow)
qed

lemma snd_append_data:
  "snd (append_data io i ts d s) =
     snd (appendEntry io \<lparr>en_id = i, en_parentId = sm_leaf s, en_timestamp = ts, en_data = d\<rparr> s)"
  by (simp add: append_data_def split: prod.splits sum.splits)

lemma tree_wf_append_data [wf_intros]:
  assumes "tree_wf s" and "fresh_id i s" and "plain_data d"
  shows "tree_wf (snd (append_data io i ts d s))"
proof -
  let ?e = "\<lparr>en_id = i, en_parentId = sm_leaf s, en_timestamp = ts, en_data = d\<rparr>"
  have p: "\<not> is_label ?e \<and> attribution_target ?e = None" using assms(3) by (rule plain_entry) simp
  have "follows (getEntries s) ?e"
    using assms p by (intro follows_leaf) (auto simp: tree_wf_def wf_core_def)
  with assms(1) p show ?thesis unfolding snd_append_data by (intro tree_wf_appendEntry) auto
qed

lemma tree_wf_flushNow [wf_intros]: "tree_wf s \<Longrightarrow> tree_wf (snd (flushNow io s))"
  by (simp add: tree_wf_def disk_ok_flushNow wf_core_reload)

lemma tree_wf_leaf [wf_intros]:
  "tree_wf s \<Longrightarrow> (\<And>x. l = Some x \<Longrightarrow> x \<in> ids_of (getEntries s)) \<Longrightarrow> tree_wf (s\<lparr>sm_leaf := l\<rparr>)"
  by (simp add: tree_wf_def wf_core_def disk_ok_def)

lemma tree_wf_branch [wf_intros]: "tree_wf s \<Longrightarrow> tree_wf (snd (branch i s))"
  unfolding branch_def
  by (auto intro!: tree_wf_leaf) (auto simp: tree_wf_def wf_core_def id_index_eq_None image_iff dest!: id_index_Some)

lemma tree_wf_resetLeaf [wf_intros]: "tree_wf s \<Longrightarrow> tree_wf (resetLeaf s)"
  by (auto simp: resetLeaf_def intro: tree_wf_leaf)

lemma tree_wf_newSession [wf_intros]: "tree_wf (newSession h s)"
  by (simp add: tree_wf_def wf_core_def disk_ok_def newSession_def getEntries_def has_assistant_def
      applyChildUsageAttributions_def label_index_def)

lemma tree_wf_branchWithSummary [wf_intros]:
  assumes "tree_wf s" and "fresh_id i s"
  shows "tree_wf (snd (branchWithSummary io i ts target summary details fromHook u s))"
proof (cases "target \<noteq> None \<and> sm_byId s (the target) = None")
  case True
  with assms show ?thesis by (simp add: branchWithSummary_def)
next
  case False
  then have "tree_wf (s\<lparr>sm_leaf := target\<rparr>)"
    using assms(1) by (intro tree_wf_leaf) (auto simp: tree_wf_def wf_core_def id_index_eq_None image_iff dest!: id_index_Some)
  with assms(2) False show ?thesis
    unfolding branchWithSummary_def by (auto simp: fresh_id_def plain_data_def intro!: tree_wf_append_data)
qed

lemma fst_append_data:
  "fst (append_data io i ts d s) = (case fst (appendEntry io
     \<lparr>en_id = i, en_parentId = sm_leaf s, en_timestamp = ts, en_data = d\<rparr> s) of Inl x \<Rightarrow> Inl x | Inr _ \<Rightarrow> Inr i)"
  by (simp add: append_data_def split: prod.splits sum.splits)

text \<open>A rolled back append leaves the state as it was, but for the file and whether it is up to date.\<close>

lemma rollback_restores:
  assumes wf: "tree_wf s" and fresh: "fresh_id i s"
    and t: "t = grow \<lparr>en_id = i, en_parentId = sm_leaf s, en_timestamp = ts, en_data = d\<rparr> s
       \<lparr>sm_flushed := f, sm_disk := k\<rparr>"
  shows "(refreshHasAssistantEntry (t\<lparr>sm_byId := (sm_byId t)(i := None), sm_entries := butlast (sm_entries t)\<rparr>))
       \<lparr>sm_leaf := sm_leaf s, sm_flushed := False\<rparr> = s\<lparr>sm_flushed := False, sm_disk := k\<rparr>"
proof -
  have "sm_hasAssistant s = has_assistant (sm_entries s)" using wf by (simp add: tree_wf_def wf_core_def)
  moreover have "sm_byId s i = None" using fresh by (simp add: fresh_id_def)
  ultimately show ?thesis
    by (intro session.equality) (auto simp: t grow_def refreshHasAssistantEntry_def fun_eq_iff)
qed

lemma tree_wf_unflushed: "tree_wf s \<Longrightarrow> tree_wf (s\<lparr>sm_flushed := False, sm_disk := k\<rparr>)"
  by (simp add: tree_wf_def disk_ok_def)

lemma append_then_flush:
  obtains (ok) f k where
      "(case append_data io i ts d s of (Inl x, s1) \<Rightarrow> (Inl x, s1)
        | (Inr j, s1) \<Rightarrow> (case flushNow io1 s1 of (Inl x, s2) \<Rightarrow> (Inl x, s2) | (Inr _, s2) \<Rightarrow> (Inr j, s2)))
      = (Inr i, grow \<lparr>en_id = i, en_parentId = sm_leaf s, en_timestamp = ts, en_data = d\<rparr> s
           \<lparr>sm_flushed := f, sm_disk := k\<rparr>)"
      "fst (append_data io i ts d s) = Inr i"
      "snd (flushNow io1 (snd (append_data io i ts d s))) =
         grow \<lparr>en_id = i, en_parentId = sm_leaf s, en_timestamp = ts, en_data = d\<rparr> s\<lparr>sm_flushed := f, sm_disk := k\<rparr>"
  | (failed) x f k where
      "(case append_data io i ts d s of (Inl x, s1) \<Rightarrow> (Inl x, s1)
        | (Inr j, s1) \<Rightarrow> (case flushNow io1 s1 of (Inl x, s2) \<Rightarrow> (Inl x, s2) | (Inr _, s2) \<Rightarrow> (Inr j, s2)))
      = (Inl x, grow \<lparr>en_id = i, en_parentId = sm_leaf s, en_timestamp = ts, en_data = d\<rparr> s
           \<lparr>sm_flushed := f, sm_disk := k\<rparr>)"
proof -
  let ?e = "\<lparr>en_id = i, en_parentId = sm_leaf s, en_timestamp = ts, en_data = d\<rparr>"
  obtain f k where st: "snd (append_data io i ts d s) = grow ?e s\<lparr>sm_flushed := f, sm_disk := k\<rparr>"
    unfolding snd_append_data appendEntry_grow by (rule persist_entry_cases [of io ?e "grow ?e s"]) blast
  have upd: "x\<lparr>sm_flushed := f, sm_disk := k, sm_flushed := f', sm_disk := k'\<rparr> = x\<lparr>sm_flushed := f', sm_disk := k'\<rparr>"
    for x :: session and f' k' by (cases x) simp
  obtain f' k' where fl: "snd (flushNow io1 (snd (append_data io i ts d s))) = grow ?e s\<lparr>sm_flushed := f', sm_disk := k'\<rparr>"
    unfolding st by (rule flushNow_cases [of io1 "grow ?e s\<lparr>sm_flushed := f, sm_disk := k\<rparr>", unfolded upd])
  show thesis
  proof (cases "append_data io i ts d s")
    case (Pair r s1)
    show thesis
    proof (cases r)
      case (Inl x)
      with Pair st failed show thesis by simp
    next
      case (Inr j)
      have j: "j = i" using Pair Inr fst_append_data [of io i ts d s] by (simp split: sum.splits)
      show thesis
      proof (cases "flushNow io1 s1")
        fix r' s2 assume p: "flushNow io1 s1 = (r', s2)"
        show thesis
          by (cases r') (use p Pair Inr j fl ok failed in auto)
      qed
    qed
  qed
qed

lemma rollback_outcome:
  assumes wf: "tree_wf s" and fresh: "fresh_id i s"
  obtains (ok) "appendEntryWithRollback io1 io2 (append_data io i ts d) s =
       (Inr i, snd (flushNow io1 (snd (append_data io i ts d s))))"
  | (rolled_back) x f k where "appendEntryWithRollback io1 io2 (append_data io i ts d) s = (Inl x, s\<lparr>sm_flushed := f, sm_disk := k\<rparr>)"
      "sm_persist s" "f \<longrightarrow> k = Content (sm_entries s)"
proof (rule append_then_flush [where io = io and i = i and ts = ts and d = d and s = s and ?io1.0 = io1])
  fix f k
  assume "(case append_data io i ts d s of (Inl x, s1) \<Rightarrow> (Inl x, s1)
        | (Inr j, s1) \<Rightarrow> (case flushNow io1 s1 of (Inl x, s2) \<Rightarrow> (Inl x, s2) | (Inr _, s2) \<Rightarrow> (Inr j, s2)))
      = (Inr i, grow \<lparr>en_id = i, en_parentId = sm_leaf s, en_timestamp = ts, en_data = d\<rparr> s
           \<lparr>sm_flushed := f, sm_disk := k\<rparr>)"
    "snd (flushNow io1 (snd (append_data io i ts d s))) =
         grow \<lparr>en_id = i, en_parentId = sm_leaf s, en_timestamp = ts, en_data = d\<rparr> s\<lparr>sm_flushed := f, sm_disk := k\<rparr>"
  then show thesis by (intro ok) (simp add: appendEntryWithRollback_def)
next
  let ?e = "\<lparr>en_id = i, en_parentId = sm_leaf s, en_timestamp = ts, en_data = d\<rparr>"
  fix x f k
  let ?t = "grow ?e s\<lparr>sm_flushed := f, sm_disk := k\<rparr>"
  assume a: "(case append_data io i ts d s of (Inl x, s1) \<Rightarrow> (Inl x, s1)
        | (Inr j, s1) \<Rightarrow> (case flushNow io1 s1 of (Inl x, s2) \<Rightarrow> (Inl x, s2) | (Inr _, s2) \<Rightarrow> (Inr j, s2)))
      = (Inl x, ?t)"
  have leaf: "sm_leaf ?t = Some i" by simp
  have ne: "sm_leaf s \<noteq> Some i"
    using wf fresh by (auto simp: tree_wf_def wf_core_def fresh_id_def id_index_eq_None)
  let ?u = "s\<lparr>sm_flushed := False, sm_disk := k\<rparr>"
  have calc: "appendEntryWithRollback io1 io2 (append_data io i ts d) s =
      (case flushNow io2 ?u of (Inl _, s4) \<Rightarrow> (Inl x, s4\<lparr>sm_flushed := False\<rparr>) | (Inr _, s4) \<Rightarrow> (Inl x, s4))"
    unfolding appendEntryWithRollback_def a Let_def
    using rollback_restores [OF wf fresh refl, where ts = ts and d = d and f = f and k = k] ne leaf by simp
  have p: "sm_persist s"
  proof (rule ccontr)
    assume "\<not> sm_persist s"
    with a show False
      by (simp add: append_data_def appendEntry_def persist_entry_def flushNow_def)
  qed
  then have flush: "flushNow io2 ?u = (if io2 then (Inr (), s\<lparr>sm_flushed := True, sm_disk := Content (sm_entries s)\<rparr>)
      else (Inl Write_failed, ?u))"
    by (cases s) (simp add: flushNow_def rewriteFile_def)
  show thesis
  proof (cases io2)
    case True
    then show thesis using calc flush p by (intro rolled_back [where x = x and f = True and k = "Content (sm_entries s)"]) simp_all
  next
    case False
    then show thesis using calc flush p by (intro rolled_back [where x = x and f = False and k = k]) simp_all
  qed
qed

lemma appendEntryWithRollback_cases:
  assumes wf: "tree_wf s" and fresh: "fresh_id i s"
  obtains (ok) "appendEntryWithRollback io1 io2 (append_data io i ts d) s =
       (Inr i, snd (flushNow io1 (snd (append_data io i ts d s))))"
  | (rolled_back) x f k where "appendEntryWithRollback io1 io2 (append_data io i ts d) s = (Inl x, s\<lparr>sm_flushed := f, sm_disk := k\<rparr>)"
      "tree_wf (s\<lparr>sm_flushed := f, sm_disk := k\<rparr>)"
proof (rule rollback_outcome [OF wf fresh, where io = io and ts = ts and d = d and ?io1.0 = io1 and ?io2.0 = io2])
  fix x f k
  assume r: "appendEntryWithRollback io1 io2 (append_data io i ts d) s = (Inl x, s\<lparr>sm_flushed := f, sm_disk := k\<rparr>)"
    and k: "f \<longrightarrow> k = Content (sm_entries s)"
  have "tree_wf (s\<lparr>sm_flushed := f, sm_disk := k\<rparr>)"
    using wf k wf_core_reload [of s] by (auto simp: tree_wf_def disk_ok_def)
  with r show thesis by (rule rolled_back)
qed (rule ok)

lemma tree_wf_rollback [wf_intros]:
  assumes "tree_wf s" and "fresh_id i s" and "plain_data d"
  shows "tree_wf (snd (appendEntryWithRollback io1 io2 (append_data io i ts d) s))"
  by (rule appendEntryWithRollback_cases [OF assms(1,2), of io1 io2 io ts d])
    (use assms in \<open>auto intro: tree_wf_flushNow tree_wf_append_data\<close>)

lemma follows_map:
  assumes "\<And>e. en_id (f e) = en_id e" "\<And>e. en_parentId (f e) = en_parentId e"
    "\<And>e. attribution_target (f e) = attribution_target e"
  shows "follows (map f es) (f e) = follows es e"
proof -
  have "ids_of (map f es) = ids_of es" by (simp add: assms image_image)
  then show ?thesis by (simp add: follows_def assms)
qed

lemma entries_ok_map:
  assumes "\<And>e. en_id (f e) = en_id e" "\<And>e. en_parentId (f e) = en_parentId e"
    "\<And>e. attribution_target (f e) = attribution_target e"
  shows "entries_ok (map f es) = entries_ok es"
  by (simp add: entries_ok_def take_map follows_map [where f = f, OF assms])

lemma label_index_map:
  assumes "\<And>e x. label_step (f e) x = label_step e x"
  shows "label_index (map f es) = label_index es"
proof -
  have "(\<lambda>e. label_step (f e)) = label_step" using assms by (simp add: fun_eq_iff)
  then show ?thesis by (simp add: label_index_def fold_map comp_def)
qed

lemma set_usage_timestamp [simp]: "en_timestamp (set_usage u e) = en_timestamp e"
  by (auto simp: set_usage_def split: entry_data.splits agent_message.splits)

lemma label_step_usage [simp]:
  "label_step (usage_step t u e) x = label_step e x" "label_step (usage_after as e) x = label_step e x"
proof -
  show *: "label_step (usage_step t u e) x = label_step e x" for t u e x
    by (auto simp: usage_step_def set_usage_def label_step_def
        split: entry_data.splits agent_message.splits option.splits)
  have "label_step (attribution_step a e) x = label_step e x" for a e
    by (auto simp: attribution_step_def * split: entry_data.splits)
  then show "label_step (usage_after as e) x = label_step e x"
    by (induction as rule: rev_induct) auto
qed

lemma has_assistant_map:
  assumes "\<And>e. is_assistant_entry (f e) = is_assistant_entry e"
  shows "has_assistant (map (on_entry f) es) = has_assistant es"
  by (simp add: has_assistant_def list_ex_iff assms)

lemma sm_entries_shape: "wf_core s \<Longrightarrow> \<exists>h. sm_entries s = Header h # map Entry (getEntries s)"
  by (simp add: wf_core_def)

text \<open>The state \<open>appendChildUsageAttribution\<close> grows: the usage of the target is replaced.\<close>

lemma wf_core_attribution:
  assumes wf: "wf_core s" and target: "sm_byId s t = Some a" "is_assistant_entry a"
    and e: "follows (getEntries s) e" "en_data e = D_child_usage_attributed t child u origin"
  defines "s1 \<equiv> s\<lparr>sm_entries := set_usage_of t u (sm_entries s), sm_byId := (sm_byId s)(t \<mapsto> set_usage u a)\<rparr>"
  shows "wf_core (grow e s1)"
proof -
  let ?es = "getEntries s"
  have es1: "getEntries s1 = map (usage_step t u) ?es"
    by (simp add: s1_def set_usage_of_eq getEntries_def)
  have idx: "sm_byId s1 = id_index (map (usage_step t u) ?es)"
  proof -
    have "id_index (map (usage_step t u) ?es) = map_option (usage_step t u) \<circ> id_index ?es"
      by (rule id_index_map) simp
    also have "\<dots> = (id_index ?es)(t \<mapsto> set_usage u a)"
    proof
      fix i
      from wf target have at: "id_index ?es t = Some a" "en_id a = t"
        by (auto simp: wf_core_def dest: id_index_Some)
      show "(map_option (usage_step t u) \<circ> id_index ?es) i = ((id_index ?es)(t \<mapsto> set_usage u a)) i"
      proof (cases "i = t")
        case True
        with at target(2) show ?thesis by (simp add: usage_step_def)
      next
        case False
        have "map_option (usage_step t u) (id_index ?es i) = id_index ?es i"
        proof (cases "id_index ?es i")
          case (Some b)
          then have "en_id b = i" by (blast dest: id_index_Some)
          with False Some show ?thesis by (simp add: usage_step_other(2))
        qed simp
        with False show ?thesis by simp
      qed
    qed
    finally show ?thesis using wf by (simp add: s1_def wf_core_def)
  qed
  have tgt: "\<forall>b\<in>set (entries_of (set_usage_of t u (sm_entries s))). attribution_target b \<noteq> Some (en_id e)"
    by (rule targets_known [OF wf e(1)]) (simp add: set_usage_of_eq getEntries_def)
  have "applyChildUsageAttributions (set_usage_of t u (sm_entries s) @ [Entry e]) =
      set_usage_of t u (applyChildUsageAttributions (set_usage_of t u (sm_entries s))) @ [Entry e]"
    by (rule reload_attribution [OF e(2) tgt])
  also have "\<dots> = set_usage_of t u (sm_entries s) @ [Entry e]"
    by (simp add: reload_set_usage_of wf_core_reload [OF wf])
  finally have reload: "applyChildUsageAttributions (sm_entries (grow e s1)) = sm_entries (grow e s1)"
    by (simp add: s1_def)
  have lab: "\<not> is_label e" using e(2) by (simp add: is_label_def)
  have "follows (map (usage_step t u) ?es) e"
    using follows_map [of "usage_step t u" ?es e] e(1) e(2)
    by (simp add: usage_step_other is_assistant_entry_def)
  moreover have "entries_ok (map (usage_step t u) ?es)"
    using wf by (simp add: wf_core_def entries_ok_map)
  ultimately have ok: "entries_ok (getEntries (grow e s1))" by (simp add: es1)
  have "label_index (getEntries (grow e s1)) = label_index ?es"
    by (simp only: getEntries_grow es1 label_index_snoc label_step_plain [OF lab]
        label_index_map [where f = "usage_step t u", OF label_step_usage(1)])
  moreover have "sm_labels (grow e s1) = sm_labels s" "sm_labelTimes (grow e s1) = sm_labelTimes s"
    by (simp_all add: s1_def)
  ultimately have labels: "(sm_labels (grow e s1), sm_labelTimes (grow e s1)) = label_index (getEntries (grow e s1))"
    using wf by (simp add: wf_core_def)
  have assistant: "sm_hasAssistant (grow e s1) = has_assistant (sm_entries (grow e s1))"
  proof -
    have "has_assistant (set_usage_of t u (sm_entries s)) = has_assistant (sm_entries s)"
      unfolding set_usage_of_eq by (rule has_assistant_map) simp
    moreover have "sm_hasAssistant s = has_assistant (sm_entries s)" using wf by (simp only: wf_core_def)
    ultimately show ?thesis by (simp add: grow_def s1_def)
  qed
  obtain h where "sm_entries s = Header h # map Entry ?es" using sm_entries_shape [OF wf] by blast
  then have entries: "sm_entries (grow e s1) = Header h # map Entry (getEntries (grow e s1))"
    unfolding getEntries_grow es1 by (simp add: s1_def set_usage_of_eq on_entry_def)
  have index: "sm_byId (grow e s1) = id_index (getEntries (grow e s1))" by (simp add: idx es1)
  have leaf: "\<forall>l. sm_leaf (grow e s1) = Some l \<longrightarrow> l \<in> ids_of (getEntries (grow e s1))" by simp
  show ?thesis
    unfolding wf_core_def using ok labels assistant reload index leaf by (intro conjI exI) (rule entries)
qed

lemma tree_wf_attribution [wf_intros]:
  assumes wf: "tree_wf s" and fresh: "fresh_id i s"
  shows "tree_wf (snd (appendChildUsageAttribution io i ts t child u origin s))"
proof (cases "\<exists>a. sm_byId s t = Some a \<and> is_assistant_entry a")
  case False
  with wf show ?thesis by (auto simp: appendChildUsageAttribution_def split: option.splits)
next
  case True
  then obtain a where a: "sm_byId s t = Some a" "is_assistant_entry a" by blast
  let ?d = "D_child_usage_attributed t (cloneUsage child) (cloneUsage u) origin"
  let ?e = "\<lparr>en_id = i, en_parentId = sm_leaf s, en_timestamp = ts, en_data = ?d\<rparr>"
  let ?s1 = "s\<lparr>sm_entries := set_usage_of t u (sm_entries s), sm_byId := (sm_byId s)(t \<mapsto> set_usage u a)\<rparr>"
  have core: "wf_core s" using wf by (simp add: tree_wf_def)
  have clone: "cloneUsage u = u" for u by (simp add: cloneUsage_def)
  have "t \<in> ids_of (getEntries s)"
    using core a by (auto simp: wf_core_def dest!: id_index_Some)
  then have f: "follows (getEntries s) ?e"
    using core fresh by (auto simp: follows_def wf_core_def fresh_id_def id_index_eq_None attribution_target_def)
  have g: "wf_core (grow ?e ?s1)"
    by (rule wf_core_attribution [OF core a f]) (simp add: clone)
  have "disk_ok (snd (persist_entry io ?e (grow ?e ?s1)))"
  proof (rule disk_ok_persist)
    show "applyChildUsageAttributions (sm_entries (grow ?e ?s1)) = sm_entries (grow ?e ?s1)"
      by (rule wf_core_reload [OF g])
    fix d assume "sm_persist (grow ?e ?s1)" "sm_flushed (grow ?e ?s1)" "sm_disk (grow ?e ?s1) = Content d"
    then have d: "applyChildUsageAttributions d = sm_entries s" using wf by (simp add: tree_wf_def disk_ok_def)
    have "map attribution_target (entries_of d) = map attribution_target (getEntries s)"
      unfolding getEntries_def d [symmetric] by simp
    from reload_attribution [OF _ targets_known [OF core f this]] d
    show "applyChildUsageAttributions (d @ [Entry ?e]) = sm_entries (grow ?e ?s1)" by (simp add: clone)
  qed
  with g have "tree_wf (snd (appendEntry io ?e ?s1))" by (simp add: tree_wf_def appendEntry_grow)
  with a show ?thesis by (simp add: appendChildUsageAttribution_def snd_append_data)
qed

lemma disk_ok_labels [simp]:
  "disk_ok (s\<lparr>sm_labels := l\<rparr>) = disk_ok s" "disk_ok (s\<lparr>sm_labelTimes := t\<rparr>) = disk_ok s"
  by (simp_all add: disk_ok_def)

text \<open>The maps of labels that a label entry leaves.\<close>

definition set_labels :: "(string \<rightharpoonup> string) \<times> (string \<rightharpoonup> string) \<Rightarrow> session \<Rightarrow> session" where
  "set_labels x s = s\<lparr>sm_labels := fst x, sm_labelTimes := snd x\<rparr>"

lemma appendLabelChange_grow:
  assumes "sm_byId s target \<noteq> None" and "fst (appendLabelChange io i ts target label s) = Inr j"
  defines "e \<equiv> \<lparr>en_id = i, en_parentId = sm_leaf s, en_timestamp = ts, en_data = D_label target label\<rparr>"
  shows "snd (appendLabelChange io i ts target label s) =
    set_labels (label_step e (sm_labels s, sm_labelTimes s)) (snd (persist_entry io e (grow e s)))"
proof -
  obtain f k where p: "snd (persist_entry io e (grow e s)) = grow e s\<lparr>sm_flushed := f, sm_disk := k\<rparr>"
    by (rule persist_entry_cases)
  have "snd (append_data io i ts (D_label target label) s) = snd (persist_entry io e (grow e s))"
    by (simp add: snd_append_data appendEntry_grow e_def)
  then obtain r where r: "append_data io i ts (D_label target label) s = (r, grow e s\<lparr>sm_flushed := f, sm_disk := k\<rparr>)"
    using p by (metis prod.collapse)
  have "\<exists>x. r = Inr x"
    using assms(1,2) by (cases r) (auto simp: appendLabelChange_def r)
  then obtain x where "r = Inr x" ..
  with assms(1) show ?thesis
    unfolding p by (auto simp: appendLabelChange_def r set_labels_def label_step_def e_def split: option.splits)
qed

lemma tree_wf_label:
  assumes wf: "tree_wf s" and fresh: "fresh_id i s"
    and written: "fst (appendLabelChange io i ts target label s) \<noteq> Inl Write_failed"
  shows "tree_wf (snd (appendLabelChange io i ts target label s))"
proof (cases "sm_byId s target = None")
  case True
  with wf show ?thesis by (simp add: appendLabelChange_def)
next
  case False
  let ?e = "\<lparr>en_id = i, en_parentId = sm_leaf s, en_timestamp = ts, en_data = D_label target label\<rparr>"
  obtain j where j: "fst (appendLabelChange io i ts target label s) = Inr j"
  proof (cases "fst (appendLabelChange io i ts target label s)")
    case (Inl x)
    have "x = Write_failed"
      using Inl False
      by (auto simp: appendLabelChange_def append_data_def appendEntry_def persist_entry_def rewriteFile_def
          split: if_splits prod.splits sum.splits option.splits)
    with Inl written show ?thesis by simp
  qed (rule that)
  have core: "wf_core s" using wf by (simp add: tree_wf_def)
  have t: "attribution_target ?e = None" by (simp add: attribution_target_def)
  have f: "follows (getEntries s) ?e" using core fresh t by (intro follows_leaf) (auto simp: wf_core_def)
  have tgt: "\<forall>a\<in>set (entries_of (sm_entries s)). attribution_target a \<noteq> Some (en_id ?e)"
    by (rule targets_known [OF core f]) (simp add: getEntries_def)
  have reload: "applyChildUsageAttributions (sm_entries s @ [Entry ?e]) = sm_entries s @ [Entry ?e]"
    using reload_snoc [OF t tgt] wf_core_reload [OF core] by simp
  let ?x = "label_step ?e (sm_labels s, sm_labelTimes s)"
  have g: "wf_core (set_labels ?x (grow ?e s))"
    using core f reload by (auto simp: wf_core_def grow_def set_labels_def is_assistant_entry_def)
  obtain f k where p: "snd (persist_entry io ?e (grow ?e s)) = grow ?e s\<lparr>sm_flushed := f, sm_disk := k\<rparr>"
    by (rule persist_entry_cases)
  have "set_labels ?x (grow ?e s\<lparr>sm_flushed := f, sm_disk := k\<rparr>) = set_labels ?x (grow ?e s)\<lparr>sm_flushed := f, sm_disk := k\<rparr>"
    by (simp add: set_labels_def)
  with g p have c: "wf_core (set_labels ?x (snd (persist_entry io ?e (grow ?e s))))" by simp
  have "disk_ok (snd (persist_entry io ?e (grow ?e s)))"
  proof (rule disk_ok_persist)
    show "applyChildUsageAttributions (sm_entries (grow ?e s)) = sm_entries (grow ?e s)" using reload by simp
    fix d assume "sm_persist (grow ?e s)" "sm_flushed (grow ?e s)" "sm_disk (grow ?e s) = Content d"
    then show "applyChildUsageAttributions (d @ [Entry ?e]) = sm_entries (grow ?e s)"
      using disk_reload_snoc [OF wf f t] by simp
  qed
  then have "disk_ok (set_labels ?x (snd (persist_entry io ?e (grow ?e s))))" by (simp add: set_labels_def)
  with c show ?thesis unfolding appendLabelChange_grow [OF False j] tree_wf_def by blast
qed

text \<open>Opening a file of the present version whose entries are in order.\<close>

lemma tree_wf_setSessionFile:
  assumes raw: "raw = Header h # map Entry es" "entries_ok es" "hd_version h = Some CURRENT_SESSION_VERSION"
    and disk: "sm_disk s = Content raw"
    and opened: "setSessionFile io h0 depth draws rename_role (Some raw) s = (Inr (), t)"
  shows "tree_wf t"
proof -
  let ?es = "map (usage_after es) es"
  have fin: "finalizeLoadedEntries raw = Header h # map Entry ?es"
    by (simp add: raw finalizeLoadedEntries_def applyChildUsageAttributions_eq on_entry_def)
  have ok: "entries_ok ?es" using raw(2) by (simp add: entries_ok_map)
  define h' where "h' = (if truthy (hd_parentSession h) \<noteq> None \<and> hd_rlmDepth h = None
     then h\<lparr>hd_rlmDepth := Some depth\<rparr> else h)"
  let ?new = "Header h' # map Entry ?es"
  have stable: "usage_after ?es (usage_after es e) = usage_after es e" for e
  proof -
    have step: "attribution_step (usage_after bs a) = attribution_step a" for bs a
    proof -
      have "attribution_step (attribution_step b a) = attribution_step a" for b a
        by (cases "en_data b") (simp_all add: attribution_step_def [of b] attribution_step_usage)
      then show ?thesis by (induction bs rule: rev_induct) auto
    qed
    have "fold attribution_step (map g bs) = fold attribution_step bs"
      if "\<And>a. attribution_step (g a) = attribution_step a" for g bs
      using that by (induction bs) auto
    from this [of "usage_after es" es, OF step] have "usage_after ?es = usage_after es"
      unfolding usage_after_def .
    moreover have "usage_after as (usage_after as e) = usage_after as e" for as
    proof (induction as rule: rev_induct)
      case (snoc a as)
      show ?case
      proof (cases "en_data a")
        case (D_child_usage_attributed t c u origin)
        then have st: "attribution_step a x = usage_step t u x" for x by (simp add: attribution_step_def)
        show ?thesis by (simp add: st usage_after_absorb snoc.IH)
      qed (use snoc.IH in \<open>simp_all add: attribution_step_def\<close>)
    qed simp
    ultimately show ?thesis by simp
  qed
  have reload: "applyChildUsageAttributions ?new = ?new"
    by (simp add: applyChildUsageAttributions_eq on_entry_def stable)
  have loaded: "applyChildUsageAttributions raw = Header h # map Entry ?es"
    using fin by (simp add: raw finalizeLoadedEntries_def)
  let ?s1 = "refreshHasAssistantEntry (s\<lparr>sm_entries := Header h # map Entry ?es\<rparr>)"
  let ?s2 = "?s1\<lparr>sm_entries := ?new\<rparr>"
  have ver: "migrateToCurrentVersion draws rename_role (sm_entries ?s1) = (False, sm_entries ?s1)"
    using raw(3) by (simp add: migrateToCurrentVersion_def file_version_def refreshHasAssistantEntry_def)
  have rep: "repair_depth depth (sm_entries ?s1) = (h' \<noteq> h, ?new)"
    by (cases h) (auto simp: repair_depth_def refreshHasAssistantEntry_def h'_def)
  have t: "t = (buildIndex (snd (if h' \<noteq> h then rewriteFile io ?s2 else (Inr (), ?s2))))\<lparr>sm_flushed := True\<rparr>"
    "fst (if h' \<noteq> h then rewriteFile io ?s2 else (Inr (), ?s2)) = Inr ()"
    using opened unfolding setSessionFile_def fin ver rep Let_def option.case prod.case
    by (auto simp: refreshHasAssistantEntry_def split: prod.splits sum.splits if_splits)
  have ent: "sm_entries t = ?new" unfolding t(1) by (simp add: buildIndex_eq rewriteFile_def)
  have get: "getEntries t = ?es" by (simp add: getEntries_def ent)
  have core: "wf_core t"
    unfolding wf_core_def get ent
    by (intro conjI)
      (use ok reload in \<open>auto simp: t(1) buildIndex_eq rewriteFile_def getEntries_def refreshHasAssistantEntry_def
          has_assistant_def last_map\<close>)
  have "disk_ok t"
    using t(2) disk loaded reload unfolding disk_ok_def ent t(1)
    by (auto simp: buildIndex_eq rewriteFile_def refreshHasAssistantEntry_def split: if_splits)
  with core show ?thesis by (simp add: tree_wf_def)
qed

section \<open>Sessions as a state machine\<close>

text \<open>
  What can happen to a session. An operation takes a fresh id, and \<open>io\<close> ranges over whether its
  writes succeed; a label change is taken only when its write succeeded, since the code sets
  the label after it. The file may also disappear under the session.
\<close>

inductive session_step :: "session \<Rightarrow> session \<Rightarrow> bool" where
  st_message: "fresh_id i s \<Longrightarrow> session_step s (snd (appendMessage io i ts m s))"
| st_thinking: "fresh_id i s \<Longrightarrow> session_step s (snd (appendThinkingLevelChange io i ts lv s))"
| st_tier: "fresh_id i s \<Longrightarrow> session_step s (snd (appendServiceTierChange io i ts tier s))"
| st_model: "fresh_id i s \<Longrightarrow> session_step s (snd (appendModelChange io i ts pr mo s))"
| st_compaction: "fresh_id i s \<Longrightarrow> session_step s (snd (appendCompaction io i ts c s))"
| st_custom: "fresh_id i s \<Longrightarrow> session_step s (snd (appendCustomEntry io i ts ty jd s))"
| st_custom_rollback: "fresh_id i s \<Longrightarrow>
    session_step s (snd (appendCustomEntryWithRollback io io1 io2 i ts ty jd s))"
| st_usage: "fresh_id i s \<Longrightarrow> session_step s (snd (appendChildUsageAttribution io i ts t ch u og s))"
| st_info: "fresh_id i s \<Longrightarrow> session_step s (snd (appendSessionInfo io i ts nm s))"
| st_state: "fresh_id i s \<Longrightarrow> session_step s (snd (appendSessionState io i ts st s))"
| st_agent_status: "fresh_id i s \<Longrightarrow> session_step s (snd (appendAgentStatus io i ts sm tk n s))"
| st_git: "fresh_id i s \<Longrightarrow> recordGitStateIfChanged n io i ts captured s = Some (r, t) \<Longrightarrow> session_step s t"
| st_custom_message: "fresh_id i s \<Longrightarrow> session_step s (snd (appendCustomMessageEntry io i ts ty uc dp jd s))"
| st_custom_message_rollback: "fresh_id i s \<Longrightarrow>
    session_step s (snd (appendCustomMessageEntryWithRollback io io1 io2 i ts ty uc dp jd s))"
| st_label: "fresh_id i s \<Longrightarrow> fst (appendLabelChange io i ts t lb s) \<noteq> Inl Write_failed \<Longrightarrow>
    session_step s (snd (appendLabelChange io i ts t lb s))"
| st_branch: "session_step s (snd (branch b s))"
| st_reset: "session_step s (resetLeaf s)"
| st_branch_summary: "fresh_id i s \<Longrightarrow>
    session_step s (snd (branchWithSummary io i ts tg sm jd hk ou s))"
| st_flush: "session_step s (snd (flushNow io s))"
| st_new: "session_step s (newSession h s)"
| st_file_gone: "session_step s (s\<lparr>sm_disk := Absent\<rparr>)"
| st_open: "sm_disk s = Content (Header h # map Entry es) \<Longrightarrow> entries_ok es \<Longrightarrow>
    hd_version h = Some CURRENT_SESSION_VERSION \<Longrightarrow>
    setSessionFile io h0 depth draws rename_role (Some (Header h # map Entry es)) s = (Inr (), t) \<Longrightarrow>
    session_step s t"

definition session_init :: "session \<Rightarrow> bool" where
  "session_init s \<longleftrightarrow> (\<exists>h s0. s = newSession h s0)"

lemma plain_data_simps [simp]:
  "plain_data (D_message m)" "plain_data (D_thinking_level_change lv)" "plain_data (D_service_tier_change tier)"
  "plain_data (D_model_change p mo)" "plain_data (D_compaction c)" "plain_data (D_custom ty jd)"
  "plain_data (D_session_info nm)" "plain_data (D_session_state st)" "plain_data (D_agent_status sm tk n)"
  "plain_data (D_git_state g)" "plain_data (D_custom_message ty uc dp jd)" "plain_data (D_branch_summary a b jd hk ou)"
  by (simp_all add: plain_data_def)

lemma tree_wf_git [wf_intros]:
  assumes "tree_wf s" and "fresh_id i s" and "recordGitStateIfChanged n io i ts captured s = Some (r, t)"
  shows "tree_wf t"
proof -
  have "tree_wf (snd (appendGitState io i ts g s))" for g
    unfolding appendGitState_def by (rule tree_wf_append_data [OF assms(1,2)]) simp
  with assms(1,3) show ?thesis
    by (auto simp: recordGitStateIfChanged_def split: if_splits option.splits prod.splits sum.splits)
      (metis snd_conv)+
qed

lemma tree_wf_file_gone: "tree_wf s \<Longrightarrow> tree_wf (s\<lparr>sm_disk := Absent\<rparr>)"
  by (simp add: tree_wf_def disk_ok_def)

lemma session_step_wf: "session_step s t \<Longrightarrow> tree_wf s \<Longrightarrow> tree_wf t"
  by (induction rule: session_step.induct)
    (auto simp: appendMessage_def appendThinkingLevelChange_def appendServiceTierChange_def appendModelChange_def
      appendCompaction_def appendCustomEntry_def appendCustomEntryWithRollback_def appendSessionInfo_def
      appendSessionState_def appendAgentStatus_def appendCustomMessageEntry_def
      appendCustomMessageEntryWithRollback_def
      intro: tree_wf_append_data tree_wf_rollback tree_wf_attribution tree_wf_label tree_wf_branch tree_wf_resetLeaf
        tree_wf_branchWithSummary tree_wf_flushNow tree_wf_newSession tree_wf_git tree_wf_file_gone
        tree_wf_setSessionFile [OF refl])

interpretation session_machine: invariant_machine session_init session_step tree_wf
proof unfold_locales
  show "tree_wf s" if "session_init s" for s
    using that tree_wf_newSession by (auto simp: session_init_def)
  show "tree_wf t" if "tree_wf s" "session_step s t" for s t
    using that session_step_wf by blast
qed

abbreviation reachable_session :: "session \<Rightarrow> bool" where
  "reachable_session \<equiv> reach session_init session_step"

end
