(* ===== verification/Session_Paths.thy ===== *)
theory Session_Paths
  imports Session_Invariant
begin

text \<open>
  Branches and model contexts: walks from an entry to its root, the messages a branch gives with
  and without a compaction, sessions branched off another one, and the migration of old files.
\<close>

section \<open>Paths\<close>

lemma truthy_parent:
  "follows es e \<Longrightarrow> \<forall>y. truthy (en_parentId e) = Some y \<longrightarrow> y \<in> ids_of es"
  by (cases "en_parentId e") (auto simp: follows_def split: if_splits)

lemma walk_entries:
  "entries_ok es \<Longrightarrow> \<forall>x. i = Some x \<longrightarrow> x \<in> ids_of es \<Longrightarrow> walk n (id_index es) i = Some p
    \<Longrightarrow> distinct (map en_id p) \<and> set p \<subseteq> set es"
proof (induction es arbitrary: i n p rule: rev_induct)
  case Nil
  then show ?case by (cases i) auto
next
  case (snoc e es)
  then have ok: "entries_ok es" and f: "follows es e" by auto
  show ?case
  proof (cases i)
    case None
    with snoc.prems show ?thesis by simp
  next
    case (Some x)
    show ?thesis
    proof (cases "x = en_id e")
      case True
      obtain m where m: "n = Suc m" using snoc.prems(3) Some by (cases n) auto
      have "walk n (id_index (es @ [e])) i = map_option (Cons e) (walk m (id_index (es @ [e])) (truthy (en_parentId e)))"
        using Some True m by (simp add: id_index_def)
      with snoc.prems(3) obtain q where q: "walk m (id_index (es @ [e])) (truthy (en_parentId e)) = Some q" "p = e # q"
        by (metis (no_types, lifting) map_option_eq_Some)
      from q(1) walk_fresh [OF ok f truthy_parent [OF f]]
      have "walk m (id_index es) (truthy (en_parentId e)) = Some q" by simp
      from snoc.IH [OF ok truthy_parent [OF f] this] q(2) f show ?thesis
        by (auto simp: follows_def image_iff)
    next
      case False
      with snoc.prems(2) Some have up: "\<forall>y. i = Some y \<longrightarrow> y \<in> ids_of es" by auto
      from snoc.prems(3) walk_fresh [OF ok f up] have "walk n (id_index es) i = Some p" by metis
      from snoc.IH [OF ok up this] show ?thesis by auto
    qed
  qed
qed

lemma leaf_known: "wf_core s \<Longrightarrow> \<forall>x. truthy (sm_leaf s) = Some x \<longrightarrow> x \<in> ids_of (getEntries s)"
  by (cases "sm_leaf s") (auto simp: wf_core_def)

lemma ids_not_empty: "entries_ok es \<Longrightarrow> [] \<notin> ids_of es"
  by (induction es rule: rev_induct) (auto simp: follows_def)

lemma truthy_leaf: "wf_core s \<Longrightarrow> truthy (sm_leaf s) = sm_leaf s"
  using ids_not_empty [of "getEntries s"] by (cases "sm_leaf s") (auto simp: wf_core_def image_iff)

text \<open>The branch of the leaf after an entry was added below it.\<close>

lemma getBranch_grow:
  assumes wf: "wf_core s" and f: "follows (getEntries s) e" and p: "en_parentId e = sm_leaf s"
    and b: "getBranch n None s = Some path" and t: "sm_byId t = sm_byId (grow e s)" "sm_leaf t = Some (en_id e)"
  shows "getBranch (Suc n) None t = Some (path @ [e])"
proof -
  have ne: "en_id e \<noteq> []" using f by (simp add: follows_def)
  have idx: "sm_byId s = id_index (getEntries s)" and ok: "entries_ok (getEntries s)"
    using wf by (simp_all add: wf_core_def)
  have "walk n (id_index (getEntries s @ [e])) (truthy (sm_leaf s)) = walk n (id_index (getEntries s)) (truthy (sm_leaf s))"
    by (rule walk_fresh [OF ok f leaf_known [OF wf]])
  moreover obtain q where "walk n (id_index (getEntries s)) (truthy (sm_leaf s)) = Some q" "path = rev q"
    using b by (auto simp: getBranch_def idx)
  ultimately show ?thesis using ne by (simp add: getBranch_def t idx p)
qed

lemma getBranch_entries:
  assumes "wf_core s" and "getBranch n None s = Some path"
  shows "distinct (map en_id path) \<and> set path \<subseteq> set (getEntries s)"
proof -
  have idx: "sm_byId s = id_index (getEntries s)" and ok: "entries_ok (getEntries s)"
    using assms(1) by (simp_all add: wf_core_def)
  from assms(2) obtain q where "walk n (id_index (getEntries s)) (truthy (sm_leaf s)) = Some q" "path = rev q"
    by (auto simp: getBranch_def idx)
  with walk_entries [OF ok leaf_known [OF assms(1)]] show ?thesis by (auto simp: rev_map [symmetric])
qed

text \<open>The context of a session is the context of its leaf's branch.\<close>

lemma manager_context_branch:
  assumes "wf_core s"
  shows "manager_context n date s = map_option (context_of_path date) (getBranch (Suc n) None s)"
proof (cases "sm_leaf s")
  case None
  then show ?thesis
    by (simp add: manager_context_def buildSessionContext_def getBranch_def context_of_path_def context_messages_def
        empty_context_def)
next
  case (Some i)
  have ne: "i \<noteq> []" using truthy_leaf [OF assms] Some by auto
  have "i \<in> ids_of (getEntries s)" using assms Some by (simp add: wf_core_def)
  then obtain e where e: "sm_byId s i = Some e"
    using assms by (metis id_index_eq_None not_None_eq wf_core_def)
  show ?thesis
    by (simp add: manager_context_def buildSessionContext_def getBranch_def Some ne e option.map_comp comp_def)
qed

section \<open>Contexts\<close>

lemma find_index_append: "find_index p xs = Some k \<Longrightarrow> find_index p (xs @ ys) = Some k"
  by (induction xs arbitrary: k) (auto split: if_splits)

lemma find_index_snoc: "\<forall>x\<in>set xs. \<not> p x \<Longrightarrow> p y \<Longrightarrow> find_index p (xs @ [y]) = Some (length xs)"
  by (induction xs) auto

definition is_compaction_entry :: "entry \<Rightarrow> bool" where
  "is_compaction_entry e = (case en_data e of D_compaction _ \<Rightarrow> True | _ \<Rightarrow> False)"

lemma settings_step_latest: "snd (settings_step e x) = (if is_compaction_entry e then Some e else snd x)"
  by (cases "en_data e")
    (auto simp: settings_step_def is_compaction_entry_def split: prod.splits agent_message.splits)

lemma settings_latest:
  "snd (fold settings_step p (c0, None)) = Some ce \<Longrightarrow> ce \<in> set p \<and> is_compaction_entry ce"
  by (induction p rule: rev_induct) (auto simp: settings_step_latest split: if_splits)

lemma context_messages_snoc:
  assumes "fold settings_step p (empty_context, None) = (c, latest)"
  shows "context_messages date (p @ [e]) latest = context_messages date p latest @ entry_messages date e"
proof (cases latest)
  case None
  then show ?thesis by (simp add: context_messages_def)
next
  case (Some ce)
  with assms have "snd (fold settings_step p (empty_context, None)) = Some ce" by simp
  then have ce: "ce \<in> set p" "is_compaction_entry ce" by (auto dest: settings_latest)
  then obtain cd where cd: "en_data ce = D_compaction cd" by (auto simp: is_compaction_entry_def split: entry_data.splits)
  have "\<exists>x\<in>set p. is_compaction (en_id ce) x" using ce(1) cd by (force simp: is_compaction_def)
  then obtain k where k: "find_index (is_compaction (en_id ce)) p = Some k"
    by (cases "find_index (is_compaction (en_id ce)) p") (auto simp: find_index_None)
  then have "k < length p" by (blast dest: find_index_Some)
  with k Some cd show ?thesis by (simp add: context_messages_def find_index_append Let_def)
qed

lemma context_of_path_messages:
  "sc_messages (context_of_path date p) =
     context_messages date p (snd (fold settings_step p (empty_context, None)))"
  by (simp add: context_of_path_def Let_def split: prod.splits)

lemma context_of_path_snoc:
  assumes "\<not> is_compaction_entry e"
  shows "sc_messages (context_of_path date (p @ [e])) = sc_messages (context_of_path date p) @ entry_messages date e"
proof (cases "fold settings_step p (empty_context, None)")
  case (Pair c latest)
  have "snd (settings_step e (c, latest)) = latest" using assms by (simp add: settings_step_latest)
  with Pair show ?thesis by (simp add: context_of_path_messages context_messages_snoc [OF Pair])
qed

lemma context_of_path_compaction:
  assumes "en_data ce = D_compaction c" and "en_id ce \<notin> ids_of (pre @ kept)" and "distinct (map en_id (pre @ kept))"
    and "kept \<noteq> []" and "cd_firstKeptEntryId c = en_id (hd kept)"
  shows "sc_messages (context_of_path date (pre @ kept @ [ce])) =
    createCompactionSummaryMessage date (cd_summary c) (cd_tokensBefore c) (en_timestamp ce) (cd_customInstructions c)
      (Some (length (concat (map (entry_messages date) kept)))) (cd_harnessDigest c) (cd_harnessStateFingerprint c)
    # concat (map (entry_messages date) kept)"
proof -
  have "snd (fold settings_step (pre @ kept @ [ce]) (empty_context, None)) = Some ce"
    using assms(1) by (simp add: settings_step_latest is_compaction_entry_def)
  moreover have "find_index (is_compaction (en_id ce)) ((pre @ kept) @ [ce]) = Some (length (pre @ kept))"
    using assms(1,2) by (intro find_index_snoc) (auto simp: is_compaction_def image_iff)
  moreover have "dropWhile (\<lambda>e. en_id e \<noteq> cd_firstKeptEntryId c) (pre @ kept) = kept"
  proof -
    have "\<forall>e\<in>set pre. en_id e \<noteq> en_id (hd kept)"
      using assms(3,4) by (auto dest!: list.set_sel(1))
    then have "dropWhile (\<lambda>e. en_id e \<noteq> en_id (hd kept)) (pre @ kept) = dropWhile (\<lambda>e. en_id e \<noteq> en_id (hd kept)) kept"
      by (simp add: dropWhile_append2)
    then show ?thesis using assms(4,5) by (cases kept) simp_all
  qed
  ultimately show ?thesis
    using assms(1) by (simp add: context_of_path_messages context_messages_def Let_def)
qed

section \<open>Chains of parents\<close>

text \<open>A list of entries, root first, in which each entry is the parent of the next.\<close>

fun chain :: "string option \<Rightarrow> entry list \<Rightarrow> bool" where
  "chain p [] \<longleftrightarrow> True"
| "chain p (e # es) \<longleftrightarrow> truthy (en_parentId e) = p \<and> chain (truthy (Some (en_id e))) es"

lemma chain_snoc:
  "chain p (es @ [e]) \<longleftrightarrow> chain p es \<and> truthy (en_parentId e) = (if es = [] then p else truthy (Some (en_id (last es))))"
  by (induction es arbitrary: p) auto

lemma walk_last:
  assumes "walk n m i = Some q"
  shows "q = [] \<or> (\<exists>x. i = Some x \<and> m x = Some (hd q))"
  using assms by (cases n; cases i) (auto split: option.splits)

lemma walk_chain:
  assumes "\<And>x e. m x = Some e \<Longrightarrow> x \<noteq> [] \<and> en_id e = x \<and> (\<forall>y. truthy (en_parentId e) = Some y \<longrightarrow> m y \<noteq> None)"
  shows "walk n m i = Some q \<Longrightarrow> chain None (rev q) \<and> (q = [] \<longrightarrow> (\<forall>x. i = Some x \<longrightarrow> m x = None))
    \<and> (q \<noteq> [] \<longrightarrow> i = Some (en_id (hd q)))"
proof (induction n arbitrary: i q)
  case 0
  then show ?case by (cases i) auto
next
  case (Suc n)
  show ?case
  proof (cases i)
    case None
    with Suc.prems show ?thesis by simp
  next
    case (Some x)
    show ?thesis
    proof (cases "m x")
      case None
      with Some Suc.prems show ?thesis by simp
    next
      case (Some e)
      with \<open>i = Some x\<close> Suc.prems obtain r where r: "walk n m (truthy (en_parentId e)) = Some r" "q = e # r" by auto
      note ih = Suc.IH [OF r(1)] and e = assms [OF Some]
      have "truthy (en_parentId e) = (if r = [] then None else truthy (Some (en_id (hd r))))"
      proof (cases "r = []")
        case True
        with ih e show ?thesis by (cases "truthy (en_parentId e)") auto
      next
        case False
        with ih walk_last [OF r(1)] have "truthy (en_parentId e) = Some (en_id (hd r))" "m (en_id (hd r)) \<noteq> None" by auto
        with False assms show ?thesis by auto
      qed
      with ih r(2) e \<open>i = Some x\<close> show ?thesis by (auto simp: chain_snoc last_rev)
    qed
  qed
qed

lemma getBranch_chain:
  assumes "wf_core s" and "getBranch n (Some leaf) s = Some path" and "path \<noteq> []"
  shows "chain None path" and "en_id (last path) = leaf" and "distinct (map en_id path)" and "[] \<notin> ids_of path"
    and "leaf \<noteq> []"
proof -
  have idx: "sm_byId s = id_index (getEntries s)" and ok: "entries_ok (getEntries s)"
    using assms(1) by (simp_all add: wf_core_def)
  obtain q where q: "walk n (id_index (getEntries s)) (truthy (Some leaf)) = Some q" "path = rev q"
    using assms(2) by (auto simp: getBranch_def idx)
  with assms(3) have ne: "leaf \<noteq> []" by (cases n) auto
  have good: "x \<noteq> [] \<and> en_id e = x \<and> (\<forall>y. truthy (en_parentId e) = Some y \<longrightarrow> id_index (getEntries s) y \<noteq> None)"
    if "id_index (getEntries s) x = Some e" for x e
    using id_index_Some [OF that] ids_not_empty [OF ok] parent_earlier [OF ok that]
    by (auto simp: id_index_eq_None image_iff)
  from walk_chain [OF good q(1)] q(2) assms(3) ne show "chain None path" "en_id (last path) = leaf"
    by (auto simp: last_rev)
  show "leaf \<noteq> []" by (rule ne)
  have "id_index (getEntries s) leaf \<noteq> None"
    using walk_last [OF q(1)] assms(3) q(2) ne by auto
  then have "\<forall>x. truthy (Some leaf) = Some x \<longrightarrow> x \<in> ids_of (getEntries s)"
    by (auto simp: id_index_eq_None)
  from walk_entries [OF ok this q(1)] q(2) show "distinct (map en_id path)" "[] \<notin> ids_of path"
    using ids_not_empty [OF ok] by (auto simp: rev_map [symmetric])
qed



section \<open>Properties\<close>

definition new_session :: "bool \<Rightarrow> session" where
  "new_session persist = newSession
     \<lparr>hd_version = Some 3, hd_id = ''s1'', hd_timestamp = ''t0'', hd_cwd = ''/w'', hd_parentSession = None,
      hd_rlmDepth = Some 0, hd_git = None\<rparr>
     \<lparr>sm_entries = [], sm_byId = Map.empty, sm_labels = Map.empty, sm_labelTimes = Map.empty, sm_leaf = None,
      sm_hasAssistant = False, sm_persist = persist, sm_flushed = False, sm_disk = Absent\<rparr>"

lemma reachable_new_session: "reachable_session (new_session p)"
  by (intro reach.intros) (auto simp: session_init_def new_session_def)

lemma reachable_wf: "reachable_session s \<Longrightarrow> tree_wf s"
  by (rule session_machine.inv_reach)






definition flushed_session :: session where
  "flushed_session = snd (appendSessionInfo True ''a1'' ''t1'' '' work '' (new_session True))"

lemma reachable_flushed: "reachable_session flushed_session"
  unfolding flushed_session_def
  by (rule reach_step [OF reachable_new_session], rule st_info)
    (simp add: fresh_id_def new_session_def newSession_def)


text \<open>
  An append that fails halfway leaves the torn file believed to be up to date: the entry stays in
  memory, a flush does nothing, and the next append goes behind the torn line.
\<close>

definition torn_session :: session where
  "torn_session = snd (appendSessionInfo False ''a2'' ''t2'' '' more '' flushed_session)"

lemma torn_append_believed:
  "reachable_session torn_session \<and> sm_flushed torn_session \<and> sm_disk torn_session = Torn
   \<and> map en_id (getEntries torn_session) = [''a1'', ''a2'']
   \<and> flushNow True torn_session = (Inr (), torn_session)
   \<and> sm_disk (snd (appendSessionInfo True ''a3'' ''t3'' '' x '' torn_session)) = Torn"
proof -
  have "fresh_id ''a2'' flushed_session"
    by (simp add: fresh_id_def flushed_session_def appendSessionInfo_def append_data_def appendEntry_def persist_entry_def
        new_session_def newSession_def rewriteFile_def is_assistant_entry_def)
  then have "reachable_session torn_session"
    unfolding torn_session_def by (rule reach_step [OF reachable_flushed st_info])
  then show ?thesis
    by (simp add: torn_session_def flushed_session_def appendSessionInfo_def append_data_def appendEntry_def
        persist_entry_def new_session_def newSession_def rewriteFile_def is_assistant_entry_def getEntries_def flushNow_def)
qed

lemma append_data_branch:
  assumes "reachable_session s" and "fresh_id i s" and "plain_data d" and "getBranch n None s = Some path"
  shows "getBranch (Suc n) None (snd (append_data io i ts d s)) =
    Some (path @ [\<lparr>en_id = i, en_parentId = sm_leaf s, en_timestamp = ts, en_data = d\<rparr>])"
proof -
  let ?e = "\<lparr>en_id = i, en_parentId = sm_leaf s, en_timestamp = ts, en_data = d\<rparr>"
  have wf: "wf_core s" using assms(1) reachable_wf by (simp add: tree_wf_def)
  obtain f k where st: "snd (append_data io i ts d s) = grow ?e s\<lparr>sm_flushed := f, sm_disk := k\<rparr>"
    unfolding snd_append_data appendEntry_grow by (rule persist_entry_cases)
  have p: "attribution_target ?e = None" using plain_entry [OF assms(3), of ?e] by simp
  have f: "follows (getEntries s) ?e"
    using assms(2) p wf by (intro follows_leaf) (auto simp: wf_core_def)
  show ?thesis by (rule getBranch_grow [OF wf f _ assms(4)]) (simp_all add: st)
qed

text \<open>
  Appending a message extends the current branch by exactly one entry and the model context
  by exactly that message, even when writing it to the file fails.
\<close>

lemma appendMessage_extends:
  "reachable_session s \<Longrightarrow> fresh_id i s \<Longrightarrow> getBranch n None s = Some path \<Longrightarrow>
   snd (appendMessage io i ts m s) = t \<Longrightarrow>
     getBranch (Suc n) None t = Some (path @ [\<lparr>en_id = i, en_parentId = sm_leaf s, en_timestamp = ts, en_data = D_message m\<rparr>])
     \<and> map_option sc_messages (manager_context n date t) = Some (sc_messages (context_of_path date path) @ [m])"
proof -
  assume a: "reachable_session s" "fresh_id i s" "getBranch n None s = Some path" "snd (appendMessage io i ts m s) = t"
  let ?e = "\<lparr>en_id = i, en_parentId = sm_leaf s, en_timestamp = ts, en_data = D_message m\<rparr>"
  have b: "getBranch (Suc n) None t = Some (path @ [?e])"
    using append_data_branch [OF a(1,2) _ a(3)] a(4) unfolding appendMessage_def by auto
  have "reachable_session t" using reach_step [OF a(1) st_message [OF a(2)]] a(4) by metis
  then have "wf_core t" using reachable_wf by (simp add: tree_wf_def)
  from manager_context_branch [OF this] b
  have "manager_context n date t = Some (context_of_path date (path @ [?e]))" by simp
  with b show ?thesis
    by (simp add: context_of_path_snoc is_compaction_entry_def entry_messages_def)
qed

lemma compaction_branch:
  assumes "reachable_session s" and "fresh_id i s" and "getBranch n None s = Some (pre @ kept)" and "kept \<noteq> []"
    and "cd_firstKeptEntryId c = en_id (hd kept)"
  shows "map_option sc_messages (manager_context n date (snd (appendCompaction io i ts c s))) = Some
    (createCompactionSummaryMessage date (cd_summary c) (cd_tokensBefore c) ts (cd_customInstructions c)
      (Some (length (concat (map (entry_messages date) kept)))) (cd_harnessDigest c) (cd_harnessStateFingerprint c)
    # concat (map (entry_messages date) kept))"
proof -
  let ?t = "snd (appendCompaction io i ts c s)"
  let ?e = "\<lparr>en_id = i, en_parentId = sm_leaf s, en_timestamp = ts, en_data = D_compaction c\<rparr>"
  have b: "getBranch (Suc n) None ?t = Some ((pre @ kept) @ [?e])"
    unfolding appendCompaction_def by (rule append_data_branch [OF assms(1,2) _ assms(3)]) simp
  have "reachable_session ?t" using reach_step [OF assms(1) st_compaction [OF assms(2)]] by blast
  then have "wf_core ?t" using reachable_wf by (simp add: tree_wf_def)
  from manager_context_branch [OF this] b
  have ctx: "manager_context n date ?t = Some (context_of_path date (pre @ kept @ [?e]))" by simp
  have wf: "wf_core s" using assms(1) reachable_wf by (simp add: tree_wf_def)
  from getBranch_entries [OF this assms(3)] have d: "distinct (map en_id (pre @ kept))"
    and sub: "set (pre @ kept) \<subseteq> set (getEntries s)" by auto
  have "i \<notin> ids_of (getEntries s)" using assms(2) wf by (simp add: fresh_id_def wf_core_def id_index_eq_None)
  with sub have "en_id ?e \<notin> ids_of (pre @ kept)" by auto
  from context_of_path_compaction [OF _ this d assms(4,5)] show ?thesis by (simp add: ctx)
qed

text \<open>
  C12: After a compaction the model context is the summary, carrying the number of messages kept,
  followed by exactly the messages of the entries from the first kept one on.
\<close>

theorem compaction_context:
  "reachable_session s \<Longrightarrow> fresh_id i s \<Longrightarrow> getBranch n None s = Some (pre @ kept) \<Longrightarrow> kept \<noteq> [] \<Longrightarrow>
   cd_firstKeptEntryId c = en_id (hd kept) \<Longrightarrow> retained = concat (map (entry_messages date) kept) \<Longrightarrow>
     map_option sc_messages (manager_context n date (snd (appendCompaction io i ts c s))) = Some
       (createCompactionSummaryMessage date (cd_summary c) (cd_tokensBefore c) ts (cd_customInstructions c)
          (Some (length retained)) (cd_harnessDigest c) (cd_harnessStateFingerprint c) # retained)"
  by (simp add: compaction_branch)

definition one_message :: session where
  "one_message = snd (appendMessage True ''a1'' ''t1'' (user_text ''hi'' NaN) (new_session False))"

definition sample_compaction :: compaction_data where
  "sample_compaction = \<lparr>cd_summary = ''sum'', cd_firstKeptEntryId = ''a1'', cd_firstKeptEntryIndex = None,
     cd_tokensBefore = 7, cd_details = None, cd_fromHook = False, cd_customInstructions = None, cd_usage = None,
     cd_harnessDigest = None, cd_harnessStateFingerprint = None\<rparr>"

lemma reachable_one_message: "reachable_session one_message"
  unfolding one_message_def
  by (rule reach_step [OF reachable_new_session], rule st_message)
    (simp add: fresh_id_def new_session_def newSession_def)

lemma compaction_context_witness:
  "map_option sc_messages (manager_context 1 (\<lambda>_. NaN)
     (snd (appendCompaction True ''a2'' ''t2'' sample_compaction one_message)))
   = Some [createCompactionSummaryMessage (\<lambda>_. NaN) ''sum'' 7 ''t2'' None (Some 1) None None, user_text ''hi'' NaN]"
proof -
  let ?e = "\<lparr>en_id = ''a1'', en_parentId = None, en_timestamp = ''t1'', en_data = D_message (user_text ''hi'' NaN)\<rparr>"
  have b: "getBranch 1 None one_message = Some ([] @ [?e])"
    and f: "fresh_id ''a2'' one_message"
    by (simp_all add: one_message_def appendMessage_def append_data_def appendEntry_def persist_entry_def new_session_def
        newSession_def getBranch_def fresh_id_def)
  show ?thesis
    using compaction_context [OF reachable_one_message f b _ _ refl, of sample_compaction "\<lambda>_. NaN" True "''t2''"]
    by (simp add: sample_compaction_def entry_messages_def)
qed




section \<open>Branched sessions\<close>

lemma walk_of_chain:
  assumes "\<forall>e\<in>set path. m (en_id e) = Some e \<and> en_id e \<noteq> []"
  shows "chain None path \<Longrightarrow>
    walk (length path) m (if path = [] then None else Some (en_id (last path))) = Some (rev path)"
  using assms
proof (induction path rule: rev_induct)
  case (snoc e path)
  then have "walk (length path) m (if path = [] then None else Some (en_id (last path))) = Some (rev path)"
    by (simp add: chain_snoc)
  moreover have "truthy (en_parentId e) = (if path = [] then None else Some (en_id (last path)))"
    using snoc.prems by (auto simp: chain_snoc dest!: last_in_set)
  ultimately show ?case using snoc.prems(2) by simp
qed simp

lemma label_chain_ids:
  assumes "\<And>used. finite used \<Longrightarrow> fresh used \<notin> used"
  shows "finite used \<Longrightarrow> ids_of (label_chain fresh used p ls) \<inter> used = {}"
proof (induction ls arbitrary: used p)
  case (Cons l ls)
  obtain t lb ts where l: "l = (t, lb, ts)" by (cases l) auto
  have "ids_of (label_chain fresh (insert (fresh used) used) (Some (fresh used)) ls) \<inter> insert (fresh used) used = {}"
    by (rule Cons.IH) (use Cons.prems in simp)
  moreover have "fresh used \<notin> used" using assms Cons.prems by blast
  ultimately show ?case unfolding l by (simp add: Let_def)
qed simp

text \<open>The labels that a chain of label entries sets.\<close>

lemma label_chain_labels:
  assumes "distinct (map fst ls)" and "\<forall>x\<in>set ls. fst (snd x) \<noteq> []"
  shows "fold label_step (label_chain fresh used p ls) x =
    (fst x ++ map_of (map (\<lambda>(t, l, ts). (t, l)) ls), snd x ++ map_of (map (\<lambda>(t, l, ts). (t, ts)) ls))"
  using assms
proof (induction ls arbitrary: used p x)
  case (Cons l ls)
  obtain t lb ts where l: "l = (t, lb, ts)" by (cases l) auto
  have m: "(f(t \<mapsto> v)) ++ map_of (map g ls) = f ++ (map_of (map g ls))(t \<mapsto> v)"
    if "\<And>y. fst (g y) = fst y" for f :: "string \<rightharpoonup> 'b" and v and g :: "string \<times> string \<times> string \<Rightarrow> string \<times> 'b"
  proof -
    have "map_of (map g ls) t = None"
      using Cons.prems(1) that by (auto simp: map_of_eq_None_iff l image_iff)
    then show ?thesis by (auto simp: map_add_def fun_eq_iff split: option.splits)
  qed
  have "fold label_step (label_chain fresh used p (l # ls)) x =
    fold label_step (label_chain fresh (insert (fresh used) used) (Some (fresh used)) ls)
      ((fst x)(t \<mapsto> lb), (snd x)(t \<mapsto> ts))"
    using Cons.prems(2) by (simp add: l Let_def label_step_def)
  also have "\<dots> = (((fst x)(t \<mapsto> lb)) ++ map_of (map (\<lambda>(t, l, ts). (t, l)) ls),
      ((snd x)(t \<mapsto> ts)) ++ map_of (map (\<lambda>(t, l, ts). (t, ts)) ls))"
    using Cons.prems by (subst Cons.IH) auto
  also have "((fst x)(t \<mapsto> lb)) ++ map_of (map (\<lambda>(t, l, ts). (t, l)) ls) =
      fst x ++ (map_of (map (\<lambda>(t, l, ts). (t, l)) ls))(t \<mapsto> lb)"
    by (rule m) auto
  also have "((snd x)(t \<mapsto> ts)) ++ map_of (map (\<lambda>(t, l, ts). (t, ts)) ls) =
      snd x ++ (map_of (map (\<lambda>(t, l, ts). (t, ts)) ls))(t \<mapsto> ts)"
    by (rule m) auto
  finally show ?case by (simp only: l list.map prod.case map_of.simps fst_conv snd_conv)
qed (cases x, simp)

definition labels_on :: "(string \<rightharpoonup> string) \<Rightarrow> (string \<rightharpoonup> string) \<Rightarrow> string set \<Rightarrow> string \<Rightarrow> (string \<times> string \<times> string) list" where
  "labels_on m m' ids t = (case (m t, m' t) of
     (Some l, Some ts) \<Rightarrow> (if t \<in> ids then [(t, l, ts)] else []) | _ \<Rightarrow> [])"

lemma labels_on_fst:
  "map fst (concat (map (labels_on m m' ids) order)) = filter (\<lambda>t. m t \<noteq> None \<and> m' t \<noteq> None \<and> t \<in> ids) order"
  by (induction order) (auto simp: labels_on_def split: option.splits)

lemma labels_on_map_of:
  "map_of (map (\<lambda>(t, l, ts). (t, l)) (concat (map (labels_on m m' ids) order))) x =
     (if x \<in> set order \<and> x \<in> ids \<and> m' x \<noteq> None then m x else None)"
  by (induction order) (auto simp: labels_on_def split: option.splits)

lemma label_index_shape:
  "\<forall>t. (fst (label_index es) t = None) = (snd (label_index es) t = None) \<and> fst (label_index es) t \<noteq> Some []"
proof (induction es rule: rev_induct)
  case Nil
  then show ?case by (simp add: label_index_def)
next
  case (snoc e es)
  have "truthy lb \<noteq> Some []" for lb by (cases lb) auto
  with snoc show ?case by (auto simp: label_step_def split: entry_data.splits option.splits)
qed

lemma label_index_unlabelled: "list_all (\<lambda>e. \<not> is_label e) es \<Longrightarrow> fold label_step es x = x"
  by (induction es arbitrary: x) (auto simp: label_step_plain)

lemma id_index_append:
  "en_id e \<notin> ids_of ys \<Longrightarrow> id_index (xs @ ys) (en_id e) = id_index xs (en_id e)"
  by (induction ys rule: rev_induct) (auto simp: append_assoc [symmetric] simp del: append_assoc)

text \<open>
  A session branched off at an entry whose path holds no label entry has that path as its
  branch, and its labels are those of the entries on the path.
\<close>

lemma branched_session_keeps_path:
  "reachable_session s \<Longrightarrow> getBranch n (Some leaf) s = Some path \<Longrightarrow> path \<noteq> [] \<Longrightarrow> list_all (\<lambda>e. \<not> is_label e) path \<Longrightarrow>
   (\<And>used. finite used \<Longrightarrow> fresh used \<notin> used) \<Longrightarrow> distinct order \<Longrightarrow> set order = dom (sm_labels s) \<Longrightarrow>
   createBranchedSession n h fresh order io leaf s = Some (r, t) \<Longrightarrow>
     getBranch (length path) (Some leaf) t = Some path \<and> sm_labels t = sm_labels s |` set (map en_id path)"
proof -
  assume a: "reachable_session s" "getBranch n (Some leaf) s = Some path" "path \<noteq> []" "list_all (\<lambda>e. \<not> is_label e) path"
    "\<And>used. finite used \<Longrightarrow> fresh used \<notin> used" "distinct order" "set order = dom (sm_labels s)"
    "createBranchedSession n h fresh order io leaf s = Some (r, t)"
  have wf: "wf_core s" using a(1) reachable_wf by (simp add: tree_wf_def)
  note path = getBranch_chain [OF wf a(2,3)]
  let ?ids = "set (map en_id path)"
  let ?labels = "concat (map (labels_on (sm_labels s) (sm_labelTimes s) ?ids) order)"
  let ?ch = "label_chain fresh ?ids (truthy (Some (en_id (last path)))) ?labels"
  have kept: "filter (\<lambda>e. \<not> is_label e) path = path" using a(4) by (simp add: filter_id_conv list_all_iff)
  have ent: "getEntries t = path @ ?ch" and tr: "sm_byId t = id_index (path @ ?ch)" "sm_labels t = fst (label_index (path @ ?ch))"
    using a(8) unfolding createBranchedSession_def a(2) option.case kept if_not_P [OF a(3)] labels_on_def [symmetric]
    by (auto simp: Let_def buildIndex_eq refreshHasAssistantEntry_def rewriteFile_def getEntries_def a(3) split: if_splits)
  have disj: "ids_of ?ch \<inter> ?ids = {}" by (rule label_chain_ids [OF a(5)]) simp_all
  have m: "\<forall>e\<in>set path. sm_byId t (en_id e) = Some e \<and> en_id e \<noteq> []"
  proof
    fix e assume e: "e \<in> set path"
    then have "en_id e \<notin> ids_of ?ch" using disj by force
    with id_index_append id_index_member [OF path(3) e] path(4) e
    show "sm_byId t (en_id e) = Some e \<and> en_id e \<noteq> []" by (force simp: tr)
  qed
  have "getBranch (length path) (Some leaf) t = Some path"
    using walk_of_chain [OF m path(1)] path(2,5) a(3) by (simp add: getBranch_def)
  moreover have "sm_labels t = sm_labels s |` ?ids"
  proof -
    have idx: "(sm_labels s, sm_labelTimes s) = label_index (getEntries s)" using wf by (simp add: wf_core_def)
    have shape: "(sm_labels s x = None) = (sm_labelTimes s x = None) \<and> sm_labels s x \<noteq> Some []" for x
      using label_index_shape [of "getEntries s"] idx by (metis fst_conv snd_conv)
    have "distinct (map fst ?labels)" unfolding labels_on_fst by (rule distinct_filter [OF a(6)])
    moreover have "\<forall>x\<in>set ?labels. fst (snd x) \<noteq> []"
    proof
      fix x assume "x \<in> set ?labels"
      then have "sm_labels s (fst x) = Some (fst (snd x))"
        by (auto simp: labels_on_def split: option.splits if_splits)
      with shape [of "fst x"] show "fst (snd x) \<noteq> []" by auto
    qed
    ultimately have "label_index (path @ ?ch) =
        (Map.empty ++ map_of (map (\<lambda>(t, l, ts). (t, l)) ?labels), Map.empty ++ map_of (map (\<lambda>(t, l, ts). (t, ts)) ?labels))"
      unfolding label_index_def fold_append o_apply label_index_unlabelled [OF a(4)]
      by (simp only: label_chain_labels fst_conv snd_conv)
    then have "sm_labels t = map_of (map (\<lambda>(t, l, ts). (t, l)) ?labels)" by (simp add: tr)
    then have val: "sm_labels t x = (if x \<in> set order \<and> x \<in> ?ids \<and> sm_labelTimes s x \<noteq> None then sm_labels s x else None)"
      for x by (simp add: labels_on_map_of)
    show ?thesis
    proof
      fix x
      show "sm_labels t x = (sm_labels s |` ?ids) x"
        unfolding val a(7) using shape [of x] by (auto simp: restrict_map_def domIff)
    qed
  qed
  ultimately show ?thesis by blast
qed

text \<open>A session with a message, a label on it, and a message below the label.\<close>

definition fresh_label :: "string set \<Rightarrow> string" where
  "fresh_label used = (if ''L1'' \<in> used then ''L2'' else ''L1'')"

definition labelled_session :: session where
  "labelled_session = snd (appendMessage True ''a3'' ''t3'' (user_text ''two'' NaN)
     (snd (appendLabelChange True ''a2'' ''t2'' ''a1'' (Some ''mark'') one_message)))"

lemma labelled_session_eval:
  "getEntries labelled_session =
     [\<lparr>en_id = ''a1'', en_parentId = None, en_timestamp = ''t1'', en_data = D_message (user_text ''hi'' NaN)\<rparr>,
      \<lparr>en_id = ''a2'', en_parentId = Some ''a1'', en_timestamp = ''t2'', en_data = D_label ''a1'' (Some ''mark'')\<rparr>,
      \<lparr>en_id = ''a3'', en_parentId = Some ''a2'', en_timestamp = ''t3'', en_data = D_message (user_text ''two'' NaN)\<rparr>]"
  by (simp add: labelled_session_def one_message_def appendMessage_def appendLabelChange_def append_data_def appendEntry_def
      persist_entry_def new_session_def newSession_def getEntries_def is_assistant_entry_def user_text_def)

lemma reachable_labelled: "reachable_session labelled_session"
proof -
  have r1: "reachable_session one_message" by (rule reachable_one_message)
  let ?s2 = "snd (appendLabelChange True ''a2'' ''t2'' ''a1'' (Some ''mark'') one_message)"
  have r2: "reachable_session ?s2"
    by (rule reach_step [OF r1], rule st_label)
      (simp_all add: fresh_id_def one_message_def appendMessage_def appendLabelChange_def append_data_def appendEntry_def
        persist_entry_def new_session_def newSession_def is_assistant_entry_def user_text_def)
  have "fresh_id ''a3'' ?s2"
    by (simp add: fresh_id_def one_message_def appendMessage_def appendLabelChange_def append_data_def appendEntry_def
        persist_entry_def new_session_def newSession_def is_assistant_entry_def user_text_def)
  then show ?thesis
    unfolding labelled_session_def by (rule reach_step [OF r2 st_message])
qed

lemma labelled_fields:
  "sm_byId labelled_session = id_index (getEntries labelled_session)"
  "sm_labels labelled_session = [''a1'' \<mapsto> ''mark'']" "sm_labelTimes labelled_session = [''a1'' \<mapsto> ''t2'']"
  "\<not> sm_persist labelled_session"
  using reachable_wf [OF reachable_labelled]
  by (simp_all add: tree_wf_def wf_core_def)
    (simp_all add: labelled_session_def one_message_def appendMessage_def appendLabelChange_def append_data_def appendEntry_def
    persist_entry_def new_session_def newSession_def getEntries_def is_assistant_entry_def user_text_def)

lemma labelled_path: "getBranch 4 (Some ''a3'') labelled_session = Some (getEntries labelled_session)"
  by (simp add: getBranch_def labelled_fields(1) labelled_session_eval id_index_def eval_nat_numeral)



text \<open>
  A session branched off below a label entry loses the history before the label: the label
  entries are left out of the copied path, but the entry below one keeps it as its parent, so
  its branch in the new session is that entry alone.
\<close>

theorem branched_session_drops_history:
  "reachable_session labelled_session
   \<and> map_option (map en_id) (getBranch 4 (Some ''a3'') labelled_session) = Some [''a1'', ''a2'', ''a3'']
   \<and> (\<exists>t. createBranchedSession 4 h fresh_label [''a1''] True ''a3'' labelled_session = Some (Inr (), t)
        \<and> map en_id (getEntries t) = [''a1'', ''a3'', ''L1'']
        \<and> map_option (map en_id) (getBranch 4 (Some ''a3'') t) = Some [''a3''])"
  using reachable_labelled
  by (simp add: labelled_path createBranchedSession_def labelled_fields labelled_session_eval is_label_def user_text_def
      fresh_label_def Let_def buildIndex_eq refreshHasAssistantEntry_def getBranch_def id_index_def eval_nat_numeral)

definition old_header :: header where
  "old_header = \<lparr>hd_version = None, hd_id = ''s'', hd_timestamp = ''t'', hd_cwd = ''/w'', hd_parentSession = None,
     hd_rlmDepth = None, hd_git = None\<rparr>"

section \<open>Migration\<close>

definition drawn :: "(nat \<Rightarrow> string list) \<Rightarrow> nat \<Rightarrow> string" where
  "drawn draws k = generateId (\<lambda>_. False) (draws k) []"

lemma relink_compaction_cong:
  assumes "length es = length fs"
    and "\<And>j c. d = D_compaction c \<Longrightarrow> cd_firstKeptEntryIndex c = Some j \<Longrightarrow> j < length es \<Longrightarrow> es ! j = fs ! j"
  shows "relink_compaction es d = relink_compaction fs d"
  using assms by (auto simp: relink_compaction_def split: entry_data.splits option.splits)

text \<open>What the pass has done to the array after its first \<open>m\<close> entries.\<close>

lemma migrate_prefix:
  fixes draws :: "nat \<Rightarrow> string list"
  assumes es: "es = Header h # map Entry xs" and m: "m \<le> length es"
  defines "r \<equiv> fold (migrate_step draws) [0..<m] (es, None)"
  shows "length (fst r) = length es
    \<and> (m > 0 \<longrightarrow> fst r ! 0 = Header (h\<lparr>hd_version := Some 2\<rparr>))
    \<and> (\<forall>k. 1 \<le> k \<and> k < m \<longrightarrow> (\<exists>d. fst r ! k = Entry ((xs ! (k - 1))\<lparr>en_id := drawn draws k,
          en_parentId := (if k = 1 then None else Some (drawn draws (k - 1))), en_data := d\<rparr>)
          \<and> (\<forall>c j. en_data (xs ! (k - 1)) = D_compaction c \<and> cd_firstKeptEntryIndex c = Some j \<and> 1 \<le> j \<and> j \<le> k \<longrightarrow>
               d = D_compaction (c\<lparr>cd_firstKeptEntryId := drawn draws j, cd_firstKeptEntryIndex := None\<rparr>))))
    \<and> (\<forall>k. m \<le> k \<and> k < length es \<longrightarrow> fst r ! k = es ! k)
    \<and> snd r = (if m \<le> 1 then None else Some (drawn draws (m - 1)))"
  using m unfolding r_def
proof (induction m)
  case 0
  then show ?case by simp
next
  case (Suc m)
  then have lt: "m < length es" and le: "m \<le> length es" by auto
  obtain fs p where r: "fold (migrate_step draws) [0..<m] (es, None) = (fs, p)" by (metis surj_pair)
  have ih: "length fs = length es" "m > 0 \<longrightarrow> fs ! 0 = Header (h\<lparr>hd_version := Some 2\<rparr>)"
    "\<And>k. 1 \<le> k \<Longrightarrow> k < m \<Longrightarrow> (\<exists>d. fs ! k = Entry ((xs ! (k - 1))\<lparr>en_id := drawn draws k,
          en_parentId := (if k = 1 then None else Some (drawn draws (k - 1))), en_data := d\<rparr>)
          \<and> (\<forall>c j. en_data (xs ! (k - 1)) = D_compaction c \<and> cd_firstKeptEntryIndex c = Some j \<and> 1 \<le> j \<and> j \<le> k \<longrightarrow>
               d = D_compaction (c\<lparr>cd_firstKeptEntryId := drawn draws j, cd_firstKeptEntryIndex := None\<rparr>)))"
    "\<And>k. m \<le> k \<Longrightarrow> k < length es \<Longrightarrow> fs ! k = es ! k"
    "p = (if m \<le> 1 then None else Some (drawn draws (m - 1)))"
    using Suc.IH [OF le] unfolding r by auto
  have step: "fold (migrate_step draws) [0..<Suc m] (es, None) = migrate_step draws m (fs, p)"
    by (simp add: r)
  show ?case
  proof (cases m)
    case 0
    then have "fs ! 0 = Header h" "p = None" using ih(4,5) es by auto
    then have "migrate_step draws m (fs, p) = (fs[0 := Header (h\<lparr>hd_version := Some 2\<rparr>)], None)"
      by (simp add: migrate_step_def 0)
    with ih 0 es show ?thesis unfolding step by (auto simp: nth_list_update)
  next
    case (Suc q)
    let ?x = "xs ! q"
    have at: "fs ! m = Entry ?x" using ih(4) [of m] lt es Suc by auto
    let ?e = "?x\<lparr>en_id := drawn draws m, en_parentId := p\<rparr>"
    let ?fs = "fs[m := Entry ?e]"
    let ?d = "relink_compaction ?fs (en_data ?x)"
    have run: "migrate_step draws m (fs, p) = (fs[m := Entry (?e\<lparr>en_data := ?d\<rparr>)], Some (drawn draws m))"
      by (simp add: migrate_step_def at drawn_def set_entry_def Let_def)
    have p: "p = (if m = 1 then None else Some (drawn draws (m - 1)))" using ih(5) Suc by auto
    have rel: "?d = D_compaction (c\<lparr>cd_firstKeptEntryId := drawn draws j, cd_firstKeptEntryIndex := None\<rparr>)"
      if c: "en_data ?x = D_compaction c" "cd_firstKeptEntryIndex c = Some j" "1 \<le> j" "j \<le> m" for c j
    proof -
      have "\<exists>t. ?fs ! j = Entry t \<and> en_id t = drawn draws j"
      proof (cases "j = m")
        case True
        then show ?thesis using lt ih(1) by simp
      next
        case False
        with c(3,4) ih(3) [of j] show ?thesis by auto
      qed
      with c lt ih(1) show ?thesis by (auto simp: relink_compaction_def)
    qed
    show ?thesis unfolding step run
    proof (intro conjI allI impI)
      fix k assume k: "1 \<le> k \<and> k < Suc m"
      show "\<exists>d. fst (fs[m := Entry (?e\<lparr>en_data := ?d\<rparr>)], Some (drawn draws m)) ! k = Entry ((xs ! (k - 1))\<lparr>en_id := drawn draws k,
          en_parentId := (if k = 1 then None else Some (drawn draws (k - 1))), en_data := d\<rparr>)
          \<and> (\<forall>c j. en_data (xs ! (k - 1)) = D_compaction c \<and> cd_firstKeptEntryIndex c = Some j \<and> 1 \<le> j \<and> j \<le> k \<longrightarrow>
               d = D_compaction (c\<lparr>cd_firstKeptEntryId := drawn draws j, cd_firstKeptEntryIndex := None\<rparr>))"
      proof (cases "k = m")
        case True
        have "xs ! (k - 1) = ?x" using True Suc by simp
        with True lt ih(1) p rel show ?thesis by (intro exI [of _ ?d]) simp
      next
        case False
        with k have "k < m" by simp
        with ih(3) [of k] k show ?thesis by auto
      qed
    qed (use ih lt Suc in auto)
  qed
qed

text \<open>
  Migrating a file of the first version turns it into one chain: entry k gets the k-th drawn id
  and, as parent, the id of the entry before it, and a compaction that named its first kept entry
  by an index up to its own position now names that entry's id.
\<close>

lemma migration_links_entries:
  "1 \<le> k \<Longrightarrow> k \<le> length xs \<Longrightarrow>
     length (migrateV1ToV2 draws (Header h # map Entry xs)) = Suc (length xs)
     \<and> (\<exists>e. migrateV1ToV2 draws (Header h # map Entry xs) ! k = Entry e
        \<and> en_id e = generateId (\<lambda>_. False) (draws k) []
        \<and> en_parentId e = (if k = 1 then None else Some (generateId (\<lambda>_. False) (draws (k - 1)) []))
        \<and> en_timestamp e = en_timestamp (xs ! (k - 1))
        \<and> (\<forall>c j. en_data (xs ! (k - 1)) = D_compaction c \<and> cd_firstKeptEntryIndex c = Some j \<and> 1 \<le> j \<and> j \<le> k \<longrightarrow>
             (\<exists>t. migrateV1ToV2 draws (Header h # map Entry xs) ! j = Entry t
               \<and> en_data e = D_compaction (c\<lparr>cd_firstKeptEntryId := en_id t, cd_firstKeptEntryIndex := None\<rparr>))))"
proof -
  assume k: "1 \<le> k" "k \<le> length xs"
  let ?es = "Header h # map Entry xs" and ?ys = "migrateV1ToV2 draws (Header h # map Entry xs)"
  note pre = migrate_prefix [OF refl order_refl, where h = h and xs = xs and draws = draws, folded migrateV1ToV2_def]
  have len: "length ?ys = Suc (length xs)" using pre by simp
  have at: "\<exists>d. ?ys ! i = Entry ((xs ! (i - 1))\<lparr>en_id := drawn draws i,
          en_parentId := (if i = 1 then None else Some (drawn draws (i - 1))), en_data := d\<rparr>)
          \<and> (\<forall>c j. en_data (xs ! (i - 1)) = D_compaction c \<and> cd_firstKeptEntryIndex c = Some j \<and> 1 \<le> j \<and> j \<le> i \<longrightarrow>
               d = D_compaction (c\<lparr>cd_firstKeptEntryId := drawn draws j, cd_firstKeptEntryIndex := None\<rparr>))"
    if "1 \<le> i" "i \<le> length xs" for i
    using pre that by simp
  from at [OF k] obtain d where d: "?ys ! k = Entry ((xs ! (k - 1))\<lparr>en_id := drawn draws k,
          en_parentId := (if k = 1 then None else Some (drawn draws (k - 1))), en_data := d\<rparr>)"
    and c: "\<And>c j. en_data (xs ! (k - 1)) = D_compaction c \<Longrightarrow> cd_firstKeptEntryIndex c = Some j \<Longrightarrow> 1 \<le> j \<Longrightarrow> j \<le> k \<Longrightarrow>
               d = D_compaction (c\<lparr>cd_firstKeptEntryId := drawn draws j, cd_firstKeptEntryIndex := None\<rparr>)"
    by blast
  have target: "\<exists>t. ?ys ! j = Entry t \<and> en_id t = drawn draws j" if "1 \<le> j" "j \<le> k" for j
    using at [of j] that k by force
  show ?thesis
  proof (rule conjI [OF len], rule exI [of _ "(xs ! (k - 1))\<lparr>en_id := drawn draws k,
          en_parentId := (if k = 1 then None else Some (drawn draws (k - 1))), en_data := d\<rparr>"], intro conjI allI impI)
    fix c j
    assume a: "en_data (xs ! (k - 1)) = D_compaction c \<and> cd_firstKeptEntryIndex c = Some j \<and> 1 \<le> j \<and> j \<le> k"
    with target obtain t where t: "?ys ! j = Entry t" "en_id t = drawn draws j" by blast
    with a c show "\<exists>t. ?ys ! j = Entry t \<and> en_data ((xs ! (k - 1))\<lparr>en_id := drawn draws k,
          en_parentId := (if k = 1 then None else Some (drawn draws (k - 1))), en_data := d\<rparr>) =
        D_compaction (c\<lparr>cd_firstKeptEntryId := en_id t, cd_firstKeptEntryIndex := None\<rparr>)"
      by (intro exI [of _ t]) simp
  qed (simp_all add: d drawn_def)
qed

definition old_entry :: "entry_data \<Rightarrow> entry" where
  "old_entry d = \<lparr>en_id = [], en_parentId = None, en_timestamp = ''t'', en_data = d\<rparr>"

text \<open>
  The ids a migration draws are checked against a set that stays empty: when a draw repeats, two
  entries share an id, the second is its own parent, and looking up the branch of the migrated
  session never ends.
\<close>

theorem migration_may_loop:
  "\<not> (\<exists>n path. getBranch n None (buildIndex (s\<lparr>sm_entries := migrateV1ToV2 (\<lambda>_. [''deadbeef''])
       (Header h # map Entry [old_entry (D_message m1), old_entry (D_message m2)])\<rparr>)) = Some path)"
proof -
  have "migrateV1ToV2 (\<lambda>_. [''deadbeef'']) (Header h # map Entry [old_entry (D_message m1), old_entry (D_message m2)]) =
    [Header (h\<lparr>hd_version := Some 2\<rparr>), Entry (old_entry (D_message m1)\<lparr>en_id := ''deadbeef''\<rparr>),
     Entry (old_entry (D_message m2)\<lparr>en_id := ''deadbeef'', en_parentId := Some ''deadbeef''\<rparr>)]"
    by (simp add: migrateV1ToV2_def migrate_step_def generateId_def set_entry_def relink_compaction_def old_entry_def
        Let_def upt_rec)
  moreover have "walk n [''deadbeef'' \<mapsto> old_entry d\<lparr>en_id := ''deadbeef'', en_parentId := Some ''deadbeef''\<rparr>]
     (Some ''deadbeef'') = None" for n d
    by (induction n) simp_all
  ultimately show ?thesis
    by (simp add: buildIndex_eq getBranch_def getEntries_def id_index_def)
qed

end
