(* ===== verification/Compaction.thy ===== *)
theory Compaction
  imports Session_Tree "HOL-Library.List_Lexorder" "HOL-Library.Char_ord"
begin

text \<open>
  Compaction of a long branch: \<open>packages/coding-agent/src/core/compaction/compaction.ts\<close> and
  \<open>utils.ts\<close>. Token estimates, the choice of the cut, what is summarised and what is kept, the
  file lists, the text handed to the summariser, and the assembly of the summary from the
  answers of the model, which are a parameter.
\<close>

section \<open>Token estimates\<close>

definition text_block_length :: "content_block \<Rightarrow> nat" where
  "text_block_length b = (case b of Text_content s _ \<Rightarrow> length s | Image_content _ _ \<Rightarrow> 0)"

definition result_block_length :: "content_block \<Rightarrow> nat" where
  "result_block_length b = (case b of Text_content s _ \<Rightarrow> length s | Image_content _ _ \<Rightarrow> 4800)"

definition assistant_block_length :: "assistant_block \<Rightarrow> nat" where
  "assistant_block_length b = (case b of
     A_text s _ \<Rightarrow> length s
   | A_thinking s _ _ \<Rightarrow> length s
   | A_tool_call c \<Rightarrow> length (tc_name c) + length (json_stringify (tc_arguments c)))"

definition message_chars :: "agent_message \<Rightarrow> nat" where
  "message_chars m = (case m of
     User_msg u \<Rightarrow> (case um_content u of Plain s \<Rightarrow> length s | Blocks bs \<Rightarrow> sum_list (map text_block_length bs))
   | Assistant_msg a \<Rightarrow> sum_list (map assistant_block_length (am_content a))
   | Custom_msg c \<Rightarrow> (case cm_content c of Plain s \<Rightarrow> length s | Blocks bs \<Rightarrow> sum_list (map result_block_length bs))
   | Tool_result_msg t \<Rightarrow> sum_list (map result_block_length (tr_content t))
   | Bash_msg b \<Rightarrow> length (be_command b) + length (be_output b)
   | Branch_summary_msg b \<Rightarrow> length (bs_summary b)
   | Compaction_summary_msg c \<Rightarrow> length (cs_summary c))"

text \<open>\<open>Math.ceil(chars / 4)\<close>.\<close>

definition estimateTokens :: "agent_message \<Rightarrow> nat" where
  "estimateTokens m = (message_chars m + 3) div 4"

definition calculateContextTokens :: "usage \<Rightarrow> int" where
  "calculateContextTokens u = (if u_totalTokens u \<noteq> 0 then u_totalTokens u
     else u_input u + u_output u + u_cacheRead u + u_cacheWrite u)"

definition getAssistantUsage :: "agent_message \<Rightarrow> usage option" where
  "getAssistantUsage m = (case m of
     Assistant_msg a \<Rightarrow> (if am_stopReason a \<noteq> Aborted \<and> am_stopReason a \<noteq> Error_stop then Some (am_usage a) else None)
   | _ \<Rightarrow> None)"

definition getLastAssistantUsage :: "entry list \<Rightarrow> usage option" where
  "getLastAssistantUsage es = (case List.map_filter (\<lambda>e. case en_data e of
       D_message m \<Rightarrow> getAssistantUsage m | _ \<Rightarrow> None) (rev es) of [] \<Rightarrow> None | u # _ \<Rightarrow> Some u)"

record context_usage =
  cu_tokens :: int
  cu_usageTokens :: int
  cu_trailingTokens :: int
  cu_lastUsageIndex :: "nat option"

definition getLastAssistantUsageInfo :: "agent_message list \<Rightarrow> (usage \<times> nat) option" where
  "getLastAssistantUsageInfo ms =
     (case find (\<lambda>i. getAssistantUsage (ms ! i) \<noteq> None) (rev [0..<length ms]) of
        Some i \<Rightarrow> Some (the (getAssistantUsage (ms ! i)), i) | None \<Rightarrow> None)"

definition estimateContextTokens :: "agent_message list \<Rightarrow> context_usage" where
  "estimateContextTokens ms = (case getLastAssistantUsageInfo ms of
     None \<Rightarrow> (let n = int (sum_list (map estimateTokens ms)) in
        \<lparr>cu_tokens = n, cu_usageTokens = 0, cu_trailingTokens = n, cu_lastUsageIndex = None\<rparr>)
   | Some (u, i) \<Rightarrow> (let n = int (sum_list (map estimateTokens (drop (Suc i) ms))); k = calculateContextTokens u in
        \<lparr>cu_tokens = k + n, cu_usageTokens = k, cu_trailingTokens = n, cu_lastUsageIndex = Some i\<rparr>))"

record compaction_settings =
  co_enabled :: bool
  co_reserveTokens :: int
  co_keepRecentTokens :: int

definition DEFAULT_COMPACTION_SETTINGS :: compaction_settings where
  "DEFAULT_COMPACTION_SETTINGS = \<lparr>co_enabled = True, co_reserveTokens = 16384, co_keepRecentTokens = 20000\<rparr>"

definition shouldCompact :: "int \<Rightarrow> int \<Rightarrow> compaction_settings \<Rightarrow> bool" where
  "shouldCompact tokens window st =
     (if \<not> co_enabled st then False
      else if window \<le> 0 then False
      else tokens > window - co_reserveTokens st)"

section \<open>Messages of entries\<close>

definition getMessageFromEntry :: "(string \<Rightarrow> jsnumber) \<Rightarrow> entry \<Rightarrow> agent_message option" where
  "getMessageFromEntry date e = (case en_data e of
     D_message m \<Rightarrow> Some m
   | D_custom_message ty content display details \<Rightarrow>
       Some (createCustomMessage date ty content display details (en_timestamp e))
   | D_branch_summary fromId summary _ _ _ \<Rightarrow> Some (createBranchSummaryMessage date summary fromId (en_timestamp e))
   | D_compaction c \<Rightarrow> Some (createCompactionSummaryMessage date (cd_summary c) (cd_tokensBefore c) (en_timestamp e)
       (cd_customInstructions c) None None None)
   | _ \<Rightarrow> None)"

definition getMessageFromEntryForCompaction :: "(string \<Rightarrow> jsnumber) \<Rightarrow> entry \<Rightarrow> agent_message option" where
  "getMessageFromEntryForCompaction date e = (case en_data e of
     D_compaction _ \<Rightarrow> None
   | D_custom_message ty _ _ _ \<Rightarrow>
       (if ty = HARNESS_DIGEST_CUSTOM_TYPE then None else getMessageFromEntry date e)
   | _ \<Rightarrow> getMessageFromEntry date e)"

section \<open>The cut\<close>

definition is_boundary_entry :: "entry \<Rightarrow> bool" where
  "is_boundary_entry e = (case en_data e of
     D_branch_summary _ _ _ _ _ \<Rightarrow> True | D_custom_message _ _ _ _ \<Rightarrow> True | _ \<Rightarrow> False)"

definition is_cut_point :: "entry \<Rightarrow> bool" where
  "is_cut_point e = (is_boundary_entry e \<or> (case en_data e of
     D_message (Tool_result_msg _) \<Rightarrow> False | D_message _ \<Rightarrow> True | _ \<Rightarrow> False))"

definition findValidCutPoints :: "entry list \<Rightarrow> nat \<Rightarrow> nat \<Rightarrow> nat list" where
  "findValidCutPoints es start stop = filter (\<lambda>i. is_cut_point (es ! i)) [start..<stop]"

definition is_turn_start :: "entry \<Rightarrow> bool" where
  "is_turn_start e = (is_boundary_entry e \<or> (case en_data e of
     D_message (User_msg _) \<Rightarrow> True | D_message (Bash_msg _) \<Rightarrow> True | _ \<Rightarrow> False))"

text \<open>None is the -1 of the source.\<close>

definition findTurnStartIndex :: "entry list \<Rightarrow> nat \<Rightarrow> nat \<Rightarrow> nat option" where
  "findTurnStartIndex es i start = find (\<lambda>k. is_turn_start (es ! k)) (rev [start..<Suc i])"

record cut_point =
  cp_firstKept :: nat
  cp_turnStart :: "nat option"
  cp_isSplitTurn :: bool

text \<open>The backward walk that accumulates token estimates; None where it does not reach the budget.\<close>

fun cut_scan :: "entry list \<Rightarrow> nat list \<Rightarrow> int \<Rightarrow> int \<Rightarrow> nat list \<Rightarrow> nat option" where
  "cut_scan es cps keep acc [] = None"
| "cut_scan es cps keep acc (i # is) = (case en_data (es ! i) of
     D_message m \<Rightarrow>
       (let acc1 = acc + int (estimateTokens m) in
        if acc1 \<ge> keep
        then Some (case find (\<lambda>c. c \<ge> i) cps of Some c \<Rightarrow> c | None \<Rightarrow> last cps)
        else cut_scan es cps keep acc1 is)
   | _ \<Rightarrow> cut_scan es cps keep acc is)"

text \<open>The loop that moves the cut back over entries without a message.\<close>

fun back_over :: "entry list \<Rightarrow> nat \<Rightarrow> nat \<Rightarrow> nat" where
  "back_over es start 0 = 0"
| "back_over es start (Suc c) =
     (if start < Suc c \<and> (case en_data (es ! c) of D_compaction _ \<Rightarrow> False | D_message _ \<Rightarrow> False | _ \<Rightarrow> True)
      then back_over es start c else Suc c)"

definition findCutPoint :: "entry list \<Rightarrow> nat \<Rightarrow> nat \<Rightarrow> int \<Rightarrow> cut_point" where
  "findCutPoint es start stop keep =
     (let cps = findValidCutPoints es start stop in
      if cps = [] then \<lparr>cp_firstKept = start, cp_turnStart = None, cp_isSplitTurn = False\<rparr>
      else let c0 = (case cut_scan es cps keep 0 (rev [start..<stop]) of Some c \<Rightarrow> c | None \<Rightarrow> hd cps);
               c = back_over es start c0;
               isUser = (case en_data (es ! c) of D_message (User_msg _) \<Rightarrow> True | _ \<Rightarrow> False);
               ts = (if isUser then None else findTurnStartIndex es c start)
           in \<lparr>cp_firstKept = c, cp_turnStart = ts, cp_isSplitTurn = (\<not> isUser \<and> ts \<noteq> None)\<rparr>)"

section \<open>File lists\<close>

record file_ops =
  fo_read :: "string set"
  fo_written :: "string set"
  fo_edited :: "string set"

definition createFileOps :: file_ops where
  "createFileOps = \<lparr>fo_read = {}, fo_written = {}, fo_edited = {}\<rparr>"

definition json_items :: "json option \<Rightarrow> json list" where
  "json_items v = (case v of Some (JArr xs) \<Rightarrow> xs | _ \<Rightarrow> [])"

text \<open>A field that is a non-empty string.\<close>

definition path_field :: "json \<Rightarrow> string option" where
  "path_field v = (case json_field ''path'' v of Some (JStr s) \<Rightarrow> truthy (Some s) | _ \<Rightarrow> None)"

definition add_edited :: "string option \<Rightarrow> file_ops \<Rightarrow> file_ops" where
  "add_edited p ops = (case p of Some f \<Rightarrow> ops\<lparr>fo_edited := insert f (fo_edited ops)\<rparr> | None \<Rightarrow> ops)"

definition extractFileOpsFromToolResult :: "tool_result_message \<Rightarrow> file_ops \<Rightarrow> file_ops" where
  "extractFileOpsFromToolResult t ops =
     (if tr_toolName t \<noteq> ''ipython'' then ops
      else fold (\<lambda>d. add_edited (path_field d))
        (json_items (case tr_details t of Some v \<Rightarrow> json_field ''diffs'' v | None \<Rightarrow> None)) ops)"

definition extractFileOpsFromMessage :: "agent_message \<Rightarrow> file_ops \<Rightarrow> file_ops" where
  "extractFileOpsFromMessage m ops = (case m of
     Tool_result_msg t \<Rightarrow> extractFileOpsFromToolResult t ops
   | Assistant_msg a \<Rightarrow> fold (\<lambda>c. if tc_name c = ''edit'' then add_edited (path_field (tc_arguments c)) else (\<lambda>o1. o1))
       (tool_calls_of (am_content a)) ops
   | _ \<Rightarrow> ops)"

definition json_strings :: "json list \<Rightarrow> string set" where
  "json_strings xs = set (List.map_filter (\<lambda>v. case v of JStr s \<Rightarrow> Some s | _ \<Rightarrow> None) xs)"

text \<open>The lists a compaction stores hold strings only.\<close>

definition extractFileOperations :: "agent_message list \<Rightarrow> entry list \<Rightarrow> nat option \<Rightarrow> file_ops" where
  "extractFileOperations ms es prev =
     (let ops0 = (case prev of
            None \<Rightarrow> createFileOps
          | Some p \<Rightarrow> (case en_data (es ! p) of
              D_compaction c \<Rightarrow> (case (cd_fromHook c, cd_details c) of
                  (False, Some d) \<Rightarrow> createFileOps
                    \<lparr>fo_read := json_strings (json_items (json_field ''readFiles'' d)),
                     fo_edited := json_strings (json_items (json_field ''modifiedFiles'' d))\<rparr>
                | _ \<Rightarrow> createFileOps)
            | _ \<Rightarrow> createFileOps))
      in fold extractFileOpsFromMessage ms ops0)"

definition FILE_LIST_MAX_ENTRIES :: nat where "FILE_LIST_MAX_ENTRIES = 200"

definition computeFileLists :: "file_ops \<Rightarrow> string list \<times> string list" where
  "computeFileLists ops =
     (let modified = fo_edited ops \<union> fo_written ops in
      (take FILE_LIST_MAX_ENTRIES (sorted_list_of_set (fo_read ops - modified)),
       take FILE_LIST_MAX_ENTRIES (sorted_list_of_set modified)))"

definition formatFileOperations :: "string list \<Rightarrow> string list \<Rightarrow> string" where
  "formatFileOperations readFiles modifiedFiles =
     (let sections = (if readFiles \<noteq> [] then [''<read-files>'' @ nl @ join_with nl readFiles @ nl @ ''</read-files>''] else [])
          @ (if modifiedFiles \<noteq> [] then [''<modified-files>'' @ nl @ join_with nl modifiedFiles @ nl @ ''</modified-files>''] else [])
      in if sections = [] then [] else nl @ nl @ join_with (nl @ nl) sections)"

section \<open>The text for the summariser\<close>

definition TOOL_RESULT_MAX_CHARS :: nat where "TOOL_RESULT_MAX_CHARS = 2000"
definition TOOL_RESULT_TAIL_CHARS :: nat where "TOOL_RESULT_TAIL_CHARS = 500"

definition truncation_marker :: "int \<Rightarrow> int \<Rightarrow> string" where
  "truncation_marker elided headChars = ''[... '' @ int_text elided @ '' characters truncated; first ''
     @ int_text headChars @ '' and last '' @ int_text (int TOOL_RESULT_TAIL_CHARS) @ '' kept ...]''"

text \<open>\<open>text.slice(0, n)\<close>, which for a negative n counts from the end.\<close>

definition slice_to :: "int \<Rightarrow> string \<Rightarrow> string" where
  "slice_to n s = (if n < 0 then take (length s - nat (- n)) s else take (nat n) s)"

definition truncateForSummary :: "string \<Rightarrow> nat \<Rightarrow> string" where
  "truncateForSummary s maxChars =
     (if length s \<le> maxChars then s
      else let markerMaxLength = length (truncation_marker (int (length s)) (int maxChars));
               headChars = int maxChars - int TOOL_RESULT_TAIL_CHARS - int markerMaxLength - 4;
               elided = int (length s) - headChars - int TOOL_RESULT_TAIL_CHARS
           in slice_to headChars s @ nl @ nl @ truncation_marker elided headChars @ nl @ nl
              @ drop (length s - TOOL_RESULT_TAIL_CHARS) s)"

definition text_of_blocks :: "content_block list \<Rightarrow> string" where
  "text_of_blocks bs = concat (map (\<lambda>b. case b of Text_content s _ \<Rightarrow> s | Image_content _ _ \<Rightarrow> []) bs)"

text \<open>The state of \<open>serializeConversation\<close>: the parts, the index of each call id, the last index.\<close>

type_synonym serial = "string list \<times> (string \<rightharpoonup> nat) \<times> nat"

definition arguments_text :: "json \<Rightarrow> string" where
  "arguments_text v = (case v of
     JObj ps \<Rightarrow> join_with '', '' (map (\<lambda>(k, x). k @ ''='' @ json_stringify x) ps) | _ \<Rightarrow> [])"

definition number_call :: "tool_call \<Rightarrow> (string \<rightharpoonup> nat) \<times> nat \<times> string list \<Rightarrow> (string \<rightharpoonup> nat) \<times> nat \<times> string list" where
  "number_call c x = (case x of (ids, n, out) \<Rightarrow>
     (ids(tc_id c \<mapsto> n + 1), n + 1,
      out @ [''#'' @ int_text (int (n + 1)) @ '' '' @ tc_name c @ ''('' @ arguments_text (tc_arguments c) @ '')'']))"

definition serialize_message :: "agent_message \<Rightarrow> serial \<Rightarrow> serial" where
  "serialize_message m x = (case x of (parts, ids, n) \<Rightarrow> (case m of
     User_msg u \<Rightarrow>
       (let content = (case um_content u of Plain s \<Rightarrow> s | Blocks bs \<Rightarrow> text_of_blocks bs)
        in (parts @ (if content \<noteq> [] then [''[User]: '' @ content] else []), ids, n))
   | Assistant_msg a \<Rightarrow>
       (let texts = List.map_filter (\<lambda>b. case b of A_text s _ \<Rightarrow> Some s | _ \<Rightarrow> None) (am_content a);
            thinks = List.map_filter (\<lambda>b. case b of A_thinking s _ _ \<Rightarrow> Some s | _ \<Rightarrow> None) (am_content a);
            (ids1, n1, calls) = fold number_call (tool_calls_of (am_content a)) (ids, n, [])
        in (parts @ (if thinks \<noteq> [] then [''[Assistant thinking]: '' @ join_with nl thinks] else [])
              @ (if texts \<noteq> [] then [''[Assistant]: '' @ join_with nl texts] else [])
              @ (if calls \<noteq> [] then [''[Assistant tool calls]: '' @ join_with ''; '' calls] else []), ids1, n1))
   | Tool_result_msg t \<Rightarrow>
       (let content = text_of_blocks (tr_content t);
            suffix = (case ids (tr_toolCallId t) of None \<Rightarrow> [] | Some k \<Rightarrow> '' #'' @ int_text (int k));
            label = (if tr_isError t then ''[Tool result ('' @ tr_toolName t @ '', error)'' @ suffix @ '']''
                     else ''[Tool result ('' @ tr_toolName t @ '')'' @ suffix @ '']'')
        in (parts @ (if content \<noteq> [] then [label @ '': '' @ truncateForSummary content TOOL_RESULT_MAX_CHARS] else []), ids, n))
   | _ \<Rightarrow> x))"

definition serializeConversation :: "agent_message list \<Rightarrow> string" where
  "serializeConversation ms = join_with (nl @ nl) (fst (fold serialize_message ms ([], Map.empty, 0)))"

section \<open>Preparation\<close>

record compaction_preparation =
  pr_firstKeptEntryId :: string
  pr_messagesToSummarize :: "agent_message list"
  pr_turnPrefixMessages :: "agent_message list"
  pr_isSplitTurn :: bool
  pr_tokensBefore :: int
  pr_previousSummary :: "string option"
  pr_fileOps :: file_ops
  pr_settings :: compaction_settings

text \<open>\<open>buildSessionContext(entries)\<close> without a leaf indexes the entries itself.\<close>

definition entries_index :: "entry list \<Rightarrow> (string \<rightharpoonup> entry)" where
  "entries_index es = fold (\<lambda>e m. m(en_id e \<mapsto> e)) es Map.empty"

definition messages_between :: "(string \<Rightarrow> jsnumber) \<Rightarrow> entry list \<Rightarrow> nat \<Rightarrow> nat \<Rightarrow> agent_message list" where
  "messages_between date es i j = List.map_filter (\<lambda>k. getMessageFromEntryForCompaction date (es ! k)) [i..<j]"

definition is_compaction_at :: "entry list \<Rightarrow> nat \<Rightarrow> bool" where
  "is_compaction_at es i = (case en_data (es ! i) of D_compaction _ \<Rightarrow> True | _ \<Rightarrow> False)"

definition compaction_start :: "entry list \<Rightarrow> nat option \<times> string option \<times> nat" where
  "compaction_start es = (case find (is_compaction_at es) (rev [0..<length es]) of
     None \<Rightarrow> (None, None, 0)
   | Some p \<Rightarrow> (case en_data (es ! p) of
       D_compaction c \<Rightarrow> (Some p, Some (cd_summary c),
         (case find_index (\<lambda>e. en_id e = cd_firstKeptEntryId c) es of Some k \<Rightarrow> k | None \<Rightarrow> p + 1))
     | _ \<Rightarrow> (Some p, None, 0)))"

text \<open>
  \<open>prepareCompaction\<close>. The outer option is the fuel of the walk that builds the context, the inner
  one the source's undefined.
\<close>

definition prepareCompaction ::
    "nat \<Rightarrow> (string \<Rightarrow> jsnumber) \<Rightarrow> entry list \<Rightarrow> compaction_settings \<Rightarrow> compaction_preparation option option" where
  "prepareCompaction n date es st =
     (if es \<noteq> [] \<and> is_compaction_at es (length es - 1) then Some None
      else let (prev, prevSummary, start) = compaction_start es
        in case buildSessionContext n date es None (entries_index es) of
          None \<Rightarrow> None
        | Some ctx \<Rightarrow> Some (
            let cut = findCutPoint es start (length es) (co_keepRecentTokens st);
                k = cp_firstKept cut
            in if \<not> (k < length es \<and> en_id (es ! k) \<noteq> []) then None
               else let historyEnd = (if cp_isSplitTurn cut then the (cp_turnStart cut) else k);
                        history = messages_between date es start historyEnd;
                        prefix = (if cp_isSplitTurn cut then messages_between date es (the (cp_turnStart cut)) k else [])
                    in if history = [] \<and> prefix = [] \<and> truthy prevSummary = None then None
                       else Some \<lparr>pr_firstKeptEntryId = en_id (es ! k), pr_messagesToSummarize = history,
                              pr_turnPrefixMessages = prefix, pr_isSplitTurn = cp_isSplitTurn cut,
                              pr_tokensBefore = cu_tokens (estimateContextTokens (sc_messages ctx)),
                              pr_previousSummary = prevSummary,
                              pr_fileOps = fold extractFileOpsFromMessage (if cp_isSplitTurn cut then prefix else [])
                                (extractFileOperations history es prev),
                              pr_settings = st\<rparr>))"

section \<open>The summary\<close>

record summary_slice =
  sl_summary :: string
  sl_usage :: "usage option"

text \<open>The wording of the fixed prompts.\<close>

record prompt_texts =
  pt_first :: string
  pt_update :: string
  pt_instructions_head :: string
  pt_kernel_note :: string
  pt_prefix :: string

record summary_request =
  rq_text :: string
  rq_maxTokens :: int

definition buildSummarizationPrompt :: "prompt_texts \<Rightarrow> string option \<Rightarrow> string option \<Rightarrow> string" where
  "buildSummarizationPrompt pt instr prev =
     (let base = (if truthy prev \<noteq> None then pt_update pt else pt_first pt);
          base1 = (case truthy instr of
            Some i \<Rightarrow> base @ nl @ nl @ ''<user-instructions>'' @ nl @ pt_instructions_head pt @ nl @ i @ nl @ ''</user-instructions>''
          | None \<Rightarrow> base)
      in base1 @ nl @ nl @ pt_kernel_note pt)"

text \<open>\<open>Math.floor(0.8 * reserveTokens)\<close> in exact arithmetic.\<close>

definition answer_slice :: "assistant_message \<Rightarrow> summary_slice option" where
  "answer_slice a =
     (if am_stopReason a = Error_stop then None
      else Some \<lparr>sl_summary = join_with nl (List.map_filter (\<lambda>b. case b of A_text s _ \<Rightarrow> Some s | _ \<Rightarrow> None) (am_content a)),
                 sl_usage = Some (am_usage a)\<rparr>)"

definition generateSummary ::
    "prompt_texts \<Rightarrow> (summary_request \<Rightarrow> assistant_message) \<Rightarrow> agent_message list \<Rightarrow> int \<Rightarrow> string option \<Rightarrow> string option
      \<Rightarrow> summary_slice option" where
  "generateSummary pt ask ms reserve instr prev =
     (let conversation = serializeConversation (convertToLlm ms);
          previous = (case truthy prev of
            Some p \<Rightarrow> ''<previous-summary>'' @ nl @ p @ nl @ ''</previous-summary>'' @ nl @ nl | None \<Rightarrow> [])
      in answer_slice (ask \<lparr>rq_text = ''<conversation>'' @ nl @ conversation @ nl @ ''</conversation>'' @ nl @ nl
            @ previous @ buildSummarizationPrompt pt instr prev, rq_maxTokens = (8 * reserve) div 10\<rparr>))"

definition generateTurnPrefixSummary ::
    "prompt_texts \<Rightarrow> (summary_request \<Rightarrow> assistant_message) \<Rightarrow> agent_message list \<Rightarrow> int \<Rightarrow> summary_slice option" where
  "generateTurnPrefixSummary pt ask ms reserve =
     answer_slice (ask \<lparr>rq_text = ''<conversation>'' @ nl @ serializeConversation (convertToLlm ms) @ nl
        @ ''</conversation>'' @ nl @ nl @ pt_prefix pt, rq_maxTokens = (5 * reserve) div 10\<rparr>)"

record compaction_result =
  cr_summary :: string
  cr_firstKeptEntryId :: string
  cr_tokensBefore :: int
  cr_details :: "string list \<times> string list"
  cr_usage :: "usage option"

definition slices_usage :: "summary_slice list \<Rightarrow> usage option" where
  "slices_usage sls = fold (\<lambda>s acc. case sl_usage s of
       None \<Rightarrow> acc
     | Some u \<Rightarrow> Some (addAssistantUsage (case acc of Some a \<Rightarrow> a | None \<Rightarrow> emptyUsage) u)) sls None"

text \<open>
  \<open>compact\<close>: None where a summary call fails. \<open>ask\<close> is the model's answer to a request.
\<close>

definition compact_run ::
    "prompt_texts \<Rightarrow> (summary_request \<Rightarrow> assistant_message) \<Rightarrow> string option \<Rightarrow> compaction_preparation
      \<Rightarrow> compaction_result option" where
  "compact_run pt ask instr p =
     (let reserve = co_reserveTokens (pr_settings p);
          slices = (if pr_isSplitTurn p \<and> pr_turnPrefixMessages p \<noteq> [] then
              (case (if pr_messagesToSummarize p \<noteq> []
                     then generateSummary pt ask (pr_messagesToSummarize p) reserve instr (pr_previousSummary p)
                     else Some \<lparr>sl_summary = ''No prior history.'', sl_usage = None\<rparr>,
                     generateTurnPrefixSummary pt ask (pr_turnPrefixMessages p) reserve) of
                 (Some h, Some t) \<Rightarrow> Some [h, t] | _ \<Rightarrow> None)
            else map_option (\<lambda>s. [s])
              (generateSummary pt ask (pr_messagesToSummarize p) reserve instr (pr_previousSummary p)))
      in case slices of
        None \<Rightarrow> None
      | Some sls \<Rightarrow>
          (let text = join_with (nl @ nl @ ''---'' @ nl @ nl @ ''**Turn Context (split turn):**'' @ nl @ nl) (map sl_summary sls);
               lists = computeFileLists (pr_fileOps p)
           in if pr_firstKeptEntryId p = [] then None
              else Some \<lparr>cr_summary = text @ formatFileOperations (fst lists) (snd lists),
                     cr_firstKeptEntryId = pr_firstKeptEntryId p, cr_tokensBefore = pr_tokensBefore p,
                     cr_details = lists, cr_usage = slices_usage sls\<rparr>))"

end
