(* ===== verification/Compaction_Cuts.thy ===== *)
theory Compaction_Cuts
  imports Compaction
begin

text \<open>
  What a compaction keeps and what it summarises: the cut never separates a tool result from its
  call, keeps about the budget, loses no message, and the text for the summariser is bounded.
\<close>

section \<open>Properties of the cut\<close>

definition is_message_entry :: "entry \<Rightarrow> bool" where
  "is_message_entry e = (case en_data e of D_message _ \<Rightarrow> True | _ \<Rightarrow> False)"

definition entry_tokens :: "entry \<Rightarrow> nat" where
  "entry_tokens e = (case en_data e of D_message m \<Rightarrow> estimateTokens m | _ \<Rightarrow> 0)"

definition tokens_between :: "entry list \<Rightarrow> nat \<Rightarrow> nat \<Rightarrow> nat" where
  "tokens_between es i j = sum_list (map (\<lambda>k. entry_tokens (es ! k)) [i..<j])"

lemma tokens_between_Suc: "i < j \<Longrightarrow> tokens_between es i j = entry_tokens (es ! i) + tokens_between es (Suc i) j"
  by (simp add: tokens_between_def upt_conv_Cons)

lemma tokens_between_mono: "i \<le> k \<Longrightarrow> tokens_between es k j \<le> tokens_between es i j"
proof (cases "k \<le> j")
  case True
  moreover assume "i \<le> k"
  ultimately have "[i..<j] = [i..<k] @ [k..<j]" by (metis le_add_diff_inverse upt_add_eq_append)
  then show ?thesis by (simp add: tokens_between_def)
qed (simp add: tokens_between_def)

lemma back_over_le: "back_over es a c \<le> c"
  by (induction c) auto

lemma back_over_ge: "a \<le> c \<Longrightarrow> a \<le> back_over es a c"
  by (induction c) auto

lemma back_over_skips: "back_over es a c \<le> i \<Longrightarrow> i < c \<Longrightarrow> \<not> is_message_entry (es ! i)"
proof (induction c)
  case (Suc c)
  then show ?case
    by (cases "i = c") (auto simp: is_message_entry_def split: if_splits entry_data.splits)
qed simp

lemma cut_points_mem: "c \<in> set (findValidCutPoints es a b) \<longleftrightarrow> a \<le> c \<and> c < b \<and> is_cut_point (es ! c)"
  by (auto simp: findValidCutPoints_def)

lemma cut_points_last:
  assumes "findValidCutPoints es a b \<noteq> []" and "last (findValidCutPoints es a b) < j" "a \<le> j" "j < b"
  shows "\<not> is_cut_point (es ! j)"
proof
  assume "is_cut_point (es ! j)"
  with assms have "j \<in> set (findValidCutPoints es a b)" by (simp add: cut_points_mem)
  then obtain i where i: "i < length (findValidCutPoints es a b)" "findValidCutPoints es a b ! i = j"
    by (auto simp: in_set_conv_nth)
  have "sorted (findValidCutPoints es a b)" unfolding findValidCutPoints_def by (simp add: sorted_wrt_filter)
  then have "j \<le> last (findValidCutPoints es a b)"
    using i assms(1) by (simp add: last_conv_nth sorted_nth_mono [of _ i] flip: i(2))
  with assms(2) show False by simp
qed

text \<open>What a cut at \<open>c\<close> keeps: little, or nothing that could be cut.\<close>

definition keeps_recent :: "entry list \<Rightarrow> nat \<Rightarrow> int \<Rightarrow> nat \<Rightarrow> bool" where
  "keeps_recent es b keep c \<longleftrightarrow>
     (\<forall>j. c < j \<and> j < b \<longrightarrow> \<not> is_cut_point (es ! j)) \<or> int (tokens_between es (Suc c) b) < keep"

lemma cut_scan_keeps:
  assumes "cps = findValidCutPoints es a b" and "cps \<noteq> []"
  shows "i \<le> b \<Longrightarrow> a \<le> i \<Longrightarrow> acc = int (tokens_between es i b) \<Longrightarrow> acc < keep \<Longrightarrow>
    (case cut_scan es cps keep acc (rev [a..<i]) of
       Some c \<Rightarrow> c \<in> set cps \<and> keeps_recent es b keep c
     | None \<Rightarrow> int (tokens_between es a b) < keep)"
proof (induction i arbitrary: acc)
  case 0
  then show ?case by simp
next
  case (Suc i)
  show ?case
  proof (cases "a \<le> i")
    case False
    with Suc.prems have "a = Suc i" by simp
    with Suc.prems show ?thesis by simp
  next
    case True
    have rev: "rev [a..<Suc i] = i # rev [a..<i]" using True by simp
    have tok: "int (tokens_between es i b) = acc + int (entry_tokens (es ! i))"
      using Suc.prems by (simp add: tokens_between_Suc)
    show ?thesis
    proof (cases "is_message_entry (es ! i)")
      case False
      then have "entry_tokens (es ! i) = 0"
        "cut_scan es cps keep acc (i # rev [a..<i]) = cut_scan es cps keep acc (rev [a..<i])"
        by (auto simp: entry_tokens_def is_message_entry_def split: entry_data.splits)
      with Suc.IH [of acc] Suc.prems True tok rev show ?thesis by simp
    next
      case msg: True
      then obtain m where m: "en_data (es ! i) = D_message m" by (auto simp: is_message_entry_def split: entry_data.splits)
      then have e: "entry_tokens (es ! i) = estimateTokens m" by (simp add: entry_tokens_def)
      show ?thesis
      proof (cases "acc + int (estimateTokens m) \<ge> keep")
        case False
        with Suc.IH [of "acc + int (estimateTokens m)"] Suc.prems True tok rev m e show ?thesis by (simp add: Let_def)
      next
        case reached: True
        define c where "c = (case find (\<lambda>c. c \<ge> i) cps of Some c \<Rightarrow> c | None \<Rightarrow> last cps)"
        have scan: "cut_scan es cps keep acc (i # rev [a..<i]) = Some c" using reached m by (simp add: c_def)
        have "c \<in> set cps \<and> keeps_recent es b keep c"
        proof (cases "find (\<lambda>c. c \<ge> i) cps")
          case None
          then have none: "\<forall>c\<in>set cps. c < i" by (auto simp: find_None_iff)
          have c: "c = last cps" using None by (simp add: c_def)
          have "\<not> is_cut_point (es ! j)" if "c < j" "j < b" for j
          proof -
            have "a \<le> c" using c assms last_in_set [OF assms(2)] by (auto simp: cut_points_mem)
            with that show ?thesis using cut_points_last [of es a b j] assms c by auto
          qed
          then show ?thesis using c assms(2) by (simp add: keeps_recent_def)
        next
          case (Some d)
          then have d: "d \<in> set cps" "i \<le> d" by (auto simp: find_Some_iff)
          have "tokens_between es (Suc d) b \<le> tokens_between es (Suc i) b" using d(2) by (intro tokens_between_mono) simp
          with Suc.prems have "int (tokens_between es (Suc d) b) < keep" by simp
          with d Some show ?thesis by (simp add: c_def keeps_recent_def)
        qed
        with rev scan show ?thesis by simp
      qed
    qed
  qed
qed

lemma findCutPoint_shape:
  assumes "findValidCutPoints es a b \<noteq> []"
  obtains c where "a \<le> c" "c < b" "is_cut_point (es ! c)" "cp_firstKept (findCutPoint es a b keep) = back_over es a c"
    "0 < keep \<Longrightarrow> keeps_recent es b keep c"
proof -
  let ?cps = "findValidCutPoints es a b"
  define c where "c = (case cut_scan es ?cps keep 0 (rev [a..<b]) of Some c \<Rightarrow> c | None \<Rightarrow> hd ?cps)"
  have k: "cp_firstKept (findCutPoint es a b keep) = back_over es a c"
    using assms by (simp add: findCutPoint_def Let_def c_def)
  have scan_mem: "cut_scan es ?cps keep acc is = Some d \<Longrightarrow> d \<in> set ?cps" for acc "is" d
  proof (induction "is" arbitrary: acc)
    case (Cons i "is")
    then show ?case
      using assms by (auto simp: find_Some_iff Let_def last_in_set split: entry_data.splits option.splits if_splits)
  qed simp
  have c: "c \<in> set ?cps" using scan_mem assms by (auto simp: c_def split: option.splits)
  then have le: "a \<le> c" "c < b" "is_cut_point (es ! c)" by (simp_all add: cut_points_mem)
  have "keeps_recent es b keep c" if pos: "0 < keep"
  proof -
    have ab: "a \<le> b" using le by simp
    have "case cut_scan es ?cps keep 0 (rev [a..<b]) of
       Some c \<Rightarrow> c \<in> set ?cps \<and> keeps_recent es b keep c
     | None \<Rightarrow> int (tokens_between es a b) < keep"
      by (rule cut_scan_keeps [OF refl assms order_refl ab _ pos]) (simp add: tokens_between_def)
    then show ?thesis
    proof (cases "cut_scan es ?cps keep 0 (rev [a..<b])")
      case None
      moreover have "tokens_between es (Suc c) b \<le> tokens_between es a b" using le(1) by (intro tokens_between_mono) simp
      ultimately show ?thesis using \<open>case cut_scan es ?cps keep 0 (rev [a..<b]) of Some c \<Rightarrow> _ c | None \<Rightarrow> _\<close>
        by (simp add: keeps_recent_def)
    qed (use \<open>case cut_scan es ?cps keep 0 (rev [a..<b]) of Some c \<Rightarrow> _ c | None \<Rightarrow> _\<close> in \<open>simp add: c_def\<close>)
  qed
  with k le that show thesis by blast
qed

definition sample_entry :: "string \<Rightarrow> agent_message \<Rightarrow> entry" where
  "sample_entry i m = \<lparr>en_id = i, en_parentId = None, en_timestamp = ''t'', en_data = D_message m\<rparr>"

definition sample_result :: agent_message where
  "sample_result = Tool_result_msg \<lparr>tr_toolCallId = ''c'', tr_toolName = ''bash'', tr_content = [Text_content ''out'' None],
     tr_details = None, tr_isError = False, tr_timestamp = NaN\<rparr>"

definition sample_branch :: "entry list" where
  "sample_branch = [sample_entry ''a'' (user_text ''one'' NaN), sample_entry ''b'' sample_result,
     sample_entry ''c'' (user_text ''two'' NaN), sample_entry ''d'' sample_result]"

lemma sample_branch_cuts [simp]: "findValidCutPoints sample_branch 0 4 = [0, 2]"
  by (simp add: findValidCutPoints_def sample_branch_def sample_entry_def sample_result_def user_text_def is_cut_point_def
      is_boundary_entry_def upt_rec)

text \<open>
  C15: A compaction never keeps a tool result without the call before it: from the first kept entry
  on, no message comes before an entry that may start the kept part, and a tool result is none.
\<close>

theorem cut_never_orphans_tool_results:
  "findValidCutPoints es a b \<noteq> [] \<Longrightarrow>
     \<exists>c. a \<le> cp_firstKept (findCutPoint es a b keep) \<and> cp_firstKept (findCutPoint es a b keep) \<le> c \<and> c < b
       \<and> list_all (\<lambda>i. \<not> is_message_entry (es ! i)) [cp_firstKept (findCutPoint es a b keep)..<c]
       \<and> is_cut_point (es ! c) \<and> \<not> (\<exists>t. en_data (es ! c) = D_message (Tool_result_msg t))"
proof -
  assume "findValidCutPoints es a b \<noteq> []"
  then obtain c where c: "a \<le> c" "c < b" "is_cut_point (es ! c)"
      "cp_firstKept (findCutPoint es a b keep) = back_over es a c"
    by (rule findCutPoint_shape)
  have "\<not> (\<exists>t. en_data (es ! c) = D_message (Tool_result_msg t))"
    using c(3) by (auto simp: is_cut_point_def is_boundary_entry_def)
  with c show ?thesis
    using back_over_le [of es a c] back_over_ge [OF c(1), of es] back_over_skips [of es a c]
    by (intro exI [of _ c]) (auto simp: list_all_iff)
qed

lemma cut_never_orphans_tool_results_witness:
  "cp_firstKept (findCutPoint sample_branch 0 4 1) \<le> 2"
proof -
  have "findValidCutPoints sample_branch 0 4 \<noteq> []" by simp
  from cut_never_orphans_tool_results [OF this, of 1] obtain c
    where "cp_firstKept (findCutPoint sample_branch 0 4 1) \<le> c" "c < 4" "is_cut_point (sample_branch ! c)" by blast
  moreover from this have "c \<in> set (findValidCutPoints sample_branch 0 4)" by (simp only: cut_points_mem) simp
  ultimately show ?thesis by auto
qed

lemma no_message_tokens: "\<not> is_message_entry e \<Longrightarrow> entry_tokens e = 0"
  by (auto simp: entry_tokens_def is_message_entry_def split: entry_data.splits)

text \<open>
  The kept part is small: the tokens of the messages behind the entry it starts with stay below
  the budget, unless none of the entries behind that one could have been the cut.
\<close>

lemma cut_keeps_recent_budget:
  "findValidCutPoints es a b \<noteq> [] \<Longrightarrow> 0 < keep \<Longrightarrow>
     \<exists>c. cp_firstKept (findCutPoint es a b keep) \<le> c \<and> is_cut_point (es ! c)
       \<and> tokens_between es (cp_firstKept (findCutPoint es a b keep)) c = 0
       \<and> ((\<forall>j. c < j \<and> j < b \<longrightarrow> \<not> is_cut_point (es ! j)) \<or> int (tokens_between es (Suc c) b) < keep)"
proof -
  assume a: "findValidCutPoints es a b \<noteq> []" "0 < keep"
  obtain c where c: "a \<le> c" "c < b" "is_cut_point (es ! c)"
      "cp_firstKept (findCutPoint es a b keep) = back_over es a c" "keeps_recent es b keep c"
    using findCutPoint_shape [OF a(1), of keep] a(2) by metis
  have "tokens_between es (back_over es a c) c = 0"
    unfolding tokens_between_def sum_list_eq_0_iff by (auto simp: back_over_skips no_message_tokens)
  with c a(2) back_over_le [of es a c] show ?thesis
    unfolding keeps_recent_def by (intro exI [of _ c]) simp
qed

lemma find_Some_mem: "find P xs = Some x \<Longrightarrow> x \<in> set xs \<and> P x"
  by (induction xs) (auto split: if_splits)

lemma findTurnStartIndex_range: "findTurnStartIndex es i a = Some t \<Longrightarrow> a \<le> t \<and> t \<le> i \<and> is_turn_start (es ! t)"
  unfolding findTurnStartIndex_def by (drule find_Some_mem) auto

lemma findCutPoint_split:
  "cp_isSplitTurn (findCutPoint es a b keep) \<Longrightarrow>
     cp_turnStart (findCutPoint es a b keep) = findTurnStartIndex es (cp_firstKept (findCutPoint es a b keep)) a
     \<and> cp_turnStart (findCutPoint es a b keep) \<noteq> None"
  by (simp add: findCutPoint_def Let_def split: if_splits)

lemma findCutPoint_range:
  assumes "cp_isSplitTurn (findCutPoint es a b keep)"
  shows "\<exists>t. cp_turnStart (findCutPoint es a b keep) = Some t \<and> a \<le> t \<and> t \<le> cp_firstKept (findCutPoint es a b keep)"
  using findCutPoint_split [OF assms] findTurnStartIndex_range by fastforce

lemma findCutPoint_ge: "a \<le> cp_firstKept (findCutPoint es a b keep)"
proof (cases "findValidCutPoints es a b = []")
  case True
  then show ?thesis by (simp add: findCutPoint_def)
next
  case False
  then obtain c where "a \<le> c" "cp_firstKept (findCutPoint es a b keep) = back_over es a c"
    by (rule findCutPoint_shape)
  with back_over_ge show ?thesis by simp
qed

lemma messages_between_append:
  "i \<le> j \<Longrightarrow> j \<le> k \<Longrightarrow> messages_between date es i j @ messages_between date es j k = messages_between date es i k"
proof -
  assume "i \<le> j" "j \<le> k"
  then have "[i..<k] = [i..<j] @ [j..<k]" by (metis le_add_diff_inverse upt_add_eq_append)
  then show ?thesis by (simp add: messages_between_def map_filter_def)
qed

lemma messages_between_empty [simp]: "messages_between date es i i = []"
  by (simp add: messages_between_def map_filter_def)

text \<open>
  C14: A compaction loses no message and summarises none twice: the history to summarise, the prefix
  of a split turn and what is kept from the first kept entry on are, in order, the messages since
  the previous compaction's first kept entry.
\<close>

theorem compaction_partitions_history:
  "prepareCompaction n date es st = Some (Some p) \<Longrightarrow>
     \<exists>k<length es. pr_firstKeptEntryId p = en_id (es ! k)
       \<and> pr_messagesToSummarize p @ pr_turnPrefixMessages p @ messages_between date es k (length es)
         = messages_between date es (snd (snd (compaction_start es))) (length es)"
proof -
  assume prep: "prepareCompaction n date es st = Some (Some p)"
  obtain prev summ start where cs: "compaction_start es = (prev, summ, start)" by (metis surj_pair)
  let ?cut = "findCutPoint es start (length es) (co_keepRecentTokens st)"
  let ?k = "cp_firstKept ?cut"
  let ?stop = "if cp_isSplitTurn ?cut then the (cp_turnStart ?cut) else ?k"
  from prep have p: "?k < length es" "pr_firstKeptEntryId p = en_id (es ! ?k)"
      "pr_messagesToSummarize p = messages_between date es start ?stop"
      "pr_turnPrefixMessages p = (if cp_isSplitTurn ?cut then messages_between date es (the (cp_turnStart ?cut)) ?k else [])"
    by (auto simp: prepareCompaction_def cs Let_def split: if_splits option.splits)
  have ge: "start \<le> ?k" by (rule findCutPoint_ge)
  have "start \<le> ?stop \<and> ?stop \<le> ?k"
    using findCutPoint_range [of es start "length es" "co_keepRecentTokens st"] ge by auto
  then have "pr_messagesToSummarize p @ pr_turnPrefixMessages p = messages_between date es start ?k"
    unfolding p(3,4) by (auto simp: messages_between_append)
  then have "pr_messagesToSummarize p @ pr_turnPrefixMessages p @ messages_between date es ?k (length es)
      = messages_between date es start (length es)"
    using ge p(1) by (metis append_assoc less_imp_le messages_between_append)
  with p(1,2) show ?thesis by (auto simp: cs)
qed

definition sample_settings :: compaction_settings where
  "sample_settings = \<lparr>co_enabled = True, co_reserveTokens = 100, co_keepRecentTokens = 1\<rparr>"

lemma compaction_partitions_history_witness:
  "\<exists>p. prepareCompaction 4 (\<lambda>_. NaN) sample_branch sample_settings = Some (Some p)
     \<and> pr_messagesToSummarize p @ pr_turnPrefixMessages p \<noteq> []"
proof -
  have data: "en_data (sample_branch ! 1) = D_message sample_result" "en_data (sample_branch ! 2) = D_message (user_text ''two'' NaN)"
    "en_data (sample_branch ! 3) = D_message sample_result"
    by (simp_all add: sample_branch_def sample_entry_def eval_nat_numeral)
  have tok: "estimateTokens sample_result = 1"
    by (simp add: estimateTokens_def message_chars_def sample_result_def result_block_length_def)
  have rev: "rev [0..<4] = [3, 2, 1, 0 :: nat]" by (simp add: upt_rec)
  have scan: "cut_scan sample_branch [0, 2] 1 0 (rev [0..<4]) = Some 2"
    by (simp add: rev data tok)
  have bk: "back_over sample_branch 0 2 = 2" using data(1) by (simp add: numeral_2_eq_2)
  have c: "findCutPoint sample_branch 0 4 1 = \<lparr>cp_firstKept = 2, cp_turnStart = None, cp_isSplitTurn = False\<rparr>"
    by (simp add: findCutPoint_def scan bk data user_text_def)
  have s: "compaction_start sample_branch = (None, None, 0)" "\<not> is_compaction_at sample_branch 3" "length sample_branch = 4"
    by (simp_all add: compaction_start_def is_compaction_at_def sample_branch_def sample_entry_def upt_rec eval_nat_numeral)
  obtain ctx where x: "buildSessionContext 4 (\<lambda>_. NaN) sample_branch None (entries_index sample_branch) = Some ctx"
    by (simp add: buildSessionContext_def sample_branch_def sample_entry_def)
  have h: "messages_between (\<lambda>_. NaN) sample_branch 0 2 = [user_text ''one'' NaN, sample_result]"
    by (simp add: messages_between_def map_filter_def sample_branch_def sample_entry_def sample_result_def user_text_def
        getMessageFromEntryForCompaction_def getMessageFromEntry_def upt_rec eval_nat_numeral)
  have k: "en_id (sample_branch ! 2) = ''c''" by (simp add: sample_branch_def sample_entry_def eval_nat_numeral)
  have "\<exists>p. prepareCompaction 4 (\<lambda>_. NaN) sample_branch sample_settings = Some (Some p)"
    by (simp add: prepareCompaction_def s x sample_settings_def c h k Let_def)
  then obtain p where p: "prepareCompaction 4 (\<lambda>_. NaN) sample_branch sample_settings = Some (Some p)" ..
  from compaction_partitions_history [OF p] obtain i where i: "i < 4" "pr_firstKeptEntryId p = en_id (sample_branch ! i)"
      "pr_messagesToSummarize p @ pr_turnPrefixMessages p @ messages_between (\<lambda>_. NaN) sample_branch i 4
        = messages_between (\<lambda>_. NaN) sample_branch 0 4" by (auto simp: s)
  have "pr_firstKeptEntryId p = ''c''" using p by (auto simp: prepareCompaction_def s x sample_settings_def c h k Let_def)
  moreover have "i \<in> {0, 1, 2, 3}" using i(1) by auto
  ultimately have "i = 2 \<or> i = 3" using i(2) by (auto simp: sample_branch_def sample_entry_def eval_nat_numeral)
  then have "messages_between (\<lambda>_. NaN) sample_branch i 4 \<noteq> messages_between (\<lambda>_. NaN) sample_branch 0 4"
    by (auto simp: messages_between_def map_filter_def sample_branch_def sample_entry_def sample_result_def user_text_def
        getMessageFromEntryForCompaction_def getMessageFromEntry_def upt_rec eval_nat_numeral)
  with i(3) p show ?thesis by auto
qed

lemma length_nat_digits: "n < 10 ^ k \<Longrightarrow> 0 < k \<Longrightarrow> length (nat_digits n) \<le> k"
proof (induction k arbitrary: n)
  case (Suc k)
  show ?case
  proof (cases "n < 10")
    case False
    with Suc.prems have "n div 10 < 10 ^ k" "0 < k" by (auto intro!: Nat.gr0I simp: less_mult_imp_div_less mult.commute)
    with Suc.IH [of "n div 10"] False show ?thesis by (subst nat_digits.simps) simp
  qed (subst nat_digits.simps, simp)
qed simp

lemma length_int_text: "0 \<le> n \<Longrightarrow> n < 10 ^ k \<Longrightarrow> 0 < k \<Longrightarrow> length (int_text n) \<le> k"
  using length_nat_digits [of "nat n" k] by (simp add: int_text_def nat_less_iff)

lemma length_nat_digits_mono: "m \<le> n \<Longrightarrow> length (nat_digits m) \<le> length (nat_digits n)"
proof (induction n arbitrary: m rule: less_induct)
  case (less n)
  show ?case
  proof (cases "n < 10")
    case True
    with less.prems show ?thesis by (subst (1 2) nat_digits.simps) simp
  next
    case False
    show ?thesis
    proof (cases "m < 10")
      case True
      then have "length (nat_digits m) = 1" by (subst nat_digits.simps) simp
      moreover have "1 \<le> length (nat_digits n)" using False by (subst nat_digits.simps) simp
      ultimately show ?thesis by simp
    next
      case m: False
      have "length (nat_digits (m div 10)) \<le> length (nat_digits (n div 10))"
        using less.IH [of "n div 10" "m div 10"] less.prems False by (simp add: div_le_mono)
      with m False show ?thesis by (subst (1 2) nat_digits.simps) simp
    qed
  qed
qed

lemma length_int_text_mono: "0 \<le> i \<Longrightarrow> i \<le> j \<Longrightarrow> length (int_text i) \<le> length (int_text j)"
  by (simp add: int_text_def length_nat_digits_mono nat_mono)

lemma length_truncation_marker:
  "length (truncation_marker i j) = length (int_text i) + length (int_text j) + length (int_text 500) + 54"
  by (simp add: truncation_marker_def TOOL_RESULT_TAIL_CHARS_def)

text \<open>
  What the summariser sees of a tool result never exceeds its budget of characters, whatever
  the result, and always ends with the last 500 characters of it.
\<close>

theorem truncateForSummary_bound:
  "length s < 10 ^ 15 \<Longrightarrow>
     length (truncateForSummary s TOOL_RESULT_MAX_CHARS) \<le> TOOL_RESULT_MAX_CHARS
     \<and> suffix (drop (length s - TOOL_RESULT_TAIL_CHARS) s) (truncateForSummary s TOOL_RESULT_MAX_CHARS)"
proof (cases "length s \<le> TOOL_RESULT_MAX_CHARS")
  case True
  then show ?thesis by (simp add: truncateForSummary_def suffix_drop)
next
  case False
  assume len: "length s < 10 ^ 15"
  let ?L = "int (length s)"
  define M where "M = int (length (truncation_marker ?L (int TOOL_RESULT_MAX_CHARS)))"
  define head where "head = int TOOL_RESULT_MAX_CHARS - int TOOL_RESULT_TAIL_CHARS - M - 4"
  define marker where "marker = truncation_marker (?L - head - int TOOL_RESULT_TAIL_CHARS) head"
  have L: "2000 < ?L" using False by (simp add: TOOL_RESULT_MAX_CHARS_def)
  have "length (int_text ?L) \<le> 15" "length (int_text 2000) \<le> 4" "length (int_text 500) \<le> 3"
    using len by (auto intro!: length_int_text)
  then have M: "M \<le> 76" by (simp add: M_def length_truncation_marker TOOL_RESULT_MAX_CHARS_def)
  have "0 \<le> M" by (simp add: M_def)
  with M have head: "1420 \<le> head" "head \<le> 1496" by (simp_all add: head_def TOOL_RESULT_MAX_CHARS_def TOOL_RESULT_TAIL_CHARS_def)
  have "length (int_text (?L - head - int TOOL_RESULT_TAIL_CHARS)) \<le> length (int_text ?L)"
    by (rule length_int_text_mono) (use L head in \<open>simp_all add: TOOL_RESULT_TAIL_CHARS_def\<close>)
  moreover have "length (int_text head) \<le> length (int_text (int TOOL_RESULT_MAX_CHARS))"
    by (rule length_int_text_mono) (use head in \<open>simp_all add: TOOL_RESULT_MAX_CHARS_def\<close>)
  ultimately have m: "int (length marker) \<le> M"
    by (simp add: marker_def M_def length_truncation_marker)
  have t: "truncateForSummary s TOOL_RESULT_MAX_CHARS =
      slice_to head s @ nl @ nl @ marker @ nl @ nl @ drop (length s - TOOL_RESULT_TAIL_CHARS) s"
    using False by (simp add: truncateForSummary_def Let_def head_def M_def marker_def)
  have "int (length (slice_to head s)) \<le> head" using head by (simp add: slice_to_def)
  moreover have "length (drop (length s - TOOL_RESULT_TAIL_CHARS) s) = 500" using L by (simp add: TOOL_RESULT_TAIL_CHARS_def)
  ultimately have "int (length (truncateForSummary s TOOL_RESULT_MAX_CHARS)) \<le> int TOOL_RESULT_MAX_CHARS"
    unfolding t using m by (simp add: nl_def head_def TOOL_RESULT_TAIL_CHARS_def)
  moreover have "suffix (drop (length s - TOOL_RESULT_TAIL_CHARS) s) (truncateForSummary s TOOL_RESULT_MAX_CHARS)"
    unfolding t suffix_def by (metis append_assoc)
  ultimately show ?thesis by simp
qed

text \<open>A branch compacted before, whose kept part is one long turn.\<close>

definition sample_reply :: agent_message where
  "sample_reply = Assistant_msg \<lparr>am_content = [A_text ''reply'' None], am_api = ''x'', am_provider = ''p'', am_model = ''m'',
     am_responseModel = None, am_responseId = None, am_diagnostics = None, am_usage = emptyUsage, am_stopReason = Stop,
     am_stopReasonRaw = None, am_errorMessage = None, am_timestamp = NaN\<rparr>"

definition compacted_branch :: "entry list" where
  "compacted_branch = [sample_entry ''a'' (user_text ''one'' NaN),
     \<lparr>en_id = ''k'', en_parentId = Some ''a'', en_timestamp = ''t'', en_data = D_compaction
       \<lparr>cd_summary = ''old'', cd_firstKeptEntryId = ''a'', cd_firstKeptEntryIndex = None, cd_tokensBefore = 7, cd_details = None,
        cd_fromHook = False, cd_customInstructions = None, cd_usage = None, cd_harnessDigest = None,
        cd_harnessStateFingerprint = None\<rparr>\<rparr>,
     sample_entry ''c'' sample_reply, sample_entry ''d'' sample_reply]"

text \<open>
  When a second compaction cuts inside the turn that starts the part kept by the first, there is
  no history before the turn to summarise, and the summary of the first compaction is left out:
  the new one says there is no prior history and does not depend on the old summary.
\<close>

theorem previous_summary_lost:
  "\<exists>p. prepareCompaction 4 date compacted_branch sample_settings = Some (Some p)
     \<and> pr_previousSummary p = Some ''old''
     \<and> (\<forall>x. compact_run pt ask instr (p\<lparr>pr_previousSummary := x\<rparr>) = compact_run pt ask instr p)
     \<and> (case compact_run pt ask instr p of Some r \<Rightarrow> prefix ''No prior history.'' (cr_summary r) | None \<Rightarrow> True)"
proof -
  have data: "en_data (compacted_branch ! 0) = D_message (user_text ''one'' NaN)"
    "en_data (compacted_branch ! 2) = D_message sample_reply" "en_data (compacted_branch ! 3) = D_message sample_reply"
    "\<exists>c. en_data (compacted_branch ! 1) = D_compaction c \<and> cd_summary c = ''old'' \<and> cd_firstKeptEntryId c = ''a''"
    "length compacted_branch = 4"
    by (simp_all add: compacted_branch_def sample_entry_def eval_nat_numeral)
  obtain c where c: "en_data (compacted_branch ! 1) = D_compaction c" "cd_summary c = ''old''" "cd_firstKeptEntryId c = ''a''"
    using data(4) by blast
  note c = c c [unfolded One_nat_def]
  have tok: "estimateTokens sample_reply = 2"
    by (simp add: estimateTokens_def message_chars_def sample_reply_def assistant_block_length_def)
  have rev: "rev [0..<4] = [3, 2, 1, 0 :: nat]" and up: "[0..<4] = [0, 1, 2, 3 :: nat]" by (simp_all add: upt_rec)
  have cps: "findValidCutPoints compacted_branch 0 4 = [0, 2, 3]"
    by (simp add: findValidCutPoints_def up is_cut_point_def is_boundary_entry_def data c user_text_def sample_reply_def)
  have scan: "cut_scan compacted_branch [0, 2, 3] 1 0 (rev [0..<4]) = Some 3" by (simp add: rev data tok)
  have bk: "back_over compacted_branch 0 3 = 3" using data(2) by (simp add: numeral_3_eq_3 numeral_2_eq_2)
  have ts: "findTurnStartIndex compacted_branch 3 0 = Some 0"
    using rev by (simp add: findTurnStartIndex_def is_turn_start_def is_boundary_entry_def data c user_text_def sample_reply_def)
  have cut: "findCutPoint compacted_branch 0 4 1 = \<lparr>cp_firstKept = 3, cp_turnStart = Some 0, cp_isSplitTurn = True\<rparr>"
    by (simp add: findCutPoint_def cps scan bk ts data sample_reply_def)
  have start: "compaction_start compacted_branch = (Some 1, Some ''old'', 0)"
    by (simp add: compaction_start_def data(5) rev is_compaction_at_def data c)
      (simp add: compacted_branch_def sample_entry_def)
  have last: "\<not> is_compaction_at compacted_branch 3" by (simp add: is_compaction_at_def data)
  have pre: "messages_between date compacted_branch 0 3 = [user_text ''one'' NaN, sample_reply]"
  proof -
    have "[0..<3] = [0, 1, 2 :: nat]" by (simp add: upt_rec)
    then show ?thesis
      by (simp add: messages_between_def map_filter_def getMessageFromEntryForCompaction_def getMessageFromEntry_def data c)
  qed
  have id: "en_id (compacted_branch ! 3) = ''d''" by (simp add: compacted_branch_def sample_entry_def eval_nat_numeral)
  obtain ctx where x: "buildSessionContext 4 date compacted_branch None (entries_index compacted_branch) = Some ctx"
    by (simp add: buildSessionContext_def compacted_branch_def sample_entry_def)
  obtain p where p: "prepareCompaction 4 date compacted_branch sample_settings = Some (Some p)"
      "pr_messagesToSummarize p = []" "pr_turnPrefixMessages p \<noteq> []" "pr_isSplitTurn p" "pr_previousSummary p = Some ''old''"
    by (simp add: prepareCompaction_def start data(5) x cut last id pre sample_settings_def Let_def)
  have "compact_run pt ask instr (p\<lparr>pr_previousSummary := x\<rparr>) = compact_run pt ask instr p" for x
    using p by (simp add: compact_run_def Let_def split: option.split)
  moreover have "case compact_run pt ask instr p of Some r \<Rightarrow> prefix ''No prior history.'' (cr_summary r) | None \<Rightarrow> True"
    using p by (auto simp: compact_run_def Let_def split: option.splits if_splits)
  ultimately show ?thesis using p by blast
qed
text \<open>
  A user message behind a settings change is cut at the settings change, which is no user message,
  so the cut is taken to split the turn before it although that turn is complete.
\<close>

lemma cut_behind_settings_counts_as_split:
  assumes "es = [sample_entry ''a'' (user_text ''one'' NaN), sample_entry ''b'' sample_reply,
     (sample_entry ''m'' sample_reply)\<lparr>en_data := D_model_change ''p'' ''m''\<rparr>, sample_entry ''c'' (user_text ''two'' NaN)]"
  shows "findCutPoint es 0 4 1 = \<lparr>cp_firstKept = 2, cp_turnStart = Some 0, cp_isSplitTurn = True\<rparr>"
proof -
  have rev: "rev [0..<4] = [3, 2, 1, 0 :: nat]" and up: "[0..<4] = [0, 1, 2, 3 :: nat]" by (simp_all add: upt_rec)
  have data: "en_data (es ! 0) = D_message (user_text ''one'' NaN)" "en_data (es ! Suc 0) = D_message sample_reply"
    "en_data (es ! 1) = D_message sample_reply"
    "en_data (es ! 2) = D_model_change ''p'' ''m''" "en_data (es ! 3) = D_message (user_text ''two'' NaN)"
    by (simp_all add: assms sample_entry_def eval_nat_numeral)
  have cps: "findValidCutPoints es 0 4 = [0, 1, 3]"
    by (simp add: findValidCutPoints_def up is_cut_point_def is_boundary_entry_def data user_text_def sample_reply_def)
  have tok: "estimateTokens (user_text ''two'' NaN) = 1"
    by (simp add: estimateTokens_def message_chars_def user_text_def text_block_length_def)
  have scan: "cut_scan es [0, Suc 0, 3] 1 0 (rev [0..<4]) = Some 3" by (simp add: rev data tok)
  have bk: "back_over es 0 3 = 2" using data by (simp add: numeral_3_eq_3 numeral_2_eq_2)
  have up2: "rev [0..<Suc 2] = [2, 1, 0 :: nat]" by (simp add: upt_rec)
  have ts: "findTurnStartIndex es 2 0 = Some 0"
    unfolding findTurnStartIndex_def up2
    by (simp add: is_turn_start_def is_boundary_entry_def data user_text_def sample_reply_def)
  show ?thesis by (simp add: findCutPoint_def cps scan bk ts data)
qed

end
