(* ===== verification/Private_Framing.thy ===== *)
theory Private_Framing
  imports Prelude "HOL-Library.Word"
begin

text \<open>
  The frames between a supervisor and its workers:
  \<open>packages/coding-agent/src/modes/session-worker/private-framing.ts\<close>. A frame is two big-endian
  32-bit lengths, a JSON header and a payload. The decoder keeps the chunks the socket delivered
  with a cursor and joins a frame's bytes once it is complete. How a header is turned into bytes
  and back (\<open>JSON.stringify\<close>, \<open>JSON.parse\<close>, UTF-8) and the validation of a header are parameters.
\<close>

type_synonym byte = "8 word"

section \<open>Bytes\<close>

text \<open>\<open>writeUInt32BE\<close> and \<open>readUInt32BE\<close>.\<close>

definition write_u32 :: "nat \<Rightarrow> byte list" where
  "write_u32 n = [of_nat (n div 16777216), of_nat (n div 65536), of_nat (n div 256), of_nat n]"

definition read_u32 :: "byte list \<Rightarrow> nat" where
  "read_u32 bs = unat (bs ! 0) * 16777216 + unat (bs ! 1) * 65536 + unat (bs ! 2) * 256 + unat (bs ! 3)"

text \<open>\<open>Buffer.concat(parts, n)\<close> cuts or fills with zeros to \<open>n\<close> bytes.\<close>

definition buffer_concat :: "byte list list \<Rightarrow> nat \<Rightarrow> byte list" where
  "buffer_concat parts n = take n (concat parts) @ replicate (n - length (concat parts)) 0"

section \<open>Encoding\<close>

definition FRAME_PREFIX_BYTES :: nat where "FRAME_PREFIX_BYTES = 8"
definition PENDING_COMPACTION_MIN_HEAD :: nat where "PENDING_COMPACTION_MIN_HEAD = 32"

record frame_limits =
  maxHeaderBytes :: nat
  maxPayloadBytes :: nat

definition DEFAULT_PRIVATE_FRAME_LIMITS :: frame_limits where
  "DEFAULT_PRIVATE_FRAME_LIMITS = \<lparr>maxHeaderBytes = 1024 * 1024, maxPayloadBytes = 1024 * 1024 * 1024\<rparr>"

datatype frame_error =
    Invalid_length string nat | Empty_header | Length_out_of_range nat
  | Invalid_header_json | Invalid_routing_header | Incomplete_bytes nat

record 'h frame =
  fr_header :: 'h
  fr_payload :: "byte list"

definition assertFrameLength :: "string \<Rightarrow> nat \<Rightarrow> nat \<Rightarrow> frame_error option" where
  "assertFrameLength name v maximum = (if v > maximum then Some (Invalid_length name v) else None)"

definition encodePrivateFrame ::
    "('h \<Rightarrow> byte list) \<Rightarrow> frame_limits \<Rightarrow> 'h \<Rightarrow> byte list \<Rightarrow> frame_error + byte list" where
  "encodePrivateFrame render lims header payload =
     (let hb = render header in
      case assertFrameLength ''header length'' (length hb) (maxHeaderBytes lims) of
        Some e \<Rightarrow> Inl e
      | None \<Rightarrow> (case assertFrameLength ''payload length'' (length payload) (maxPayloadBytes lims) of
          Some e \<Rightarrow> Inl e
        | None \<Rightarrow>
            if length hb = 0 then Inl Empty_header
            else if length hb \<ge> 2 ^ 32 then Inl (Length_out_of_range (length hb))
            else if length payload \<ge> 2 ^ 32 then Inl (Length_out_of_range (length payload))
            else Inr (write_u32 (length hb) @ write_u32 (length payload) @ hb @ payload)))"

section \<open>The decoder\<close>

record decoder =
  de_pending :: "byte list list"
  de_unread :: nat
  de_head :: nat
  de_offset :: nat

definition new_decoder :: decoder where
  "new_decoder = \<lparr>de_pending = [], de_unread = 0, de_head = 0, de_offset = 0\<rparr>"

text \<open>The chunks a slice looks at: those from the head on, the first one from the offset on.\<close>

definition usable_chunks :: "decoder \<Rightarrow> byte list list" where
  "usable_chunks d = (case drop (de_head d) (de_pending d) of
     [] \<Rightarrow> [] | c # cs \<Rightarrow> drop (de_offset d) c # cs)"

fun slice_parts :: "nat \<Rightarrow> nat \<Rightarrow> nat \<Rightarrow> byte list list \<Rightarrow> byte list list" where
  "slice_parts start stop position [] = []"
| "slice_parts start stop position (u # us) =
     (if position < stop then
        let chunkEnd = position + length u;
            a = max start position - position;
            b = min stop chunkEnd - position
        in (if chunkEnd > start then [take (b - a) (drop a u)] else []) @ slice_parts start stop chunkEnd us
      else [])"

definition slice :: "nat \<Rightarrow> nat \<Rightarrow> decoder \<Rightarrow> byte list" where
  "slice start stop d =
     (let parts = slice_parts start stop 0 (usable_chunks d)
      in if length parts = 1 then hd parts else buffer_concat parts (stop - start))"

text \<open>The loop of \<open>consume\<close> that passes spent chunks.\<close>

function pass_spent :: "byte list list \<Rightarrow> nat \<Rightarrow> nat \<Rightarrow> nat \<times> nat" where
  "pass_spent pending head offset =
     (if head < length pending \<and> offset \<ge> length (pending ! head)
      then pass_spent pending (Suc head) (offset - length (pending ! head))
      else (head, offset))"
  by pat_completeness auto
termination by (relation "measure (\<lambda>(pending, head, offset). length pending - head)") auto

declare pass_spent.simps [simp del]

definition consume :: "nat \<Rightarrow> decoder \<Rightarrow> decoder" where
  "consume n d =
     (let unread = de_unread d - n;
          (head, offset) = pass_spent (de_pending d) (de_head d) (de_offset d + n)
      in if head = length (de_pending d) then \<lparr>de_pending = [], de_unread = unread, de_head = 0, de_offset = 0\<rparr>
         else if head \<ge> PENDING_COMPACTION_MIN_HEAD \<and> head * 2 \<ge> length (de_pending d)
         then \<lparr>de_pending = drop head (de_pending d), de_unread = unread, de_head = 0, de_offset = offset\<rparr>
         else \<lparr>de_pending = de_pending d, de_unread = unread, de_head = head, de_offset = offset\<rparr>)"

lemma consume_unread [simp]: "de_unread (consume n d) = de_unread d - n"
  by (simp add: consume_def Let_def split: prod.splits)

text \<open>
  The loop of \<open>push\<close>. An error leaves the decoder as it is at the throw, and loses the frames
  collected before it. \<open>parse\<close> is \<open>JSON.parse\<close> of the bytes, \<open>valid\<close> the validation of the header.
\<close>

function push_loop ::
    "(byte list \<Rightarrow> 'h option) \<Rightarrow> ('h \<Rightarrow> bool) \<Rightarrow> frame_limits \<Rightarrow> decoder \<Rightarrow> (frame_error + 'h frame list) \<times> decoder" where
  "push_loop parse valid lims d =
     (if de_unread d < FRAME_PREFIX_BYTES then (Inr [], d)
      else let prefix = slice 0 FRAME_PREFIX_BYTES d;
               headerLength = read_u32 prefix;
               payloadLength = read_u32 (drop 4 prefix)
           in case assertFrameLength ''header length'' headerLength (maxHeaderBytes lims) of
             Some e \<Rightarrow> (Inl e, d)
           | None \<Rightarrow> (case assertFrameLength ''payload length'' payloadLength (maxPayloadBytes lims) of
               Some e \<Rightarrow> (Inl e, d)
             | None \<Rightarrow>
                 if headerLength = 0 then (Inl Empty_header, d)
                 else let frameLength = FRAME_PREFIX_BYTES + headerLength + payloadLength;
                          payloadStart = FRAME_PREFIX_BYTES + headerLength
                      in if de_unread d < frameLength then (Inr [], d)
                         else case parse (slice FRAME_PREFIX_BYTES payloadStart d) of
                           None \<Rightarrow> (Inl Invalid_header_json, d)
                         | Some h \<Rightarrow>
                             if \<not> valid h then (Inl Invalid_routing_header, d)
                             else let f = \<lparr>fr_header = h, fr_payload = slice payloadStart frameLength d\<rparr>
                                  in case push_loop parse valid lims (consume frameLength d) of
                                    (Inl e, d1) \<Rightarrow> (Inl e, d1)
                                  | (Inr fs, d1) \<Rightarrow> (Inr (f # fs), d1)))"
  by pat_completeness auto
termination by (relation "measure (\<lambda>(parse, valid, lims, d). de_unread d)") (auto simp: FRAME_PREFIX_BYTES_def)

declare push_loop.simps [simp del]

definition add_chunk :: "byte list \<Rightarrow> decoder \<Rightarrow> decoder" where
  "add_chunk chunk d = (if chunk = [] then d
     else d\<lparr>de_pending := de_pending d @ [chunk], de_unread := de_unread d + length chunk\<rparr>)"

definition push ::
    "(byte list \<Rightarrow> 'h option) \<Rightarrow> ('h \<Rightarrow> bool) \<Rightarrow> frame_limits \<Rightarrow> byte list \<Rightarrow> decoder
      \<Rightarrow> (frame_error + 'h frame list) \<times> decoder" where
  "push parse valid lims chunk d = push_loop parse valid lims (add_chunk chunk d)"

definition finish :: "decoder \<Rightarrow> frame_error option" where
  "finish d = (if de_unread d \<noteq> 0 then Some (Incomplete_bytes (de_unread d)) else None)"

section \<open>The channel\<close>

text \<open>
  A channel that was closed has taken its handlers off the stream, so they see nothing further.
  \<open>PrivateFramedChannel\<close> over a stream: what it delivers to its listeners, and whether it closed
  itself or destroyed the stream.
\<close>

record 'h channel =
  ch_decoder :: decoder
  ch_listening :: bool
  ch_closed :: bool
  ch_destroyed :: "frame_error option"
  ch_delivered :: "'h frame list"
  ch_sent :: "byte list"
  ch_ended :: bool

definition new_channel :: "'h channel" where
  "new_channel = \<lparr>ch_decoder = new_decoder, ch_listening = True, ch_closed = False, ch_destroyed = None,
     ch_delivered = [], ch_sent = [], ch_ended = False\<rparr>"

datatype send_error = Channel_closed | Frame_rejected frame_error

definition channel_send ::
    "('h \<Rightarrow> byte list) \<Rightarrow> frame_limits \<Rightarrow> 'h \<Rightarrow> byte list \<Rightarrow> 'h channel \<Rightarrow> (send_error + unit) \<times> 'h channel" where
  "channel_send render lims header payload c =
     (if ch_closed c \<or> ch_destroyed c \<noteq> None then (Inl Channel_closed, c)
      else case encodePrivateFrame render lims header payload of
        Inl e \<Rightarrow> (Inl (Frame_rejected e), c)
      | Inr bs \<Rightarrow> (Inr (), c\<lparr>ch_sent := ch_sent c @ bs\<rparr>))"

definition channel_close :: "'h channel \<Rightarrow> 'h channel" where
  "channel_close c = (if ch_closed c then c else c\<lparr>ch_listening := False, ch_closed := True, ch_ended := True\<rparr>)"

definition handleData ::
    "(byte list \<Rightarrow> 'h option) \<Rightarrow> ('h \<Rightarrow> bool) \<Rightarrow> frame_limits \<Rightarrow> byte list \<Rightarrow> 'h channel \<Rightarrow> 'h channel" where
  "handleData parse valid lims chunk c = (if \<not> ch_listening c then c else case push parse valid lims chunk (ch_decoder c) of
     (Inl e, d) \<Rightarrow> c\<lparr>ch_decoder := d, ch_destroyed := Some e\<rparr>
   | (Inr fs, d) \<Rightarrow> c\<lparr>ch_decoder := d, ch_delivered := ch_delivered c @ fs\<rparr>)"

definition handleEnd :: "'h channel \<Rightarrow> 'h channel" where
  "handleEnd c = (if \<not> ch_listening c then c else case finish (ch_decoder c) of None \<Rightarrow> c | Some e \<Rightarrow> c\<lparr>ch_destroyed := Some e\<rparr>)"

definition handleClose :: "'h channel \<Rightarrow> 'h channel" where
  "handleClose c = c\<lparr>ch_closed := True, ch_listening := False\<rparr>"

end
