(* ===== verification/Framing_Roundtrip.thy ===== *)
theory Framing_Roundtrip
  imports Private_Framing
begin

text \<open>
  The decoder's chunks with a cursor refine a plain sequence of bytes, the frame loop refines a
  parser of such sequences, and frames arrive as sent however the stream is cut.
\<close>

section \<open>The buffer\<close>

text \<open>
  What the frame loop needs of the buffer of received bytes: it holds a sequence of bytes to which
  chunks are added at the end, of which any part can be copied, and which is consumed at the front.
\<close>

locale byte_buffer =
  fixes bytes :: "'s \<Rightarrow> byte list"
    and ok :: "'s \<Rightarrow> bool"
    and held :: "'s \<Rightarrow> nat"
    and add :: "byte list \<Rightarrow> 's \<Rightarrow> 's"
    and copy :: "nat \<Rightarrow> nat \<Rightarrow> 's \<Rightarrow> byte list"
    and eat :: "nat \<Rightarrow> 's \<Rightarrow> 's"
  assumes held_bytes: "ok s \<Longrightarrow> held s = length (bytes s)"
    and add_bytes: "ok s \<Longrightarrow> ok (add c s) \<and> bytes (add c s) = bytes s @ c"
    and copy_bytes: "ok s \<Longrightarrow> i \<le> j \<Longrightarrow> j \<le> held s \<Longrightarrow> copy i j s = take (j - i) (drop i (bytes s))"
    and eat_bytes: "ok s \<Longrightarrow> n \<le> held s \<Longrightarrow> ok (eat n s) \<and> bytes (eat n s) = drop n (bytes s)"
begin

text \<open>A chunk that arrives later changes no part of what is there.\<close>

lemma copy_add: "ok s \<Longrightarrow> i \<le> j \<Longrightarrow> j \<le> held s \<Longrightarrow> copy i j (add c s) = copy i j s"
  using add_bytes [of s c] by (simp add: copy_bytes held_bytes)

lemma copy_eat:
  "ok s \<Longrightarrow> i \<le> j \<Longrightarrow> n + j \<le> held s \<Longrightarrow> copy i j (eat n s) = copy (n + i) (n + j) s"
  using eat_bytes [of s n] by (simp add: copy_bytes held_bytes add.commute)

lemma held_eat: "ok s \<Longrightarrow> n \<le> held s \<Longrightarrow> held (eat n s) = held s - n"
  using eat_bytes [of s n] by (simp add: held_bytes)

lemma held_add: "ok s \<Longrightarrow> held (add c s) = held s + length c"
  using add_bytes [of s c] by (simp add: held_bytes)

end

section \<open>The chunks with a cursor are such a buffer\<close>

definition buffered :: "decoder \<Rightarrow> byte list" where
  "buffered d = drop (de_offset d) (concat (drop (de_head d) (de_pending d)))"

definition decoder_ok :: "decoder \<Rightarrow> bool" where
  "decoder_ok d \<longleftrightarrow> de_unread d = length (buffered d) \<and> de_head d \<le> length (de_pending d)
     \<and> (de_head d = length (de_pending d) \<longrightarrow> de_offset d = 0)
     \<and> (de_head d < length (de_pending d) \<longrightarrow> de_offset d \<le> length (de_pending d ! de_head d))"

lemma decoder_ok_new [simp]: "decoder_ok new_decoder" "buffered new_decoder = []"
  by (simp_all add: decoder_ok_def buffered_def new_decoder_def)

lemma concat_usable_chunks:
  assumes "decoder_ok d"
  shows "concat (usable_chunks d) = buffered d"
proof (cases "de_head d < length (de_pending d)")
  case True
  then have e: "drop (de_head d) (de_pending d) = de_pending d ! de_head d # drop (Suc (de_head d)) (de_pending d)"
    by (simp add: Cons_nth_drop_Suc)
  have "de_offset d \<le> length (de_pending d ! de_head d)" using True assms by (simp add: decoder_ok_def)
  then show ?thesis unfolding usable_chunks_def buffered_def e by simp
next
  case False
  then show ?thesis by (simp add: usable_chunks_def buffered_def)
qed

lemma concat_slice_parts:
  "concat (slice_parts start stop pos us) = take (stop - max start pos) (drop (start - pos) (concat us))"
proof (induction us arbitrary: pos)
  case (Cons u us)
  show ?case
  proof (cases "pos < stop")
    case True
    let ?stop = "pos + length u"
    show ?thesis
    proof (cases "?stop > start")
      case False
      have prt: "slice_parts start stop pos (u # us) = slice_parts start stop ?stop us"
        using True False by (simp add: Let_def)
      have m: "max start pos = max start ?stop" using False by simp
      have "drop (start - pos) (concat (u # us)) = drop (start - ?stop) (concat us)" using False by simp
      then show ?thesis unfolding prt Cons.IH m by simp
    next
      case past: True
      define a where "a = max start pos - pos"
      have a: "a = start - pos" "a \<le> length u" "max start pos = pos + a" using past by (auto simp: a_def)
      have prt: "slice_parts start stop pos (u # us) = take (min stop ?stop - pos - a) (drop a u) # slice_parts start stop ?stop us"
        using True past by (simp add: Let_def a_def)
      have m: "max start ?stop = ?stop" "start - ?stop = 0" using past by auto
      have "drop (start - pos) (concat (u # us)) = drop a u @ concat us" using a by simp
      then have rhs: "take (stop - max start pos) (drop (start - pos) (concat (u # us))) =
          take (stop - (pos + a)) (drop a u) @ take (stop - (pos + a) - (length u - a)) (concat us)"
        unfolding a(3) by simp
      have "take (min stop ?stop - pos - a) (drop a u) = take (stop - (pos + a)) (drop a u)"
      proof (cases "stop \<le> ?stop")
        case False
        then have "length (drop a u) \<le> min stop ?stop - pos - a" "length (drop a u) \<le> stop - (pos + a)" by auto
        then show ?thesis by simp
      qed simp
      moreover have "stop - (pos + a) - (length u - a) = stop - ?stop" using a(2) by simp
      ultimately have "concat (slice_parts start stop pos (u # us)) =
          take (stop - (pos + a)) (drop a u) @ take (stop - (pos + a) - (length u - a)) (concat us)"
        unfolding prt concat.simps Cons.IH m by simp
      then show ?thesis unfolding rhs .
    qed
  qed simp
qed simp

lemma slice_bytes:
  assumes "decoder_ok d" and "i \<le> j" and "j \<le> de_unread d"
  shows "slice i j d = take (j - i) (drop i (buffered d))"
proof -
  let ?parts = "slice_parts i j 0 (usable_chunks d)"
  have c: "concat ?parts = take (j - i) (drop i (buffered d))"
    using concat_usable_chunks [OF assms(1)] by (simp add: concat_slice_parts)
  have "length (concat ?parts) = j - i" using assms by (simp add: c decoder_ok_def)
  then have "buffer_concat ?parts (j - i) = concat ?parts" by (simp add: buffer_concat_def)
  moreover have "length ?parts = 1 \<Longrightarrow> hd ?parts = concat ?parts" by (cases ?parts) auto
  ultimately show ?thesis unfolding slice_def Let_def c by simp
qed

lemma pass_spent_bytes:
  "pass_spent pending h off = (h', off') \<Longrightarrow> h \<le> length pending \<Longrightarrow>
     drop off' (concat (drop h' pending)) = drop off (concat (drop h pending)) \<and> h' \<le> length pending
     \<and> (h' < length pending \<longrightarrow> off' < length (pending ! h'))"
proof (induction pending h off rule: pass_spent.induct)
  case (1 pending h off)
  show ?case
  proof (cases "h < length pending \<and> length (pending ! h) \<le> off")
    case True
    with "1.prems"(1) have "pass_spent pending (Suc h) (off - length (pending ! h)) = (h', off')"
      by (subst (asm) pass_spent.simps) simp
    with "1.IH" [OF True] True have ih: "drop off' (concat (drop h' pending)) =
        drop (off - length (pending ! h)) (concat (drop (Suc h) pending))"
      "h' \<le> length pending \<and> (h' < length pending \<longrightarrow> off' < length (pending ! h'))" by auto
    have "drop h pending = pending ! h # drop (Suc h) pending" using True by (simp add: Cons_nth_drop_Suc)
    then have "drop off (concat (drop h pending)) = drop (off - length (pending ! h)) (concat (drop (Suc h) pending))"
      using True by simp
    with ih show ?thesis by simp
  next
    case False
    with "1.prems"(1) have "h' = h" "off' = off" by (subst (asm) pass_spent.simps, simp)+
    with False "1.prems"(2) show ?thesis by auto
  qed
qed

lemma consume_bytes:
  assumes "decoder_ok d" and "n \<le> de_unread d"
  shows "decoder_ok (consume n d) \<and> buffered (consume n d) = drop n (buffered d)"
proof -
  obtain h off where p: "pass_spent (de_pending d) (de_head d) (de_offset d + n) = (h, off)" by (metis surj_pair)
  have "de_head d \<le> length (de_pending d)" using assms(1) by (simp add: decoder_ok_def)
  from pass_spent_bytes [OF p this]
  have b: "drop off (concat (drop h (de_pending d))) = drop n (buffered d)" "h \<le> length (de_pending d)"
      "h < length (de_pending d) \<longrightarrow> off < length (de_pending d ! h)"
    by (auto simp: buffered_def add.commute)
  have len: "length (drop n (buffered d)) = de_unread d - n" using assms by (simp add: decoder_ok_def)
  then have "length (concat (drop h (de_pending d))) - off = de_unread d - n"
    using b(1) by (metis length_drop)
  then show ?thesis
    using b len by (auto simp: consume_def p Let_def buffered_def decoder_ok_def drop_drop)
qed

lemma offset_in_chunks:
  assumes "decoder_ok d"
  shows "de_offset d \<le> length (concat (drop (de_head d) (de_pending d)))"
proof (cases "de_head d < length (de_pending d)")
  case True
  then have "drop (de_head d) (de_pending d) = de_pending d ! de_head d # drop (Suc (de_head d)) (de_pending d)"
    by (simp add: Cons_nth_drop_Suc)
  then have "length (concat (drop (de_head d) (de_pending d))) \<ge> length (de_pending d ! de_head d)" by (simp only: concat.simps length_append)
  with True assms show ?thesis unfolding decoder_ok_def by linarith
qed (use assms in \<open>simp add: decoder_ok_def\<close>)

lemma add_chunk_bytes:
  assumes "decoder_ok d"
  shows "decoder_ok (add_chunk c d) \<and> buffered (add_chunk c d) = buffered d @ c"
proof (cases "c = []")
  case False
  have "buffered (add_chunk c d) = buffered d @ c"
    using offset_in_chunks [OF assms] False assms by (simp add: add_chunk_def buffered_def decoder_ok_def)
  moreover from this have "decoder_ok (add_chunk c d)"
    using assms False unfolding decoder_ok_def by (auto simp: add_chunk_def nth_append)
  ultimately show ?thesis by blast
qed (use assms in \<open>simp add: add_chunk_def\<close>)

interpretation frame_buffer: byte_buffer buffered decoder_ok de_unread add_chunk slice consume
proof unfold_locales
  show "de_unread d = length (buffered d)" if "decoder_ok d" for d using that by (simp add: decoder_ok_def)
  show "decoder_ok (add_chunk c d) \<and> buffered (add_chunk c d) = buffered d @ c" if "decoder_ok d" for d c
    using that by (rule add_chunk_bytes)
  show "slice i j d = take (j - i) (drop i (buffered d))" if "decoder_ok d" "i \<le> j" "j \<le> de_unread d" for d i j
    using that by (rule slice_bytes)
  show "decoder_ok (consume n d) \<and> buffered (consume n d) = drop n (buffered d)" if "decoder_ok d" "n \<le> de_unread d" for d n
    using that by (rule consume_bytes)
qed

section \<open>The frame loop on bytes\<close>

text \<open>What the loop of \<open>push\<close> does to the sequence of bytes received.\<close>

function frames_of ::
    "(byte list \<Rightarrow> 'h option) \<Rightarrow> ('h \<Rightarrow> bool) \<Rightarrow> frame_limits \<Rightarrow> byte list \<Rightarrow> (frame_error + 'h frame list) \<times> byte list" where
  "frames_of parse valid lims bs =
     (if length bs < 8 then (Inr [], bs)
      else let hl = read_u32 (take 8 bs); pl = read_u32 (drop 4 (take 8 bs)) in
        if hl > maxHeaderBytes lims then (Inl (Invalid_length ''header length'' hl), bs)
        else if pl > maxPayloadBytes lims then (Inl (Invalid_length ''payload length'' pl), bs)
        else if hl = 0 then (Inl Empty_header, bs)
        else if length bs < 8 + hl + pl then (Inr [], bs)
        else case parse (take hl (drop 8 bs)) of
          None \<Rightarrow> (Inl Invalid_header_json, bs)
        | Some h \<Rightarrow>
            if \<not> valid h then (Inl Invalid_routing_header, bs)
            else (case frames_of parse valid lims (drop (8 + hl + pl) bs) of
                (Inl e, r) \<Rightarrow> (Inl e, r)
              | (Inr fs, r) \<Rightarrow> (Inr (\<lparr>fr_header = h, fr_payload = take pl (drop (8 + hl) bs)\<rparr> # fs), r)))"
  by pat_completeness auto
termination by (relation "measure (\<lambda>(parse, valid, lims, bs). length bs)") auto

declare frames_of.simps [simp del]

lemma push_loop_bytes:
  assumes ok: "decoder_ok d"
  defines "bs \<equiv> buffered d"
  defines "hl \<equiv> read_u32 (take 8 bs)" and "pl \<equiv> read_u32 (drop 4 (take 8 bs))"
  shows "push_loop parse valid lims d =
     (if length bs < 8 then (Inr [], d)
      else if hl > maxHeaderBytes lims then (Inl (Invalid_length ''header length'' hl), d)
      else if pl > maxPayloadBytes lims then (Inl (Invalid_length ''payload length'' pl), d)
      else if hl = 0 then (Inl Empty_header, d)
      else if length bs < 8 + hl + pl then (Inr [], d)
      else case parse (take hl (drop 8 bs)) of
        None \<Rightarrow> (Inl Invalid_header_json, d)
      | Some h \<Rightarrow>
          if \<not> valid h then (Inl Invalid_routing_header, d)
          else (case push_loop parse valid lims (consume (8 + hl + pl) d) of
              (Inl e, d1) \<Rightarrow> (Inl e, d1)
            | (Inr fs, d1) \<Rightarrow> (Inr (\<lparr>fr_header = h, fr_payload = take pl (drop (8 + hl) bs)\<rparr> # fs), d1)))"
proof -
  have un: "de_unread d = length bs" unfolding bs_def using ok by (rule frame_buffer.held_bytes)
  show ?thesis
  proof (cases "length bs < 8")
    case True
    then show ?thesis by (subst push_loop.simps) (simp add: un FRAME_PREFIX_BYTES_def)
  next
    case False
    have pre: "slice 0 8 d = take 8 bs"
      using False ok un by (simp add: frame_buffer.copy_bytes bs_def)
    show ?thesis
    proof (cases "length bs < 8 + hl + pl")
      case True
      with False show ?thesis
        by (subst push_loop.simps)
          (simp add: un FRAME_PREFIX_BYTES_def pre Let_def assertFrameLength_def flip: hl_def pl_def)
    next
      case body: False
      have hd: "slice 8 (8 + hl) d = take hl (drop 8 bs)"
        using body ok un by (subst frame_buffer.copy_bytes) (auto simp: bs_def)
      have pay: "slice (8 + hl) (8 + hl + pl) d = take pl (drop (8 + hl) bs)"
        using body ok un by (subst frame_buffer.copy_bytes) (auto simp: bs_def)
      show ?thesis
        using False body
        by (subst push_loop.simps)
          (simp add: un FRAME_PREFIX_BYTES_def pre hd pay Let_def assertFrameLength_def flip: hl_def pl_def
            split: option.split)
    qed
  qed
qed

lemma push_loop_frames_of:
  "decoder_ok d \<Longrightarrow> push_loop parse valid lims d = (r, d') \<Longrightarrow>
     decoder_ok d' \<and> frames_of parse valid lims (buffered d) = (r, buffered d')"
proof (induction "de_unread d" arbitrary: d r d' rule: less_induct)
  case less
  define bs where "bs = buffered d"
  define hl where "hl = read_u32 (take 8 bs)"
  define pl where "pl = read_u32 (drop 4 (take 8 bs))"
  have un: "de_unread d = length bs" unfolding bs_def using less.prems(1) by (rule frame_buffer.held_bytes)
  note run = push_loop_bytes [OF less.prems(1), where parse = parse and valid = valid and lims = lims, folded bs_def, folded hl_def pl_def]
  note spec = frames_of.simps [of parse valid lims bs, folded hl_def pl_def, unfolded Let_def]
  show ?case
  proof (cases "\<exists>h. \<not> length bs < 8 \<and> \<not> hl > maxHeaderBytes lims \<and> \<not> pl > maxPayloadBytes lims \<and> hl \<noteq> 0
      \<and> \<not> length bs < 8 + hl + pl \<and> parse (take hl (drop 8 bs)) = Some h \<and> valid h")
    case False
    then have "d' = d \<and> frames_of parse valid lims bs = (r, bs)"
      using less.prems(2) unfolding run spec by (auto split: if_splits option.splits)
    with less.prems(1) show ?thesis by (simp add: bs_def)
  next
    case True
    then obtain h where h: "\<not> length bs < 8" "\<not> hl > maxHeaderBytes lims" "\<not> pl > maxPayloadBytes lims" "hl \<noteq> 0"
      "\<not> length bs < 8 + hl + pl" "parse (take hl (drop 8 bs)) = Some h" "valid h" by blast
    obtain r1 d1 where l: "push_loop parse valid lims (consume (8 + hl + pl) d) = (r1, d1)" by (metis surj_pair)
    have c: "decoder_ok (consume (8 + hl + pl) d)" "buffered (consume (8 + hl + pl) d) = drop (8 + hl + pl) bs"
      using frame_buffer.eat_bytes [OF less.prems(1), of "8 + hl + pl"] h(5) un by (auto simp: bs_def)
    have ih: "decoder_ok d1 \<and> frames_of parse valid lims (drop (8 + hl + pl) bs) = (r1, buffered d1)"
      unfolding c(2) [symmetric] by (rule less.hyps [OF _ c(1) l]) (use h un in simp)
    have "d' = d1 \<and> frames_of parse valid lims bs = (r, buffered d1)"
      using less.prems(2) unfolding run spec using h ih l by (cases r1) auto
    with ih show ?thesis by (simp add: bs_def)
  qed
qed

lemma push_frames_of:
  assumes "decoder_ok d" and "push parse valid lims c d = (r, d')"
  shows "decoder_ok d' \<and> frames_of parse valid lims (buffered d @ c) = (r, buffered d')"
proof -
  have "decoder_ok (add_chunk c d)" "buffered (add_chunk c d) = buffered d @ c"
    using frame_buffer.add_bytes [OF assms(1)] by auto
  with push_loop_frames_of [OF this(1) assms(2) [unfolded push_def]] show ?thesis by simp
qed

section \<open>Properties\<close>

lemma unat_byte: "unat (of_nat n :: byte) = n mod 256"
  by (simp add: unat_of_nat)

lemma read_write_u32:
  assumes "n < 2 ^ 32"
  shows "read_u32 (write_u32 n @ xs) = n"
proof -
  have "n div 16777216 mod 256 = n div 16777216" using assms by (intro mod_less) (simp add: less_mult_imp_div_less)
  moreover have "n div 65536 = n div 16777216 * 256 + n div 65536 mod 256"
    using div_mult_mod_eq [of "n div 65536" 256] by (simp add: div_mult2_eq [symmetric])
  moreover have "n div 256 = n div 65536 * 256 + n div 256 mod 256"
    using div_mult_mod_eq [of "n div 256" 256] by (simp add: div_mult2_eq [symmetric])
  moreover have "n = n div 256 * 256 + n mod 256" by (rule div_mult_mod_eq [symmetric])
  ultimately have "n div 16777216 mod 256 = n div 16777216"
      "n div 16777216 * 16777216 + n div 65536 mod 256 * 65536 + n div 256 mod 256 * 256 + n mod 256 = n"
    by linarith+
  then show ?thesis by (simp add: read_u32_def write_u32_def unat_byte)
qed

lemma length_write_u32 [simp]: "length (write_u32 n) = 4"
  by (simp add: write_u32_def)

text \<open>An encoded frame at the front of what was received, whole or in part.\<close>

lemma encode_cases:
  assumes "encodePrivateFrame render lims h p = Inr bs"
  shows "bs = write_u32 (length (render h)) @ write_u32 (length p) @ render h @ p"
    and "length (render h) \<le> maxHeaderBytes lims" and "length p \<le> maxPayloadBytes lims"
    and "0 < length (render h)" and "length (render h) < 2 ^ 32" and "length p < 2 ^ 32"
  using assms by (auto simp: encodePrivateFrame_def assertFrameLength_def Let_def split: if_splits option.splits)

lemma frames_of_frame:
  assumes e: "encodePrivateFrame render lims h p = Inr enc" and parse: "parse (render h) = Some h" and valid: "valid h"
  shows "frames_of parse valid lims (enc @ rest) = (case frames_of parse valid lims rest of
      (Inl x, r) \<Rightarrow> (Inl x, r) | (Inr fs, r) \<Rightarrow> (Inr (\<lparr>fr_header = h, fr_payload = p\<rparr> # fs), r))"
proof -
  note enc = encode_cases [OF e]
  let ?hl = "length (render h)" and ?pl = "length p"
  let ?bs = "enc @ rest"
  have t: "take 8 ?bs = write_u32 ?hl @ write_u32 ?pl" and d4: "drop 4 (take 8 ?bs) = write_u32 ?pl @ []"
    and d8: "drop 8 ?bs = render h @ p @ rest" by (simp_all add: enc(1))
  have hl: "read_u32 (take 8 ?bs) = ?hl" unfolding t by (rule read_write_u32 [OF enc(5)])
  have pl: "read_u32 (drop 4 (take 8 ?bs)) = ?pl" unfolding d4 by (rule read_write_u32 [OF enc(6)])
  have pay: "take ?pl (drop (8 + ?hl) ?bs) = p" and rest: "drop (8 + ?hl + ?pl) ?bs = rest"
    and head: "take ?hl (drop 8 ?bs) = render h" and len: "length ?bs = 8 + ?hl + ?pl + length rest"
    unfolding d8 by (simp_all add: enc(1))
  note spec = frames_of.simps [of parse valid lims ?bs, unfolded Let_def, unfolded hl pl pay rest head parse option.case]
  show ?thesis unfolding spec using enc(2,3,4) len valid by (simp split: prod.split sum.split)
qed

lemma frames_of_part:
  assumes e: "encodePrivateFrame render lims h p = Inr enc" and bs: "bs @ tail = enc @ rest" and short: "length bs < length enc"
  shows "frames_of parse valid lims bs = (Inr [], bs)"
proof (cases "length bs < 8")
  case True
  then show ?thesis by (subst frames_of.simps) simp
next
  case False
  note enc = encode_cases [OF e]
  let ?hl = "length (render h)" and ?pl = "length p"
  have "take 8 bs = take 8 (bs @ tail)" using False by simp
  then have t: "take 8 bs = write_u32 ?hl @ write_u32 ?pl" unfolding bs by (simp add: enc(1))
  then have d4: "drop 4 (take 8 bs) = write_u32 ?pl @ []" by simp
  have hl: "read_u32 (take 8 bs) = ?hl" unfolding t by (rule read_write_u32 [OF enc(5)])
  have pl: "read_u32 (drop 4 (take 8 bs)) = ?pl" unfolding d4 by (rule read_write_u32 [OF enc(6)])
  have "length bs < 8 + ?hl + ?pl" using short by (simp add: enc(1))
  with False enc(2,3,4) show ?thesis by (subst frames_of.simps) (simp add: hl pl Let_def)
qed

lemma frames_of_prefix:
  assumes "\<And>f. f \<in> set fs \<Longrightarrow> encodePrivateFrame render lims (fr_header f) (fr_payload f) = Inr (enc f)
      \<and> parse (render (fr_header f)) = Some (fr_header f) \<and> valid (fr_header f)"
    and "bs @ tail = concat (map enc fs)"
  shows "\<exists>k r. frames_of parse valid lims bs = (Inr (take k fs), r) \<and> r @ tail = concat (map enc (drop k fs))
    \<and> frames_of parse valid lims r = (Inr [], r)"
  using assms
proof (induction fs arbitrary: bs)
  case Nil
  then show ?case by (intro exI [of _ 0] exI [of _ bs]) (simp add: frames_of.simps [of _ _ _ "[]"])
next
  case (Cons f fs)
  from Cons.prems(1) [of f] have f: "encodePrivateFrame render lims (fr_header f) (fr_payload f) = Inr (enc f)"
    "parse (render (fr_header f)) = Some (fr_header f)" "valid (fr_header f)" by auto
  show ?case
  proof (cases "length bs < length (enc f)")
    case True
    have "frames_of parse valid lims bs = (Inr [], bs)"
      by (rule frames_of_part [OF f(1) _ True]) (use Cons.prems(2) in simp)
    with Cons.prems(2) show ?thesis by (intro exI [of _ 0] exI [of _ bs]) simp
  next
    case False
    then have "take (length (enc f)) bs = take (length (enc f)) (bs @ tail)" by simp
    then have "take (length (enc f)) bs = enc f" unfolding Cons.prems(2) by simp
    then obtain bs' where bs: "bs = enc f @ bs'" by (metis append_take_drop_id)
    with Cons.prems(2) have bs: "bs = enc f @ bs'" "bs' @ tail = concat (map enc fs)" by simp_all
    from Cons.IH [OF Cons.prems(1) bs(2)] obtain k r where k: "frames_of parse valid lims bs' = (Inr (take k fs), r)"
        "r @ tail = concat (map enc (drop k fs))" "frames_of parse valid lims r = (Inr [], r)" by auto
    have "frames_of parse valid lims bs = (Inr (f # take k fs), r)"
      unfolding bs(1) frames_of_frame [where render = render and parse = parse and valid = valid, OF f] k(1) by simp
    with k show ?thesis by (intro exI [of _ "Suc k"] exI [of _ r]) simp
  qed
qed

definition send_all :: "('h \<Rightarrow> byte list) \<Rightarrow> frame_limits \<Rightarrow> 'h frame list \<Rightarrow> 'h channel \<Rightarrow> 'h channel" where
  "send_all render lims fs c = fold (\<lambda>f c. snd (channel_send render lims (fr_header f) (fr_payload f) c)) fs c"

definition receive_all ::
    "(byte list \<Rightarrow> 'h option) \<Rightarrow> ('h \<Rightarrow> bool) \<Rightarrow> frame_limits \<Rightarrow> byte list list \<Rightarrow> 'h channel \<Rightarrow> 'h channel" where
  "receive_all parse valid lims chunks c = fold (handleData parse valid lims) chunks c"

lemma send_all_bytes:
  assumes "\<And>f. f \<in> set fs \<Longrightarrow> encodePrivateFrame render lims (fr_header f) (fr_payload f) = Inr (enc f)"
    and "\<not> ch_closed c" and "ch_destroyed c = None"
  shows "ch_sent (send_all render lims fs c) = ch_sent c @ concat (map enc fs)"
  using assms by (induction fs arbitrary: c) (simp_all add: send_all_def channel_send_def)

lemma receive_all_frames:
  assumes "\<And>f. f \<in> set fs \<Longrightarrow> encodePrivateFrame render lims (fr_header f) (fr_payload f) = Inr (enc f)
      \<and> parse (render (fr_header f)) = Some (fr_header f) \<and> valid (fr_header f)"
    and "ch_listening c" and "decoder_ok (ch_decoder c)" and "ch_destroyed c = None"
    and "frames_of parse valid lims (buffered (ch_decoder c)) = (Inr [], buffered (ch_decoder c))"
    and "buffered (ch_decoder c) @ concat chunks = concat (map enc fs)"
  shows "\<exists>c'. receive_all parse valid lims chunks c = c' \<and> ch_listening c' \<and> decoder_ok (ch_decoder c')
    \<and> buffered (ch_decoder c') = [] \<and> ch_destroyed c' = None \<and> ch_delivered c' = ch_delivered c @ fs"
  using assms
proof (induction chunks arbitrary: c fs)
  case Nil
  have "fs = [] \<and> buffered (ch_decoder c) = []"
  proof (cases fs)
    case (Cons f gs)
    with Nil.prems(1) [of f] have f: "encodePrivateFrame render lims (fr_header f) (fr_payload f) = Inr (enc f)"
      "parse (render (fr_header f)) = Some (fr_header f)" "valid (fr_header f)" by auto
    have "buffered (ch_decoder c) = enc f @ concat (map enc gs)" using Nil.prems(6) Cons by simp
    with frames_of_frame [where render = render and parse = parse and valid = valid and rest = "concat (map enc gs)", OF f] Nil.prems(5) show ?thesis
      by (auto split: prod.splits sum.splits)
  qed (use Nil.prems(6) in simp)
  with Nil.prems show ?case by (simp add: receive_all_def)
next
  case (Cons chunk chunks)
  obtain r d where p: "push parse valid lims chunk (ch_decoder c) = (r, d)" by (metis surj_pair)
  from push_frames_of [OF Cons.prems(3) p]
  have d: "decoder_ok d" "frames_of parse valid lims (buffered (ch_decoder c) @ chunk) = (r, buffered d)" by auto
  have "(buffered (ch_decoder c) @ chunk) @ concat chunks = concat (map enc fs)" using Cons.prems(6) by simp
  from frames_of_prefix [where parse = parse and valid = valid, OF Cons.prems(1) this] d(2)
  obtain k where k: "r = Inr (take k fs)" "buffered d @ concat chunks = concat (map enc (drop k fs))"
      "frames_of parse valid lims (buffered d) = (Inr [], buffered d)" by auto
  let ?c = "c\<lparr>ch_decoder := d, ch_delivered := ch_delivered c @ take k fs\<rparr>"
  have step: "handleData parse valid lims chunk c = ?c" using Cons.prems(2) by (simp add: handleData_def p k(1))
  have "\<exists>c'. receive_all parse valid lims chunks ?c = c' \<and> ch_listening c' \<and> decoder_ok (ch_decoder c')
    \<and> buffered (ch_decoder c') = [] \<and> ch_destroyed c' = None \<and> ch_delivered c' = ch_delivered ?c @ drop k fs"
    by (rule Cons.IH) (use Cons.prems(1,2,4) d(1) k in \<open>auto dest: in_set_dropD\<close>)
  then show ?case by (simp add: receive_all_def step)
qed

text \<open>
  C16: Frames sent over a channel arrive as they were sent, in order and complete, however the
  stream cuts their bytes into chunks; the receiver reports no error, also when the stream ends.
\<close>

theorem frames_survive_chunking:
  "(\<And>h. parse (render h) = Some h) \<Longrightarrow>
   list_all (\<lambda>f. valid (fr_header f) \<and> (\<exists>bs. encodePrivateFrame render lims (fr_header f) (fr_payload f) = Inr bs)) fs \<Longrightarrow>
   concat chunks = ch_sent (send_all render lims fs new_channel) \<Longrightarrow>
     ch_delivered (handleEnd (receive_all parse valid lims chunks new_channel)) = fs
     \<and> ch_destroyed (handleEnd (receive_all parse valid lims chunks new_channel)) = None"
proof -
  assume a: "\<And>h. parse (render h) = Some h"
    "list_all (\<lambda>f. valid (fr_header f) \<and> (\<exists>bs. encodePrivateFrame render lims (fr_header f) (fr_payload f) = Inr bs)) fs"
    "concat chunks = ch_sent (send_all render lims fs new_channel)"
  define enc where "enc f = projr (encodePrivateFrame render lims (fr_header f) (fr_payload f))" for f :: "'a frame"
  have e: "encodePrivateFrame render lims (fr_header f) (fr_payload f) = Inr (enc f)
      \<and> parse (render (fr_header f)) = Some (fr_header f) \<and> valid (fr_header f)" if "f \<in> set fs" for f
    using a(1,2) that by (auto simp: enc_def list_all_iff)
  have "concat chunks = concat (map enc fs)"
    unfolding a(3) by (subst send_all_bytes [where enc = enc]) (use e in \<open>auto simp: new_channel_def\<close>)
  then have "\<exists>c'. receive_all parse valid lims chunks new_channel = c' \<and> ch_listening c' \<and> decoder_ok (ch_decoder c')
    \<and> buffered (ch_decoder c') = [] \<and> ch_destroyed c' = None \<and> ch_delivered c' = ch_delivered new_channel @ fs"
    by (intro receive_all_frames [where enc = enc and render = render] e)
      (simp_all add: new_channel_def frames_of.simps [of _ _ _ "[]"])
  then show ?thesis
    using frame_buffer.held_bytes by (auto simp: handleEnd_def finish_def new_channel_def)
qed

definition sample_frames :: "byte list frame list" where
  "sample_frames = [\<lparr>fr_header = [1, 2], fr_payload = [3]\<rparr>, \<lparr>fr_header = [4], fr_payload = []\<rparr>]"

lemma frames_survive_chunking_witness:
  "ch_delivered (handleEnd (receive_all Some (\<lambda>_. True) DEFAULT_PRIVATE_FRAME_LIMITS
     [[0, 0, 0, 2, 0], [0, 0, 1, 1, 2, 3, 0, 0, 0], [1, 0, 0, 0, 0, 4]] new_channel)) = sample_frames"
proof -
  have "list_all (\<lambda>f. True \<and> (\<exists>bs. encodePrivateFrame (\<lambda>h. h) DEFAULT_PRIVATE_FRAME_LIMITS (fr_header f) (fr_payload f) = Inr bs)) sample_frames"
    by (simp add: sample_frames_def encodePrivateFrame_def assertFrameLength_def DEFAULT_PRIVATE_FRAME_LIMITS_def)
  moreover have "concat [[0, 0, 0, 2, 0], [0, 0, 1, 1, 2, 3, 0, 0, 0], [1, 0, 0, 0, 0, 4]] =
      ch_sent (send_all (\<lambda>h. h) DEFAULT_PRIVATE_FRAME_LIMITS sample_frames new_channel)"
    by (simp add: send_all_def channel_send_def sample_frames_def encodePrivateFrame_def assertFrameLength_def
        DEFAULT_PRIVATE_FRAME_LIMITS_def new_channel_def write_u32_def)
  ultimately show ?thesis
    using frames_survive_chunking [where parse = Some and render = "\<lambda>h. h" and valid = "\<lambda>_. True"] by blast
qed

lemma frames_of_bound:
  "frames_of parse valid lims bs = (Inr fs, r) \<Longrightarrow> length r < 8 + maxHeaderBytes lims + maxPayloadBytes lims"
proof (induction parse valid lims bs arbitrary: fs r rule: frames_of.induct)
  case (1 parse valid lims bs)
  note spec = frames_of.simps [of parse valid lims bs, unfolded Let_def]
  show ?case
  proof (cases "\<exists>h. \<not> length bs < 8 \<and> \<not> read_u32 (take 8 bs) > maxHeaderBytes lims
      \<and> \<not> read_u32 (drop 4 (take 8 bs)) > maxPayloadBytes lims \<and> read_u32 (take 8 bs) \<noteq> 0
      \<and> \<not> length bs < 8 + read_u32 (take 8 bs) + read_u32 (drop 4 (take 8 bs))
      \<and> parse (take (read_u32 (take 8 bs)) (drop 8 bs)) = Some h \<and> valid h")
    case False
    with "1.prems" show ?thesis unfolding spec by (auto split: if_splits option.splits)
  next
    case True
    then obtain h where h: "\<not> length bs < 8" "\<not> read_u32 (take 8 bs) > maxHeaderBytes lims"
      "\<not> read_u32 (drop 4 (take 8 bs)) > maxPayloadBytes lims" "read_u32 (take 8 bs) \<noteq> 0"
      "\<not> length bs < 8 + read_u32 (take 8 bs) + read_u32 (drop 4 (take 8 bs))"
      "parse (take (read_u32 (take 8 bs)) (drop 8 bs)) = Some h" "valid h" by blast
    obtain r1 q where l: "frames_of parse valid lims (drop (8 + read_u32 (take 8 bs) + read_u32 (drop 4 (take 8 bs))) bs) = (r1, q)"
      by (metis surj_pair)
    with "1.prems" h obtain gs where "r1 = Inr gs" "q = r" unfolding spec by (cases r1) auto
    with l 1(1) [OF h(1) refl refl h(2,3,4,5,6)] h(7) show ?thesis by simp
  qed
qed

text \<open>
  As long as no error closed it, a decoder never holds more than one frame of the largest
  permitted size: whatever arrives, its buffer stays below the prefix and the two limits.
\<close>

lemma decoder_buffer_bounded:
  "ch_destroyed (receive_all parse valid lims chunks new_channel) = None \<Longrightarrow>
     de_unread (ch_decoder (receive_all parse valid lims chunks new_channel))
       < FRAME_PREFIX_BYTES + maxHeaderBytes lims + maxPayloadBytes lims"
proof -
  let ?c = "\<lambda>chunks. receive_all parse valid lims chunks new_channel"
  have "decoder_ok (ch_decoder (?c chunks)) \<and> ch_listening (?c chunks)
      \<and> (ch_destroyed (?c chunks) = None \<longrightarrow> de_unread (ch_decoder (?c chunks)) < 8 + maxHeaderBytes lims + maxPayloadBytes lims)"
  proof (induction chunks rule: rev_induct)
    case Nil
    then show ?case by (simp add: receive_all_def new_channel_def) (simp add: new_decoder_def)
  next
    case (snoc chunk chunks)
    obtain r d where p: "push parse valid lims chunk (ch_decoder (?c chunks)) = (r, d)" by (metis surj_pair)
    from push_frames_of [OF _ p] snoc have d: "decoder_ok d"
      "frames_of parse valid lims (buffered (ch_decoder (?c chunks)) @ chunk) = (r, buffered d)" by auto
    have un: "de_unread d = length (buffered d)" using d(1) by (rule frame_buffer.held_bytes)
    have step: "?c (chunks @ [chunk]) = handleData parse valid lims chunk (?c chunks)" by (simp add: receive_all_def)
    show ?case
      unfolding step using snoc d un frames_of_bound [of parse valid lims _ _ "buffered d"]
      by (cases r) (auto simp: handleData_def p)
  qed
  then show "ch_destroyed (?c chunks) = None \<Longrightarrow> ?thesis" by (simp add: FRAME_PREFIX_BYTES_def)
qed

end
