(* ===== verification/Truncation.thy ===== *)
theory Truncation
  imports Prelude
begin

unbundle bit_operations_syntax

text \<open>
  Truncation of tool output: \<open>packages/coding-agent/src/core/tools/truncate.ts\<close>. Text is a list of
  Unicode code points, a buffer a list of bytes; lines are counted in code points and sizes in
  bytes of UTF-8.
\<close>

type_synonym code_points = "nat list"

section \<open>UTF-8\<close>

text \<open>\<open>Buffer.from(s, 'utf-8')\<close>, one code point at a time.\<close>

definition utf8_char :: "nat \<Rightarrow> nat list" where
  "utf8_char c =
     (if c < 128 then [c]
      else if c < 2048 then [192 + c div 64, 128 + c mod 64]
      else if c < 65536 then [224 + c div 4096, 128 + c div 64 mod 64, 128 + c mod 64]
      else [240 + c div 262144, 128 + c div 4096 mod 64, 128 + c div 64 mod 64, 128 + c mod 64])"

definition utf8 :: "code_points \<Rightarrow> nat list" where
  "utf8 s = concat (map utf8_char s)"

definition byteLength :: "code_points \<Rightarrow> nat" where
  "byteLength s = length (utf8 s)"

text \<open>\<open>(b & 0xc0) === 0x80\<close>.\<close>

definition is_continuation :: "nat \<Rightarrow> bool" where
  "is_continuation b = (b AND 192 = 128)"

text \<open>\<open>toString('utf-8')\<close>; a byte that starts no character becomes U+FFFD.\<close>

fun utf8_decode :: "nat list \<Rightarrow> code_points" where
  "utf8_decode [] = []"
| "utf8_decode (a # bs) =
     (if a < 128 then a # utf8_decode bs
      else if 192 \<le> a \<and> a < 224 then (case bs of
          b # r \<Rightarrow> ((a - 192) * 64 + (b - 128)) # utf8_decode r | [] \<Rightarrow> [65533])
      else if 224 \<le> a \<and> a < 240 then (case bs of
          b # c # r \<Rightarrow> ((a - 224) * 4096 + (b - 128) * 64 + (c - 128)) # utf8_decode r | _ \<Rightarrow> [65533])
      else if 240 \<le> a then (case bs of
          b # c # d # r \<Rightarrow> ((a - 240) * 262144 + (b - 128) * 4096 + (c - 128) * 64 + (d - 128)) # utf8_decode r
        | _ \<Rightarrow> [65533])
      else 65533 # utf8_decode bs)"

section \<open>Lines\<close>

definition newline :: nat where "newline = 10"

text \<open>\<open>content.split('\n')\<close> and \<open>lines.join('\n')\<close>.\<close>

fun split_lines :: "code_points \<Rightarrow> code_points list" where
  "split_lines [] = [[]]"
| "split_lines (c # cs) =
     (if c = newline then [] # split_lines cs
      else case split_lines cs of l # ls \<Rightarrow> (c # l) # ls | [] \<Rightarrow> [[c]])"

fun join_lines :: "code_points list \<Rightarrow> code_points" where
  "join_lines [] = []"
| "join_lines [l] = l"
| "join_lines (l # m # ls) = l @ newline # join_lines (m # ls)"

section \<open>Truncation\<close>

definition DEFAULT_MAX_LINES :: nat where "DEFAULT_MAX_LINES = 2000"
definition DEFAULT_MAX_BYTES :: nat where "DEFAULT_MAX_BYTES = 50 * 1024"
definition GREP_MAX_LINE_LENGTH :: nat where "GREP_MAX_LINE_LENGTH = 500"

datatype limit = By_lines | By_bytes

record truncation_result =
  tn_content :: code_points
  tn_truncated :: bool
  tn_truncatedBy :: "limit option"
  tn_totalLines :: nat
  tn_totalBytes :: nat
  tn_outputLines :: nat
  tn_outputBytes :: nat
  tn_lastLinePartial :: bool
  tn_firstLineExceedsLimit :: bool
  tn_maxLines :: nat
  tn_maxBytes :: nat

record truncation_options =
  op_maxLines :: "nat option"
  op_maxBytes :: "nat option"

definition option_or :: "'a option \<Rightarrow> 'a \<Rightarrow> 'a" where
  "option_or x d = (case x of Some v \<Rightarrow> v | None \<Rightarrow> d)"

fun head_loop :: "nat \<Rightarrow> nat \<Rightarrow> nat \<Rightarrow> code_points list \<Rightarrow> code_points list \<times> nat \<Rightarrow> code_points list \<times> nat \<times> limit" where
  "head_loop maxLines maxBytes i [] (out, n) = (out, n, By_lines)"
| "head_loop maxLines maxBytes i (l # ls) (out, n) =
     (if i < maxLines then
        let lineBytes = byteLength l + (if i > 0 then 1 else 0) in
        if n + lineBytes > maxBytes then (out, n, By_bytes)
        else head_loop maxLines maxBytes (Suc i) ls (out @ [l], n + lineBytes)
      else (out, n, By_lines))"

definition truncateHead :: "code_points \<Rightarrow> truncation_options \<Rightarrow> truncation_result" where
  "truncateHead content options =
     (let maxLines = option_or (op_maxLines options) DEFAULT_MAX_LINES;
          maxBytes = option_or (op_maxBytes options) DEFAULT_MAX_BYTES;
          totalBytes = byteLength content;
          ls = split_lines content;
          totalLines = length ls
      in if totalLines \<le> maxLines \<and> totalBytes \<le> maxBytes then
           \<lparr>tn_content = content, tn_truncated = False, tn_truncatedBy = None, tn_totalLines = totalLines,
            tn_totalBytes = totalBytes, tn_outputLines = totalLines, tn_outputBytes = totalBytes,
            tn_lastLinePartial = False, tn_firstLineExceedsLimit = False, tn_maxLines = maxLines, tn_maxBytes = maxBytes\<rparr>
         else if byteLength (hd ls) > maxBytes then
           \<lparr>tn_content = [], tn_truncated = True, tn_truncatedBy = Some By_bytes, tn_totalLines = totalLines,
            tn_totalBytes = totalBytes, tn_outputLines = 0, tn_outputBytes = 0,
            tn_lastLinePartial = False, tn_firstLineExceedsLimit = True, tn_maxLines = maxLines, tn_maxBytes = maxBytes\<rparr>
         else let (out, n, by_limit) = head_loop maxLines maxBytes 0 ls ([], 0);
                  by_limit1 = (if length out \<ge> maxLines \<and> n \<le> maxBytes then By_lines else by_limit);
                  outputContent = join_lines out
              in \<lparr>tn_content = outputContent, tn_truncated = True, tn_truncatedBy = Some by_limit1, tn_totalLines = totalLines,
                  tn_totalBytes = totalBytes, tn_outputLines = length out, tn_outputBytes = byteLength outputContent,
                  tn_lastLinePartial = False, tn_firstLineExceedsLimit = False, tn_maxLines = maxLines, tn_maxBytes = maxBytes\<rparr>)"

text \<open>The scan for the start of a character.\<close>

definition truncateStringToBytesFromEnd :: "code_points \<Rightarrow> nat \<Rightarrow> code_points" where
  "truncateStringToBytesFromEnd s maxBytes =
     (let buf = utf8 s in
      if length buf \<le> maxBytes then s
      else utf8_decode (dropWhile is_continuation (drop (length buf - maxBytes) buf)))"

text \<open>The loop over the lines from the last one; the flag says that the kept line is cut.\<close>

fun tail_loop :: "nat \<Rightarrow> nat \<Rightarrow> code_points list \<Rightarrow> code_points list \<times> nat \<Rightarrow> code_points list \<times> nat \<times> limit \<times> bool" where
  "tail_loop maxLines maxBytes [] (out, n) = (out, n, By_lines, False)"
| "tail_loop maxLines maxBytes (l # ls) (out, n) =
     (if length out < maxLines then
        let lineBytes = byteLength l + (if length out > 0 then 1 else 0) in
        if n + lineBytes > maxBytes then
          (if list_all (\<lambda>c. length c = 0) out then
             let keptBlanks = min (length out) (maxBytes - 1);
                 cut = truncateStringToBytesFromEnd l (maxBytes - keptBlanks)
             in (cut # take keptBlanks out, byteLength cut + keptBlanks, By_bytes, True)
           else (out, n, By_bytes, False))
        else tail_loop maxLines maxBytes ls (l # out, n + lineBytes)
      else (out, n, By_lines, False))"

definition truncateTail :: "code_points \<Rightarrow> truncation_options \<Rightarrow> truncation_result" where
  "truncateTail content options =
     (let maxLines = option_or (op_maxLines options) DEFAULT_MAX_LINES;
          maxBytes = option_or (op_maxBytes options) DEFAULT_MAX_BYTES;
          totalBytes = byteLength content;
          ls = split_lines content;
          totalLines = length ls
      in if totalLines \<le> maxLines \<and> totalBytes \<le> maxBytes then
           \<lparr>tn_content = content, tn_truncated = False, tn_truncatedBy = None, tn_totalLines = totalLines,
            tn_totalBytes = totalBytes, tn_outputLines = totalLines, tn_outputBytes = totalBytes,
            tn_lastLinePartial = False, tn_firstLineExceedsLimit = False, tn_maxLines = maxLines, tn_maxBytes = maxBytes\<rparr>
         else let (out, n, by_limit, partial) = tail_loop maxLines maxBytes (rev ls) ([], 0);
                  by_limit1 = (if length out \<ge> maxLines \<and> n \<le> maxBytes then By_lines else by_limit);
                  outputContent = join_lines out
              in \<lparr>tn_content = outputContent, tn_truncated = True, tn_truncatedBy = Some by_limit1, tn_totalLines = totalLines,
                  tn_totalBytes = totalBytes, tn_outputLines = length out, tn_outputBytes = byteLength outputContent,
                  tn_lastLinePartial = partial, tn_firstLineExceedsLimit = False, tn_maxLines = maxLines, tn_maxBytes = maxBytes\<rparr>)"

text \<open>\<open>truncateLine\<close> counts the code units of a JavaScript string.\<close>

definition truncateLine :: "string \<Rightarrow> nat \<Rightarrow> string \<times> bool" where
  "truncateLine line maxChars =
     (if length line \<le> maxChars then (line, False) else (take maxChars line @ ''... [truncated]'', True))"

end
