(* ===== verification/Edit_Diff.thy ===== *)
theory Edit_Diff
  imports Truncation
begin

text \<open>
  The edit tool's text operations: \<open>packages/coding-agent/src/core/tools/edit-diff.ts\<close>. A text is
  the list of its UTF-16 code units, as JavaScript indexes it; \<open>split_lines\<close> and \<open>join_lines\<close> of
  \<open>Truncation\<close> split and join at the code unit 10. Unicode normalisation (\<open>normalize("NFKC")\<close>) and
  \<open>diffLines\<close> of the package \<open>diff\<close> are parameters.
\<close>

type_synonym code_units = "nat list"

section \<open>Line endings\<close>

text \<open>\<open>indexOf\<close>; None stands for -1.\<close>

fun indexOf :: "code_units \<Rightarrow> code_units \<Rightarrow> nat option" where
  "indexOf [] p = (if p = [] then Some 0 else None)"
| "indexOf (c # cs) p = (if prefix p (c # cs) then Some 0 else map_option Suc (indexOf cs p))"

datatype line_ending = Crlf | Lf

definition carriage_return :: nat where "carriage_return = 13"

definition detectLineEnding :: "code_units \<Rightarrow> line_ending" where
  "detectLineEnding content =
     (case indexOf content [newline] of
        None \<Rightarrow> Lf
      | Some lfIdx \<Rightarrow> (case indexOf content [carriage_return, newline] of
          None \<Rightarrow> Lf
        | Some crlfIdx \<Rightarrow> if crlfIdx < lfIdx then Crlf else Lf))"

text \<open>\<open>replace(/\r\n/g, '\n')\<close>.\<close>

fun crlf_to_lf :: "code_units \<Rightarrow> code_units" where
  "crlf_to_lf [] = []"
| "crlf_to_lf [c] = [c]"
| "crlf_to_lf (c # d # cs) =
     (if c = carriage_return \<and> d = newline then newline # crlf_to_lf cs else c # crlf_to_lf (d # cs))"

definition normalizeToLF :: "code_units \<Rightarrow> code_units" where
  "normalizeToLF s = map (\<lambda>c. if c = carriage_return then newline else c) (crlf_to_lf s)"

definition restoreLineEndings :: "code_units \<Rightarrow> line_ending \<Rightarrow> code_units" where
  "restoreLineEndings s ending =
     (case ending of Crlf \<Rightarrow> concat (map (\<lambda>c. if c = newline then [carriage_return, newline] else [c]) s) | Lf \<Rightarrow> s)"

definition byte_order_mark :: nat where "byte_order_mark = 65279"

definition stripBom :: "code_units \<Rightarrow> code_units \<times> code_units" where
  "stripBom content = (if prefix [byte_order_mark] content then ([byte_order_mark], tl content) else ([], content))"

section \<open>Matching\<close>

text \<open>The white space and line terminators of ECMAScript, which \<open>trimEnd\<close> removes.\<close>

definition is_space :: "nat \<Rightarrow> bool" where
  "is_space c = (9 \<le> c \<and> c \<le> 13 \<or> c = 32 \<or> c = 160 \<or> c = 5760 \<or> 8192 \<le> c \<and> c \<le> 8202 \<or> c = 8232 \<or> c = 8233
     \<or> c = 8239 \<or> c = 8287 \<or> c = 12288 \<or> c = 65279)"

definition trimEnd :: "code_units \<Rightarrow> code_units" where
  "trimEnd s = rev (dropWhile is_space (rev s))"

definition plain_quote :: "nat \<Rightarrow> nat" where
  "plain_quote c = (if c = 8216 \<or> c = 8217 \<or> c = 8218 \<or> c = 8219 then 39 else c)"

definition plain_double_quote :: "nat \<Rightarrow> nat" where
  "plain_double_quote c = (if c = 8220 \<or> c = 8221 \<or> c = 8222 \<or> c = 8223 then 34 else c)"

definition plain_dash :: "nat \<Rightarrow> nat" where
  "plain_dash c = (if c = 8208 \<or> c = 8209 \<or> c = 8210 \<or> c = 8211 \<or> c = 8212 \<or> c = 8213 \<or> c = 8722 then 45 else c)"

definition plain_space :: "nat \<Rightarrow> nat" where
  "plain_space c = (if c = 160 \<or> 8194 \<le> c \<and> c \<le> 8202 \<or> c = 8239 \<or> c = 8287 \<or> c = 12288 then 32 else c)"

definition normalizeForFuzzyMatch :: "(code_units \<Rightarrow> code_units) \<Rightarrow> code_units \<Rightarrow> code_units" where
  "normalizeForFuzzyMatch nfkc s =
     map plain_space (map plain_dash (map plain_double_quote (map plain_quote
       (join_lines (map trimEnd (split_lines (nfkc s)))))))"

record fuzzy_match =
  fm_found :: bool
  fm_index :: int
  fm_matchLength :: nat
  fm_usedFuzzyMatch :: bool
  fm_contentForReplacement :: code_units

definition fuzzyFindText :: "(code_units \<Rightarrow> code_units) \<Rightarrow> code_units \<Rightarrow> code_units \<Rightarrow> fuzzy_match" where
  "fuzzyFindText nfkc content oldText =
     (case indexOf content oldText of
        Some exactIndex \<Rightarrow>
          \<lparr>fm_found = True, fm_index = int exactIndex, fm_matchLength = length oldText, fm_usedFuzzyMatch = False,
           fm_contentForReplacement = content\<rparr>
      | None \<Rightarrow>
          (let fuzzyContent = normalizeForFuzzyMatch nfkc content;
               fuzzyOldText = normalizeForFuzzyMatch nfkc oldText
           in case indexOf fuzzyContent fuzzyOldText of
                None \<Rightarrow>
                  \<lparr>fm_found = False, fm_index = -1, fm_matchLength = 0, fm_usedFuzzyMatch = False,
                   fm_contentForReplacement = content\<rparr>
              | Some fuzzyIndex \<Rightarrow>
                  \<lparr>fm_found = True, fm_index = int fuzzyIndex, fm_matchLength = length fuzzyOldText,
                   fm_usedFuzzyMatch = True, fm_contentForReplacement = fuzzyContent\<rparr>))"

text \<open>\<open>split\<close> at a separator: an empty one splits into the code units.\<close>

fun split_scan :: "code_units \<Rightarrow> nat \<Rightarrow> code_units \<Rightarrow> code_units \<Rightarrow> code_units list" where
  "split_scan sep skip acc [] = [rev acc]"
| "split_scan sep (Suc skip) acc (c # cs) = split_scan sep skip acc cs"
| "split_scan sep 0 acc (c # cs) =
     (if prefix sep (c # cs) then rev acc # split_scan sep (length sep - 1) [] cs
      else split_scan sep 0 (c # acc) cs)"

definition split_text :: "code_units \<Rightarrow> code_units \<Rightarrow> code_units list" where
  "split_text s sep = (if sep = [] then map (\<lambda>c. [c]) s else split_scan sep 0 [] s)"

definition countOccurrences :: "(code_units \<Rightarrow> code_units) \<Rightarrow> code_units \<Rightarrow> code_units \<Rightarrow> int" where
  "countOccurrences nfkc content oldText =
     int (length (split_text (normalizeForFuzzyMatch nfkc content) (normalizeForFuzzyMatch nfkc oldText))) - 1"

section \<open>Edits\<close>

record edit =
  ed_oldText :: code_units
  ed_newText :: code_units

record matched_edit =
  me_editIndex :: nat
  me_matchIndex :: nat
  me_matchLength :: nat
  me_newText :: code_units

record applied_edits =
  ae_baseContent :: code_units
  ae_newContent :: code_units

text \<open>The errors thrown, by their message; a message names the edit only when there are several.\<close>

datatype edit_error =
  Not_found_only | Not_found_edit nat
| Duplicate_only int | Duplicate_edit nat int
| Empty_only | Empty_edit nat
| No_change_only | No_change_edits
| Overlap nat nat

definition getNotFoundError :: "nat \<Rightarrow> nat \<Rightarrow> edit_error" where
  "getNotFoundError editIndex totalEdits = (if totalEdits = 1 then Not_found_only else Not_found_edit editIndex)"

definition getDuplicateError :: "nat \<Rightarrow> nat \<Rightarrow> int \<Rightarrow> edit_error" where
  "getDuplicateError editIndex totalEdits occurrences =
     (if totalEdits = 1 then Duplicate_only occurrences else Duplicate_edit editIndex occurrences)"

definition getEmptyOldTextError :: "nat \<Rightarrow> nat \<Rightarrow> edit_error" where
  "getEmptyOldTextError editIndex totalEdits = (if totalEdits = 1 then Empty_only else Empty_edit editIndex)"

definition getNoChangeError :: "nat \<Rightarrow> edit_error" where
  "getNoChangeError totalEdits = (if totalEdits = 1 then No_change_only else No_change_edits)"

text \<open>The loop that looks for an empty text.\<close>

fun first_empty :: "nat \<Rightarrow> edit list \<Rightarrow> nat option" where
  "first_empty i [] = None"
| "first_empty i (e # es) = (if length (ed_oldText e) = 0 then Some i else first_empty (Suc i) es)"

text \<open>The loop that locates every edit in the base content.\<close>

fun match_edits ::
  "(code_units \<Rightarrow> code_units) \<Rightarrow> code_units \<Rightarrow> nat \<Rightarrow> nat \<Rightarrow> edit list \<Rightarrow> matched_edit list \<Rightarrow> edit_error + matched_edit list" where
  "match_edits nfkc baseContent totalEdits i [] acc = Inr acc"
| "match_edits nfkc baseContent totalEdits i (e # es) acc =
     (let matchResult = fuzzyFindText nfkc baseContent (ed_oldText e) in
      if \<not> fm_found matchResult then Inl (getNotFoundError i totalEdits)
      else let occurrences = countOccurrences nfkc baseContent (ed_oldText e) in
        if occurrences > 1 then Inl (getDuplicateError i totalEdits occurrences)
        else match_edits nfkc baseContent totalEdits (Suc i) es
          (acc @ [\<lparr>me_editIndex = i, me_matchIndex = nat (fm_index matchResult),
                  me_matchLength = fm_matchLength matchResult, me_newText = ed_newText e\<rparr>]))"

text \<open>The check of neighbouring matches in order of position.\<close>

fun check_overlap :: "matched_edit list \<Rightarrow> edit_error option" where
  "check_overlap (previous # current # es) =
     (if me_matchIndex previous + me_matchLength previous > me_matchIndex current
      then Some (Overlap (me_editIndex previous) (me_editIndex current))
      else check_overlap (current # es))"
| "check_overlap _ = None"

definition replace_at :: "matched_edit \<Rightarrow> code_units \<Rightarrow> code_units" where
  "replace_at e s = take (me_matchIndex e) s @ me_newText e @ drop (me_matchIndex e + me_matchLength e) s"

text \<open>The replacements, from the last match to the first.\<close>

definition apply_matched :: "matched_edit list \<Rightarrow> code_units \<Rightarrow> code_units" where
  "apply_matched matchedEdits baseContent = foldr replace_at matchedEdits baseContent"

definition applyEditsToNormalizedContent ::
  "(code_units \<Rightarrow> code_units) \<Rightarrow> code_units \<Rightarrow> edit list \<Rightarrow> edit_error + applied_edits" where
  "applyEditsToNormalizedContent nfkc normalizedContent edits =
     (let normalizedEdits = map (\<lambda>e. \<lparr>ed_oldText = normalizeToLF (ed_oldText e), ed_newText = normalizeToLF (ed_newText e)\<rparr>) edits;
          totalEdits = length normalizedEdits
      in case first_empty 0 normalizedEdits of
           Some i \<Rightarrow> Inl (getEmptyOldTextError i totalEdits)
         | None \<Rightarrow>
             (let initialMatches = map (\<lambda>e. fuzzyFindText nfkc normalizedContent (ed_oldText e)) normalizedEdits;
                  baseContent = (if list_ex fm_usedFuzzyMatch initialMatches
                    then normalizeForFuzzyMatch nfkc normalizedContent else normalizedContent)
              in case match_edits nfkc baseContent totalEdits 0 normalizedEdits [] of
                   Inl err \<Rightarrow> Inl err
                 | Inr matched \<Rightarrow>
                     (let matchedEdits = sort_key me_matchIndex matched in
                      case check_overlap matchedEdits of
                        Some err \<Rightarrow> Inl err
                      | None \<Rightarrow>
                          (let newContent = apply_matched matchedEdits baseContent in
                           if baseContent = newContent then Inl (getNoChangeError totalEdits)
                           else Inr \<lparr>ae_baseContent = baseContent, ae_newContent = newContent\<rparr>))))"

section \<open>The diff that is shown\<close>

text \<open>A part of \<open>diffLines\<close>.\<close>

record diff_part =
  pt_value :: code_units
  pt_added :: bool
  pt_removed :: bool

datatype diff_line = Added_line nat code_units | Removed_line nat code_units | Context_line nat code_units | Skipped_lines

record diff_state =
  df_output :: "diff_line list"
  df_old :: nat
  df_new :: nat
  df_lastWasChange :: bool
  df_first :: "nat option"

definition part_lines :: "diff_part \<Rightarrow> code_units list" where
  "part_lines part = (let raw = split_lines (pt_value part) in if last raw = [] then butlast raw else raw)"

definition is_change :: "diff_part \<Rightarrow> bool" where
  "is_change part = (pt_added part \<or> pt_removed part)"

definition push_changed :: "diff_part \<Rightarrow> code_units \<Rightarrow> diff_state \<Rightarrow> diff_state" where
  "push_changed part line d =
     (if pt_added part then d\<lparr>df_output := df_output d @ [Added_line (df_new d) line], df_new := df_new d + 1\<rparr>
      else d\<lparr>df_output := df_output d @ [Removed_line (df_old d) line], df_old := df_old d + 1\<rparr>)"

definition push_context :: "code_units \<Rightarrow> diff_state \<Rightarrow> diff_state" where
  "push_context line d =
     d\<lparr>df_output := df_output d @ [Context_line (df_old d) line], df_old := df_old d + 1, df_new := df_new d + 1\<rparr>"

definition push_skip :: "nat \<Rightarrow> diff_state \<Rightarrow> diff_state" where
  "push_skip skippedLines d =
     d\<lparr>df_output := df_output d @ [Skipped_lines], df_old := df_old d + skippedLines, df_new := df_new d + skippedLines\<rparr>"

definition diff_change :: "diff_part \<Rightarrow> diff_state \<Rightarrow> diff_state" where
  "diff_change part d =
     (let d1 = (if df_first d = None then d\<lparr>df_first := Some (df_new d)\<rparr> else d);
          d2 = fold (push_changed part) (part_lines part) d1
      in d2\<lparr>df_lastWasChange := True\<rparr>)"

definition diff_context :: "nat \<Rightarrow> diff_part \<Rightarrow> bool \<Rightarrow> diff_state \<Rightarrow> diff_state" where
  "diff_context contextLines part hasTrailingChange d =
     (let raw = part_lines part;
          hasLeadingChange = df_lastWasChange d;
          d1 = (if hasLeadingChange \<and> hasTrailingChange then
                  (if length raw \<le> contextLines * 2 then fold push_context raw d
                   else
                     (let leadingLines = take contextLines raw;
                          trailingLines = drop (length raw - contextLines) raw;
                          skippedLines = length raw - length leadingLines - length trailingLines
                      in fold push_context trailingLines (push_skip skippedLines (fold push_context leadingLines d))))
                else if hasLeadingChange then
                  (let shownLines = take contextLines raw;
                       skippedLines = length raw - length shownLines;
                       d2 = fold push_context shownLines d
                   in if skippedLines > 0 then push_skip skippedLines d2 else d2)
                else if hasTrailingChange then
                  (let skippedLines = length raw - contextLines;
                       d2 = (if skippedLines > 0 then push_skip skippedLines d else d)
                   in fold push_context (drop skippedLines raw) d2)
                else d\<lparr>df_old := df_old d + length raw, df_new := df_new d + length raw\<rparr>)
      in d1\<lparr>df_lastWasChange := False\<rparr>)"

fun diff_loop :: "nat \<Rightarrow> diff_part list \<Rightarrow> diff_state \<Rightarrow> diff_state" where
  "diff_loop contextLines [] d = d"
| "diff_loop contextLines (part # parts) d =
     diff_loop contextLines parts
       (if is_change part then diff_change part d
        else diff_context contextLines part (case parts of next_part # _ \<Rightarrow> is_change next_part | [] \<Rightarrow> False) d)"

fun decimal :: "nat \<Rightarrow> code_units" where
  "decimal n = (if n < 10 then [48 + n] else decimal (n div 10) @ [48 + n mod 10])"

definition padStart :: "nat \<Rightarrow> code_units \<Rightarrow> code_units" where
  "padStart width s = replicate (width - length s) 32 @ s"

fun render_line :: "nat \<Rightarrow> diff_line \<Rightarrow> code_units" where
  "render_line width (Added_line n line) = 43 # padStart width (decimal n) @ 32 # line"
| "render_line width (Removed_line n line) = 45 # padStart width (decimal n) @ 32 # line"
| "render_line width (Context_line n line) = 32 # padStart width (decimal n) @ 32 # line"
| "render_line width Skipped_lines = 32 # padStart width [] @ [32, 46, 46, 46]"

definition diff_lines :: "diff_part list \<Rightarrow> nat \<Rightarrow> nat \<Rightarrow> diff_state" where
  "diff_lines diffParts contextLines startLine =
     diff_loop contextLines diffParts
       \<lparr>df_output = [], df_old = startLine, df_new = startLine, df_lastWasChange = False, df_first = None\<rparr>"

definition generateDiffString ::
  "(code_units \<Rightarrow> code_units \<Rightarrow> diff_part list) \<Rightarrow> code_units \<Rightarrow> code_units \<Rightarrow> nat \<Rightarrow> nat \<Rightarrow> code_units \<times> nat option" where
  "generateDiffString diffLines oldContent newContent contextLines startLine =
     (let maxLineNum = startLine - 1 + max (length (split_lines oldContent)) (length (split_lines newContent));
          lineNumWidth = length (decimal maxLineNum);
          d = diff_lines (diffLines oldContent newContent) contextLines startLine
      in (join_lines (map (render_line lineNumWidth) (df_output d)), df_first d))"

text \<open>The preview; a file that cannot be read is None.\<close>

datatype preview_error = Cannot_read | Cannot_edit edit_error

definition computeEditsDiff ::
  "(code_units \<Rightarrow> code_units) \<Rightarrow> (code_units \<Rightarrow> code_units \<Rightarrow> diff_part list) \<Rightarrow> code_units option \<Rightarrow> edit list
    \<Rightarrow> preview_error + code_units \<times> nat option" where
  "computeEditsDiff nfkc diffLines file edits =
     (case file of
        None \<Rightarrow> Inl Cannot_read
      | Some rawContent \<Rightarrow>
          (let (_, content) = stripBom rawContent;
               normalizedContent = normalizeToLF content
           in case applyEditsToNormalizedContent nfkc normalizedContent edits of
                Inl err \<Rightarrow> Inl (Cannot_edit err)
              | Inr r \<Rightarrow> Inr (generateDiffString diffLines (ae_baseContent r) (ae_newContent r) 4 1)))"

definition computeEditDiff ::
  "(code_units \<Rightarrow> code_units) \<Rightarrow> (code_units \<Rightarrow> code_units \<Rightarrow> diff_part list) \<Rightarrow> code_units option \<Rightarrow> code_units \<Rightarrow> code_units
    \<Rightarrow> preview_error + code_units \<times> nat option" where
  "computeEditDiff nfkc diffLines file oldText newText =
     computeEditsDiff nfkc diffLines file [\<lparr>ed_oldText = oldText, ed_newText = newText\<rparr>]"

text \<open>
  What the edit tool writes back (\<open>execute\<close> of \<open>tools/edit.ts\<close>): the byte order mark stays in front
  and the line endings are those found in the file.
\<close>

definition edited_file ::
  "(code_units \<Rightarrow> code_units) \<Rightarrow> code_units \<Rightarrow> edit list \<Rightarrow> edit_error + applied_edits \<times> code_units" where
  "edited_file nfkc rawContent edits =
     (let (bom, content) = stripBom rawContent;
          originalEnding = detectLineEnding content;
          normalizedContent = normalizeToLF content
      in case applyEditsToNormalizedContent nfkc normalizedContent edits of
           Inl err \<Rightarrow> Inl err
         | Inr r \<Rightarrow> Inr (r, bom @ restoreLineEndings (ae_newContent r) originalEnding))"

end
