(* ===== verification/Truncation_Bounds.thy ===== *)
theory Truncation_Bounds
  imports Truncation
begin

text \<open>
  Facts about \<open>Truncation\<close>: the loops keep the byte count of the joined output, a cut of UTF-8 falls
  between characters, and both truncations respect their limits.
\<close>

section \<open>Lengths of lines\<close>

lemma byteLength_Nil [simp]: "byteLength [] = 0"
  by (simp add: byteLength_def utf8_def)

lemma byteLength_append [simp]: "byteLength (s @ t) = byteLength s + byteLength t"
  by (simp add: byteLength_def utf8_def)

lemma byteLength_newline [simp]: "byteLength (newline # s) = Suc (byteLength s)"
  by (simp add: byteLength_def utf8_def utf8_char_def newline_def)

lemma split_lines_not_Nil [simp]: "split_lines s \<noteq> []"
  by (induction s) (auto split: list.splits)

lemma join_split_lines: "join_lines (split_lines s) = s"
proof (induction s)
  case (Cons c s)
  then show ?case
  proof (cases "split_lines s")
    case (Cons l ls)
    with \<open>join_lines (split_lines s) = s\<close> show ?thesis by (cases ls) auto
  qed simp
qed simp

lemma join_lines_snoc: "ls \<noteq> [] \<Longrightarrow> join_lines (ls @ [l]) = join_lines ls @ newline # l"
  by (induction ls rule: join_lines.induct) auto

lemma join_lines_Cons: "ls \<noteq> [] \<Longrightarrow> join_lines (l # ls) = l @ newline # join_lines ls"
  by (cases ls) auto

lemma head_loop_bounds:
  "head_loop maxLines maxBytes i ls (out, n) = (out', n', b) \<Longrightarrow> i = length out \<Longrightarrow> i \<le> maxLines
    \<Longrightarrow> n = byteLength (join_lines out) \<Longrightarrow> n \<le> maxBytes
    \<Longrightarrow> length out' \<le> maxLines \<and> n' = byteLength (join_lines out') \<and> n' \<le> maxBytes \<and> (\<exists>k. out' = out @ take k ls)"
proof (induction maxLines maxBytes i ls "(out, n)" arbitrary: out n rule: head_loop.induct)
  case (1 maxLines maxBytes i out n)
  then show ?case by auto
next
  case (2 maxLines maxBytes i l ls out n)
  let ?b = "byteLength l + (if i > 0 then 1 else 0)"
  show ?case
  proof (cases "i < maxLines \<and> n + ?b \<le> maxBytes")
    case True
    have "head_loop maxLines maxBytes (Suc i) ls (out @ [l], n + ?b) = (out', n', b)" using True 2(2) by (simp add: Let_def)
    moreover have "n + ?b = byteLength (join_lines (out @ [l]))" using 2(3,5) by (cases "out = []") (auto simp: join_lines_snoc)
    ultimately have "length out' \<le> maxLines \<and> n' = byteLength (join_lines out') \<and> n' \<le> maxBytes \<and> (\<exists>k. out' = (out @ [l]) @ take k ls)"
      using 2(1) [OF _ refl] True 2(3) by auto
    then obtain k where "length out' \<le> maxLines" "n' = byteLength (join_lines out')" "n' \<le> maxBytes" "out' = (out @ [l]) @ take k ls"
      by blast
    then show ?thesis by (intro conjI exI [of _ "Suc k"]) simp_all
  next
    case False
    with 2(2) have "out' = out" "n' = n" by (auto simp: Let_def split: if_splits)
    with 2(3,4,5,6) show ?thesis by (auto intro: exI [of _ 0])
  qed
qed

unbundle bit_operations_syntax

section \<open>Cutting at a character\<close>

definition code_point :: "nat \<Rightarrow> bool" where
  "code_point c \<longleftrightarrow> c < 1114112"

lemma and_push_bit: "(b :: nat) AND push_bit k m = push_bit k (drop_bit k b AND m)"
  by (rule bit_eqI) (auto simp: bit_simps)

lemma is_continuation_iff:
  assumes "b < 256"
  shows "is_continuation b = (128 \<le> b \<and> b < 192)"
proof -
  have "b AND push_bit 6 (mask 2) = push_bit 6 (take_bit 2 (drop_bit 6 b))"
    by (simp only: and_push_bit take_bit_eq_mask)
  then have "b AND 192 = push_bit 6 (take_bit 2 (drop_bit 6 b))"
    by (simp add: push_bit_eq_mult mask_eq_exp_minus_1)
  also have "\<dots> = b div 64 * 64" using assms by (simp add: push_bit_eq_mult drop_bit_eq_div take_bit_eq_mod)
  finally show ?thesis unfolding is_continuation_def by auto
qed
lemma utf8_char_shape:
  assumes "code_point c"
  obtains a bs where "utf8_char c = a # bs" "\<not> is_continuation a" "\<forall>b\<in>set bs. is_continuation b"
    "utf8_decode (a # bs @ r) = c # utf8_decode r"
proof -
  have m: "x mod 64 < 64" for x :: nat by simp
  have cont: "is_continuation (128 + x mod 64)" for x
    using m [of x] by (subst is_continuation_iff) auto
  consider (1) "c < 128" | (2) "128 \<le> c" "c < 2048" | (3) "2048 \<le> c" "c < 65536" | (4) "65536 \<le> c" by linarith
  then show thesis
  proof cases
    case 1
    then show thesis by (intro that [of c "[]"]) (simp_all add: utf8_char_def is_continuation_iff)
  next
    case 2
    then have d: "c div 64 < 32" by (simp add: less_mult_imp_div_less)
    show thesis
      using 2 d cont by (intro that [of "192 + c div 64" "[128 + c mod 64]"]) (simp_all add: utf8_char_def is_continuation_iff)
  next
    case 3
    then have d: "c div 4096 < 16" by (simp add: less_mult_imp_div_less)
    have "c div 4096 * 4096 + c div 64 mod 64 * 64 + c mod 64 = c"
    proof -
      have "c div 64 = c div 4096 * 64 + c div 64 mod 64" using div_mult_mod_eq [of "c div 64" 64] by (simp add: div_mult2_eq [symmetric])
      moreover have "c = c div 64 * 64 + c mod 64" by (rule div_mult_mod_eq [symmetric])
      ultimately show ?thesis by linarith
    qed
    with 3 d cont show thesis
      by (intro that [of "224 + c div 4096" "[128 + c div 64 mod 64, 128 + c mod 64]"])
        (simp_all add: utf8_char_def is_continuation_iff)
  next
    case 4
    then have d: "c div 262144 < 5" using assms by (simp add: code_point_def less_mult_imp_div_less)
    have "c div 262144 * 262144 + c div 4096 mod 64 * 4096 + c div 64 mod 64 * 64 + c mod 64 = c"
    proof -
      have "c div 4096 = c div 262144 * 64 + c div 4096 mod 64"
        using div_mult_mod_eq [of "c div 4096" 64] by (simp add: div_mult2_eq [symmetric])
      moreover have "c div 64 = c div 4096 * 64 + c div 64 mod 64" using div_mult_mod_eq [of "c div 64" 64] by (simp add: div_mult2_eq [symmetric])
      moreover have "c = c div 64 * 64 + c mod 64" by (rule div_mult_mod_eq [symmetric])
      ultimately show ?thesis by linarith
    qed
    with 4 d cont show thesis
      by (intro that [of "240 + c div 262144" "[128 + c div 4096 mod 64, 128 + c div 64 mod 64, 128 + c mod 64]"])
        (simp_all add: utf8_char_def is_continuation_iff)
  qed
qed

lemma utf8_decode_utf8: "list_all code_point s \<Longrightarrow> utf8_decode (utf8 s) = s"
proof (induction s)
  case (Cons c s)
  then have "code_point c" by simp
  then obtain a bs where "utf8_char c = a # bs" "utf8_decode (a # bs @ utf8 s) = c # utf8_decode (utf8 s)"
    by (rule utf8_char_shape)
  with Cons show ?case by (simp add: utf8_def)
qed (simp add: utf8_def)

lemma length_utf8_char: "length (utf8_char c) \<le> 4"
  by (simp add: utf8_char_def)

text \<open>From any byte the next character starts within three bytes.\<close>

lemma utf8_boundary:
  "list_all code_point s \<Longrightarrow> \<exists>k. dropWhile is_continuation (drop j (utf8 s)) = utf8 (drop k s)
     \<and> length (drop j (utf8 s)) \<le> length (utf8 (drop k s)) + 3"
proof (induction s arbitrary: j)
  case Nil
  then show ?case by (simp add: utf8_def)
next
  case (Cons c s)
  then have "code_point c" by simp
  then obtain a bs where u: "utf8_char c = a # bs" "\<not> is_continuation a" "\<forall>b\<in>set bs. is_continuation b"
    by (rule utf8_char_shape)
  have full: "utf8 (c # s) = a # bs @ utf8 s" using u(1) by (simp add: utf8_def)
  have short: "length bs \<le> 3" using length_utf8_char [of c] u(1) by simp
  show ?case
  proof (cases j)
    case 0
    with u(2) full show ?thesis by (intro exI [of _ 0]) simp
  next
    case (Suc i)
    show ?thesis
    proof (cases "i \<le> length bs")
      case True
      have "\<forall>b\<in>set (drop i bs). is_continuation b" using u(3) by (auto dest: in_set_dropD)
      then have "dropWhile is_continuation (drop i bs @ utf8 s) = dropWhile is_continuation (drop 0 (utf8 s))"
        by (simp add: dropWhile_append2)
      moreover have "dropWhile is_continuation (drop 0 (utf8 s)) = utf8 s"
      proof (cases s)
        case (Cons d t)
        then have "code_point d" using \<open>list_all code_point (c # s)\<close> by simp
        then obtain e es where "utf8_char d = e # es" "\<not> is_continuation e" by (rule utf8_char_shape)
        then show ?thesis by (simp add: Cons utf8_def)
      qed (simp add: utf8_def)
      ultimately show ?thesis using Suc True full short by (intro exI [of _ "Suc 0"]) simp
    next
      case False
      then obtain k where "dropWhile is_continuation (drop (i - length bs) (utf8 s)) = utf8 (drop k s)"
        "length (drop (i - length bs) (utf8 s)) \<le> length (utf8 (drop k s)) + 3"
        using Cons.IH [of "i - length bs"] Cons.prems by auto
      then show ?thesis using Suc False full by (intro exI [of _ "Suc k"]) simp
    qed
  qed
qed

lemma length_dropWhile: "length (dropWhile P xs) \<le> length xs"
  by (induction xs) auto

text \<open>The cut keeps whole characters from the end and fits.\<close>

lemma truncateStringToBytesFromEnd_suffix:
  assumes "list_all code_point s"
  shows "byteLength (truncateStringToBytesFromEnd s n) \<le> n \<and> suffix (truncateStringToBytesFromEnd s n) s"
proof (cases "byteLength s \<le> n")
  case True
  then show ?thesis by (simp add: truncateStringToBytesFromEnd_def byteLength_def Let_def)
next
  case False
  obtain k where k: "dropWhile is_continuation (drop (length (utf8 s) - n) (utf8 s)) = utf8 (drop k s)"
    using utf8_boundary [OF assms] by blast
  have "list_all code_point (drop k s)" using assms by (auto simp: list_all_iff dest: in_set_dropD)
  then have t: "truncateStringToBytesFromEnd s n = drop k s"
    using False by (simp add: truncateStringToBytesFromEnd_def byteLength_def Let_def k utf8_decode_utf8)
  have "length (utf8 (drop k s)) \<le> length (drop (length (utf8 s) - n) (utf8 s))"
    unfolding k [symmetric] by (rule length_dropWhile)
  also have "\<dots> \<le> n" by simp
  finally show ?thesis unfolding t byteLength_def by (simp add: suffix_drop)
qed

lemma blank_lines: "list_all (\<lambda>c. length c = 0) ls \<Longrightarrow> byteLength (join_lines ls) = length ls - 1"
proof (induction ls rule: join_lines.induct)
  case (3 l m ls)
  then show ?case by simp
qed auto

lemma tail_loop_bounds:
  "tail_loop maxLines maxBytes ls (out, n) = (out', n', b, p) \<Longrightarrow> length out \<le> maxLines \<Longrightarrow> list_all (list_all code_point) ls
    \<Longrightarrow> n = byteLength (join_lines out) \<Longrightarrow> n \<le> maxBytes
    \<Longrightarrow> length out' \<le> maxLines \<and> byteLength (join_lines out') \<le> maxBytes \<and> n' = byteLength (join_lines out')
      \<and> (\<not> p \<longrightarrow> (\<exists>k. out' = rev (take k ls) @ out))
      \<and> (p \<longrightarrow> (\<exists>l\<in>set ls. suffix (hd out') l \<and> list_all (\<lambda>c. length c = 0) (tl out')))"
proof (induction maxLines maxBytes ls "(out, n)" arbitrary: out n rule: tail_loop.induct)
  case (1 maxLines maxBytes out n)
  then show ?case by auto
next
  case (2 maxLines maxBytes l ls out n)
  let ?b = "byteLength l + (if length out > 0 then 1 else 0)"
  consider (full) "\<not> length out < maxLines" | (fits) "length out < maxLines" "n + ?b \<le> maxBytes"
    | (cut) "length out < maxLines" "\<not> n + ?b \<le> maxBytes" "list_all (\<lambda>c. length c = 0) out"
    | (stop) "length out < maxLines" "\<not> n + ?b \<le> maxBytes" "\<not> list_all (\<lambda>c. length c = 0) out" by blast
  then show ?case
  proof cases
    case full
    with 2(2) have "out' = out" "n' = n" "\<not> p" by auto
    with 2(3,5,6) show ?thesis by (auto intro: exI [of _ 0])
  next
    case fits
    have "tail_loop maxLines maxBytes ls (l # out, n + ?b) = (out', n', b, p)" using fits 2(2) by (simp add: Let_def)
    moreover have "n + ?b = byteLength (join_lines (l # out))" using 2(5) by (cases "out = []") (auto simp: join_lines_Cons)
    ultimately have ih: "length out' \<le> maxLines \<and> byteLength (join_lines out') \<le> maxBytes \<and> n' = byteLength (join_lines out')
      \<and> (\<not> p \<longrightarrow> (\<exists>k. out' = rev (take k ls) @ l # out))
      \<and> (p \<longrightarrow> (\<exists>l\<in>set ls. suffix (hd out') l \<and> list_all (\<lambda>c. length c = 0) (tl out')))"
      using 2(1) [OF fits(1) refl] fits 2(4) by simp
    moreover have "\<not> p \<longrightarrow> (\<exists>k. out' = rev (take k (l # ls)) @ out)"
    proof
      assume "\<not> p"
      with ih obtain k where "out' = rev (take k ls) @ l # out" by blast
      then show "\<exists>k. out' = rev (take k (l # ls)) @ out" by (intro exI [of _ "Suc k"]) simp
    qed
    ultimately show ?thesis by auto
  next
    case stop
    with 2(2) have "out' = out" "n' = n" "\<not> p" by (auto simp: Let_def)
    with 2(3,5,6) show ?thesis by (auto intro: exI [of _ 0])
  next
    case cut
    define k where "k = min (length out) (maxBytes - 1)"
    define c where "c = truncateStringToBytesFromEnd l (maxBytes - k)"
    have r: "out' = c # take k out" "n' = byteLength c + k" "p"
      using cut 2(2) by (auto simp: Let_def k_def c_def)
    have c: "byteLength c \<le> maxBytes - k" "suffix c l"
      using truncateStringToBytesFromEnd_suffix [of l "maxBytes - k"] 2(4) by (auto simp: c_def)
    have blank: "list_all (\<lambda>c. length c = 0) (take k out)" using cut(3) by (auto simp: list_all_iff dest: in_set_takeD)
    have "byteLength (join_lines (take k out)) = k - 1" using blank_lines [OF blank] by (simp add: k_def)
    then have bytes: "byteLength (join_lines (c # take k out)) = byteLength c + k"
      by (cases "take k out = []") (auto simp: join_lines_Cons k_def)
    have "k \<le> maxBytes" by (simp add: k_def)
    moreover have "length (take k out) < maxLines" using cut(1) by simp
    ultimately show ?thesis using r c bytes blank by auto
  qed
qed

section \<open>The limits\<close>

lemma split_lines_points: "list_all P s \<Longrightarrow> list_all (list_all P) (split_lines s)"
proof (induction s)
  case (Cons c s)
  then show ?case by (cases "split_lines s") auto
qed simp

lemma head_loop_from_start:
  assumes "head_loop maxLines maxBytes 0 ls ([], 0) = (out, n, b)"
  shows "length out \<le> maxLines \<and> byteLength (join_lines out) \<le> maxBytes \<and> (\<exists>k. out = take k ls)"
  using head_loop_bounds [OF assms] by auto

lemma tail_loop_from_end:
  assumes "tail_loop maxLines maxBytes (rev ls) ([], 0) = (out, n, b, p)" "list_all (list_all code_point) ls"
  shows "length out \<le> maxLines \<and> byteLength (join_lines out) \<le> maxBytes
    \<and> (if p then list_ex (suffix (hd out)) ls \<and> list_all (\<lambda>c. length c = 0) (tl out) else (\<exists>k. out = drop k ls))"
proof -
  have b: "length out \<le> maxLines \<and> byteLength (join_lines out) \<le> maxBytes \<and> n = byteLength (join_lines out)
      \<and> (\<not> p \<longrightarrow> (\<exists>k. out = rev (take k (rev ls)) @ []))
      \<and> (p \<longrightarrow> (\<exists>l\<in>set (rev ls). suffix (hd out) l \<and> list_all (\<lambda>c. length c = 0) (tl out)))"
    using tail_loop_bounds [OF assms(1)] assms(2) by (simp add: list_all_iff)
  then show ?thesis by (auto simp: rev_take list_ex_iff)
qed

lemma tail_partial_not_Nil: "tail_loop maxLines maxBytes ls (out, n) = (out', n', b, True) \<Longrightarrow> out' \<noteq> []"
  by (induction maxLines maxBytes ls "(out, n)" arbitrary: out n rule: tail_loop.induct)
    (auto simp: Let_def split: if_splits)

section \<open>Lines of a text in parts\<close>

lemma split_lines_at: "split_lines (s @ newline # t) = split_lines s @ split_lines t"
proof (induction s)
  case (Cons c s)
  then show ?case by (cases "split_lines s") auto
qed simp

lemma split_lines_one: "newline \<notin> set s \<Longrightarrow> split_lines s = [s]"
  by (induction s) auto

lemma split_lines_no_newline: "l \<in> set (split_lines s) \<Longrightarrow> newline \<notin> set l"
proof (induction s arbitrary: l)
  case (Cons c s)
  then show ?case by (cases "split_lines s") (auto split: if_splits)
qed simp

lemma split_lines_join: "list_all (\<lambda>l. newline \<notin> set l) ls \<Longrightarrow> ls \<noteq> [] \<Longrightarrow> split_lines (join_lines ls) = ls"
  by (induction ls rule: join_lines.induct) (auto simp: split_lines_one split_lines_at)

section \<open>Results within the limits\<close>

definition within_limits :: "truncation_result \<Rightarrow> bool" where
  "within_limits r = (tn_outputLines r \<le> tn_maxLines r \<and> tn_outputBytes r \<le> tn_maxBytes r
     \<and> tn_outputBytes r = byteLength (tn_content r))"

text \<open>
  C17: the truncated output of a tool respects both limits at once, whatever their values: at most
  \<open>maxLines\<close> lines and at most \<open>maxBytes\<close> bytes, with the reported size the true one. From the
  head the output is made of whole leading lines; from the tail of whole trailing lines, or, when
  the result is flagged partial, of the end of one line cut between characters and blank lines
  after it. (\<open>code_point\<close> bounds the characters, which holds of every JavaScript string.)
\<close>
theorem truncation_limits:
  assumes "list_all code_point content"
  shows "within_limits (truncateHead content options) \<and> within_limits (truncateTail content options)
    \<and> (\<exists>k. tn_content (truncateHead content options) = join_lines (take k (split_lines content)))
    \<and> (if tn_lastLinePartial (truncateTail content options)
       then \<exists>cut blanks. tn_content (truncateTail content options) = join_lines (cut # blanks)
         \<and> list_ex (suffix cut) (split_lines content) \<and> list_all (\<lambda>l. l = []) blanks
       else \<exists>k. tn_content (truncateTail content options) = join_lines (drop k (split_lines content)))"
proof -
  let ?ls = "split_lines content"
  let ?maxLines = "option_or (op_maxLines options) DEFAULT_MAX_LINES"
  let ?maxBytes = "option_or (op_maxBytes options) DEFAULT_MAX_BYTES"
  obtain out n b where h: "head_loop ?maxLines ?maxBytes 0 ?ls ([], 0) = (out, n, b)" by (metis prod.exhaust)
  obtain tout m c p where t: "tail_loop ?maxLines ?maxBytes (rev ?ls) ([], 0) = (tout, m, c, p)" by (metis prod.exhaust)
  note hb = head_loop_from_start [OF h] and tb = tail_loop_from_end [OF t split_lines_points [OF assms]]
  have whole: "\<exists>k. content = join_lines (take k ?ls)" "\<exists>k. content = join_lines (drop k ?ls)"
    by (intro exI [of _ "length ?ls"], simp add: join_split_lines) (intro exI [of _ 0], simp add: join_split_lines)
  have none: "\<exists>k. [] = join_lines (take k ?ls)" by (intro exI [of _ 0]) simp
  have head: "within_limits (truncateHead content options)
      \<and> (\<exists>k. tn_content (truncateHead content options) = join_lines (take k ?ls))"
    using hb whole none by (auto simp: truncateHead_def within_limits_def Let_def h)
  have partial: "\<exists>cut blanks. join_lines tout = join_lines (cut # blanks) \<and> list_ex (suffix cut) ?ls \<and> list_all (\<lambda>l. l = []) blanks"
    if p
    using that tb tail_partial_not_Nil t by (intro exI [of _ "hd tout"] exI [of _ "tl tout"]) auto
  have "within_limits (truncateTail content options)
    \<and> (if tn_lastLinePartial (truncateTail content options)
       then \<exists>cut blanks. tn_content (truncateTail content options) = join_lines (cut # blanks)
         \<and> list_ex (suffix cut) ?ls \<and> list_all (\<lambda>l. l = []) blanks
       else \<exists>k. tn_content (truncateTail content options) = join_lines (drop k ?ls))"
  proof (cases "length ?ls \<le> ?maxLines \<and> byteLength content \<le> ?maxBytes")
    case True
    with whole show ?thesis by (simp add: truncateTail_def within_limits_def Let_def)
  next
    case False
    show ?thesis
    proof -
      have r: "tn_content (truncateTail content options) = join_lines tout"
        "tn_lastLinePartial (truncateTail content options) = p" "within_limits (truncateTail content options)"
        using tb by (simp_all add: truncateTail_def within_limits_def Let_def t if_not_P [OF False])
      show ?thesis
      proof (cases p)
        case True
        with r partial show ?thesis by simp
      next
        case False
        with r tb show ?thesis by auto
      qed
    qed
  qed
  with head show ?thesis by blast
qed

lemma truncation_limits_witness:
  "within_limits (truncateTail [104, 233, 10] \<lparr>op_maxLines = Some 5, op_maxBytes = Some 2\<rparr>)"
  by (rule truncation_limits [THEN conjunct2, THEN conjunct1]) (simp add: code_point_def)

end
