(* ===== verification/Edit_Exact.thy ===== *)
theory Edit_Exact
  imports Edit_Diff Truncation_Bounds
begin

text \<open>
  Facts about \<open>Edit_Diff\<close>: normalisation for fuzzy matching is idempotent, replacing from the last
  match is a simultaneous replacement, line endings round trip, and the edit tool leaves the rest of
  a file alone.
\<close>

section \<open>Finding text\<close>

text \<open>\<open>occurs_at s p i\<close>: the text \<open>p\<close> stands at position \<open>i\<close> of \<open>s\<close>.\<close>

definition occurs_at :: "code_units \<Rightarrow> code_units \<Rightarrow> nat \<Rightarrow> bool" where
  "occurs_at s p i = (i + length p \<le> length s \<and> take (length p) (drop i s) = p)"

lemma indexOf_occurs: "indexOf s p = Some i \<Longrightarrow> occurs_at s p i"
proof (induction s arbitrary: i)
  case Nil
  then show ?case by (auto simp: occurs_at_def split: if_splits)
next
  case (Cons c cs)
  show ?case
  proof (cases "prefix p (c # cs)")
    case True
    with Cons.prems have "i = 0" by simp
    moreover obtain z where "c # cs = p @ z" using True by (rule prefixE)
    ultimately show ?thesis by (simp add: occurs_at_def)
  next
    case False
    with Cons show ?thesis by (auto simp: occurs_at_def)
  qed
qed

subsection \<open>Normalisation for fuzzy matching\<close>

definition plain :: "nat \<Rightarrow> nat" where
  "plain c = plain_space (plain_dash (plain_double_quote (plain_quote c)))"

lemma plain_cases: "plain c = c \<or> plain c = 39 \<or> plain c = 34 \<or> plain c = 45 \<or> plain c = 32 \<and> is_space c"
  by (simp add: plain_def plain_quote_def plain_double_quote_def plain_dash_def plain_space_def is_space_def)

lemma plain_ascii [simp]: "plain 39 = 39" "plain 34 = 34" "plain 45 = 45" "plain 32 = 32" "plain newline = newline"
  by (simp_all add: plain_def plain_quote_def plain_double_quote_def plain_dash_def plain_space_def newline_def)

lemma plain_keeps: "c = newline \<or> is_space c \<Longrightarrow> plain c = c \<or> plain c = 32"
  by (auto simp: plain_def plain_quote_def plain_double_quote_def plain_dash_def plain_space_def is_space_def newline_def)

lemma plain_newline: "plain c = newline \<Longrightarrow> c = newline"
  using plain_cases [of c] by (auto simp: newline_def)

lemma plain_plain [simp]: "plain (plain c) = plain c"
  using plain_cases [of c] by auto

lemma is_space_ascii: "\<not> is_space 39" "\<not> is_space 34" "\<not> is_space 45" "is_space 32"
  by (simp_all add: is_space_def)

lemma is_space_plain [simp]: "is_space (plain c) = is_space c"
  using plain_cases [of c] plain_keeps [of c] is_space_ascii by metis

lemma normalize_plain:
  "normalizeForFuzzyMatch nfkc s = map plain (join_lines (map trimEnd (split_lines (nfkc s))))"
  by (simp add: normalizeForFuzzyMatch_def comp_def plain_def)

lemma trimEnd_map_plain: "trimEnd (map plain s) = map plain (trimEnd s)"
proof -
  have "dropWhile is_space (map plain t) = map plain (dropWhile is_space t)" for t
    by (induction t) auto
  then show ?thesis by (simp add: trimEnd_def rev_map)
qed

lemma trimEnd_trimEnd [simp]: "trimEnd (trimEnd s) = trimEnd s"
proof -
  have "dropWhile P (dropWhile P t) = dropWhile P t" for P and t :: "nat list" by (induction t) auto
  then show ?thesis by (simp add: trimEnd_def)
qed

lemma set_trimEnd: "set (trimEnd s) \<subseteq> set s"
  by (auto simp: trimEnd_def dest: set_dropWhileD)

lemma map_join_lines: "f newline = newline \<Longrightarrow> map f (join_lines ls) = join_lines (map (map f) ls)"
  by (induction ls rule: join_lines.induct) auto

lemma normalize_idempotent:
  assumes "nfkc (normalizeForFuzzyMatch nfkc s) = normalizeForFuzzyMatch nfkc s"
  shows "normalizeForFuzzyMatch nfkc (normalizeForFuzzyMatch nfkc s) = normalizeForFuzzyMatch nfkc s"
proof -
  let ?ls = "map (map plain) (map trimEnd (split_lines (nfkc s)))"
  have n: "normalizeForFuzzyMatch nfkc s = join_lines ?ls"
    by (simp only: normalize_plain map_join_lines [where f = plain, OF plain_ascii(5)])
  have "newline \<notin> set l" if "l \<in> set ?ls" for l
  proof
    assume "newline \<in> set l"
    with that obtain k where k: "k \<in> set (split_lines (nfkc s))" "newline \<in> plain ` set (trimEnd k)" by auto
    then obtain c where "c \<in> set (trimEnd k)" "plain c = newline" by (metis imageE)
    then have "newline \<in> set k" using set_trimEnd [of k] plain_newline by auto
    with k(1) split_lines_no_newline show False by blast
  qed
  then have "split_lines (join_lines ?ls) = ?ls" by (intro split_lines_join) (auto simp: list_all_iff)
  moreover have "map plain (join_lines (map trimEnd ?ls)) = join_lines ?ls"
    unfolding map_join_lines [where f = plain, OF plain_ascii(5)] by (simp add: trimEnd_map_plain comp_def)
  moreover have "normalizeForFuzzyMatch nfkc (normalizeForFuzzyMatch nfkc s)
      = map plain (join_lines (map trimEnd (split_lines (normalizeForFuzzyMatch nfkc s))))"
    by (simp only: normalize_plain [of nfkc "normalizeForFuzzyMatch nfkc s"] assms)
  ultimately show ?thesis by (simp only: n)
qed

text \<open>Where a text is found in content that is its own normal form, or is found exactly.\<close>

definition located :: "(code_units \<Rightarrow> code_units) \<Rightarrow> code_units \<Rightarrow> code_units \<Rightarrow> code_units" where
  "located nfkc base oldText = (if indexOf base oldText \<noteq> None then oldText else normalizeForFuzzyMatch nfkc oldText)"

lemma fuzzyFindText_occurs:
  assumes "fm_found (fuzzyFindText nfkc base t)"
    and "fm_usedFuzzyMatch (fuzzyFindText nfkc base t) \<Longrightarrow> normalizeForFuzzyMatch nfkc base = base"
  shows "occurs_at base (located nfkc base t) (nat (fm_index (fuzzyFindText nfkc base t)))"
    and "fm_matchLength (fuzzyFindText nfkc base t) = length (located nfkc base t)"
  using assms by (auto simp: fuzzyFindText_def located_def Let_def indexOf_occurs split: option.splits)

section \<open>Replacing at several places\<close>

text \<open>Texts placed between gaps: what the base content and the edited content look like.\<close>

fun weave :: "code_units list \<Rightarrow> code_units list \<Rightarrow> code_units" where
  "weave (g # gs) (t # ts) = g @ t @ weave gs ts"
| "weave gs _ = concat gs"

text \<open>\<open>spread s p ms\<close>: matches in order from position \<open>p\<close>, each inside \<open>s\<close>, none overlapping.\<close>

fun spread :: "code_units \<Rightarrow> nat \<Rightarrow> matched_edit list \<Rightarrow> bool" where
  "spread s p [] = (p \<le> length s)"
| "spread s p (m # ms) = (p \<le> me_matchIndex m \<and> me_matchIndex m + me_matchLength m \<le> length s
     \<and> spread s (me_matchIndex m + me_matchLength m) ms)"

lemma apply_matched_weave:
  assumes "spread s p ms"
  shows "\<exists>gaps. length gaps = Suc (length ms)
    \<and> drop p s = weave gaps (map (\<lambda>m. take (me_matchLength m) (drop (me_matchIndex m) s)) ms)
    \<and> apply_matched ms s = take p s @ weave gaps (map me_newText ms)"
  using assms
proof (induction ms arbitrary: p)
  case Nil
  then show ?case by (intro exI [of _ "[drop p s]"]) (simp add: apply_matched_def)
next
  case (Cons m ms)
  let ?i = "me_matchIndex m" and ?q = "me_matchIndex m + me_matchLength m"
  from Cons.prems have b: "p \<le> ?i" "?q \<le> length s" "spread s ?q ms" by auto
  obtain gaps where g: "length gaps = Suc (length ms)"
      "drop ?q s = weave gaps (map (\<lambda>m. take (me_matchLength m) (drop (me_matchIndex m) s)) ms)"
      "apply_matched ms s = take ?q s @ weave gaps (map me_newText ms)"
    using Cons.IH [OF b(3)] by blast
  let ?gap = "take (?i - p) (drop p s)"
  have "drop p s = ?gap @ drop ?i s" using b(1) by (metis append_take_drop_id drop_drop le_add_diff_inverse2)
  also have "drop ?i s = take (me_matchLength m) (drop ?i s) @ drop ?q s"
    by (metis add.commute append_take_drop_id drop_drop)
  finally have "drop p s = weave (?gap # gaps) (map (\<lambda>m. take (me_matchLength m) (drop (me_matchIndex m) s)) (m # ms))"
    using g(2) by simp
  moreover have "take p s @ ?gap = take ?i s" using b(1) by (metis le_add_diff_inverse take_add)
  then have "apply_matched (m # ms) s = take p s @ weave (?gap # gaps) (map me_newText (m # ms))"
    using b(2) g(3) by (simp add: apply_matched_def replace_at_def min_def)
  ultimately show ?case using g(1) by (intro exI [of _ "?gap # gaps"]) simp
qed

lemma check_overlap_spread:
  assumes "check_overlap ms = None" "\<forall>m\<in>set ms. me_matchIndex m + me_matchLength m \<le> length s"
    and "ms = [] \<Longrightarrow> p \<le> length s" "ms \<noteq> [] \<Longrightarrow> p \<le> me_matchIndex (hd ms)"
  shows "spread s p ms"
  using assms
proof (induction ms arbitrary: p rule: check_overlap.induct)
  case (1 previous current es)
  then show ?case by (auto split: if_splits)
qed auto

lemma first_empty_None: "(first_empty i es = None) = list_all (\<lambda>e. ed_oldText e \<noteq> []) es"
  by (induction i es rule: first_empty.induct) auto

text \<open>Every match of a successful search, with the edit it belongs to.\<close>

definition match_of :: "(code_units \<Rightarrow> code_units) \<Rightarrow> code_units \<Rightarrow> edit list \<Rightarrow> matched_edit \<Rightarrow> bool" where
  "match_of nfkc base es m = (me_editIndex m < length es
     \<and> occurs_at base (located nfkc base (ed_oldText (es ! me_editIndex m))) (me_matchIndex m)
     \<and> me_matchLength m = length (located nfkc base (ed_oldText (es ! me_editIndex m)))
     \<and> me_newText m = ed_newText (es ! me_editIndex m))"

lemma match_edits_step:
  assumes "match_edits nfkc base totalEdits i (e # es) acc = Inr ms"
  shows "fm_found (fuzzyFindText nfkc base (ed_oldText e))
    \<and> match_edits nfkc base totalEdits (Suc i) es
        (acc @ [\<lparr>me_editIndex = i, me_matchIndex = nat (fm_index (fuzzyFindText nfkc base (ed_oldText e))),
                me_matchLength = fm_matchLength (fuzzyFindText nfkc base (ed_oldText e)), me_newText = ed_newText e\<rparr>]) = Inr ms"
  using assms unfolding match_edits.simps(2) Let_def
  by (cases "fm_found (fuzzyFindText nfkc base (ed_oldText e))"; cases "1 < countOccurrences nfkc base (ed_oldText e)")
    simp_all

lemma match_edits_matches:
  assumes "match_edits nfkc base totalEdits i (drop i es) acc = Inr ms"
    and "i \<le> length es" "map me_editIndex acc = [0..<i]" "\<forall>m\<in>set acc. match_of nfkc base es m"
    and "\<forall>e\<in>set es. fm_usedFuzzyMatch (fuzzyFindText nfkc base (ed_oldText e)) \<longrightarrow> normalizeForFuzzyMatch nfkc base = base"
  shows "map me_editIndex ms = [0..<length es] \<and> (\<forall>m\<in>set ms. match_of nfkc base es m)"
  using assms
proof (induction "length es - i" arbitrary: i acc)
  case 0
  then show ?case by simp
next
  case (Suc n)
  then have i: "i < length es" by simp
  let ?e = "es ! i"
  let ?r = "fuzzyFindText nfkc base (ed_oldText ?e)"
  let ?m = "\<lparr>me_editIndex = i, me_matchIndex = nat (fm_index ?r), me_matchLength = fm_matchLength ?r, me_newText = ed_newText ?e\<rparr>"
  have d: "drop i es = ?e # drop (Suc i) es" using i by (simp add: Cons_nth_drop_Suc)
  have f: "fm_found ?r"
    and rest: "match_edits nfkc base totalEdits (Suc i) (drop (Suc i) es) (acc @ [?m]) = Inr ms"
    using match_edits_step [OF Suc.prems(1) [unfolded d]] by (rule conjunct1, rule conjunct2)
  have "match_of nfkc base es ?m"
    using i fuzzyFindText_occurs [OF f] bspec [OF Suc.prems(5) nth_mem [OF i]] by (simp add: match_of_def)
  then have m: "\<forall>m\<in>set (acc @ [?m]). match_of nfkc base es m" using Suc.prems(4) by simp
  have "map me_editIndex (acc @ [?m]) = [0..<Suc i]" using Suc.prems(3) by simp
  moreover have "n = length es - Suc i" "Suc i \<le> length es" using Suc.hyps(2) i by simp_all
  ultimately show ?case using Suc.hyps(1) [OF _ rest _ _ m Suc.prems(5)] by blast
qed

section \<open>What an accepted list of edits does\<close>

definition normalized_edits :: "edit list \<Rightarrow> edit list" where
  "normalized_edits edits = map (\<lambda>e. \<lparr>ed_oldText = normalizeToLF (ed_oldText e), ed_newText = normalizeToLF (ed_newText e)\<rparr>) edits"

lemma length_normalized_edits [simp]: "length (normalized_edits edits) = length edits"
  by (simp add: normalized_edits_def)

lemma nth_normalized_edits [simp]:
  "i < length edits \<Longrightarrow> normalized_edits edits ! i
    = \<lparr>ed_oldText = normalizeToLF (ed_oldText (edits ! i)), ed_newText = normalizeToLF (ed_newText (edits ! i))\<rparr>"
  by (simp add: normalized_edits_def)

definition base_content :: "(code_units \<Rightarrow> code_units) \<Rightarrow> code_units \<Rightarrow> edit list \<Rightarrow> code_units" where
  "base_content nfkc content edits =
     (if list_ex (\<lambda>e. fm_usedFuzzyMatch (fuzzyFindText nfkc content (ed_oldText e))) (normalized_edits edits)
      then normalizeForFuzzyMatch nfkc content else content)"

text \<open>The branches of a successful application.\<close>

lemma applyEdits_Inr:
  assumes "applyEditsToNormalizedContent nfkc content edits = Inr r"
  obtains ms where
    "match_edits nfkc (base_content nfkc content edits) (length edits) 0 (normalized_edits edits) [] = Inr ms"
    "check_overlap (sort_key me_matchIndex ms) = None"
    "ae_baseContent r = base_content nfkc content edits"
    "ae_newContent r = apply_matched (sort_key me_matchIndex ms) (base_content nfkc content edits)"
    "ae_newContent r \<noteq> ae_baseContent r" "list_all (\<lambda>e. ed_oldText e \<noteq> []) (normalized_edits edits)"
proof -
  have b: "base_content nfkc content edits = (if list_ex fm_usedFuzzyMatch
      (map (\<lambda>e. fuzzyFindText nfkc content (ed_oldText e)) (normalized_edits edits))
    then normalizeForFuzzyMatch nfkc content else content)"
    by (simp add: base_content_def list_ex_iff)
  have u: "(case first_empty 0 (normalized_edits edits) of
           Some i \<Rightarrow> Inl (getEmptyOldTextError i (length edits))
         | None \<Rightarrow> (case match_edits nfkc (base_content nfkc content edits) (length edits) 0 (normalized_edits edits) [] of
             Inl err \<Rightarrow> Inl err
           | Inr matched \<Rightarrow> (case check_overlap (sort_key me_matchIndex matched) of
               Some err \<Rightarrow> Inl err
             | None \<Rightarrow>
                 (let newContent = apply_matched (sort_key me_matchIndex matched) (base_content nfkc content edits) in
                  if base_content nfkc content edits = newContent then Inl (getNoChangeError (length edits))
                  else Inr \<lparr>ae_baseContent = base_content nfkc content edits, ae_newContent = newContent\<rparr>)))) = Inr r"
    using assms unfolding applyEditsToNormalizedContent_def normalized_edits_def [symmetric] b
    by (simp only: Let_def length_normalized_edits)
  show thesis
    using u that by (auto simp: Let_def first_empty_None split: option.splits sum.splits if_splits)
qed

lemma base_content_found:
  assumes "nfkc (normalizeForFuzzyMatch nfkc content) = normalizeForFuzzyMatch nfkc content"
  shows "\<forall>e\<in>set (normalized_edits edits). fm_usedFuzzyMatch (fuzzyFindText nfkc (base_content nfkc content edits) (ed_oldText e))
    \<longrightarrow> normalizeForFuzzyMatch nfkc (base_content nfkc content edits) = base_content nfkc content edits"
  using normalize_idempotent [OF assms] by (auto simp: base_content_def list_ex_iff)

text \<open>The edited content as one pass over the base content would build it.\<close>

definition one_pass :: "(code_units \<Rightarrow> code_units) \<Rightarrow> edit list \<Rightarrow> nat list \<Rightarrow> applied_edits \<Rightarrow> bool" where
  "one_pass nfkc edits order r = (\<exists>gaps. length gaps = Suc (length edits)
     \<and> ae_baseContent r = weave gaps (map (\<lambda>i. located nfkc (ae_baseContent r) (normalizeToLF (ed_oldText (edits ! i)))) order)
     \<and> ae_newContent r = weave gaps (map (\<lambda>i. normalizeToLF (ed_newText (edits ! i))) order))"

lemma edits_replaced:
  assumes "nfkc (normalizeForFuzzyMatch nfkc content) = normalizeForFuzzyMatch nfkc content"
    and "applyEditsToNormalizedContent nfkc content edits = Inr r"
  shows "(\<exists>order. mset order = mset [0..<length edits] \<and> one_pass nfkc edits order r)
    \<and> ae_newContent r \<noteq> ae_baseContent r
    \<and> (if list_all (\<lambda>e. indexOf content (normalizeToLF (ed_oldText e)) \<noteq> None) edits
       then ae_baseContent r = content else ae_baseContent r \<in> {content, normalizeForFuzzyMatch nfkc content})"
proof -
  let ?base = "base_content nfkc content edits" and ?es = "normalized_edits edits"
  obtain ms where ms: "match_edits nfkc ?base (length edits) 0 ?es [] = Inr ms"
      "check_overlap (sort_key me_matchIndex ms) = None" "ae_baseContent r = ?base"
      "ae_newContent r = apply_matched (sort_key me_matchIndex ms) ?base" "ae_newContent r \<noteq> ae_baseContent r"
    using applyEdits_Inr [OF assms(2)] by blast
  let ?sorted = "sort_key me_matchIndex ms"
  let ?order = "map me_editIndex ?sorted"
  have m: "map me_editIndex ms = [0..<length edits]" "\<forall>m\<in>set ms. match_of nfkc ?base ?es m"
    using match_edits_matches [of nfkc ?base "length edits" 0 ?es "[]" ms] ms(1) base_content_found [OF assms(1), of edits] by simp_all
  have perm: "mset ?order = mset [0..<length edits]" using m(1) by (metis mset_map mset_sort)
  have inside: "\<forall>m\<in>set ?sorted. me_matchIndex m + me_matchLength m \<le> length ?base"
    using m(2) by (auto simp: match_of_def occurs_at_def)
  have "spread ?base 0 ?sorted" by (rule check_overlap_spread [OF ms(2) inside]) simp_all
  then obtain gaps where g: "length gaps = Suc (length ?sorted)"
      "drop 0 ?base = weave gaps (map (\<lambda>m. take (me_matchLength m) (drop (me_matchIndex m) ?base)) ?sorted)"
      "apply_matched ?sorted ?base = take 0 ?base @ weave gaps (map me_newText ?sorted)"
    using apply_matched_weave by blast
  have old: "take (me_matchLength m) (drop (me_matchIndex m) ?base) = located nfkc ?base (normalizeToLF (ed_oldText (edits ! me_editIndex m)))"
    and new: "me_newText m = normalizeToLF (ed_newText (edits ! me_editIndex m))" if "m \<in> set ?sorted" for m
    using that m(2) by (auto simp: match_of_def occurs_at_def)
  have "length ?sorted = length edits" using arg_cong [where f = length, OF m(1)] by simp
  moreover have olds: "map (\<lambda>m. take (me_matchLength m) (drop (me_matchIndex m) ?base)) ?sorted
      = map (\<lambda>i. located nfkc ?base (normalizeToLF (ed_oldText (edits ! i)))) ?order"
    and news: "map me_newText ?sorted = map (\<lambda>i. normalizeToLF (ed_newText (edits ! i))) ?order"
    using old new by simp_all
  have "?base = weave gaps (map (\<lambda>i. located nfkc ?base (normalizeToLF (ed_oldText (edits ! i)))) ?order)"
    using g(2) unfolding olds by simp
  moreover have "ae_newContent r = weave gaps (map (\<lambda>i. normalizeToLF (ed_newText (edits ! i))) ?order)"
    using g(3) ms(4) unfolding news by simp
  ultimately have "one_pass nfkc edits ?order r"
    unfolding one_pass_def ms(3) using g(1) by (intro exI [of _ gaps]) simp
  with perm have "\<exists>order. mset order = mset [0..<length edits] \<and> one_pass nfkc edits order r" by blast
  moreover have "ae_baseContent r = content" if "list_all (\<lambda>e. indexOf content (normalizeToLF (ed_oldText e)) \<noteq> None) edits"
    using that by (auto simp: ms(3) base_content_def list_ex_iff list_all_iff normalized_edits_def fuzzyFindText_def split: option.splits)
  moreover have "ae_baseContent r \<in> {content, normalizeForFuzzyMatch nfkc content}"
    by (simp add: ms(3) base_content_def)
  ultimately show ?thesis using ms(5) by simp
qed

text \<open>
  C33: an accepted list of edits replaces every old text by its new text at once and nothing else:
  there are an order of the edits and the gaps of text between them such that the base content is
  the gaps with the old texts in between and the new content the same gaps with the new texts in
  between. So replacing from the last match to the first is one simultaneous replacement,
  whatever order the edits came in; the base content is the given content when every old text
  occurs in it literally, and an accepted list changes something. (The assumption is that Unicode
  normalisation leaves an already normalised text alone.)
\<close>
theorem edits_replace_exactly:
  assumes "nfkc (normalizeForFuzzyMatch nfkc content) = normalizeForFuzzyMatch nfkc content"
    and "applyEditsToNormalizedContent nfkc content edits = Inr r"
  shows "(\<exists>order. mset order = mset [0..<length edits] \<and> one_pass nfkc edits order r)
    \<and> ae_newContent r \<noteq> ae_baseContent r
    \<and> (if list_all (\<lambda>e. indexOf content (normalizeToLF (ed_oldText e)) \<noteq> None) edits
       then ae_baseContent r = content else ae_baseContent r \<in> {content, normalizeForFuzzyMatch nfkc content})"
  using edits_replaced [OF assms] .

lemma edits_replace_exactly_witness:
  "\<exists>order. mset order = mset [0..<2::nat] \<and> one_pass id [\<lparr>ed_oldText = [99], ed_newText = []\<rparr>, \<lparr>ed_oldText = [97], ed_newText = [120, 121]\<rparr>] order
    \<lparr>ae_baseContent = [97, 98, 99], ae_newContent = [120, 121, 98]\<rparr>"
proof -
  have "applyEditsToNormalizedContent id [97, 98, 99] [\<lparr>ed_oldText = [99], ed_newText = []\<rparr>, \<lparr>ed_oldText = [97], ed_newText = [120, 121]\<rparr>]
      = Inr \<lparr>ae_baseContent = [97, 98, 99], ae_newContent = [120, 121, 98]\<rparr>"
    by (simp add: applyEditsToNormalizedContent_def fuzzyFindText_def countOccurrences_def normalize_plain plain_def plain_quote_def
        plain_double_quote_def plain_dash_def plain_space_def trimEnd_def is_space_def newline_def carriage_return_def normalizeToLF_def
        split_text_def apply_matched_def replace_at_def)
  from edits_replace_exactly [OF id_apply this, THEN conjunct1] show ?thesis by (simp add: numeral_2_eq_2)
qed

section \<open>Line endings\<close>

lemma newline_neq_carriage_return [simp]: "newline \<noteq> carriage_return" "carriage_return \<noteq> newline"
  by (simp_all add: newline_def carriage_return_def)

lemma restoreLineEndings_Nil [simp]: "restoreLineEndings [] e = []"
  by (cases e) (simp_all add: restoreLineEndings_def)







lemma indexOf_newline: "indexOf s [newline] = (if newline \<in> set s then Some (length (takeWhile (\<lambda>c. c \<noteq> newline) s)) else None)"
  by (induction s) auto








lemmas edit_evaluation = applyEditsToNormalizedContent_def fuzzyFindText_def countOccurrences_def normalize_plain plain_def
  plain_quote_def plain_double_quote_def plain_dash_def plain_space_def trimEnd_def is_space_def newline_def carriage_return_def
  normalizeToLF_def split_text_def apply_matched_def replace_at_def


text \<open>
  An old text of blanks only that does not occur has the empty text as its normal form, which is
  found at the start: the edit is accepted and inserts its new text there.
\<close>

lemma blank_old_text_is_inserted:
  "applyEditsToNormalizedContent id [97, 98] [\<lparr>ed_oldText = [32, 32, 32], ed_newText = [120]\<rparr>]
    = Inr \<lparr>ae_baseContent = [97, 98], ae_newContent = [120, 97, 98]\<rparr>"
  by (simp add: edit_evaluation Let_def)

end
