(* ===== verification/Edit_Display.thy ===== *)
theory Edit_Display
  imports Edit_Exact
begin

text \<open>
  Facts about the diff of \<open>Edit_Diff\<close>: the lines of a text part by part, and the numbers and texts
  of the lines that are shown.
\<close>

section \<open>Line numbers of a diff\<close>

text \<open>
  What the code relies on in \<open>diffLines\<close> (documented for the package): the values of the parts that
  are not added make up the old text, those of the parts that are not removed the new text, no
  part is both or empty, and on either side a part ends with a newline unless it is the last.
\<close>

definition old_side :: "diff_part list \<Rightarrow> code_units list" where
  "old_side ps = map pt_value (filter (\<lambda>p. \<not> pt_added p) ps)"

definition new_side :: "diff_part list \<Rightarrow> code_units list" where
  "new_side ps = map pt_value (filter (\<lambda>p. \<not> pt_removed p) ps)"

definition whole_lines :: "code_units list \<Rightarrow> bool" where
  "whole_lines vs = (list_all (\<lambda>v. v \<noteq> []) vs \<and> list_all (\<lambda>v. last v = newline) (butlast vs))"

definition line_diff :: "diff_part list \<Rightarrow> code_units \<Rightarrow> code_units \<Rightarrow> bool" where
  "line_diff ps old new = (concat (old_side ps) = old \<and> concat (new_side ps) = new
     \<and> whole_lines (old_side ps) \<and> whole_lines (new_side ps) \<and> list_all (\<lambda>p. \<not> (pt_added p \<and> pt_removed p)) ps)"

text \<open>A text ends lines when it is empty or its last code unit is a newline.\<close>

definition closed :: "code_units \<Rightarrow> bool" where
  "closed s = (s = [] \<or> last s = newline)"

definition value_lines :: "code_units \<Rightarrow> code_units list" where
  "value_lines s = (let raw = split_lines s in if last raw = [] then butlast raw else raw)"

lemma part_lines_value: "part_lines p = value_lines (pt_value p)"
  by (simp add: part_lines_def value_lines_def)

lemma split_lines_closed_append:
  assumes "closed s"
  shows "split_lines (s @ t) = value_lines s @ split_lines t"
proof (cases s rule: rev_cases)
  case Nil
  then show ?thesis by (simp add: value_lines_def)
next
  case (snoc u c)
  with assms have c: "c = newline" by (simp add: closed_def)
  have "split_lines s = split_lines u @ [[]]" using snoc c split_lines_at [of u "[]"] by simp
  then have "value_lines s = split_lines u" by (simp add: value_lines_def)
  then show ?thesis using snoc c split_lines_at [of u t] by simp
qed

lemma value_lines_append: "closed s \<Longrightarrow> value_lines (s @ t) = value_lines s @ value_lines t"
  by (simp add: value_lines_def [of "s @ t"] value_lines_def [of t] split_lines_closed_append Let_def butlast_append)

lemma value_lines_prefix: "prefix (value_lines s) (split_lines s)"
  by (auto simp: value_lines_def Let_def intro: prefixeq_butlast)

text \<open>The lines of one side, part by part.\<close>

lemma value_lines_concat: "whole_lines vs \<Longrightarrow> value_lines (concat vs) = concat (map value_lines vs)"
proof (induction vs)
  case Nil
  then show ?case by (simp add: value_lines_def)
next
  case (Cons v vs)
  show ?case
  proof (cases "vs = []")
    case False
    with Cons.prems have "closed v" "whole_lines vs" by (simp_all add: whole_lines_def closed_def)
    with Cons.IH show ?thesis by (simp add: value_lines_append)
  qed simp
qed

section \<open>Emitted lines\<close>

text \<open>\<open>numbered n ls k l\<close>: counting from \<open>n\<close>, line \<open>k\<close> of \<open>ls\<close> is \<open>l\<close>.\<close>

definition numbered :: "nat \<Rightarrow> code_units list \<Rightarrow> nat \<Rightarrow> code_units \<Rightarrow> bool" where
  "numbered n ls k l = (n \<le> k \<and> k - n < length ls \<and> ls ! (k - n) = l)"

fun true_line :: "nat \<Rightarrow> code_units list \<Rightarrow> code_units list \<Rightarrow> diff_line \<Rightarrow> bool" where
  "true_line n old new (Added_line k l) = numbered n new k l"
| "true_line n old new (Removed_line k l) = numbered n old k l"
| "true_line n old new (Context_line k l) = numbered n old k l"
| "true_line n old new Skipped_lines = True"

text \<open>
  The state between two parts: every emitted line is true of the texts, and the counters stand
  behind the lines of the parts that have been passed.
\<close>

definition diff_at :: "nat \<Rightarrow> code_units list \<Rightarrow> code_units list \<Rightarrow> nat \<Rightarrow> nat \<Rightarrow> diff_state \<Rightarrow> bool" where
  "diff_at n old new i j d = (list_all (true_line n old new) (df_output d) \<and> df_old d = n + i \<and> df_new d = n + j)"

lemma prefix_drop_Cons:
  assumes "prefix (l # ls) (drop i xs)"
  shows "i < length xs" "xs ! i = l" "prefix ls (drop (Suc i) xs)"
proof -
  obtain r where r: "drop i xs = l # ls @ r" using assms by (auto simp: prefix_def)
  show i: "i < length xs" using r by (metis drop_all list.distinct(1) not_le)
  show "xs ! i = l" using r i by (metis hd_drop_conv_nth list.sel(1))
  show "prefix ls (drop (Suc i) xs)" using r by (metis drop_Suc list.sel(3) tl_drop prefixI)
qed

lemma fold_push_context:
  assumes "diff_at n old new i j d" "prefix ls (drop i old)"
  shows "diff_at n old new (i + length ls) (j + length ls) (fold push_context ls d)"
  using assms
proof (induction ls arbitrary: i j d)
  case (Cons l ls)
  note at_line = prefix_drop_Cons [OF Cons.prems(2)]
  then have "diff_at n old new (Suc i) (Suc j) (push_context l d)"
    using Cons.prems(1) by (simp add: diff_at_def push_context_def numbered_def)
  then show ?case using Cons.IH [of "Suc i" "Suc j" "push_context l d"] at_line(3) by simp
qed simp

lemma fold_push_changed_added:
  assumes "diff_at n old new i j d" "prefix ls (drop j new)" "pt_added p"
  shows "diff_at n old new i (j + length ls) (fold (push_changed p) ls d)"
  using assms(1,2)
proof (induction ls arbitrary: j d)
  case (Cons l ls)
  note at_line = prefix_drop_Cons [OF Cons.prems(2)]
  then have "diff_at n old new i (Suc j) (push_changed p l d)"
    using Cons.prems(1) assms(3) by (simp add: diff_at_def push_changed_def numbered_def)
  then show ?case using Cons.IH [of "Suc j" "push_changed p l d"] at_line(3) by simp
qed simp

lemma fold_push_changed_removed:
  assumes "diff_at n old new i j d" "prefix ls (drop i old)" "\<not> pt_added p"
  shows "diff_at n old new (i + length ls) j (fold (push_changed p) ls d)"
  using assms(1,2)
proof (induction ls arbitrary: i d)
  case (Cons l ls)
  note at_line = prefix_drop_Cons [OF Cons.prems(2)]
  then have "diff_at n old new (Suc i) j (push_changed p l d)"
    using Cons.prems(1) assms(3) by (simp add: diff_at_def push_changed_def numbered_def)
  then show ?case using Cons.IH [of "Suc i" "push_changed p l d"] at_line(3) by simp
qed simp

lemma diff_at_skip: "diff_at n old new i j d \<Longrightarrow> diff_at n old new (i + k) (j + k) (push_skip k d)"
  by (simp add: diff_at_def push_skip_def)

lemma diff_at_flags [simp]:
  "diff_at n old new i j (d\<lparr>df_lastWasChange := b\<rparr>) = diff_at n old new i j d"
  "diff_at n old new i j (d\<lparr>df_first := f\<rparr>) = diff_at n old new i j d"
  by (simp_all add: diff_at_def)

lemma diff_context_true:
  assumes "diff_at n old new i j d" "prefix (part_lines p) (drop i old)"
  shows "diff_at n old new (i + length (part_lines p)) (j + length (part_lines p)) (diff_context c p nx d)"
proof -
  let ?raw = "part_lines p" and ?k = "length (part_lines p)"
  have sub: "prefix (take c ?raw) (drop i old)" using assms(2) by (metis prefix_order.trans take_is_prefix)
  have tail: "prefix (drop m ?raw) (drop (i + m) old)" for m
  proof -
    obtain r where "drop i old = ?raw @ r" using assms(2) by (rule prefixE)
    then have "drop (i + m) old = drop m ?raw @ drop (m - ?k) r" by (metis add.commute drop_append drop_drop)
    then show ?thesis by simp
  qed
  consider (both_short) "df_lastWasChange d" nx "?k \<le> c * 2" | (both_long) "df_lastWasChange d" nx "\<not> ?k \<le> c * 2"
    | (leading) "df_lastWasChange d" "\<not> nx" | (trailing) "\<not> df_lastWasChange d" nx | (neither) "\<not> df_lastWasChange d" "\<not> nx" by blast
  then show ?thesis
  proof cases
    case both_short
    then show ?thesis using fold_push_context [OF assms] by (simp add: diff_context_def Let_def)
  next
    case both_long
    let ?skip = "?k - length (take c ?raw) - length (drop (?k - c) ?raw)"
    have s: "?skip = ?k - c - c" "length (take c ?raw) = c" using both_long by simp_all
    have "diff_at n old new (i + c) (j + c) (fold push_context (take c ?raw) d)"
      using fold_push_context [OF assms(1) sub] s by simp
    then have "diff_at n old new (i + (?k - c)) (j + (?k - c)) (push_skip ?skip (fold push_context (take c ?raw) d))"
      using diff_at_skip [of n old new "i + c" "j + c" _ ?skip] both_long s(1) by simp
    from fold_push_context [OF this tail] show ?thesis using both_long by (simp add: diff_context_def Let_def)
  next
    case leading
    note shown = fold_push_context [OF assms(1) sub]
    from shown diff_at_skip [OF shown, of "?k - length (take c ?raw)"] fold_push_context [OF assms] leading show ?thesis
      by (simp add: diff_context_def Let_def min_def)
  next
    case trailing
    let ?d = "if 0 < ?k - c then push_skip (?k - c) d else d"
    have "diff_at n old new (i + (?k - c)) (j + (?k - c)) ?d" using diff_at_skip [OF assms(1), of "?k - c"] assms(1) by auto
    from fold_push_context [OF this tail] trailing show ?thesis by (simp add: diff_context_def Let_def)
  next
    case neither
    with assms(1) show ?thesis by (simp add: diff_context_def Let_def diff_at_def)
  qed
qed

lemma diff_change_true:
  assumes "diff_at n old new i j d" "if pt_added p then prefix (part_lines p) (drop j new) else prefix (part_lines p) (drop i old)"
  shows "if pt_added p then diff_at n old new i (j + length (part_lines p)) (diff_change p d)
    else diff_at n old new (i + length (part_lines p)) j (diff_change p d)"
  using assms fold_push_changed_added [of n old new i j "if df_first d = None then d\<lparr>df_first := Some (df_new d)\<rparr> else d" "part_lines p" p]
    fold_push_changed_removed [of n old new i j "if df_first d = None then d\<lparr>df_first := Some (df_new d)\<rparr> else d" "part_lines p" p]
  by (auto simp: diff_change_def Let_def)

definition side_lines :: "(diff_part \<Rightarrow> bool) \<Rightarrow> diff_part list \<Rightarrow> code_units list" where
  "side_lines hidden ps = concat (map part_lines (filter (\<lambda>p. \<not> hidden p) ps))"

lemma side_lines_Cons: "side_lines hidden (p # ps) = (if hidden p then [] else part_lines p) @ side_lines hidden ps"
  by (simp add: side_lines_def)

lemma prefix_append_drop: "prefix (xs @ ys) (drop i zs) \<Longrightarrow> prefix xs (drop i zs) \<and> prefix ys (drop (i + length xs) zs)"
  by (metis add.commute append_prefixD append_eq_conv_conj drop_drop prefix_def same_prefix_prefix)

lemma diff_loop_true:
  assumes "diff_at n old new i j d" "prefix (side_lines pt_added ps) (drop i old)" "prefix (side_lines pt_removed ps) (drop j new)"
    "list_all (\<lambda>p. \<not> (pt_added p \<and> pt_removed p)) ps"
  shows "list_all (true_line n old new) (df_output (diff_loop c ps d))"
  using assms
proof (induction c ps d arbitrary: i j rule: diff_loop.induct)
  case (1 c d)
  then show ?case by (simp add: diff_at_def)
next
  case (2 c p ps d)
  let ?nx = "case ps of next_part # _ \<Rightarrow> is_change next_part | [] \<Rightarrow> False"
  let ?d = "if is_change p then diff_change p d else diff_context c p ?nx d"
  note o = prefix_append_drop [OF 2(3) [unfolded side_lines_Cons]]
  note w = prefix_append_drop [OF 2(4) [unfolded side_lines_Cons]]
  have "diff_at n old new (i + length (if pt_added p then [] else part_lines p)) (j + length (if pt_removed p then [] else part_lines p)) ?d"
  proof (cases "is_change p")
    case True
    with 2(2,5) o w diff_change_true [of n old new i j d p] show ?thesis by (auto simp: is_change_def)
  next
    case False
    with o diff_context_true [OF 2(2)] show ?thesis by (simp add: is_change_def)
  qed
  from 2(1) [OF this] o w 2(5) show ?case by simp
qed

text \<open>The changed lines that are shown.\<close>

fun added_text :: "diff_line \<Rightarrow> code_units list" where
  "added_text (Added_line k l) = [l]"
| "added_text _ = []"

fun removed_text :: "diff_line \<Rightarrow> code_units list" where
  "removed_text (Removed_line k l) = [l]"
| "removed_text _ = []"

definition shown :: "(diff_line \<Rightarrow> code_units list) \<Rightarrow> diff_state \<Rightarrow> code_units list" where
  "shown f d = concat (map f (df_output d))"

lemma shown_push [simp]:
  "shown added_text (push_skip k d) = shown added_text d" "shown removed_text (push_skip k d) = shown removed_text d"
  "shown added_text (push_context l d) = shown added_text d" "shown removed_text (push_context l d) = shown removed_text d"
  "shown added_text (push_changed p l d) = shown added_text d @ (if pt_added p then [l] else [])"
  "shown removed_text (push_changed p l d) = shown removed_text d @ (if pt_added p then [] else [l])"
  "shown f (d\<lparr>df_lastWasChange := b\<rparr>) = shown f d" "shown f (d\<lparr>df_first := x\<rparr>) = shown f d"
  "shown f (d\<lparr>df_old := i, df_new := j\<rparr>) = shown f d"
  by (simp_all add: shown_def push_skip_def push_context_def push_changed_def)

lemma shown_folds [simp]:
  "shown added_text (fold push_context ls d) = shown added_text d" "shown removed_text (fold push_context ls d) = shown removed_text d"
  "shown added_text (fold (push_changed p) ls d) = shown added_text d @ (if pt_added p then ls else [])"
  "shown removed_text (fold (push_changed p) ls d) = shown removed_text d @ (if pt_added p then [] else ls)"
  by (induction ls arbitrary: d) auto

lemma shown_parts:
  "shown added_text (diff_context c p nx d) = shown added_text d" "shown removed_text (diff_context c p nx d) = shown removed_text d"
  "shown added_text (diff_change p d) = shown added_text d @ (if pt_added p then part_lines p else [])"
  "shown removed_text (diff_change p d) = shown removed_text d @ (if pt_added p then [] else part_lines p)"
  by (simp_all add: diff_context_def diff_change_def Let_def)

lemma shown_loop:
  "list_all (\<lambda>p. \<not> (pt_added p \<and> pt_removed p)) ps \<Longrightarrow>
   shown added_text (diff_loop c ps d) = shown added_text d @ concat (map part_lines (filter pt_added ps))
   \<and> shown removed_text (diff_loop c ps d) = shown removed_text d @ concat (map part_lines (filter pt_removed ps))"
  by (induction c ps d rule: diff_loop.induct) (auto simp: shown_parts is_change_def)

text \<open>
  Every line the diff shows carries its true number: an added line is that line of the new
  text, a removed or a context line that line of the old text, counted from \<open>startLine\<close>, however
  much unchanged text was left out between them; and the added and the removed lines shown are,
  in order, exactly those of the changed parts. (The assumption is the documented result of
  \<open>diffLines\<close>.)
\<close>
lemma diff_shows_true_lines:
  assumes "line_diff ps oldContent newContent"
  shows "list_all (true_line startLine (split_lines oldContent) (split_lines newContent)) (df_output (diff_lines ps contextLines startLine))
    \<and> concat (map added_text (df_output (diff_lines ps contextLines startLine))) = concat (map part_lines (filter pt_added ps))
    \<and> concat (map removed_text (df_output (diff_lines ps contextLines startLine))) = concat (map part_lines (filter pt_removed ps))"
proof -
  have o: "side_lines pt_added ps = value_lines oldContent"
    using assms value_lines_concat [of "old_side ps"] by (simp add: line_diff_def old_side_def side_lines_def part_lines_value [abs_def] comp_def)
  have w: "side_lines pt_removed ps = value_lines newContent"
    using assms value_lines_concat [of "new_side ps"] by (simp add: line_diff_def new_side_def side_lines_def part_lines_value [abs_def] comp_def)
  let ?d = "\<lparr>df_output = [], df_old = startLine, df_new = startLine, df_lastWasChange = False, df_first = None\<rparr>"
  have x: "list_all (\<lambda>p. \<not> (pt_added p \<and> pt_removed p)) ps" using assms by (simp add: line_diff_def)
  have "diff_at startLine (split_lines oldContent) (split_lines newContent) 0 0 ?d" by (simp add: diff_at_def)
  from diff_loop_true [OF this _ _ x, of contextLines] shown_loop [OF x, of contextLines ?d] show ?thesis
    by (simp add: diff_lines_def o w value_lines_prefix shown_def)
qed

end
