(* ===== verification/Provider_Retry.thy ===== *)
theory Provider_Retry
  imports Messages
begin

text \<open>
  Retrying failed provider calls: the policies and the one-shot loop of
  \<open>packages/coding-agent/src/core/provider-retry.ts\<close>, and the retry state machine of a session in
  \<open>packages/coding-agent/src/core/agent-session.ts\<close>. Times are whole milliseconds.
\<close>

section \<open>Failures\<close>

record retry_policy =
  rp_enabled :: bool
  rp_maxRetries :: int
  rp_baseDelayMs :: int
  rp_maxRetryDelayMs :: int

definition DEFAULT_PROVIDER_RETRY_POLICY :: retry_policy where
  "DEFAULT_PROVIDER_RETRY_POLICY = \<lparr>rp_enabled = True, rp_maxRetries = 3, rp_baseDelayMs = 2000, rp_maxRetryDelayMs = 60000\<rparr>"

text \<open>The diagnostics of a message, None for an absent list.\<close>

definition diagnostics_of :: "assistant_message \<Rightarrow> json list" where
  "diagnostics_of m = (case am_diagnostics m of Some ds \<Rightarrow> ds | None \<Rightarrow> [])"

definition has_type :: "string \<Rightarrow> json \<Rightarrow> bool" where
  "has_type t d = (json_field ''type'' d = Some (JStr t))"

definition isAgentLifecycleFailure :: "assistant_message \<Rightarrow> bool" where
  "isAgentLifecycleFailure m = list_ex (has_type ''agent_lifecycle_failure'') (diagnostics_of m)"

definition isFauxProviderQueueExhausted :: "assistant_message \<Rightarrow> bool" where
  "isFauxProviderQueueExhausted m = (am_provider m = ''faux'' \<and> am_errorMessage m = Some ''No more faux responses queued'')"

definition providerStreamFailureDetails :: "assistant_message \<Rightarrow> json option" where
  "providerStreamFailureDetails m =
     (case find (has_type ''provider_stream_failure'') (diagnostics_of m) of
        Some d \<Rightarrow> (case json_field ''details'' d of
            Some (JObj ps) \<Rightarrow> Some (JObj ps) | Some (JArr xs) \<Rightarrow> Some (JArr xs) | _ \<Rightarrow> None)
      | None \<Rightarrow> None)"

definition failure_field :: "string \<Rightarrow> assistant_message \<Rightarrow> json option" where
  "failure_field k m = (case providerStreamFailureDetails m of Some d \<Rightarrow> json_field k d | None \<Rightarrow> None)"

definition providerStreamFailureKind :: "assistant_message \<Rightarrow> string option" where
  "providerStreamFailureKind m = (case failure_field ''kind'' m of Some (JStr k) \<Rightarrow> Some k | _ \<Rightarrow> None)"

text \<open>The value of a JSON number is read by \<open>num\<close>.\<close>

definition providerStreamFailureRetryAfterMs :: "(string \<Rightarrow> int) \<Rightarrow> assistant_message \<Rightarrow> int option" where
  "providerStreamFailureRetryAfterMs num m =
     (case failure_field ''retryAfterMs'' m of Some (JNum n) \<Rightarrow> if num n \<ge> 0 then Some (num n) else None | _ \<Rightarrow> None)"

definition providerStreamFailureStatus :: "(string \<Rightarrow> int) \<Rightarrow> assistant_message \<Rightarrow> int option" where
  "providerStreamFailureStatus num m = (case failure_field ''status'' m of Some (JNum n) \<Rightarrow> Some (num n) | _ \<Rightarrow> None)"

definition isPermanentProviderFailureKind :: "string option \<Rightarrow> nat \<Rightarrow> int option \<Rightarrow> bool" where
  "isPermanentProviderFailureKind kind retriesPerformed status =
     (if kind = Some ''invalid_request'' \<and> status = Some 404 then False
      else if kind = Some ''invalid_request'' \<or> kind = Some ''refusal'' \<or> kind = Some ''permission'' then True
      else retriesPerformed > 0 \<and> kind = Some ''auth'')"

section \<open>Delays\<close>

datatype retry_delay = Delay_wait int | Exceeds_cap int

definition MAX_TIMER_DELAY_MS :: int where "MAX_TIMER_DELAY_MS = 2147483647"

definition providerRetryDelay :: "nat \<Rightarrow> int option \<Rightarrow> retry_policy \<Rightarrow> retry_delay" where
  "providerRetryDelay attempt retryAfterMs policy =
     (case retryAfterMs of
        Some r \<Rightarrow>
          if rp_maxRetryDelayMs policy > 0 \<and> r > rp_maxRetryDelayMs policy then Exceeds_cap r
          else Delay_wait (min (max (rp_baseDelayMs policy * 2 ^ (attempt - 1)) r) MAX_TIMER_DELAY_MS)
      | None \<Rightarrow> Delay_wait (min (max (rp_baseDelayMs policy * 2 ^ (attempt - 1)) 0) MAX_TIMER_DELAY_MS))"

section \<open>One-shot completions\<close>

text \<open>
  What the loop meets: the outcome of the k-th call (a thrown error or a message), whether the
  signal is aborted after it, and whether the k-th sleep runs to its end.
\<close>

record completion_world =
  cw_attempt :: "nat \<Rightarrow> string + assistant_message"
  cw_aborted :: "nat \<Rightarrow> bool"
  cw_sleeps :: "nat \<Rightarrow> int \<Rightarrow> bool"

definition retry_budget :: "retry_policy \<Rightarrow> int" where
  "retry_budget policy = (if rp_enabled policy then rp_maxRetries policy else 0)"

text \<open>The loop, with the delays it asked for.\<close>

function complete_loop ::
  "(string \<Rightarrow> int) \<Rightarrow> completion_world \<Rightarrow> retry_policy \<Rightarrow> nat \<Rightarrow> int list \<Rightarrow> (string + assistant_message) \<times> int list" where
  "complete_loop num w policy retriesPerformed delays =
     (case cw_attempt w retriesPerformed of
        Inl err \<Rightarrow> (Inl err, delays)
      | Inr message \<Rightarrow>
          if am_stopReason message \<noteq> Error_stop then (Inr message, delays)
          else if cw_aborted w retriesPerformed then (Inr (message\<lparr>am_stopReason := Aborted\<rparr>), delays)
          else if int retriesPerformed \<ge> retry_budget policy \<or> isAgentLifecycleFailure message \<or> isFauxProviderQueueExhausted message
          then (Inr message, delays)
          else if isPermanentProviderFailureKind (providerStreamFailureKind message) retriesPerformed (providerStreamFailureStatus num message)
          then (Inr message, delays)
          else (case providerRetryDelay (Suc retriesPerformed) (providerStreamFailureRetryAfterMs num message) policy of
              Exceeds_cap _ \<Rightarrow> (Inr message, delays)
            | Delay_wait delayMs \<Rightarrow>
                if cw_sleeps w retriesPerformed delayMs
                then complete_loop num w policy (Suc retriesPerformed) (delays @ [delayMs])
                else (Inr (message\<lparr>am_stopReason := Aborted\<rparr>), delays @ [delayMs])))"
  by pat_completeness auto
termination
  by (relation "measure (\<lambda>(num, w, policy, retries, delays). nat (retry_budget policy - int retries))") auto

declare complete_loop.simps [simp del]

definition completeWithProviderRetry ::
  "(string \<Rightarrow> int) \<Rightarrow> completion_world \<Rightarrow> retry_policy option \<Rightarrow> (string + assistant_message) \<times> int list" where
  "completeWithProviderRetry num w policy =
     complete_loop num w (case policy of Some p \<Rightarrow> p | None \<Rightarrow> DEFAULT_PROVIDER_RETRY_POLICY) 0 []"

section \<open>Waiting for recovery\<close>

datatype wait_class = Quota_class | Transient_class | Permanent_class

definition providerWaitClass :: "string option \<Rightarrow> int option \<Rightarrow> wait_class" where
  "providerWaitClass kind status =
     (if kind = Some ''rate_limit'' \<or> kind = Some ''quota'' then Quota_class
      else if kind = Some ''server_error'' \<or> kind = Some ''overloaded'' \<or> kind = Some ''unknown'' then Transient_class
      else if kind = Some ''invalid_request'' \<and> status = Some 404 then Transient_class
      else Permanent_class)"

record wait_policy =
  wp_enabled :: bool
  wp_baseDelayMs :: int
  wp_maxDelayMs :: int
  wp_maxAttempts :: int
  wp_maxWaitMs :: int

definition DEFAULT_PROVIDER_WAIT_POLICY :: wait_policy where
  "DEFAULT_PROVIDER_WAIT_POLICY =
     \<lparr>wp_enabled = True, wp_baseDelayMs = 1000, wp_maxDelayMs = 300000, wp_maxAttempts = 30, wp_maxWaitMs = 900000\<rparr>"

datatype abort_reason = Too_many_attempts | Waited_too_long | Reset_too_far

datatype wait_decision = Wait_for int | Wait_abort abort_reason

definition providerWaitPingDelay :: "nat \<Rightarrow> wait_policy \<Rightarrow> int" where
  "providerWaitPingDelay attempt policy =
     (let exponential = wp_baseDelayMs policy * 2 ^ (attempt - 1);
          capped = min exponential (wp_maxDelayMs policy)
      in min capped MAX_TIMER_DELAY_MS)"

text \<open>\<open>rng\<close> is the value the random generator returns.\<close>

definition providerWaitJitter :: "int \<Rightarrow> rat \<Rightarrow> int" where
  "providerWaitJitter delayMs rng =
     (let factor = 3 / 4 + 1 / 2 * max 0 (min 1 rng)
      in max 0 \<lfloor>of_int delayMs * factor + 1 / 2\<rfloor>)"

definition providerWaitDecision :: "nat \<Rightarrow> int \<Rightarrow> int option \<Rightarrow> wait_policy \<Rightarrow> rat \<Rightarrow> wait_decision" where
  "providerWaitDecision attempt elapsedMs resetMs policy rng =
     (if int attempt > wp_maxAttempts policy then Wait_abort Too_many_attempts
      else let remainingMs = wp_maxWaitMs policy - elapsedMs in
        if remainingMs \<le> 0 then Wait_abort Waited_too_long
        else (case resetMs of
            Some r \<Rightarrow> if r > remainingMs then Wait_abort Reset_too_far else Wait_for (min (max r 0) MAX_TIMER_DELAY_MS)
          | None \<Rightarrow> Wait_for (min (providerWaitJitter (providerWaitPingDelay attempt policy) rng) remainingMs)))"

definition RESET_UNIT_MS :: "string \<Rightarrow> int option" where
  "RESET_UNIT_MS = map_of [(''second'', 1000), (''sec'', 1000), (''minute'', 60000), (''min'', 60000),
     (''hour'', 3600000), (''hr'', 3600000), (''day'', 86400000)]"

definition lower_char :: "char \<Rightarrow> char" where
  "lower_char c = (let n = of_char c :: nat in if 65 \<le> n \<and> n \<le> 90 then char_of (n + 32) else c)"

definition unit_name :: "string \<Rightarrow> string" where
  "unit_name s = (let t = map lower_char s in if t \<noteq> [] \<and> last t = CHR ''s'' then butlast t else t)"

text \<open>The regular expression finds an amount and a unit; \<open>found\<close> is its result on the text.\<close>

definition parseProviderResetMs :: "(string \<Rightarrow> (int \<times> string) option) \<Rightarrow> string option \<Rightarrow> int option" where
  "parseProviderResetMs found errorText =
     (case errorText of None \<Rightarrow> None
      | Some s \<Rightarrow> if s = [] then None
          else (case found s of None \<Rightarrow> None
            | Some (n, u) \<Rightarrow> (case RESET_UNIT_MS (unit_name u) of None \<Rightarrow> None
                | Some unitMs \<Rightarrow> let resetMs = n * unitMs in
                    if resetMs < 0 then None else Some (min resetMs MAX_TIMER_DELAY_MS))))"

end
