(* ===== verification/Session_Retry.thy ===== *)
theory Session_Retry
  imports Provider_Retry
begin

text \<open>
  The retry state machine of a session: the fields and handlers of \<open>AgentSession\<close>
  (\<open>packages/coding-agent/src/core/agent-session.ts\<close>) that retry a failed turn, wait for a provider
  and switch to a backup model. One handler is one step; a sleep that was started ends by a step
  of its own, and so does the timer that re-issues the turn.
\<close>

section \<open>State\<close>

record model =
  mo_provider :: string
  mo_id :: string

definition modelsAreEqual :: "model \<Rightarrow> model \<Rightarrow> bool" where
  "modelsAreEqual a b = (mo_id a = mo_id b \<and> mo_provider a = mo_provider b)"

record auth_token =
  at_provider :: string
  at_source :: string
  at_identityFingerprint :: "string option"
  at_valueFingerprint :: "string option"

record backup_model =
  bm_backup :: model
  bm_primary :: model
  bm_thinkingLevel :: string
  bm_serviceTier :: string

record provider_wait =
  pw_attempts :: nat
  pw_startedAtMs :: int

datatype retry_reason = Quick_retry | Backup_retry | Wait_usage | Wait_unavailable

datatype retry_failure =
  Failed_with "string option" | Cap_exceeded int "string option" | Retry_cancelled | Wait_gave_up abort_reason "string option"

datatype retry_event =
  Retry_start retry_reason nat int string
| Retry_end_ok nat "model option"
| Retry_end_failed nat retry_failure "model option"
| Auth_stale string "auth_token list"
| Tier_changed string

record retry_options =
  ro_markAuthStale :: bool
  ro_authSourceTokens :: "auth_token list"

record retry_state =
  rt_attempt :: nat
  rt_wait :: "provider_wait option"
  rt_promise :: bool
  rt_generation :: nat
  rt_parked :: bool
  rt_authSources :: "auth_token list"
  rt_model :: model
  rt_thinkingLevel :: string
  rt_serviceTier :: string
  rt_backup :: "backup_model option"
  rt_messages :: "agent_message list"
  rt_modelChanges :: "model list"
  rt_events :: "retry_event list"
  rt_sleeping :: "(assistant_message \<times> retry_options) option"
  rt_timers :: "(nat \<times> assistant_message \<times> retry_options) list"
  rt_continuing :: bool

text \<open>Settings, the model registry and the other parts of the session the handlers ask.\<close>

record retry_env =
  re_policy :: retry_policy
  re_wait :: wait_policy
  re_backup :: "model option"
  re_hooks :: bool
  re_clampThinking :: "model \<Rightarrow> string \<Rightarrow> string"
  re_effectiveTier :: "model \<Rightarrow> string \<Rightarrow> string"
  re_markSource :: "auth_token \<Rightarrow> bool"
  re_markProvider :: "string \<Rightarrow> bool"
  re_sourceToken :: "string \<Rightarrow> auth_token option"
  re_guidance :: "string \<Rightarrow> string"
  re_overflow :: "assistant_message \<Rightarrow> bool"
  re_num :: "string \<Rightarrow> int"
  re_found :: "string \<Rightarrow> (int \<times> string) option"

definition emit :: "retry_event \<Rightarrow> retry_state \<Rightarrow> retry_state" where
  "emit e st = st\<lparr>rt_events := rt_events st @ [e]\<rparr>"

section \<open>Which failures are retried\<close>

definition isStructuredPermanentProviderRetryExhausted :: "retry_env \<Rightarrow> assistant_message \<Rightarrow> retry_state \<Rightarrow> bool" where
  "isStructuredPermanentProviderRetryExhausted env m st =
     isPermanentProviderFailureKind (providerStreamFailureKind m) (rt_attempt st) (providerStreamFailureStatus (re_num env) m)"

definition has_error :: "assistant_message \<Rightarrow> bool" where
  "has_error m = (am_stopReason m = Error_stop \<and> (case am_errorMessage m of Some e \<Rightarrow> e \<noteq> [] | None \<Rightarrow> False))"

definition isRetryableError :: "retry_env \<Rightarrow> assistant_message \<Rightarrow> retry_state \<Rightarrow> bool" where
  "isRetryableError env m st =
     (if \<not> has_error m then False
      else if re_overflow env m then False
      else if isFauxProviderQueueExhausted m then False
      else if isAgentLifecycleFailure m then False
      else if isStructuredPermanentProviderRetryExhausted env m st then False
      else True)"

definition isConcreteProviderAuthFailure :: "assistant_message \<Rightarrow> bool" where
  "isConcreteProviderAuthFailure m = (has_error m \<and> providerStreamFailureKind m = Some ''auth'')"

definition captureRetryAuthFailureSource :: "retry_env \<Rightarrow> assistant_message \<Rightarrow> retry_state \<Rightarrow> retry_state" where
  "captureRetryAuthFailureSource env m st =
     (case re_sourceToken env (am_provider m) of
        None \<Rightarrow> st
      | Some token \<Rightarrow> if List.member (rt_authSources st) token then st
          else st\<lparr>rt_authSources := rt_authSources st @ [token]\<rparr>)"

section \<open>Ending a retry\<close>

definition resolveRetry :: "retry_state \<Rightarrow> retry_state" where
  "resolveRetry st = st\<lparr>rt_generation := rt_generation st + 1, rt_parked := False, rt_promise := False\<rparr>"

definition markProviderAuthStale ::
  "retry_env \<Rightarrow> assistant_message \<Rightarrow> auth_token list \<Rightarrow> retry_state \<Rightarrow> bool \<times> retry_state" where
  "markProviderAuthStale env m tokens st =
     (if tokens \<noteq> [] then
        (let marked = list_ex (re_markSource env) tokens
         in (marked, if marked then emit (Auth_stale (am_provider m) tokens) st else st))
      else
        (let marked = re_markProvider env (am_provider m)
         in (marked, if marked then emit (Auth_stale (am_provider m) []) st else st)))"

text \<open>The message is returned with its error text, to which guidance may have been added.\<close>

definition markProviderAuthStaleForRetryFailure ::
  "retry_env \<Rightarrow> assistant_message \<Rightarrow> retry_options \<Rightarrow> retry_state \<Rightarrow> assistant_message \<times> retry_state" where
  "markProviderAuthStaleForRetryFailure env m options st =
     (let authSourceTokens = (if length (rt_authSources st) > 0 then rt_authSources st else ro_authSourceTokens options) in
      if length authSourceTokens > 0 \<or> ro_markAuthStale options then
        (let (marked, st1) = markProviderAuthStale env m authSourceTokens st
         in case am_errorMessage m of
              Some e \<Rightarrow> (if marked \<and> e \<noteq> [] then m\<lparr>am_errorMessage := Some (re_guidance env e)\<rparr> else m, st1)
            | None \<Rightarrow> (m, st1))
      else (m, st))"

definition no_options :: retry_options where
  "no_options = \<lparr>ro_markAuthStale = False, ro_authSourceTokens = []\<rparr>"

definition clampServiceTierForModel :: "retry_env \<Rightarrow> string \<Rightarrow> retry_state \<Rightarrow> retry_state" where
  "clampServiceTierForModel env serviceTier st =
     (let effectiveServiceTier = re_effectiveTier env (rt_model st) serviceTier in
      if effectiveServiceTier = rt_serviceTier st then st
      else emit (Tier_changed effectiveServiceTier) (st\<lparr>rt_serviceTier := effectiveServiceTier\<rparr>))"

definition restorePrimaryModelAfterBackup :: "retry_env \<Rightarrow> retry_state \<Rightarrow> model option \<times> retry_state" where
  "restorePrimaryModelAfterBackup env st =
     (case rt_backup st of
        None \<Rightarrow> (None, st)
      | Some backup \<Rightarrow>
          (let st1 = st\<lparr>rt_backup := None\<rparr> in
           if \<not> modelsAreEqual (rt_model st) (bm_backup backup) then (None, st1)
           else
             (let st2 = clampServiceTierForModel env (bm_serviceTier backup)
                    (st1\<lparr>rt_model := bm_primary backup, rt_thinkingLevel := bm_thinkingLevel backup\<rparr>)
              in (Some (bm_primary backup), st2\<lparr>rt_modelChanges := rt_modelChanges st2 @ [bm_primary backup]\<rparr>))))"

text \<open>The message and the state after the failed retry is given up; the callers differ in what they reset.\<close>

definition give_up ::
  "retry_env \<Rightarrow> assistant_message \<Rightarrow> retry_options \<Rightarrow> nat \<Rightarrow> (string option \<Rightarrow> retry_failure) \<Rightarrow> retry_state \<Rightarrow> retry_state" where
  "give_up env m options attempt failure st =
     (let (m1, st1) = markProviderAuthStaleForRetryFailure env m options st;
          (restoredModel, st2) = restorePrimaryModelAfterBackup env st1
      in (emit (Retry_end_failed attempt (failure (am_errorMessage m1)) restoredModel) st2)\<lparr>rt_attempt := 0\<rparr>)"

definition finishActiveRetryWithFailure :: "retry_env \<Rightarrow> assistant_message \<Rightarrow> retry_state \<Rightarrow> retry_state" where
  "finishActiveRetryWithFailure env m st =
     (if rt_attempt st = 0 then st
      else
        (let (m1, st1) = markProviderAuthStaleForRetryFailure env m no_options st;
             (_, st2) = restorePrimaryModelAfterBackup env st1
         in (emit (Retry_end_failed (rt_attempt st2) (Failed_with (am_errorMessage m1)) None) st2)
              \<lparr>rt_attempt := 0, rt_wait := None, rt_authSources := []\<rparr>))"

section \<open>Starting a retry\<close>

text \<open>
  Until the sleep: the failed assistant message leaves the transcript. The two ways the sleep can
  end and the timer are the steps after it.
\<close>

definition drop_failed :: "agent_message list \<Rightarrow> agent_message list" where
  "drop_failed messages =
     (if messages \<noteq> [] \<and> (case last messages of Assistant_msg _ \<Rightarrow> True | _ \<Rightarrow> False) then butlast messages else messages)"

definition retryAfterDelay ::
  "retry_env \<Rightarrow> assistant_message \<Rightarrow> retry_options \<Rightarrow> retry_event \<Rightarrow> retry_state \<Rightarrow> retry_state" where
  "retryAfterDelay env m options emitStart st =
     (let st1 = (if re_hooks env then st else st\<lparr>rt_parked := True\<rparr>);
          st2 = emit emitStart st1
      in st2\<lparr>rt_messages := drop_failed (rt_messages st2), rt_sleeping := Some (m, options)\<rparr>)"

definition sleep_cancelled :: "retry_env \<Rightarrow> retry_state \<Rightarrow> retry_state" where
  "sleep_cancelled env st =
     (case rt_sleeping st of
        None \<Rightarrow> st
      | Some (m, options) \<Rightarrow>
          (let attempt = rt_attempt st;
               (m1, st1) = markProviderAuthStaleForRetryFailure env m options st;
               st2 = st1\<lparr>rt_attempt := 0, rt_sleeping := None, rt_wait := None\<rparr>;
               (restoredModel, st3) = restorePrimaryModelAfterBackup env st2;
               st4 = emit (Retry_end_failed attempt Retry_cancelled restoredModel) st3
           in (resolveRetry st4)\<lparr>rt_authSources := []\<rparr>))"

definition sleep_over :: "retry_state \<Rightarrow> retry_state" where
  "sleep_over st =
     (case rt_sleeping st of
        None \<Rightarrow> st
      | Some (m, options) \<Rightarrow> st\<lparr>rt_sleeping := None, rt_timers := rt_timers st @ [(rt_generation st, m, options)]\<rparr>)"

text \<open>The timers fire in the order they were set.\<close>

definition timer_fires :: "retry_state \<Rightarrow> retry_state" where
  "timer_fires st =
     (case rt_timers st of
        [] \<Rightarrow> st
      | (generation, m, options) # timers \<Rightarrow>
          if rt_generation st \<noteq> generation \<or> \<not> rt_promise st then st\<lparr>rt_timers := timers\<rparr>
          else st\<lparr>rt_timers := timers, rt_continuing := True\<rparr>)"

definition continue_rejected ::
  "retry_env \<Rightarrow> nat \<Rightarrow> assistant_message \<Rightarrow> retry_options \<Rightarrow> string \<Rightarrow> retry_state \<Rightarrow> retry_state" where
  "continue_rejected env generation m options err st =
     (if rt_generation st \<noteq> generation \<or> \<not> rt_promise st then st
      else
        (let (m1, st1) = markProviderAuthStaleForRetryFailure env m options st;
             (restoredModel, st2) = restorePrimaryModelAfterBackup env st1;
             attempt = rt_attempt st2;
             st3 = emit (Retry_end_failed attempt (Failed_with (Some err)) restoredModel)
                     (st2\<lparr>rt_attempt := 0, rt_wait := None, rt_authSources := []\<rparr>)
         in resolveRetry st3))"

definition abortRetry :: "retry_env \<Rightarrow> retry_state \<Rightarrow> retry_state" where
  "abortRetry env st =
     (if rt_sleeping st \<noteq> None then sleep_cancelled env st
      else
        (let st1 =
           (if rt_attempt st > 0 then
              (let (restoredModel, st2) = restorePrimaryModelAfterBackup env st
               in (emit (Retry_end_failed (rt_attempt st2) Retry_cancelled restoredModel) st2)\<lparr>rt_attempt := 0, rt_wait := None\<rparr>)
            else st)
         in resolveRetry (st1\<lparr>rt_authSources := []\<rparr>)))"

definition error_text :: "assistant_message \<Rightarrow> string \<Rightarrow> string" where
  "error_text m fallback = (case am_errorMessage m of Some e \<Rightarrow> if e = [] then fallback else e | None \<Rightarrow> fallback)"

definition handleBackupModelRetry ::
  "retry_env \<Rightarrow> assistant_message \<Rightarrow> retry_options \<Rightarrow> model \<Rightarrow> retry_state \<Rightarrow> retry_state" where
  "handleBackupModelRetry env m options backupModel st =
     (let previousModel = rt_model st;
          previousThinkingLevel = rt_thinkingLevel st;
          previousServiceTier = rt_serviceTier st;
          st1 = st\<lparr>rt_model := backupModel, rt_thinkingLevel := re_clampThinking env backupModel previousThinkingLevel\<rparr>;
          st2 = clampServiceTierForModel env (rt_serviceTier st1) st1;
          st3 = st2\<lparr>rt_modelChanges := rt_modelChanges st2 @ [backupModel],
                    rt_backup := Some \<lparr>bm_backup = backupModel, bm_primary = previousModel,
                                      bm_thinkingLevel = previousThinkingLevel, bm_serviceTier = previousServiceTier\<rparr>,
                    rt_attempt := rt_attempt st2 + 1, rt_wait := None\<rparr>
      in retryAfterDelay env m options (Retry_start Backup_retry (rt_attempt st3) 0 (error_text m ''Unknown error'')) st3)"

text \<open>\<open>now\<close> is the clock and \<open>rng\<close> the random number; the flag says that a sleep was started.\<close>

definition handleProviderWait ::
  "retry_env \<Rightarrow> int \<Rightarrow> rat \<Rightarrow> assistant_message \<Rightarrow> retry_options \<Rightarrow> retry_reason \<Rightarrow> retry_state \<Rightarrow> bool \<times> retry_state" where
  "handleProviderWait env now rng m options reason st =
     (let startedAtMs = (case rt_wait st of Some w \<Rightarrow> pw_startedAtMs w | None \<Rightarrow> now);
          pingAttempt = (case rt_wait st of Some w \<Rightarrow> pw_attempts w | None \<Rightarrow> 0) + 1;
          st1 = st\<lparr>rt_wait := Some \<lparr>pw_attempts = pingAttempt, pw_startedAtMs = startedAtMs\<rparr>\<rparr>;
          resetMs = (case providerStreamFailureRetryAfterMs (re_num env) m of
              Some r \<Rightarrow> Some r | None \<Rightarrow> parseProviderResetMs (re_found env) (am_errorMessage m))
      in case providerWaitDecision pingAttempt (now - startedAtMs) resetMs (re_wait env) rng of
           Wait_abort why \<Rightarrow>
             (False, resolveRetry ((give_up env m options (pingAttempt - 1) (Wait_gave_up why) st1)\<lparr>rt_wait := None, rt_authSources := []\<rparr>))
         | Wait_for delayMs \<Rightarrow>
             (True, retryAfterDelay env m options (Retry_start reason pingAttempt delayMs (error_text m ''Unknown error'')) st1))"

definition handleRetryableError ::
  "retry_env \<Rightarrow> int \<Rightarrow> rat \<Rightarrow> assistant_message \<Rightarrow> retry_options \<Rightarrow> retry_state \<Rightarrow> bool \<times> retry_state" where
  "handleRetryableError env now rng m options st =
     (if \<not> rp_enabled (re_policy env) then
        (let (_, st1) = markProviderAuthStaleForRetryFailure env m options st
         in (False, resolveRetry (st1\<lparr>rt_authSources := []\<rparr>)))
      else
        (let st1 = st\<lparr>rt_promise := True\<rparr>;
             waitClass = providerWaitClass (providerStreamFailureKind m) (providerStreamFailureStatus (re_num env) m);
             quick =
               (let st2 = st1\<lparr>rt_attempt := rt_attempt st1 + 1\<rparr> in
                if waitClass = Quota_class \<and> wp_enabled (re_wait env) then handleProviderWait env now rng m options Wait_usage st2
                else if int (rt_attempt st2) > rp_maxRetries (re_policy env) then
                  (if waitClass = Transient_class \<and> wp_enabled (re_wait env)
                   then handleProviderWait env now rng m options Wait_unavailable st2
                   else (False, resolveRetry ((give_up env m options (rt_attempt st2 - 1) Failed_with st2)\<lparr>rt_authSources := []\<rparr>)))
                else (case providerRetryDelay (rt_attempt st2) (providerStreamFailureRetryAfterMs (re_num env) m) (re_policy env) of
                    Exceeds_cap r \<Rightarrow>
                      (False, resolveRetry ((give_up env m options (rt_attempt st2 - 1) (Cap_exceeded r) st2)\<lparr>rt_authSources := []\<rparr>))
                  | Delay_wait delayMs \<Rightarrow>
                      (True, retryAfterDelay env m options (Retry_start Quick_retry (rt_attempt st2) delayMs (error_text m ''Unknown error'')) st2)))
         in case (if waitClass \<noteq> Permanent_class then re_backup env else None) of
              Some backupModel \<Rightarrow>
                if \<not> modelsAreEqual (rt_model st1) backupModel then (True, handleBackupModelRetry env m options backupModel st1) else quick
            | None \<Rightarrow> quick))"

section \<open>Events of the agent\<close>

text \<open>The retry part of \<open>message_end\<close> for an assistant message.\<close>

definition assistant_ended :: "retry_env \<Rightarrow> assistant_message \<Rightarrow> retry_state \<Rightarrow> retry_state" where
  "assistant_ended env m st =
     (let st1 = (if isConcreteProviderAuthFailure m then captureRetryAuthFailureSource env m st else st) in
      if am_stopReason m \<noteq> Error_stop \<and> rt_attempt st1 > 0 then
        (let (restoredModel, st2) = restorePrimaryModelAfterBackup env st1
         in (emit (Retry_end_ok (rt_attempt st2) restoredModel) st2)\<lparr>rt_attempt := 0, rt_wait := None, rt_authSources := []\<rparr>)
      else st1)"

definition createRetryPromiseForAgentEnd :: "retry_env \<Rightarrow> assistant_message \<Rightarrow> retry_state \<Rightarrow> retry_state" where
  "createRetryPromiseForAgentEnd env m st =
     (if rt_promise st then st
      else if \<not> rp_enabled (re_policy env) then st
      else if \<not> isRetryableError env m st \<and> \<not> isConcreteProviderAuthFailure m then st
      else (if isConcreteProviderAuthFailure m then captureRetryAuthFailureSource env m st else st)\<lparr>rt_promise := True\<rparr>)"

text \<open>
  \<open>agent_end\<close> with the last assistant message; \<open>compactionWillRetry\<close> is the answer of the
  compaction check. The flag says that a retry was started.
\<close>

definition agent_ended ::
  "retry_env \<Rightarrow> int \<Rightarrow> rat \<Rightarrow> bool \<Rightarrow> assistant_message \<Rightarrow> retry_state \<Rightarrow> bool \<times> retry_state" where
  "agent_ended env now rng compactionWillRetry m st =
     (let concreteAuthFailure = isConcreteProviderAuthFailure m;
          retryConcreteAuthFailure = (concreteAuthFailure \<and> \<not> isStructuredPermanentProviderRetryExhausted env m st);
          finish = (\<lambda>s. if compactionWillRetry \<and> rt_attempt s > 0 then s else resolveRetry (finishActiveRetryWithFailure env m s))
      in if isRetryableError env m st \<or> retryConcreteAuthFailure then
           (let st1 = (if retryConcreteAuthFailure then captureRetryAuthFailureSource env m st else st);
                options = \<lparr>ro_markAuthStale = retryConcreteAuthFailure,
                           ro_authSourceTokens = (if retryConcreteAuthFailure then rt_authSources st1 else [])\<rparr>;
                (didRetry, st2) = handleRetryableError env now rng m options st1
            in if didRetry then (True, st2) else (False, finish st2))
         else (False, finish st))"

end
