(* ===== verification/Session_Retry_Ends.thy ===== *)
theory Session_Retry_Ends
  imports Session_Retry
begin

text \<open>
  The retry state machine of \<open>Session_Retry\<close> comes to rest: what each helper leaves alone, the measure
  of retries that are left, one failing turn, and a run of them.
\<close>

section \<open>What the helpers leave alone\<close>

text \<open>The part of the state that decides about retrying.\<close>

definition retry_core :: "retry_state \<Rightarrow> nat \<times> nat \<times> bool \<times> model \<times> string \<times> backup_model option" where
  "retry_core st = (rt_attempt st, (case rt_wait st of Some w \<Rightarrow> pw_attempts w | None \<Rightarrow> 0), rt_promise st, rt_model st, rt_thinkingLevel st, rt_backup st)"

lemma retry_core_eq: "retry_core st = (n, w, p, mo, th, b) \<longleftrightarrow>
  rt_attempt st = n \<and> (case rt_wait st of Some w \<Rightarrow> pw_attempts w | None \<Rightarrow> 0) = w \<and> rt_promise st = p \<and> rt_model st = mo
  \<and> rt_thinkingLevel st = th \<and> rt_backup st = b"
  by (simp add: retry_core_def)

lemma retry_core_emit [simp]: "retry_core (emit e st) = retry_core st"
  by (simp add: retry_core_def emit_def)

lemma retry_core_updates [simp]:
  "retry_core (st\<lparr>rt_authSources := x\<rparr>) = retry_core st" "retry_core (st\<lparr>rt_parked := y\<rparr>) = retry_core st"
  "retry_core (st\<lparr>rt_messages := z\<rparr>) = retry_core st" "retry_core (st\<lparr>rt_sleeping := u\<rparr>) = retry_core st"
  "retry_core (st\<lparr>rt_serviceTier := v\<rparr>) = retry_core st" "retry_core (st\<lparr>rt_modelChanges := l\<rparr>) = retry_core st"
  "retry_core (st\<lparr>rt_timers := q\<rparr>) = retry_core st" "retry_core (st\<lparr>rt_continuing := r\<rparr>) = retry_core st"
  by (simp_all add: retry_core_def)

lemma core_mark [simp]: "retry_core (snd (markProviderAuthStaleForRetryFailure env m options st)) = retry_core st"
  by (simp add: markProviderAuthStaleForRetryFailure_def markProviderAuthStale_def Let_def split: option.split)

lemma core_clamp [simp]: "retry_core (clampServiceTierForModel env t st) = retry_core st"
  by (simp add: clampServiceTierForModel_def Let_def)

lemma core_capture [simp]: "retry_core (captureRetryAuthFailureSource env m st) = retry_core st"
  by (simp add: captureRetryAuthFailureSource_def split: option.split)

lemma core_delay [simp]: "retry_core (retryAfterDelay env m options e st) = retry_core st"
  by (simp add: retryAfterDelay_def Let_def)

lemma core_sleep_timer [simp]: "retry_core (timer_fires (sleep_over st)) = retry_core st"
proof -
  have "retry_core (timer_fires s) = retry_core s" for s by (simp add: timer_fires_def split: list.split prod.split)
  moreover have "retry_core (sleep_over s) = retry_core s" for s by (simp add: sleep_over_def split: option.split prod.split)
  ultimately show ?thesis by simp
qed

lemma modelsAreEqual_eq [simp]: "modelsAreEqual a b = (a = b)"
  by (cases a; cases b) (auto simp: modelsAreEqual_def)

section \<open>A retry in progress\<close>

text \<open>
  \<open>on_course env mo th st\<close>: the session still has its own model \<open>mo\<close> and thinking level \<open>th\<close>, or
  it runs on the configured backup model and remembers them.
\<close>

definition on_course :: "retry_env \<Rightarrow> model \<Rightarrow> string \<Rightarrow> retry_state \<Rightarrow> bool" where
  "on_course env mo th st =
     (case rt_backup st of
        None \<Rightarrow> rt_model st = mo \<and> rt_thinkingLevel st = th
      | Some b \<Rightarrow> bm_primary b = mo \<and> bm_thinkingLevel b = th \<and> rt_model st = bm_backup b \<and> re_backup env = Some (bm_backup b))"

definition at_rest :: "model \<Rightarrow> string \<Rightarrow> retry_state \<Rightarrow> bool" where
  "at_rest mo th st = (rt_attempt st = 0 \<and> \<not> rt_promise st \<and> rt_authSources st = [] \<and> rt_backup st = None
     \<and> rt_model st = mo \<and> rt_thinkingLevel st = th)"

lemma core_restore:
  assumes "on_course env mo th st"
  shows "retry_core (snd (restorePrimaryModelAfterBackup env st))
    = (rt_attempt st, (case rt_wait st of Some w \<Rightarrow> pw_attempts w | None \<Rightarrow> 0), rt_promise st, mo, th, None)"
  using assms
  by (cases "rt_backup st") (simp_all add: restorePrimaryModelAfterBackup_def on_course_def Let_def retry_core_def
      clampServiceTierForModel_def emit_def)

lemma on_course_core: "retry_core st = retry_core st' \<Longrightarrow> on_course env mo th st = on_course env mo th st'"
  by (auto simp: on_course_def retry_core_def split: option.splits)

lemma on_course_updates [simp]:
  "on_course env mo th (st\<lparr>rt_wait := w\<rparr>) = on_course env mo th st"
  "on_course env mo th (st\<lparr>rt_attempt := n\<rparr>) = on_course env mo th st"
  "on_course env mo th (st\<lparr>rt_promise := p\<rparr>) = on_course env mo th st"
  by (simp_all add: on_course_def split: option.split)

lemma give_up_core:
  assumes "on_course env mo th st"
  shows "retry_core (give_up env m options n f st) = (0, (case rt_wait st of Some w \<Rightarrow> pw_attempts w | None \<Rightarrow> 0), rt_promise st, mo, th, None)"
proof -
  obtain m1 st1 where a: "markProviderAuthStaleForRetryFailure env m options st = (m1, st1)" by (metis prod.exhaust)
  then have c: "retry_core st1 = retry_core st" using core_mark [of env m options st] by simp
  then have "on_course env mo th st1" using assms on_course_core by blast
  from core_restore [OF this] have "retry_core (snd (restorePrimaryModelAfterBackup env st1))
      = (rt_attempt st, (case rt_wait st of Some w \<Rightarrow> pw_attempts w | None \<Rightarrow> 0), rt_promise st, mo, th, None)"
    using c by (simp add: retry_core_def)
  then show ?thesis by (simp add: give_up_def a Let_def case_prod_beta retry_core_def emit_def)
qed

lemma resolved_at_rest:
  assumes "retry_core st = (0, w, p, mo, th, None)" "rt_authSources st = []"
  shows "at_rest mo th (resolveRetry st)"
  using assms by (simp add: at_rest_def resolveRetry_def retry_core_def)

text \<open>The retries that are left: quick ones, pings of a wait, and the switch to the backup model.\<close>

definition pings :: "retry_state \<Rightarrow> nat" where
  "pings st = (case rt_wait st of Some w \<Rightarrow> pw_attempts w | None \<Rightarrow> 0)"

definition left_of :: "retry_env \<Rightarrow> nat \<Rightarrow> nat \<Rightarrow> model \<Rightarrow> nat" where
  "left_of env attempt n mo =
     (let allowed = nat (wp_maxAttempts (re_wait env))
      in (if re_backup env = None \<or> re_backup env = Some mo then 0 else Suc allowed)
         + (allowed - n) + (nat (rp_maxRetries (re_policy env)) - attempt))"

definition retries_left :: "retry_env \<Rightarrow> retry_state \<Rightarrow> nat" where
  "retries_left env st = left_of env (rt_attempt st) (pings st) (rt_model st)"

lemma retries_left_core: "retry_core st = retry_core st' \<Longrightarrow> retries_left env st = retries_left env st'"
  by (simp add: retries_left_def pings_def retry_core_def)

lemma left_of_ping:
  assumes "int (Suc n) \<le> wp_maxAttempts (re_wait env)"
  shows "left_of env a (Suc n) mo < left_of env a n mo"
proof -
  have "nat (wp_maxAttempts (re_wait env)) - Suc n < nat (wp_maxAttempts (re_wait env)) - n" using assms by linarith
  then show ?thesis unfolding left_of_def Let_def by (intro add_strict_right_mono add_strict_left_mono)
qed

lemma left_of_quick:
  assumes "int (Suc a) \<le> rp_maxRetries (re_policy env)"
  shows "left_of env (Suc a) n mo < left_of env a n mo"
proof -
  have "nat (rp_maxRetries (re_policy env)) - Suc a < nat (rp_maxRetries (re_policy env)) - a" using assms by linarith
  then show ?thesis unfolding left_of_def Let_def by (intro add_strict_left_mono)
qed

lemma left_of_attempt: "left_of env (Suc a) n mo \<le> left_of env a n mo"
  by (simp add: left_of_def Let_def)

lemma left_of_backup: "re_backup env = Some b \<Longrightarrow> mo \<noteq> b \<Longrightarrow> left_of env (Suc a) k b < left_of env a n mo"
  by (simp add: left_of_def Let_def)

lemma wait_within_attempts: "providerWaitDecision n e r p x = Wait_for d \<Longrightarrow> int n \<le> wp_maxAttempts p"
  by (auto simp: providerWaitDecision_def split: if_splits)

lemma handleProviderWait_outcome:
  assumes "handleProviderWait env now rng m options reason st = (did, st')" "on_course env mo th st"
  shows "if did then on_course env mo th st' \<and> rt_attempt st' = rt_attempt st \<and> rt_promise st' = rt_promise st \<and> retries_left env st' < retries_left env st
    else at_rest mo th st'"
proof -
  let ?start = "case rt_wait st of Some w \<Rightarrow> pw_startedAtMs w | None \<Rightarrow> now"
  let ?n = "(case rt_wait st of Some w \<Rightarrow> pw_attempts w | None \<Rightarrow> 0) + 1"
  let ?st = "st\<lparr>rt_wait := Some \<lparr>pw_attempts = ?n, pw_startedAtMs = ?start\<rparr>\<rparr>"
  let ?reset = "case providerStreamFailureRetryAfterMs (re_num env) m of
              Some r \<Rightarrow> Some r | None \<Rightarrow> parseProviderResetMs (re_found env) (am_errorMessage m)"
  let ?d = "providerWaitDecision ?n (now - ?start) ?reset (re_wait env) rng"
  have oc: "on_course env mo th ?st" using assms(2) by simp
  show ?thesis
  proof (cases ?d)
    case (Wait_for delay)
    then have r: "did" "st' = retryAfterDelay env m options (Retry_start reason ?n delay (error_text m ''Unknown error'')) ?st"
      using assms(1) by (simp_all add: handleProviderWait_def Let_def)
    then have c: "retry_core st' = retry_core ?st" by simp
    have "int ?n \<le> wp_maxAttempts (re_wait env)" using Wait_for by (rule wait_within_attempts)
    then have "retries_left env ?st < retries_left env st"
      using left_of_ping [of "pings st" env "rt_attempt st" "rt_model st"] by (simp add: retries_left_def pings_def)
    then show ?thesis using r(1) c oc on_course_core [OF c] retries_left_core [OF c] by (simp add: retry_core_def)
  next
    case (Wait_abort why)
    then have r: "\<not> did" "st' = resolveRetry ((give_up env m options (?n - 1) (Wait_gave_up why) ?st)\<lparr>rt_wait := None, rt_authSources := []\<rparr>)"
      using assms(1) by (simp_all add: handleProviderWait_def Let_def)
    have "retry_core ((give_up env m options (?n - 1) (Wait_gave_up why) ?st)\<lparr>rt_wait := None, rt_authSources := []\<rparr>)
        = (0, 0, rt_promise st, mo, th, None)"
      using give_up_core [OF oc, of m options "?n - 1" "Wait_gave_up why"] by (simp add: retry_core_def)
    then show ?thesis using r resolved_at_rest by simp
  qed
qed

section \<open>One failure\<close>

text \<open>Either a retry is under way that uses up one of those left, or the session is at rest.\<close>

definition retry_fate :: "retry_env \<Rightarrow> model \<Rightarrow> string \<Rightarrow> nat \<Rightarrow> bool \<times> retry_state \<Rightarrow> bool" where
  "retry_fate env mo th n r =
     (if fst r then on_course env mo th (snd r) \<and> rt_attempt (snd r) > 0 \<and> rt_promise (snd r) \<and> retries_left env (snd r) < n
      else at_rest mo th (snd r))"

lemma fate_give_up:
  assumes "on_course env mo th st"
  shows "retry_fate env mo th n (False, resolveRetry ((give_up env m options k f st)\<lparr>rt_authSources := []\<rparr>))"
  using give_up_core [OF assms, of m options k f] by (simp add: retry_fate_def resolved_at_rest)

lemma fate_wait:
  assumes "on_course env mo th st" "rt_attempt st > 0" "rt_promise st" "retries_left env st \<le> n"
  shows "retry_fate env mo th n (handleProviderWait env now rng m options reason st)"
proof -
  obtain did st' where r: "handleProviderWait env now rng m options reason st = (did, st')" by (metis prod.exhaust)
  show ?thesis using handleProviderWait_outcome [OF r assms(1)] assms(2-4) by (auto simp: retry_fate_def r)
qed

lemma fate_quick:
  assumes "on_course env mo th st" "rt_attempt st > 0" "rt_promise st" "retries_left env st < n"
  shows "retry_fate env mo th n (True, retryAfterDelay env m options e st)"
proof -
  have c: "retry_core (retryAfterDelay env m options e st) = retry_core st" by simp
  then show ?thesis
    using assms on_course_core [OF c] retries_left_core [OF c] by (simp add: retry_fate_def retry_core_def)
qed

lemma fate_backup:
  assumes "on_course env mo th st" "re_backup env = Some b" "rt_model st \<noteq> b" "rt_promise st"
  shows "retry_fate env mo th (retries_left env st) (True, handleBackupModelRetry env m options b st)"
proof -
  have fresh: "rt_backup st = None" "rt_model st = mo" "rt_thinkingLevel st = th"
    using assms by (auto simp: on_course_def split: option.splits)
  have c: "retry_core (handleBackupModelRetry env m options b st)
      = (Suc (rt_attempt st), 0, rt_promise st, b, re_clampThinking env b th,
         Some \<lparr>bm_backup = b, bm_primary = mo, bm_thinkingLevel = th, bm_serviceTier = rt_serviceTier st\<rparr>)"
    using fresh by (simp add: handleBackupModelRetry_def Let_def retry_core_def retryAfterDelay_def clampServiceTierForModel_def emit_def)
  have left: "retries_left env (handleBackupModelRetry env m options b st) < retries_left env st"
    using left_of_backup [OF assms(2,3)] c by (simp add: retries_left_def retry_core_def)
  from c show ?thesis
    using assms(2,4) left by (simp add: retry_fate_def on_course_def retry_core_eq)
qed

lemma fate_of_error:
  assumes "rp_enabled (re_policy env)" "on_course env mo th st"
  shows "retry_fate env mo th (retries_left env st) (handleRetryableError env now rng m options st)"
proof -
  let ?st = "st\<lparr>rt_promise := True\<rparr>"
  let ?st2 = "?st\<lparr>rt_attempt := Suc (rt_attempt st)\<rparr>"
  let ?cls = "providerWaitClass (providerStreamFailureKind m) (providerStreamFailureStatus (re_num env) m)"
  let ?n = "retries_left env st"
  have oc: "on_course env mo th ?st" "on_course env mo th ?st2" using assms(2) by simp_all
  have left: "retries_left env ?st2 \<le> ?n" "retries_left env ?st = ?n"
    using left_of_attempt by (simp_all add: retries_left_def pings_def)
  have wait: "retry_fate env mo th ?n (handleProviderWait env now rng m options reason ?st2)" for reason
    by (rule fate_wait) (use oc left in simp_all)
  have quick: "retry_fate env mo th ?n (True, retryAfterDelay env m options e ?st2)"
    if "int (Suc (rt_attempt st)) \<le> rp_maxRetries (re_policy env)" for e
    by (rule fate_quick) (use that oc left_of_quick [of "rt_attempt st" env] in \<open>simp_all add: retries_left_def pings_def\<close>)
  have backup: "retry_fate env mo th ?n (True, handleBackupModelRetry env m options b ?st)"
    if "re_backup env = Some b" "rt_model st \<noteq> b" for b
    using fate_backup [OF oc(1) that(1), of m options] that(2) left by simp
  show ?thesis
    using assms(1) wait quick backup fate_give_up [OF oc(2)]
    by (simp add: handleRetryableError_def Let_def split: option.split retry_delay.split)
qed

text \<open>With retries disabled nothing is kept of the failure.\<close>

lemma error_with_retries_disabled:
  assumes "\<not> rp_enabled (re_policy env)" "rt_backup st = None" "rt_attempt st = 0"
  shows "\<not> fst (handleRetryableError env now rng m options st)
    \<and> at_rest (rt_model st) (rt_thinkingLevel st) (snd (handleRetryableError env now rng m options st))"
proof -
  obtain m1 st1 where a: "markProviderAuthStaleForRetryFailure env m options st = (m1, st1)" by (metis prod.exhaust)
  then have c: "retry_core st1 = retry_core st" using core_mark [of env m options st] by simp
  then show ?thesis
    using assms a by (simp add: handleRetryableError_def resolveRetry_def retry_core_def at_rest_def)
qed

section \<open>A run of failures\<close>

text \<open>One failing turn: its last message ends, then the agent ends, without a compaction that retries.\<close>

definition failing_turn :: "retry_env \<Rightarrow> int \<times> rat \<times> assistant_message \<Rightarrow> retry_state \<Rightarrow> bool \<times> retry_state" where
  "failing_turn env turn st =
     (let (now, rng, m) = turn
      in agent_ended env now rng False m (createRetryPromiseForAgentEnd env m (assistant_ended env m st)))"

text \<open>
  Failing turns one after the other as long as each is retried: the sleep runs to its end and the
  timer re-issues the turn. The number counts the turns up to the one that was not retried.
\<close>

fun failing_run :: "retry_env \<Rightarrow> (int \<times> rat \<times> assistant_message) list \<Rightarrow> retry_state \<Rightarrow> (nat \<times> retry_state) option" where
  "failing_run env [] st = None"
| "failing_run env (turn # turns) st =
     (let (didRetry, st1) = failing_turn env turn st in
      if didRetry then map_option (\<lambda>(k, s). (Suc k, s)) (failing_run env turns (timer_fires (sleep_over st1)))
      else Some (1, st1))"

lemma at_rest_on_course: "at_rest mo th st \<Longrightarrow> on_course env mo th st"
  by (simp add: at_rest_def on_course_def)

lemma at_rest_resolve: "at_rest mo th st \<Longrightarrow> at_rest mo th (resolveRetry st)"
  by (simp add: at_rest_def resolveRetry_def)

lemma finish_at_rest:
  assumes "on_course env mo th st" "rt_attempt st > 0"
  shows "at_rest mo th (resolveRetry (finishActiveRetryWithFailure env m st))"
proof -
  obtain m1 st1 where a: "markProviderAuthStaleForRetryFailure env m no_options st = (m1, st1)" by (metis prod.exhaust)
  then have c: "retry_core st1 = retry_core st" using core_mark [of env m no_options st] by simp
  then have "on_course env mo th st1" using assms(1) on_course_core by blast
  from core_restore [OF this] have "rt_promise (snd (restorePrimaryModelAfterBackup env st1)) = rt_promise st1"
    "rt_model (snd (restorePrimaryModelAfterBackup env st1)) = mo" "rt_thinkingLevel (snd (restorePrimaryModelAfterBackup env st1)) = th"
    "rt_backup (snd (restorePrimaryModelAfterBackup env st1)) = None" by (simp_all add: retry_core_eq)
  then show ?thesis
    using assms(2) a by (simp add: finishActiveRetryWithFailure_def Let_def case_prod_beta at_rest_def resolveRetry_def emit_def)
qed

lemma core_ended: "am_stopReason m = Error_stop \<Longrightarrow> retry_core (assistant_ended env m st) = retry_core st"
  by (simp add: assistant_ended_def Let_def)

lemma core_promise:
  "on_course env mo th (createRetryPromiseForAgentEnd env m st) = on_course env mo th st"
  "rt_attempt (createRetryPromiseForAgentEnd env m st) = rt_attempt st"
  "retries_left env (createRetryPromiseForAgentEnd env m st) = retries_left env st"
  "rt_backup (createRetryPromiseForAgentEnd env m st) = rt_backup st"
proof -
  let ?s = "if isConcreteProviderAuthFailure m then captureRetryAuthFailureSource env m st else st"
  have c: "retry_core ?s = retry_core st" by simp
  show "on_course env mo th (createRetryPromiseForAgentEnd env m st) = on_course env mo th st"
    using on_course_core [OF c] by (simp add: createRetryPromiseForAgentEnd_def split: if_splits)
  show "rt_attempt (createRetryPromiseForAgentEnd env m st) = rt_attempt st"
    and "rt_backup (createRetryPromiseForAgentEnd env m st) = rt_backup st"
    and "retries_left env (createRetryPromiseForAgentEnd env m st) = retries_left env st"
    using c retries_left_core [OF c, of env]
    by (auto simp: createRetryPromiseForAgentEnd_def retry_core_def retries_left_def pings_def captureRetryAuthFailureSource_def
        split: if_splits option.splits)
qed

lemma finish_rested: "at_rest mo th st \<Longrightarrow> at_rest mo th (resolveRetry (finishActiveRetryWithFailure env m st))"
  by (simp add: finishActiveRetryWithFailure_def at_rest_def resolveRetry_def)

lemma agent_ended_retryable:
  assumes "isRetryableError env m st \<or> isConcreteProviderAuthFailure m \<and> \<not> isStructuredPermanentProviderRetryExhausted env m st"
  shows "\<exists>options s. retry_core s = retry_core st \<and> agent_ended env now rng False m st
    = (let (did, s1) = handleRetryableError env now rng m options s
       in if did then (True, s1) else (False, resolveRetry (finishActiveRetryWithFailure env m s1)))"
proof -
  let ?auth = "isConcreteProviderAuthFailure m \<and> \<not> isStructuredPermanentProviderRetryExhausted env m st"
  let ?s = "if ?auth then captureRetryAuthFailureSource env m st else st"
  let ?o = "\<lparr>ro_markAuthStale = ?auth, ro_authSourceTokens = (if ?auth then rt_authSources ?s else [])\<rparr>"
  have "agent_ended env now rng False m st
    = (let (did, s1) = handleRetryableError env now rng m ?o ?s
       in if did then (True, s1) else (False, resolveRetry (finishActiveRetryWithFailure env m s1)))"
    using assms by (simp only: agent_ended_def Let_def if_True if_False simp_thms case_prod_beta)
  then show ?thesis by (intro exI [of _ ?o] exI [of _ ?s]) simp
qed

lemma agent_ended_final:
  assumes "\<not> (isRetryableError env m st \<or> isConcreteProviderAuthFailure m \<and> \<not> isStructuredPermanentProviderRetryExhausted env m st)"
  shows "agent_ended env now rng False m st = (False, resolveRetry (finishActiveRetryWithFailure env m st))"
  using assms by (simp only: agent_ended_def Let_def if_False simp_thms case_prod_beta)

lemma auth_retried_at_rest: "rt_attempt st = 0 \<Longrightarrow> isConcreteProviderAuthFailure m \<Longrightarrow> \<not> isStructuredPermanentProviderRetryExhausted env m st"
  by (simp add: isConcreteProviderAuthFailure_def isStructuredPermanentProviderRetryExhausted_def isPermanentProviderFailureKind_def)

lemma retryable_attempt: "rt_attempt s = rt_attempt t \<Longrightarrow> isRetryableError env m s = isRetryableError env m t"
  by (simp add: isRetryableError_def isStructuredPermanentProviderRetryExhausted_def)

lemma turn_fate:
  assumes "am_stopReason m = Error_stop"
    and "at_rest mo th st \<or> rp_enabled (re_policy env) \<and> on_course env mo th st \<and> rt_attempt st > 0"
  shows "retry_fate env mo th (retries_left env st) (failing_turn env (now, rng, m) st)"
proof -
  define s where "s = createRetryPromiseForAgentEnd env m (assistant_ended env m st)"
  have c: "retry_core (assistant_ended env m st) = retry_core st" by (rule core_ended [OF assms(1)])
  have s: "on_course env mo th s" "rt_attempt s = rt_attempt st" "retries_left env s = retries_left env st" "rt_backup s = rt_backup st"
    using assms(2) at_rest_on_course c on_course_core [OF c] retries_left_core [OF c]
    by (auto simp: s_def core_promise retry_core_def)
  have turn: "failing_turn env (now, rng, m) st = agent_ended env now rng False m s" by (simp add: failing_turn_def s_def)
  show ?thesis
  proof (cases "isRetryableError env m s \<or> isConcreteProviderAuthFailure m \<and> \<not> isStructuredPermanentProviderRetryExhausted env m s")
    case True
    from agent_ended_retryable [OF this, of now rng] obtain options t where t: "retry_core t = retry_core s"
      "agent_ended env now rng False m s = (let (did, s1) = handleRetryableError env now rng m options t
         in if did then (True, s1) else (False, resolveRetry (finishActiveRetryWithFailure env m s1)))" by blast
    have "retry_fate env mo th (retries_left env st) (handleRetryableError env now rng m options t)"
    proof (cases "rp_enabled (re_policy env)")
      case True
      have "on_course env mo th t" using s(1) on_course_core [OF t(1)] by blast
      from fate_of_error [OF True this, of now rng m options] show ?thesis
        using s(3) retries_left_core [OF t(1), of env] by simp
    next
      case False
      with assms(2) have r: "at_rest mo th st" by blast
      then have "rt_backup t = None" "rt_attempt t = 0" "rt_model t = mo" "rt_thinkingLevel t = th"
        using s t(1) on_course_core [OF t(1), of env mo th] by (auto simp: at_rest_def retry_core_def on_course_def)
      from error_with_retries_disabled [OF False this(1,2)] show ?thesis
        using \<open>rt_model t = mo\<close> \<open>rt_thinkingLevel t = th\<close> by (simp add: retry_fate_def)
    qed
    then show ?thesis
      using finish_rested unfolding turn t(2) by (simp add: retry_fate_def case_prod_beta)
  next
    case False
    note final = agent_ended_final [OF this, of now rng]
    show ?thesis
    proof (cases "rt_attempt st > 0")
      case True
      with finish_at_rest [OF s(1)] s(2) show ?thesis unfolding turn final by (simp add: retry_fate_def)
    next
      case idle: False
      with assms(2) have r: "at_rest mo th st" by blast
      have auth: "\<not> isConcreteProviderAuthFailure m" using False idle s(2) auth_retried_at_rest [of s] by auto
      then have "assistant_ended env m st = st" using assms(1) by (simp add: assistant_ended_def)
      moreover have "\<not> isRetryableError env m st" using False retryable_attempt [OF s(2)] by blast
      ultimately have "s = st" using auth by (simp add: s_def createRetryPromiseForAgentEnd_def)
      with r finish_rested show ?thesis unfolding turn final by (simp add: retry_fate_def)
    qed
  qed
qed

lemma retried_enabled: "fst (failing_turn env turn st) \<Longrightarrow> rp_enabled (re_policy env)"
proof (rule ccontr)
  assume t: "fst (failing_turn env turn st)" and d: "\<not> rp_enabled (re_policy env)"
  have "\<not> fst (handleRetryableError env now rng m options s)" for now rng m options s
    using d by (simp add: handleRetryableError_def Let_def case_prod_beta)
  then have "\<not> fst (agent_ended env now rng b m s)" for now rng b m s
    by (simp add: agent_ended_def Let_def case_prod_beta)
  with t show False by (simp add: failing_turn_def Let_def case_prod_beta)
qed

lemma failing_run_ends:
  assumes "list_all (\<lambda>(now, rng, m). am_stopReason m = Error_stop) turns"
    and "at_rest mo th st \<or> rp_enabled (re_policy env) \<and> on_course env mo th st \<and> rt_attempt st > 0"
    and "length turns > retries_left env st"
  shows "\<exists>k st'. failing_run env turns st = Some (k, st') \<and> k \<le> Suc (retries_left env st) \<and> at_rest mo th st'"
  using assms
proof (induction turns arbitrary: st)
  case (Cons turn turns)
  obtain now rng m where turn: "turn = (now, rng, m)" by (metis prod.exhaust)
  obtain did s where r: "failing_turn env turn st = (did, s)" by (metis prod.exhaust)
  have m: "am_stopReason m = Error_stop" using Cons.prems(1) turn by simp
  have fate: "retry_fate env mo th (retries_left env st) (did, s)"
    using turn_fate [OF m Cons.prems(2), of now rng] r turn by simp
  show ?case
  proof (cases did)
    case True
    let ?t = "timer_fires (sleep_over s)"
    have c: "retry_core ?t = retry_core s" by simp
    from fate True have f: "on_course env mo th s" "rt_attempt s > 0" "retries_left env s < retries_left env st"
      by (simp_all add: retry_fate_def)
    have "rp_enabled (re_policy env)" using retried_enabled [of env turn st] r True by simp
    then have "\<exists>k st'. failing_run env turns ?t = Some (k, st') \<and> k \<le> Suc (retries_left env ?t) \<and> at_rest mo th st'"
      using Cons f c on_course_core [OF c] retries_left_core [OF c, of env] by (intro Cons.IH) (auto simp: retry_core_def)
    then show ?thesis using True r f(3) retries_left_core [OF c, of env] by auto
  next
    case False
    with fate r show ?thesis by (auto simp: retry_fate_def)
  qed
qed simp

section \<open>Retrying ends\<close>

definition retry_bound :: "retry_env \<Rightarrow> nat" where
  "retry_bound env = nat (rp_maxRetries (re_policy env)) + 2 * nat (wp_maxAttempts (re_wait env)) + 1"

lemma retries_left_bound: "retries_left env st \<le> retry_bound env"
proof -
  let ?a = "nat (wp_maxAttempts (re_wait env))" and ?r = "nat (rp_maxRetries (re_policy env))"
  have "(if re_backup env = None \<or> re_backup env = Some (rt_model st) then 0 else Suc ?a) \<le> Suc ?a"
    "?a - pings st \<le> ?a" "?r - rt_attempt st \<le> ?r" by simp_all
  then show ?thesis unfolding retries_left_def left_of_def retry_bound_def Let_def by linarith
qed

text \<open>
  C35: a session does not retry for ever. From a session at rest, turns that fail one after the
  other, for whatever reasons, at whatever times and with whatever waits the provider asks for, are
  retried at most \<open>maxRetries + 2 * maxAttempts + 1\<close> times (quick retries, pings of at most two
  waits and the switch to the backup model); then the retry is given up and the session is at
  rest again: no retry is pending, its counters and collected credentials are cleared, and it is
  back on its own model and thinking level.
\<close>
theorem retries_end:
  assumes "at_rest mo th st" "list_all (\<lambda>(now, rng, m). am_stopReason m = Error_stop) turns"
    and "length turns > retry_bound env"
  shows "\<exists>k st'. failing_run env turns st = Some (k, st') \<and> k \<le> Suc (retry_bound env) \<and> at_rest mo th st'"
  using failing_run_ends [OF assms(2), of mo th st env] assms(1,3) retries_left_bound [of env st] by fastforce

definition sample_failure :: "json list \<Rightarrow> assistant_message" where
  "sample_failure ds =
     \<lparr>am_content = [], am_api = [], am_provider = ''p'', am_model = ''m'', am_responseModel = None, am_responseId = None,
      am_diagnostics = Some ds, am_usage = emptyUsage, am_stopReason = Error_stop, am_stopReasonRaw = None,
      am_errorMessage = Some ''failed'', am_timestamp = Finite 0\<rparr>"

definition quota_failure :: assistant_message where
  "quota_failure = sample_failure [JObj [(''type'', JStr ''provider_stream_failure''), (''details'', JObj [(''kind'', JStr ''quota'')])]]"

definition sample_env :: retry_env where
  "sample_env =
     \<lparr>re_policy = DEFAULT_PROVIDER_RETRY_POLICY\<lparr>rp_maxRetries := 1\<rparr>, re_wait = DEFAULT_PROVIDER_WAIT_POLICY\<lparr>wp_maxAttempts := 2\<rparr>, re_backup = None,
      re_hooks = False, re_clampThinking = \<lambda>_ t. t, re_effectiveTier = \<lambda>_ t. t, re_markSource = \<lambda>_. False, re_markProvider = \<lambda>_. False,
      re_sourceToken = \<lambda>_. None, re_guidance = id, re_overflow = \<lambda>_. False, re_num = \<lambda>_. 0, re_found = \<lambda>_. None\<rparr>"

definition sample_start :: retry_state where
  "sample_start =
     \<lparr>rt_attempt = 0, rt_wait = None, rt_promise = False, rt_generation = 0, rt_parked = False, rt_authSources = [],
      rt_model = \<lparr>mo_provider = ''p'', mo_id = ''m''\<rparr>, rt_thinkingLevel = ''off'', rt_serviceTier = ''default'', rt_backup = None,
      rt_messages = [], rt_modelChanges = [], rt_events = [], rt_sleeping = None, rt_timers = [], rt_continuing = False\<rparr>"

lemma retries_end_witness:
  "\<exists>k st'. failing_run sample_env (replicate 7 (0, 0, quota_failure)) sample_start = Some (k, st')
    \<and> k \<le> Suc (retry_bound sample_env) \<and> at_rest \<lparr>mo_provider = ''p'', mo_id = ''m''\<rparr> ''off'' st'"
proof (rule retries_end)
  show "at_rest \<lparr>mo_provider = ''p'', mo_id = ''m''\<rparr> ''off'' sample_start" by (simp add: at_rest_def sample_start_def)
  show "list_all (\<lambda>(now, rng, m). am_stopReason m = Error_stop) (replicate 7 (0 :: int, 0 :: rat, quota_failure))"
    by (simp add: list_all_iff quota_failure_def sample_failure_def)
  show "retry_bound sample_env < length (replicate 7 (0 :: int, 0 :: rat, quota_failure))"
    by (simp add: retry_bound_def sample_env_def DEFAULT_PROVIDER_RETRY_POLICY_def DEFAULT_PROVIDER_WAIT_POLICY_def)
qed

text \<open>
  A wait that was under way is not forgotten when the quick retries are exhausted by another
  failure: after a quota failure and a plain one the session is at rest with the wait still
  recorded, and a quota failure a day later is given up at once because that wait is too old.
\<close>

lemmas retry_evaluation = failing_turn_def assistant_ended_def createRetryPromiseForAgentEnd_def agent_ended_def
  isConcreteProviderAuthFailure_def isRetryableError_def isStructuredPermanentProviderRetryExhausted_def has_error_def
  handleRetryableError_def handleProviderWait_def retryAfterDelay_def give_up_def resolveRetry_def emit_def
  markProviderAuthStaleForRetryFailure_def restorePrimaryModelAfterBackup_def finishActiveRetryWithFailure_def
  providerStreamFailureKind_def providerStreamFailureStatus_def providerStreamFailureRetryAfterMs_def failure_field_def
  providerStreamFailureDetails_def diagnostics_of_def has_type_def json_field_def isFauxProviderQueueExhausted_def
  isAgentLifecycleFailure_def isPermanentProviderFailureKind_def providerWaitClass_def providerWaitDecision_def
  parseProviderResetMs_def providerWaitJitter_def providerWaitPingDelay_def MAX_TIMER_DELAY_MS_def
  DEFAULT_PROVIDER_RETRY_POLICY_def DEFAULT_PROVIDER_WAIT_POLICY_def sleep_over_def timer_fires_def error_text_def drop_failed_def

definition rested :: retry_state where
  "rested = (case failing_run sample_env [(0, 0, quota_failure), (1000, 0, sample_failure [])] sample_start of
     Some (_, s) \<Rightarrow> s | None \<Rightarrow> sample_start)"

lemma wait_survives_giving_up: "rt_attempt rested = 0 \<and> \<not> rt_promise rested \<and> rt_wait rested = Some \<lparr>pw_attempts = 1, pw_startedAtMs = 0\<rparr>"
  by (simp add: rested_def retry_evaluation sample_env_def sample_start_def quota_failure_def sample_failure_def Let_def)

lemma stale_wait_gives_up_at_once:
  "\<not> fst (failing_turn sample_env (86400000, 0, quota_failure) rested)
    \<and> last (rt_events (snd (failing_turn sample_env (86400000, 0, quota_failure) rested)))
      = Retry_end_failed 1 (Wait_gave_up Waited_too_long (Some ''failed'')) None"
  by (simp add: rested_def retry_evaluation sample_env_def sample_start_def quota_failure_def sample_failure_def Let_def)

end
