(* ===== verification/Cron_Schedule.thy ===== *)
theory Cron_Schedule
  imports Messages
begin

text \<open>
  Schedules of scheduled jobs: \<open>packages/coding-agent/src/core/cron-jobs.ts\<close>, from the text of a
  schedule to the next time it is due. An instant is a number of milliseconds since the epoch.
\<close>

section \<open>Local time\<close>

text \<open>
  \<open>Date\<close> in the local zone: the offset of local time at an instant, and the instant JavaScript
  chooses for a local time. The calendar is the proleptic Gregorian one.
\<close>

record time_zone =
  tz_offset :: "int \<Rightarrow> int"
  tz_instant :: "int \<Rightarrow> int"

definition local_time :: "time_zone \<Rightarrow> int \<Rightarrow> int" where
  "local_time z t = t + tz_offset z t"

definition getMinutes :: "time_zone \<Rightarrow> int \<Rightarrow> int" where
  "getMinutes z t = local_time z t div 60000 mod 60"

definition getHours :: "time_zone \<Rightarrow> int \<Rightarrow> int" where
  "getHours z t = local_time z t div 3600000 mod 24"

definition local_day :: "time_zone \<Rightarrow> int \<Rightarrow> int" where
  "local_day z t = local_time z t div 86400000"

definition getDay :: "time_zone \<Rightarrow> int \<Rightarrow> int" where
  "getDay z t = (local_day z t + 4) mod 7"

text \<open>Month and day of the month of a day since the epoch, counting years from March.\<close>

definition civil_month_day :: "int \<Rightarrow> int \<times> int" where
  "civil_month_day day =
     (let doe = (day + 719468) mod 146097;
          yoe = (doe - doe div 1460 + doe div 36524 - doe div 146096) div 365;
          doy = doe - (365 * yoe + yoe div 4 - yoe div 100);
          mp = (5 * doy + 2) div 153
      in (if mp < 10 then mp + 3 else mp - 9, doy - (153 * mp + 2) div 5 + 1))"

definition getDate :: "time_zone \<Rightarrow> int \<Rightarrow> int" where
  "getDate z t = snd (civil_month_day (local_day z t))"

text \<open>\<open>getMonth\<close> counts from 0.\<close>

definition getMonth :: "time_zone \<Rightarrow> int \<Rightarrow> int" where
  "getMonth z t = fst (civil_month_day (local_day z t)) - 1"

text \<open>\<open>setSeconds(0, 0)\<close> and \<open>setMinutes(getMinutes() + 1)\<close>.\<close>

definition clear_seconds :: "time_zone \<Rightarrow> int \<Rightarrow> int" where
  "clear_seconds z t = tz_instant z (local_time z t div 60000 * 60000)"

definition next_minute :: "time_zone \<Rightarrow> int \<Rightarrow> int" where
  "next_minute z t = tz_instant z (local_time z t + 60000)"

text \<open>A zone without transitions.\<close>

definition fixed_zone :: "int \<Rightarrow> time_zone" where
  "fixed_zone off = \<lparr>tz_offset = \<lambda>_. off, tz_instant = \<lambda>l. l - off\<rparr>"

section \<open>Text\<close>

text \<open>\<open>split(/\s+/)\<close>.\<close>

fun split_spaces :: "string \<Rightarrow> string list" where
  "split_spaces [] = [[]]"
| "split_spaces (c # cs) =
     (if js_space c then
        (case cs of
           d # _ \<Rightarrow> if js_space d then split_spaces cs else [] # split_spaces cs
         | [] \<Rightarrow> [[], []])
      else case split_spaces cs of w # ws \<Rightarrow> (c # w) # ws | [] \<Rightarrow> [[c]])"

definition parse_digits :: "string \<Rightarrow> int" where
  "parse_digits s = fold (\<lambda>c n. 10 * n + (of_char c - 48)) s 0"

section \<open>Cron fields\<close>

datatype cron_error =
  Invalid_field string | Invalid_range string | Invalid_number string | Number_out_of_range string
| Unsupported_schedule | No_match_within_a_year string
| Empty_schedule | Interval_too_short | Invalid_one_shot | One_shot_in_the_past | Invalid_interval string

definition parseCronNumber :: "string option \<Rightarrow> int \<Rightarrow> int \<Rightarrow> cron_error + int" where
  "parseCronNumber v lo hi =
     (case v of
        None \<Rightarrow> Inl (Invalid_number [])
      | Some s \<Rightarrow>
          if s = [] \<or> \<not> list_all is_digit s then Inl (Invalid_number s)
          else let parsed = parse_digits s in
            if parsed < lo \<or> parsed > hi then Inl (Number_out_of_range s) else Inr parsed)"

text \<open>The values \<open>start, start + step, ...\<close> up to \<open>stop\<close>; the callers' steps are positive.\<close>

function steps :: "int \<Rightarrow> int \<Rightarrow> int \<Rightarrow> int list" where
  "steps start stop step = (if start \<le> stop \<and> step > 0 then start # steps (start + step) stop step else [])"
  by pat_completeness auto
termination by (relation "measure (\<lambda>(start, stop, step). nat (stop + 1 - start))") auto

declare steps.simps [simp del]

text \<open>The n-th piece of a split, undefined behind the last.\<close>

definition piece :: "nat \<Rightarrow> string list \<Rightarrow> string option" where
  "piece n ws = (if n < length ws then Some (ws ! n) else None)"

definition parse_range :: "string \<Rightarrow> int \<Rightarrow> int \<Rightarrow> cron_error + int \<times> int" where
  "parse_range rangeText lo hi =
     (if rangeText = ''*'' then Inr (lo, hi)
      else if CHR ''-'' \<in> set rangeText then
        (let ws = split_at CHR ''-'' rangeText in
         case parseCronNumber (piece 0 ws) lo hi of Inl e \<Rightarrow> Inl e
         | Inr start \<Rightarrow> (case parseCronNumber (piece 1 ws) lo hi of Inl e \<Rightarrow> Inl e
           | Inr stop \<Rightarrow> if start > stop then Inl (Invalid_range rangeText) else Inr (start, stop)))
      else (case parseCronNumber (Some rangeText) lo hi of Inl e \<Rightarrow> Inl e | Inr start \<Rightarrow> Inr (start, start)))"

definition parse_part :: "string \<Rightarrow> string \<Rightarrow> int \<Rightarrow> int \<Rightarrow> cron_error + int list" where
  "parse_part field part lo hi =
     (if part = [] then Inl (Invalid_field field)
      else
        (let ws = split_at CHR ''/'' part in
         case (case piece 1 ws of None \<Rightarrow> Inr 1 | Some stepText \<Rightarrow> parseCronNumber (Some stepText) 1 hi) of
           Inl e \<Rightarrow> Inl e
         | Inr step \<Rightarrow> (case parse_range (hd ws) lo hi of
             Inl e \<Rightarrow> Inl e
           | Inr (start, stop) \<Rightarrow> Inr (steps start stop step))))"

fun parse_parts :: "string \<Rightarrow> string list \<Rightarrow> int \<Rightarrow> int \<Rightarrow> cron_error + int list" where
  "parse_parts field [] lo hi = Inr []"
| "parse_parts field (p # ps) lo hi =
     (case parse_part field p lo hi of Inl e \<Rightarrow> Inl e
      | Inr vs \<Rightarrow> (case parse_parts field ps lo hi of Inl e \<Rightarrow> Inl e | Inr ws \<Rightarrow> Inr (vs @ ws)))"

definition parseCronField :: "string \<Rightarrow> int \<Rightarrow> int \<Rightarrow> cron_error + int list" where
  "parseCronField field lo hi = parse_parts field (split_at CHR '','' field) lo hi"

record cron_fields =
  cf_minute :: "int list"
  cf_hour :: "int list"
  cf_dayOfMonth :: "int list"
  cf_month :: "int list"
  cf_dayOfWeek :: "int list"

definition parseCronExpression :: "string \<Rightarrow> cron_error + cron_fields" where
  "parseCronExpression expression =
     (case split_spaces (trim_text expression) of
        [p0, p1, p2, p3, p4] \<Rightarrow>
          (case parseCronField p0 0 59 of Inl e \<Rightarrow> Inl e
           | Inr minute \<Rightarrow> (case parseCronField p1 0 23 of Inl e \<Rightarrow> Inl e
             | Inr hour \<Rightarrow> (case parseCronField p2 1 31 of Inl e \<Rightarrow> Inl e
               | Inr dayOfMonth \<Rightarrow> (case parseCronField p3 1 12 of Inl e \<Rightarrow> Inl e
                 | Inr month \<Rightarrow> (case parseCronField p4 0 7 of Inl e \<Rightarrow> Inl e
                   | Inr dow \<Rightarrow> Inr \<lparr>cf_minute = minute, cf_hour = hour, cf_dayOfMonth = dayOfMonth, cf_month = month, cf_dayOfWeek = dow\<rparr>)))))
      | _ \<Rightarrow> Inl Unsupported_schedule)"

definition matchesCronFields :: "time_zone \<Rightarrow> int \<Rightarrow> cron_fields \<Rightarrow> bool" where
  "matchesCronFields z t cfs =
     (let day = getDay z t;
          dayMatches = (List.member (cf_dayOfWeek cfs) day \<or> day = 0 \<and> List.member (cf_dayOfWeek cfs) 7)
      in List.member (cf_minute cfs) (getMinutes z t) \<and> List.member (cf_hour cfs) (getHours z t)
         \<and> List.member (cf_dayOfMonth cfs) (getDate z t) \<and> List.member (cf_month cfs) (getMonth z t + 1) \<and> dayMatches)"

section \<open>The next run\<close>

definition ONE_SECOND_MS :: int where "ONE_SECOND_MS = 1000"
definition ONE_MINUTE_MS :: int where "ONE_MINUTE_MS = 60000"

text \<open>
  The search for a matching minute; a zone in which it does not end gives None, a search past the
  deadline Some None.
\<close>

partial_function (option) cron_search :: "time_zone \<Rightarrow> cron_fields \<Rightarrow> int \<Rightarrow> int \<Rightarrow> int option option" where
  [code]: "cron_search z cfs deadline candidate =
     (if candidate \<le> deadline then
        (if matchesCronFields z candidate cfs then Some (Some candidate)
         else cron_search z cfs deadline (next_minute z candidate))
      else Some None)"

definition nextCronRunAfter :: "time_zone \<Rightarrow> string \<Rightarrow> int \<Rightarrow> (cron_error + int) option" where
  "nextCronRunAfter z expression after =
     (case parseCronExpression expression of
        Inl e \<Rightarrow> Some (Inl e)
      | Inr cfs \<Rightarrow>
          (let candidate = next_minute z (clear_seconds z after);
               deadline = candidate + 366 * 24 * 60 * ONE_MINUTE_MS
           in case cron_search z cfs deadline candidate of
                None \<Rightarrow> None
              | Some (Some t) \<Rightarrow> Some (Inr t)
              | Some None \<Rightarrow> Some (Inl (No_match_within_a_year expression))))"

datatype schedule_kind = Once_schedule | Cron_schedule | Interval_schedule

record schedule =
  sc_kind :: schedule_kind
  sc_expression :: string
  sc_intervalMs :: "int option"

text \<open>\<open>Inr None\<close> is an undefined next run, an outer None a search that does not end.\<close>

definition nextRunAtForSchedule :: "time_zone \<Rightarrow> schedule \<Rightarrow> int \<Rightarrow> (cron_error + int option) option" where
  "nextRunAtForSchedule z sched after =
     (case sc_kind sched of
        Once_schedule \<Rightarrow> Some (Inr None)
      | Interval_schedule \<Rightarrow> (case sc_intervalMs sched of
            None \<Rightarrow> Some (Inl (Invalid_interval (sc_expression sched)))
          | Some ms \<Rightarrow> if ms \<le> 0 then Some (Inl (Invalid_interval (sc_expression sched))) else Some (Inr (Some (after + ms))))
      | Cron_schedule \<Rightarrow> map_option (map_sum id Some) (nextCronRunAfter z (sc_expression sched) after))"

section \<open>Parsing a schedule\<close>

definition stripMatchingQuotes :: "string \<Rightarrow> string" where
  "stripMatchingQuotes v =
     (if length v \<ge> 2 \<and> (hd v = CHR 34 \<and> last v = CHR 34 \<or> hd v = CHR 39 \<and> last v = CHR 39) then butlast (tl v) else v)"

definition normalizeCronAlias :: "string \<Rightarrow> string" where
  "normalizeCronAlias s =
     (if s = ''@hourly'' then ''0 * * * *''
      else if s = ''@daily'' then ''0 0 * * *''
      else if s = ''@weekly'' then ''0 0 * * 0''
      else if s = ''@monthly'' then ''0 0 1 * *''
      else s)"

text \<open>A keyword, white space, digits, optional white space and one of the units.\<close>

definition amount_and_unit :: "string list \<Rightarrow> string list \<Rightarrow> string \<Rightarrow> (int \<times> string) option" where
  "amount_and_unit keywords units s =
     (case find (\<lambda>k. to_lower (take (length k) s) = k) keywords of
        None \<Rightarrow> None
      | Some k \<Rightarrow>
          (let rest = drop (length k) s;
               digits_on = dropWhile js_space rest;
               digits = takeWhile is_digit digits_on;
               unit_text = to_lower (dropWhile js_space (dropWhile is_digit digits_on))
           in if rest \<noteq> digits_on \<and> digits \<noteq> [] \<and> List.member units unit_text
              then Some (parse_digits digits, unit_text) else None))"

definition MINUTE_UNITS :: "string list" where "MINUTE_UNITS = [''m'', ''min'', ''mins'', ''minute'', ''minutes'']"
definition HOUR_UNITS :: "string list" where "HOUR_UNITS = [''h'', ''hr'', ''hrs'', ''hour'', ''hours'']"
definition DAY_UNITS :: "string list" where "DAY_UNITS = [''d'', ''day'', ''days'']"
definition SECOND_UNITS :: "string list" where "SECOND_UNITS = [''s'', ''sec'', ''secs'', ''second'', ''seconds'']"

text \<open>\<open>parse_date\<close> is \<open>new Date(text)\<close>, None an invalid date.\<close>

definition parseAgentCronSchedule ::
  "time_zone \<Rightarrow> (string \<Rightarrow> int option) \<Rightarrow> string \<Rightarrow> int \<Rightarrow> (cron_error + schedule \<times> int) option" where
  "parseAgentCronSchedule z parse_date input now =
     (let s = stripMatchingQuotes (trim_text input) in
      if s = [] then Some (Inl Empty_schedule)
      else (case amount_and_unit [''in''] (MINUTE_UNITS @ HOUR_UNITS @ DAY_UNITS) s of
          Some (amount, unit_text) \<Rightarrow>
            (let multiplier = (if hd unit_text = CHR ''m'' then ONE_MINUTE_MS
                               else if hd unit_text = CHR ''h'' then 60 * ONE_MINUTE_MS else 24 * 60 * ONE_MINUTE_MS)
             in Some (Inr (\<lparr>sc_kind = Once_schedule, sc_expression = s, sc_intervalMs = None\<rparr>, now + amount * multiplier)))
        | None \<Rightarrow> (case amount_and_unit [''every'', ''each''] (SECOND_UNITS @ MINUTE_UNITS @ HOUR_UNITS) s of
            Some (amount, unit_text) \<Rightarrow>
              (let multiplier = (if hd unit_text = CHR ''s'' then ONE_SECOND_MS
                                 else if hd unit_text = CHR ''m'' then ONE_MINUTE_MS else 60 * ONE_MINUTE_MS);
                   intervalMs = amount * multiplier
               in if intervalMs < 10 * ONE_SECOND_MS then Some (Inl Interval_too_short)
                  else Some (Inr (\<lparr>sc_kind = Interval_schedule, sc_expression = s, sc_intervalMs = Some intervalMs\<rparr>, now + intervalMs)))
          | None \<Rightarrow>
              if take 3 (to_lower s) = ''at '' then
                (case parse_date (trim_text (drop 3 s)) of
                   None \<Rightarrow> Some (Inl Invalid_one_shot)
                 | Some t \<Rightarrow> if t \<le> now then Some (Inl One_shot_in_the_past)
                     else Some (Inr (\<lparr>sc_kind = Once_schedule, sc_expression = s, sc_intervalMs = None\<rparr>, t)))
              else
                (let expression = normalizeCronAlias s in
                 map_option (map_sum id (\<lambda>t. (\<lparr>sc_kind = Cron_schedule, sc_expression = expression, sc_intervalMs = None\<rparr>, t)))
                   (nextCronRunAfter z expression now)))))"

end
