(* ===== verification/Cron_Jobs.thy ===== *)
theory Cron_Jobs
  imports Cron_Schedule
begin

text \<open>
  The store of scheduled jobs and heartbeats: \<open>AgentCronJobStore\<close> and the steps of
  \<open>AgentCronScheduler\<close> in \<open>packages/coding-agent/src/core/cron-jobs.ts\<close>. A store holds one file of
  jobs, or one per registered session; a time text is the instant it stands for. Files are
  written without failure and under their locks.
\<close>

section \<open>Jobs\<close>

datatype job_status = Job_active | Job_paused | Job_completed | Job_cancelled
datatype job_source = From_cron | From_heartbeat | From_rlm_heartbeat
datatype runtime_kind = Top_level | Subagent
datatype delivery_mode = Deliver_steer | Deliver_follow_up

record cron_job =
  jb_id :: string
  jb_status :: job_status
  jb_source :: "job_source option"
  jb_runtimeKind :: "runtime_kind option"
  jb_deliveryMode :: "delivery_mode option"
  jb_activeSessionId :: string
  jb_sessionId :: string
  jb_sessionFile :: string
  jb_cwd :: string
  jb_label :: "string option"
  jb_prompt :: string
  jb_schedule :: schedule
  jb_createdAt :: int
  jb_updatedAt :: int
  jb_nextRunAt :: "int option"
  jb_lastRunAt :: "int option"
  jb_lastSkippedAt :: "int option"
  jb_lastError :: "string option"
  jb_runCount :: nat

record dispatch_record =
  dr_id :: string
  dr_jobId :: string
  dr_claimedAt :: int
  dr_scheduledFor :: int

record cron_state =
  cs_jobs :: "cron_job list"
  cs_dispatches :: "dispatch_record list"

record dispatch =
  di_id :: string
  di_job :: cron_job

record job_input =
  ji_activeSessionId :: string
  ji_sessionId :: string
  ji_sessionFile :: string
  ji_cwd :: string
  ji_label :: "string option"
  ji_prompt :: string
  ji_scheduleText :: string
  ji_source :: "job_source option"
  ji_runtimeKind :: "runtime_kind option"
  ji_deliveryMode :: "delivery_mode option"

text \<open>How a call ends: a search for a date that never ends, an error, or a value.\<close>

datatype store_error =
  Schedule_error cron_error | Prompt_empty | Not_recurring | Unregistered_session string | Dispatch_hook string

datatype 'a outcome = Diverges | Throws store_error | Returns 'a

definition and_then :: "'a outcome \<Rightarrow> ('a \<Rightarrow> 'b outcome) \<Rightarrow> 'b outcome" where
  "and_then r f = (case r of Diverges \<Rightarrow> Diverges | Throws e \<Rightarrow> Throws e | Returns v \<Rightarrow> f v)"

definition of_schedule :: "(cron_error + 'a) option \<Rightarrow> 'a outcome" where
  "of_schedule r = (case r of None \<Rightarrow> Diverges | Some (Inl e) \<Rightarrow> Throws (Schedule_error e) | Some (Inr v) \<Rightarrow> Returns v)"

fun map_outcome :: "('a \<Rightarrow> 'b outcome) \<Rightarrow> 'a list \<Rightarrow> 'b list outcome" where
  "map_outcome f [] = Returns []"
| "map_outcome f (x # xs) = and_then (f x) (\<lambda>y. and_then (map_outcome f xs) (\<lambda>ys. Returns (y # ys)))"

definition live :: "cron_job \<Rightarrow> bool" where
  "live job = (jb_status job = Job_active \<or> jb_status job = Job_paused)"

definition isHeartbeatCronJob :: "cron_job \<Rightarrow> bool" where
  "isHeartbeatCronJob job = (jb_source job = Some From_heartbeat \<or> jb_source job = Some From_rlm_heartbeat)"

definition isDueJob :: "cron_job \<Rightarrow> int \<Rightarrow> bool" where
  "isDueJob job now = (jb_status job = Job_active \<and> (case jb_nextRunAt job of Some t \<Rightarrow> t \<le> now | None \<Rightarrow> False))"

definition normalizeOptionalLabel :: "string option \<Rightarrow> string option" where
  "normalizeOptionalLabel label =
     (case label of None \<Rightarrow> None | Some l \<Rightarrow> if trim_text l = [] then None else Some (trim_text l))"

definition DEFAULT_HEARTBEAT_DELIVERY_MODE :: delivery_mode where
  "DEFAULT_HEARTBEAT_DELIVERY_MODE = Deliver_steer"

definition resolveHeartbeatStreamingBehavior :: "delivery_mode option \<Rightarrow> delivery_mode" where
  "resolveHeartbeatStreamingBehavior m = (case m of Some d \<Rightarrow> d | None \<Rightarrow> DEFAULT_HEARTBEAT_DELIVERY_MODE)"

record session_activity =
  sa_isStreaming :: bool
  sa_isCompacting :: bool
  sa_isRetrying :: bool
  sa_isBashRunning :: bool
  sa_hasPendingSessionWork :: bool
  sa_unfinishedActionCount :: nat

definition shouldDeferHeartbeatCronJob :: "cron_job \<Rightarrow> session_activity \<Rightarrow> bool" where
  "shouldDeferHeartbeatCronJob job activity =
     (if \<not> isHeartbeatCronJob job then False
      else
        (let busyBesidesStreaming = (sa_isCompacting activity \<or> sa_isRetrying activity \<or> sa_isBashRunning activity
               \<or> sa_hasPendingSessionWork activity \<or> \<not> sa_isStreaming activity \<and> sa_unfinishedActionCount activity > 0)
         in if busyBesidesStreaming then True
            else if resolveHeartbeatStreamingBehavior (jb_deliveryMode job) = Deliver_steer then False
            else sa_isStreaming activity))"

section \<open>Merging\<close>

definition isAtLeastAsFresh :: "cron_job \<Rightarrow> cron_job \<Rightarrow> bool" where
  "isAtLeastAsFresh candidate current = (jb_updatedAt candidate \<ge> jb_updatedAt current)"

text \<open>\<open>Map.set\<close> on jobs kept in order of their first insertion.\<close>

fun set_job :: "cron_job \<Rightarrow> cron_job list \<Rightarrow> cron_job list" where
  "set_job job [] = [job]"
| "set_job job (j # js) = (if jb_id j = jb_id job then job # js else j # set_job job js)"

definition job_with_id :: "string \<Rightarrow> cron_job list \<Rightarrow> cron_job option" where
  "job_with_id i js = find (\<lambda>j. jb_id j = i) js"

definition merge_job :: "cron_job \<Rightarrow> cron_job list \<Rightarrow> cron_job list" where
  "merge_job job merged =
     (case job_with_id (jb_id job) merged of
        None \<Rightarrow> set_job job merged
      | Some current \<Rightarrow> if isAtLeastAsFresh job current then set_job job merged else merged)"

definition mergeFreshJobs :: "cron_job list \<Rightarrow> cron_job list \<Rightarrow> cron_job list" where
  "mergeFreshJobs currentJobs nextJobs = fold merge_job nextJobs (fold set_job currentJobs [])"

section \<open>The store\<close>

text \<open>
  In session mode the files are those of the registered sessions, in the order of registration;
  otherwise there is one file and its key is not used.
\<close>

record cron_store =
  st_artifactMode :: bool
  st_paths :: "(string \<times> string) list"
  st_files :: "(string \<times> cron_state) list"

definition empty_state :: cron_state where
  "empty_state = \<lparr>cs_jobs = [], cs_dispatches = []\<rparr>"

definition forSessionArtifacts :: cron_store where
  "forSessionArtifacts = \<lparr>st_artifactMode = True, st_paths = [], st_files = []\<rparr>"

text \<open>
  \<open>on_disk\<close> is the content of the file at the path, empty where it is missing. A session that is
  registered with another path is moved to its file.
\<close>

definition registerSessionArtifact :: "string \<Rightarrow> string \<Rightarrow> cron_state \<Rightarrow> cron_store \<Rightarrow> bool \<times> cron_store" where
  "registerSessionArtifact sessionId path on_disk s =
     (if \<not> st_artifactMode s then (False, s)
      else if map_of (st_paths s) sessionId = Some path then (False, s)
      else (True, s\<lparr>st_paths := (sessionId, path) # st_paths s,
        st_files := (if map_of (st_files s) sessionId = None then st_files s @ [(sessionId, on_disk)]
                     else map (\<lambda>(k, st). if k = sessionId then (k, on_disk) else (k, st)) (st_files s))\<rparr>))"

definition readStates :: "cron_store \<Rightarrow> cron_state list" where
  "readStates s = map snd (st_files s)"

definition readJobs :: "cron_store \<Rightarrow> cron_job list" where
  "readJobs s = concat (map cs_jobs (readStates s))"

text \<open>The last of the incoming jobs with an id (\<open>new Map(...)\<close>).\<close>

definition incoming_job :: "cron_job list \<Rightarrow> string \<Rightarrow> cron_job option" where
  "incoming_job jobs i = job_with_id i (rev jobs)"

definition merged_session_jobs :: "cron_job list \<Rightarrow> string \<Rightarrow> cron_state \<Rightarrow> cron_job list" where
  "merged_session_jobs jobs sessionId current =
     (let retained = filter (\<lambda>job. case incoming_job jobs (jb_id job) of None \<Rightarrow> True | Some i \<Rightarrow> jb_sessionId i = sessionId) (cs_jobs current)
      in mergeFreshJobs retained (filter (\<lambda>job. jb_sessionId job = sessionId) jobs))"

text \<open>The session of a job after the merge; a later file wins.\<close>

definition session_of_job :: "(string \<times> cron_job list) list \<Rightarrow> string \<Rightarrow> string option" where
  "session_of_job merged i = map_option fst (find (\<lambda>(sid, js). job_with_id i js \<noteq> None) (rev merged))"

definition writeJobs :: "cron_job list \<Rightarrow> cron_store \<Rightarrow> cron_store outcome" where
  "writeJobs jobs s =
     (if st_artifactMode s then
        (case find (\<lambda>job. map_of (st_files s) (jb_sessionId job) = None) jobs of
           Some unregistered \<Rightarrow> Throws (Unregistered_session (jb_id unregistered))
         | None \<Rightarrow>
             (let merged = map (\<lambda>(sid, current). (sid, merged_session_jobs jobs sid current)) (st_files s);
                  dispatches = concat (map cs_dispatches (readStates s))
              in Returns (s\<lparr>st_files := map (\<lambda>(sid, js). (sid,
                   \<lparr>cs_jobs = js, cs_dispatches = filter (\<lambda>d. session_of_job merged (dr_jobId d) = Some sid) dispatches\<rparr>)) merged\<rparr>)))
      else
        (case st_files s of
           (k, current) # files \<Rightarrow>
             Returns (s\<lparr>st_files := (k, current\<lparr>cs_jobs := mergeFreshJobs (cs_jobs current) jobs\<rparr>) # files\<rparr>)
         | [] \<Rightarrow> Returns s))"

text \<open>
  \<open>mutateStates\<close>: file by file, each written before the next one is read; an error leaves the
  files before it written.
\<close>

fun mutate_files ::
  "(cron_state \<Rightarrow> (cron_state \<times> 'a list) outcome) \<Rightarrow> (string \<times> cron_state) list \<Rightarrow> (string \<times> cron_state) list \<times> 'a list outcome" where
  "mutate_files f [] = ([], Returns [])"
| "mutate_files f ((k, s) # files) =
     (case f s of
        Diverges \<Rightarrow> ((k, s) # files, Diverges)
      | Throws e \<Rightarrow> ((k, s) # files, Throws e)
      | Returns (s1, out) \<Rightarrow>
          (let (files1, r) = mutate_files f files in ((k, s1) # files1, and_then r (\<lambda>rest. Returns (out @ rest)))))"

definition mutateStates ::
  "(cron_state \<Rightarrow> (cron_state \<times> 'a list) outcome) \<Rightarrow> cron_store \<Rightarrow> cron_store \<times> 'a list outcome" where
  "mutateStates f s = (let (files, r) = mutate_files f (st_files s) in (s\<lparr>st_files := files\<rparr>, r))"

section \<open>Changing jobs\<close>

text \<open>\<open>readJobs().map(...)\<close> with the last job that was changed; nothing is written when none was.\<close>

definition update_jobs :: "(cron_job \<Rightarrow> bool) \<Rightarrow> (cron_job \<Rightarrow> cron_job) \<Rightarrow> cron_job list \<Rightarrow> cron_job list \<times> cron_job list" where
  "update_jobs p f jobs = (map (\<lambda>j. if p j then f j else j) jobs, map f (filter p jobs))"

definition last_changed :: "'a list \<Rightarrow> 'a option" where
  "last_changed xs = (if xs = [] then None else Some (last xs))"

definition write_changed :: "cron_job list \<times> cron_job list \<Rightarrow> cron_store \<Rightarrow> (cron_store \<times> cron_job list) outcome" where
  "write_changed changed s =
     (if snd changed = [] then Returns (s, []) else and_then (writeJobs (fst changed) s) (\<lambda>s1. Returns (s1, snd changed)))"

text \<open>The same for operations that return the last job they changed.\<close>

definition write_changed_one :: "cron_job list \<times> cron_job list \<Rightarrow> cron_store \<Rightarrow> (cron_store \<times> cron_job option) outcome" where
  "write_changed_one changed s = and_then (write_changed changed s) (\<lambda>(s1, js). Returns (s1, last_changed js))"

definition stop_job :: "job_status \<Rightarrow> int \<Rightarrow> cron_job \<Rightarrow> cron_job" where
  "stop_job status now job = job\<lparr>jb_status := status, jb_nextRunAt := None, jb_updatedAt := now\<rparr>"

definition compareOptionalIso_key :: "cron_job \<Rightarrow> bool \<times> int" where
  "compareOptionalIso_key job = (case jb_nextRunAt job of Some t \<Rightarrow> (False, t) | None \<Rightarrow> (True, 0))"

fun insert_by_run :: "cron_job \<Rightarrow> cron_job list \<Rightarrow> cron_job list" where
  "insert_by_run job [] = [job]"
| "insert_by_run job (j # js) =
     (let (a, t) = compareOptionalIso_key job; (b, u) = compareOptionalIso_key j in
      if b \<and> \<not> a \<or> a = b \<and> t \<le> u then job # j # js else j # insert_by_run job js)"

definition list_jobs :: "cron_store \<Rightarrow> cron_job list" where
  "list_jobs s = foldr insert_by_run (readJobs s) []"

definition new_job :: "string \<Rightarrow> int \<Rightarrow> job_input \<Rightarrow> job_source option \<Rightarrow> delivery_mode option \<Rightarrow> string \<Rightarrow> schedule \<times> int \<Rightarrow> cron_job" where
  "new_job uuid now input source delivery prompt parsed =
     \<lparr>jb_id = uuid, jb_status = Job_active, jb_source = source, jb_runtimeKind = ji_runtimeKind input, jb_deliveryMode = delivery,
      jb_activeSessionId = ji_activeSessionId input, jb_sessionId = ji_sessionId input, jb_sessionFile = ji_sessionFile input,
      jb_cwd = ji_cwd input, jb_label = normalizeOptionalLabel (ji_label input), jb_prompt = prompt, jb_schedule = fst parsed,
      jb_createdAt = now, jb_updatedAt = now, jb_nextRunAt = Some (snd parsed), jb_lastRunAt = None, jb_lastSkippedAt = None,
      jb_lastError = None, jb_runCount = 0\<rparr>"

text \<open>\<open>uuid\<close> is the random id that is drawn, \<open>parse_date\<close> the reading of dates.\<close>

definition create_job ::
  "time_zone \<Rightarrow> (string \<Rightarrow> int option) \<Rightarrow> string \<Rightarrow> int \<Rightarrow> job_input \<Rightarrow> cron_store \<Rightarrow> (cron_store \<times> cron_job) outcome" where
  "create_job z parse_date uuid now input s =
     (let prompt = trim_text (ji_prompt input) in
      if prompt = [] then Throws Prompt_empty
      else and_then (of_schedule (parseAgentCronSchedule z parse_date (ji_scheduleText input) now)) (\<lambda>parsed.
        let job = new_job uuid now input (Some (case ji_source input of Some x \<Rightarrow> x | None \<Rightarrow> From_cron)) None prompt parsed
        in and_then (writeJobs (readJobs s @ [job]) s) (\<lambda>s1. Returns (s1, job))))"

definition recurring :: "schedule \<Rightarrow> bool" where
  "recurring sched = (sc_kind sched \<noteq> Once_schedule)"

definition createHeartbeat ::
  "time_zone \<Rightarrow> (string \<Rightarrow> int option) \<Rightarrow> string \<Rightarrow> int \<Rightarrow> job_input \<Rightarrow> cron_store \<Rightarrow> (cron_store \<times> cron_job) outcome" where
  "createHeartbeat z parse_date uuid now input s =
     and_then (of_schedule (parseAgentCronSchedule z parse_date (ji_scheduleText input) now)) (\<lambda>parsed.
       if \<not> recurring (fst parsed) then Throws Not_recurring
       else
         (let existing = map (\<lambda>job. if jb_activeSessionId job = ji_activeSessionId input \<and> jb_source job = Some From_heartbeat \<and> live job
                then stop_job Job_cancelled now job else job) (readJobs s);
              prompt = trim_text (ji_prompt input)
          in if prompt = [] then Throws Prompt_empty
             else
               (let job = new_job uuid now input (Some From_heartbeat)
                      (Some (case ji_deliveryMode input of Some d \<Rightarrow> d | None \<Rightarrow> DEFAULT_HEARTBEAT_DELIVERY_MODE)) prompt parsed
                in and_then (writeJobs (existing @ [job]) s) (\<lambda>s1. Returns (s1, job)))))"

definition createRlmHeartbeat ::
  "time_zone \<Rightarrow> (string \<Rightarrow> int option) \<Rightarrow> string \<Rightarrow> int \<Rightarrow> job_input \<Rightarrow> cron_store \<Rightarrow> (cron_store \<times> cron_job) outcome" where
  "createRlmHeartbeat z parse_date uuid now input s =
     and_then (of_schedule (parseAgentCronSchedule z parse_date (ji_scheduleText input) now)) (\<lambda>parsed.
       if \<not> recurring (fst parsed) then Throws Not_recurring
       else
         (let prompt = trim_text (ji_prompt input) in
          if prompt = [] then Throws Prompt_empty
          else
            (let job = new_job uuid now input (Some From_rlm_heartbeat)
                   (Some (case ji_deliveryMode input of Some d \<Rightarrow> d | None \<Rightarrow> DEFAULT_HEARTBEAT_DELIVERY_MODE)) prompt parsed
             in and_then (writeJobs (readJobs s @ [job]) s) (\<lambda>s1. Returns (s1, job)))))"

text \<open>\<open>resolve_path\<close> makes a path absolute.\<close>

definition rebindSessionJobs ::
  "(string \<Rightarrow> string) \<Rightarrow> string \<Rightarrow> string \<Rightarrow> string \<Rightarrow> string \<Rightarrow> cron_store \<Rightarrow> (cron_store \<times> cron_job list) outcome" where
  "rebindSessionJobs resolve_path activeSessionId sessionId sessionFile cwd s =
     (let target = resolve_path sessionFile in
      write_changed (update_jobs
        (\<lambda>job. \<not> (jb_activeSessionId job \<noteq> activeSessionId \<and> resolve_path (jb_sessionFile job) \<noteq> target)
           \<and> \<not> (jb_activeSessionId job = activeSessionId \<and> jb_sessionId job = sessionId
                \<and> resolve_path (jb_sessionFile job) = target \<and> jb_cwd job = cwd))
        (\<lambda>job. job\<lparr>jb_activeSessionId := activeSessionId, jb_sessionId := sessionId, jb_sessionFile := sessionFile, jb_cwd := cwd\<rparr>)
        (readJobs s)) s)"

definition getHeartbeat :: "string \<Rightarrow> cron_store \<Rightarrow> cron_job option" where
  "getHeartbeat activeSessionId s =
     (case sort_key (\<lambda>job. - jb_updatedAt job)
        (filter (\<lambda>job. jb_activeSessionId job = activeSessionId \<and> jb_source job = Some From_heartbeat \<and> live job) (readJobs s)) of
        [] \<Rightarrow> None | job # _ \<Rightarrow> Some job)"

definition getLatestHeartbeat :: "string \<Rightarrow> cron_store \<Rightarrow> cron_job option" where
  "getLatestHeartbeat activeSessionId s =
     (case sort_key (\<lambda>job. - jb_updatedAt job)
        (filter (\<lambda>job. jb_activeSessionId job = activeSessionId \<and> jb_source job = Some From_heartbeat) (readJobs s)) of
        [] \<Rightarrow> None | job # _ \<Rightarrow> Some job)"

definition listRlmHeartbeats :: "string \<Rightarrow> bool \<Rightarrow> cron_store \<Rightarrow> cron_job list" where
  "listRlmHeartbeats activeSessionId includeInactive s =
     foldr insert_by_run (filter (\<lambda>job. jb_activeSessionId job = activeSessionId \<and> jb_source job = Some From_rlm_heartbeat
        \<and> (includeInactive \<or> live job)) (readJobs s)) []"

datatype status_update = Update_pause | Update_resume

record heartbeat_update =
  hu_label :: "string option"
  hu_prompt :: "string option"
  hu_scheduleText :: "string option"
  hu_status :: "status_update option"
  hu_deliveryMode :: "delivery_mode option"

definition reschedule ::
  "time_zone \<Rightarrow> (string \<Rightarrow> int option) \<Rightarrow> string \<Rightarrow> int \<Rightarrow> cron_job \<Rightarrow> cron_job outcome" where
  "reschedule z parse_date scheduleText now job =
     and_then (of_schedule (parseAgentCronSchedule z parse_date scheduleText now)) (\<lambda>parsed.
       if \<not> recurring (fst parsed) then Throws Not_recurring
       else Returns (if jb_status job = Job_paused then job\<lparr>jb_schedule := fst parsed, jb_nextRunAt := None\<rparr>
                     else job\<lparr>jb_schedule := fst parsed, jb_nextRunAt := Some (snd parsed)\<rparr>))"

definition resume_job :: "time_zone \<Rightarrow> int \<Rightarrow> cron_job \<Rightarrow> cron_job outcome" where
  "resume_job z now job =
     and_then (of_schedule (nextRunAtForSchedule z (jb_schedule job) now)) (\<lambda>nextRunAt.
       case nextRunAt of None \<Rightarrow> Throws Not_recurring
       | Some t \<Rightarrow> Returns (job\<lparr>jb_status := Job_active, jb_nextRunAt := Some t\<rparr>))"

definition update_heartbeat ::
  "time_zone \<Rightarrow> (string \<Rightarrow> int option) \<Rightarrow> heartbeat_update \<Rightarrow> int \<Rightarrow> cron_job \<Rightarrow> cron_job outcome" where
  "update_heartbeat z parse_date u now job =
     (let job1 = (case hu_label u of Some l \<Rightarrow> job\<lparr>jb_label := normalizeOptionalLabel (Some l)\<rparr> | None \<Rightarrow> job);
          job2 = (case hu_deliveryMode u of Some d \<Rightarrow> job1\<lparr>jb_deliveryMode := Some d\<rparr> | None \<Rightarrow> job1)
      in and_then (case hu_prompt u of
             Some p \<Rightarrow> if trim_text p = [] then Throws Prompt_empty else Returns (job2\<lparr>jb_prompt := trim_text p\<rparr>)
           | None \<Rightarrow> Returns job2)
         (\<lambda>job3. and_then (case hu_scheduleText u of Some x \<Rightarrow> reschedule z parse_date x now job3 | None \<Rightarrow> Returns job3)
         (\<lambda>job4. and_then (case hu_status u of
               Some Update_pause \<Rightarrow> Returns (job4\<lparr>jb_status := Job_paused, jb_nextRunAt := None\<rparr>)
             | Some Update_resume \<Rightarrow> resume_job z now job4
             | None \<Rightarrow> Returns job4)
         (\<lambda>job5. Returns (job5\<lparr>jb_updatedAt := now\<rparr>)))))"

text \<open>A change that may fail, on the jobs a predicate selects.\<close>

definition update_or_throw ::
  "(cron_job \<Rightarrow> bool) \<Rightarrow> (cron_job \<Rightarrow> cron_job outcome) \<Rightarrow> cron_store \<Rightarrow> (cron_store \<times> cron_job option) outcome" where
  "update_or_throw p f s =
     and_then (map_outcome (\<lambda>job. if p job then and_then (f job) (\<lambda>j. Returns (j, True)) else Returns (job, False)) (readJobs s)) (\<lambda>rs.
       let updated = map fst (filter snd rs) in
       if updated = [] then Returns (s, None)
       else and_then (writeJobs (map fst rs) s) (\<lambda>s1. Returns (s1, last_changed updated)))"

definition ended :: "cron_job \<Rightarrow> bool" where
  "ended job = (jb_status job = Job_cancelled \<or> jb_status job = Job_completed)"

definition updateRlmHeartbeat ::
  "time_zone \<Rightarrow> (string \<Rightarrow> int option) \<Rightarrow> string \<Rightarrow> string \<Rightarrow> heartbeat_update \<Rightarrow> int
    \<Rightarrow> cron_store \<Rightarrow> (cron_store \<times> cron_job option) outcome" where
  "updateRlmHeartbeat z parse_date activeSessionId i u now s =
     update_or_throw (\<lambda>job. jb_id job = i \<and> jb_activeSessionId job = activeSessionId \<and> jb_source job = Some From_rlm_heartbeat \<and> \<not> ended job)
       (update_heartbeat z parse_date u now) s"

definition deleteRlmHeartbeat :: "string \<Rightarrow> string \<Rightarrow> int \<Rightarrow> cron_store \<Rightarrow> (cron_store \<times> cron_job option) outcome" where
  "deleteRlmHeartbeat activeSessionId i now s =
     write_changed_one (update_jobs (\<lambda>job. jb_id job = i \<and> jb_activeSessionId job = activeSessionId \<and> jb_source job = Some From_rlm_heartbeat)
       (stop_job Job_cancelled now) (readJobs s)) s"

definition cancelRlmHeartbeatsForSession :: "string \<Rightarrow> int \<Rightarrow> cron_store \<Rightarrow> (cron_store \<times> cron_job list) outcome" where
  "cancelRlmHeartbeatsForSession activeSessionId now s =
     write_changed (update_jobs (\<lambda>job. jb_activeSessionId job = activeSessionId \<and> jb_source job = Some From_rlm_heartbeat \<and> live job)
       (stop_job Job_cancelled now) (readJobs s)) s"

definition cancelJobsForSession ::
  "(string \<Rightarrow> string) \<Rightarrow> string option \<Rightarrow> string option \<Rightarrow> string option \<Rightarrow> int \<Rightarrow> cron_store \<Rightarrow> (cron_store \<times> cron_job list) outcome" where
  "cancelJobsForSession resolve_path activeSessionId sessionId sessionFile now s =
     (let target = (case sessionFile of Some f \<Rightarrow> if f = [] then None else Some (resolve_path f) | None \<Rightarrow> None) in
      write_changed (update_jobs
        (\<lambda>job. (activeSessionId = Some (jb_activeSessionId job) \<or> sessionId = Some (jb_sessionId job)
            \<or> target = Some (resolve_path (jb_sessionFile job))) \<and> live job)
        (stop_job Job_cancelled now) (readJobs s)) s)"

text \<open>The operations on the heartbeat of a session; a heartbeat that was found is always written.\<close>

definition write_heartbeat :: "(cron_job \<Rightarrow> cron_job) \<Rightarrow> cron_job \<Rightarrow> cron_store \<Rightarrow> (cron_store \<times> cron_job option) outcome" where
  "write_heartbeat f current s =
     (let changed = update_jobs (\<lambda>job. jb_id job = jb_id current) f (readJobs s)
      in and_then (writeJobs (fst changed) s) (\<lambda>s1. Returns (s1, last_changed (snd changed))))"

definition pauseHeartbeat :: "string \<Rightarrow> int \<Rightarrow> cron_store \<Rightarrow> (cron_store \<times> cron_job option) outcome" where
  "pauseHeartbeat activeSessionId now s =
     (case getHeartbeat activeSessionId s of None \<Rightarrow> Returns (s, None)
      | Some current \<Rightarrow> write_heartbeat (stop_job Job_paused now) current s)"

definition resumeHeartbeat :: "time_zone \<Rightarrow> string \<Rightarrow> int \<Rightarrow> cron_store \<Rightarrow> (cron_store \<times> cron_job option) outcome" where
  "resumeHeartbeat z activeSessionId now s =
     (case getHeartbeat activeSessionId s of None \<Rightarrow> Returns (s, None)
      | Some current \<Rightarrow>
          and_then (of_schedule (nextRunAtForSchedule z (jb_schedule current) now)) (\<lambda>nextRunAt.
            case nextRunAt of None \<Rightarrow> Throws Not_recurring
            | Some t \<Rightarrow> write_heartbeat (\<lambda>job. job\<lparr>jb_status := Job_active, jb_nextRunAt := Some t, jb_updatedAt := now\<rparr>) current s))"

definition clearHeartbeat :: "string \<Rightarrow> int \<Rightarrow> cron_store \<Rightarrow> (cron_store \<times> cron_job option) outcome" where
  "clearHeartbeat activeSessionId now s =
     (case getHeartbeat activeSessionId s of None \<Rightarrow> Returns (s, None)
      | Some current \<Rightarrow> write_heartbeat (stop_job Job_cancelled now) current s)"

datatype management_action = Manage_pause | Manage_resume | Manage_stop

definition manageHeartbeat ::
  "time_zone \<Rightarrow> string \<Rightarrow> string \<Rightarrow> management_action \<Rightarrow> int \<Rightarrow> cron_store \<Rightarrow> (cron_store \<times> cron_job option) outcome" where
  "manageHeartbeat z activeSessionId i act now s =
     update_or_throw (\<lambda>job. jb_id job = i \<and> jb_activeSessionId job = activeSessionId \<and> isHeartbeatCronJob job \<and> \<not> ended job)
       (\<lambda>job. case act of
            Manage_pause \<Rightarrow> Returns (stop_job Job_paused now job)
          | Manage_stop \<Rightarrow> Returns (stop_job Job_cancelled now job)
          | Manage_resume \<Rightarrow> and_then (resume_job z now job) (\<lambda>j. Returns (j\<lparr>jb_updatedAt := now\<rparr>))) s"

definition cancel_job :: "string \<Rightarrow> int \<Rightarrow> cron_store \<Rightarrow> (cron_store \<times> cron_job option) outcome" where
  "cancel_job i now s =
     write_changed_one (update_jobs (\<lambda>job. jb_id job = i \<and> jb_status job \<noteq> Job_cancelled) (stop_job Job_cancelled now) (readJobs s)) s"

section \<open>Runs\<close>

definition recordRunResult ::
  "time_zone \<Rightarrow> string \<Rightarrow> int \<Rightarrow> string option \<Rightarrow> cron_store \<Rightarrow> (cron_store \<times> cron_job option) outcome" where
  "recordRunResult z i now err s =
     update_or_throw (\<lambda>job. jb_id job = i)
       (\<lambda>job. if jb_status job \<noteq> Job_active then Returns job
          else and_then (case sc_kind (jb_schedule job) of
                Cron_schedule \<Rightarrow> of_schedule (nextRunAtForSchedule z (jb_schedule job) (now + 1))
              | Interval_schedule \<Rightarrow> of_schedule (nextRunAtForSchedule z (jb_schedule job) now)
              | Once_schedule \<Rightarrow> Returns None)
            (\<lambda>nextRunAt. Returns (job\<lparr>jb_status := (if recurring (jb_schedule job) then Job_active else Job_completed),
               jb_nextRunAt := nextRunAt, jb_lastRunAt := Some now, jb_lastError := err, jb_runCount := jb_runCount job + 1,
               jb_updatedAt := now\<rparr>))) s"

definition recordSkipResult :: "time_zone \<Rightarrow> string \<Rightarrow> int \<Rightarrow> cron_store \<Rightarrow> (cron_store \<times> cron_job option) outcome" where
  "recordSkipResult z i now s =
     update_or_throw (\<lambda>job. jb_id job = i)
       (\<lambda>job. if jb_status job \<noteq> Job_active then Returns job
          else and_then (of_schedule (nextRunAtForSchedule z (jb_schedule job) now))
            (\<lambda>nextRunAt. Returns (job\<lparr>jb_nextRunAt := nextRunAt, jb_lastSkippedAt := Some now, jb_updatedAt := now\<rparr>))) s"

definition due :: "int \<Rightarrow> cron_store \<Rightarrow> cron_job list" where
  "due now s = filter (\<lambda>job. isDueJob job now) (readJobs s)"

definition getDueJob :: "string \<Rightarrow> int \<Rightarrow> cron_store \<Rightarrow> cron_job option" where
  "getDueJob i now s = find (\<lambda>job. jb_id job = i \<and> isDueJob job now) (readJobs s)"

text \<open>\<open>new_id\<close> is the random id of the dispatch that a job gets.\<close>

definition claim_one ::
  "time_zone \<Rightarrow> (string \<Rightarrow> string) \<Rightarrow> int \<Rightarrow> int \<Rightarrow> string list \<Rightarrow> cron_job \<Rightarrow> (cron_job \<times> (dispatch_record \<times> dispatch) option) outcome" where
  "claim_one z new_id dueAt claimedAt claimedJobIds job =
     (if \<not> isDueJob job dueAt then Returns (job, None)
      else and_then (of_schedule (nextRunAtForSchedule z (jb_schedule job) claimedAt)) (\<lambda>nextRunAt.
        let advanced = job\<lparr>jb_nextRunAt := nextRunAt, jb_updatedAt := claimedAt\<rparr> in
        if List.member claimedJobIds (jb_id job) then Returns (advanced\<lparr>jb_lastSkippedAt := Some claimedAt\<rparr>, None)
        else Returns (advanced, Some
          (\<lparr>dr_id = new_id (jb_id job), dr_jobId = jb_id job, dr_claimedAt = claimedAt, dr_scheduledFor = the (jb_nextRunAt job)\<rparr>,
           \<lparr>di_id = new_id (jb_id job), di_job = advanced\<rparr>))))"

definition claimDueInState ::
  "time_zone \<Rightarrow> (string \<Rightarrow> string) \<Rightarrow> int \<Rightarrow> int \<Rightarrow> cron_state \<Rightarrow> (cron_state \<times> dispatch list) outcome" where
  "claimDueInState z new_id dueAt claimedAt state =
     and_then (map_outcome (claim_one z new_id dueAt claimedAt (map dr_jobId (cs_dispatches state))) (cs_jobs state)) (\<lambda>rs.
       let claims = List.map_filter snd rs in
       Returns (\<lparr>cs_jobs = map fst rs, cs_dispatches = cs_dispatches state @ map fst claims\<rparr>, map snd claims))"

definition claimDue ::
  "time_zone \<Rightarrow> (string \<Rightarrow> string) \<Rightarrow> int \<Rightarrow> int \<Rightarrow> cron_store \<Rightarrow> cron_store \<times> dispatch list outcome" where
  "claimDue z new_id dueAt claimedAt s = mutateStates (claimDueInState z new_id dueAt claimedAt) s"

definition claimed_in :: "string \<Rightarrow> cron_state \<Rightarrow> bool" where
  "claimed_in i state = list_ex (\<lambda>d. dr_jobId d = i) (cs_dispatches state)"

definition getClaimedJob :: "string \<Rightarrow> cron_store \<Rightarrow> cron_job option" where
  "getClaimedJob i s =
     (case find (claimed_in i) (readStates s) of
        None \<Rightarrow> None
      | Some state \<Rightarrow> find (\<lambda>job. jb_id job = i \<and> jb_status job = Job_active) (cs_jobs state))"

datatype run_result = Job_ran | Job_skipped

definition finish_job :: "time_zone \<Rightarrow> int \<Rightarrow> run_result \<Rightarrow> string option \<Rightarrow> cron_job \<Rightarrow> cron_job outcome" where
  "finish_job z now result err job =
     (let status = (if recurring (jb_schedule job) then jb_status job else Job_completed) in
      if result = Job_skipped \<and> err = None then
        and_then (of_schedule (nextRunAtForSchedule z (jb_schedule job) now)) (\<lambda>nextRunAt.
          Returns (job\<lparr>jb_status := status, jb_nextRunAt := nextRunAt, jb_lastSkippedAt := Some now, jb_updatedAt := now\<rparr>))
      else Returns (job\<lparr>jb_status := status, jb_lastRunAt := Some now, jb_lastError := err, jb_runCount := jb_runCount job + 1,
              jb_updatedAt := now\<rparr>))"

definition finish_dispatch ::
  "time_zone \<Rightarrow> string \<Rightarrow> int \<Rightarrow> run_result \<Rightarrow> string option \<Rightarrow> cron_state \<Rightarrow> (cron_state \<times> cron_job list) outcome" where
  "finish_dispatch z dispatchId now result err state =
     (case find (\<lambda>d. dr_id d = dispatchId) (cs_dispatches state) of
        None \<Rightarrow> Returns (state, [])
      | Some d \<Rightarrow>
          and_then (map_outcome (\<lambda>job. if jb_id job \<noteq> dr_jobId d \<or> jb_status job \<noteq> Job_active then Returns (job, False)
                 else and_then (finish_job z now result err job) (\<lambda>j. Returns (j, True))) (cs_jobs state))
            (\<lambda>rs. Returns (\<lparr>cs_jobs = map fst rs, cs_dispatches = filter (\<lambda>c. dr_id c \<noteq> dispatchId) (cs_dispatches state)\<rparr>,
                map fst (filter snd rs))))"

definition recordDispatchResult ::
  "time_zone \<Rightarrow> string \<Rightarrow> int \<Rightarrow> run_result \<Rightarrow> string option \<Rightarrow> cron_store \<Rightarrow> cron_store \<times> cron_job list outcome" where
  "recordDispatchResult z dispatchId now result err s = mutateStates (finish_dispatch z dispatchId now result err) s"

definition INTERRUPTED :: string where
  "INTERRUPTED = ''Interrupted before scheduled operation completion''"

definition interrupt_job :: "int \<Rightarrow> cron_job \<Rightarrow> cron_job" where
  "interrupt_job now job = job\<lparr>jb_status := (if recurring (jb_schedule job) then jb_status job else Job_completed),
     jb_lastError := Some INTERRUPTED, jb_updatedAt := now\<rparr>"

text \<open>All dispatches of the state when no ids are given.\<close>

definition recoverInterruptedInState :: "int \<Rightarrow> string list option \<Rightarrow> cron_state \<Rightarrow> cron_state \<times> cron_job list" where
  "recoverInterruptedInState now dispatchIds state =
     (let interrupted = (case dispatchIds of Some ids \<Rightarrow> filter (\<lambda>d. List.member ids (dr_id d)) (cs_dispatches state) | None \<Rightarrow> cs_dispatches state) in
      if interrupted = [] then (state, [])
      else
        (let interruptedIds = map dr_jobId interrupted;
             hit = (\<lambda>job. List.member interruptedIds (jb_id job) \<and> jb_status job = Job_active)
         in (\<lparr>cs_jobs = map (\<lambda>job. if hit job then interrupt_job now job else job) (cs_jobs state),
              cs_dispatches = (case dispatchIds of Some ids \<Rightarrow> filter (\<lambda>d. \<not> List.member ids (dr_id d)) (cs_dispatches state) | None \<Rightarrow> [])\<rparr>,
             map (interrupt_job now) (filter hit (cs_jobs state)))))"

definition recoverInterruptedDispatches :: "int \<Rightarrow> cron_store \<Rightarrow> cron_store \<times> cron_job list outcome" where
  "recoverInterruptedDispatches now s = mutateStates (\<lambda>state. Returns (recoverInterruptedInState now None state)) s"

definition recoverInterruptedDispatchesById :: "string list \<Rightarrow> int \<Rightarrow> cron_store \<Rightarrow> cron_store \<times> cron_job list outcome" where
  "recoverInterruptedDispatchesById ids now s = mutateStates (\<lambda>state. Returns (recoverInterruptedInState now (Some ids) state)) s"

definition recoverSessionArtifact :: "string \<Rightarrow> int \<Rightarrow> cron_store \<Rightarrow> cron_store \<times> cron_job list" where
  "recoverSessionArtifact sessionId now s =
     (case map_of (st_files s) sessionId of
        None \<Rightarrow> (s, [])
      | Some state \<Rightarrow>
          (let (state1, recovered) = recoverInterruptedInState now None state
           in (s\<lparr>st_files := map (\<lambda>(k, c). if k = sessionId then (k, state1) else (k, c)) (st_files s)\<rparr>, recovered)))"

definition nextActiveRunAt :: "cron_store \<Rightarrow> int option" where
  "nextActiveRunAt s =
     (case sort (List.map_filter jb_nextRunAt (filter (\<lambda>job. jb_status job = Job_active) (readJobs s))) of
        [] \<Rightarrow> None | t # _ \<Rightarrow> Some t)"

section \<open>The scheduler\<close>

definition MAX_TIMEOUT_MS :: int where "MAX_TIMEOUT_MS = 2147483647"

text \<open>The delay \<open>scheduleNext\<close> sets its timer to.\<close>

definition next_delay :: "int option \<Rightarrow> int \<Rightarrow> cron_store \<Rightarrow> int option" where
  "next_delay delayMs now s =
     (case (case delayMs of Some d \<Rightarrow> Some d | None \<Rightarrow> map_option (\<lambda>t. max 0 (t - now)) (nextActiveRunAt s)) of
        None \<Rightarrow> None | Some d \<Rightarrow> Some (min d MAX_TIMEOUT_MS))"

text \<open>The timer is the delay it was set to.\<close>

record cron_scheduler =
  sd_timer :: "int option"
  sd_running :: bool
  sd_stopped :: bool
  sd_hasStarted :: bool

definition scheduleNext :: "int option \<Rightarrow> int \<Rightarrow> cron_store \<Rightarrow> cron_scheduler \<Rightarrow> cron_scheduler" where
  "scheduleNext delayMs now s sd = sd\<lparr>sd_timer := next_delay delayMs now s\<rparr>"

definition start_scheduler :: "int \<Rightarrow> cron_store \<Rightarrow> cron_scheduler \<Rightarrow> cron_store \<times> cron_scheduler" where
  "start_scheduler now s sd =
     (let s1 = (if sd_hasStarted sd then s else fst (recoverInterruptedDispatches now s))
      in (s1, scheduleNext None now s1 (sd\<lparr>sd_stopped := False, sd_hasStarted := True\<rparr>)))"

definition stop_scheduler :: "cron_scheduler \<Rightarrow> cron_scheduler" where
  "stop_scheduler sd = sd\<lparr>sd_stopped := True, sd_timer := None\<rparr>"

definition wake :: "int \<Rightarrow> cron_store \<Rightarrow> cron_scheduler \<Rightarrow> cron_scheduler" where
  "wake now s sd = (if sd_stopped sd then sd else scheduleNext (Some 0) now s sd)"

definition reschedule_unless_stopped :: "int \<Rightarrow> cron_store \<Rightarrow> cron_scheduler \<Rightarrow> cron_scheduler" where
  "reschedule_unless_stopped now s sd = (if sd_stopped sd then sd else scheduleNext None now s sd)"

text \<open>
  \<open>runDue\<close> up to the queueing of the dispatches it returns; \<open>begin_dispatch\<close> is the hook of that
  name, with the error it throws. The clock does not move in between.
\<close>

definition runDue ::
  "time_zone \<Rightarrow> (string \<Rightarrow> string) \<Rightarrow> (dispatch \<Rightarrow> string option) \<Rightarrow> int \<Rightarrow> int \<Rightarrow> cron_store \<Rightarrow> cron_scheduler
    \<Rightarrow> cron_store \<times> cron_scheduler \<times> dispatch list outcome" where
  "runDue z new_id begin_dispatch dueAt now s sd =
     (if sd_running sd \<or> sd_stopped sd \<and> sd_hasStarted sd then (s, sd, Returns [])
      else
        (let (s1, r) = claimDue z new_id dueAt now s in
         case r of
           Returns claimed \<Rightarrow>
             (case List.map_filter begin_dispatch claimed of
                [] \<Rightarrow> (s1, reschedule_unless_stopped now s1 sd, Returns claimed)
              | e # _ \<Rightarrow>
                  (let s2 = fst (recoverInterruptedDispatchesById (map di_id claimed) now s1)
                   in (s2, reschedule_unless_stopped now s2 sd, Throws (Dispatch_hook e))))
         | Throws e \<Rightarrow> (s1, reschedule_unless_stopped now s1 sd, Throws e)
         | Diverges \<Rightarrow> (s1, sd, Diverges)))"

text \<open>
  The task of a dispatch. It starts by looking the job up again, and ends there when it is gone;
  else the job is run, while the store may change, and at the end its result is recorded.
\<close>

definition dispatch_starts ::
  "time_zone \<Rightarrow> int \<Rightarrow> dispatch \<Rightarrow> cron_store \<Rightarrow> (cron_store \<times> cron_job list outcome) + cron_job" where
  "dispatch_starts z now d s =
     (case getClaimedJob (jb_id (di_job d)) s of
        None \<Rightarrow> Inl (recordDispatchResult z (di_id d) now Job_skipped None s)
      | Some job \<Rightarrow> Inr job)"

definition dispatch_ends ::
  "time_zone \<Rightarrow> int \<Rightarrow> dispatch \<Rightarrow> string + run_result option \<Rightarrow> cron_store \<Rightarrow> cron_store \<times> cron_job list outcome" where
  "dispatch_ends z now d result s =
     recordDispatchResult z (di_id d) now
       (if result = Inr (Some Job_skipped) then Job_skipped else Job_ran)
       (case result of Inl e \<Rightarrow> Some e | Inr _ \<Rightarrow> None) s"

end
