(* ===== verification/Cron_Invariant.thy ===== *)
theory Cron_Invariant
  imports Cron_Jobs
begin

text \<open>
  The invariant of the store of scheduled jobs: what the merge of jobs and the operations of
  \<open>Cron_Jobs\<close> keep, as a step relation over stores.
\<close>

section \<open>Merging\<close>

lemma ids_set_job: "jb_id ` set (set_job job js) = insert (jb_id job) (jb_id ` set js)"
  by (induction js) auto

lemma distinct_set_job: "distinct (map jb_id js) \<Longrightarrow> distinct (map jb_id (set_job job js))"
proof (induction js)
  case (Cons j js)
  then show ?case using ids_set_job [of job js] by (cases "jb_id j = jb_id job") auto
qed simp

lemma set_set_job: "set (set_job job js) \<subseteq> insert job (set js)"
  by (induction js) auto

lemma job_with_id_None: "job_with_id i js = None \<longleftrightarrow> i \<notin> jb_id ` set js"
  by (auto simp: job_with_id_def find_None_iff)

lemma job_with_id_Some: "job_with_id i js = Some j \<Longrightarrow> j \<in> set js \<and> jb_id j = i"
  by (auto simp: job_with_id_def find_Some_iff)

lemma ids_merge_job: "jb_id ` set (merge_job job js) = insert (jb_id job) (jb_id ` set js)"
  by (auto simp: merge_job_def ids_set_job split: option.splits dest!: job_with_id_Some intro: rev_image_eqI)

lemma distinct_merge_job: "distinct (map jb_id js) \<Longrightarrow> distinct (map jb_id (merge_job job js))"
  by (simp add: merge_job_def distinct_set_job split: option.splits)

lemma set_merge_job: "set (merge_job job js) \<subseteq> insert job (set js)"
  using set_set_job [of job js] by (auto simp: merge_job_def split: option.splits)

lemma fold_set_job: "distinct (map jb_id js) \<Longrightarrow>
   distinct (map jb_id (fold set_job xs js)) \<and> jb_id ` set (fold set_job xs js) = jb_id ` set xs \<union> jb_id ` set js
   \<and> set (fold set_job xs js) \<subseteq> set xs \<union> set js"
proof (induction xs arbitrary: js)
  case (Cons x xs)
  show ?case using Cons.IH [OF distinct_set_job [OF Cons.prems]] set_set_job [of x js] by (auto simp: ids_set_job)
qed simp

lemma fold_merge_job: "distinct (map jb_id js) \<Longrightarrow>
   distinct (map jb_id (fold merge_job xs js)) \<and> jb_id ` set (fold merge_job xs js) = jb_id ` set xs \<union> jb_id ` set js
   \<and> set (fold merge_job xs js) \<subseteq> set xs \<union> set js"
proof (induction xs arbitrary: js)
  case (Cons x xs)
  show ?case using Cons.IH [OF distinct_merge_job [OF Cons.prems]] set_merge_job [of x js] by (auto simp: ids_merge_job)
qed simp

lemma merged_jobs:
  shows distinct_merged: "distinct (map jb_id (mergeFreshJobs xs ys))"
    and ids_merged: "jb_id ` set (mergeFreshJobs xs ys) = jb_id ` set xs \<union> jb_id ` set ys"
    and set_merged: "set (mergeFreshJobs xs ys) \<subseteq> set xs \<union> set ys"
  using fold_set_job [of "[]" xs] fold_merge_job [of "fold set_job xs []" ys] unfolding mergeFreshJobs_def by auto

section \<open>Lists of files\<close>

lemma same_id_same_job: "distinct (map jb_id js) \<Longrightarrow> j \<in> set js \<Longrightarrow> k \<in> set js \<Longrightarrow> jb_id j = jb_id k \<Longrightarrow> j = k"
  by (meson distinct_map inj_on_def)

text \<open>Lists that belong to different keys are disjoint.\<close>

lemma distinct_by_key:
  assumes "\<forall>x\<in>set xs. distinct (g x) \<and> (\<forall>y\<in>set (g x). h y = k x)" "distinct (map k xs)"
  shows "distinct (concat (map g xs))"
  using assms
proof (induction xs)
  case (Cons x xs)
  have "set (g x) \<inter> set (concat (map g xs)) = {}"
  proof (rule ccontr)
    assume "set (g x) \<inter> set (concat (map g xs)) \<noteq> {}"
    then obtain y z where "y \<in> set (g x)" "z \<in> set xs" "y \<in> set (g z)" by auto
    then show False using Cons.prems by force
  qed
  then show ?case using Cons by simp
qed simp

lemma readJobs_map: "readJobs s = concat (map (\<lambda>(k, st). cs_jobs st) (st_files s))"
  by (simp add: readJobs_def readStates_def case_prod_unfold o_def)

lemma mem_readJobs: "j \<in> set (readJobs s) \<longleftrightarrow> (\<exists>k st. (k, st) \<in> set (st_files s) \<and> j \<in> set (cs_jobs st))"
  by (auto simp: readJobs_map)

section \<open>The invariant\<close>

text \<open>An active job that recurs has a next run.\<close>

definition job_ok :: "cron_job \<Rightarrow> bool" where
  "job_ok job = (jb_status job = Job_active \<and> recurring (jb_schedule job) \<longrightarrow> jb_nextRunAt job \<noteq> None)"

text \<open>A job that is waiting for its only run.\<close>

definition pending_once :: "cron_job \<Rightarrow> bool" where
  "pending_once job = (\<not> ended job \<and> \<not> recurring (jb_schedule job) \<and> jb_nextRunAt job \<noteq> None)"

definition state_ok :: "cron_state \<Rightarrow> bool" where
  "state_ok st = (distinct (map dr_jobId (cs_dispatches st))
     \<and> list_all (\<lambda>d. List.member (map jb_id (cs_jobs st)) (dr_jobId d)) (cs_dispatches st)
     \<and> list_all job_ok (cs_jobs st))"

definition store_ok :: "cron_store \<Rightarrow> bool" where
  "store_ok s = (distinct (map fst (st_files s)) \<and> distinct (map jb_id (readJobs s))
     \<and> list_all (\<lambda>(k, st). state_ok st) (st_files s)
     \<and> (if st_artifactMode s then list_all (\<lambda>(k, st). list_all (\<lambda>j. jb_sessionId j = k) (cs_jobs st)) (st_files s)
        else length (st_files s) \<le> 1))"

text \<open>What may become of a job: it keeps its identity, and an end is final.\<close>

definition job_follows :: "cron_job \<Rightarrow> cron_job \<Rightarrow> bool" where
  "job_follows j j1 = (jb_id j1 = jb_id j \<and> jb_createdAt j1 = jb_createdAt j \<and> jb_runCount j \<le> jb_runCount j1
     \<and> (ended j \<longrightarrow> ended j1) \<and> (\<not> pending_once j \<longrightarrow> \<not> pending_once j1) \<and> (job_ok j \<longrightarrow> job_ok j1))"

lemma job_follows_refl [simp]: "job_follows j j"
  by (simp add: job_follows_def)

lemma job_follows_trans: "job_follows j k \<Longrightarrow> job_follows k l \<Longrightarrow> job_follows j l"
  by (auto simp: job_follows_def)

definition jobs_follow :: "cron_store \<Rightarrow> cron_store \<Rightarrow> bool" where
  "jobs_follow s s1 = (\<forall>j\<in>set (readJobs s). \<exists>j1\<in>set (readJobs s1). job_follows j j1)"

lemma jobs_follow_refl [simp]: "jobs_follow s s"
  unfolding jobs_follow_def using job_follows_refl by blast

lemma jobs_follow_trans: "jobs_follow s t \<Longrightarrow> jobs_follow t u \<Longrightarrow> jobs_follow s u"
  unfolding jobs_follow_def by (meson job_follows_trans)

text \<open>A list of jobs that carries on those of a store.\<close>

definition carries_on :: "cron_store \<Rightarrow> cron_job list \<Rightarrow> bool" where
  "carries_on s jobs = (distinct (map jb_id jobs) \<and> list_all job_ok jobs
     \<and> (\<forall>j\<in>set (readJobs s). \<exists>j1\<in>set jobs. job_follows j j1))"

section \<open>Writing the jobs\<close>

lemma carries_on_ids: "carries_on s jobs \<Longrightarrow> j \<in> set (readJobs s) \<Longrightarrow> \<exists>j1\<in>set jobs. job_follows j j1 \<and> jb_id j1 = jb_id j"
  by (fastforce simp: carries_on_def job_follows_def)

text \<open>A job of the merge is the one of the store or the one that carries it on.\<close>

lemma merge_follows:
  assumes "carries_on s jobs" "j \<in> set (readJobs s)" "distinct (map jb_id (readJobs s))"
    "set retained \<subseteq> set (readJobs s)" "set incoming \<subseteq> set jobs" "jb_id j \<in> jb_id ` set retained \<union> jb_id ` set incoming"
  shows "\<exists>j1\<in>set (mergeFreshJobs retained incoming). job_follows j j1"
proof -
  from assms(6) obtain m where m: "m \<in> set (mergeFreshJobs retained incoming)" "jb_id m = jb_id j"
    unfolding ids_merged [symmetric] by (metis imageE)
  obtain c where c: "c \<in> set jobs" "job_follows j c" "jb_id c = jb_id j" using carries_on_ids [OF assms(1,2)] by auto
  have d: "distinct (map jb_id jobs)" using assms(1) by (simp add: carries_on_def)
  have "m \<in> set (readJobs s) \<or> m \<in> set jobs" using m(1) set_merged assms(4,5) by blast
  then have "m = j \<or> m = c" using same_id_same_job [OF assms(3), of m j] same_id_same_job [OF d, of m c] m(2) c assms(2) by auto
  with m(1) c(2) show ?thesis using job_follows_refl by blast
qed

lemma incoming_job_Some: "distinct (map jb_id jobs) \<Longrightarrow> j \<in> set jobs \<Longrightarrow> incoming_job jobs (jb_id j) = Some j"
proof -
  assume d: "distinct (map jb_id jobs)" and j: "j \<in> set jobs"
  obtain k where k: "job_with_id (jb_id j) (rev jobs) = Some k"
    using j job_with_id_None [of "jb_id j" "rev jobs"] by (cases "job_with_id (jb_id j) (rev jobs)") auto
  then show ?thesis using job_with_id_Some [OF k] same_id_same_job [OF d _ j, of k] by (simp add: incoming_job_def)
qed

text \<open>The session a job is written to.\<close>

definition session_of :: "cron_job list \<Rightarrow> string \<Rightarrow> string" where
  "session_of jobs i = (case incoming_job jobs i of Some j \<Rightarrow> jb_sessionId j | None \<Rightarrow> [])"

lemma merged_session_jobs_facts:
  assumes "carries_on s jobs" "set (cs_jobs st) \<subseteq> set (readJobs s)" "\<forall>j\<in>set (cs_jobs st). jb_sessionId j = k" "list_all job_ok (cs_jobs st)"
  shows "distinct (map jb_id (merged_session_jobs jobs k st))"
    and "\<forall>j\<in>set (merged_session_jobs jobs k st). session_of jobs (jb_id j) = k \<and> jb_sessionId j = k \<and> job_ok j"
proof -
  let ?retained = "filter (\<lambda>job. case incoming_job jobs (jb_id job) of None \<Rightarrow> True | Some i \<Rightarrow> jb_sessionId i = k) (cs_jobs st)"
  let ?incoming = "filter (\<lambda>job. jb_sessionId job = k) jobs"
  have d: "distinct (map jb_id jobs)" and ok: "list_all job_ok jobs" using assms(1) by (simp_all add: carries_on_def)
  have m: "merged_session_jobs jobs k st = mergeFreshJobs ?retained ?incoming" by (simp add: merged_session_jobs_def)
  show "distinct (map jb_id (merged_session_jobs jobs k st))" unfolding m by (rule distinct_merged)
  have kept: "session_of jobs (jb_id j) = k" if j: "j \<in> set ?retained" for j
  proof -
    have "j \<in> set (readJobs s)" using j assms(2) by auto
    then obtain c where c: "c \<in> set jobs" "jb_id c = jb_id j" using carries_on_ids [OF assms(1)] by blast
    then show ?thesis using incoming_job_Some [OF d c(1)] j by (simp add: session_of_def)
  qed
  have new: "session_of jobs (jb_id j) = k" if "j \<in> set ?incoming" for j
    using that incoming_job_Some [OF d, of j] by (simp add: session_of_def)
  show "\<forall>j\<in>set (merged_session_jobs jobs k st). session_of jobs (jb_id j) = k \<and> jb_sessionId j = k \<and> job_ok j"
  proof
    fix j assume "j \<in> set (merged_session_jobs jobs k st)"
    then have "j \<in> set ?retained \<or> j \<in> set ?incoming" unfolding m using set_merged by blast
    then show "session_of jobs (jb_id j) = k \<and> jb_sessionId j = k \<and> job_ok j"
      using kept [of j] new [of j] assms(3,4) ok by (auto simp: list_all_iff)
  qed
qed

text \<open>In session mode: the files after the write.\<close>

definition written_files :: "cron_job list \<Rightarrow> cron_store \<Rightarrow> (string \<times> cron_job list) list" where
  "written_files jobs s = map (\<lambda>(sid, current). (sid, merged_session_jobs jobs sid current)) (st_files s)"

definition rewritten :: "cron_job list \<Rightarrow> cron_store \<Rightarrow> string \<times> cron_job list \<Rightarrow> string \<times> cron_state" where
  "rewritten jobs s = (\<lambda>(sid, js). (sid, \<lparr>cs_jobs = js, cs_dispatches =
     filter (\<lambda>d. session_of_job (written_files jobs s) (dr_jobId d) = Some sid) (concat (map cs_dispatches (readStates s)))\<rparr>))"

lemma writeJobs_artifact:
  assumes "writeJobs jobs s = Returns s1" "st_artifactMode s"
  shows "s1 = s\<lparr>st_files := map (rewritten jobs s) (written_files jobs s)\<rparr> \<and> (\<forall>j\<in>set jobs. jb_sessionId j \<in> fst ` set (st_files s))"
  using assms by (auto simp: writeJobs_def rewritten_def written_files_def Let_def find_None_iff map_of_eq_None_iff split: option.splits)

lemma map_fst_written: "map fst (map (rewritten jobs s) (written_files jobs s)) = map fst (st_files s)"
  by (simp add: rewritten_def written_files_def case_prod_unfold o_def)

lemma readJobs_written: "readJobs (s\<lparr>st_files := map (rewritten jobs s) (written_files jobs s)\<rparr>)
   = concat (map (\<lambda>(k, st). merged_session_jobs jobs k st) (st_files s))"
  by (simp add: readJobs_map rewritten_def written_files_def case_prod_unfold o_def)

lemma file_in_store: "(k, st) \<in> set (st_files s) \<Longrightarrow> j \<in> set (cs_jobs st) \<Longrightarrow> j \<in> set (readJobs s)"
  using mem_readJobs by blast

lemma find_member: "find p xs = Some x \<Longrightarrow> x \<in> set xs \<and> p x"
  by (induction xs) (auto split: if_splits)

lemma store_ok_ids: "store_ok s \<Longrightarrow> distinct (map jb_id (readJobs s))"
  by (simp add: store_ok_def)

lemma store_ok_state: "store_ok s \<Longrightarrow> (k, st) \<in> set (st_files s) \<Longrightarrow> state_ok st"
  by (auto simp: store_ok_def list_all_iff)

lemma store_ok_session: "store_ok s \<Longrightarrow> st_artifactMode s \<Longrightarrow> (k, st) \<in> set (st_files s) \<Longrightarrow> \<forall>j\<in>set (cs_jobs st). jb_sessionId j = k"
  by (auto simp: store_ok_def list_all_iff)

lemma store_ok_jobs: "store_ok s \<Longrightarrow> list_all job_ok (readJobs s)"
  by (fastforce simp: store_ok_def state_ok_def list_all_iff mem_readJobs)

text \<open>The dispatches of different files are for different jobs.\<close>

lemma distinct_concat_sub:
  "distinct (concat (map h fs)) \<Longrightarrow> \<forall>x\<in>set fs. set (g x) \<subseteq> set (h x) \<and> distinct (g x) \<Longrightarrow> distinct (concat (map g fs))"
proof (induction fs)
  case (Cons f fs)
  have "set (concat (map g fs)) \<subseteq> set (concat (map h fs))" using Cons.prems(2) by auto
  then have "set (g f) \<inter> set (concat (map g fs)) = {}" using Cons.prems by fastforce
  then show ?case using Cons by simp
qed simp

lemma distinct_dispatch_jobs:
  assumes "store_ok s"
  shows "distinct (map dr_jobId (concat (map cs_dispatches (readStates s))))"
proof -
  have "distinct (concat (map (\<lambda>x. map jb_id (cs_jobs (snd x))) (st_files s)))"
    using store_ok_ids [OF assms] by (simp add: readJobs_map map_concat case_prod_unfold o_def)
  moreover have "\<forall>x\<in>set (st_files s). set (map dr_jobId (cs_dispatches (snd x))) \<subseteq> set (map jb_id (cs_jobs (snd x)))
      \<and> distinct (map dr_jobId (cs_dispatches (snd x)))"
    using store_ok_state [OF assms] by (fastforce simp: state_ok_def list_all_iff)
  ultimately have "distinct (concat (map (\<lambda>x. map dr_jobId (cs_dispatches (snd x))) (st_files s)))" by (rule distinct_concat_sub)
  then show ?thesis by (simp add: readStates_def map_concat o_def)
qed

lemma distinct_map_filter: "distinct (map f xs) \<Longrightarrow> distinct (map f (filter p xs))"
  by (induction xs) auto

lemma session_of_job_member:
  assumes "session_of_job merged i = Some k" "distinct (map fst merged)" "(k, js) \<in> set merged"
  shows "i \<in> jb_id ` set js"
proof -
  from assms(1) obtain ks where "find (\<lambda>(sid, js). job_with_id i js \<noteq> None) (rev merged) = Some (k, ks)"
    by (auto simp: session_of_job_def)
  then have "(k, ks) \<in> set merged" "job_with_id i ks \<noteq> None" by (auto dest: find_member)
  moreover have "ks = js" using assms(2,3) \<open>(k, ks) \<in> set merged\<close> by (metis eq_key_imp_eq_value)
  ultimately show ?thesis by (simp add: job_with_id_None)
qed

lemma artifact_write_ok:
  assumes "store_ok s" "st_artifactMode s" "carries_on s jobs"
  shows "store_ok (s\<lparr>st_files := map (rewritten jobs s) (written_files jobs s)\<rparr>)"
proof -
  let ?t = "s\<lparr>st_files := map (rewritten jobs s) (written_files jobs s)\<rparr>"
  have keys: "distinct (map fst (st_files s))" using assms(1) by (simp add: store_ok_def)
  have content: "distinct (map jb_id (merged_session_jobs jobs k st))
      \<and> (\<forall>j\<in>set (merged_session_jobs jobs k st). session_of jobs (jb_id j) = k \<and> jb_sessionId j = k \<and> job_ok j)"
    if "(k, st) \<in> set (st_files s)" for k st
  proof -
    have "set (cs_jobs st) \<subseteq> set (readJobs s)" using that file_in_store by blast
    moreover have "list_all job_ok (cs_jobs st)" using store_ok_state [OF assms(1) that] by (simp add: state_ok_def)
    ultimately show ?thesis using merged_session_jobs_facts [OF assms(3), of st k] store_ok_session [OF assms(1,2) that] by blast
  qed
  have ids: "distinct (map jb_id (readJobs ?t))"
  proof -
    have "distinct (concat (map (\<lambda>(k, st). map jb_id (merged_session_jobs jobs k st)) (st_files s)))"
      by (rule distinct_by_key [where h = "session_of jobs" and k = fst]) (use keys content in auto)
    then show ?thesis by (simp add: readJobs_written map_concat case_prod_unfold o_def)
  qed
  have each: "state_ok st1 \<and> list_all (\<lambda>j. jb_sessionId j = k) (cs_jobs st1)" if mem: "(k, st1) \<in> set (st_files ?t)" for k st1
  proof -
    from mem obtain st where st: "(k, st) \<in> set (st_files s)" and j1: "cs_jobs st1 = merged_session_jobs jobs k st"
      and d1: "cs_dispatches st1 = filter (\<lambda>d. session_of_job (written_files jobs s) (dr_jobId d) = Some k) (concat (map cs_dispatches (readStates s)))"
      by (auto simp: rewritten_def written_files_def)
    have "(k, merged_session_jobs jobs k st) \<in> set (written_files jobs s)" using st by (force simp: written_files_def)
    moreover have "map fst (written_files jobs s) = map fst (st_files s)" by (simp add: written_files_def case_prod_unfold o_def)
    ultimately have "\<forall>d\<in>set (cs_dispatches st1). dr_jobId d \<in> jb_id ` set (cs_jobs st1)"
      using session_of_job_member keys unfolding d1 j1 by fastforce
    then show ?thesis using content [OF st] distinct_map_filter [OF distinct_dispatch_jobs [OF assms(1)]]
      by (simp add: state_ok_def list_all_iff j1 d1)
  qed
  have "case f of (k, st) \<Rightarrow> state_ok st \<and> list_all (\<lambda>j. jb_sessionId j = k) (cs_jobs st)" if "f \<in> set (st_files ?t)" for f
    using each [of "fst f" "snd f"] that by (cases f) (simp del: list.set_map)
  then have "list_all (\<lambda>(k, st). state_ok st) (st_files ?t)"
    "list_all (\<lambda>(k, st). list_all (\<lambda>j. jb_sessionId j = k) (cs_jobs st)) (st_files ?t)"
    unfolding list_all_iff by (auto simp del: list.set_map simp: case_prod_unfold)
  then show ?thesis using ids keys map_fst_written [of jobs s] assms(2) by (simp add: store_ok_def)
qed

lemma artifact_write_follows:
  assumes "store_ok s" "st_artifactMode s" "carries_on s jobs" "\<forall>j\<in>set jobs. jb_sessionId j \<in> fst ` set (st_files s)"
  shows "jobs_follow s (s\<lparr>st_files := map (rewritten jobs s) (written_files jobs s)\<rparr>)"
  unfolding jobs_follow_def
proof
  fix j assume j: "j \<in> set (readJobs s)"
  obtain c where c: "c \<in> set jobs" "job_follows j c" "jb_id c = jb_id j" using carries_on_ids [OF assms(3) j] by auto
  obtain st where st: "(jb_sessionId c, st) \<in> set (st_files s)" using assms(4) c(1) by fastforce
  let ?retained = "filter (\<lambda>job. case incoming_job jobs (jb_id job) of None \<Rightarrow> True | Some i \<Rightarrow> jb_sessionId i = jb_sessionId c) (cs_jobs st)"
  let ?incoming = "filter (\<lambda>job. jb_sessionId job = jb_sessionId c) jobs"
  have "\<exists>j1\<in>set (mergeFreshJobs ?retained ?incoming). job_follows j j1"
    by (intro merge_follows [OF assms(3) j store_ok_ids [OF assms(1)]]) (use st c(1,3) in \<open>auto intro: rev_image_eqI file_in_store\<close>)
  then have "\<exists>j1\<in>set (merged_session_jobs jobs (jb_sessionId c) st). job_follows j j1" by (simp add: merged_session_jobs_def)
  then show "\<exists>j1\<in>set (readJobs (s\<lparr>st_files := map (rewritten jobs s) (written_files jobs s)\<rparr>)). job_follows j j1"
    using st unfolding readJobs_written by fastforce
qed

text \<open>A write that carries the jobs on keeps the invariant, and the jobs follow.\<close>

lemma writeJobs_keeps:
  assumes "store_ok s" "carries_on s jobs" "writeJobs jobs s = Returns s1"
  shows "store_ok s1 \<and> jobs_follow s s1"
proof (cases "st_artifactMode s")
  case True
  from writeJobs_artifact [OF assms(3) True] show ?thesis
    using artifact_write_ok [OF assms(1) True assms(2)] artifact_write_follows [OF assms(1) True assms(2)] by simp
next
  case False
  show ?thesis
  proof (cases "st_files s")
    case Nil
    with False assms show ?thesis by (simp add: writeJobs_def)
  next
    case (Cons f fs)
    obtain k st where f: "f = (k, st)" by (cases f)
    have one: "st_files s = [(k, st)]" using assms(1) False Cons f by (simp add: store_ok_def)
    have rd: "readJobs s = cs_jobs st" by (simp add: readJobs_map one)
    let ?m = "mergeFreshJobs (cs_jobs st) jobs"
    have s1: "s1 = s\<lparr>st_files := [(k, st\<lparr>cs_jobs := ?m\<rparr>)]\<rparr>" using assms(3) False by (simp add: writeJobs_def one)
    have "\<forall>j\<in>set ?m. job_ok j"
      using set_merged [of "cs_jobs st" jobs] store_ok_jobs [OF assms(1)] assms(2) by (auto simp: rd list_all_iff carries_on_def)
    then have "state_ok (st\<lparr>cs_jobs := ?m\<rparr>)"
      using store_ok_state [OF assms(1), of k st] ids_merged [of "cs_jobs st" jobs] by (auto simp: one state_ok_def list_all_iff)
    then have "store_ok s1" using False by (simp add: store_ok_def s1 readJobs_map distinct_merged)
    moreover have "jobs_follow s s1"
      using merge_follows [OF assms(2) _ store_ok_ids [OF assms(1)], of _ "cs_jobs st" jobs] by (simp add: jobs_follow_def s1 readJobs_map one)
    ultimately show ?thesis ..
  qed
qed

section \<open>Updates of the jobs\<close>

lemma Returns_and_then: "and_then r f = Returns v \<longleftrightarrow> (\<exists>u. r = Returns u \<and> f u = Returns v)"
  by (cases r) (auto simp: and_then_def)

lemma map_outcome_list_all2: "map_outcome f xs = Returns ys \<Longrightarrow> list_all2 (\<lambda>x y. f x = Returns y) xs ys"
  by (induction xs arbitrary: ys) (auto simp: Returns_and_then)

lemma follows_carries_on:
  assumes "store_ok s" "list_all2 job_follows (readJobs s) js"
  shows "carries_on s js"
proof -
  have "map jb_id js = map jb_id (readJobs s)"
    using assms(2) by (induction rule: list_all2_induct) (auto simp: job_follows_def)
  moreover have "list_all job_ok js"
    using assms(2) store_ok_jobs [OF assms(1)] by (induction rule: list_all2_induct) (auto simp: job_follows_def)
  moreover have "\<forall>j\<in>set (readJobs s). \<exists>j1\<in>set js. job_follows j j1"
    using assms(2) by (induction rule: list_all2_induct) auto
  ultimately show ?thesis using store_ok_ids [OF assms(1)] by (simp add: carries_on_def)
qed

lemma carries_on_new: "carries_on s js \<Longrightarrow> jb_id job \<notin> jb_id ` set js \<Longrightarrow> job_ok job \<Longrightarrow> carries_on s (js @ [job])"
  by (auto simp: carries_on_def)

lemma carries_on_readJobs: "store_ok s \<Longrightarrow> carries_on s (readJobs s)"
  by (rule follows_carries_on) (simp_all add: list_all2_refl)

text \<open>The changed jobs of a store.\<close>

lemma write_changed_keeps:
  assumes "store_ok s" "\<forall>j\<in>set (readJobs s). p j \<longrightarrow> job_follows j (f j)"
    "write_changed (update_jobs p f (readJobs s)) s = Returns (s1, js)"
  shows "store_ok s1 \<and> jobs_follow s s1"
proof -
  have c: "carries_on s (map (\<lambda>j. if p j then f j else j) (readJobs s))"
    using assms(2) by (intro follows_carries_on [OF assms(1)]) (auto simp: list_all2_conv_all_nth)
  show ?thesis using assms(1,3) writeJobs_keeps [OF assms(1) c]
    by (auto simp: write_changed_def update_jobs_def Returns_and_then split: if_splits)
qed

lemma write_changed_one_keeps:
  assumes "store_ok s" "\<forall>j\<in>set (readJobs s). p j \<longrightarrow> job_follows j (f j)"
    "write_changed_one (update_jobs p f (readJobs s)) s = Returns (s1, js)"
  shows "store_ok s1 \<and> jobs_follow s s1"
  using assms(3) write_changed_keeps [OF assms(1,2)] by (auto simp: write_changed_one_def Returns_and_then)

lemma write_heartbeat_keeps:
  assumes "store_ok s" "current \<in> set (readJobs s)" "job_follows current (f current)"
    "write_heartbeat f current s = Returns (s1, js)"
  shows "store_ok s1 \<and> jobs_follow s s1"
proof -
  have "list_all2 job_follows (readJobs s) (map (\<lambda>j. if jb_id j = jb_id current then f j else j) (readJobs s))"
    using assms(2,3) same_id_same_job [OF store_ok_ids [OF assms(1)]]
    by (auto simp: list_all2_conv_all_nth dest: nth_mem)
  then show ?thesis using assms(4) writeJobs_keeps [OF assms(1) follows_carries_on [OF assms(1)]]
    by (auto simp: write_heartbeat_def update_jobs_def Returns_and_then)
qed

lemma update_or_throw_keeps:
  assumes "store_ok s" "\<forall>j j1. p j \<longrightarrow> f j = Returns j1 \<longrightarrow> job_follows j j1" "update_or_throw p f s = Returns (s1, r)"
  shows "store_ok s1 \<and> jobs_follow s s1"
proof -
  obtain rs where rs: "map_outcome (\<lambda>job. if p job then and_then (f job) (\<lambda>j. Returns (j, True)) else Returns (job, False)) (readJobs s) = Returns rs"
    using assms(3) by (auto simp: update_or_throw_def Returns_and_then)
  have "list_all2 job_follows (readJobs s) (map fst rs)"
    using map_outcome_list_all2 [OF rs] unfolding list_all2_map2
    by (rule list_all2_mono) (use assms(2) in \<open>auto simp: Returns_and_then split: if_splits\<close>)
  then show ?thesis using assms(1,3) writeJobs_keeps [OF assms(1) follows_carries_on [OF assms(1)]]
    by (auto simp: update_or_throw_def Returns_and_then rs Let_def split: if_splits)
qed

section \<open>Updates of the files\<close>

text \<open>What a mutator may do to a file.\<close>

definition state_carries :: "cron_state \<Rightarrow> cron_state \<Rightarrow> bool" where
  "state_carries st st1 = (list_all2 (\<lambda>j j1. job_follows j j1 \<and> jb_sessionId j1 = jb_sessionId j) (cs_jobs st) (cs_jobs st1)
     \<and> distinct (map dr_jobId (cs_dispatches st1)) \<and> (\<forall>d\<in>set (cs_dispatches st1). dr_jobId d \<in> jb_id ` set (cs_jobs st1)))"

definition keeps_files :: "(cron_state \<Rightarrow> (cron_state \<times> 'a list) outcome) \<Rightarrow> bool" where
  "keeps_files f = (\<forall>st st1 out. state_ok st \<and> distinct (map jb_id (cs_jobs st)) \<and> f st = Returns (st1, out) \<longrightarrow> state_carries st st1)"

definition files_carry :: "(string \<times> cron_state) list \<Rightarrow> (string \<times> cron_state) list \<Rightarrow> bool" where
  "files_carry files files1 = list_all2 (\<lambda>f f1. fst f1 = fst f \<and> state_carries (snd f) (snd f1)) files files1"

lemma state_carries_refl: "state_ok st \<Longrightarrow> state_carries st st"
  by (auto simp: state_ok_def state_carries_def list_all_iff intro: list_all2_refl)

lemma files_carry_refl: "list_all (\<lambda>(k, st). state_ok st) files \<Longrightarrow> files_carry files files"
  by (induction files) (auto simp: files_carry_def state_carries_refl)

lemma mutate_files_carry:
  "keeps_files f \<Longrightarrow> mutate_files f files = (files1, r) \<Longrightarrow> list_all (\<lambda>(k, st). state_ok st \<and> distinct (map jb_id (cs_jobs st))) files
    \<Longrightarrow> files_carry files files1"
proof (induction files arbitrary: files1 r)
  case (Cons x files)
  obtain k st where x: "x = (k, st)" by (cases x)
  have ok: "state_ok st" "distinct (map jb_id (cs_jobs st))" "list_all (\<lambda>(k, st). state_ok st) files"
    using Cons.prems(3) by (auto simp: x list_all_iff)
  have same: "files_carry (x # files) (x # files)" using files_carry_refl [of "x # files"] ok by (simp add: x)
  show ?case
  proof (cases "f st")
    case (Returns p)
    obtain st1 out where p: "p = (st1, out)" by (cases p)
    obtain fs q where fs: "mutate_files f files = (fs, q)" by fastforce
    have "state_carries st st1" using Cons.prems(1) ok Returns p unfolding keeps_files_def by blast
    moreover have "files_carry files fs" using Cons fs by (simp add: x)
    ultimately show ?thesis using Cons.prems(2) by (auto simp: x Returns p fs files_carry_def)
  qed (use same Cons.prems(2) in \<open>auto simp: x\<close>)
qed (simp add: files_carry_def)

lemma state_carries_ids: "state_carries st st1 \<Longrightarrow> map jb_id (cs_jobs st1) = map jb_id (cs_jobs st)"
proof -
  assume "state_carries st st1"
  then have "list_all2 (\<lambda>j j1. job_follows j j1 \<and> jb_sessionId j1 = jb_sessionId j) (cs_jobs st) (cs_jobs st1)" by (simp add: state_carries_def)
  then show ?thesis by (induction rule: list_all2_induct) (auto simp: job_follows_def)
qed

lemma state_carries_ok: "state_carries st st1 \<Longrightarrow> state_ok st \<Longrightarrow> state_ok st1"
proof -
  assume c: "state_carries st st1" and ok: "state_ok st"
  have "list_all2 (\<lambda>j j1. job_follows j j1 \<and> jb_sessionId j1 = jb_sessionId j) (cs_jobs st) (cs_jobs st1)" using c by (simp add: state_carries_def)
  then have "list_all job_ok (cs_jobs st) \<longrightarrow> list_all job_ok (cs_jobs st1)" by (induction rule: list_all2_induct) (auto simp: job_follows_def)
  then have "list_all job_ok (cs_jobs st1)" using ok by (simp add: state_ok_def)
  then show ?thesis using c by (auto simp: state_ok_def state_carries_def list_all_iff)
qed

text \<open>Files that carry on keep the invariant.\<close>

lemma files_carry_shape:
  "files_carry fs gs \<Longrightarrow> map fst gs = map fst fs \<and> length gs = length fs
     \<and> map jb_id (concat (map (\<lambda>(k, st). cs_jobs st) gs)) = map jb_id (concat (map (\<lambda>(k, st). cs_jobs st) fs))"
  unfolding files_carry_def
proof (induction rule: list_all2_induct)
  case (Cons f fs g gs)
  then show ?case using state_carries_ids [of "snd f" "snd g"] by (simp add: case_prod_unfold)
qed simp

lemma files_carry_states:
  "files_carry fs gs \<Longrightarrow> list_all (\<lambda>(k, st). state_ok st \<and> (m \<longrightarrow> list_all (\<lambda>j. jb_sessionId j = k) (cs_jobs st))) fs
    \<Longrightarrow> list_all (\<lambda>(k, st). state_ok st \<and> (m \<longrightarrow> list_all (\<lambda>j. jb_sessionId j = k) (cs_jobs st))) gs"
  unfolding files_carry_def
proof (induction rule: list_all2_induct)
  case (Cons f fs g gs)
  have "list_all2 (\<lambda>j j1. job_follows j j1 \<and> jb_sessionId j1 = jb_sessionId j) (cs_jobs (snd f)) (cs_jobs (snd g))"
    using Cons.hyps by (simp add: state_carries_def)
  then have "list_all (\<lambda>j. jb_sessionId j = k) (cs_jobs (snd f)) \<longrightarrow> list_all (\<lambda>j. jb_sessionId j = k) (cs_jobs (snd g))" for k
    by (induction rule: list_all2_induct) auto
  then show ?case using Cons state_carries_ok [of "snd f" "snd g"] by (simp add: case_prod_unfold)
qed simp

lemma files_carry_jobs:
  "files_carry fs gs \<Longrightarrow> \<forall>j\<in>set (concat (map (\<lambda>(k, st). cs_jobs st) fs)). \<exists>j1\<in>set (concat (map (\<lambda>(k, st). cs_jobs st) gs)). job_follows j j1"
  unfolding files_carry_def
proof (induction rule: list_all2_induct)
  case (Cons f fs g gs)
  have "list_all2 (\<lambda>j j1. job_follows j j1 \<and> jb_sessionId j1 = jb_sessionId j) (cs_jobs (snd f)) (cs_jobs (snd g))"
    using Cons.hyps by (simp add: state_carries_def)
  then have "\<forall>j\<in>set (cs_jobs (snd f)). \<exists>j1\<in>set (cs_jobs (snd g)). job_follows j j1"
    by (induction rule: list_all2_induct) auto
  then show ?case using Cons.IH by (simp add: case_prod_unfold) blast
qed simp

lemma files_carry_keeps:
  assumes "store_ok s" "files_carry (st_files s) gs"
  shows "store_ok (s\<lparr>st_files := gs\<rparr>) \<and> jobs_follow s (s\<lparr>st_files := gs\<rparr>)"
proof -
  have "list_all (\<lambda>(k, st). state_ok st \<and> (st_artifactMode s \<longrightarrow> list_all (\<lambda>j. jb_sessionId j = k) (cs_jobs st))) (st_files s)"
    using assms(1) by (auto simp: store_ok_def list_all_iff split: if_splits)
  note states = files_carry_states [OF assms(2) this]
  note shape = files_carry_shape [OF assms(2)]
  have "store_ok (s\<lparr>st_files := gs\<rparr>)"
    using assms(1) states shape unfolding store_ok_def readJobs_map by (auto simp: list_all_iff split: if_splits)
  moreover have "jobs_follow s (s\<lparr>st_files := gs\<rparr>)" using files_carry_jobs [OF assms(2)] by (simp add: jobs_follow_def readJobs_map)
  ultimately show ?thesis ..
qed

lemma distinct_parts: "distinct (concat (map g fs)) \<Longrightarrow> \<forall>f\<in>set fs. distinct (g f)"
  by (induction fs) auto

lemma store_ok_files: "store_ok s \<Longrightarrow> list_all (\<lambda>(k, st). state_ok st \<and> distinct (map jb_id (cs_jobs st))) (st_files s)"
proof -
  assume ok: "store_ok s"
  have "distinct (concat (map (\<lambda>f. map jb_id (cs_jobs (snd f))) (st_files s)))"
    using store_ok_ids [OF ok] by (simp add: readJobs_map map_concat case_prod_unfold o_def)
  then have "\<forall>f\<in>set (st_files s). distinct (map jb_id (cs_jobs (snd f)))" by (rule distinct_parts)
  then show ?thesis using store_ok_state [OF ok] by (fastforce simp: list_all_iff)
qed

lemma mutateStates_keeps:
  assumes "store_ok s" "keeps_files f" "mutateStates f s = (s1, r)"
  shows "store_ok s1 \<and> jobs_follow s s1"
proof -
  obtain gs q where m: "mutate_files f (st_files s) = (gs, q)" by fastforce
  show ?thesis using files_carry_keeps [OF assms(1) mutate_files_carry [OF assms(2) m store_ok_files [OF assms(1)]]] assms(3)
    by (auto simp: mutateStates_def m)
qed

section \<open>The mutators\<close>

text \<open>A schedule gives a next run exactly when it recurs.\<close>

lemma map_sum_Inr: "map_sum f g x = Inr y \<longleftrightarrow> (\<exists>v. x = Inr v \<and> y = g v)"
  by (cases x) auto

lemma recurring_has_next: "of_schedule (nextRunAtForSchedule z sched t) = Returns n \<Longrightarrow> (n \<noteq> None) = recurring sched"
  by (auto simp: of_schedule_def nextRunAtForSchedule_def recurring_def map_sum_Inr split: option.splits sum.splits schedule_kind.splits if_splits)

lemma claim_one_follows:
  "claim_one z new_id dueAt claimedAt ids job = Returns (j1, c) \<Longrightarrow>
     job_follows job j1 \<and> jb_sessionId j1 = jb_sessionId job
     \<and> (\<forall>d p. c = Some (d, p) \<longrightarrow> dr_jobId d = jb_id job \<and> jb_id job \<notin> set ids \<and> isDueJob job dueAt \<and> di_job p = j1 \<and> \<not> pending_once j1)"
  by (cases "isDueJob job dueAt") (auto simp: claim_one_def Returns_and_then Let_def job_follows_def ended_def pending_once_def job_ok_def isDueJob_def
      split: if_splits dest!: recurring_has_next)

lemma claimed_ids:
  "list_all2 (\<lambda>job q. claim_one z new_id dueAt claimedAt ids job = Returns q) js rs \<Longrightarrow> distinct (map jb_id js) \<Longrightarrow>
     distinct (map (\<lambda>c. dr_jobId (fst c)) (List.map_filter snd rs))
     \<and> (\<forall>c\<in>set (List.map_filter snd rs). dr_jobId (fst c) \<in> jb_id ` set js \<and> dr_jobId (fst c) \<notin> set ids)"
proof (induction rule: list_all2_induct)
  case (Cons j js q rs)
  obtain j1 c where q: "q = (j1, c)" by (cases q)
  note f = claim_one_follows [OF Cons.hyps(1) [unfolded q]]
  show ?case
  proof (cases c)
    case None
    then show ?thesis using Cons.IH Cons.prems by (simp add: q map_filter_simps)
  next
    case (Some p)
    have new: "dr_jobId (fst p) = jb_id j" "jb_id j \<notin> set ids" using f Some by (metis prod.collapse)+
    have "jb_id j \<notin> (\<lambda>c. dr_jobId (fst c)) ` set (List.map_filter snd rs)" using Cons.IH Cons.prems by auto
    then show ?thesis using Cons.IH Cons.prems new by (simp add: q Some map_filter_simps)
  qed
qed (simp add: map_filter_simps)

lemma list_all2_follows_ids:
  "list_all2 (\<lambda>j j1. job_follows j j1 \<and> jb_sessionId j1 = jb_sessionId j) js ks \<Longrightarrow> jb_id ` set ks = jb_id ` set js"
  by (induction rule: list_all2_induct) (auto simp: job_follows_def)

text \<open>Jobs that follow, and some of the dispatches.\<close>

lemma fewer_dispatches_carry:
  assumes "state_ok st" "list_all2 (\<lambda>j j1. job_follows j j1 \<and> jb_sessionId j1 = jb_sessionId j) (cs_jobs st) js"
  shows "state_carries st \<lparr>cs_jobs = js, cs_dispatches = filter p (cs_dispatches st)\<rparr>"
  using assms(1,2) list_all2_follows_ids [OF assms(2)] distinct_map_filter [of dr_jobId "cs_dispatches st" p]
  by (simp add: state_carries_def state_ok_def list_all_iff)

lemma claimDueInState_keeps: "keeps_files (claimDueInState z new_id dueAt claimedAt)"
  unfolding keeps_files_def
proof (intro allI impI, elim conjE)
  fix st st1 out
  assume ok: "state_ok st" and d: "distinct (map jb_id (cs_jobs st))" and c: "claimDueInState z new_id dueAt claimedAt st = Returns (st1, out)"
  let ?ids = "map dr_jobId (cs_dispatches st)"
  obtain rs where rs: "map_outcome (claim_one z new_id dueAt claimedAt ?ids) (cs_jobs st) = Returns rs"
    and st1: "st1 = \<lparr>cs_jobs = map fst rs, cs_dispatches = cs_dispatches st @ map fst (List.map_filter snd rs)\<rparr>"
    using c by (auto simp: claimDueInState_def Returns_and_then Let_def)
  note l = map_outcome_list_all2 [OF rs]
  have jobs: "list_all2 (\<lambda>j j1. job_follows j j1 \<and> jb_sessionId j1 = jb_sessionId j) (cs_jobs st) (map fst rs)"
    using l unfolding list_all2_map2 by (rule list_all2_mono) (use claim_one_follows in \<open>force\<close>)
  note ids = list_all2_follows_ids [OF jobs]
  have new: "set (map dr_jobId (map fst (List.map_filter snd rs))) \<subseteq> jb_id ` set (cs_jobs st) - set ?ids"
    "distinct (map dr_jobId (map fst (List.map_filter snd rs)))"
    using claimed_ids [OF l d] by (auto simp: o_def)
  have old: "set ?ids \<subseteq> jb_id ` set (cs_jobs st)" "distinct ?ids" using ok by (auto simp: state_ok_def list_all_iff)
  have "distinct (map dr_jobId (cs_dispatches st1))" using new old by (auto simp: st1)
  moreover have "\<forall>d\<in>set (cs_dispatches st1). dr_jobId d \<in> jb_id ` set (cs_jobs st1)"
    using new(1) old(1) ids by (auto simp: st1)
  ultimately show "state_carries st st1" using jobs unfolding state_carries_def by (simp add: st1)
qed

lemma finish_job_follows:
  "finish_job z now result err job = Returns j1 \<Longrightarrow> jb_status job = Job_active \<Longrightarrow> job_follows job j1 \<and> jb_sessionId j1 = jb_sessionId job"
  by (auto simp: finish_job_def Returns_and_then Let_def job_follows_def ended_def pending_once_def job_ok_def
      split: if_splits dest!: recurring_has_next)

lemma finish_dispatch_keeps: "keeps_files (finish_dispatch z dispatchId now result err)"
  unfolding keeps_files_def
proof (intro allI impI, elim conjE)
  fix st st1 out
  assume ok: "state_ok st" and c: "finish_dispatch z dispatchId now result err st = Returns (st1, out)"
  show "state_carries st st1"
  proof (cases "find (\<lambda>d. dr_id d = dispatchId) (cs_dispatches st)")
    case None
    then show ?thesis using c state_carries_refl [OF ok] by (simp add: finish_dispatch_def)
  next
    case (Some d)
    let ?f = "\<lambda>job. if jb_id job \<noteq> dr_jobId d \<or> jb_status job \<noteq> Job_active then Returns (job, False)
                 else and_then (finish_job z now result err job) (\<lambda>j. Returns (j, True))"
    obtain rs where rs: "map_outcome ?f (cs_jobs st) = Returns rs"
      and st1: "st1 = \<lparr>cs_jobs = map fst rs, cs_dispatches = filter (\<lambda>c. dr_id c \<noteq> dispatchId) (cs_dispatches st)\<rparr>"
      using c by (auto simp: finish_dispatch_def Some Returns_and_then)
    have jobs: "list_all2 (\<lambda>j j1. job_follows j j1 \<and> jb_sessionId j1 = jb_sessionId j) (cs_jobs st) (map fst rs)"
      using map_outcome_list_all2 [OF rs] unfolding list_all2_map2
      by (rule list_all2_mono) (use finish_job_follows in \<open>auto simp: Returns_and_then split: if_splits\<close>)
    then show ?thesis unfolding st1 by (rule fewer_dispatches_carry [OF ok])
  qed
qed

lemma interrupt_job_follows: "jb_status job = Job_active \<Longrightarrow> job_follows job (interrupt_job now job) \<and> jb_sessionId (interrupt_job now job) = jb_sessionId job"
  by (auto simp: interrupt_job_def job_follows_def ended_def pending_once_def job_ok_def)

lemma recover_carries:
  assumes "state_ok st"
  shows "state_carries st (fst (recoverInterruptedInState now ids st))"
proof -
  let ?hit = "\<lambda>is job. List.member is (jb_id job) \<and> jb_status job = Job_active"
  have jobs: "list_all2 (\<lambda>j j1. job_follows j j1 \<and> jb_sessionId j1 = jb_sessionId j) (cs_jobs st)
      (map (\<lambda>job. if ?hit is job then interrupt_job now job else job) (cs_jobs st))" for "is"
    using interrupt_job_follows by (auto simp: list_all2_conv_all_nth)
  show ?thesis
  proof (cases ids)
    case None
    then show ?thesis using state_carries_refl [OF assms] fewer_dispatches_carry [OF assms jobs [of "map dr_jobId (cs_dispatches st)"], of "\<lambda>_. False"]
      by (simp add: recoverInterruptedInState_def Let_def)
  next
    case (Some xs)
    then show ?thesis using state_carries_refl [OF assms] fewer_dispatches_carry [OF assms jobs [of "map dr_jobId (filter (\<lambda>d. List.member xs (dr_id d)) (cs_dispatches st))"]]
      by (simp add: recoverInterruptedInState_def Let_def)
  qed
qed

section \<open>The operations follow\<close>

lemma stop_job_follows:
  "status = Job_cancelled \<or> status = Job_paused \<and> \<not> ended job \<Longrightarrow> job_follows job (stop_job status now job)"
  by (auto simp: stop_job_def job_follows_def ended_def pending_once_def job_ok_def)

lemma rebound_job_follows:
  "job_follows job (job\<lparr>jb_activeSessionId := a, jb_sessionId := b, jb_sessionFile := c, jb_cwd := d\<rparr>)"
  by (auto simp: job_follows_def ended_def pending_once_def job_ok_def)

lemma resume_job_follows: "resume_job z now job = Returns j1 \<Longrightarrow> \<not> ended job \<Longrightarrow> job_follows job j1"
  by (auto simp: resume_job_def Returns_and_then job_follows_def ended_def pending_once_def job_ok_def
      split: option.splits dest!: recurring_has_next)

lemma reschedule_follows: "reschedule z parse_date x now job = Returns j1 \<Longrightarrow> \<not> ended job \<Longrightarrow> job_follows job j1"
  by (auto simp: reschedule_def Returns_and_then job_follows_def ended_def pending_once_def job_ok_def split: if_splits)

lemma updated_at_follows: "job_follows job j1 \<Longrightarrow> job_follows job (j1\<lparr>jb_updatedAt := now\<rparr>)"
  by (simp add: job_follows_def ended_def pending_once_def job_ok_def)

lemma not_ended_follows: "job_follows job j1 \<Longrightarrow> jb_status j1 = jb_status job \<Longrightarrow> \<not> ended job \<Longrightarrow> \<not> ended j1"
  by (simp add: ended_def)

lemma reschedule_status: "reschedule z parse_date x now job = Returns j1 \<Longrightarrow> jb_status j1 = jb_status job"
  by (auto simp: reschedule_def Returns_and_then split: if_splits)

lemma update_heartbeat_follows:
  assumes "update_heartbeat z parse_date u now job = Returns j1" "\<not> ended job"
  shows "job_follows job j1"
proof -
  let ?job1 = "case hu_label u of Some l \<Rightarrow> job\<lparr>jb_label := normalizeOptionalLabel (Some l)\<rparr> | None \<Rightarrow> job"
  let ?job2 = "case hu_deliveryMode u of Some d \<Rightarrow> ?job1\<lparr>jb_deliveryMode := Some d\<rparr> | None \<Rightarrow> ?job1"
  have f2: "job_follows job ?job2 \<and> jb_status ?job2 = jb_status job"
    by (auto simp: job_follows_def ended_def pending_once_def job_ok_def split: option.splits)
  obtain job3 job4 job5 where
    e3: "(case hu_prompt u of Some p \<Rightarrow> if trim_text p = [] then Throws Prompt_empty else Returns (?job2\<lparr>jb_prompt := trim_text p\<rparr>)
           | None \<Rightarrow> Returns ?job2) = Returns job3"
    and e4: "(case hu_scheduleText u of Some x \<Rightarrow> reschedule z parse_date x now job3 | None \<Rightarrow> Returns job3) = Returns job4"
    and e5: "(case hu_status u of Some Update_pause \<Rightarrow> Returns (job4\<lparr>jb_status := Job_paused, jb_nextRunAt := None\<rparr>)
             | Some Update_resume \<Rightarrow> resume_job z now job4 | None \<Rightarrow> Returns job4) = Returns job5"
    and j1: "j1 = job5\<lparr>jb_updatedAt := now\<rparr>"
    using assms(1) by (auto simp: update_heartbeat_def Let_def Returns_and_then)
  have f3: "job_follows ?job2 job3 \<and> jb_status job3 = jb_status ?job2"
    using e3 by (auto simp: job_follows_def ended_def pending_once_def job_ok_def split: option.splits if_splits)
  have live3: "\<not> ended job3" using assms(2) f2 f3 by (simp add: ended_def)
  have f4: "job_follows job3 job4 \<and> jb_status job4 = jb_status job3"
    using e4 reschedule_follows [OF _ live3] reschedule_status by (auto split: option.splits)
  have live4: "\<not> ended job4" using live3 f4 by (simp add: ended_def)
  have pause: "job_follows job4 (job4\<lparr>jb_status := Job_paused, jb_nextRunAt := None\<rparr>)"
    using live4 by (simp add: job_follows_def ended_def pending_once_def job_ok_def)
  have f5: "job_follows job4 job5"
    using e5 pause resume_job_follows [OF _ live4] by (auto split: option.splits status_update.splits)
  show ?thesis unfolding j1 using f2 f3 f4 f5 by (blast intro: updated_at_follows job_follows_trans)
qed

lemma skipped_job_follows:
  assumes "jb_status job = Job_active" "of_schedule (nextRunAtForSchedule z (jb_schedule job) t) = Returns n"
  shows "job_follows job (job\<lparr>jb_nextRunAt := n, jb_lastSkippedAt := Some now, jb_updatedAt := now\<rparr>)"
  using assms by (auto simp: job_follows_def ended_def pending_once_def job_ok_def dest!: recurring_has_next)

lemma new_job_ok: "job_ok (new_job uuid now input source delivery prompt parsed) \<and> jb_id (new_job uuid now input source delivery prompt parsed) = uuid"
  by (simp add: new_job_def job_ok_def)

section \<open>The steps of a store\<close>

text \<open>A file that may be registered: it was left by a store of its session.\<close>

definition registrable :: "string \<Rightarrow> cron_state \<Rightarrow> cron_store \<Rightarrow> bool" where
  "registrable sessionId on_disk s = (state_ok on_disk \<and> distinct (map jb_id (cs_jobs on_disk))
     \<and> list_all (\<lambda>j. jb_sessionId j = sessionId \<and> \<not> List.member (map jb_id (readJobs s)) (jb_id j)) (cs_jobs on_disk))"

text \<open>A session is not registered with another path while its file is in use.\<close>

definition path_kept :: "string \<Rightarrow> string \<Rightarrow> cron_store \<Rightarrow> bool" where
  "path_kept sessionId path s = (map_of (st_files s) sessionId = None \<or> map_of (st_paths s) sessionId = Some path)"

definition fresh_id :: "string \<Rightarrow> cron_store \<Rightarrow> bool" where
  "fresh_id uuid s = (\<not> List.member (map jb_id (readJobs s)) uuid)"

inductive cron_step :: "cron_store \<Rightarrow> cron_store \<Rightarrow> bool" where
  step_register: "registrable sid on_disk s \<Longrightarrow> path_kept sid path s \<Longrightarrow> registerSessionArtifact sid path on_disk s = (b, s1) \<Longrightarrow> cron_step s s1"
| step_create: "fresh_id uuid s \<Longrightarrow> create_job z parse_date uuid now input s = Returns (s1, job) \<Longrightarrow> cron_step s s1"
| step_createHeartbeat: "fresh_id uuid s \<Longrightarrow> createHeartbeat z parse_date uuid now input s = Returns (s1, job) \<Longrightarrow> cron_step s s1"
| step_createRlm: "fresh_id uuid s \<Longrightarrow> createRlmHeartbeat z parse_date uuid now input s = Returns (s1, job) \<Longrightarrow> cron_step s s1"
| step_rebind: "rebindSessionJobs resolve a b f c s = Returns (s1, js) \<Longrightarrow> cron_step s s1"
| step_updateRlm: "updateRlmHeartbeat z parse_date a i u now s = Returns (s1, r) \<Longrightarrow> cron_step s s1"
| step_deleteRlm: "deleteRlmHeartbeat a i now s = Returns (s1, r) \<Longrightarrow> cron_step s s1"
| step_cancelRlm: "cancelRlmHeartbeatsForSession a now s = Returns (s1, js) \<Longrightarrow> cron_step s s1"
| step_cancelSession: "cancelJobsForSession resolve oa ob oc now s = Returns (s1, js) \<Longrightarrow> cron_step s s1"
| step_pause: "pauseHeartbeat a now s = Returns (s1, r) \<Longrightarrow> cron_step s s1"
| step_resume: "resumeHeartbeat z a now s = Returns (s1, r) \<Longrightarrow> cron_step s s1"
| step_clear: "clearHeartbeat a now s = Returns (s1, r) \<Longrightarrow> cron_step s s1"
| step_manage: "manageHeartbeat z a i act now s = Returns (s1, r) \<Longrightarrow> cron_step s s1"
| step_cancel: "cancel_job i now s = Returns (s1, r) \<Longrightarrow> cron_step s s1"
| step_recordRun: "recordRunResult z i now err s = Returns (s1, r) \<Longrightarrow> cron_step s s1"
| step_recordSkip: "recordSkipResult z i now s = Returns (s1, r) \<Longrightarrow> cron_step s s1"
| step_claim: "claimDue z new_id dueAt claimedAt s = (s1, out) \<Longrightarrow> cron_step s s1"
| step_finish: "recordDispatchResult z d now result err s = (s1, out) \<Longrightarrow> cron_step s s1"
| step_recover: "recoverInterruptedDispatches now s = (s1, out) \<Longrightarrow> cron_step s s1"
| step_recoverById: "recoverInterruptedDispatchesById ids now s = (s1, out) \<Longrightarrow> cron_step s s1"
| step_recoverSession: "recoverSessionArtifact sid now s = (s1, js) \<Longrightarrow> cron_step s s1"

lemma created_keeps:
  assumes "store_ok s" "fresh_id uuid s" "list_all2 job_follows (readJobs s) js" "job_ok job" "jb_id job = uuid"
    "writeJobs (js @ [job]) s = Returns s1"
  shows "store_ok s1 \<and> jobs_follow s s1"
proof -
  have "map jb_id js = map jb_id (readJobs s)"
    using assms(3) by (induction rule: list_all2_induct) (auto simp: job_follows_def)
  then have "jb_id job \<notin> jb_id ` set js" using assms(2,5) by (metis fresh_id_def list.set_map List.member_iff)
  then have "carries_on s (js @ [job])" by (rule carries_on_new [OF follows_carries_on [OF assms(1,3)] _ assms(4)])
  then show ?thesis by (rule writeJobs_keeps [OF assms(1) _ assms(6)])
qed

lemma getHeartbeat_live: "getHeartbeat a s = Some j \<Longrightarrow> j \<in> set (readJobs s) \<and> live j"
proof -
  let ?xs = "filter (\<lambda>job. jb_activeSessionId job = a \<and> jb_source job = Some From_heartbeat \<and> live job) (readJobs s)"
  assume "getHeartbeat a s = Some j"
  then obtain js where "sort_key (\<lambda>job. - jb_updatedAt job) ?xs = j # js" by (auto simp: getHeartbeat_def split: list.splits)
  then have "j \<in> set ?xs" by (metis list.set_intros(1) set_sort)
  then show ?thesis by simp
qed

lemma live_not_ended: "live j \<Longrightarrow> \<not> ended j"
  by (auto simp: live_def ended_def)

lemma register_keeps:
  assumes "store_ok s" "registrable sid on_disk s" "path_kept sid path s" "registerSessionArtifact sid path on_disk s = (b, s1)"
  shows "store_ok s1 \<and> jobs_follow s s1"
proof (cases "st_artifactMode s \<and> map_of (st_paths s) sid \<noteq> Some path")
  case True
  then have free: "map_of (st_files s) sid = None" using assms(3) by (auto simp: path_kept_def)
  then have s1: "s1 = s\<lparr>st_paths := (sid, path) # st_paths s, st_files := st_files s @ [(sid, on_disk)]\<rparr>"
    using assms(4) True by (simp add: registerSessionArtifact_def)
  have rd: "readJobs s1 = readJobs s @ cs_jobs on_disk" by (simp add: s1 readJobs_map)
  have "sid \<notin> fst ` set (st_files s)" using free by (simp add: map_of_eq_None_iff)
  moreover have "distinct (map jb_id (readJobs s1))"
    using store_ok_ids [OF assms(1)] assms(2) by (simp add: rd registrable_def list_all_iff disjoint_iff) (metis imageE)
  ultimately have "store_ok s1" using assms(1,2) True by (simp add: store_ok_def s1 registrable_def list_all_iff)
  moreover have "jobs_follow s s1" unfolding jobs_follow_def rd using job_follows_refl by (metis UnI1 set_append)
  ultimately show ?thesis ..
next
  case False
  then have "s1 = s" using assms(4) by (auto simp: registerSessionArtifact_def split: if_splits)
  with assms(1) show ?thesis by simp
qed

lemma create_keeps:
  assumes "store_ok s" "fresh_id uuid s"
  shows "create_job z parse_date uuid now input s = Returns (s1, job) \<Longrightarrow> store_ok s1 \<and> jobs_follow s s1"
    and "createRlmHeartbeat z parse_date uuid now input s = Returns (s1, job) \<Longrightarrow> store_ok s1 \<and> jobs_follow s s1"
  using new_job_ok created_keeps [OF assms, of "readJobs s" job s1]
  by (auto simp: create_job_def createRlmHeartbeat_def Let_def Returns_and_then list_all2_refl split: if_splits)

lemma createHeartbeat_keeps:
  assumes "store_ok s" "fresh_id uuid s" "createHeartbeat z parse_date uuid now input s = Returns (s1, job)"
  shows "store_ok s1 \<and> jobs_follow s s1"
proof -
  let ?js = "map (\<lambda>job. if jb_activeSessionId job = ji_activeSessionId input \<and> jb_source job = Some From_heartbeat \<and> live job
                then stop_job Job_cancelled now job else job) (readJobs s)"
  have "list_all2 job_follows (readJobs s) ?js" by (simp add: list_all2_conv_all_nth stop_job_follows)
  then show ?thesis using assms(3) new_job_ok created_keeps [OF assms(1,2), of ?js job s1]
    by (auto simp: createHeartbeat_def Let_def Returns_and_then split: if_splits)
qed

lemma heartbeat_steps:
  assumes "store_ok s"
  shows "pauseHeartbeat a now s = Returns (s1, r) \<Longrightarrow> store_ok s1 \<and> jobs_follow s s1"
    and "clearHeartbeat a now s = Returns (s1, r) \<Longrightarrow> store_ok s1 \<and> jobs_follow s s1"
  using assms by (auto simp: pauseHeartbeat_def clearHeartbeat_def split: option.splits
      dest!: getHeartbeat_live live_not_ended dest: write_heartbeat_keeps [OF assms] intro: stop_job_follows)

lemma resumeHeartbeat_keeps:
  assumes "store_ok s" "resumeHeartbeat z a now s = Returns (s1, r)"
  shows "store_ok s1 \<and> jobs_follow s s1"
proof (cases "getHeartbeat a s")
  case None
  with assms show ?thesis by (simp add: resumeHeartbeat_def)
next
  case (Some current)
  then obtain t where t: "of_schedule (nextRunAtForSchedule z (jb_schedule current) now) = Returns (Some t)"
    and w: "write_heartbeat (\<lambda>job. job\<lparr>jb_status := Job_active, jb_nextRunAt := Some t, jb_updatedAt := now\<rparr>) current s = Returns (s1, r)"
    using assms(2) by (auto simp: resumeHeartbeat_def Returns_and_then split: option.splits)
  note c = getHeartbeat_live [OF Some]
  have "job_follows current (current\<lparr>jb_status := Job_active, jb_nextRunAt := Some t, jb_updatedAt := now\<rparr>)"
    using recurring_has_next [OF t] live_not_ended [of current] c
    by (simp add: job_follows_def pending_once_def job_ok_def ended_def)
  then show ?thesis using write_heartbeat_keeps [OF assms(1) _ _ w] c by simp
qed

lemma change_steps:
  assumes "store_ok s"
  shows "rebindSessionJobs resolve a b f c s = Returns (s1, js) \<Longrightarrow> store_ok s1 \<and> jobs_follow s s1"
    and "cancelRlmHeartbeatsForSession a now s = Returns (s1, js) \<Longrightarrow> store_ok s1 \<and> jobs_follow s s1"
    and "cancelJobsForSession resolve oa ob oc now s = Returns (s1, js) \<Longrightarrow> store_ok s1 \<and> jobs_follow s s1"
    and "deleteRlmHeartbeat a i now s = Returns (s1, r) \<Longrightarrow> store_ok s1 \<and> jobs_follow s s1"
    and "cancel_job i now s = Returns (s1, r) \<Longrightarrow> store_ok s1 \<and> jobs_follow s s1"
  unfolding rebindSessionJobs_def cancelRlmHeartbeatsForSession_def cancelJobsForSession_def deleteRlmHeartbeat_def cancel_job_def Let_def
  by (erule write_changed_keeps [OF assms, rotated] write_changed_one_keeps [OF assms, rotated],
      simp add: rebound_job_follows stop_job_follows)+

lemma update_steps:
  assumes "store_ok s"
  shows "updateRlmHeartbeat z parse_date a i u now s = Returns (s1, r) \<Longrightarrow> store_ok s1 \<and> jobs_follow s s1"
    and "manageHeartbeat z a i act now s = Returns (s1, r) \<Longrightarrow> store_ok s1 \<and> jobs_follow s s1"
    and "recordRunResult z i now err s = Returns (s1, r) \<Longrightarrow> store_ok s1 \<and> jobs_follow s s1"
    and "recordSkipResult z i now s = Returns (s1, r) \<Longrightarrow> store_ok s1 \<and> jobs_follow s s1"
proof -
  show "updateRlmHeartbeat z parse_date a i u now s = Returns (s1, r) \<Longrightarrow> store_ok s1 \<and> jobs_follow s s1"
    unfolding updateRlmHeartbeat_def by (erule update_or_throw_keeps [OF assms, rotated]) (simp add: update_heartbeat_follows)
  show "manageHeartbeat z a i act now s = Returns (s1, r) \<Longrightarrow> store_ok s1 \<and> jobs_follow s s1"
    unfolding manageHeartbeat_def
    by (erule update_or_throw_keeps [OF assms, rotated])
      (auto simp: stop_job_follows Returns_and_then resume_job_follows intro: updated_at_follows split: management_action.splits)
  show "recordRunResult z i now err s = Returns (s1, r) \<Longrightarrow> store_ok s1 \<and> jobs_follow s s1"
    unfolding recordRunResult_def
    by (erule update_or_throw_keeps [OF assms, rotated])
      (auto simp: Returns_and_then recurring_def job_follows_def ended_def pending_once_def job_ok_def
        dest!: recurring_has_next split: schedule_kind.splits if_splits)
  show "recordSkipResult z i now s = Returns (s1, r) \<Longrightarrow> store_ok s1 \<and> jobs_follow s s1"
    unfolding recordSkipResult_def
    by (erule update_or_throw_keeps [OF assms, rotated])
      (auto simp: Returns_and_then intro: skipped_job_follows split: if_splits)
qed

lemma recoverSessionArtifact_keeps:
  assumes "store_ok s" "recoverSessionArtifact sid now s = (s1, js)"
  shows "store_ok s1 \<and> jobs_follow s s1"
proof (cases "map_of (st_files s) sid")
  case None
  with assms show ?thesis by (simp add: recoverSessionArtifact_def)
next
  case (Some st)
  let ?gs = "map (\<lambda>(k, c). if k = sid then (k, fst (recoverInterruptedInState now None st)) else (k, c)) (st_files s)"
  have st: "\<forall>(k, c)\<in>set (st_files s). k = sid \<longrightarrow> c = st"
    using map_of_SomeD [OF Some] assms(1) by (auto simp: store_ok_def intro: eq_key_imp_eq_value)
  have "files_carry (st_files s) ?gs"
    using st recover_carries store_ok_state [OF assms(1)] state_carries_refl unfolding files_carry_def list_all2_map2
    by (auto simp: case_prod_unfold intro!: list.rel_refl_strong)
  then show ?thesis using files_carry_keeps [OF assms(1)] assms(2) by (auto simp: recoverSessionArtifact_def Some case_prod_unfold Let_def)
qed

lemma mutate_steps:
  assumes "store_ok s"
  shows "claimDue z new_id dueAt claimedAt s = (s1, out) \<Longrightarrow> store_ok s1 \<and> jobs_follow s s1"
    and "recordDispatchResult z d now result err s = (s1, out1) \<Longrightarrow> store_ok s1 \<and> jobs_follow s s1"
    and "recoverInterruptedDispatches now s = (s1, out1) \<Longrightarrow> store_ok s1 \<and> jobs_follow s s1"
    and "recoverInterruptedDispatchesById ids now s = (s1, out1) \<Longrightarrow> store_ok s1 \<and> jobs_follow s s1"
proof -
  have recover: "keeps_files (\<lambda>st. Returns (recoverInterruptedInState now is st))" for "is"
    using recover_carries unfolding keeps_files_def by (metis fst_conv outcome.inject(2))
  show "claimDue z new_id dueAt claimedAt s = (s1, out) \<Longrightarrow> store_ok s1 \<and> jobs_follow s s1"
    unfolding claimDue_def by (rule mutateStates_keeps [OF assms claimDueInState_keeps])
  show "recordDispatchResult z d now result err s = (s1, out1) \<Longrightarrow> store_ok s1 \<and> jobs_follow s s1"
    unfolding recordDispatchResult_def by (rule mutateStates_keeps [OF assms finish_dispatch_keeps])
  show "recoverInterruptedDispatches now s = (s1, out1) \<Longrightarrow> store_ok s1 \<and> jobs_follow s s1"
    unfolding recoverInterruptedDispatches_def by (rule mutateStates_keeps [OF assms recover])
  show "recoverInterruptedDispatchesById ids now s = (s1, out1) \<Longrightarrow> store_ok s1 \<and> jobs_follow s s1"
    unfolding recoverInterruptedDispatchesById_def by (rule mutateStates_keeps [OF assms recover])
qed

lemma cron_step_keeps: "cron_step s s1 \<Longrightarrow> store_ok s \<Longrightarrow> store_ok s1 \<and> jobs_follow s s1"
  by (induction rule: cron_step.induct)
    (blast dest: register_keeps create_keeps createHeartbeat_keeps heartbeat_steps resumeHeartbeat_keeps change_steps update_steps
      recoverSessionArtifact_keeps mutate_steps)+

end
