(* ===== verification/Cron_Next.thy ===== *)
theory Cron_Next
  imports Cron_Schedule
begin

text \<open>
  What schedules mean: the values of the fields of a cron expression, the next run as the first
  match in a zone without transitions, and two boundary cases, a clock that is set back and a date
  that is rare.
\<close>

section \<open>Cron fields\<close>

lemma steps_member: "x \<in> set (steps start stop step) \<longleftrightarrow> step > 0 \<and> start \<le> x \<and> x \<le> stop \<and> step dvd x - start"
proof (induction start stop step rule: steps.induct)
  case (1 start stop step)
  show ?case
  proof (cases "start \<le> stop \<and> step > 0")
    case True
    then have s: "steps start stop step = start # steps (start + step) stop step" by (simp add: steps.simps)
    have shift: "(step dvd x - (start + step)) = (step dvd x - start)"
      using dvd_add_times_triv_right_iff [of step "x - start" "- 1"] by (simp add: algebra_simps)
    have nxt: "x = start \<or> start + step \<le> x" if "start \<le> x" "step dvd x - start"
      using that True zdvd_imp_le [of step "x - start"] by fastforce
    show ?thesis using True 1 [OF True] nxt shift unfolding s by auto
  next
    case False
    then have "steps start stop step = []" by (simp add: steps.simps)
    with False show ?thesis by auto
  qed
qed











section \<open>The next run in a zone without transitions\<close>

lemma fixed_zone_steps [simp]:
  "next_minute (fixed_zone off) t = t + 60000"
  "clear_seconds (fixed_zone off) t = (t + off) div 60000 * 60000 - off"
  by (simp_all add: next_minute_def clear_seconds_def fixed_zone_def local_time_def)

text \<open>The search as a search through a list, for zones in which a minute always lasts a minute.\<close>

lemma search_is_find:
  assumes "\<forall>t. next_minute z t = t + 60000"
  shows "cron_search z cfs (c + 60000 * int n) c = Some (find (\<lambda>t. matchesCronFields z t cfs) (map (\<lambda>k. c + 60000 * int k) [0..<Suc n]))"
proof (induction n arbitrary: c)
  case 0
  show ?case using assms by (simp add: cron_search.simps [of _ _ _ c] cron_search.simps [of _ _ _ "c + 60000"])
next
  case (Suc n)
  have e: "c + 60000 * int (Suc n) = (c + 60000) + 60000 * int n" by simp
  have l: "map (\<lambda>k. c + 60000 * int k) [0..<Suc (Suc n)] = c # map (\<lambda>k. c + 60000 + 60000 * int k) [0..<Suc n]"
    unfolding map_upt_Suc [of _ "Suc n"] by simp
  show ?case using assms Suc.IH [of "c + 60000"] unfolding cron_search.simps [of _ _ _ c] l e by (simp del: upt_Suc)
qed

text \<open>
  The reference: the first matching minute of the list of all minutes from the one after
  \<open>after\<close>, for 366 days.
\<close>

definition minute_after :: "int \<Rightarrow> int \<Rightarrow> int" where
  "minute_after off after = ((after + off) div 60000 + 1) * 60000 - off"

definition minutes_of_a_year :: "int \<Rightarrow> int \<Rightarrow> int list" where
  "minutes_of_a_year off after = map (\<lambda>k. minute_after off after + 60000 * int k) [0..<366 * 24 * 60 + 1]"

definition first_run :: "int \<Rightarrow> string \<Rightarrow> int \<Rightarrow> cron_error + int" where
  "first_run off expression after =
     (case parseCronExpression expression of
        Inl e \<Rightarrow> Inl e
      | Inr cfs \<Rightarrow> (case find (\<lambda>t. matchesCronFields (fixed_zone off) t cfs) (minutes_of_a_year off after) of
          Some t \<Rightarrow> Inr t | None \<Rightarrow> Inl (No_match_within_a_year expression)))"

lemma minute_after_bounds: "after < minute_after off after \<and> minute_after off after \<le> after + 60000"
  unfolding minute_after_def by (simp add: algebra_simps) linarith

lemma next_run_fixed: "nextCronRunAfter (fixed_zone off) expression after = Some (first_run off expression after)"
proof -
  have start: "next_minute (fixed_zone off) (clear_seconds (fixed_zone off) after) = minute_after off after"
    by (simp add: minute_after_def algebra_simps)
  have year: "366 * 24 * 60 * ONE_MINUTE_MS = 60000 * int (366 * 24 * 60)" by (simp add: ONE_MINUTE_MS_def)
  have search: "cron_search (fixed_zone off) cfs (minute_after off after + 366 * 24 * 60 * ONE_MINUTE_MS) (minute_after off after)
      = Some (find (\<lambda>t. matchesCronFields (fixed_zone off) t cfs) (minutes_of_a_year off after))" for cfs
    unfolding year minutes_of_a_year_def Suc_eq_plus1 [symmetric] by (rule search_is_find) simp
  show ?thesis unfolding nextCronRunAfter_def Let_def start search first_run_def by (auto split: sum.splits option.splits)
qed

text \<open>
  C39: the next run is the first match. In a zone without transitions the search for the next run
  of a cron expression always ends, with the first of the minutes of the following 366 days that
  the expression matches, or with an error when it matches none of them; and the first of these
  minutes is after the given time by at most a minute.
\<close>
theorem next_run_is_first_match:
  "nextCronRunAfter (fixed_zone off) expression after = Some (first_run off expression after)
   \<and> after < hd (minutes_of_a_year off after) \<and> hd (minutes_of_a_year off after) \<le> after + 60000"
proof -
  have "hd (minutes_of_a_year off after) = minute_after off after"
    by (simp add: minutes_of_a_year_def hd_map del: upt_Suc)
  with minute_after_bounds [of after off] next_run_fixed show ?thesis by simp
qed

section \<open>Clocks that are set back\<close>

text \<open>
  A zone that is an hour ahead until an instant and then is not: the local times of an hour are
  repeated, and a local time stands for the first of its instants.
\<close>

definition clock_back_at :: "int \<Rightarrow> time_zone" where
  "clock_back_at t0 = \<lparr>tz_offset = \<lambda>t. if t < t0 then 3600000 else 0,
     tz_instant = \<lambda>l. if l - 3600000 < t0 then l - 3600000 else l\<rparr>"

text \<open>In the repeated hour the next run is before the time it is computed for.\<close>

lemma next_run_in_the_past:
  "nextCronRunAfter (clock_back_at 0) ''* * * * *'' 300000 = Some (Inr (-3240000))"
proof -
  have p: "parseCronExpression ''* * * * *'' = Inr \<lparr>cf_minute = steps 0 59 1, cf_hour = steps 0 23 1,
      cf_dayOfMonth = steps 1 31 1, cf_month = steps 1 12 1, cf_dayOfWeek = steps 0 7 1\<rparr>"
    by code_simp
  let ?f = "\<lparr>cf_minute = steps 0 59 1, cf_hour = steps 0 23 1, cf_dayOfMonth = steps 1 31 1, cf_month = steps 1 12 1, cf_dayOfWeek = steps 0 7 1\<rparr>"
  have start: "next_minute (clock_back_at 0) (clear_seconds (clock_back_at 0) 300000) = - 3240000"
    by (simp add: next_minute_def clear_seconds_def clock_back_at_def local_time_def)
  have day: "local_day (clock_back_at 0) (- 3240000) = 0"
    by (simp add: local_day_def clock_back_at_def local_time_def)
  have local: "local_time (clock_back_at 0) (- 3240000) = 360000" by (simp add: local_time_def clock_back_at_def)
  have "civil_month_day 0 = (1, 1)" by (simp add: civil_month_day_def)
  then have "matchesCronFields (clock_back_at 0) (- 3240000) ?f"
    by (simp add: matchesCronFields_def steps_member getMinutes_def getHours_def getDay_def getDate_def getMonth_def day local Let_def)
  then show ?thesis
    by (simp add: nextCronRunAfter_def p Let_def start cron_search.simps [of _ _ _ "- 3240000"] ONE_MINUTE_MS_def)
qed

section \<open>Dates that are rare\<close>

text \<open>The days from March 2028 to February 2029 are not leap days.\<close>

lemma no_leap_day:
  assumes "21244 \<le> day" "day \<le> 21609"
  shows "civil_month_day day \<noteq> (2, 29)"
proof -
  define doe where "doe = (day + 719468) mod 146097"
  have doe: "doe = day - 11017" unfolding doe_def by (rule int_mod_pos_eq [where q = 5]) (use assms in auto)
  have q: "doe div 1460 = 7" by (rule int_div_pos_eq [where r = "doe - 10220"]) (use assms doe in auto)
  have q0: "doe div 36524 = 0" "doe div 146096 = 0" using assms doe by auto
  define yoe where "yoe = (doe - doe div 1460 + doe div 36524 - doe div 146096) div 365"
  have "yoe = (if doe \<le> 10591 then 28 else 29)"
    unfolding yoe_def q q0 by (rule int_div_pos_eq [where r = "doe - 7 - (if doe \<le> 10591 then 10220 else 10585)"]) (use doe assms in auto)
  moreover define doy where "doy = doe - (365 * yoe + yoe div 4 - yoe div 100)"
  ultimately have doy: "0 \<le> doy \<and> doy \<le> 364" using doe assms by auto
  define mp where "mp = (5 * doy + 2) div 153"
  have c: "civil_month_day day = (if mp < 10 then mp + 3 else mp - 9, doy - (153 * mp + 2) div 5 + 1)"
    unfolding civil_month_day_def Let_def mp_def doy_def yoe_def doe_def by (rule refl)
  have pos: "mp \<ge> 0" unfolding mp_def using doy by (simp add: pos_imp_zdiv_nonneg_iff)
  show ?thesis
  proof
    assume "civil_month_day day = (2, 29)"
    then have "mp = 11" "doy - (153 * mp + 2) div 5 + 1 = 29" using c pos by (auto split: if_splits)
    with doy show False by simp
  qed
qed

definition LEAP_DAY :: int where
  "LEAP_DAY = 21243 * 86400000"

lemma leap_day_expression: "parseCronExpression ''0 0 29 2 *''
    = Inr \<lparr>cf_minute = [0], cf_hour = [0], cf_dayOfMonth = [29], cf_month = [2], cf_dayOfWeek = steps 0 7 1\<rparr>"
  by code_simp

text \<open>On a leap day, the leap day after it is not found.\<close>

lemma leap_day_not_found:
  "nextCronRunAfter (fixed_zone 0) ''0 0 29 2 *'' LEAP_DAY = Some (Inl (No_match_within_a_year ''0 0 29 2 *''))"
proof -
  let ?f = "\<lparr>cf_minute = [0], cf_hour = [0], cf_dayOfMonth = [29], cf_month = [2], cf_dayOfWeek = steps 0 7 1\<rparr>"
  have "\<not> matchesCronFields (fixed_zone 0) t ?f" if t: "t \<in> set (minutes_of_a_year 0 LEAP_DAY)" for t
  proof
    assume m: "matchesCronFields (fixed_zone 0) t ?f"
    obtain k where k: "t = minute_after 0 LEAP_DAY + 60000 * int k" "k < 366 * 24 * 60 + 1"
      using t by (auto simp: minutes_of_a_year_def simp del: upt_Suc upt_rec_numeral)
    have tk: "t = 60000 * (30589921 + int k)" "int k \<le> 527040" using k by (auto simp: minute_after_def LEAP_DAY_def)
    have z: "t div 60000 mod 60 = 0" "t div 3600000 mod 24 = 0" "civil_month_day (t div 86400000) = (2, 29)"
      using m by (auto simp: matchesCronFields_def getMinutes_def getHours_def getDate_def getMonth_def local_day_def local_time_def
          fixed_zone_def Let_def prod_eq_iff)
    define m where "m = 30589921 + int k"
    have d: "t div 60000 = m" "t div 3600000 = m div 60" "t div 86400000 = m div 1440"
      using zdiv_zmult2_eq [of 60 t 60000] zdiv_zmult2_eq [of 1440 t 60000] by (simp_all add: tk(1) m_def)
    have "m mod 60 = 0" "m div 60 mod 24 = 0" using z(1,2) unfolding d .
    then have "m = 60 * (m div 60)" "m div 60 = 24 * (m div 60 div 24)"
      using mult_div_mod_eq [of 60 m] mult_div_mod_eq [of 24 "m div 60"] by linarith+
    moreover have "m div 60 div 24 = m div 1440" using zdiv_zmult2_eq [of 24 m 60] by simp
    ultimately have "m = 1440 * (m div 1440)" by linarith
    then have "21244 \<le> m div 1440 \<and> m div 1440 \<le> 21609" using tk(2) unfolding m_def by linarith
    with no_leap_day z(3) show False unfolding d by blast
  qed
  then have "find (\<lambda>t. matchesCronFields (fixed_zone 0) t ?f) (minutes_of_a_year 0 LEAP_DAY) = None" by (auto simp: find_None_iff)
  then show ?thesis by (simp add: next_run_fixed first_run_def leap_day_expression)
qed

end
