(* ===== verification/Cron_Claims.thy ===== *)
theory Cron_Claims
  imports Cron_Invariant Cron_Next
begin

text \<open>
  What claims of due jobs do in every store that can be reached, and what happens when one
  fails.
\<close>

section \<open>Stores that can be reached\<close>

text \<open>A store starts on no file, or on the file it is given.\<close>

definition cron_init :: "cron_store \<Rightarrow> bool" where
  "cron_init s = (if st_artifactMode s then st_files s = []
     else length (st_files s) \<le> 1 \<and> list_all (\<lambda>(k, st). state_ok st \<and> distinct (map jb_id (cs_jobs st))) (st_files s))"

lemma cron_init_ok: "cron_init s \<Longrightarrow> store_ok s"
  by (cases "st_files s") (auto simp: cron_init_def store_ok_def readJobs_map split: if_splits)

interpretation cron_machine: invariant_machine cron_init cron_step store_ok
  by unfold_locales (auto intro: cron_init_ok dest: cron_step_keeps)

lemma cron_steps_follow: "cron_step\<^sup>*\<^sup>* s t \<Longrightarrow> store_ok s \<Longrightarrow> jobs_follow s t"
proof (induction rule: rtranclp_induct)
  case (step t u)
  then show ?case using cron_step_keeps [OF step.hyps(2)] cron_machine.inv_steps [OF step.hyps(1)] jobs_follow_trans by blast
qed simp

section \<open>Claims\<close>

definition claimed_ids_of :: "cron_store \<Rightarrow> string list" where
  "claimed_ids_of s = map dr_jobId (concat (map cs_dispatches (readStates s)))"

text \<open>An element of a list of disjoint lists belongs to one of them.\<close>

lemma distinct_owner:
  "distinct (concat (map (\<lambda>f. map g (h f)) fs)) \<Longrightarrow> f \<in> set fs \<Longrightarrow> e \<in> set fs \<Longrightarrow> x \<in> set (h f) \<Longrightarrow> y \<in> set (h e) \<Longrightarrow> g x = g y \<Longrightarrow> f = e"
proof (induction fs)
  case (Cons a fs)
  have d: "set (map g (h a)) \<inter> set (concat (map (\<lambda>f. map g (h f)) fs)) = {}" using Cons.prems(1) by simp
  have out: "g u \<notin> set (map g (h a))" if "b \<in> set fs" "u \<in> set (h b)" for b u
    using d that by auto
  show ?case
    using Cons out [of e y] out [of f x] imageI [of x "set (h a)" g] imageI [of y "set (h a)" g] by auto
qed simp

abbreviation all_jobs :: "(string \<times> cron_state) list \<Rightarrow> cron_job list" where
  "all_jobs files \<equiv> concat (map (\<lambda>f. cs_jobs (snd f)) files)"

abbreviation ids_claimed :: "cron_state \<Rightarrow> string list" where
  "ids_claimed st \<equiv> map dr_jobId (cs_dispatches st)"

lemma readJobs_all: "readJobs s = all_jobs (st_files s)"
  by (simp add: readJobs_map case_prod_unfold)

lemma map_filter_append: "List.map_filter f (xs @ ys) = List.map_filter f xs @ List.map_filter f ys"
  by (simp add: map_filter_def)

text \<open>What is claimed does not depend on the file a dispatch is in.\<close>

lemma claim_one_ids: "(jb_id job \<in> set ids) = (jb_id job \<in> set ids1) \<Longrightarrow>
    claim_one z new_id dueAt claimedAt ids job = claim_one z new_id dueAt claimedAt ids1 job"
  by (simp add: claim_one_def)

text \<open>A claim over all files is a claim over all jobs.\<close>

lemma claim_files:
  assumes "mutate_files (claimDueInState z new_id dueAt claimedAt) fs = (gs, Returns out)"
    "\<forall>f\<in>set fs. \<forall>j\<in>set (cs_jobs (snd f)). (jb_id j \<in> set (ids_claimed (snd f))) = (jb_id j \<in> set ids)"
  shows "\<exists>rs. list_all2 (\<lambda>j q. claim_one z new_id dueAt claimedAt ids j = Returns q) (all_jobs fs) rs
     \<and> all_jobs gs = map fst rs \<and> out = map snd (List.map_filter snd rs)
     \<and> set (concat (map (\<lambda>f. ids_claimed (snd f)) gs))
         = set (concat (map (\<lambda>f. ids_claimed (snd f)) fs)) \<union> (\<lambda>c. dr_jobId (fst c)) ` set (List.map_filter snd rs)"
  using assms
proof (induction fs arbitrary: gs out)
  case (Cons f fs)
  obtain k st where f: "f = (k, st)" by (cases f)
  obtain st1 o1 where c: "claimDueInState z new_id dueAt claimedAt st = Returns (st1, o1)"
    using Cons.prems(1) by (auto simp: f split: outcome.splits)
  obtain gs1 r where m: "mutate_files (claimDueInState z new_id dueAt claimedAt) fs = (gs1, r)" by fastforce
  obtain o2 where o2: "r = Returns o2" "out = o1 @ o2" "gs = (k, st1) # gs1"
    using Cons.prems(1) by (auto simp: f c m Returns_and_then)
  obtain rs1 where rs1: "map_outcome (claim_one z new_id dueAt claimedAt (ids_claimed st)) (cs_jobs st) = Returns rs1"
    and st1: "cs_jobs st1 = map fst rs1" "o1 = map snd (List.map_filter snd rs1)"
      "ids_claimed st1 = ids_claimed st @ map (\<lambda>c. dr_jobId (fst c)) (List.map_filter snd rs1)"
    using c by (auto simp: claimDueInState_def Returns_and_then Let_def)
  have "list_all2 (\<lambda>j q. claim_one z new_id dueAt claimedAt ids j = Returns q) (cs_jobs st) rs1"
    using map_outcome_list_all2 [OF rs1] claim_one_ids [of _ "ids_claimed st" ids] Cons.prems(2)
    by (auto simp: f list_all2_conv_all_nth)
  moreover obtain rs2 where "list_all2 (\<lambda>j q. claim_one z new_id dueAt claimedAt ids j = Returns q) (all_jobs fs) rs2"
    "all_jobs gs1 = map fst rs2" "o2 = map snd (List.map_filter snd rs2)"
    "set (concat (map (\<lambda>f. ids_claimed (snd f)) gs1))
       = set (concat (map (\<lambda>f. ids_claimed (snd f)) fs)) \<union> (\<lambda>c. dr_jobId (fst c)) ` set (List.map_filter snd rs2)"
    using Cons.IH [OF m [unfolded o2(1)]] Cons.prems(2) by auto
  ultimately show ?case
    by (intro exI [of _ "rs1 @ rs2"]) (auto simp add: f o2 st1 list_all2_appendI map_filter_append simp del: set_concat map_map)
qed (auto simp: map_filter_simps)

lemma claimed_locally:
  assumes "store_ok s" "f \<in> set (st_files s)" "j \<in> set (cs_jobs (snd f))"
  shows "(jb_id j \<in> set (ids_claimed (snd f))) = (jb_id j \<in> set (claimed_ids_of s))"
proof
  show "jb_id j \<in> set (claimed_ids_of s)" if "jb_id j \<in> set (ids_claimed (snd f))"
    using that assms(2) by (auto simp: claimed_ids_of_def readStates_def)
  assume "jb_id j \<in> set (claimed_ids_of s)"
  then obtain g where g: "g \<in> set (st_files s)" "jb_id j \<in> set (ids_claimed (snd g))"
    by (auto simp: claimed_ids_of_def readStates_def)
  then obtain k where k: "k \<in> set (cs_jobs (snd g))" "jb_id k = jb_id j"
    using store_ok_state [OF assms(1), of "fst g" "snd g"] by (auto simp: state_ok_def list_all_iff)
  have "distinct (concat (map (\<lambda>f. map jb_id (cs_jobs (snd f))) (st_files s)))"
    using store_ok_ids [OF assms(1)] by (simp add: readJobs_all map_concat o_def)
  then have "f = g" using distinct_owner [OF _ assms(2) g(1) assms(3) k(1), where g = jb_id] k(2) by simp
  then show "jb_id j \<in> set (ids_claimed (snd f))" using g(2) by simp
qed

text \<open>A claim on a store, as a claim on its jobs.\<close>

lemma claimDue_jobs:
  assumes "store_ok s" "claimDue z new_id dueAt claimedAt s = (s1, Returns ds)"
  obtains rs where "list_all2 (\<lambda>j q. claim_one z new_id dueAt claimedAt (claimed_ids_of s) j = Returns q) (readJobs s) rs"
    "readJobs s1 = map fst rs" "ds = map snd (List.map_filter snd rs)"
    "set (claimed_ids_of s1) = set (claimed_ids_of s) \<union> (\<lambda>c. dr_jobId (fst c)) ` set (List.map_filter snd rs)"
proof -
  obtain gs where m: "mutate_files (claimDueInState z new_id dueAt claimedAt) (st_files s) = (gs, Returns ds)" and s1: "s1 = s\<lparr>st_files := gs\<rparr>"
    using assms(2) by (auto simp: claimDue_def mutateStates_def Let_def split: prod.splits)
  have ids: "claimed_ids_of t = concat (map (\<lambda>f. ids_claimed (snd f)) (st_files t))" for t
    by (simp add: claimed_ids_of_def readStates_def map_concat o_def)
  have local: "\<forall>f\<in>set (st_files s). \<forall>j\<in>set (cs_jobs (snd f)). (jb_id j \<in> set (ids_claimed (snd f))) = (jb_id j \<in> set (claimed_ids_of s))"
    using claimed_locally [OF assms(1)] by blast
  obtain rs where rs: "list_all2 (\<lambda>j q. claim_one z new_id dueAt claimedAt (claimed_ids_of s) j = Returns q) (all_jobs (st_files s)) rs"
    "all_jobs gs = map fst rs" "ds = map snd (List.map_filter snd rs)"
    "set (concat (map (\<lambda>f. ids_claimed (snd f)) gs))
      = set (concat (map (\<lambda>f. ids_claimed (snd f)) (st_files s))) \<union> (\<lambda>c. dr_jobId (fst c)) ` set (List.map_filter snd rs)"
    using claim_files [OF m local] by blast
  show thesis
    by (rule that [of rs]) (use rs in \<open>simp_all add: readJobs_all ids s1 del: set_concat map_map set_map\<close>)
qed

definition after_claim :: "time_zone \<Rightarrow> int \<Rightarrow> int \<Rightarrow> cron_job \<Rightarrow> cron_job \<Rightarrow> bool" where
  "after_claim z dueAt claimedAt j j1 =
     (if isDueJob j dueAt
      then jb_id j1 = jb_id j \<and> jb_status j1 = Job_active \<and> jb_schedule j1 = jb_schedule j
        \<and> nextRunAtForSchedule z (jb_schedule j) claimedAt = Some (Inr (jb_nextRunAt j1))
      else j1 = j)"

lemma of_schedule_Returns: "of_schedule r = Returns v \<longleftrightarrow> r = Some (Inr v)"
  by (auto simp: of_schedule_def split: option.splits sum.splits)

lemma claim_one_cases:
  assumes "claim_one z new_id dueAt claimedAt ids j = Returns q"
  shows "after_claim z dueAt claimedAt j (fst q)
    \<and> (case snd q of None \<Rightarrow> \<not> (isDueJob j dueAt \<and> jb_id j \<notin> set ids)
       | Some (r, d) \<Rightarrow> isDueJob j dueAt \<and> jb_id j \<notin> set ids \<and> dr_jobId r = jb_id j \<and> di_job d = fst q)"
  using assms by (auto simp: claim_one_def after_claim_def Returns_and_then of_schedule_Returns Let_def isDueJob_def split: if_splits)

lemma claimed_jobs:
  "list_all2 (\<lambda>j q. claim_one z new_id dueAt claimedAt ids j = Returns q) js rs \<Longrightarrow>
     list_all2 (after_claim z dueAt claimedAt) js (map fst rs)
     \<and> map (\<lambda>c. jb_id (di_job (snd c))) (List.map_filter snd rs) = map jb_id (filter (\<lambda>j. isDueJob j dueAt \<and> jb_id j \<notin> set ids) js)
     \<and> map (\<lambda>c. dr_jobId (fst c)) (List.map_filter snd rs) = map jb_id (filter (\<lambda>j. isDueJob j dueAt \<and> jb_id j \<notin> set ids) js)"
proof (induction rule: list_all2_induct)
  case (Cons j js q rs)
  have "jb_id (fst q) = jb_id j" using claim_one_cases [OF Cons.hyps(1)] by (auto simp: after_claim_def split: if_splits)
  then show ?case using Cons.IH claim_one_cases [OF Cons.hyps(1)] by (cases "snd q") (auto simp: map_filter_simps)
qed (simp add: map_filter_simps)

text \<open>A store for the examples: a one-shot job and one that recurs.\<close>

definition sample_job :: "string \<Rightarrow> schedule \<Rightarrow> int \<Rightarrow> cron_job" where
  "sample_job i sched next_run = \<lparr>jb_id = i, jb_status = Job_active, jb_source = None, jb_runtimeKind = None, jb_deliveryMode = None,
     jb_activeSessionId = ''s'', jb_sessionId = ''s'', jb_sessionFile = ''f'', jb_cwd = ''d'', jb_label = None, jb_prompt = ''p'',
     jb_schedule = sched, jb_createdAt = 0, jb_updatedAt = 0, jb_nextRunAt = Some next_run, jb_lastRunAt = None,
     jb_lastSkippedAt = None, jb_lastError = None, jb_runCount = 0\<rparr>"

definition one_shot_sample :: cron_job where
  "one_shot_sample = sample_job ''a'' \<lparr>sc_kind = Once_schedule, sc_expression = ''in 1m'', sc_intervalMs = None\<rparr> 60000"

definition recurring_sample :: cron_job where
  "recurring_sample = sample_job ''b'' \<lparr>sc_kind = Interval_schedule, sc_expression = ''every 2m'', sc_intervalMs = Some 120000\<rparr> 120000"

definition busy_store :: cron_store where
  "busy_store = \<lparr>st_artifactMode = False, st_paths = [], st_files = [(''jobs'', \<lparr>cs_jobs = [one_shot_sample, recurring_sample], cs_dispatches = []\<rparr>)]\<rparr>"

text \<open>
  C37: a claim takes exactly the jobs that are due. From a store that can be reached, a claim that
  returns gives one dispatch for each job that is due and not claimed already, in the order of the
  jobs; every due job is moved to the next run its schedule gives, the other jobs are untouched;
  and afterwards the claimed jobs are those that were claimed before and those that were due.
\<close>
theorem claim_takes_the_due_jobs:
  assumes "reach cron_init cron_step s" "claimDue z new_id dueAt claimedAt s = (s1, Returns ds)"
  shows "map (\<lambda>d. jb_id (di_job d)) ds = map jb_id (filter (\<lambda>j. isDueJob j dueAt \<and> jb_id j \<notin> set (claimed_ids_of s)) (readJobs s))
    \<and> list_all2 (after_claim z dueAt claimedAt) (readJobs s) (readJobs s1)
    \<and> set (claimed_ids_of s1) = set (claimed_ids_of s) \<union> jb_id ` set (filter (\<lambda>j. isDueJob j dueAt) (readJobs s))"
proof -
  note ok = cron_machine.inv_reach [OF assms(1)]
  obtain rs where rs: "list_all2 (\<lambda>j q. claim_one z new_id dueAt claimedAt (claimed_ids_of s) j = Returns q) (readJobs s) rs"
    "readJobs s1 = map fst rs" "ds = map snd (List.map_filter snd rs)"
    "set (claimed_ids_of s1) = set (claimed_ids_of s) \<union> (\<lambda>c. dr_jobId (fst c)) ` set (List.map_filter snd rs)"
    by (rule claimDue_jobs [OF ok assms(2)])
  note c = claimed_jobs [OF rs(1)]
  have "(\<lambda>c. dr_jobId (fst c)) ` set (List.map_filter snd rs)
      = jb_id ` set (filter (\<lambda>j. isDueJob j dueAt \<and> jb_id j \<notin> set (claimed_ids_of s)) (readJobs s))"
    using c by (metis list.set_map)
  then show ?thesis using c rs by (auto simp: o_def)
qed

lemma busy_store_init: "reach cron_init cron_step busy_store"
  by (rule reach_init)
    (simp add: cron_init_def busy_store_def state_ok_def job_ok_def one_shot_sample_def recurring_sample_def sample_job_def)

definition claimed_one_shot :: cron_job where
  "claimed_one_shot = one_shot_sample\<lparr>jb_nextRunAt := None, jb_updatedAt := 60001\<rparr>"

definition claimed_store :: cron_store where
  "claimed_store = \<lparr>st_artifactMode = False, st_paths = [], st_files = [(''jobs'', \<lparr>cs_jobs = [claimed_one_shot, recurring_sample],
     cs_dispatches = [\<lparr>dr_id = ''a'', dr_jobId = ''a'', dr_claimedAt = 60001, dr_scheduledFor = 60000\<rparr>]\<rparr>)]\<rparr>"

lemma busy_store_claim:
  "claimDue (fixed_zone 0) (\<lambda>i. i) 60000 60001 busy_store = (claimed_store, Returns [\<lparr>di_id = ''a'', di_job = claimed_one_shot\<rparr>])"
  by (simp add: busy_store_def claimed_store_def claimed_one_shot_def claimDue_def mutateStates_def claimDueInState_def claim_one_def
      isDueJob_def nextRunAtForSchedule_def of_schedule_def and_then_def map_filter_simps one_shot_sample_def recurring_sample_def
      sample_job_def Let_def)

lemma claim_takes_the_due_jobs_witness:
  "list_all2 (after_claim (fixed_zone 0) 60000 60001) (readJobs busy_store) (readJobs claimed_store)
   \<and> set (claimed_ids_of claimed_store) = set (claimed_ids_of busy_store) \<union> jb_id ` set (filter (\<lambda>j. isDueJob j 60000) (readJobs busy_store))"
  using claim_takes_the_due_jobs [OF busy_store_init busy_store_claim] by simp

section \<open>Ends are final\<close>

lemma later_job:
  assumes "store_ok s" "j \<in> set (readJobs s)" "cron_step\<^sup>*\<^sup>* s t"
  obtains j1 where "j1 \<in> set (readJobs t)" "job_follows j j1" "jb_id j1 = jb_id j"
  using cron_steps_follow [OF assms(3,1)] assms(2) by (auto simp: jobs_follow_def job_follows_def)

text \<open>The job of a dispatch, before and after the claim.\<close>

lemma claimed_job:
  assumes "store_ok s" "claimDue z new_id dueAt claimedAt s = (s1, Returns ds)" "d \<in> set ds"
  obtains j where "j \<in> set (readJobs s)" "isDueJob j dueAt" "di_job d \<in> set (readJobs s1)" "job_follows j (di_job d)"
    "\<not> pending_once (di_job d)" "jb_schedule (di_job d) = jb_schedule j"
proof -
  obtain rs where rs: "list_all2 (\<lambda>j q. claim_one z new_id dueAt claimedAt (claimed_ids_of s) j = Returns q) (readJobs s) rs"
    "readJobs s1 = map fst rs" "ds = map snd (List.map_filter snd rs)"
    by (rule claimDue_jobs [OF assms(1,2)])
  from assms(3) obtain r j1 where q: "(j1, Some (r, d)) \<in> set rs" by (auto simp: rs(3) map_filter_def)
  then obtain i where i: "i < length rs" "rs ! i = (j1, Some (r, d))" by (metis in_set_conv_nth)
  have "claim_one z new_id dueAt claimedAt (claimed_ids_of s) (readJobs s ! i) = Returns (j1, Some (r, d))"
    using list_all2_nthD2 [OF rs(1) i(1)] i(2) by simp
  note f = claim_one_follows [OF this] claim_one_cases [OF this]
  have "readJobs s ! i \<in> set (readJobs s)" using i(1) list_all2_lengthD [OF rs(1)] by simp
  moreover have "j1 \<in> set (readJobs s1)" using q by (force simp: rs(2))
  ultimately show thesis using f by (intro that [of "readJobs s ! i"]) (auto simp: after_claim_def)
qed

text \<open>
  A job that has ended never runs again. When a job of a reachable store is cancelled or
  completed, then after any further operations of the store it is still there and still ended, and
  no claim gives a dispatch for it.
\<close>
lemma ended_jobs_never_run:
  assumes "reach cron_init cron_step s" "j \<in> set (readJobs s)" "ended j" "cron_step\<^sup>*\<^sup>* s t"
    "claimDue z new_id dueAt claimedAt t = (u, Returns ds)"
  shows "(\<exists>j1\<in>set (readJobs t). jb_id j1 = jb_id j \<and> ended j1) \<and> list_all (\<lambda>d. jb_id (di_job d) \<noteq> jb_id j) ds"
proof -
  have ok: "store_ok s" "store_ok t"
    using cron_machine.inv_reach [OF assms(1)] cron_machine.inv_steps [OF assms(4)] by blast+
  obtain j1 where j1: "j1 \<in> set (readJobs t)" "job_follows j j1" "jb_id j1 = jb_id j"
    by (rule later_job [OF ok(1) assms(2,4)])
  have e: "ended j1" using j1(2) assms(3) by (simp add: job_follows_def)
  have "jb_id (di_job d) \<noteq> jb_id j" if d: "d \<in> set ds" for d
  proof
    assume same: "jb_id (di_job d) = jb_id j"
    obtain k where k: "k \<in> set (readJobs t)" "isDueJob k dueAt" "job_follows k (di_job d)"
      by (rule claimed_job [OF ok(2) assms(5) d])
    have "jb_id k = jb_id j1" using k(3) same j1(3) unfolding job_follows_def by metis
    then have "k = j1" by (rule same_id_same_job [OF store_ok_ids [OF ok(2)] k(1) j1(1)])
    with k(2) e show False by (auto simp: isDueJob_def ended_def)
  qed
  then show ?thesis using j1 e by (auto simp: list_all_iff)
qed

text \<open>
  C38: a one-shot job is run at most once. After a dispatch of a job was claimed from a reachable
  store, and any further operations, a claim does not give a dispatch of the same job again unless
  the job now has a schedule that recurs.
\<close>
theorem one_shot_runs_once:
  assumes "reach cron_init cron_step s" "claimDue z new_id dueAt claimedAt s = (s1, Returns ds)" "d \<in> set ds"
    "cron_step\<^sup>*\<^sup>* s1 t" "claimDue z1 new_id1 dueAt1 claimedAt1 t = (u, Returns ds1)"
  shows "list_all (\<lambda>d1. jb_id (di_job d1) \<noteq> jb_id (di_job d) \<or> recurring (jb_schedule (di_job d1))) ds1"
proof -
  have ok: "store_ok s" "store_ok s1" "store_ok t"
    using cron_machine.inv_reach [OF assms(1)] mutate_steps(1) [OF _ assms(2)] cron_machine.inv_steps [OF assms(4)] by blast+
  obtain j where j: "di_job d \<in> set (readJobs s1)" "\<not> pending_once (di_job d)"
    by (rule claimed_job [OF ok(1) assms(2,3)])
  obtain j1 where j1: "j1 \<in> set (readJobs t)" "job_follows (di_job d) j1" "jb_id j1 = jb_id (di_job d)"
    by (rule later_job [OF ok(2) j(1) assms(4)])
  have "recurring (jb_schedule (di_job d1))" if d1: "d1 \<in> set ds1" and same: "jb_id (di_job d1) = jb_id (di_job d)" for d1
  proof -
    obtain k where k: "k \<in> set (readJobs t)" "isDueJob k dueAt1" "job_follows k (di_job d1)" "jb_schedule (di_job d1) = jb_schedule k"
      by (rule claimed_job [OF ok(3) assms(5) d1])
    have "jb_id k = jb_id j1" using k(3) same j1(3) unfolding job_follows_def by metis
    then have "k = j1" by (rule same_id_same_job [OF store_ok_ids [OF ok(3)] k(1) j1(1)])
    moreover have "\<not> pending_once j1" using j1(2) j(2) by (simp add: job_follows_def)
    ultimately have r: "recurring (jb_schedule k)" using k(2) by (cases "jb_nextRunAt k") (auto simp: isDueJob_def pending_once_def ended_def)
    with k(4) show ?thesis by simp
  qed
  then show ?thesis by (auto simp: list_all_iff)
qed

lemma one_shot_runs_once_witness:
  "\<exists>u ds1. claimDue (fixed_zone 0) (\<lambda>i. ''2'') 300000 300000 claimed_store = (u, Returns ds1)
    \<and> list_all (\<lambda>d1. jb_id (di_job d1) \<noteq> ''a'' \<or> recurring (jb_schedule (di_job d1))) ds1"
proof -
  have "\<exists>ds1. snd (claimDue (fixed_zone 0) (\<lambda>i. ''2'') 300000 300000 claimed_store) = Returns ds1"
    by (simp add: claimed_store_def claimed_one_shot_def claimDue_def mutateStates_def claimDueInState_def claim_one_def
      isDueJob_def nextRunAtForSchedule_def of_schedule_def and_then_def one_shot_sample_def recurring_sample_def
      sample_job_def Let_def)
  then obtain u ds1 where c: "claimDue (fixed_zone 0) (\<lambda>i. ''2'') 300000 300000 claimed_store = (u, Returns ds1)"
    by (metis prod.collapse)
  have "jb_id claimed_one_shot = ''a''" by (simp add: claimed_one_shot_def one_shot_sample_def sample_job_def)
  then show ?thesis
    using one_shot_runs_once [OF busy_store_init busy_store_claim _ rtranclp.rtrancl_refl c, of "\<lparr>di_id = ''a'', di_job = claimed_one_shot\<rparr>"] c
    by simp
qed

text \<open>The one-shot job cancelled, then a claim at a time when it would have been due.\<close>

definition cancelled_store :: cron_store where
  "cancelled_store = \<lparr>st_artifactMode = False, st_paths = [], st_files = [(''jobs'',
     \<lparr>cs_jobs = [stop_job Job_cancelled 5 one_shot_sample, recurring_sample], cs_dispatches = []\<rparr>)]\<rparr>"

text \<open>
  C36: the store of jobs is always consistent. In every store that can be reached: no two jobs of
  its files have the same id; a job has at most one dispatch, and it is in the file of the job;
  an active job that recurs has a next run; and in session mode every job is in the file of its
  session.
\<close>
theorem job_store_consistent:
  assumes "reach cron_init cron_step s"
  shows "distinct (map jb_id (readJobs s)) \<and> distinct (claimed_ids_of s)
    \<and> list_all (\<lambda>(k, st). list_all (\<lambda>d. List.member (map jb_id (cs_jobs st)) (dr_jobId d)) (cs_dispatches st)) (st_files s)
    \<and> list_all (\<lambda>j. jb_status j \<noteq> Job_active \<or> \<not> recurring (jb_schedule j) \<or> jb_nextRunAt j \<noteq> None) (readJobs s)
    \<and> (\<not> st_artifactMode s \<or> list_all (\<lambda>(k, st). list_all (\<lambda>j. jb_sessionId j = k) (cs_jobs st)) (st_files s))"
proof -
  note ok = cron_machine.inv_reach [OF assms]
  have "list_all (\<lambda>(k, st). list_all (\<lambda>d. List.member (map jb_id (cs_jobs st)) (dr_jobId d)) (cs_dispatches st)) (st_files s)"
    using ok by (auto simp: store_ok_def state_ok_def list_all_iff)
  moreover have "list_all (\<lambda>j. jb_status j \<noteq> Job_active \<or> \<not> recurring (jb_schedule j) \<or> jb_nextRunAt j \<noteq> None) (readJobs s)"
    using store_ok_jobs [OF ok] by (auto simp: job_ok_def list_all_iff)
  moreover have "\<not> st_artifactMode s \<or> list_all (\<lambda>(k, st). list_all (\<lambda>j. jb_sessionId j = k) (cs_jobs st)) (st_files s)"
    using ok by (simp add: store_ok_def)
  ultimately show ?thesis using store_ok_ids [OF ok] distinct_dispatch_jobs [OF ok] unfolding claimed_ids_of_def by blast
qed

lemma job_store_consistent_witness: "distinct (claimed_ids_of claimed_store) \<and> distinct (map jb_id (readJobs claimed_store))"
  using job_store_consistent [OF reach_step [OF busy_store_init step_claim [OF busy_store_claim]]] by simp

section \<open>Claims that fail\<close>

lemma map_outcome_Throws: "map_outcome f xs = Throws e \<Longrightarrow> \<exists>x\<in>set xs. f x = Throws e"
  by (induction xs) (auto simp: and_then_def split: outcome.splits)

lemma claim_one_Throws:
  "claim_one z new_id dueAt claimedAt ids j = Throws e \<Longrightarrow>
     isDueJob j dueAt \<and> (\<exists>ce. nextRunAtForSchedule z (jb_schedule j) claimedAt = Some (Inl ce) \<and> e = Schedule_error ce)"
  by (auto simp: claim_one_def and_then_def of_schedule_def Let_def split: if_splits option.splits sum.splits)

lemma mutate_files_Throws:
  "mutate_files f files = (files1, Throws e) \<Longrightarrow>
     \<exists>before k st after before1 out. files = before @ (k, st) # after \<and> f st = Throws e
       \<and> mutate_files f before = (before1, Returns out) \<and> files1 = before1 @ (k, st) # after"
proof (induction files arbitrary: files1)
  case (Cons x files)
  obtain k st where x: "x = (k, st)" by (cases x)
  show ?case
  proof (cases "f st")
    case (Throws e1)
    then have "x # files = [] @ (k, st) # files \<and> f st = Throws e \<and> mutate_files f [] = ([], Returns []) \<and> files1 = [] @ (k, st) # files"
      using Cons.prems by (auto simp: x)
    then show ?thesis by blast
  next
    case (Returns p)
    obtain st1 o1 where p: "p = (st1, o1)" by (cases p)
    obtain fs r where m: "mutate_files f files = (fs, r)" by fastforce
    have r: "r = Throws e" "files1 = (k, st1) # fs"
      using Cons.prems by (auto simp: x Returns p m and_then_def split: outcome.splits)
    obtain b k1 st2 a b1 out where i: "files = b @ (k1, st2) # a" "f st2 = Throws e" "mutate_files f b = (b1, Returns out)" "fs = b1 @ (k1, st2) # a"
      using Cons.IH [OF m [unfolded r(1)]] by blast
    have "mutate_files f ((k, st) # b) = ((k, st1) # b1, Returns (o1 @ out))" by (simp add: Returns p i(3) and_then_def)
    then show ?thesis using i r x by (metis append_Cons)
  qed (use Cons.prems in \<open>auto simp: x\<close>)
qed simp

text \<open>
  A claim that fails. When a claim throws, one of the files has a job that is due and whose
  schedule has no next run, and the error says why. The files before it have been claimed and
  written although the caller gets no dispatch for their jobs; that file and the files behind it
  are unchanged, so none of their due jobs is claimed.
\<close>
lemma failed_claim:
  assumes "claimDue z new_id dueAt claimedAt s = (s1, Throws e)"
  shows "\<exists>before k st after before1 out.
     st_files s = before @ (k, st) # after \<and> st_files s1 = before1 @ (k, st) # after
     \<and> mutate_files (claimDueInState z new_id dueAt claimedAt) before = (before1, Returns out)
     \<and> list_ex (\<lambda>j. isDueJob j dueAt
          \<and> map_option (map_sum Schedule_error id) (nextRunAtForSchedule z (jb_schedule j) claimedAt) = Some (Inl e)) (cs_jobs st)"
proof -
  obtain gs where m: "mutate_files (claimDueInState z new_id dueAt claimedAt) (st_files s) = (gs, Throws e)" and s1: "s1 = s\<lparr>st_files := gs\<rparr>"
    using assms by (auto simp: claimDue_def mutateStates_def Let_def split: prod.splits)
  obtain before k st after before1 out where f: "st_files s = before @ (k, st) # after" "claimDueInState z new_id dueAt claimedAt st = Throws e"
    "mutate_files (claimDueInState z new_id dueAt claimedAt) before = (before1, Returns out)" "gs = before1 @ (k, st) # after"
    using mutate_files_Throws [OF m] by blast
  obtain j where j: "j \<in> set (cs_jobs st)" "claim_one z new_id dueAt claimedAt (map dr_jobId (cs_dispatches st)) j = Throws e"
    using f(2) map_outcome_Throws by (fastforce simp: claimDueInState_def and_then_def Let_def split: outcome.splits)
  have "list_ex (\<lambda>j. isDueJob j dueAt
      \<and> map_option (map_sum Schedule_error id) (nextRunAtForSchedule z (jb_schedule j) claimedAt) = Some (Inl e)) (cs_jobs st)"
    using j(1) claim_one_Throws [OF j(2)] by (auto simp: list_ex_iff)
  with f s1 show ?thesis by fastforce
qed

text \<open>Two sessions, one with a job that recurs, one with a job for leap days; both are due on a leap day.\<close>

definition hourly_job :: cron_job where
  "hourly_job = (sample_job ''b'' \<lparr>sc_kind = Interval_schedule, sc_expression = ''every 1h'', sc_intervalMs = Some 3600000\<rparr> LEAP_DAY)
     \<lparr>jb_sessionId := ''s1''\<rparr>"

definition leap_job :: cron_job where
  "leap_job = (sample_job ''c'' \<lparr>sc_kind = Cron_schedule, sc_expression = ''0 0 29 2 *'', sc_intervalMs = None\<rparr> LEAP_DAY)\<lparr>jb_sessionId := ''s2''\<rparr>"

definition leap_store :: cron_store where
  "leap_store = \<lparr>st_artifactMode = True, st_paths = [(''s1'', ''f1''), (''s2'', ''f2'')], st_files =
     [(''s1'', \<lparr>cs_jobs = [hourly_job], cs_dispatches = []\<rparr>), (''s2'', \<lparr>cs_jobs = [leap_job], cs_dispatches = []\<rparr>)]\<rparr>"

definition leap_store_after :: cron_store where
  "leap_store_after = \<lparr>st_artifactMode = True, st_paths = [(''s1'', ''f1''), (''s2'', ''f2'')], st_files =
     [(''s1'', \<lparr>cs_jobs = [hourly_job\<lparr>jb_nextRunAt := Some (LEAP_DAY + 3600000), jb_updatedAt := LEAP_DAY\<rparr>],
        cs_dispatches = [\<lparr>dr_id = ''b'', dr_jobId = ''b'', dr_claimedAt = LEAP_DAY, dr_scheduledFor = LEAP_DAY\<rparr>]\<rparr>),
      (''s2'', \<lparr>cs_jobs = [leap_job], cs_dispatches = []\<rparr>)]\<rparr>"

text \<open>The claim of the hourly job is written, but the claim throws: its dispatch is never run.\<close>

lemma leap_day_claim: "claimDue (fixed_zone 0) (\<lambda>i. i) LEAP_DAY LEAP_DAY leap_store
    = (leap_store_after, Throws (Schedule_error (No_match_within_a_year ''0 0 29 2 *'')))"
  by (simp add: leap_store_def leap_store_after_def hourly_job_def leap_job_def sample_job_def claimDue_def mutateStates_def claimDueInState_def
      claim_one_def isDueJob_def nextRunAtForSchedule_def leap_day_not_found of_schedule_def and_then_def map_filter_simps Let_def)

text \<open>Every later claim of the hourly job is skipped, as its dispatch is still recorded.\<close>

lemma lost_dispatch_blocks_job:
  "claim_one z new_id dueAt claimedAt (map dr_jobId (cs_dispatches st)) j = Returns (j1, c) \<Longrightarrow>
     claimed_in (jb_id j) st \<Longrightarrow> c = None"
  by (force simp: claim_one_def claimed_in_def list_ex_iff Returns_and_then Let_def split: if_splits)

text \<open>The scheduler is then set to try again at once, and again.\<close>

lemma leap_day_spins:
  assumes "sd = \<lparr>sd_timer = Some 0, sd_running = False, sd_stopped = False, sd_hasStarted = True\<rparr>"
  shows "runDue (fixed_zone 0) (\<lambda>i. i) hook LEAP_DAY LEAP_DAY leap_store_after sd
    = (leap_store_after, sd, Throws (Schedule_error (No_match_within_a_year ''0 0 29 2 *'')))"
proof -
  have c: "claimDue (fixed_zone 0) (\<lambda>i. i) LEAP_DAY LEAP_DAY leap_store_after
      = (leap_store_after, Throws (Schedule_error (No_match_within_a_year ''0 0 29 2 *'')))"
    by (simp add: leap_store_after_def hourly_job_def leap_job_def sample_job_def claimDue_def mutateStates_def claimDueInState_def
      claim_one_def isDueJob_def nextRunAtForSchedule_def leap_day_not_found of_schedule_def and_then_def map_filter_simps Let_def)
  have "nextActiveRunAt leap_store_after = Some LEAP_DAY"
    by (simp add: nextActiveRunAt_def readJobs_map leap_store_after_def hourly_job_def leap_job_def sample_job_def map_filter_simps)
  then show ?thesis
    by (simp add: runDue_def c assms reschedule_unless_stopped_def scheduleNext_def next_delay_def MAX_TIMEOUT_MS_def)
qed

text \<open>A change at a time before the last one is dropped by the merge, although it is returned.\<close>

lemma cancel_with_clock_set_back:
  "cancel_job ''a'' (- 1) busy_store = Returns (busy_store, Some (stop_job Job_cancelled (- 1) one_shot_sample))"
  by (simp add: cancel_job_def write_changed_one_def write_changed_def update_jobs_def readJobs_def readStates_def busy_store_def
      one_shot_sample_def recurring_sample_def sample_job_def stop_job_def writeJobs_def mergeFreshJobs_def merge_job_def job_with_id_def
      isAtLeastAsFresh_def and_then_def last_changed_def)

end
