(* ===== verification/Output_Accumulator.thy ===== *)
theory Output_Accumulator
  imports Truncation_Bounds
begin

text \<open>
  The accumulator of a tool's output, \<open>coding-agent/src/core/tools/output-accumulator.ts\<close>: a tail of the
  decoded text for display, counters for the whole, and a file the output is spilled to. Its snapshot
  is compared with the truncation of the whole output.
\<close>

section \<open>The file the output is spilled to\<close>

text \<open>\<open>sp_stream\<close> holds what was written to the open stream.\<close>

record output_spill =
  sp_path :: "string option"
  sp_stream :: "nat list list option"
  sp_failed :: bool

definition new_spill :: output_spill where
  "new_spill = \<lparr>sp_path = None, sp_stream = None, sp_failed = False\<rparr>"

definition isOpen :: "output_spill \<Rightarrow> bool" where
  "isOpen s = (sp_stream s \<noteq> None)"

text \<open>\<open>path\<close> is the random path that is drawn.\<close>

definition spill_open :: "string \<Rightarrow> nat list list \<Rightarrow> output_spill \<Rightarrow> output_spill" where
  "spill_open path replay s =
     (if isOpen s \<or> sp_failed s then s else s\<lparr>sp_path := Some path, sp_stream := Some replay\<rparr>)"

definition spill_write :: "nat list \<Rightarrow> output_spill \<Rightarrow> output_spill" where
  "spill_write chunk s = s\<lparr>sp_stream := map_option (\<lambda>ws. ws @ [chunk]) (sp_stream s)\<rparr>"

text \<open>The \<open>error\<close> event of the stream, which may come at any time after it was opened, also while it is closed.\<close>

definition spill_error :: "output_spill \<Rightarrow> output_spill" where
  "spill_error s = s\<lparr>sp_failed := True, sp_path := None, sp_stream := None\<rparr>"

text \<open>The result, and the file the stream leaves when it did not fail.\<close>

definition spill_finalize :: "output_spill \<Rightarrow> output_spill \<times> string option \<times> nat list list option" where
  "spill_finalize s = (s\<lparr>sp_stream := None\<rparr>, (if sp_failed s then None else sp_path s), sp_stream s)"

section \<open>The accumulator\<close>

text \<open>A streaming \<open>TextDecoder\<close>: a step for a chunk and the rest at the end.\<close>

record 'd text_decoder =
  dc_decode :: "nat list \<Rightarrow> 'd \<Rightarrow> code_points \<times> 'd"
  dc_flush :: "'d \<Rightarrow> code_points"
  dc_start :: 'd

record 'd accumulator =
  ac_maxLines :: nat
  ac_maxBytes :: nat
  ac_maxRollingBytes :: nat
  ac_decoder :: 'd
  ac_rawChunks :: "nat list list"
  ac_tailText :: code_points
  ac_tailBytes :: nat
  ac_tailStartsAtLineBoundary :: bool
  ac_totalRawBytes :: nat
  ac_totalDecodedBytes :: nat
  ac_totalLines :: nat
  ac_currentLineBytes :: nat
  ac_finished :: bool
  ac_spill :: output_spill

definition new_accumulator :: "'d text_decoder \<Rightarrow> nat option \<Rightarrow> nat option \<Rightarrow> 'd accumulator" where
  "new_accumulator dc maxLines maxBytes =
     \<lparr>ac_maxLines = option_or maxLines DEFAULT_MAX_LINES, ac_maxBytes = option_or maxBytes DEFAULT_MAX_BYTES,
      ac_maxRollingBytes = max (option_or maxBytes DEFAULT_MAX_BYTES * 2) 1, ac_decoder = dc_start dc, ac_rawChunks = [],
      ac_tailText = [], ac_tailBytes = 0, ac_tailStartsAtLineBoundary = True, ac_totalRawBytes = 0, ac_totalDecodedBytes = 0,
      ac_totalLines = 1, ac_currentLineBytes = 0, ac_finished = False, ac_spill = new_spill\<rparr>"

definition trimTail :: "'d accumulator \<Rightarrow> 'd accumulator" where
  "trimTail a =
     (let buffer = utf8 (ac_tailText a) in
      if length buffer \<le> ac_maxRollingBytes a then a\<lparr>ac_tailBytes := length buffer\<rparr>
      else
        (let from = drop (length buffer - ac_maxRollingBytes a) buffer;
             rest = dropWhile is_continuation from;
             start = length buffer - length rest;
             tailText = utf8_decode rest
         in a\<lparr>ac_tailStartsAtLineBoundary := (if start = 0 then ac_tailStartsAtLineBoundary a else buffer ! (start - 1) = newline),
              ac_tailText := tailText, ac_tailBytes := byteLength tailText\<rparr>))"

definition count_newlines :: "code_points \<Rightarrow> nat" where
  "count_newlines text = length (filter (\<lambda>c. c = newline) text)"

definition appendDecodedText :: "code_points \<Rightarrow> 'd accumulator \<Rightarrow> 'd accumulator" where
  "appendDecodedText text a =
     (if text = [] then a
      else
        (let bytes = byteLength text;
             a1 = a\<lparr>ac_totalDecodedBytes := ac_totalDecodedBytes a + bytes, ac_tailText := ac_tailText a @ text,
                    ac_tailBytes := ac_tailBytes a + bytes\<rparr>;
             a2 = (if ac_tailBytes a1 > ac_maxRollingBytes a1 * 2 then trimTail a1 else a1);
             newlines = count_newlines text
         in if newlines = 0 then a2\<lparr>ac_currentLineBytes := ac_currentLineBytes a2 + bytes\<rparr>
            else a2\<lparr>ac_totalLines := ac_totalLines a2 + newlines, ac_currentLineBytes := byteLength (last (split_lines text))\<rparr>))"

definition shouldUseTempFile :: "'d accumulator \<Rightarrow> bool" where
  "shouldUseTempFile a = (ac_totalRawBytes a > ac_maxBytes a \<or> ac_totalDecodedBytes a > ac_maxBytes a \<or> ac_totalLines a > ac_maxLines a)"

definition ensureTempFile :: "string \<Rightarrow> 'd accumulator \<Rightarrow> 'd accumulator" where
  "ensureTempFile path a = a\<lparr>ac_spill := spill_open path (ac_rawChunks a) (ac_spill a), ac_rawChunks := []\<rparr>"

text \<open>None is the error for an accumulator that has finished.\<close>

definition append_output :: "'d text_decoder \<Rightarrow> string \<Rightarrow> nat list \<Rightarrow> 'd accumulator \<Rightarrow> 'd accumulator option" where
  "append_output dc path data a =
     (if ac_finished a then None
      else
        (let (text, decoder) = dc_decode dc data (ac_decoder a);
             a1 = appendDecodedText text (a\<lparr>ac_totalRawBytes := ac_totalRawBytes a + length data, ac_decoder := decoder\<rparr>)
         in if isOpen (ac_spill a1) \<or> shouldUseTempFile a1 then
              (let a2 = ensureTempFile path a1 in Some (a2\<lparr>ac_spill := spill_write data (ac_spill a2)\<rparr>))
            else if length data > 0 then Some (a1\<lparr>ac_rawChunks := ac_rawChunks a1 @ [data]\<rparr>)
            else Some a1))"

definition finish_output :: "'d text_decoder \<Rightarrow> string \<Rightarrow> 'd accumulator \<Rightarrow> 'd accumulator" where
  "finish_output dc path a =
     (if ac_finished a then a
      else
        (let a1 = appendDecodedText (dc_flush dc (ac_decoder a)) (a\<lparr>ac_finished := True\<rparr>)
         in if shouldUseTempFile a1 then ensureTempFile path a1 else a1))"

definition getSnapshotText :: "'d accumulator \<Rightarrow> code_points" where
  "getSnapshotText a =
     (if ac_tailStartsAtLineBoundary a then ac_tailText a
      else if newline \<notin> set (ac_tailText a) then ac_tailText a
      else tl (dropWhile (\<lambda>c. c \<noteq> newline) (ac_tailText a)))"

definition snapshot_truncation :: "'d accumulator \<Rightarrow> truncation_result" where
  "snapshot_truncation a =
     (let tailTruncation = truncateTail (getSnapshotText a) \<lparr>op_maxLines = Some (ac_maxLines a), op_maxBytes = Some (ac_maxBytes a)\<rparr>;
          truncated = (ac_totalLines a > ac_maxLines a \<or> ac_totalDecodedBytes a > ac_maxBytes a);
          truncatedBy = (if truncated then
              (case tn_truncatedBy tailTruncation of Some l \<Rightarrow> Some l
               | None \<Rightarrow> Some (if ac_totalDecodedBytes a > ac_maxBytes a then By_bytes else By_lines))
            else None)
      in tailTruncation\<lparr>tn_truncated := truncated, tn_truncatedBy := truncatedBy, tn_totalLines := ac_totalLines a,
           tn_totalBytes := ac_totalDecodedBytes a, tn_maxLines := ac_maxLines a, tn_maxBytes := ac_maxBytes a\<rparr>)"

definition output_snapshot :: "'d accumulator \<Rightarrow> code_points \<times> truncation_result \<times> string option" where
  "output_snapshot a = (tn_content (snapshot_truncation a), snapshot_truncation a, sp_path (ac_spill a))"

definition getLastLineBytes :: "'d accumulator \<Rightarrow> nat" where
  "getLastLineBytes a = ac_currentLineBytes a"

section \<open>What an accumulator was given\<close>

text \<open>
  The states an accumulator goes through, with the data it was given and the text that was decoded
  of it.
\<close>

inductive accumulates :: "'d text_decoder \<Rightarrow> nat \<Rightarrow> nat \<Rightarrow> nat list \<Rightarrow> code_points \<Rightarrow> 'd accumulator \<Rightarrow> bool"
  for dc :: "'d text_decoder" and maxLines maxBytes :: nat where
  accumulates_new: "accumulates dc maxLines maxBytes [] [] (new_accumulator dc (Some maxLines) (Some maxBytes))"
| accumulates_append: "accumulates dc maxLines maxBytes raw full a \<Longrightarrow> append_output dc path data a = Some a1 \<Longrightarrow>
    accumulates dc maxLines maxBytes (raw @ data) (full @ fst (dc_decode dc data (ac_decoder a))) a1"
| accumulates_finish: "accumulates dc maxLines maxBytes raw full a \<Longrightarrow> \<not> ac_finished a \<Longrightarrow>
    accumulates dc maxLines maxBytes raw (full @ dc_flush dc (ac_decoder a)) (finish_output dc path a)"
| accumulates_error: "accumulates dc maxLines maxBytes raw full a \<Longrightarrow> sp_path (ac_spill a) \<noteq> None \<Longrightarrow>
    accumulates dc maxLines maxBytes raw full (a\<lparr>ac_spill := spill_error (ac_spill a)\<rparr>)"
| accumulates_close: "accumulates dc maxLines maxBytes raw full a \<Longrightarrow> ac_finished a \<Longrightarrow>
    accumulates dc maxLines maxBytes raw full (a\<lparr>ac_spill := fst (spill_finalize (ac_spill a))\<rparr>)"

section \<open>Lines of a text in parts\<close>

lemma length_split_lines: "length (split_lines s) = Suc (count_newlines s)"
  by (induction s) (auto simp: count_newlines_def split: list.splits)

lemma count_newlines_0: "count_newlines s = 0 \<longleftrightarrow> newline \<notin> set s"
  by (auto simp: count_newlines_def filter_empty_conv)

lemma count_newlines_append: "count_newlines (s @ t) = count_newlines s + count_newlines t"
  by (simp add: count_newlines_def)

text \<open>The last line after a text is appended.\<close>

lemma last_line_append:
  "last (split_lines (s @ t)) = (if newline \<in> set t then last (split_lines t) else last (split_lines s) @ t)"
proof (cases "newline \<in> set t")
  case True
  then obtain u v where t: "t = u @ newline # v" by (meson split_list)
  have "last (split_lines (s @ t)) = last (split_lines v)"
    using split_lines_at [of "s @ u" v] by (simp add: t)
  with True show ?thesis by (simp add: t split_lines_at)
next
  case False
  show ?thesis
  proof (cases "newline \<in> set s")
    case True
    then obtain u v where s: "s = u @ newline # v" "newline \<notin> set v" by (meson split_list_last)
    have "split_lines (s @ t) = split_lines u @ [v @ t]"
      using split_lines_at [of u "v @ t"] split_lines_one [of "v @ t"] False s(2) by (simp add: s(1))
    then show ?thesis using False split_lines_one [OF s(2)] by (simp add: s(1) split_lines_at)
  next
    case no: False
    then show ?thesis using False by (simp add: split_lines_one)
  qed
qed

section \<open>The last bytes of a text\<close>

lemma utf8_append [simp]: "utf8 (s @ t) = utf8 s @ utf8 t"
  by (simp add: utf8_def)

lemma utf8_Nil [simp]: "utf8 s = [] \<longleftrightarrow> s = []"
proof (cases s)
  case (Cons c cs)
  then show ?thesis by (simp add: utf8_def utf8_char_def)
qed (simp add: utf8_def)

lemma last_utf8: "s \<noteq> [] \<Longrightarrow> (last (utf8 s) = newline) = (last s = newline)"
proof (induction s rule: rev_induct)
  case (snoc c s)
  have "(last (utf8_char c) = newline) = (c = newline)" by (auto simp: utf8_char_def newline_def)
  moreover have "utf8_char c \<noteq> []" by (simp add: utf8_char_def)
  ultimately show ?case by (simp add: utf8_def)
qed simp

lemma points_append [simp]: "list_all code_point (s @ t) = (list_all code_point s \<and> list_all code_point t)"
  by (simp add: list_all_iff ball_Un)

text \<open>What trimming keeps: the end of the tail, from a character on, at most three bytes short.\<close>

lemma trimTail_keeps:
  assumes "list_all code_point (ac_tailText a)" "length (utf8 (ac_tailText a)) > ac_maxRollingBytes a"
  obtains gone rest where "ac_tailText a = gone @ rest" "gone \<noteq> []"
    "trimTail a = a\<lparr>ac_tailStartsAtLineBoundary := (last gone = newline), ac_tailText := rest, ac_tailBytes := byteLength rest\<rparr>"
    "ac_maxRollingBytes a \<le> byteLength rest + 3" "byteLength rest \<le> ac_maxRollingBytes a"
proof -
  let ?t = "ac_tailText a" and ?m = "ac_maxRollingBytes a"
  let ?from = "drop (length (utf8 ?t) - ?m) (utf8 ?t)"
  obtain k where k: "dropWhile is_continuation ?from = utf8 (drop k ?t)" "length ?from \<le> length (utf8 (drop k ?t)) + 3"
    using utf8_boundary [OF assms(1)] by blast
  have split: "utf8 ?t = utf8 (take k ?t) @ utf8 (drop k ?t)" by (metis append_take_drop_id utf8_append)
  have m: "length (utf8 (drop k ?t)) \<le> ?m" using length_dropWhile [of is_continuation ?from] unfolding k(1) by simp
  then have gone: "take k ?t \<noteq> []" using assms(2) split by (metis append_Nil linorder_not_less utf8_Nil)
  have "list_all code_point (drop k ?t)" using assms(1) by (metis append_take_drop_id points_append)
  then have d: "utf8_decode (utf8 (drop k ?t)) = drop k ?t" by (rule utf8_decode_utf8)
  have n: "length (utf8 (take k ?t)) > 0" using gone by simp
  have start: "length (utf8 ?t) - length (utf8 (drop k ?t)) = length (utf8 (take k ?t))" unfolding split by simp
  have "utf8 ?t ! (length (utf8 (take k ?t)) - 1) = last (utf8 (take k ?t))"
    unfolding split using n by (simp add: nth_append last_conv_nth)
  then have "(utf8 ?t ! (length (utf8 (take k ?t)) - 1) = newline) = (last (take k ?t) = newline)" using last_utf8 [OF gone] by simp
  moreover have "\<not> length (utf8 ?t) \<le> length (utf8 (drop k ?t))" using n start by linarith
  ultimately have "trimTail a = a\<lparr>ac_tailStartsAtLineBoundary := (last (take k ?t) = newline), ac_tailText := drop k ?t, ac_tailBytes := byteLength (drop k ?t)\<rparr>"
    using assms(2) n unfolding trimTail_def Let_def k(1) start d by simp
  moreover have "?m \<le> byteLength (drop k ?t) + 3" using k(2) assms(2) by (simp add: byteLength_def)
  ultimately show thesis using gone m by (intro that [of "take k ?t" "drop k ?t"]) (simp_all add: byteLength_def)
qed

lemma trimTail_same [simp]:
  "ac_maxLines (trimTail a) = ac_maxLines a" "ac_maxBytes (trimTail a) = ac_maxBytes a"
  "ac_maxRollingBytes (trimTail a) = ac_maxRollingBytes a" "ac_totalDecodedBytes (trimTail a) = ac_totalDecodedBytes a"
  "ac_totalLines (trimTail a) = ac_totalLines a" "ac_currentLineBytes (trimTail a) = ac_currentLineBytes a"
  "ac_spill (trimTail a) = ac_spill a" "ac_rawChunks (trimTail a) = ac_rawChunks a" "ac_finished (trimTail a) = ac_finished a"
  "ac_totalRawBytes (trimTail a) = ac_totalRawBytes a" "ac_decoder (trimTail a) = ac_decoder a"
  by (simp_all add: trimTail_def Let_def)

section \<open>The invariant\<close>

text \<open>The tail is the end of the text, and long when something was gone off.\<close>

definition tail_ok :: "nat \<Rightarrow> code_points \<Rightarrow> code_points \<Rightarrow> bool \<Rightarrow> bool" where
  "tail_ok maxBytes full tailText at_line =
     (\<exists>before. full = before @ tailText \<and> at_line = (before = [] \<or> last before = newline)
        \<and> (before \<noteq> [] \<longrightarrow> maxBytes * 2 \<le> byteLength tailText + 3))"

definition spill_ok :: "nat list \<Rightarrow> 'd accumulator \<Rightarrow> bool" where
  "spill_ok raw a =
     (if sp_failed (ac_spill a) then sp_stream (ac_spill a) = None \<and> sp_path (ac_spill a) = None
      else (case sp_stream (ac_spill a) of
          Some ws \<Rightarrow> sp_path (ac_spill a) \<noteq> None \<and> concat ws = raw
        | None \<Rightarrow> if sp_path (ac_spill a) = None then concat (ac_rawChunks a) = raw \<and> (ac_finished a \<longrightarrow> \<not> shouldUseTempFile a)
            else ac_finished a))"

definition acc_ok :: "nat \<Rightarrow> nat \<Rightarrow> nat list \<Rightarrow> code_points \<Rightarrow> 'd accumulator \<Rightarrow> bool" where
  "acc_ok maxLines maxBytes raw full a =
     (ac_maxLines a = maxLines \<and> ac_maxBytes a = maxBytes \<and> ac_maxRollingBytes a = max (maxBytes * 2) 1
      \<and> tail_ok maxBytes full (ac_tailText a) (ac_tailStartsAtLineBoundary a)
      \<and> ac_tailBytes a = byteLength (ac_tailText a) \<and> ac_tailBytes a \<le> ac_maxRollingBytes a * 2
      \<and> ac_totalRawBytes a = length raw \<and> ac_totalDecodedBytes a = byteLength full
      \<and> ac_totalLines a = length (split_lines full) \<and> ac_currentLineBytes a = byteLength (last (split_lines full)))"

definition raw_ok :: "'d accumulator \<Rightarrow> bool" where
  "raw_ok a = (length (concat (ac_rawChunks a)) \<le> min (ac_maxBytes a) (ac_totalRawBytes a))"

lemma acc_ok_new:
  "acc_ok maxLines maxBytes [] [] (new_accumulator dc (Some maxLines) (Some maxBytes))"
  "raw_ok (new_accumulator dc (Some maxLines) (Some maxBytes))" "spill_ok [] (new_accumulator dc (Some maxLines) (Some maxBytes))"
  by (simp_all add: acc_ok_def raw_ok_def spill_ok_def tail_ok_def new_accumulator_def option_or_def new_spill_def)

lemma tail_ok_append: "tail_ok maxBytes full t b \<Longrightarrow> tail_ok maxBytes (full @ u) (t @ u) b"
  by (auto simp: tail_ok_def)

lemma tail_ok_cut:
  assumes "tail_ok maxBytes full (gone @ rest) b" "gone \<noteq> []" "maxBytes * 2 \<le> byteLength rest + 3"
  shows "tail_ok maxBytes full rest (last gone = newline)"
proof -
  obtain before where "full = before @ gone @ rest" using assms(1) by (auto simp: tail_ok_def)
  then have "full = (before @ gone) @ rest" by simp
  with assms(2,3) show ?thesis unfolding tail_ok_def by (intro exI [of _ "before @ gone"]) simp
qed

lemma trimTail_ok:
  assumes "tail_ok maxBytes full (ac_tailText a) (ac_tailStartsAtLineBoundary a)" "list_all code_point full"
    "ac_maxRollingBytes a = max (maxBytes * 2) 1" "byteLength (ac_tailText a) > ac_maxRollingBytes a"
  shows "tail_ok maxBytes full (ac_tailText (trimTail a)) (ac_tailStartsAtLineBoundary (trimTail a))
    \<and> ac_tailBytes (trimTail a) = byteLength (ac_tailText (trimTail a)) \<and> ac_tailBytes (trimTail a) \<le> ac_maxRollingBytes a"
proof -
  have t: "list_all code_point (ac_tailText a)" using assms(1,2) by (auto simp: tail_ok_def)
  obtain gone rest where c: "ac_tailText a = gone @ rest" "gone \<noteq> []"
      "trimTail a = a\<lparr>ac_tailStartsAtLineBoundary := (last gone = newline), ac_tailText := rest, ac_tailBytes := byteLength rest\<rparr>"
      "ac_maxRollingBytes a \<le> byteLength rest + 3" "byteLength rest \<le> ac_maxRollingBytes a"
    using trimTail_keeps [OF t] assms(4) by (auto simp: byteLength_def)
  moreover have "maxBytes * 2 \<le> byteLength rest + 3" using c(4) assms(3) by simp
  ultimately show ?thesis using tail_ok_cut [OF assms(1) [unfolded c(1)] c(2)] by simp
qed

lemma acc_ok_text:
  assumes "acc_ok maxLines maxBytes raw full a" "list_all code_point (full @ text)"
  shows "acc_ok maxLines maxBytes raw (full @ text) (appendDecodedText text a)"
proof (cases "text = []")
  case True
  with assms(1) show ?thesis by (simp add: appendDecodedText_def)
next
  case False
  define a1 where "a1 = a\<lparr>ac_totalDecodedBytes := ac_totalDecodedBytes a + byteLength text, ac_tailText := ac_tailText a @ text,
      ac_tailBytes := ac_tailBytes a + byteLength text\<rparr>"
  define a2 where "a2 = (if ac_tailBytes a1 > ac_maxRollingBytes a1 * 2 then trimTail a1 else a1)"
  have t1: "tail_ok maxBytes (full @ text) (ac_tailText a1) (ac_tailStartsAtLineBoundary a1)"
    "ac_maxRollingBytes a1 = max (maxBytes * 2) 1" "ac_tailBytes a1 = byteLength (ac_tailText a1)"
    using assms(1) by (simp_all add: acc_ok_def a1_def tail_ok_append)
  have t2: "tail_ok maxBytes (full @ text) (ac_tailText a2) (ac_tailStartsAtLineBoundary a2)
     \<and> ac_tailBytes a2 = byteLength (ac_tailText a2) \<and> ac_tailBytes a2 \<le> ac_maxRollingBytes a2 * 2"
  proof (cases "ac_tailBytes a1 > ac_maxRollingBytes a1 * 2")
    case True
    then have "byteLength (ac_tailText a1) > ac_maxRollingBytes a1" unfolding t1(3) by linarith
    from trimTail_ok [OF t1(1) assms(2) t1(2) this] True show ?thesis by (simp add: a2_def)
  qed (use t1 in \<open>simp add: a2_def\<close>)
  have app: "appendDecodedText text a = (if count_newlines text = 0 then a2\<lparr>ac_currentLineBytes := ac_currentLineBytes a2 + byteLength text\<rparr>
      else a2\<lparr>ac_totalLines := ac_totalLines a2 + count_newlines text, ac_currentLineBytes := byteLength (last (split_lines text))\<rparr>)"
    using False by (simp add: appendDecodedText_def Let_def a2_def a1_def)
  have "length (split_lines (full @ text)) = length (split_lines full) + count_newlines text"
    by (simp add: length_split_lines count_newlines_append)
  moreover have "byteLength (last (split_lines (full @ text))) = (if count_newlines text = 0 then ac_currentLineBytes a + byteLength text
      else byteLength (last (split_lines text)))"
    using assms(1) by (simp add: last_line_append count_newlines_0 acc_ok_def)
  moreover have "ac_maxLines a2 = ac_maxLines a" "ac_maxBytes a2 = ac_maxBytes a" "ac_maxRollingBytes a2 = ac_maxRollingBytes a"
     "ac_totalDecodedBytes a2 = ac_totalDecodedBytes a + byteLength text" "ac_totalLines a2 = ac_totalLines a"
     "ac_currentLineBytes a2 = ac_currentLineBytes a" "ac_totalRawBytes a2 = ac_totalRawBytes a"
    by (simp_all add: a2_def a1_def)
  ultimately show ?thesis
    using assms(1) t2 unfolding app acc_ok_def by simp
qed

lemma appendDecodedText_same [simp]:
  "ac_spill (appendDecodedText text a) = ac_spill a" "ac_rawChunks (appendDecodedText text a) = ac_rawChunks a"
  "ac_finished (appendDecodedText text a) = ac_finished a" "ac_totalRawBytes (appendDecodedText text a) = ac_totalRawBytes a"
  "ac_maxBytes (appendDecodedText text a) = ac_maxBytes a" "ac_maxLines (appendDecodedText text a) = ac_maxLines a"
  by (simp_all add: appendDecodedText_def Let_def)

lemma acc_ok_cong:
  "acc_ok maxLines maxBytes raw full (a\<lparr>ac_spill := s\<rparr>) = acc_ok maxLines maxBytes raw full a"
  "acc_ok maxLines maxBytes raw full (a\<lparr>ac_rawChunks := ws\<rparr>) = acc_ok maxLines maxBytes raw full a"
  "acc_ok maxLines maxBytes raw full (a\<lparr>ac_finished := f\<rparr>) = acc_ok maxLines maxBytes raw full a"
  "acc_ok maxLines maxBytes raw full (a\<lparr>ac_decoder := d\<rparr>) = acc_ok maxLines maxBytes raw full a"
  "acc_ok maxLines maxBytes raw full a \<Longrightarrow> acc_ok maxLines maxBytes (raw @ data) full (a\<lparr>ac_totalRawBytes := ac_totalRawBytes a + length data\<rparr>)"
  by (simp_all add: acc_ok_def)

lemma shouldUseTempFile_cong [simp]:
  "shouldUseTempFile (a\<lparr>ac_spill := s\<rparr>) = shouldUseTempFile a" "shouldUseTempFile (a\<lparr>ac_rawChunks := ws\<rparr>) = shouldUseTempFile a"
  by (simp_all add: shouldUseTempFile_def)

text \<open>What every step keeps.\<close>

definition accumulator_ok :: "nat \<Rightarrow> nat \<Rightarrow> nat list \<Rightarrow> code_points \<Rightarrow> 'd accumulator \<Rightarrow> bool" where
  "accumulator_ok maxLines maxBytes raw full a = (acc_ok maxLines maxBytes raw full a \<and> spill_ok raw a \<and> raw_ok a)"

lemma ensureTempFile_ok:
  assumes "acc_ok maxLines maxBytes raw full a" "raw_ok a"
    "sp_failed (ac_spill a) \<longrightarrow> sp_stream (ac_spill a) = None \<and> sp_path (ac_spill a) = None"
    "\<not> sp_failed (ac_spill a) \<longrightarrow> (case sp_stream (ac_spill a) of Some ws \<Rightarrow> sp_path (ac_spill a) \<noteq> None \<and> concat ws @ data = raw
       | None \<Rightarrow> concat (ac_rawChunks a) @ data = raw)"
  shows "accumulator_ok maxLines maxBytes raw full ((ensureTempFile path a)\<lparr>ac_spill := spill_write data (ac_spill (ensureTempFile path a))\<rparr>)"
    "data = [] \<Longrightarrow> accumulator_ok maxLines maxBytes raw full (ensureTempFile path a)"
  using assms unfolding accumulator_ok_def
  by (auto simp: acc_ok_cong ensureTempFile_def raw_ok_def spill_ok_def spill_open_def spill_write_def isOpen_def split: option.splits)

lemma append_output_ok:
  assumes "accumulator_ok maxLines maxBytes raw full a" "append_output dc path data a = Some a1"
    "list_all code_point (full @ fst (dc_decode dc data (ac_decoder a)))"
  shows "accumulator_ok maxLines maxBytes (raw @ data) (full @ fst (dc_decode dc data (ac_decoder a))) a1"
proof -
  obtain new d where t: "dc_decode dc data (ac_decoder a) = (new, d)" by fastforce
  define a2 where "a2 = a\<lparr>ac_totalRawBytes := ac_totalRawBytes a + length data, ac_decoder := d\<rparr>"
  define b where "b = appendDecodedText new a2"
  have nf: "\<not> ac_finished a" using assms(2) by (auto simp: append_output_def)
  have a1: "a1 = (if isOpen (ac_spill b) \<or> shouldUseTempFile b then
        (ensureTempFile path b)\<lparr>ac_spill := spill_write data (ac_spill (ensureTempFile path b))\<rparr>
      else if length data > 0 then b\<lparr>ac_rawChunks := ac_rawChunks b @ [data]\<rparr> else b)"
    using assms(2) nf by (auto simp: append_output_def t b_def a2_def Let_def split: if_splits)
  have "acc_ok maxLines maxBytes (raw @ data) full a2"
    using acc_ok_cong(5) [of maxLines maxBytes raw full "a\<lparr>ac_decoder := d\<rparr>" data] assms(1) by (simp add: acc_ok_cong accumulator_ok_def a2_def)
  then have b: "acc_ok maxLines maxBytes (raw @ data) (full @ new) b"
    using acc_ok_text assms(3) by (fastforce simp: b_def t)
  have same: "ac_spill b = ac_spill a" "ac_rawChunks b = ac_rawChunks a" "ac_finished b = ac_finished a"
      "ac_maxBytes b = ac_maxBytes a" "ac_totalRawBytes b = ac_totalRawBytes a + length data"
    by (simp_all add: b_def a2_def)
  have raw: "raw_ok b" using assms(1) by (simp add: accumulator_ok_def raw_ok_def same)
  have sp: "spill_ok raw a" using assms(1) by (simp add: accumulator_ok_def)
  show ?thesis
  proof (cases "isOpen (ac_spill b) \<or> shouldUseTempFile b")
    case True
    then show ?thesis
      unfolding a1 using ensureTempFile_ok(1) [OF b raw, of data path] sp nf
      by (auto simp: t same spill_ok_def split: option.splits if_splits)
  next
    case False
    then have "length (concat (ac_rawChunks b @ [data])) \<le> min (ac_maxBytes b) (ac_totalRawBytes b)"
      using assms(1) by (auto simp: accumulator_ok_def raw_ok_def shouldUseTempFile_def same)
    then show ?thesis
      unfolding a1 t using False sp nf b raw
      by (auto simp: accumulator_ok_def same acc_ok_cong raw_ok_def spill_ok_def isOpen_def split: option.splits if_splits)
  qed
qed

lemma finish_output_ok:
  assumes "accumulator_ok maxLines maxBytes raw full a" "\<not> ac_finished a" "list_all code_point (full @ dc_flush dc (ac_decoder a))"
  shows "accumulator_ok maxLines maxBytes raw (full @ dc_flush dc (ac_decoder a)) (finish_output dc path a)"
proof -
  define b where "b = appendDecodedText (dc_flush dc (ac_decoder a)) (a\<lparr>ac_finished := True\<rparr>)"
  have b: "acc_ok maxLines maxBytes raw (full @ dc_flush dc (ac_decoder a)) b"
    unfolding b_def using assms(1,3) by (intro acc_ok_text) (simp_all add: accumulator_ok_def acc_ok_cong)
  have same: "ac_spill b = ac_spill a" "ac_rawChunks b = ac_rawChunks a" "ac_finished b"
      "ac_maxBytes b = ac_maxBytes a" "ac_totalRawBytes b = ac_totalRawBytes a"
    by (simp_all add: b_def)
  have raw: "raw_ok b" using assms(1) by (simp add: accumulator_ok_def raw_ok_def same)
  have sp: "spill_ok raw a" using assms(1) by (simp add: accumulator_ok_def)
  have f: "finish_output dc path a = (if shouldUseTempFile b then ensureTempFile path b else b)"
    using assms(2) by (simp add: finish_output_def b_def Let_def)
  show ?thesis
  proof (cases "shouldUseTempFile b")
    case True
    then show ?thesis
      unfolding f using ensureTempFile_ok(2) [OF b raw, of "[]" path] sp assms(2)
      by (auto simp: same spill_ok_def split: option.splits if_splits)
  next
    case False
    then show ?thesis
      unfolding f using sp b raw assms(2) by (auto simp: accumulator_ok_def same spill_ok_def split: option.splits if_splits)
  qed
qed

lemma accumulates_ok:
  "accumulates dc maxLines maxBytes raw full a \<Longrightarrow> list_all code_point full \<Longrightarrow> accumulator_ok maxLines maxBytes raw full a"
proof (induction rule: accumulates.induct)
  case accumulates_new
  then show ?case by (simp add: accumulator_ok_def acc_ok_new)
next
  case (accumulates_append raw full a path data a1)
  then show ?case by (intro append_output_ok) simp_all
next
  case (accumulates_finish raw full a path)
  then show ?case by (intro finish_output_ok) simp_all
next
  case (accumulates_error raw full a)
  then show ?case by (auto simp: accumulator_ok_def acc_ok_cong raw_ok_def spill_ok_def spill_error_def)
next
  case (accumulates_close raw full a)
  then show ?case
    by (auto simp: accumulator_ok_def acc_ok_cong raw_ok_def spill_ok_def spill_finalize_def split: option.splits if_splits)
qed

section \<open>The loop over the end of the lines\<close>

lemma tail_loop_prefix:
  "tail_loop maxLines maxBytes (xs @ ys) (out, n) = tail_loop maxLines maxBytes xs (out, n)
   \<or> (\<exists>n1. tail_loop maxLines maxBytes xs (out, n) = (rev xs @ out, n1, By_lines, False)
        \<and> tail_loop maxLines maxBytes (xs @ ys) (out, n) = tail_loop maxLines maxBytes ys (rev xs @ out, n1))"
proof (induction xs arbitrary: out n)
  case (Cons l xs)
  show ?case using Cons.IH [of "l # out"] by (auto simp: Let_def)
qed simp

lemma byteLength_join_append: "ms \<noteq> [] \<Longrightarrow> byteLength (join_lines ms) \<le> byteLength (join_lines (ls @ ms))"
proof (induction ls)
  case (Cons l ls)
  then show ?case by (simp add: join_lines_Cons)
qed simp

lemma tail_loop_all:
  "byteLength (join_lines (rev xs @ out)) \<le> maxBytes \<Longrightarrow> length xs + length out \<le> maxLines \<Longrightarrow> n = byteLength (join_lines out)
   \<Longrightarrow> tail_loop maxLines maxBytes xs (out, n) = (rev xs @ out, byteLength (join_lines (rev xs @ out)), By_lines, False)"
proof (induction xs arbitrary: out n)
  case (Cons l xs)
  have n: "n + (byteLength l + (if length out > 0 then 1 else 0)) = byteLength (join_lines (l # out))"
    using Cons.prems(3) by (cases out) auto
  have "byteLength (join_lines (l # out)) \<le> byteLength (join_lines (rev xs @ l # out))"
    using byteLength_join_append [of "l # out" "rev xs"] by simp
  then have "n + (byteLength l + (if length out > 0 then 1 else 0)) \<le> maxBytes" using Cons.prems(1) n by simp
  moreover have "tail_loop maxLines maxBytes xs (l # out, n + (byteLength l + (if length out > 0 then 1 else 0)))
      = (rev xs @ l # out, byteLength (join_lines (rev xs @ l # out)), By_lines, False)"
    using Cons.prems n by (intro Cons.IH) simp_all
  ultimately show ?case using Cons.prems(2) by (simp add: Let_def)
qed simp

lemma blank_split_lines: "list_all (\<lambda>l. length l = 0) (split_lines s) = (\<forall>c\<in>set s. c = newline)"
proof (induction s)
  case (Cons c s)
  then show ?case by (cases "split_lines s") auto
qed simp

text \<open>When the end of the text exceeds the limits, the rest does not matter.\<close>

lemma tail_loop_big:
  assumes "split_lines full = before @ split_lines s" "list_all code_point s" "byteLength s > maxBytes \<or> length (split_lines s) > maxLines"
  shows "tail_loop maxLines maxBytes (rev (split_lines full)) ([], 0) = tail_loop maxLines maxBytes (rev (split_lines s)) ([], 0)"
proof (rule disjE [OF tail_loop_prefix [of maxLines maxBytes "rev (split_lines s)" "rev before" "[]" 0]])
  assume "\<exists>n1. tail_loop maxLines maxBytes (rev (split_lines s)) ([], 0) = (rev (rev (split_lines s)) @ [], n1, By_lines, False)
        \<and> tail_loop maxLines maxBytes (rev (split_lines s) @ rev before) ([], 0) = tail_loop maxLines maxBytes (rev before) (rev (rev (split_lines s)) @ [], n1)"
  then obtain n1 where "tail_loop maxLines maxBytes (rev (split_lines s)) ([], 0) = (split_lines s, n1, By_lines, False)" by auto
  from tail_loop_from_end [OF this split_lines_points [OF assms(2)]] assms(3) show ?thesis by (simp add: join_split_lines)
qed (simp add: assms(1))

lemma tail_loop_one_line:
  assumes "byteLength t > maxBytes" "split_lines full = before @ [s @ t]"
  shows "tail_loop maxLines maxBytes (rev (split_lines full)) ([], 0) = tail_loop maxLines maxBytes [t] ([], 0)"
proof -
  have "length (utf8 (s @ t)) - maxBytes = length (utf8 s) + (length (utf8 t) - maxBytes)" using assms(1) by (simp add: byteLength_def)
  then have "truncateStringToBytesFromEnd (s @ t) maxBytes = truncateStringToBytesFromEnd t maxBytes"
    using assms(1) by (simp add: truncateStringToBytesFromEnd_def byteLength_def Let_def)
  then show ?thesis using assms by (simp add: Let_def)
qed

lemma tail_loop_next_too_long:
  assumes "split_lines full = before @ [l] @ split_lines s" "byteLength s \<le> maxBytes" "length (split_lines s) \<le> maxLines"
    "byteLength s + byteLength l + 1 > maxBytes" "\<exists>c\<in>set s. c \<noteq> newline"
  shows "\<exists>b. tail_loop maxLines maxBytes (rev (split_lines full)) ([], 0) = (split_lines s, byteLength s, b, False)"
proof -
  let ?xs = "rev (split_lines s)" and ?ys = "l # rev before"
  have all: "tail_loop maxLines maxBytes ?xs ([], 0) = (split_lines s, byteLength s, By_lines, False)"
    using tail_loop_all [of ?xs "[]"] assms(2,3) by (simp add: join_split_lines)
  have "\<not> list_all (\<lambda>l. length l = 0) (split_lines s)" using assms(5) unfolding blank_split_lines by blast
  then have "\<exists>b. tail_loop maxLines maxBytes ?ys (split_lines s, byteLength s) = (split_lines s, byteLength s, b, False)"
    using assms(4) by (simp add: Let_def)
  moreover have "rev (split_lines full) = ?xs @ ?ys" by (simp add: assms(1))
  ultimately show ?thesis using tail_loop_prefix [of maxLines maxBytes ?xs ?ys "[]" 0] all by auto
qed

section \<open>The snapshot\<close>

definition tail_view :: "truncation_result \<Rightarrow> code_points \<times> nat \<times> nat \<times> bool" where
  "tail_view r = (tn_content r, tn_outputLines r, tn_outputBytes r, tn_lastLinePartial r)"

lemma tail_view_loop:
  assumes "length (split_lines s) > maxLines \<or> byteLength s > maxBytes"
    "tail_loop maxLines maxBytes (rev (split_lines s)) ([], 0) = (out, n, b, p)"
  shows "tail_view (truncateTail s \<lparr>op_maxLines = Some maxLines, op_maxBytes = Some maxBytes\<rparr>) = (join_lines out, length out, byteLength (join_lines out), p)"
  using assms by (auto simp: truncateTail_def option_or_def tail_view_def Let_def)

lemma tail_view_whole:
  assumes "length (split_lines s) \<le> maxLines" "byteLength s \<le> maxBytes"
  shows "tail_view (truncateTail s \<lparr>op_maxLines = Some maxLines, op_maxBytes = Some maxBytes\<rparr>) = (s, length (split_lines s), byteLength s, False)"
  using assms by (simp add: truncateTail_def option_or_def tail_view_def Let_def)

lemma tail_view_loops:
  assumes "length (split_lines s) > maxLines \<or> byteLength s > maxBytes" "length (split_lines t) > maxLines \<or> byteLength t > maxBytes"
    "tail_loop maxLines maxBytes (rev (split_lines s)) ([], 0) = tail_loop maxLines maxBytes (rev (split_lines t)) ([], 0)"
  shows "tail_view (truncateTail s \<lparr>op_maxLines = Some maxLines, op_maxBytes = Some maxBytes\<rparr>)
     = tail_view (truncateTail t \<lparr>op_maxLines = Some maxLines, op_maxBytes = Some maxBytes\<rparr>)"
proof -
  obtain out n b p where o: "tail_loop maxLines maxBytes (rev (split_lines s)) ([], 0) = (out, n, b, p)" by (metis prod_cases4)
  show ?thesis unfolding tail_view_loop [OF assms(1) o] using tail_view_loop [OF assms(2) o [unfolded assms(3)]] by simp
qed

lemma getSnapshotText_after_newline:
  assumes "\<not> ac_tailStartsAtLineBoundary a" "newline \<in> set (ac_tailText a)"
  obtains p where "ac_tailText a = p @ newline # getSnapshotText a" "newline \<notin> set p"
proof -
  obtain p s where p: "ac_tailText a = p @ newline # s" "newline \<notin> set p" using assms(2) by (meson split_list_first)
  then have "dropWhile (\<lambda>c. c \<noteq> newline) (ac_tailText a) = newline # s" by (simp add: dropWhile_append)
  then have "getSnapshotText a = s" using assms by (simp add: getSnapshotText_def)
  with p that show thesis by blast
qed

lemma split_lines_after:
  assumes "last before = newline" "before \<noteq> []"
  obtains ls where "split_lines (before @ s) = ls @ split_lines s"
proof -
  have "before @ s = butlast before @ newline # s" using assms by (metis append_butlast_last_id append.assoc append_Cons append_Nil)
  then show thesis using that split_lines_at by metis
qed

lemma long_rest:
  assumes "list_all code_point (before @ t)" "split_lines (before @ t) = ls @ split_lines t" "byteLength t > maxBytes"
  shows "tail_view (truncateTail t \<lparr>op_maxLines = Some maxLines, op_maxBytes = Some maxBytes\<rparr>)
     = tail_view (truncateTail (before @ t) \<lparr>op_maxLines = Some maxLines, op_maxBytes = Some maxBytes\<rparr>)"
proof (rule tail_view_loops)
  show "tail_loop maxLines maxBytes (rev (split_lines t)) ([], 0) = tail_loop maxLines maxBytes (rev (split_lines (before @ t))) ([], 0)"
    by (rule tail_loop_big [OF assms(2), symmetric]) (use assms(1,3) in simp_all)
qed (use assms(3) in simp_all)

lemma long_line:
  assumes "newline \<notin> set t" "byteLength t > maxBytes"
  shows "tail_view (truncateTail t \<lparr>op_maxLines = Some maxLines, op_maxBytes = Some maxBytes\<rparr>)
     = tail_view (truncateTail (before @ t) \<lparr>op_maxLines = Some maxLines, op_maxBytes = Some maxBytes\<rparr>)"
proof (rule tail_view_loops)
  have "last (split_lines (before @ t)) = last (split_lines before) @ t" using assms(1) by (simp add: last_line_append)
  then have "split_lines (before @ t) = butlast (split_lines (before @ t)) @ [last (split_lines before) @ t]"
    by (metis append_butlast_last_id split_lines_not_Nil)
  from tail_loop_one_line [OF assms(2) this]
  show "tail_loop maxLines maxBytes (rev (split_lines t)) ([], 0) = tail_loop maxLines maxBytes (rev (split_lines (before @ t))) ([], 0)"
    by (simp add: split_lines_one [OF assms(1)])
qed (use assms(2) in simp_all)

lemma rest_of_line:
  assumes "list_all code_point full" "full = before @ p @ newline # s" "maxBytes * 2 \<le> byteLength (p @ newline # s) + 3" "4 \<le> maxBytes"
    "\<exists>c\<in>set s. c \<noteq> newline" "newline \<notin> set p"
  shows "tail_view (truncateTail s \<lparr>op_maxLines = Some maxLines, op_maxBytes = Some maxBytes\<rparr>)
     = tail_view (truncateTail full \<lparr>op_maxLines = Some maxLines, op_maxBytes = Some maxBytes\<rparr>)"
proof -
  have lines: "split_lines full = split_lines (before @ p) @ split_lines s"
    using split_lines_at [of "before @ p" s] by (simp add: assms(2))
  have big: "byteLength full > maxBytes" using assms(3,4) by (simp add: assms(2))
  show ?thesis
  proof (cases "byteLength s > maxBytes \<or> length (split_lines s) > maxLines")
    case True
    show ?thesis
    proof (rule tail_view_loops)
      show "tail_loop maxLines maxBytes (rev (split_lines s)) ([], 0) = tail_loop maxLines maxBytes (rev (split_lines full)) ([], 0)"
        by (rule tail_loop_big [OF lines, symmetric]) (use assms(1,2) True in simp_all)
    qed (use True big in auto)
  next
    case False
    let ?l = "last (split_lines (before @ p))"
    have "?l = last (split_lines before) @ p" using assms(6) by (simp add: last_line_append)
    then have long: "byteLength s + byteLength ?l + 1 > maxBytes" using assms(3,4) by simp
    have one: "split_lines full = butlast (split_lines (before @ p)) @ [?l] @ split_lines s"
      unfolding lines by (metis append.assoc append_butlast_last_id split_lines_not_Nil)
    have "\<exists>b. tail_loop maxLines maxBytes (rev (split_lines full)) ([], 0) = (split_lines s, byteLength s, b, False)"
      by (rule tail_loop_next_too_long [OF one _ _ long assms(5)]) (use False in simp_all)
    then obtain b where b: "tail_loop maxLines maxBytes (rev (split_lines full)) ([], 0) = (split_lines s, byteLength s, b, False)" ..
    show ?thesis
      unfolding tail_view_loop [OF disjI2 [OF big] b] using tail_view_whole [of s maxLines maxBytes] False
      by (simp add: join_split_lines linorder_not_less)
  qed
qed

lemma snapshot_view:
  assumes "tail_ok maxBytes full (ac_tailText a) (ac_tailStartsAtLineBoundary a)" "list_all code_point full" "4 \<le> maxBytes"
    "ac_tailStartsAtLineBoundary a \<or> (\<exists>c\<in>set (getSnapshotText a). c \<noteq> newline)"
  shows "tail_view (truncateTail (getSnapshotText a) \<lparr>op_maxLines = Some maxLines, op_maxBytes = Some maxBytes\<rparr>)
     = tail_view (truncateTail full \<lparr>op_maxLines = Some maxLines, op_maxBytes = Some maxBytes\<rparr>)"
proof -
  obtain before where b: "full = before @ ac_tailText a" "ac_tailStartsAtLineBoundary a = (before = [] \<or> last before = newline)"
    "before \<noteq> [] \<longrightarrow> maxBytes * 2 \<le> byteLength (ac_tailText a) + 3"
    using assms(1) by (auto simp: tail_ok_def)
  have long: "byteLength (ac_tailText a) > maxBytes" if "before \<noteq> []" using that b(3) assms(3) by linarith
  consider (whole) "before = []" | (line) "before \<noteq> []" "last before = newline"
    | (one) "before \<noteq> []" "last before \<noteq> newline" "newline \<notin> set (ac_tailText a)"
    | (part) "before \<noteq> []" "last before \<noteq> newline" "newline \<in> set (ac_tailText a)" by blast
  then show ?thesis
  proof cases
    case whole
    then show ?thesis using b(1,2) by (simp add: getSnapshotText_def)
  next
    case line
    obtain ls where "split_lines (before @ ac_tailText a) = ls @ split_lines (ac_tailText a)" using split_lines_after line by blast
    from long_rest [OF _ this long [OF line(1)]] assms(2) line b show ?thesis by (simp add: getSnapshotText_def)
  next
    case one
    from long_line [OF one(3) long [OF one(1)]] one b show ?thesis by (simp add: getSnapshotText_def)
  next
    case part
    obtain p where p: "ac_tailText a = p @ newline # getSnapshotText a" "newline \<notin> set p"
      using getSnapshotText_after_newline part b(2) by metis
    show ?thesis
      by (rule rest_of_line [OF assms(2) b(1) [unfolded p(1)] _ assms(3) _ p(2)]) (use b p(1) part assms(4) in auto)
  qed
qed

lemma truncateTail_totals:
  "tn_truncated (truncateTail s \<lparr>op_maxLines = Some maxLines, op_maxBytes = Some maxBytes\<rparr>) = (length (split_lines s) > maxLines \<or> byteLength s > maxBytes)"
  "tn_totalLines (truncateTail s \<lparr>op_maxLines = Some maxLines, op_maxBytes = Some maxBytes\<rparr>) = length (split_lines s)"
  "tn_totalBytes (truncateTail s \<lparr>op_maxLines = Some maxLines, op_maxBytes = Some maxBytes\<rparr>) = byteLength s"
  "tn_maxLines (truncateTail s \<lparr>op_maxLines = Some maxLines, op_maxBytes = Some maxBytes\<rparr>) = maxLines"
  "tn_maxBytes (truncateTail s \<lparr>op_maxLines = Some maxLines, op_maxBytes = Some maxBytes\<rparr>) = maxBytes"
  "\<not> tn_firstLineExceedsLimit (truncateTail s \<lparr>op_maxLines = Some maxLines, op_maxBytes = Some maxBytes\<rparr>)"
  by (auto simp: truncateTail_def option_or_def Let_def split: prod.splits)

lemma getLastLineBytes_correct:
  assumes "accumulates dc maxLines maxBytes raw full a" "list_all code_point full"
  shows "getLastLineBytes a = byteLength (last (split_lines full))"
  using accumulates_ok [OF assms] by (simp add: accumulator_ok_def acc_ok_def getLastLineBytes_def)

text \<open>
  C18: the snapshot of an accumulator is the truncation of the whole output. However the output was
  cut into chunks and however much of it was forgotten, the content and all numbers of the snapshot
  are those that truncating the whole decoded text at its end would give, unless the part of the
  tail that is looked at is blank.
\<close>
theorem snapshot_truncates_whole_output:
  assumes "accumulates dc maxLines maxBytes raw full a" "list_all code_point full" "4 \<le> maxBytes"
    "ac_tailStartsAtLineBoundary a \<or> (\<exists>c\<in>set (getSnapshotText a). c \<noteq> newline)"
  shows "case output_snapshot a of (content, truncation, path) \<Rightarrow>
      content = tn_content (truncateTail full \<lparr>op_maxLines = Some maxLines, op_maxBytes = Some maxBytes\<rparr>)
      \<and> truncation\<lparr>tn_truncatedBy := None\<rparr>
          = (truncateTail full \<lparr>op_maxLines = Some maxLines, op_maxBytes = Some maxBytes\<rparr>)\<lparr>tn_truncatedBy := None\<rparr>"
proof -
  have ok: "acc_ok maxLines maxBytes raw full a" using accumulates_ok [OF assms(1,2)] by (simp add: accumulator_ok_def)
  then have "tail_view (truncateTail (getSnapshotText a) \<lparr>op_maxLines = Some maxLines, op_maxBytes = Some maxBytes\<rparr>)
     = tail_view (truncateTail full \<lparr>op_maxLines = Some maxLines, op_maxBytes = Some maxBytes\<rparr>)"
    by (intro snapshot_view [OF _ assms(2-4)]) (simp add: acc_ok_def)
  with ok show ?thesis
    by (auto simp: output_snapshot_def snapshot_truncation_def Let_def tail_view_def acc_ok_def truncateTail_totals
        intro!: truncation_result.equality)
qed

definition ascii_decoder :: "unit text_decoder" where
  "ascii_decoder = \<lparr>dc_decode = (\<lambda>bs d. (bs, d)), dc_flush = (\<lambda>d. []), dc_start = ()\<rparr>"

definition output_of :: "nat list \<Rightarrow> unit accumulator" where
  "output_of bs = the (append_output ascii_decoder ''/tmp/out'' bs (new_accumulator ascii_decoder (Some 3) (Some 4)))"

lemma accumulates_output_of: "accumulates ascii_decoder 3 4 bs bs (output_of bs)"
proof -
  let ?a = "new_accumulator ascii_decoder (Some 3) (Some 4)"
  have "\<exists>a1. append_output ascii_decoder ''/tmp/out'' bs ?a = Some a1"
    by (simp add: append_output_def new_accumulator_def Let_def split: prod.splits)
  then have "append_output ascii_decoder ''/tmp/out'' bs ?a = Some (output_of bs)" by (auto simp: output_of_def)
  from accumulates_append [OF accumulates_new this] show ?thesis by (simp add: ascii_decoder_def)
qed

text \<open>ASCII output: its bytes are its characters.\<close>

lemma ascii_text:
  assumes "list_all (\<lambda>c. c < 128) s"
  shows "utf8 s = s" "byteLength s = length s" "dropWhile is_continuation s = s" "utf8_decode s = s"
proof -
  show u: "utf8 s = s" using assms by (induction s) (auto simp: utf8_def utf8_char_def)
  then show "byteLength s = length s" by (simp add: byteLength_def)
  show "dropWhile is_continuation s = s" using assms by (cases s) (simp_all add: is_continuation_iff)
  have "list_all code_point s" using assms by (auto simp: list_all_iff code_point_def)
  from utf8_decode_utf8 [OF this] show "utf8_decode s = s" by (simp add: u)
qed

lemma output_of_long:
  assumes "list_all (\<lambda>c. c < 128) bs" "length bs > 16"
  shows "ac_tailText (output_of bs) = drop (length bs - 8) bs"
    "ac_tailStartsAtLineBoundary (output_of bs) = (bs ! (length bs - 9) = newline)" "ac_maxLines (output_of bs) = 3" "ac_maxBytes (output_of bs) = 4"
    "\<not> ac_finished (output_of bs)" "ac_spill (output_of bs) = \<lparr>sp_path = Some ''/tmp/out'', sp_stream = Some [bs], sp_failed = False\<rparr>"
proof -
  have "list_all (\<lambda>c. c < 128) (drop (length bs - 8) bs)" using assms(1) by (metis append_take_drop_id list_all_append)
  note d = ascii_text [OF this] and b = ascii_text [OF assms(1)]
  show "ac_tailText (output_of bs) = drop (length bs - 8) bs"
    "ac_tailStartsAtLineBoundary (output_of bs) = (bs ! (length bs - 9) = newline)" "ac_maxLines (output_of bs) = 3" "ac_maxBytes (output_of bs) = 4"
    "\<not> ac_finished (output_of bs)" "ac_spill (output_of bs) = \<lparr>sp_path = Some ''/tmp/out'', sp_stream = Some [bs], sp_failed = False\<rparr>"
    using assms by (auto simp: output_of_def append_output_def new_accumulator_def appendDecodedText_def trimTail_def ascii_decoder_def
        option_or_def shouldUseTempFile_def ensureTempFile_def spill_open_def spill_write_def isOpen_def new_spill_def Let_def b d)
qed

definition long_output :: "nat list" where
  "long_output = [97, 97, 97, 97, 97, 97, 97, 97, 97, 97, 97, 97, 97, 97, 97, 97, 97, 10]"

lemma snapshot_truncates_whole_output_witness:
  "fst (output_snapshot (output_of (long_output @ [98])))
     = tn_content (truncateTail (long_output @ [98]) \<lparr>op_maxLines = Some 3, op_maxBytes = Some 4\<rparr>)"
proof -
  let ?bs = "long_output @ [98]"
  have "list_all code_point ?bs" by (simp add: long_output_def code_point_def)
  moreover have "getSnapshotText (output_of ?bs) = [98]"
    by (simp add: getSnapshotText_def output_of_long long_output_def newline_def)
  ultimately have "case output_snapshot (output_of ?bs) of (content, truncation, path) \<Rightarrow>
      content = tn_content (truncateTail ?bs \<lparr>op_maxLines = Some 3, op_maxBytes = Some 4\<rparr>)
      \<and> truncation\<lparr>tn_truncatedBy := None\<rparr>
          = (truncateTail ?bs \<lparr>op_maxLines = Some 3, op_maxBytes = Some 4\<rparr>)\<lparr>tn_truncatedBy := None\<rparr>"
    by (intro snapshot_truncates_whole_output [OF accumulates_output_of]) (simp_all add: newline_def)
  then show ?thesis by (auto split: prod.splits)
qed

text \<open>
  The first line of the tail is left out when it is not whole, also when nothing but the newline
  at its end comes behind it: the output of one long line is then shown as empty, where truncating
  the whole text shows the end of the line.
\<close>

lemma long_line_is_lost:
  "fst (output_snapshot (output_of long_output)) = []"
  "tn_content (truncateTail long_output \<lparr>op_maxLines = Some 3, op_maxBytes = Some 4\<rparr>) = [97, 97, 97, 10]"
proof -
  have "getSnapshotText (output_of long_output) = []"
    by (simp add: getSnapshotText_def output_of_long long_output_def newline_def)
  then show "fst (output_snapshot (output_of long_output)) = []"
    by (simp add: output_snapshot_def snapshot_truncation_def Let_def output_of_long long_output_def truncateTail_def option_or_def)
  show "tn_content (truncateTail long_output \<lparr>op_maxLines = Some 3, op_maxBytes = Some 4\<rparr>) = [97, 97, 97, 10]"
    by (simp add: truncateTail_def option_or_def long_output_def newline_def ascii_text truncateStringToBytesFromEnd_def is_continuation_iff)
qed

text \<open>
  An accumulator keeps bounded memory and loses no output. It holds a bounded tail and at most
  \<open>maxBytes\<close> bytes of chunks. When it is closed, either the whole output was within the limits and
  is still in the chunks, or a file with exactly the bytes that were appended is reported, or
  writing it failed and no file is reported.
\<close>
lemma output_is_kept_within_bounds:
  assumes "accumulates dc maxLines maxBytes raw full a" "list_all code_point full"
    "ac_finished a" "sp_path (ac_spill a) \<noteq> None \<longrightarrow> isOpen (ac_spill a)"
  shows "byteLength (ac_tailText a) \<le> max (maxBytes * 4) 2 \<and> length (concat (ac_rawChunks a)) \<le> maxBytes
    \<and> (case spill_finalize (ac_spill a) of
         (_, Some path, written) \<Rightarrow> map_option concat written = Some raw
       | (_, None, written) \<Rightarrow> sp_failed (ac_spill a)
           \<or> concat (ac_rawChunks a) = raw \<and> length raw \<le> maxBytes \<and> \<not> tn_truncated (snapshot_truncation a))"
proof -
  have ok: "acc_ok maxLines maxBytes raw full a" "spill_ok raw a" "raw_ok a" using accumulates_ok [OF assms(1,2)] by (simp_all add: accumulator_ok_def)
  have mem: "byteLength (ac_tailText a) \<le> max (maxBytes * 4) 2" "length (concat (ac_rawChunks a)) \<le> maxBytes"
    using ok(1,3) unfolding acc_ok_def raw_ok_def by linarith+
  have small: "length raw \<le> maxBytes \<and> \<not> tn_truncated (snapshot_truncation a)" if "\<not> shouldUseTempFile a"
    using that ok(1) by (auto simp: shouldUseTempFile_def snapshot_truncation_def Let_def acc_ok_def)
  show ?thesis
    using ok(2) assms(3,4) mem small
    by (auto simp: spill_ok_def spill_finalize_def isOpen_def split: option.splits if_splits)
qed

end
