(* ===== verification/Transform_Messages.thy ===== *)
theory Transform_Messages
  imports Messages
begin

text \<open>
  The conversion of a transcript for a provider: \<open>packages/ai/src/providers/transform-messages.ts\<close>.
  Images are replaced where the model takes none, thinking and signatures of other models are
  dropped or turned into text, the ids of tool calls are made fit for the provider, and every call
  gets a result.
\<close>

section \<open>Images\<close>

record target_model =
  tm_provider :: string
  tm_api :: string
  tm_id :: string
  tm_input :: "string list"

definition NON_VISION_USER_IMAGE_PLACEHOLDER :: string where
  "NON_VISION_USER_IMAGE_PLACEHOLDER = ''(image omitted: model does not support images)''"

definition NON_VISION_TOOL_IMAGE_PLACEHOLDER :: string where
  "NON_VISION_TOOL_IMAGE_PLACEHOLDER = ''(tool image omitted: model does not support images)''"

text \<open>The loop of \<open>replaceImagesWithPlaceholder\<close>; the flag is \<open>previousWasPlaceholder\<close>.\<close>

fun replace_images :: "string \<Rightarrow> bool \<Rightarrow> content_block list \<Rightarrow> content_block list" where
  "replace_images placeholder was [] = []"
| "replace_images placeholder was (Image_content d m # bs) =
     (if was then [] else [Text_content placeholder None]) @ replace_images placeholder True bs"
| "replace_images placeholder was (Text_content t s # bs) = Text_content t s # replace_images placeholder (t = placeholder) bs"

definition replaceImagesWithPlaceholder :: "content_block list \<Rightarrow> string \<Rightarrow> content_block list" where
  "replaceImagesWithPlaceholder content placeholder = replace_images placeholder False content"

definition downgrade_message :: "agent_message \<Rightarrow> agent_message" where
  "downgrade_message msg =
     (case msg of
        User_msg u \<Rightarrow> (case um_content u of
            Blocks bs \<Rightarrow> User_msg (u\<lparr>um_content := Blocks (replaceImagesWithPlaceholder bs NON_VISION_USER_IMAGE_PLACEHOLDER)\<rparr>)
          | Plain _ \<Rightarrow> msg)
      | Tool_result_msg r \<Rightarrow> Tool_result_msg (r\<lparr>tr_content := replaceImagesWithPlaceholder (tr_content r) NON_VISION_TOOL_IMAGE_PLACEHOLDER\<rparr>)
      | _ \<Rightarrow> msg)"

definition downgradeUnsupportedImages :: "target_model \<Rightarrow> agent_message list \<Rightarrow> agent_message list" where
  "downgradeUnsupportedImages model messages =
     (if List.member (tm_input model) ''image'' then messages else map downgrade_message messages)"

section \<open>One message\<close>

definition same_model :: "target_model \<Rightarrow> assistant_message \<Rightarrow> bool" where
  "same_model model m = (am_provider m = tm_provider model \<and> am_api m = tm_api model \<and> am_model m = tm_id model)"

type_synonym id_normalizer = "string \<Rightarrow> assistant_message \<Rightarrow> string"

text \<open>\<open>toolCallIdMap\<close>: the last entry for an id counts.\<close>

type_synonym id_map = "(string \<times> string) list"

definition truthy_text :: "string option \<Rightarrow> bool" where
  "truthy_text s = (case s of Some x \<Rightarrow> x \<noteq> [] | None \<Rightarrow> False)"

definition transform_thinking :: "bool \<Rightarrow> string \<Rightarrow> string option \<Rightarrow> bool option \<Rightarrow> assistant_block list" where
  "transform_thinking same thinking signature redacted =
     (let block = A_thinking thinking signature redacted in
      if redacted = Some True then (if same then [block] else [])
      else if same \<and> truthy_text signature then [block]
      else if trim_text thinking = [] then []
      else if same then [block]
      else [A_text thinking None])"

definition transform_call :: "bool \<Rightarrow> id_normalizer option \<Rightarrow> assistant_message \<Rightarrow> id_map \<Rightarrow> tool_call \<Rightarrow> id_map \<times> tool_call" where
  "transform_call same normalizeToolCallId m ids call =
     (let stripped = (if \<not> same \<and> truthy_text (tc_thoughtSignature call) then call\<lparr>tc_thoughtSignature := None\<rparr> else call) in
      case normalizeToolCallId of
        Some f \<Rightarrow>
          (if same then (ids, stripped)
           else
             (let normalizedId = f (tc_id call) m in
              if normalizedId \<noteq> tc_id call then ((tc_id call, normalizedId) # ids, stripped\<lparr>tc_id := normalizedId\<rparr>)
              else (ids, stripped)))
      | None \<Rightarrow> (ids, stripped))"

fun transform_blocks ::
  "bool \<Rightarrow> id_normalizer option \<Rightarrow> assistant_message \<Rightarrow> id_map \<Rightarrow> assistant_block list \<Rightarrow> id_map \<times> assistant_block list" where
  "transform_blocks same normalizeId m ids [] = (ids, [])"
| "transform_blocks same normalizeId m ids (A_thinking t s r # bs) =
     (let (ids1, rest) = transform_blocks same normalizeId m ids bs in (ids1, transform_thinking same t s r @ rest))"
| "transform_blocks same normalizeId m ids (A_text t s # bs) =
     (let (ids1, rest) = transform_blocks same normalizeId m ids bs in (ids1, (if same then A_text t s else A_text t None) # rest))"
| "transform_blocks same normalizeId m ids (A_tool_call c # bs) =
     (let (ids1, c1) = transform_call same normalizeId m ids c; (ids2, rest) = transform_blocks same normalizeId m ids1 bs
      in (ids2, A_tool_call c1 # rest))"

fun transform_all :: "target_model \<Rightarrow> id_normalizer option \<Rightarrow> id_map \<Rightarrow> agent_message list \<Rightarrow> agent_message list" where
  "transform_all model normalizeId ids [] = []"
| "transform_all model normalizeId ids (Assistant_msg m # ms) =
     (let (ids1, content) = transform_blocks (same_model model m) normalizeId m ids (am_content m)
      in Assistant_msg (m\<lparr>am_content := content\<rparr>) # transform_all model normalizeId ids1 ms)"
| "transform_all model normalizeId ids (Tool_result_msg r # ms) =
     Tool_result_msg (case map_of ids (tr_toolCallId r) of
         Some normalizedId \<Rightarrow> if normalizedId \<noteq> [] \<and> normalizedId \<noteq> tr_toolCallId r then r\<lparr>tr_toolCallId := normalizedId\<rparr> else r
       | None \<Rightarrow> r) # transform_all model normalizeId ids ms"
| "transform_all model normalizeId ids (msg # ms) = msg # transform_all model normalizeId ids ms"

section \<open>Calls and results\<close>

definition synthetic_result :: "jsnumber \<Rightarrow> tool_call \<Rightarrow> agent_message" where
  "synthetic_result now tc = Tool_result_msg \<lparr>tr_toolCallId = tc_id tc, tr_toolName = tc_name tc,
     tr_content = [Text_content ''No result provided'' None], tr_details = None, tr_isError = True, tr_timestamp = now\<rparr>"

definition insertSyntheticToolResults :: "jsnumber \<Rightarrow> tool_call list \<Rightarrow> string list \<Rightarrow> agent_message list" where
  "insertSyntheticToolResults now pending existing =
     map (synthetic_result now) (filter (\<lambda>tc. \<not> List.member existing (tc_id tc)) pending)"

definition failed_message :: "assistant_message \<Rightarrow> bool" where
  "failed_message m = (am_stopReason m = Error_stop \<or> am_stopReason m = Aborted)"

text \<open>The second loop, with \<open>pendingToolCalls\<close> and \<open>existingToolResultIds\<close>.\<close>

fun answer_calls :: "jsnumber \<Rightarrow> tool_call list \<Rightarrow> string list \<Rightarrow> agent_message list \<Rightarrow> agent_message list" where
  "answer_calls now pending existing [] = insertSyntheticToolResults now pending existing"
| "answer_calls now pending existing (Assistant_msg m # ms) =
     insertSyntheticToolResults now pending existing
     @ (if failed_message m then answer_calls now [] [] ms
        else Assistant_msg m # answer_calls now (tool_calls_of (am_content m)) [] ms)"
| "answer_calls now pending existing (Tool_result_msg r # ms) =
     (if list_ex (\<lambda>tc. tc_id tc = tr_toolCallId r) pending
      then Tool_result_msg r # answer_calls now pending (tr_toolCallId r # existing) ms
      else answer_calls now pending existing ms)"
| "answer_calls now pending existing (User_msg u # ms) =
     insertSyntheticToolResults now pending existing @ User_msg u # answer_calls now [] [] ms"
| "answer_calls now pending existing (msg # ms) = msg # answer_calls now pending existing ms"

definition transformMessages :: "jsnumber \<Rightarrow> target_model \<Rightarrow> id_normalizer option \<Rightarrow> agent_message list \<Rightarrow> agent_message list" where
  "transformMessages now model normalizeId messages =
     answer_calls now [] [] (transform_all model normalizeId [] (downgradeUnsupportedImages model messages))"

section \<open>Answered calls\<close>

text \<open>
  What providers ask of a conversation: a result answers a call of the last assistant message, and
  all its calls are answered before the next message of the user or the assistant; there is no
  failed message.
\<close>

definition all_answered :: "tool_call list \<Rightarrow> string list \<Rightarrow> bool" where
  "all_answered pending existing = list_all (\<lambda>tc. List.member existing (tc_id tc)) pending"

fun calls_answered :: "tool_call list \<Rightarrow> string list \<Rightarrow> agent_message list \<Rightarrow> bool" where
  "calls_answered pending existing [] = all_answered pending existing"
| "calls_answered pending existing (Assistant_msg m # ms) =
     (all_answered pending existing \<and> \<not> failed_message m \<and> calls_answered (tool_calls_of (am_content m)) [] ms)"
| "calls_answered pending existing (Tool_result_msg r # ms) =
     (list_ex (\<lambda>tc. tc_id tc = tr_toolCallId r) pending \<and> calls_answered pending (tr_toolCallId r # existing) ms)"
| "calls_answered pending existing (User_msg u # ms) = (all_answered pending existing \<and> calls_answered [] [] ms)"
| "calls_answered pending existing (msg # ms) = calls_answered pending existing ms"

lemma synthetic_answers: "calls_answered pending e (synthetic_result now tc # ms)
    = (list_ex (\<lambda>c. tc_id c = tc_id tc) pending \<and> calls_answered pending (tc_id tc # e) ms)"
  by (simp add: synthetic_result_def)

lemma calls_answered_synthetic:
  assumes "set tcs \<subseteq> set pending" "\<And>ex. set existing \<union> tc_id ` set tcs \<subseteq> set ex \<Longrightarrow> calls_answered pending ex ms"
  shows "calls_answered pending existing (map (synthetic_result now) tcs @ ms)"
  using assms
proof (induction tcs arbitrary: existing)
  case (Cons tc tcs)
  have "calls_answered pending (tc_id tc # existing) (map (synthetic_result now) tcs @ ms)"
    using Cons.prems by (intro Cons.IH) auto
  moreover have "list_ex (\<lambda>c. tc_id c = tc_id tc) pending" using Cons.prems(1) by (auto simp: list_ex_iff)
  ultimately show ?case by (simp add: synthetic_answers)
qed simp

lemma calls_answered_insert:
  assumes "\<And>ex. all_answered pending ex \<Longrightarrow> calls_answered pending ex ms"
  shows "calls_answered pending existing (insertSyntheticToolResults now pending existing @ ms)"
  unfolding insertSyntheticToolResults_def
proof (rule calls_answered_synthetic)
  fix ex
  assume "set existing \<union> tc_id ` set (filter (\<lambda>tc. \<not> List.member existing (tc_id tc)) pending) \<subseteq> set ex"
  then have "\<forall>tc\<in>set pending. tc_id tc \<in> set ex" by (auto simp: image_subset_iff)
  then show "calls_answered pending ex ms" by (intro assms) (simp add: all_answered_def list_all_iff)
qed auto

lemma calls_answered_idle: "calls_answered [] e ms \<Longrightarrow> all_answered pending ex \<Longrightarrow> calls_answered pending ex ms"
proof (induction ms)
  case (Cons x ms)
  then show ?case by (cases x) simp_all
qed simp

lemma answer_calls_answered: "calls_answered pending existing (answer_calls now pending existing ms)"
proof (induction now pending existing ms rule: answer_calls.induct)
  case (2 now pending existing m ms)
  have none: "calls_answered pending ex (answer_calls now [] [] ms)" if "all_answered pending ex" "failed_message m" for ex
    using that 2(1) calls_answered_idle by blast
  show ?case
    by (cases "failed_message m") (use 2 none in \<open>auto intro!: calls_answered_insert\<close>)
next
  case (1 now pending existing)
  then show ?case using calls_answered_insert [of pending "[]" existing now] by simp
qed (auto intro!: calls_answered_insert)

section \<open>What is kept\<close>

definition users_of :: "agent_message list \<Rightarrow> user_message list" where
  "users_of ms = List.map_filter (\<lambda>m. case m of User_msg u \<Rightarrow> Some u | _ \<Rightarrow> None) ms"

text \<open>The assistant messages without their content, which the conversion may change.\<close>

definition assistants_of :: "agent_message list \<Rightarrow> assistant_message list" where
  "assistants_of ms = List.map_filter (\<lambda>m. case m of Assistant_msg a \<Rightarrow> Some (a\<lparr>am_content := []\<rparr>) | _ \<Rightarrow> None) ms"

lemma messages_of_simps [simp]:
  "users_of [] = []" "users_of (User_msg u # ms) = u # users_of ms" "users_of (Assistant_msg m # ms) = users_of ms"
  "users_of (Tool_result_msg r # ms) = users_of ms" "users_of (xs @ ms) = users_of xs @ users_of ms"
  "users_of (Bash_msg b # ms) = users_of ms" "users_of (Custom_msg c # ms) = users_of ms"
  "users_of (Branch_summary_msg s # ms) = users_of ms" "users_of (Compaction_summary_msg k # ms) = users_of ms"
  "assistants_of [] = []" "assistants_of (User_msg u # ms) = assistants_of ms"
  "assistants_of (Assistant_msg m # ms) = m\<lparr>am_content := []\<rparr> # assistants_of ms"
  "assistants_of (Tool_result_msg r # ms) = assistants_of ms" "assistants_of (xs @ ms) = assistants_of xs @ assistants_of ms"
  "assistants_of (Bash_msg b # ms) = assistants_of ms" "assistants_of (Custom_msg c # ms) = assistants_of ms"
  "assistants_of (Branch_summary_msg s # ms) = assistants_of ms" "assistants_of (Compaction_summary_msg k # ms) = assistants_of ms"
  by (simp_all add: users_of_def assistants_of_def map_filter_def)

lemma messages_of_synthetic [simp]:
  "users_of (insertSyntheticToolResults now pending existing) = []"
  "assistants_of (insertSyntheticToolResults now pending existing) = []"
proof -
  have "users_of (map (synthetic_result now) tcs) = [] \<and> assistants_of (map (synthetic_result now) tcs) = []" for tcs
    by (induction tcs) (simp_all add: synthetic_result_def)
  then show "users_of (insertSyntheticToolResults now pending existing) = []"
    "assistants_of (insertSyntheticToolResults now pending existing) = []"
    by (simp_all add: insertSyntheticToolResults_def)
qed

lemma answer_calls_keeps:
  "users_of (answer_calls now pending existing ms) = users_of ms
   \<and> assistants_of (answer_calls now pending existing ms) = filter (\<lambda>m. \<not> failed_message m) (assistants_of ms)"
proof -
  have "failed_message (m\<lparr>am_content := []\<rparr>) = failed_message m" for m by (simp add: failed_message_def)
  then show ?thesis by (induction now pending existing ms rule: answer_calls.induct) simp_all
qed

lemma transform_all_keeps:
  "users_of (transform_all model normalizeId ids ms) = users_of ms \<and> assistants_of (transform_all model normalizeId ids ms) = assistants_of ms"
proof (induction ms arbitrary: ids)
  case (Cons x ms)
  then show ?case by (cases x) (simp_all add: case_prod_unfold Let_def)
qed simp

lemma downgrade_keeps: "assistants_of (downgradeUnsupportedImages model ms) = assistants_of ms"
proof -
  have "assistants_of (map downgrade_message ms) = assistants_of ms"
  proof (induction ms)
    case (Cons x ms)
    then show ?case by (cases x) (simp_all add: downgrade_message_def split: user_content.splits)
  qed simp
  then show ?thesis by (simp add: downgradeUnsupportedImages_def)
qed

text \<open>
  C19: what a provider is sent is a well-formed conversation, whatever the transcript. In the
  converted messages every tool result answers a call of the last assistant message, all calls are
  answered before the next message of the user or the assistant, and there is no failed message;
  and the messages of the user, with images replaced where the model takes none, and the assistant
  messages that did not fail, up to their content, are those of the transcript in the same order.
\<close>
theorem provider_messages_well_formed:
  "calls_answered [] [] (transformMessages now model normalizeId messages)
   \<and> users_of (transformMessages now model normalizeId messages) = users_of (downgradeUnsupportedImages model messages)
   \<and> assistants_of (transformMessages now model normalizeId messages) = filter (\<lambda>m. \<not> failed_message m) (assistants_of messages)"
  unfolding transformMessages_def by (simp add: answer_calls_answered answer_calls_keeps transform_all_keeps downgrade_keeps)

section \<open>Conversations that are well formed already\<close>

definition call_ids :: "agent_message list \<Rightarrow> string list" where
  "call_ids ms = concat (map (\<lambda>m. case m of Assistant_msg a \<Rightarrow> map tc_id (tool_calls_of (am_content a)) | _ \<Rightarrow> []) ms)"

lemma call_ids_simps [simp]:
  "call_ids [] = []" "call_ids (Assistant_msg a # ms) = map tc_id (tool_calls_of (am_content a)) @ call_ids ms"
  "call_ids (User_msg u # ms) = call_ids ms" "call_ids (Tool_result_msg r # ms) = call_ids ms" "call_ids (Bash_msg b # ms) = call_ids ms"
  "call_ids (Custom_msg c # ms) = call_ids ms" "call_ids (Branch_summary_msg s # ms) = call_ids ms"
  "call_ids (Compaction_summary_msg k # ms) = call_ids ms"
  by (simp_all add: call_ids_def)

text \<open>The id a result gets by the map of ids.\<close>

definition mapped_id :: "id_map \<Rightarrow> string \<Rightarrow> string" where
  "mapped_id ids i = (case map_of ids i of Some n \<Rightarrow> if n \<noteq> [] \<and> n \<noteq> i then n else i | None \<Rightarrow> i)"

lemma transform_result:
  "transform_all model normalizeId ids (Tool_result_msg r # ms)
     = Tool_result_msg (r\<lparr>tr_toolCallId := mapped_id ids (tr_toolCallId r)\<rparr>) # transform_all model normalizeId ids ms"
  by (simp add: mapped_id_def split: option.splits)

definition never_empty :: "id_normalizer option \<Rightarrow> bool" where
  "never_empty normalizeId = (case normalizeId of Some f \<Rightarrow> (\<forall>i m. f i m \<noteq> []) | None \<Rightarrow> True)"

lemma calls_of_thinking [simp]: "tool_calls_of (transform_thinking same t s r @ bs) = tool_calls_of bs"
  by (simp add: transform_thinking_def Let_def)

lemma mapped_id_cong: "map_of ids i = map_of ids1 i \<Longrightarrow> mapped_id ids i = mapped_id ids1 i"
  by (simp add: mapped_id_def)

lemma transform_call_id:
  assumes "never_empty normalizeId" "map_of ids (tc_id c) = None" "transform_call same normalizeId m ids c = (ids1, c1)"
  shows "tc_id c1 = mapped_id ids1 (tc_id c) \<and> tc_name c1 = tc_name c \<and> tc_arguments c1 = tc_arguments c
     \<and> (\<forall>i. i \<noteq> tc_id c \<longrightarrow> map_of ids1 i = map_of ids i)"
  using assms by (auto simp: transform_call_def Let_def mapped_id_def never_empty_def split: option.splits if_splits)

lemma transform_blocks_ids:
  assumes "never_empty normalizeId" "transform_blocks same normalizeId m ids bs = (ids1, bs1)"
    "distinct (map tc_id (tool_calls_of bs))" "\<forall>i\<in>tc_id ` set (tool_calls_of bs). map_of ids i = None"
  shows "map tc_id (tool_calls_of bs1) = map (\<lambda>c. mapped_id ids1 (tc_id c)) (tool_calls_of bs)
     \<and> map (\<lambda>c. (tc_name c, tc_arguments c)) (tool_calls_of bs1) = map (\<lambda>c. (tc_name c, tc_arguments c)) (tool_calls_of bs)
     \<and> (\<forall>i. i \<notin> tc_id ` set (tool_calls_of bs) \<longrightarrow> map_of ids1 i = map_of ids i)"
  using assms(2-)
proof (induction bs arbitrary: ids ids1 bs1)
  case (Cons b bs)
  show ?case
  proof (cases b)
    case (A_tool_call c)
    obtain ids2 c1 where c: "transform_call same normalizeId m ids c = (ids2, c1)" by fastforce
    obtain rest where r: "transform_blocks same normalizeId m ids2 bs = (ids1, rest)" "bs1 = A_tool_call c1 # rest"
      using Cons.prems(1) by (auto simp: A_tool_call c split: prod.splits)
    note f = transform_call_id [OF assms(1) _ c]
    have new: "map_of ids (tc_id c) = None" "tc_id c \<notin> tc_id ` set (tool_calls_of bs)" "distinct (map tc_id (tool_calls_of bs))"
      using Cons.prems(2,3) by (auto simp: A_tool_call)
    have others: "\<forall>i\<in>tc_id ` set (tool_calls_of bs). map_of ids2 i = None"
    proof
      fix i assume i: "i \<in> tc_id ` set (tool_calls_of bs)"
      have "i \<noteq> tc_id c" using i new(2) by blast
      moreover have "map_of ids i = None" using i Cons.prems(3) by (auto simp: A_tool_call)
      ultimately show "map_of ids2 i = None" using f [OF new(1)] by simp
    qed
    note ih = Cons.IH [OF r(1) new(3) others]
    have "mapped_id ids1 (tc_id c) = mapped_id ids2 (tc_id c)" using ih new(2) by (intro mapped_id_cong) blast
    then show ?thesis using ih f [OF new(1)] by (simp add: A_tool_call r(2))
  qed (use Cons in \<open>auto split: prod.splits\<close>)
qed simp

lemma all_answered_ids:
  "all_answered pending existing = list_all (\<lambda>i. List.member existing i) (map tc_id pending)"
  by (simp add: all_answered_def list_all_iff)

lemma free_ids:
  "\<forall>i. i \<notin> S \<longrightarrow> map_of ids1 i = map_of ids i \<Longrightarrow> U \<inter> S = {} \<Longrightarrow> \<forall>i\<in>U. map_of ids i = None \<Longrightarrow> \<forall>i\<in>U. map_of ids1 i = None"
  by (metis disjoint_iff)

text \<open>A conversation that is well formed stays so with the ids of another provider.\<close>

lemma transform_all_answered:
  assumes "never_empty normalizeId"
  shows "calls_answered pending existing ms \<Longrightarrow> distinct (call_ids ms) \<Longrightarrow> \<forall>i\<in>set (call_ids ms). map_of ids i = None
    \<Longrightarrow> map tc_id pending1 = map (mapped_id ids) (map tc_id pending)
    \<Longrightarrow> calls_answered pending1 (map (mapped_id ids) existing) (transform_all model normalizeId ids ms)"
proof (induction ms arbitrary: pending existing ids pending1)
  case Nil
  then show ?case by (auto simp: all_answered_ids list_all_iff)
next
  case (Cons x ms)
  have answered: "all_answered pending1 (map (mapped_id ids) existing)" if "all_answered pending existing"
    using that Cons.prems(4) by (auto simp: all_answered_ids list_all_iff)
  show ?case
  proof (cases x)
    case (Assistant_msg m)
    obtain ids1 bs1 where b: "transform_blocks (same_model model m) normalizeId m ids (am_content m) = (ids1, bs1)" by fastforce
    have d: "distinct (map tc_id (tool_calls_of (am_content m)))" "distinct (call_ids ms)"
      "\<forall>i\<in>tc_id ` set (tool_calls_of (am_content m)). map_of ids i = None"
      "set (call_ids ms) \<inter> tc_id ` set (tool_calls_of (am_content m)) = {}"
      using Cons.prems(2,3) by (auto simp: Assistant_msg)
    note t = transform_blocks_ids [OF assms b d(1,3)]
    have "\<forall>i\<in>set (call_ids ms). map_of ids1 i = None"
      using Cons.prems(3) by (intro free_ids [OF _ d(4), of ids1 ids]) (use t in \<open>blast\<close>, simp add: Assistant_msg)
    moreover have "calls_answered (tool_calls_of (am_content m)) [] ms" using Cons.prems(1) by (simp add: Assistant_msg)
    ultimately have "calls_answered (tool_calls_of bs1) (map (mapped_id ids1) []) (transform_all model normalizeId ids1 ms)"
      using t d(2) by (intro Cons.IH) (simp_all add: o_def)
    moreover have "\<not> failed_message (m\<lparr>am_content := bs1\<rparr>)" using Cons.prems(1) by (simp add: Assistant_msg failed_message_def)
    ultimately show ?thesis using answered Cons.prems(1) by (simp add: Assistant_msg b)
  next
    case (Tool_result_msg r)
    have "list_ex (\<lambda>tc. tc_id tc = tr_toolCallId r) pending" using Cons.prems(1) by (simp add: Tool_result_msg)
    then have "mapped_id ids (tr_toolCallId r) \<in> set (map tc_id pending1)" unfolding Cons.prems(4) by (auto simp: list_ex_iff intro: rev_image_eqI)
    then have "list_ex (\<lambda>tc. tc_id tc = mapped_id ids (tr_toolCallId r)) pending1" by (auto simp: list_ex_iff)
    moreover have "calls_answered pending1 (map (mapped_id ids) (tr_toolCallId r # existing)) (transform_all model normalizeId ids ms)"
      using Cons.prems by (intro Cons.IH) (simp_all add: Tool_result_msg)
    ultimately show ?thesis unfolding Tool_result_msg transform_result by simp
  next
    case (User_msg u)
    have "calls_answered [] (map (mapped_id ids) []) (transform_all model normalizeId ids ms)"
      using Cons.prems by (intro Cons.IH) (simp_all add: User_msg)
    then show ?thesis using answered Cons.prems(1) by (simp add: User_msg)
  qed (use Cons in simp_all)
qed

lemma answer_calls_id: "calls_answered pending existing ms \<Longrightarrow> answer_calls now pending existing ms = ms"
proof (induction ms arbitrary: pending existing)
  case Nil
  then show ?case by (simp add: insertSyntheticToolResults_def all_answered_def list_all_iff filter_empty_conv)
next
  case (Cons x ms)
  have "insertSyntheticToolResults now pending existing = []" if "all_answered pending existing"
    using that by (simp add: insertSyntheticToolResults_def all_answered_def list_all_iff filter_empty_conv)
  then show ?case using Cons by (cases x) simp_all
qed

lemma downgrade_answered:
  "calls_answered pending existing (map downgrade_message ms) = calls_answered pending existing ms
   \<and> call_ids (map downgrade_message ms) = call_ids ms"
proof (induction ms arbitrary: pending existing)
  case (Cons x ms)
  then show ?case by (cases x) (simp_all add: downgrade_message_def split: user_content.splits)
qed simp

text \<open>The same message for another provider: its texts, ids, thinking and images may differ.\<close>

definition same_message :: "agent_message \<Rightarrow> agent_message \<Rightarrow> bool" where
  "same_message x y =
     (case x of
        User_msg u \<Rightarrow> (case y of User_msg v \<Rightarrow> um_timestamp v = um_timestamp u | _ \<Rightarrow> False)
      | Assistant_msg m \<Rightarrow> (case y of Assistant_msg n \<Rightarrow> n\<lparr>am_content := []\<rparr> = m\<lparr>am_content := []\<rparr>
          \<and> map (\<lambda>c. (tc_name c, tc_arguments c)) (tool_calls_of (am_content n)) = map (\<lambda>c. (tc_name c, tc_arguments c)) (tool_calls_of (am_content m))
          | _ \<Rightarrow> False)
      | Tool_result_msg r \<Rightarrow> (case y of Tool_result_msg q \<Rightarrow> tr_toolName q = tr_toolName r \<and> tr_details q = tr_details r
          \<and> tr_isError q = tr_isError r \<and> tr_timestamp q = tr_timestamp r | _ \<Rightarrow> False)
      | _ \<Rightarrow> y = x)"

lemma same_message_simps [simp]:
  "same_message (User_msg u) (User_msg v) = (um_timestamp v = um_timestamp u)"
  "same_message (Assistant_msg m) (Assistant_msg n) = (n\<lparr>am_content := []\<rparr> = m\<lparr>am_content := []\<rparr>
     \<and> map (\<lambda>c. (tc_name c, tc_arguments c)) (tool_calls_of (am_content n)) = map (\<lambda>c. (tc_name c, tc_arguments c)) (tool_calls_of (am_content m)))"
  "same_message (Tool_result_msg r) (Tool_result_msg q) = (tr_toolName q = tr_toolName r \<and> tr_details q = tr_details r
     \<and> tr_isError q = tr_isError r \<and> tr_timestamp q = tr_timestamp r)"
  "same_message (Bash_msg b) (Bash_msg b)" "same_message (Custom_msg c) (Custom_msg c)"
  "same_message (Branch_summary_msg s) (Branch_summary_msg s)" "same_message (Compaction_summary_msg k) (Compaction_summary_msg k)"
  by (simp_all add: same_message_def)

lemma transform_all_same:
  assumes "never_empty normalizeId"
  shows "distinct (call_ids ms) \<Longrightarrow> \<forall>i\<in>set (call_ids ms). map_of ids i = None \<Longrightarrow>
    list_all2 same_message ms (transform_all model normalizeId ids ms)"
proof (induction ms arbitrary: ids)
  case (Cons x ms)
  show ?case
  proof (cases x)
    case (Assistant_msg m)
    obtain ids1 bs1 where b: "transform_blocks (same_model model m) normalizeId m ids (am_content m) = (ids1, bs1)" by fastforce
    have d: "distinct (map tc_id (tool_calls_of (am_content m)))" "distinct (call_ids ms)"
      "\<forall>i\<in>tc_id ` set (tool_calls_of (am_content m)). map_of ids i = None"
      "set (call_ids ms) \<inter> tc_id ` set (tool_calls_of (am_content m)) = {}"
      using Cons.prems by (auto simp: Assistant_msg)
    note t = transform_blocks_ids [OF assms b d(1,3)]
    have "\<forall>i\<in>set (call_ids ms). map_of ids1 i = None"
      using Cons.prems(2) by (intro free_ids [OF _ d(4), of ids1 ids]) (use t in \<open>blast\<close>, simp add: Assistant_msg)
    then have "list_all2 same_message ms (transform_all model normalizeId ids1 ms)" by (intro Cons.IH d(2))
    then show ?thesis using t by (simp add: Assistant_msg b)
  qed (use Cons in \<open>simp_all split: option.splits\<close>)
qed simp

lemma downgrade_same: "list_all2 same_message (map downgrade_message ms) ns \<Longrightarrow> list_all2 same_message ms ns"
proof (induction ms arbitrary: ns)
  case (Cons x ms)
  then obtain n ns1 where n: "ns = n # ns1" "same_message (downgrade_message x) n" "list_all2 same_message ms ns1"
    by (auto simp: list_all2_Cons1)
  have "same_message x n"
  proof (cases x)
    case (User_msg u)
    with n(2) show ?thesis by (cases n) (auto simp: same_message_def downgrade_message_def split: user_content.splits)
  next
    case (Tool_result_msg r)
    with n(2) show ?thesis by (cases n) (auto simp: same_message_def downgrade_message_def)
  qed (use n(2) in \<open>simp_all add: downgrade_message_def\<close>)
  with n show ?case by simp
qed simp

text \<open>
  A well-formed transcript reaches the provider whole. If every call of the transcript is
  answered in place, no message failed and no two calls have the same id, then the conversion drops
  and adds no message, keeps the names and arguments of all calls and the outcome of all results,
  and still every result answers its call, whatever ids the provider asks for.
\<close>
lemma well_formed_transcript_is_kept:
  assumes "calls_answered [] [] messages" "distinct (call_ids messages)" "never_empty normalizeId"
  shows "list_all2 same_message messages (transformMessages now model normalizeId messages)"
proof -
  let ?ms = "downgradeUnsupportedImages model messages"
  have ms: "calls_answered [] [] ?ms" "distinct (call_ids ?ms)"
    using assms(1,2) by (simp_all add: downgradeUnsupportedImages_def downgrade_answered)
  have "calls_answered [] (map (mapped_id []) []) (transform_all model normalizeId [] ?ms)"
    by (rule transform_all_answered [OF assms(3) ms]) simp_all
  then have "transformMessages now model normalizeId messages = transform_all model normalizeId [] ?ms"
    by (simp add: transformMessages_def answer_calls_id)
  moreover have "list_all2 same_message ?ms (transform_all model normalizeId [] ?ms)"
    by (rule transform_all_same [OF assms(3) ms(2)]) simp
  ultimately show ?thesis by (auto simp: downgradeUnsupportedImages_def intro: downgrade_same split: if_splits)
qed

section \<open>Examples\<close>

definition told_by :: "string \<Rightarrow> tool_call list \<Rightarrow> agent_message" where
  "told_by provider calls = Assistant_msg \<lparr>am_content = map A_tool_call calls, am_api = ''api'', am_provider = provider,
     am_model = ''m'', am_responseModel = None, am_responseId = None, am_diagnostics = None, am_usage = emptyUsage,
     am_stopReason = Tool_use, am_stopReasonRaw = None, am_errorMessage = None, am_timestamp = Finite 0\<rparr>"

definition call_named :: "string \<Rightarrow> tool_call" where
  "call_named i = \<lparr>tc_id = i, tc_name = ''bash'', tc_arguments = JNull, tc_thoughtSignature = None\<rparr>"

definition result_for :: "string \<Rightarrow> agent_message" where
  "result_for i = Tool_result_msg \<lparr>tr_toolCallId = i, tr_toolName = ''bash'', tr_content = [], tr_details = None, tr_isError = False, tr_timestamp = Finite 0\<rparr>"

definition sample_target :: target_model where
  "sample_target = \<lparr>tm_provider = ''p'', tm_api = ''api'', tm_id = ''m'', tm_input = [''image'']\<rparr>"

text \<open>A provider that takes no colon in an id.\<close>

definition without_colon :: id_normalizer where
  "without_colon i m = map (\<lambda>c. if c = CHR '':'' then CHR ''_'' else c) (if i = [] then ''x'' else i)"

text \<open>
  The map of ids is not cleared. When a call of another provider and a later one of the target have
  the same id, the result of the second gets the id of the first, is dropped and replaced by an
  error.
\<close>

definition repeated_ids :: "agent_message list" where
  "repeated_ids = [told_by ''q'' [call_named ''x:0''], result_for ''x:0'', told_by ''p'' [call_named ''x:0''], result_for ''x:0'']"

lemma repeated_id_loses_result:
  "transformMessages (Finite 1) sample_target (Some without_colon) repeated_ids
     = [told_by ''q'' [call_named ''x_0''], result_for ''x_0'', told_by ''p'' [call_named ''x:0''],
        synthetic_result (Finite 1) (call_named ''x:0'')]"
  by (simp add: transformMessages_def repeated_ids_def told_by_def result_for_def call_named_def sample_target_def
      downgradeUnsupportedImages_def same_model_def transform_call_def without_colon_def truthy_text_def failed_message_def
      insertSyntheticToolResults_def synthetic_result_def Let_def)

end
