(* ===== verification/Journal_Files.thy ===== *)
theory Journal_Files
  imports Messages Truncation_Bounds
begin

text \<open>
  What the recovery journals of the daemon share: files of lines under appends and replacements that
  may fail or stop at any byte (\<open>coding-agent/src/utils/atomic-file.ts\<close> and the appends of the two
  journals), the lines that are complete, and maps in order of insertion.
\<close>

section \<open>Files\<close>

type_synonym bytes = "nat list"

text \<open>None: there is no file.\<close>

definition contents :: "bytes option \<Rightarrow> bytes" where
  "contents f = (case f of None \<Rightarrow> [] | Some b \<Rightarrow> b)"

definition terminated :: "bytes \<Rightarrow> bool" where
  "terminated b = (b = [] \<or> last b = newline)"

text \<open>
  An append opens the file, writes in a loop and synchronises; it may throw before the file is
  open or after the first n bytes are written.
\<close>

datatype append_io = Appended | Not_opened | Cut_off nat

definition append_bytes :: "append_io \<Rightarrow> bytes \<Rightarrow> bytes option \<Rightarrow> bytes option \<times> bool" where
  "append_bytes io bs f =
     (case io of Appended \<Rightarrow> (Some (contents f @ bs), True) | Not_opened \<Rightarrow> (f, False)
      | Cut_off n \<Rightarrow> (Some (contents f @ take n bs), False))"

text \<open>A file is replaced by a rename: at once or not at all. The directory is synchronised after it.\<close>

datatype replace_io = Replaced | Not_replaced | Replaced_unsynced

text \<open>\<open>writeFileAtomicSync\<close> passes over an error of the last step.\<close>

definition write_atomic :: "replace_io \<Rightarrow> bytes \<Rightarrow> bytes option \<Rightarrow> bytes option \<times> bool" where
  "write_atomic io bs f = (if io = Not_replaced then (f, False) else (Some bs, True))"

section \<open>Maps in order of insertion\<close>

fun map_put :: "'k \<Rightarrow> 'v \<Rightarrow> ('k \<times> 'v) list \<Rightarrow> ('k \<times> 'v) list" where
  "map_put k v [] = [(k, v)]"
| "map_put k v ((l, w) # m) = (if l = k then (k, v) # m else (l, w) # map_put k v m)"

definition map_delete :: "'k \<Rightarrow> ('k \<times> 'v) list \<Rightarrow> ('k \<times> 'v) list" where
  "map_delete k m = filter (\<lambda>(l, w). l \<noteq> k) m"

lemma map_of_put [simp]: "map_of (map_put k v m) = (map_of m)(k \<mapsto> v)"
  by (induction k v m rule: map_put.induct) auto

lemma map_of_delete [simp]: "map_of (map_delete k m) = (map_of m)(k := None)"
  by (induction m) (auto simp: map_delete_def)

lemma keys_put: "fst ` set (map_put k v m) = insert k (fst ` set m)"
  by (induction k v m rule: map_put.induct) auto

lemma distinct_put: "distinct (map fst m) \<Longrightarrow> distinct (map fst (map_put k v m))"
  by (induction k v m rule: map_put.induct) (auto simp: keys_put)

lemma map_put_new: "k \<notin> fst ` set m \<Longrightarrow> map_put k v m = m @ [(k, v)]"
  by (induction k v m rule: map_put.induct) auto

lemma map_put_last: "k \<notin> fst ` set m \<Longrightarrow> map_put k v (m @ [(k, w)]) = m @ [(k, v)]"
  by (induction m) auto

lemma set_put: "set (map_put k v m) \<subseteq> insert (k, v) (set m)"
  by (induction k v m rule: map_put.induct) auto

section \<open>Lines of a file\<close>

text \<open>What the code relies on: the JSON text of a record is one line, which is read back as the record.\<close>

definition line_codec :: "('a \<Rightarrow> bytes) \<Rightarrow> (bytes \<Rightarrow> 'b option) \<Rightarrow> ('a \<Rightarrow> 'b) \<Rightarrow> bool" where
  "line_codec stringify parse good = (\<forall>r. parse (stringify r) = Some (good r) \<and> newline \<notin> set (stringify r) \<and> stringify r \<noteq> [])"

definition complete_lines :: "bytes \<Rightarrow> bytes list" where
  "complete_lines b = butlast (split_lines b)"

lemma terminated_cases:
  assumes "terminated b"
  obtains "b = []" | s where "b = s @ [newline]"
  using assms by (metis append_butlast_last_id terminated_def)

lemma complete_lines_append:
  assumes "terminated b" "newline \<notin> set l"
  shows "complete_lines (b @ l @ [newline]) = complete_lines b @ [l]" "complete_lines (b @ l) = complete_lines b"
proof -
  show "complete_lines (b @ l @ [newline]) = complete_lines b @ [l]"
    by (rule terminated_cases [OF assms(1)])
      (use assms(2) in \<open>simp_all add: complete_lines_def split_lines_at split_lines_at [of l "[]", simplified] split_lines_one butlast_append\<close>)
  show "complete_lines (b @ l) = complete_lines b"
    by (rule terminated_cases [OF assms(1)]) (use assms(2) in \<open>simp_all add: complete_lines_def split_lines_at split_lines_one butlast_append\<close>)
qed

lemma complete_lines_Nil [simp]: "complete_lines [] = []"
  by (simp add: complete_lines_def)

lemma split_lines_terminated: "terminated b \<Longrightarrow> split_lines b = complete_lines b @ [[]]"
  by (elim terminated_cases) (simp_all add: complete_lines_def split_lines_at [of _ "[]", simplified])

lemma complete_lines_take:
  assumes "terminated b" "newline \<notin> set l"
  shows "complete_lines (b @ take n (l @ [newline])) = (if n \<le> length l then complete_lines b else complete_lines b @ [l])"
proof (cases "n \<le> length l")
  case True
  have "newline \<notin> set (take n l)" using assms(2) by (meson in_set_takeD)
  then show ?thesis using True complete_lines_append(2) [OF assms(1)] by simp
qed (use complete_lines_append(1) [OF assms] in simp)

lemma complete_lines_join:
  assumes "list_all (\<lambda>l. newline \<notin> set l) ls"
  shows "filter (\<lambda>l. l \<noteq> []) (complete_lines (join_lines ls @ [newline])) = filter (\<lambda>l. l \<noteq> []) ls"
proof (cases "ls = []")
  case False
  have "split_lines (join_lines ls @ [newline]) = split_lines (join_lines ls) @ [[]]" using split_lines_at [of _ "[]"] by simp
  then show ?thesis using False assms by (simp add: complete_lines_def split_lines_join)
qed (simp add: complete_lines_def)

lemma append_ok: "append_bytes io bs f = (f1, True) \<Longrightarrow> f1 = Some (contents f @ bs)"
  by (auto simp: append_bytes_def split: append_io.splits)

lemma terminated_appended: "terminated (b @ l @ [newline])"
  by (simp add: terminated_def)

section \<open>A line of fields\<close>

text \<open>Fields in one line, each ended by 11; no byte is 10. The examples write their records so.\<close>

definition put_fields :: "string list \<Rightarrow> bytes" where
  "put_fields fs = concat (map (\<lambda>s. map (\<lambda>c. of_char c + 12) s @ [11]) fs)"

fun get_fields :: "bytes \<Rightarrow> string list" where
  "get_fields [] = []"
| "get_fields (n # ns) = (if n = 11 then [] # get_fields ns else (case get_fields ns of s # ss \<Rightarrow> (char_of (n - 12) # s) # ss | [] \<Rightarrow> []))"

lemma get_put_fields: "get_fields (put_fields fs) = fs"
proof (induction fs)
  case (Cons s fs)
  have "get_fields (map (\<lambda>c. of_char c + 12) s @ 11 # put_fields fs) = s # fs" using Cons by (induction s) simp_all
  then show ?case by (simp add: put_fields_def)
qed (simp add: put_fields_def)

lemma newline_put_fields: "newline \<notin> set (put_fields fs)"
  by (auto simp: put_fields_def newline_def)

end
