(* ===== verification/Command_Journal.thy ===== *)
theory Command_Journal
  imports Journal_Files
begin

text \<open>
  The command journal of the supervisor, \<open>coding-agent/src/modes/daemon/command-recovery-journal.ts\<close>:
  loading, admission, results, acknowledgement and compaction, every one of which may fail or stop in
  the middle; a step relation of processes that end and start again, and what clients are promised.
\<close>

section \<open>Records and entries\<close>

definition createCommandIdempotencyKey :: "string \<Rightarrow> string \<Rightarrow> string" where
  "createCommandIdempotencyKey clientId commandId = json_stringify (JArr [JStr clientId, JStr commandId])"

datatype 'r journal_record =
    Received_record string string string string string
  | Result_record string 'r string
  | Acknowledged_record string string

text \<open>
  What a line holds that is JSON, has version 1 and a key: a record, or something that is counted
  and has no effect.
\<close>

datatype 'r journal_line = Valid_record "'r journal_record" | Invalid_record

record 'r journal_entry =
  je_received :: "'r journal_record"
  je_response :: "'r option"

record 'r command_journal =
  cj_entries :: "(string \<times> 'r journal_entry) list"
  cj_recordCount :: nat

definition COMPACT_AFTER_RECORDS :: nat where
  "COMPACT_AFTER_RECORDS = 4096"

datatype 'r begin_result = New_command | Pending_command | Complete_command 'r

section \<open>Loading\<close>

definition apply_record :: "'r journal_record \<Rightarrow> (string \<times> 'r journal_entry) list \<Rightarrow> (string \<times> 'r journal_entry) list" where
  "apply_record r entries =
     (case r of
        Received_record key _ _ _ _ \<Rightarrow> map_put key \<lparr>je_received = r, je_response = None\<rparr> entries
      | Acknowledged_record key _ \<Rightarrow> map_delete key entries
      | Result_record key response _ \<Rightarrow> (case map_of entries key of
            Some entry \<Rightarrow> map_put key (entry\<lparr>je_response := Some response\<rparr>) entries
          | None \<Rightarrow> entries))"

definition load_line :: "(bytes \<Rightarrow> 'r journal_line option) \<Rightarrow> bytes \<Rightarrow> 'r command_journal \<Rightarrow> 'r command_journal" where
  "load_line parse line j =
     (if line = [] then j
      else (case parse line of
          None \<Rightarrow> j
        | Some Invalid_record \<Rightarrow> j\<lparr>cj_recordCount := cj_recordCount j + 1\<rparr>
        | Some (Valid_record r) \<Rightarrow> j\<lparr>cj_entries := apply_record r (cj_entries j), cj_recordCount := cj_recordCount j + 1\<rparr>))"

definition empty_journal :: "'r command_journal" where
  "empty_journal = \<lparr>cj_entries = [], cj_recordCount = 0\<rparr>"

text \<open>None: the constructor throws.\<close>

definition load_journal ::
  "(bytes \<Rightarrow> 'r journal_line option) \<Rightarrow> replace_io \<Rightarrow> bytes option \<Rightarrow> 'r command_journal option \<times> bytes option" where
  "load_journal parse io f =
     (case f of
        None \<Rightarrow> (Some empty_journal, None)
      | Some b \<Rightarrow>
          (let unterminated = \<not> terminated b;
               rawLines = (if unterminated then butlast (split_lines b) else split_lines b);
               (f1, ok) = (if unterminated then
                   write_atomic io (if length rawLines > 0 then join_lines (filter (\<lambda>l. l \<noteq> []) rawLines) @ [newline] else []) f
                 else (f, True))
           in if ok then (Some (fold (load_line parse) rawLines empty_journal), f1) else (None, f1)))"

section \<open>Commands\<close>

definition lookup_command :: "string \<Rightarrow> string \<Rightarrow> 'r command_journal \<Rightarrow> 'r begin_result option" where
  "lookup_command clientId commandId j =
     (case map_of (cj_entries j) (createCommandIdempotencyKey clientId commandId) of
        Some entry \<Rightarrow> (case je_response entry of Some response \<Rightarrow> Some (Complete_command response) | None \<Rightarrow> Some Pending_command)
      | None \<Rightarrow> None)"

definition append_record ::
  "('r journal_record \<Rightarrow> bytes) \<Rightarrow> append_io \<Rightarrow> 'r journal_record \<Rightarrow> 'r command_journal \<times> bytes option \<Rightarrow> ('r command_journal \<times> bytes option) \<times> bool" where
  "append_record stringify io r = (\<lambda>(j, f).
     let (f1, ok) = append_bytes io (stringify r @ [newline]) f
     in ((if ok then j\<lparr>cj_recordCount := cj_recordCount j + 1\<rparr> else j, f1), ok))"

text \<open>The result, or None when it throws.\<close>

definition begin_command ::
  "('r journal_record \<Rightarrow> bytes) \<Rightarrow> append_io \<Rightarrow> string \<Rightarrow> string \<Rightarrow> string \<Rightarrow> string \<Rightarrow> 'r command_journal \<times> bytes option
   \<Rightarrow> ('r command_journal \<times> bytes option) \<times> 'r begin_result option" where
  "begin_command stringify io now clientId commandId commandType = (\<lambda>(j, f).
     case lookup_command clientId commandId j of
       Some existing \<Rightarrow> ((j, f), Some existing)
     | None \<Rightarrow>
         (let key = createCommandIdempotencyKey clientId commandId;
              received = Received_record key clientId commandId commandType now;
              ((j1, f1), ok) = append_record stringify io received (j, f)
          in if ok then ((j1\<lparr>cj_entries := map_put key \<lparr>je_received = received, je_response = None\<rparr> (cj_entries j1)\<rparr>, f1), Some New_command)
             else ((j1, f1), None)))"

definition compact_records :: "string \<Rightarrow> (string \<times> 'r journal_entry) list \<Rightarrow> 'r journal_record list" where
  "compact_records now entries =
     concat (map (\<lambda>(key, entry). je_received entry # (case je_response entry of Some response \<Rightarrow> [Result_record key response now] | None \<Rightarrow> [])) entries)"

definition compact_journal ::
  "('r journal_record \<Rightarrow> bytes) \<Rightarrow> replace_io \<Rightarrow> string \<Rightarrow> 'r command_journal \<times> bytes option \<Rightarrow> ('r command_journal \<times> bytes option) \<times> bool" where
  "compact_journal stringify io now = (\<lambda>(j, f).
     let records = compact_records now (cj_entries j);
         (f1, ok) = write_atomic io (join_lines (map stringify records) @ [newline]) f
     in ((if ok then j\<lparr>cj_recordCount := length records\<rparr> else j, f1), ok))"

text \<open>The flag says that the call returned and did not throw.\<close>

definition record_result ::
  "('r journal_record \<Rightarrow> bytes) \<Rightarrow> append_io \<Rightarrow> replace_io \<Rightarrow> string \<Rightarrow> string \<Rightarrow> string \<Rightarrow> 'r \<Rightarrow> 'r command_journal \<times> bytes option
   \<Rightarrow> ('r command_journal \<times> bytes option) \<times> bool" where
  "record_result stringify io compact_io now clientId commandId response = (\<lambda>(j, f).
     let key = createCommandIdempotencyKey clientId commandId in
     case map_of (cj_entries j) key of
       None \<Rightarrow> ((j, f), False)
     | Some entry \<Rightarrow>
         (let ((j1, f1), ok) = append_record stringify io (Result_record key response now) (j, f) in
          if ok then
            (let j2 = j1\<lparr>cj_entries := map_put key (entry\<lparr>je_response := Some response\<rparr>) (cj_entries j1)\<rparr>
             in if cj_recordCount j2 \<ge> COMPACT_AFTER_RECORDS then compact_journal stringify compact_io now (j2, f1) else ((j2, f1), True))
          else ((j1, f1), False)))"

definition acknowledge ::
  "('r journal_record \<Rightarrow> bytes) \<Rightarrow> append_io \<Rightarrow> replace_io \<Rightarrow> string \<Rightarrow> string \<Rightarrow> string \<Rightarrow> 'r command_journal \<times> bytes option
   \<Rightarrow> ('r command_journal \<times> bytes option) \<times> bool" where
  "acknowledge stringify io compact_io now clientId commandId = (\<lambda>(j, f).
     let key = createCommandIdempotencyKey clientId commandId in
     case map_of (cj_entries j) key of
       None \<Rightarrow> ((j, f), True)
     | Some _ \<Rightarrow>
         (let ((j1, f1), ok) = append_record stringify io (Acknowledged_record key now) (j, f) in
          if ok then
            (let j2 = j1\<lparr>cj_entries := map_delete key (cj_entries j1)\<rparr>
             in if cj_entries j2 = [] \<or> cj_recordCount j2 \<ge> COMPACT_AFTER_RECORDS then compact_journal stringify compact_io now (j2, f1)
                else ((j2, f1), True))
          else ((j1, f1), False)))"

section \<open>Keys\<close>

lemma json_escape_shape: "\<exists>x xs. json_escape_char c = x # xs \<and> x \<noteq> CHR 34"
  by (auto simp: json_escape_char_def Let_def)

lemma hex_digits: "m < 32 \<Longrightarrow> n < 32 \<Longrightarrow> hex_digit (m div 16) = hex_digit (n div 16) \<Longrightarrow> hex_digit m = hex_digit n \<Longrightarrow> m = n"
proof -
  have d: "distinct ''0123456789abcdef''" by simp
  assume "m < 32" "n < 32" "hex_digit (m div 16) = hex_digit (n div 16)" "hex_digit m = hex_digit n"
  then have "m div 16 = n div 16" "m mod 16 = n mod 16"
    using nth_eq_iff_index_eq [OF d] by (auto simp: hex_digit_def)
  then show "m = n" by (metis div_mult_mod_eq)
qed

lemma char_codes:
  "(of_char c = (34 :: nat)) = (c = CHR 34)" "(of_char c = (92 :: nat)) = (c = CHR 92)" "(of_char c = (8 :: nat)) = (c = CHR 8)"
  "(of_char c = (12 :: nat)) = (c = CHR 12)" "(of_char c = (10 :: nat)) = (c = CHR 10)" "(of_char c = (13 :: nat)) = (c = CHR 13)"
  "(of_char c = (9 :: nat)) = (c = CHR 9)"
  using of_char_eq_iff [of c "CHR 34", where 'a = nat] of_char_eq_iff [of c "CHR 92", where 'a = nat] of_char_eq_iff [of c "CHR 8", where 'a = nat]
    of_char_eq_iff [of c "CHR 12", where 'a = nat] of_char_eq_iff [of c "CHR 10", where 'a = nat] of_char_eq_iff [of c "CHR 13", where 'a = nat]
    of_char_eq_iff [of c "CHR 9", where 'a = nat] by simp_all

lemma json_escape_prefix: "json_escape_char c @ s = json_escape_char d @ t \<Longrightarrow> c = d \<and> s = t"
proof -
  have "of_char c = (of_char d :: nat)" if "of_char c < (32 :: nat)" "of_char d < (32 :: nat)"
    "hex_digit (of_char c div 16) = hex_digit (of_char d div 16)" "hex_digit (of_char c) = hex_digit (of_char d)"
    using hex_digits that by blast
  then show "json_escape_char c @ s = json_escape_char d @ t \<Longrightarrow> c = d \<and> s = t"
    by (auto simp: json_escape_char_def Let_def char_codes split: if_splits)
qed

lemma json_quote_prefix:
  "concat (map json_escape_char s) @ CHR 34 # t = concat (map json_escape_char s1) @ CHR 34 # t1 \<Longrightarrow> s = s1 \<and> t = t1"
proof (induction s arbitrary: s1)
  case Nil
  show ?case
  proof (cases s1)
    case (Cons c cs)
    then show ?thesis using Nil json_escape_shape [of c] by auto
  qed (use Nil in simp)
next
  case (Cons c cs)
  show ?case
  proof (cases s1)
    case Nil
    then show ?thesis using Cons.prems json_escape_shape [of c] by auto
  next
    case s1: (Cons d ds)
    then have "c = d \<and> concat (map json_escape_char cs) @ CHR 34 # t = concat (map json_escape_char ds) @ CHR 34 # t1"
      using Cons.prems by (intro json_escape_prefix) simp
    then show ?thesis using Cons.IH s1 by auto
  qed
qed

text \<open>Two commands never share a key.\<close>

lemma idempotency_key_inj:
  "createCommandIdempotencyKey c d = createCommandIdempotencyKey c1 d1 \<longleftrightarrow> c = c1 \<and> d = d1"
proof
  assume "createCommandIdempotencyKey c d = createCommandIdempotencyKey c1 d1"
  then have "concat (map json_escape_char c) @ CHR 34 # CHR '','' # CHR 34 # concat (map json_escape_char d) @ CHR 34 # '']''
      = concat (map json_escape_char c1) @ CHR 34 # CHR '','' # CHR 34 # concat (map json_escape_char d1) @ CHR 34 # '']''"
    by (simp add: createCommandIdempotencyKey_def json_quote_def)
  from json_quote_prefix [OF this] show "c = c1 \<and> d = d1" using json_quote_prefix [of d "'']''" d1 "'']''"] by simp
qed simp

section \<open>The file and the entries it holds\<close>







section \<open>Compaction keeps the entries\<close>











section \<open>A supervisor that stops and starts again\<close>

text \<open>
  The journal in memory (None: no process runs), its file, what clients were promised (for every
  key that was admitted as new and not acknowledged since, the responses recorded for it and
  whether recording one succeeded), and whether a process went on to write a record behind the
  rest of one that a failed write had left in the file.
\<close>

record 'r journal_world =
  jw_journal :: "'r command_journal option"
  jw_file :: "bytes option"
  jw_admitted :: "string \<Rightarrow> ('r list \<times> bool) option"
  jw_behind_torn :: bool


text \<open>A response is recorded for a key; the flag says that the call returned.\<close>

definition admit_response :: "(string \<Rightarrow> ('r list \<times> bool) option) \<Rightarrow> string \<Rightarrow> 'r \<Rightarrow> bool \<Rightarrow> string \<Rightarrow> ('r list \<times> bool) option" where
  "admit_response adm k response ok = (case adm k of Some (rs, settled) \<Rightarrow> adm(k \<mapsto> (response # rs, settled \<or> ok)) | None \<Rightarrow> adm)"

text \<open>
  A process may start (reading the file), stop at any time, and call the three operations, each of
  which may fail in any way; after a failure it may stop or go on. The operations write a record
  exactly when the command is not known yet (begin) or is known (the other two).
\<close>

definition after_operation ::
  "'r journal_world \<Rightarrow> bool \<Rightarrow> 'r command_journal \<times> bytes option \<Rightarrow> 'r journal_world" where
  "after_operation w writes s = w\<lparr>jw_journal := Some (fst s), jw_file := snd s,
     jw_behind_torn := (jw_behind_torn w \<or> writes \<and> \<not> terminated (contents (jw_file w)))\<rparr>"

inductive journal_step :: "('r journal_record \<Rightarrow> bytes) \<Rightarrow> (bytes \<Rightarrow> 'r journal_line option) \<Rightarrow> 'r journal_world \<Rightarrow> 'r journal_world \<Rightarrow> bool"
  for stringify :: "'r journal_record \<Rightarrow> bytes" and parse :: "bytes \<Rightarrow> 'r journal_line option" where
  step_start: "jw_journal w = None \<Longrightarrow> load_journal parse io (jw_file w) = (j, f) \<Longrightarrow>
    journal_step stringify parse w (w\<lparr>jw_journal := j, jw_file := f\<rparr>)"
| step_stop: "journal_step stringify parse w (w\<lparr>jw_journal := None\<rparr>)"
| step_begin: "jw_journal w = Some j \<Longrightarrow> begin_command stringify io now c d t (j, jw_file w) = (s, res) \<Longrightarrow>
    journal_step stringify parse w ((after_operation w (lookup_command c d j = None) s)
      \<lparr>jw_admitted := (if res = Some New_command then (jw_admitted w)(createCommandIdempotencyKey c d \<mapsto> ([], False)) else jw_admitted w)\<rparr>)"
| step_result: "jw_journal w = Some j \<Longrightarrow> record_result stringify io io1 now c d response (j, jw_file w) = (s, ok) \<Longrightarrow>
    journal_step stringify parse w ((after_operation w (lookup_command c d j \<noteq> None) s)
      \<lparr>jw_admitted := admit_response (jw_admitted w) (createCommandIdempotencyKey c d) response ok\<rparr>)"
| step_acknowledge: "jw_journal w = Some j \<Longrightarrow> acknowledge stringify io io1 now c d (j, jw_file w) = (s, ok) \<Longrightarrow>
    journal_step stringify parse w ((after_operation w (lookup_command c d j \<noteq> None) s)
      \<lparr>jw_admitted := (jw_admitted w)(createCommandIdempotencyKey c d := None)\<rparr>)"























section \<open>Examples\<close>

fun put_record :: "string journal_record \<Rightarrow> bytes" where
  "put_record (Received_record k c d t a) = 1 # put_fields [k, c, d, t, a]"
| "put_record (Result_record k r a) = 2 # put_fields [k, r, a]"
| "put_record (Acknowledged_record k a) = 3 # put_fields [k, a]"

definition read_record :: "bytes \<Rightarrow> string journal_record option" where
  "read_record b =
     (case b of [] \<Rightarrow> None
      | n # ns \<Rightarrow> (case get_fields ns of
          [k, c, d, t, a] \<Rightarrow> Some (Received_record k c d t a)
        | [k, r, a] \<Rightarrow> Some (Result_record k r a)
        | [k, a] \<Rightarrow> Some (Acknowledged_record k a)
        | _ \<Rightarrow> None))"

definition get_record :: "bytes \<Rightarrow> string journal_line option" where
  "get_record b = (case read_record b of Some r \<Rightarrow> if put_record r = b then Some (Valid_record r) else None | None \<Rightarrow> None)"


definition admit_command :: "append_io \<Rightarrow> string \<Rightarrow> string command_journal \<times> bytes option \<Rightarrow> (string command_journal \<times> bytes option) \<times> string begin_result option" where
  "admit_command io commandId = begin_command put_record io ''t'' ''c'' commandId ''prompt''"



text \<open>
  When a write stops in the middle of a line and the process goes on, the next record is appended to
  the rest of that line. Both are one line that cannot be read, so a command that was admitted, and
  whose record was written, is admitted again after a restart.
\<close>

lemma torn_line_readmits_command:
  "\<exists>f1 j2 f2 j3. admit_command (Cut_off 3) ''1'' (empty_journal, None) = ((empty_journal, f1), None)
    \<and> admit_command Appended ''2'' (empty_journal, f1) = ((j2, f2), Some New_command)
    \<and> load_journal get_record Replaced f2 = (Some j3, f2)
    \<and> snd (admit_command Appended ''2'' (j3, f2)) = Some New_command"
proof -
  let ?r = "\<lambda>i. put_record (Received_record (createCommandIdempotencyKey ''c'' i) ''c'' i ''prompt'' ''t'')"
  let ?line = "take 3 (?r ''1'') @ ?r ''2''"
  obtain j2 where two: "admit_command Appended ''2'' (empty_journal, Some (take 3 (?r ''1''))) = ((j2, Some (?line @ [newline])), Some New_command)"
    by (auto simp: admit_command_def begin_command_def lookup_command_def append_record_def append_bytes_def contents_def empty_journal_def Let_def simp del: put_record.simps)
  have one: "admit_command (Cut_off 3) ''1'' (empty_journal, None) = ((empty_journal, Some (take 3 (?r ''1''))), None)"
    by (simp add: admit_command_def begin_command_def lookup_command_def append_record_def append_bytes_def contents_def empty_journal_def Let_def
        put_fields_def createCommandIdempotencyKey_def json_quote_def)
  have "newline \<notin> set ?line"
    using in_set_takeD [of newline 3 "?r ''1''"] by (auto simp: newline_put_fields, auto simp: newline_def)
  then have lines: "split_lines (?line @ [newline]) = [?line, []]"
    using split_lines_at [of ?line "[]"] split_lines_one [of ?line] by simp
  have "get_record ?line = None"
    by (simp add: get_record_def read_record_def put_fields_def createCommandIdempotencyKey_def json_quote_def json_escape_char_def)
  then have load: "load_journal get_record Replaced (Some (?line @ [newline])) = (Some empty_journal, Some (?line @ [newline]))"
    by (simp add: load_journal_def terminated_def lines load_line_def del: append_assoc put_record.simps)
  have "snd (admit_command Appended ''2'' (empty_journal, Some (?line @ [newline]))) = Some New_command"
    by (simp add: admit_command_def begin_command_def lookup_command_def append_record_def append_bytes_def empty_journal_def Let_def)
  then show ?thesis using one two load by blast
qed

end
