(* ===== verification/Worker_Journal.thy ===== *)
theory Worker_Journal
  imports Journal_Files "HOL-Library.List_Lexorder" "HOL-Library.Char_ord"
begin

text \<open>
  The journal of a session worker, \<open>coding-agent/src/modes/daemon/recovery-journal-file.ts\<close> and
  \<open>worker-recovery-journal.ts\<close>: reading with repair, recording with compaction, and the preservation of
  the operations a worker was interrupted in. A recorded state is shown to survive every failure.
\<close>

section \<open>The file\<close>

text \<open>The repair truncates the file and synchronises it; it may throw before or after that.\<close>

datatype repair_io = Repaired | Not_repaired | Repaired_unsynced

definition complete_part :: "bytes \<Rightarrow> bytes" where
  "complete_part b = rev (dropWhile (\<lambda>c. c \<noteq> newline) (rev b))"

text \<open>The file and the text, or None when it throws.\<close>

definition readAndRepairRecoveryJournal :: "repair_io \<Rightarrow> bytes option \<Rightarrow> bytes option \<times> bytes option" where
  "readAndRepairRecoveryJournal io f =
     (case f of
        None \<Rightarrow> (None, Some [])
      | Some b \<Rightarrow>
          if terminated b then (f, Some b)
          else (case io of
              Repaired \<Rightarrow> (Some (complete_part b), Some (complete_part b))
            | Not_repaired \<Rightarrow> (f, None)
            | Repaired_unsynced \<Rightarrow> (Some (complete_part b), None)))"

definition appendRecoveryJournalLine :: "append_io \<Rightarrow> bytes \<Rightarrow> bytes option \<Rightarrow> bytes option \<times> bool" where
  "appendRecoveryJournalLine io line f = append_bytes io (line @ [newline]) f"

definition replaceRecoveryJournal :: "replace_io \<Rightarrow> bytes list \<Rightarrow> bytes option \<Rightarrow> bytes option \<times> bool" where
  "replaceRecoveryJournal io ls f =
     (case io of Replaced \<Rightarrow> (Some (join_lines ls @ [newline]), True) | Not_replaced \<Rightarrow> (f, False)
      | Replaced_unsynced \<Rightarrow> (Some (join_lines ls @ [newline]), False))"

text \<open>What the system did to one use of the journal: whether the lock was taken, and each step.\<close>

record journal_io =
  io_locked :: bool
  io_repair :: repair_io
  io_append :: append_io
  io_replace :: replace_io

definition append_locked :: "journal_io \<Rightarrow> bytes \<Rightarrow> bytes option \<Rightarrow> bytes option \<times> bool" where
  "append_locked io line f =
     (if io_locked io then
        (case readAndRepairRecoveryJournal (io_repair io) f of
           (f1, Some _) \<Rightarrow> appendRecoveryJournalLine (io_append io) line f1
         | (f1, None) \<Rightarrow> (f1, False))
      else (f, False))"

definition replace_locked :: "journal_io \<Rightarrow> bytes list \<Rightarrow> bytes option \<Rightarrow> bytes option \<times> bool" where
  "replace_locked io ls f =
     (if io_locked io then
        (case readAndRepairRecoveryJournal (io_repair io) f of
           (f1, Some _) \<Rightarrow> replaceRecoveryJournal (io_replace io) ls f1
         | (f1, None) \<Rightarrow> (f1, False))
      else (f, False))"

section \<open>The journal\<close>

record worker_record =
  wr_activeSessionId :: string
  wr_sessionId :: string
  wr_sessionFile :: "string option"
  wr_busy :: bool
  wr_operation :: string
  wr_recordedAt :: string

type_synonym worker_map = "(string \<times> worker_record) list"

definition read_line :: "(bytes \<Rightarrow> worker_record option) \<Rightarrow> bytes \<Rightarrow> worker_map \<Rightarrow> worker_map" where
  "read_line parse line latest =
     (if line = [] then latest else (case parse line of Some r \<Rightarrow> map_put (wr_activeSessionId r) r latest | None \<Rightarrow> latest))"

definition parseRecords :: "(bytes \<Rightarrow> worker_record option) \<Rightarrow> journal_io \<Rightarrow> bytes option \<Rightarrow> worker_map option \<times> bytes option" where
  "parseRecords parse io f =
     (if io_locked io then
        (case readAndRepairRecoveryJournal (io_repair io) f of
           (f1, Some text) \<Rightarrow> (Some (fold (read_line parse) (split_lines text) []), f1)
         | (f1, None) \<Rightarrow> (None, f1))
      else (None, f))"

definition same_state :: "worker_record \<Rightarrow> worker_record \<Rightarrow> bool" where
  "same_state p r = (wr_busy p = wr_busy r \<and> wr_operation p = wr_operation r \<and> wr_sessionFile p = wr_sessionFile r)"

definition compact_worker :: "(worker_record \<Rightarrow> bytes) \<Rightarrow> journal_io \<Rightarrow> worker_map \<Rightarrow> bytes option \<Rightarrow> bytes option \<times> bool" where
  "compact_worker stringify io latest f = replace_locked io (map (\<lambda>(k, r). stringify r) latest) f"

text \<open>\<open>r\<close> is the input with the time; the flag says that the call returned.\<close>

definition record_worker ::
  "(worker_record \<Rightarrow> bytes) \<Rightarrow> journal_io \<Rightarrow> journal_io \<Rightarrow> worker_record \<Rightarrow> worker_map \<times> bytes option \<Rightarrow> (worker_map \<times> bytes option) \<times> bool" where
  "record_worker stringify io compact_io r = (\<lambda>(latest, f).
     if (case map_of latest (wr_activeSessionId r) of Some p \<Rightarrow> same_state p r | None \<Rightarrow> False) then ((latest, f), True)
     else
       (let (f1, ok) = append_locked io (stringify r) f in
        if ok then
          (let latest1 = map_put (wr_activeSessionId r) r latest in
           if list_all (\<lambda>(k, entry). \<not> wr_busy entry) latest1 then
             (let (f2, ok2) = compact_worker stringify compact_io latest1 f1 in ((latest1, f2), ok2))
           else ((latest1, f1), True))
        else ((latest, f1), False)))"

definition getLatest :: "worker_map \<Rightarrow> worker_record list" where
  "getLatest latest = map snd latest"

definition readLatest :: "(bytes \<Rightarrow> worker_record option) \<Rightarrow> journal_io \<Rightarrow> bytes option \<Rightarrow> worker_record list option \<times> bytes option" where
  "readLatest parse io f = (case parseRecords parse io f of (m, f1) \<Rightarrow> (map_option getLatest m, f1))"

section \<open>Operations that were interrupted\<close>

record interrupted_session =
  is_activeSessionId :: string
  is_sessionFile :: string
  is_operations :: "string list"
  is_recoveryIds :: "string list"

definition add_once :: "'a \<Rightarrow> 'a list \<Rightarrow> 'a list" where
  "add_once x xs = (if List.member xs x then xs else xs @ [x])"

text \<open>An empty file name counts as none.\<close>

definition file_of_record :: "string \<Rightarrow> string option \<Rightarrow> worker_record \<Rightarrow> string option" where
  "file_of_record rootActiveSessionId rootSessionFile r =
     (case wr_sessionFile r of Some file \<Rightarrow> (if file = [] then None else Some file)
      | None \<Rightarrow> if wr_activeSessionId r = rootActiveSessionId then (case rootSessionFile of Some [] \<Rightarrow> None | x \<Rightarrow> x) else None)"

definition add_interrupted :: "string \<Rightarrow> string option \<Rightarrow> worker_record \<Rightarrow> (string \<times> interrupted_session) list \<Rightarrow> (string \<times> interrupted_session) list" where
  "add_interrupted rootId rootFile r m =
     (case file_of_record rootId rootFile r of
        None \<Rightarrow> m
      | Some sessionFile \<Rightarrow>
          (let key = wr_activeSessionId r @ [CHR 0x00] @ sessionFile;
               old = (case map_of m key of Some i \<Rightarrow> i
                 | None \<Rightarrow> \<lparr>is_activeSessionId = wr_activeSessionId r, is_sessionFile = sessionFile, is_operations = [], is_recoveryIds = []\<rparr>)
           in map_put key (old\<lparr>is_operations := add_once (wr_operation r) (is_operations old),
                is_recoveryIds := add_once (wr_activeSessionId r @ '':'' @ wr_recordedAt r) (is_recoveryIds old)\<rparr>) m))"

text \<open>The calls of \<open>markInterrupted\<close>: file, session, operations and recovery id.\<close>

definition mark_call :: "interrupted_session \<Rightarrow> string \<times> string \<times> string list \<times> string" where
  "mark_call i = (is_sessionFile i, is_activeSessionId i, is_operations i, join_with ''|'' (sort (is_recoveryIds i)))"

definition hold_record :: "string \<Rightarrow> worker_record \<Rightarrow> worker_record" where
  "hold_record now r = \<lparr>wr_activeSessionId = wr_activeSessionId r, wr_sessionId = wr_sessionId r,
     wr_sessionFile = (case wr_sessionFile r of Some [] \<Rightarrow> None | x \<Rightarrow> x), wr_busy = False, wr_operation = ''recovery_hold'', wr_recordedAt = now\<rparr>"

text \<open>Each call may meet other failures; the first that throws ends the loop.\<close>

fun hold_all ::
  "(worker_record \<Rightarrow> bytes) \<Rightarrow> (nat \<Rightarrow> journal_io \<times> journal_io \<times> string) \<Rightarrow> nat \<Rightarrow> worker_record list \<Rightarrow> worker_map \<times> bytes option
   \<Rightarrow> (worker_map \<times> bytes option) \<times> bool" where
  "hold_all stringify ios n [] s = (s, True)"
| "hold_all stringify ios n (r # rs) s =
     (case ios n of (io, compact_io, now) \<Rightarrow>
        (case record_worker stringify io compact_io (hold_record now r) s of
           (s1, ok) \<Rightarrow> if ok then hold_all stringify ios (Suc n) rs s1 else (s1, False)))"

text \<open>
  \<open>marked\<close>: all promises of \<open>markInterrupted\<close> were fulfilled; \<open>updatable\<close>: \<open>beforeJournalUpdate\<close>
  returned. The state, the calls and the operations that are returned, None when it throws.
\<close>

definition preserveUncertainWorkerOperations ::
  "(worker_record \<Rightarrow> bytes) \<Rightarrow> (nat \<Rightarrow> journal_io \<times> journal_io \<times> string) \<Rightarrow> bool \<Rightarrow> bool \<Rightarrow> string \<Rightarrow> string option \<Rightarrow> worker_record list
   \<Rightarrow> worker_map \<times> bytes option \<Rightarrow> (worker_map \<times> bytes option) \<times> (string \<times> string \<times> string list \<times> string) list \<times> string list option" where
  "preserveUncertainWorkerOperations stringify ios marked updatable rootId rootFile latest s =
     (let uncertain = filter wr_busy latest in
      if uncertain = [] then (s, [], Some [])
      else
        (let calls = map (\<lambda>(k, i). mark_call i) (fold (add_interrupted rootId rootFile) uncertain [])
         in if marked \<and> updatable then
              (case hold_all stringify ios 0 latest s of (s1, ok) \<Rightarrow> (s1, calls, if ok then Some (map wr_operation uncertain) else None))
            else (s, calls, None)))"

section \<open>What the file holds\<close>

definition worker_disk :: "(bytes \<Rightarrow> worker_record option) \<Rightarrow> bytes option \<Rightarrow> worker_map" where
  "worker_disk parse f = fold (read_line parse) (complete_lines (contents f)) []"

definition worker_wf :: "worker_map \<Rightarrow> bool" where
  "worker_wf m = (distinct (map fst m) \<and> (\<forall>(k, r)\<in>set m. wr_activeSessionId r = k))"

lemma worker_wf_put: "worker_wf m \<Longrightarrow> worker_wf (map_put (wr_activeSessionId r) r m)"
  using set_put [of "wr_activeSessionId r" r m] by (auto simp: worker_wf_def distinct_put)

lemma worker_wf_read: "worker_wf m \<Longrightarrow> worker_wf (fold (read_line parse) ls m)"
  by (induction ls arbitrary: m) (simp_all add: read_line_def worker_wf_put split: option.splits)

lemma worker_wf_disk: "worker_wf (worker_disk parse f)"
  unfolding worker_disk_def by (rule worker_wf_read) (simp add: worker_wf_def)

lemma complete_part:
  assumes "\<not> terminated b"
  shows "terminated (complete_part b)" "complete_lines (complete_part b) = complete_lines b"
proof -
  have "terminated (complete_part b) \<and> complete_lines (complete_part b) = complete_lines b"
  proof (cases "newline \<in> set b")
    case True
    then obtain u v where b: "b = u @ newline # v" "newline \<notin> set v" by (meson split_list_last)
    then have "complete_part b = u @ [newline]" by (simp add: complete_part_def dropWhile_append)
    moreover have "complete_lines ((u @ [newline]) @ v) = complete_lines (u @ [newline])"
      by (rule complete_lines_append(2)) (use b in \<open>simp_all add: terminated_def\<close>)
    ultimately show ?thesis by (simp add: b(1) terminated_def)
  next
    case False
    then have d: "dropWhile (\<lambda>c. c \<noteq> newline) (rev b) = []" unfolding dropWhile_eq_Nil_conv by (metis set_rev)
    have "complete_lines ([] @ b) = complete_lines []" using False by (intro complete_lines_append(2)) (simp_all add: terminated_def)
    then show ?thesis unfolding complete_part_def d by (simp add: terminated_def)
  qed
  then show "terminated (complete_part b)" "complete_lines (complete_part b) = complete_lines b" by auto
qed

lemma repair_keeps:
  assumes "readAndRepairRecoveryJournal io f = (f1, tx)"
  shows "worker_disk parse f1 = worker_disk parse f" "tx = Some t \<Longrightarrow> t = contents f1 \<and> terminated t"
  using assms complete_part
  by (auto simp: readAndRepairRecoveryJournal_def worker_disk_def contents_def terminated_def split: option.splits if_splits repair_io.splits)

lemma parseRecords_disk:
  assumes "parseRecords parse io f = (Some latest, f1)"
  shows "latest = worker_disk parse f" "worker_disk parse f1 = worker_disk parse f"
proof -
  obtain tx where r: "readAndRepairRecoveryJournal (io_repair io) f = (f1, Some tx)" "latest = fold (read_line parse) (split_lines tx) []"
    using assms by (auto simp: parseRecords_def split: if_splits option.splits prod.splits)
  note k = repair_keeps [OF r(1)]
  show "worker_disk parse f1 = worker_disk parse f" by (rule k(1))
  have "tx = contents f1" "terminated tx" using k(2) by blast+
  then show "latest = worker_disk parse f"
    unfolding k(1) [symmetric] by (simp add: r(2) split_lines_terminated worker_disk_def read_line_def)
qed

lemma append_locked_disk:
  assumes "line_codec stringify parse id" "append_locked io (stringify r) f = (f1, ok)"
  shows "worker_disk parse f1 = map_put (wr_activeSessionId r) r (worker_disk parse f) \<or> worker_disk parse f1 = worker_disk parse f \<and> \<not> ok"
proof (cases "io_locked io")
  case True
  obtain f2 tx where rr: "readAndRepairRecoveryJournal (io_repair io) f = (f2, tx)" by fastforce
  note k = repair_keeps [OF rr]
  show ?thesis
  proof (cases tx)
    case None
    then show ?thesis using assms(2) True rr k(1) by (simp add: append_locked_def)
  next
    case (Some t)
    then have t: "terminated (contents f2)" using k(2) by blast
    have n: "newline \<notin> set (stringify r)" and l: "read_line parse (stringify r) m = map_put (wr_activeSessionId r) r m" for m
      using assms(1) by (auto simp: line_codec_def read_line_def)
    have disk: "worker_disk parse (Some c) = fold (read_line parse) (complete_lines c) []" for c by (simp add: worker_disk_def contents_def)
    have old: "worker_disk parse f = fold (read_line parse) (complete_lines (contents f2)) []" unfolding k(1) [symmetric] by (simp add: worker_disk_def)
    have a: "append_bytes (io_append io) (stringify r @ [newline]) f2 = (f1, ok)"
      using assms(2) True rr Some by (simp add: append_locked_def appendRecoveryJournalLine_def)
    show ?thesis
    proof (cases "io_append io")
      case Appended
      then show ?thesis using a l unfolding old by (auto simp: append_bytes_def disk complete_lines_append(1) [OF t n])
    next
      case Not_opened
      then show ?thesis using a k(1) by (simp add: append_bytes_def)
    next
      case (Cut_off j)
      then have "f1 = Some (contents f2 @ take j (stringify r @ [newline]))" "\<not> ok" using a by (auto simp: append_bytes_def)
      then show ?thesis using l unfolding old by (simp add: disk complete_lines_take [OF t n] del: take_append)
    qed
  qed
qed (use assms(2) in \<open>simp add: append_locked_def\<close>)

lemma fold_read_nonempty: "fold (read_line parse) (filter (\<lambda>l. l \<noteq> []) ls) j = fold (read_line parse) ls j"
  by (induction ls arbitrary: j) (simp_all add: read_line_def)

lemma fold_read_worker:
  "line_codec stringify parse id \<Longrightarrow> worker_wf m \<Longrightarrow> fst ` set m \<inter> fst ` set before = {} \<Longrightarrow>
    fold (read_line parse) (map (\<lambda>(k, r). stringify r) m) before = before @ m"
proof (induction m arbitrary: before)
  case (Cons x m)
  obtain k r where x: "x = (k, r)" by fastforce
  have r: "read_line parse (stringify r) before = before @ [x]"
    using Cons.prems by (auto simp: x read_line_def line_codec_def worker_wf_def map_put_new)
  show ?case using Cons.IH [of "before @ [x]"] Cons.prems r by (auto simp: x worker_wf_def)
qed simp

lemma compact_worker_disk:
  assumes "line_codec stringify parse id" "worker_wf latest" "compact_worker stringify io latest f = (f1, ok)"
  shows "worker_disk parse f1 = latest \<or> worker_disk parse f1 = worker_disk parse f \<and> \<not> ok"
proof -
  let ?ls = "map (\<lambda>(k, r). stringify r) latest"
  have ls: "list_all (\<lambda>l. newline \<notin> set l) ?ls" using assms(1) by (auto simp: line_codec_def list_all_iff)
  have new: "worker_disk parse (Some (join_lines ?ls @ [newline])) = latest"
    using fold_read_worker [OF assms(1,2), of "[]"] complete_lines_join [OF ls] fold_read_nonempty
    by (metis (no_types) worker_disk_def contents_def append_Nil image_empty inf_bot_right list.set(1) option.simps(5))
  obtain f2 tx where rr: "readAndRepairRecoveryJournal (io_repair io) f = (f2, tx)" by fastforce
  note k = repair_keeps(1) [OF rr, of parse]
  show ?thesis
    using assms(3) rr k new
    by (auto simp: compact_worker_def replace_locked_def replaceRecoveryJournal_def split: if_splits option.splits replace_io.splits)
qed

section \<open>A recorded state survives\<close>

text \<open>
  What recording a state does to the journal in memory and on disk; \<open>skipped\<close> says that the state is
  the one that was recorded last.
\<close>

definition skipped :: "worker_map \<Rightarrow> worker_record \<Rightarrow> bool" where
  "skipped latest r = (case map_of latest (wr_activeSessionId r) of Some p \<Rightarrow> same_state p r | None \<Rightarrow> False)"

lemma record_worker_effect:
  assumes codec: "line_codec stringify parse id" and wf: "worker_wf latest" and r: "record_worker stringify io io1 r (latest, f) = ((latest1, f1), ok)"
  shows "worker_wf latest1
    \<and> (skipped latest r \<and> latest1 = latest \<and> f1 = f \<and> ok
     \<or> \<not> skipped latest r \<and> latest1 = map_put (wr_activeSessionId r) r latest \<and> (worker_disk parse f1 = map_put (wr_activeSessionId r) r (worker_disk parse f) \<or> worker_disk parse f1 = latest1)
     \<or> \<not> skipped latest r \<and> latest1 = latest \<and> \<not> ok \<and> (worker_disk parse f1 = map_put (wr_activeSessionId r) r (worker_disk parse f) \<or> worker_disk parse f1 = worker_disk parse f))"
proof (cases "skipped latest r")
  case True
  then show ?thesis using r wf by (simp add: record_worker_def skipped_def)
next
  case False
  let ?l = "map_put (wr_activeSessionId r) r latest"
  obtain f2 ok2 where a: "append_locked io (stringify r) f = (f2, ok2)" by fastforce
  note d = append_locked_disk [OF codec a]
  obtain f3 ok3 where c: "compact_worker stringify io1 ?l f2 = (f3, ok3)" by fastforce
  note cd = compact_worker_disk [OF codec worker_wf_put [OF wf] c]
  have e: "((latest1, f1), ok) = (if ok2 then (if list_all (\<lambda>(k, entry). \<not> wr_busy entry) ?l then ((?l, f3), ok3) else ((?l, f2), True)) else ((latest, f2), False))"
    using r [symmetric] False a c by (simp add: record_worker_def skipped_def Let_def)
  show ?thesis
  proof (cases ok2)
    case False
    then show ?thesis using e d wf \<open>\<not> skipped latest r\<close> by auto
  next
    case True
    then have "worker_disk parse f2 = map_put (wr_activeSessionId r) r (worker_disk parse f)" "latest1 = ?l" "f1 = f2 \<or> f1 = f3"
      using e d by (auto split: if_splits)
    then show ?thesis using cd worker_wf_put [OF wf] False by auto
  qed
qed

text \<open>Steps of the processes that use one journal, one after the other, with the session they concern.\<close>

type_synonym worker_world = "worker_map option \<times> bytes option"

inductive worker_step :: "(worker_record \<Rightarrow> bytes) \<Rightarrow> (bytes \<Rightarrow> worker_record option) \<Rightarrow> string option \<Rightarrow> worker_world \<Rightarrow> worker_world \<Rightarrow> bool"
  for stringify :: "worker_record \<Rightarrow> bytes" and parse :: "bytes \<Rightarrow> worker_record option" where
  worker_start: "parseRecords parse io f = (m, f1) \<Longrightarrow> worker_step stringify parse None (None, f) (m, f1)"
| worker_stop: "worker_step stringify parse None (m, f) (None, f)"
| worker_recorded: "record_worker stringify io io1 r (latest, f) = ((latest1, f1), ok) \<Longrightarrow>
    worker_step stringify parse (Some (wr_activeSessionId r)) (Some latest, f) (Some latest1, f1)"

definition holds_record :: "(bytes \<Rightarrow> worker_record option) \<Rightarrow> worker_record \<Rightarrow> worker_world \<Rightarrow> bool" where
  "holds_record parse r w =
     (map_of (worker_disk parse (snd w)) (wr_activeSessionId r) = Some r
      \<and> (\<forall>latest. fst w = Some latest \<longrightarrow> worker_wf latest \<and> map_of latest (wr_activeSessionId r) = Some r))"

lemma parseRecords_failed:
  assumes "parseRecords parse io f = (None, f1)"
  shows "worker_disk parse f1 = worker_disk parse f"
proof (cases "io_locked io")
  case True
  obtain f2 tx where rr: "readAndRepairRecoveryJournal (io_repair io) f = (f2, tx)" by fastforce
  then have "f1 = f2" using assms True by (auto simp: parseRecords_def split: option.splits)
  then show ?thesis using repair_keeps(1) [OF rr] by simp
qed (use assms in \<open>simp add: parseRecords_def\<close>)

lemma holds_record_step:
  assumes "line_codec stringify parse id" "worker_step stringify parse about w w1" "about \<noteq> Some (wr_activeSessionId r)" "holds_record parse r w"
  shows "holds_record parse r w1"
  using assms(2)
proof cases
  case (worker_start io f m f1)
  then show ?thesis
    using assms(4) parseRecords_disk [of parse io f _ f1] parseRecords_failed [of parse io f f1] worker_wf_disk [of parse f]
    by (cases m) (auto simp: holds_record_def)
next
  case (worker_stop m f)
  then show ?thesis using assms(4) by (simp add: holds_record_def)
next
  case (worker_recorded io io1 q latest f latest1 f1 ok)
  have "wr_activeSessionId q \<noteq> wr_activeSessionId r" using worker_recorded(1) assms(3) by simp
  moreover have "worker_wf latest" "map_of latest (wr_activeSessionId r) = Some r" using worker_recorded(2) assms(4) by (auto simp: holds_record_def)
  ultimately show ?thesis
    using record_worker_effect [OF assms(1) _ worker_recorded(4)] assms(4) worker_recorded(2,3) by (auto simp: holds_record_def)
qed

lemma worker_wf_step:
  assumes "line_codec stringify parse id" "worker_step stringify parse about w w1" "\<forall>latest. fst w = Some latest \<longrightarrow> worker_wf latest"
  shows "\<forall>latest. fst w1 = Some latest \<longrightarrow> worker_wf latest"
  using assms(2)
proof cases
  case (worker_start io f m f1)
  then show ?thesis using parseRecords_disk(1) [of parse io f _ f1] worker_wf_disk [of parse f] by auto
next
  case (worker_recorded io io1 q latest f latest1 f1 ok)
  then show ?thesis using record_worker_effect [OF assms(1) _ worker_recorded(4)] assms(3) by auto
qed simp

lemma worker_wf_reach:
  assumes "line_codec stringify parse id" "reach (\<lambda>w. fst w = None) (\<lambda>v w. \<exists>about. worker_step stringify parse about v w) w"
  shows "\<forall>latest. fst w = Some latest \<longrightarrow> worker_wf latest"
  using assms(2)
proof induction
  case (reach_step v w)
  then obtain about where "worker_step stringify parse about v w" by blast
  from worker_wf_step [OF assms(1) this reach_step(3)] show ?case .
qed simp

text \<open>
  C21: a state that was recorded is not lost. Once recording the state of a session returned, every
  later reading of the journal finds that state, until something is recorded for the session again:
  whatever the processes do in between for other sessions, whichever writes, repairs and
  replacements fail or stop in the middle of a line, and however often processes end and start.
\<close>
theorem worker_record_survives:
  assumes "line_codec stringify parse id" "reach (\<lambda>w. fst w = None) (\<lambda>v w. \<exists>about. worker_step stringify parse about v w) (Some latest, f)"
    "record_worker stringify io io1 r (latest, f) = ((latest1, f1), True)" "\<not> skipped latest r"
    "(\<lambda>v w. \<exists>about. about \<noteq> Some (wr_activeSessionId r) \<and> worker_step stringify parse about v w)\<^sup>*\<^sup>* (Some latest1, f1) (m, f2)"
    "parseRecords parse io2 f2 = (Some latest2, f3)"
  shows "map_of latest2 (wr_activeSessionId r) = Some r"
proof -
  have "worker_wf latest" using worker_wf_reach [OF assms(1,2)] by simp
  then have start: "holds_record parse r (Some latest1, f1)"
    using record_worker_effect [OF assms(1) _ assms(3)] assms(4) by (auto simp: holds_record_def)
  have "holds_record parse r (m, f2)"
    using assms(5) by induction (use start holds_record_step [OF assms(1)] in blast)+
  then show ?thesis using parseRecords_disk(1) [OF assms(6)] by (simp add: holds_record_def)
qed

section \<open>Preserving what was interrupted\<close>

definition agrees :: "(bytes \<Rightarrow> worker_record option) \<Rightarrow> worker_map \<times> bytes option \<Rightarrow> bool" where
  "agrees parse s = (worker_wf (fst s) \<and> map_of (worker_disk parse (snd s)) = map_of (fst s))"

definition held :: "worker_map \<Rightarrow> string \<Rightarrow> bool" where
  "held m k = (\<forall>r. map_of m k = Some r \<longrightarrow> \<not> wr_busy r)"

lemma record_hold:
  assumes "line_codec stringify parse id" "agrees parse s" "record_worker stringify io io1 r s = (s1, True)" "\<not> wr_busy r"
  shows "agrees parse s1" "held (fst s1) (wr_activeSessionId r)" "held (fst s) k \<Longrightarrow> held (fst s1) k"
    "k \<noteq> wr_activeSessionId r \<Longrightarrow> map_of (fst s1) k = map_of (fst s) k"
proof -
  obtain latest f latest1 f1 where s: "s = (latest, f)" "s1 = (latest1, f1)" by fastforce
  have "agrees parse s1 \<and> held (fst s1) (wr_activeSessionId r) \<and> (held (fst s) k \<longrightarrow> held (fst s1) k)
      \<and> (k \<noteq> wr_activeSessionId r \<longrightarrow> map_of (fst s1) k = map_of (fst s) k)"
    using record_worker_effect [OF assms(1) _ assms(3) [unfolded s]] assms(2,4)
    by (auto simp: s agrees_def held_def skipped_def same_state_def split: option.splits if_splits)
  then show "agrees parse s1" "held (fst s1) (wr_activeSessionId r)" "held (fst s) k \<Longrightarrow> held (fst s1) k"
    "k \<noteq> wr_activeSessionId r \<Longrightarrow> map_of (fst s1) k = map_of (fst s) k" by auto
qed

lemma hold_all_holds:
  assumes "line_codec stringify parse id"
  shows "agrees parse s \<Longrightarrow> hold_all stringify ios n rs s = (s1, True) \<Longrightarrow>
    agrees parse s1 \<and> (\<forall>k. k \<in> wr_activeSessionId ` set rs \<or> held (fst s) k \<longrightarrow> held (fst s1) k)"
proof (induction rs arbitrary: n s)
  case (Cons r rs)
  obtain io io1 now where i: "ios n = (io, io1, now)" by (metis prod_cases3)
  obtain s2 where r: "record_worker stringify io io1 (hold_record now r) s = (s2, True)" "hold_all stringify ios (Suc n) rs s2 = (s1, True)"
    using Cons.prems(2) i by (auto split: prod.splits if_splits)
  have "\<not> wr_busy (hold_record now r)" "wr_activeSessionId (hold_record now r) = wr_activeSessionId r" by (simp_all add: hold_record_def)
  note h = record_hold [OF assms Cons.prems(1) r(1) this(1), unfolded this(2)]
  show ?case using Cons.IH [OF h(1) r(2)] h(2,3) by auto
qed simp

definition file_key :: "string \<Rightarrow> string \<Rightarrow> string" where
  "file_key i sessionFile = i @ [CHR 0x00] @ sessionFile"

lemma file_key_fold: "i @ CHR 0x00 # q = file_key i q"
  by (simp add: file_key_def)

lemma file_key_inj:
  "CHR 0x00 \<notin> set i \<Longrightarrow> CHR 0x00 \<notin> set j \<Longrightarrow> file_key i a = file_key j b \<Longrightarrow> i = j \<and> a = b"
proof (induction i arbitrary: j)
  case Nil
  then show ?case by (cases j) (auto simp: file_key_def)
next
  case (Cons c i)
  then show ?case by (cases j) (auto simp: file_key_def)
qed

definition keyed :: "(string \<times> interrupted_session) list \<Rightarrow> bool" where
  "keyed m = (\<forall>k i. map_of m k = Some i \<longrightarrow> k = file_key (is_activeSessionId i) (is_sessionFile i) \<and> CHR 0x00 \<notin> set (is_activeSessionId i))"

definition noted :: "(string \<times> interrupted_session) list \<Rightarrow> string \<Rightarrow> string \<Rightarrow> string \<Rightarrow> bool" where
  "noted m i sessionFile operation = (\<exists>x. map_of m (file_key i sessionFile) = Some x \<and> is_activeSessionId x = i
     \<and> is_sessionFile x = sessionFile \<and> operation \<in> set (is_operations x))"

lemma set_add_once [simp]: "set (add_once x xs) = insert x (set xs)"
  by (auto simp: add_once_def)

lemma add_interrupted_step:
  assumes "keyed m" "CHR 0x00 \<notin> set (wr_activeSessionId r)"
  shows "keyed (add_interrupted rootId rootFile r m)"
    "file_of_record rootId rootFile r = Some sessionFile \<Longrightarrow> noted (add_interrupted rootId rootFile r m) (wr_activeSessionId r) sessionFile (wr_operation r)"
    "noted m i q operation \<Longrightarrow> noted (add_interrupted rootId rootFile r m) i q operation"
proof -
  have k: "is_activeSessionId x = wr_activeSessionId r \<and> is_sessionFile x = g"
    if "map_of m (file_key (wr_activeSessionId r) g) = Some x" for x g
    using assms that file_key_inj [of "is_activeSessionId x" "wr_activeSessionId r" "is_sessionFile x" g] by (auto simp: keyed_def)
  show "keyed (add_interrupted rootId rootFile r m)"
    using assms k by (auto simp: keyed_def add_interrupted_def file_key_fold Let_def split: option.splits)
  show "file_of_record rootId rootFile r = Some sessionFile \<Longrightarrow> noted (add_interrupted rootId rootFile r m) (wr_activeSessionId r) sessionFile (wr_operation r)"
    using k by (auto simp: noted_def add_interrupted_def file_key_fold Let_def split: option.splits)
  show "noted m i q operation \<Longrightarrow> noted (add_interrupted rootId rootFile r m) i q operation"
    using k by (auto simp: noted_def add_interrupted_def file_key_fold Let_def split: option.splits)
qed

lemma fold_interrupted:
  "keyed m \<Longrightarrow> \<forall>r\<in>set rs. CHR 0x00 \<notin> set (wr_activeSessionId r) \<Longrightarrow>
    (\<forall>r\<in>set rs. \<forall>q. file_of_record rootId rootFile r = Some q \<longrightarrow> noted (fold (add_interrupted rootId rootFile) rs m) (wr_activeSessionId r) q (wr_operation r))
    \<and> (\<forall>i q operation. noted m i q operation \<longrightarrow> noted (fold (add_interrupted rootId rootFile) rs m) i q operation)"
proof (induction rs arbitrary: m)
  case (Cons r rs)
  have "CHR 0x00 \<notin> set (wr_activeSessionId r)" using Cons.prems(2) by simp
  note s = add_interrupted_step [OF Cons.prems(1) this]
  have ih: "(\<forall>r'\<in>set rs. \<forall>q. file_of_record rootId rootFile r' = Some q \<longrightarrow> noted (fold (add_interrupted rootId rootFile) rs (add_interrupted rootId rootFile r m)) (wr_activeSessionId r') q (wr_operation r'))
    \<and> (\<forall>i q operation. noted (add_interrupted rootId rootFile r m) i q operation \<longrightarrow> noted (fold (add_interrupted rootId rootFile) rs (add_interrupted rootId rootFile r m)) i q operation)"
    by (rule Cons.IH [OF s(1)]) (use Cons.prems(2) in simp)
  show ?case using ih s(2,3) by auto
qed simp

text \<open>Where no record is busy in memory, none is in the file.\<close>

lemma idle_after_holding:
  assumes "agrees parse (latest, f)" "\<And>k. held latest k" "r \<in> set (getLatest (worker_disk parse f))"
  shows "\<not> wr_busy r"
proof -
  have disk: "map_of (worker_disk parse f) = map_of latest" using assms(1) by (simp add: agrees_def)
  have "r \<in> snd ` set (worker_disk parse f)" using assms(3) by (simp add: getLatest_def)
  then obtain k where "(k, r) \<in> set (worker_disk parse f)" by force
  moreover have "distinct (map fst (worker_disk parse f))" using worker_wf_disk [of parse f] unfolding worker_wf_def by (rule conjunct1)
  ultimately have "map_of (worker_disk parse f) k = Some r" by (intro map_of_is_SomeI)
  then show ?thesis using assms(2) [of k] by (simp add: held_def disk)
qed

lemma preserving_holds_all:
  assumes "line_codec stringify parse id" "agrees parse (latest, f1)" "worker_wf latest"
    "preserveUncertainWorkerOperations stringify ios marked updatable rootId rootFile (getLatest latest) (latest, f1)
       = ((latest1, f2), calls, Some operations)"
  shows "agrees parse (latest1, f2) \<and> (\<forall>k. held latest1 k)"
proof (cases "filter wr_busy (getLatest latest) = []")
  case True
  then have "(latest1, f2) = (latest, f1)" using assms(4) by (simp add: preserveUncertainWorkerOperations_def)
  moreover have "held latest k" for k using True by (auto simp: held_def getLatest_def filter_empty_conv dest!: map_of_SomeD)
  ultimately show ?thesis using assms(2) by simp
next
  case False
  then have h: "hold_all stringify ios 0 (getLatest latest) (latest, f1) = ((latest1, f2), True)"
    using assms(4) by (auto simp: preserveUncertainWorkerOperations_def Let_def split: if_splits prod.splits)
  have "held latest k \<or> k \<in> wr_activeSessionId ` set (getLatest latest)" for k
    using assms(3) by (force simp: held_def getLatest_def worker_wf_def dest!: map_of_SomeD)
  then show ?thesis using hold_all_holds [OF assms(1,2) h] by auto
qed

text \<open>
  C22: no operation that was interrupted is forgotten. When the operations found busy in a journal
  just opened are preserved and the call returns, then every busy record with a session file was
  handed to \<open>markInterrupted\<close> with its operation, the operations are returned, and the journal shows
  no session as busy any more. When marking fails, the journal is left as it was.
\<close>
theorem interrupted_operations_preserved:
  assumes "line_codec stringify parse id" "parseRecords parse io f = (Some latest, f1)" "\<forall>(k, r)\<in>set latest. CHR 0x00 \<notin> set k"
    "preserveUncertainWorkerOperations stringify ios marked updatable rootId rootFile (getLatest latest) (latest, f1) = ((latest1, f2), calls, res)"
  shows "case res of
      Some operations \<Rightarrow> operations = map wr_operation (filter wr_busy (getLatest latest))
        \<and> (\<forall>r\<in>set (getLatest latest). \<forall>q. wr_busy r \<and> file_of_record rootId rootFile r = Some q \<longrightarrow>
             (\<exists>ops recoveryId. (q, wr_activeSessionId r, ops, recoveryId) \<in> set calls \<and> wr_operation r \<in> set ops))
        \<and> (\<forall>io1 now1 f3. parseRecords parse io1 f2 = (Some now1, f3) \<longrightarrow> list_all (\<lambda>r. \<not> wr_busy r) (getLatest now1))
    | None \<Rightarrow> \<not> marked \<longrightarrow> (latest1, f2) = (latest, f1)"
proof (cases res)
  case None
  then show ?thesis using assms(4) by (auto simp: preserveUncertainWorkerOperations_def Let_def split: if_splits prod.splits)
next
  case (Some operations)
  let ?busy = "filter wr_busy (getLatest latest)" and ?m = "fold (add_interrupted rootId rootFile) (filter wr_busy (getLatest latest)) []"
  note d = parseRecords_disk [OF assms(2)]
  have wf: "worker_wf latest" unfolding d(1) by (rule worker_wf_disk)
  then have a: "agrees parse (latest, f1)" using d by (simp add: agrees_def)
  have ids: "\<forall>r\<in>set ?busy. CHR 0x00 \<notin> set (wr_activeSessionId r)" using assms(3) wf by (fastforce simp: getLatest_def worker_wf_def)
  have "keyed []" by (simp add: keyed_def)
  note noted = fold_interrupted [OF this ids, of rootId rootFile, THEN conjunct1]
  have ops: "operations = map wr_operation ?busy"
    using assms(4) Some by (auto simp: preserveUncertainWorkerOperations_def Let_def split: if_splits prod.splits)
  have calls: "(q, wr_activeSessionId r, ops, rid) \<in> set calls \<and> wr_operation r \<in> set ops"
    if "r \<in> set ?busy" "map_of ?m (file_key (wr_activeSessionId r) q) = Some x" "is_activeSessionId x = wr_activeSessionId r" "is_sessionFile x = q"
      "wr_operation r \<in> set (is_operations x)" "ops = is_operations x" "rid = join_with ''|'' (sort (is_recoveryIds x))" for r q x ops rid
    using assms(4) that map_of_SomeD [OF that(2)]
    by (force simp: preserveUncertainWorkerOperations_def mark_call_def Let_def split: if_splits prod.splits)
  have all: "agrees parse (latest1, f2) \<and> (\<forall>k. held latest1 k)"
    using preserving_holds_all [OF assms(1) a wf] assms(4) unfolding Some .
  have idle: "\<not> wr_busy r" if "r \<in> set (getLatest (worker_disk parse f2))" for r
    using idle_after_holding [OF _ _ that] all by blast
  show ?thesis
    unfolding Some option.case
  proof (intro conjI ballI allI impI)
    fix io1 now1 f3 assume "parseRecords parse io1 f2 = (Some now1, f3)"
    from parseRecords_disk(1) [OF this] show "list_all (\<lambda>r. \<not> wr_busy r) (getLatest now1)" using idle by (simp add: list_all_iff)
  next
    fix r q assume r: "r \<in> set (getLatest latest)" "wr_busy r \<and> file_of_record rootId rootFile r = Some q"
    then obtain x where x: "map_of ?m (file_key (wr_activeSessionId r) q) = Some x" "is_activeSessionId x = wr_activeSessionId r" "is_sessionFile x = q"
      "wr_operation r \<in> set (is_operations x)" using noted by (auto simp: noted_def)
    have "r \<in> set ?busy" using r by simp
    from calls [OF this x refl refl] show "\<exists>ops recoveryId. (q, wr_activeSessionId r, ops, recoveryId) \<in> set calls \<and> wr_operation r \<in> set ops" by blast
  qed (rule ops)
qed

section \<open>Examples\<close>

definition put_worker :: "worker_record \<Rightarrow> bytes" where
  "put_worker r = put_fields ([wr_activeSessionId r, wr_sessionId r, if wr_busy r then ''1'' else ''0'', wr_operation r, wr_recordedAt r]
     @ (case wr_sessionFile r of Some q \<Rightarrow> [q] | None \<Rightarrow> []))"

definition get_worker :: "bytes \<Rightarrow> worker_record option" where
  "get_worker b =
     (case get_fields b of
        [i, s, busy, op, t] \<Rightarrow> Some \<lparr>wr_activeSessionId = i, wr_sessionId = s, wr_sessionFile = None, wr_busy = (busy = ''1''), wr_operation = op, wr_recordedAt = t\<rparr>
      | [i, s, busy, op, t, q] \<Rightarrow> Some \<lparr>wr_activeSessionId = i, wr_sessionId = s, wr_sessionFile = Some q, wr_busy = (busy = ''1''), wr_operation = op, wr_recordedAt = t\<rparr>
      | _ \<Rightarrow> None)"

lemma worker_codec: "line_codec put_worker get_worker id"
  unfolding line_codec_def
proof
  fix r :: worker_record
  have "put_worker r \<noteq> []" by (simp add: put_worker_def put_fields_def)
  then show "get_worker (put_worker r) = Some (id r) \<and> newline \<notin> set (put_worker r) \<and> put_worker r \<noteq> []"
    by (auto simp: put_worker_def get_worker_def get_put_fields newline_put_fields split: option.splits)
qed

definition fine_io :: journal_io where
  "fine_io = \<lparr>io_locked = True, io_repair = Repaired, io_append = Appended, io_replace = Replaced\<rparr>"

definition busy_record :: worker_record where
  "busy_record = \<lparr>wr_activeSessionId = ''a'', wr_sessionId = ''s'', wr_sessionFile = Some ''f'', wr_busy = True, wr_operation = ''prompt'', wr_recordedAt = ''t''\<rparr>"

definition busy_file :: "bytes option" where
  "busy_file = Some (put_worker busy_record @ [newline])"

lemma busy_recorded: "record_worker put_worker fine_io fine_io busy_record ([], None) = (([(''a'', busy_record)], busy_file), True)"
  by (simp add: record_worker_def append_locked_def readAndRepairRecoveryJournal_def appendRecoveryJournalLine_def append_bytes_def
      fine_io_def busy_record_def busy_file_def contents_def Let_def)

lemma busy_read: "parseRecords get_worker fine_io busy_file = (Some [(''a'', busy_record)], busy_file)"
proof -
  have c: "get_worker (put_worker busy_record) = Some busy_record" "newline \<notin> set (put_worker busy_record)" "put_worker busy_record \<noteq> []"
    using worker_codec by (auto simp: line_codec_def)
  have "split_lines (put_worker busy_record @ [newline]) = [put_worker busy_record, []]"
    using split_lines_at [of "put_worker busy_record" "[]"] split_lines_one [OF c(2)] by simp
  then show ?thesis
    using c by (simp add: parseRecords_def readAndRepairRecoveryJournal_def fine_io_def busy_file_def terminated_def read_line_def busy_record_def)
qed

lemma worker_record_survives_witness:
  "map_of (the (fst (parseRecords get_worker fine_io busy_file))) (wr_activeSessionId busy_record) = Some busy_record"
proof -
  have "parseRecords get_worker fine_io None = (Some [], None)"
    by (simp add: parseRecords_def readAndRepairRecoveryJournal_def fine_io_def read_line_def)
  then have "worker_step put_worker get_worker None (None, None) (Some [], None)" by (rule worker_start)
  then have "reach (\<lambda>w. fst w = None) (\<lambda>v w. \<exists>about. worker_step put_worker get_worker about v w) (Some [], None)"
    by (intro reach_step [OF reach_init]) auto
  moreover have "\<not> skipped [] busy_record" by (simp add: skipped_def)
  moreover have "(\<lambda>v w. \<exists>about. about \<noteq> Some (wr_activeSessionId busy_record) \<and> worker_step put_worker get_worker about v w)\<^sup>*\<^sup>*
      (Some [(''a'', busy_record)], busy_file) (None, busy_file)"
    using worker_stop [of put_worker get_worker "Some [(''a'', busy_record)]" busy_file] by (intro r_into_rtranclp) auto
  ultimately have "map_of [(''a'', busy_record)] (wr_activeSessionId busy_record) = Some busy_record"
    using worker_record_survives [OF worker_codec _ busy_recorded _ _ busy_read] by blast
  then show ?thesis unfolding busy_read fst_conv option.sel .
qed

lemma interrupted_operations_preserved_witness:
  "\<exists>ops recoveryId. (''f'', ''a'', ops, recoveryId) \<in> set (fst (snd (preserveUncertainWorkerOperations put_worker (\<lambda>n. (fine_io, fine_io, ''u''))
     True True ''r'' None [busy_record] ([(''a'', busy_record)], busy_file)))) \<and> ''prompt'' \<in> set ops"
proof -
  let ?p = "preserveUncertainWorkerOperations put_worker (\<lambda>n. (fine_io, fine_io, ''u'')) True True ''r'' None (getLatest [(''a'', busy_record)]) ([(''a'', busy_record)], busy_file)"
  obtain l1 f2 calls res where p: "?p = ((l1, f2), calls, res)" by (metis prod.collapse)
  have "snd (hold_all put_worker (\<lambda>n. (fine_io, fine_io, ''u'')) 0 [busy_record] ([(''a'', busy_record)], busy_file))"
    by (simp add: record_worker_def append_locked_def replace_locked_def readAndRepairRecoveryJournal_def appendRecoveryJournalLine_def append_bytes_def
        replaceRecoveryJournal_def compact_worker_def fine_io_def busy_record_def busy_file_def hold_record_def same_state_def contents_def terminated_def Let_def)
  then have res: "\<exists>operations. res = Some operations"
    using p by (auto simp: preserveUncertainWorkerOperations_def getLatest_def busy_record_def Let_def split: prod.splits)
  have "\<forall>(k, r)\<in>set [(''a'', busy_record)]. CHR 0x00 \<notin> set k" by simp
  from interrupted_operations_preserved [OF worker_codec busy_read this p]
  show ?thesis using res p by (auto simp: getLatest_def busy_record_def file_of_record_def)
qed

end
