(* ===== verification/Concurrency.thy ===== *)
theory Concurrency
  imports Prelude
begin

text \<open>
  What orders concurrent work: event streams (\<open>packages/ai/src/utils/event-stream.ts\<close>), the semaphore
  (\<open>coding-agent/src/utils/semaphore.ts\<close>), the drain latch (\<open>modes/daemon/mutation-drain-latch.ts\<close>) and the
  queue of mutations of a file (\<open>core/tools/file-mutation-queue.ts\<close>). Promises that were resolved and
  tasks that were not resumed yet are part of the states.
\<close>

section \<open>Event streams\<close>

text \<open>
  An iterator of a stream: about to run, waiting with its resolver in the stream, with a resolved
  promise but not yet resumed, paused at a \<open>yield\<close>, or at its end. The value is None for the end.
\<close>

datatype 'e iterator = Ready | Waiting | Resolved "'e option" | Yielded | Returned

record ('e, 'r) event_stream =
  es_queue :: "'e list"
  es_waiting :: "nat list"
  es_done :: bool
  es_result :: "'r option"
  es_iterators :: "nat \<Rightarrow> 'e iterator"

definition new_stream :: "('e, 'r) event_stream" where
  "new_stream = \<lparr>es_queue = [], es_waiting = [], es_done = False, es_result = None, es_iterators = (\<lambda>i. Ready)\<rparr>"

text \<open>Resolving a promise again changes nothing.\<close>

definition resolveFinalResult :: "'r \<Rightarrow> ('e, 'r) event_stream \<Rightarrow> ('e, 'r) event_stream" where
  "resolveFinalResult r s = (case es_result s of None \<Rightarrow> s\<lparr>es_result := Some r\<rparr> | Some _ \<Rightarrow> s)"

definition stream_push :: "('e \<Rightarrow> bool) \<Rightarrow> ('e \<Rightarrow> 'r) \<Rightarrow> 'e \<Rightarrow> ('e, 'r) event_stream \<Rightarrow> ('e, 'r) event_stream" where
  "stream_push isComplete extractResult event s =
     (if es_done s then s
      else
        (let s1 = (if isComplete event then resolveFinalResult (extractResult event) (s\<lparr>es_done := True\<rparr>) else s)
         in case es_waiting s1 of
              i # is \<Rightarrow> s1\<lparr>es_waiting := is, es_iterators := (es_iterators s1)(i := Resolved (Some event))\<rparr>
            | [] \<Rightarrow> s1\<lparr>es_queue := es_queue s1 @ [event]\<rparr>))"

fun wake_all :: "nat list \<Rightarrow> (nat \<Rightarrow> 'e iterator) \<Rightarrow> nat \<Rightarrow> 'e iterator" where
  "wake_all [] its = its"
| "wake_all (i # is) its = wake_all is (its(i := Resolved None))"

definition stream_end :: "'r option \<Rightarrow> ('e, 'r) event_stream \<Rightarrow> ('e, 'r) event_stream" where
  "stream_end result s =
     (let s1 = s\<lparr>es_done := True\<rparr>;
          s2 = (case result of Some r \<Rightarrow> resolveFinalResult r s1 | None \<Rightarrow> s1)
      in s2\<lparr>es_waiting := [], es_iterators := wake_all (es_waiting s2) (es_iterators s2)\<rparr>)"

text \<open>The body of the loop, with the event that is yielded.\<close>

definition stream_iterate :: "nat \<Rightarrow> ('e, 'r) event_stream \<Rightarrow> ('e, 'r) event_stream \<times> 'e option" where
  "stream_iterate i s =
     (case es_queue s of
        event # rest \<Rightarrow> (s\<lparr>es_queue := rest, es_iterators := (es_iterators s)(i := Yielded)\<rparr>, Some event)
      | [] \<Rightarrow>
          if es_done s then (s\<lparr>es_iterators := (es_iterators s)(i := Returned)\<rparr>, None)
          else (s\<lparr>es_waiting := es_waiting s @ [i], es_iterators := (es_iterators s)(i := Waiting)\<rparr>, None))"

text \<open>\<open>next\<close> runs the loop from its start or from a \<open>yield\<close>; a resolved promise resumes it at the \<open>await\<close>.\<close>

definition stream_next :: "nat \<Rightarrow> ('e, 'r) event_stream \<Rightarrow> (('e, 'r) event_stream \<times> 'e option) option" where
  "stream_next i s = (case es_iterators s i of Ready \<Rightarrow> Some (stream_iterate i s) | Yielded \<Rightarrow> Some (stream_iterate i s) | _ \<Rightarrow> None)"

definition stream_resume :: "nat \<Rightarrow> ('e, 'r) event_stream \<Rightarrow> (('e, 'r) event_stream \<times> 'e option) option" where
  "stream_resume i s =
     (case es_iterators s i of
        Resolved (Some event) \<Rightarrow> Some (s\<lparr>es_iterators := (es_iterators s)(i := Yielded)\<rparr>, Some event)
      | Resolved None \<Rightarrow> Some (s\<lparr>es_iterators := (es_iterators s)(i := Returned)\<rparr>, None)
      | _ \<Rightarrow> None)"

text \<open>
  A stream with one consumer, as the agent loop has it: what was pushed before the end, and what
  the consumer got.
\<close>

record ('e, 'r) stream_world =
  sw_stream :: "('e, 'r) event_stream"
  sw_pushed :: "'e list"
  sw_received :: "'e list"

definition stream_start :: "('e, 'r) stream_world \<Rightarrow> bool" where
  "stream_start w = (w = \<lparr>sw_stream = new_stream, sw_pushed = [], sw_received = []\<rparr>)"

definition received :: "'e option \<Rightarrow> 'e list" where
  "received x = (case x of Some e \<Rightarrow> [e] | None \<Rightarrow> [])"

inductive stream_step :: "('e \<Rightarrow> bool) \<Rightarrow> ('e \<Rightarrow> 'r) \<Rightarrow> ('e, 'r) stream_world \<Rightarrow> ('e, 'r) stream_world \<Rightarrow> bool"
  for isComplete :: "'e \<Rightarrow> bool" and extractResult :: "'e \<Rightarrow> 'r" where
  step_push: "stream_step isComplete extractResult w (w\<lparr>sw_stream := stream_push isComplete extractResult event (sw_stream w),
    sw_pushed := (if es_done (sw_stream w) then sw_pushed w else sw_pushed w @ [event])\<rparr>)"
| step_end: "stream_step isComplete extractResult w (w\<lparr>sw_stream := stream_end result (sw_stream w)\<rparr>)"
| step_next: "stream_next 0 (sw_stream w) = Some (s, x) \<Longrightarrow>
    stream_step isComplete extractResult w (w\<lparr>sw_stream := s, sw_received := sw_received w @ received x\<rparr>)"
| step_resume: "stream_resume 0 (sw_stream w) = Some (s, x) \<Longrightarrow>
    stream_step isComplete extractResult w (w\<lparr>sw_stream := s, sw_received := sw_received w @ received x\<rparr>)"

definition in_flight :: "'e iterator \<Rightarrow> 'e list" where
  "in_flight p = (case p of Resolved x \<Rightarrow> received x | _ \<Rightarrow> [])"

definition stream_ok :: "('e \<Rightarrow> bool) \<Rightarrow> ('e \<Rightarrow> 'r) \<Rightarrow> ('e, 'r) stream_world \<Rightarrow> bool" where
  "stream_ok isComplete extractResult w =
     (let s = sw_stream w; p = es_iterators s 0 in
      sw_received w @ in_flight p @ es_queue s = sw_pushed w
      \<and> es_waiting s = (if p = Waiting then [0] else [])
      \<and> (p = Waiting \<longrightarrow> es_queue s = [] \<and> \<not> es_done s)
      \<and> (p = Returned \<or> p = Resolved None \<longrightarrow> es_queue s = [] \<and> es_done s)
      \<and> (\<forall>event \<in> set (butlast (sw_pushed w)). \<not> isComplete event)
      \<and> (sw_pushed w \<noteq> [] \<and> isComplete (last (sw_pushed w)) \<longrightarrow> es_done s \<and> es_result s = Some (extractResult (last (sw_pushed w))))
      \<and> (\<not> es_done s \<longrightarrow> es_result s = None))"

lemma resolve_same [simp]:
  "es_queue (resolveFinalResult r s) = es_queue s" "es_waiting (resolveFinalResult r s) = es_waiting s" "es_done (resolveFinalResult r s) = es_done s"
  "es_iterators (resolveFinalResult r s) = es_iterators s" "es_result (resolveFinalResult r s) = (case es_result s of None \<Rightarrow> Some r | x \<Rightarrow> x)"
  by (simp_all add: resolveFinalResult_def split: option.splits)

lemma stream_ok_push:
  assumes "stream_ok isComplete extractResult w"
  shows "stream_ok isComplete extractResult (w\<lparr>sw_stream := stream_push isComplete extractResult event (sw_stream w),
    sw_pushed := (if es_done (sw_stream w) then sw_pushed w else sw_pushed w @ [event])\<rparr>)"
proof (cases "es_done (sw_stream w)")
  case True
  then show ?thesis using assms by (simp add: stream_push_def)
next
  case False
  have all: "\<forall>e\<in>set (sw_pushed w). \<not> isComplete e"
    using assms False by (cases "sw_pushed w" rule: rev_cases) (auto simp: stream_ok_def Let_def)
  show ?thesis
    using assms False all
    by (auto simp: stream_ok_def stream_push_def Let_def in_flight_def received_def split: list.splits if_splits iterator.splits option.splits)
qed

lemma stream_ok_end: "stream_ok isComplete extractResult w \<Longrightarrow> stream_ok isComplete extractResult (w\<lparr>sw_stream := stream_end result (sw_stream w)\<rparr>)"
  by (auto simp: stream_ok_def stream_end_def Let_def in_flight_def received_def split: if_splits iterator.splits option.splits)

lemma stream_ok_next:
  "stream_ok isComplete extractResult w \<Longrightarrow> stream_next 0 (sw_stream w) = Some (s, x) \<Longrightarrow>
    stream_ok isComplete extractResult (w\<lparr>sw_stream := s, sw_received := sw_received w @ received x\<rparr>)"
  by (auto simp: stream_ok_def stream_next_def stream_iterate_def Let_def in_flight_def received_def split: if_splits iterator.splits list.splits)

lemma stream_ok_resume:
  "stream_ok isComplete extractResult w \<Longrightarrow> stream_resume 0 (sw_stream w) = Some (s, x) \<Longrightarrow>
    stream_ok isComplete extractResult (w\<lparr>sw_stream := s, sw_received := sw_received w @ received x\<rparr>)"
  by (auto simp: stream_ok_def stream_resume_def Let_def in_flight_def received_def split: if_splits iterator.splits option.splits)

interpretation stream: invariant_machine stream_start "stream_step isComplete extractResult" "stream_ok isComplete extractResult"
  for isComplete :: "'e \<Rightarrow> bool" and extractResult :: "'e \<Rightarrow> 'r"
proof
  fix w :: "('e, 'r) stream_world"
  assume "stream_start w"
  then show "stream_ok isComplete extractResult w" by (simp add: stream_start_def stream_ok_def new_stream_def in_flight_def)
next
  fix w v :: "('e, 'r) stream_world"
  assume "stream_ok isComplete extractResult w" "stream_step isComplete extractResult w v"
  then show "stream_ok isComplete extractResult v"
    by (auto elim!: stream_step.cases intro: stream_ok_push stream_ok_end stream_ok_next stream_ok_resume)
qed

text \<open>
  C26: an event stream loses, repeats and reorders nothing, and does not hang. At every moment the
  consumer has got a prefix of what was pushed before the end, and all of it once it returned; when
  the stream has ended the consumer is not waiting, so asking on brings it to the end; the first
  completing event is the last one pushed and gives the final result.
\<close>
theorem stream_delivers_in_order:
  assumes "reach stream_start (stream_step isComplete extractResult) w"
  shows "prefix (sw_received w) (sw_pushed w)
    \<and> (es_iterators (sw_stream w) 0 = Returned \<longrightarrow> sw_received w = sw_pushed w)
    \<and> (es_done (sw_stream w) \<longrightarrow> es_iterators (sw_stream w) 0 \<noteq> Waiting
        \<and> length (es_queue (sw_stream w)) + length (in_flight (es_iterators (sw_stream w) 0)) = length (sw_pushed w) - length (sw_received w))
    \<and> (\<forall>n < length (sw_pushed w). isComplete (sw_pushed w ! n) \<longrightarrow>
         Suc n = length (sw_pushed w) \<and> es_result (sw_stream w) = Some (extractResult (sw_pushed w ! n)))"
proof -
  have ok: "stream_ok isComplete extractResult w" using assms by (rule stream.inv_reach)
  let ?p = "es_iterators (sw_stream w) 0"
  have all: "sw_received w @ in_flight ?p @ es_queue (sw_stream w) = sw_pushed w" using ok by (simp add: stream_ok_def Let_def)
  have "prefix (sw_received w) (sw_pushed w)" using all by (metis prefixI)
  moreover have "?p = Returned \<longrightarrow> sw_received w = sw_pushed w" using ok all by (auto simp: stream_ok_def Let_def in_flight_def)
  moreover have "es_done (sw_stream w) \<longrightarrow> ?p \<noteq> Waiting" using ok by (auto simp: stream_ok_def Let_def)
  moreover have "length (es_queue (sw_stream w)) + length (in_flight ?p) = length (sw_pushed w) - length (sw_received w)"
    by (simp flip: all)
  moreover have "Suc n = length (sw_pushed w) \<and> es_result (sw_stream w) = Some (extractResult (sw_pushed w ! n))"
    if n: "n < length (sw_pushed w)" "isComplete (sw_pushed w ! n)" for n
  proof (cases "Suc n = length (sw_pushed w)")
    case True
    have ne: "sw_pushed w \<noteq> []" using n(1) by auto
    have "length (sw_pushed w) - 1 = n" using True by simp
    then have "sw_pushed w ! n = last (sw_pushed w)" by (simp add: last_conv_nth [OF ne])
    with ne show ?thesis using ok n True by (auto simp: stream_ok_def Let_def)
  next
    case False
    then have "sw_pushed w ! n \<in> set (butlast (sw_pushed w))" using n(1) by (metis Suc_lessI butlast_conv_take diff_Suc_1 in_set_conv_nth length_butlast less_diff_conv nth_butlast add.commute plus_1_eq_Suc)
    then show ?thesis using ok n(2) by (auto simp: stream_ok_def Let_def)
  qed
  ultimately show ?thesis by blast
qed

lemma stream_delivers_in_order_witness:
  "\<exists>w. reach stream_start (stream_step (\<lambda>n. n = 2) (\<lambda>n :: nat. n)) w \<and> sw_received w = [1] \<and> sw_pushed w = [1, 2]
     \<and> es_result (sw_stream w) = Some 2 \<and> length (es_queue (sw_stream w)) = 1"
proof -
  let ?step = "stream_step (\<lambda>n. n = 2) (\<lambda>n :: nat. n)"
  define w where "w = \<lparr>sw_stream = new_stream :: (nat, nat) event_stream, sw_pushed = [], sw_received = []\<rparr>"
  have 0: "reach stream_start ?step w" by (rule reach_init) (simp add: stream_start_def w_def)
  have 1: "reach stream_start ?step (w\<lparr>sw_stream := new_stream\<lparr>es_queue := [1]\<rparr>, sw_pushed := [1]\<rparr>)"
    using reach_step [OF 0 step_push [of _ _ w 1]] by (simp add: w_def new_stream_def stream_push_def)
  have 2: "reach stream_start ?step (w\<lparr>sw_stream := new_stream\<lparr>es_queue := [1, 2], es_done := True, es_result := Some 2\<rparr>, sw_pushed := [1, 2]\<rparr>)"
    using reach_step [OF 1 step_push [of _ _ _ 2]] by (simp add: w_def new_stream_def stream_push_def resolveFinalResult_def)
  have 3: "reach stream_start ?step (w\<lparr>sw_stream := new_stream\<lparr>es_queue := [2], es_done := True, es_result := Some 2,
      es_iterators := (\<lambda>i. Ready)(0 := Yielded)\<rparr>, sw_pushed := [1, 2], sw_received := [1]\<rparr>)"
    using reach_step [OF 2 step_next] by (simp add: w_def new_stream_def stream_next_def stream_iterate_def received_def)
  show ?thesis using stream_delivers_in_order [OF 3] 3 by (intro exI) (auto simp: in_flight_def)
qed

section \<open>The semaphore\<close>

record semaphore =
  sm_available :: nat
  sm_waiters :: "nat list"

text \<open>None: the constructor throws.\<close>

definition new_semaphore :: "int \<Rightarrow> semaphore option" where
  "new_semaphore permits = (if permits < 1 then None else Some \<lparr>sm_available = nat permits, sm_waiters = []\<rparr>)"

definition queueLength :: "semaphore \<Rightarrow> nat" where
  "queueLength s = length (sm_waiters s)"

text \<open>What a call of \<open>acquire\<close> comes to at once: it throws, has a permit, or waits.\<close>

datatype acquired = Aborted_call | Permitted | Queued

definition semaphore_acquire :: "nat \<Rightarrow> bool \<Rightarrow> semaphore \<Rightarrow> semaphore \<times> acquired" where
  "semaphore_acquire i aborted s =
     (if aborted then (s, Aborted_call)
      else if sm_available s > 0 then (s\<lparr>sm_available := sm_available s - 1\<rparr>, Permitted)
      else (s\<lparr>sm_waiters := sm_waiters s @ [i]\<rparr>, Queued))"

text \<open>The abort of a signal whose listener is still there.\<close>

definition semaphore_abort :: "nat \<Rightarrow> semaphore \<Rightarrow> semaphore" where
  "semaphore_abort i s = s\<lparr>sm_waiters := (case index_of i (sm_waiters s) of Some n \<Rightarrow> remove_at n (sm_waiters s) | None \<Rightarrow> sm_waiters s)\<rparr>"

text \<open>The waiter that gets the permit, if there is one.\<close>

definition semaphore_release :: "semaphore \<Rightarrow> semaphore \<times> nat option" where
  "semaphore_release s =
     (case sm_waiters s of
        next # rest \<Rightarrow> (s\<lparr>sm_waiters := rest\<rparr>, Some next)
      | [] \<Rightarrow> (s\<lparr>sm_available := sm_available s + 1\<rparr>, None))"

text \<open>
  Calls of \<open>run\<close> by tasks: who asked, in order, who got a permit, in order, and who holds one. A task
  that holds a permit releases it when its function ends, also when that throws.
\<close>

record semaphore_world =
  smw_semaphore :: semaphore
  smw_asked :: "nat list"
  smw_permitted :: "nat list"
  smw_holders :: "nat list"

definition semaphore_start :: "int \<Rightarrow> semaphore_world \<Rightarrow> bool" where
  "semaphore_start permits w = (\<exists>s. new_semaphore permits = Some s \<and> w = \<lparr>smw_semaphore = s, smw_asked = [], smw_permitted = [], smw_holders = []\<rparr>)"

inductive semaphore_step :: "semaphore_world \<Rightarrow> semaphore_world \<Rightarrow> bool" where
  step_run: "i \<notin> set (smw_asked w) \<Longrightarrow> semaphore_acquire i aborted (smw_semaphore w) = (s, r) \<Longrightarrow>
    semaphore_step w (w\<lparr>smw_semaphore := s, smw_asked := smw_asked w @ [i],
      smw_permitted := smw_permitted w @ (if r = Permitted then [i] else []), smw_holders := smw_holders w @ (if r = Permitted then [i] else [])\<rparr>)"
| step_abort: "i \<in> set (sm_waiters (smw_semaphore w)) \<Longrightarrow> semaphore_step w (w\<lparr>smw_semaphore := semaphore_abort i (smw_semaphore w)\<rparr>)"
| step_release: "i \<in> set (smw_holders w) \<Longrightarrow> semaphore_release (smw_semaphore w) = (s, served) \<Longrightarrow>
    semaphore_step w (w\<lparr>smw_semaphore := s, smw_permitted := smw_permitted w @ (case served of Some j \<Rightarrow> [j] | None \<Rightarrow> []),
      smw_holders := remove1 i (smw_holders w) @ (case served of Some j \<Rightarrow> [j] | None \<Rightarrow> [])\<rparr>)"

definition semaphore_ok :: "int \<Rightarrow> semaphore_world \<Rightarrow> bool" where
  "semaphore_ok permits w =
     (0 < permits \<and> sm_available (smw_semaphore w) + length (smw_holders w) = nat permits
      \<and> (sm_waiters (smw_semaphore w) \<noteq> [] \<longrightarrow> sm_available (smw_semaphore w) = 0)
      \<and> subseq (smw_permitted w @ sm_waiters (smw_semaphore w)) (smw_asked w) \<and> distinct (smw_asked w)
      \<and> set (smw_holders w) \<subseteq> set (smw_permitted w) \<and> distinct (smw_holders w))"

lemma subseq_remove_at: "subseq (xs @ ys) zs \<Longrightarrow> subseq (xs @ remove_at n ys) zs"
proof -
  have "subseq (drop (Suc n) ys) (drop n ys)" using suffix_drop [of 1 "drop n ys"] by (simp add: suffix_imp_subseq)
  then have "subseq (take n ys @ drop (Suc n) ys) (take n ys @ drop n ys)" by (intro list_emb_append_mono) auto
  then have "subseq (remove_at n ys) ys" by (simp add: remove_at_def)
  then show "subseq (xs @ ys) zs \<Longrightarrow> subseq (xs @ remove_at n ys) zs"
    by (meson list_emb_append_mono subseq_order.order_trans subseq_order.order_refl)
qed

lemma subseq_set: "subseq xs ys \<Longrightarrow> set xs \<subseteq> set ys"
  by (induction rule: list_emb.induct) auto

lemma subseq_distinct: "subseq xs ys \<Longrightarrow> distinct ys \<Longrightarrow> distinct xs"
  by (induction rule: list_emb.induct) (auto dest: subseq_set)

lemma semaphore_ok_run:
  assumes "semaphore_ok permits w" "i \<notin> set (smw_asked w)" "semaphore_acquire i aborted (smw_semaphore w) = (s, r)"
  shows "semaphore_ok permits (w\<lparr>smw_semaphore := s, smw_asked := smw_asked w @ [i],
      smw_permitted := smw_permitted w @ (if r = Permitted then [i] else []), smw_holders := smw_holders w @ (if r = Permitted then [i] else [])\<rparr>)"
proof -
  have "set (smw_holders w) \<subseteq> set (smw_asked w)"
    using assms(1) subseq_set [of "smw_permitted w @ sm_waiters (smw_semaphore w)" "smw_asked w"] by (auto simp: semaphore_ok_def)
  then show ?thesis
    using assms by (auto simp: semaphore_ok_def semaphore_acquire_def append_assoc [symmetric] simp del: append_assoc
        intro: list_emb_append_mono subseq_order.order_refl split: if_splits)
qed

lemma semaphore_ok_release:
  assumes "semaphore_ok permits w" "i \<in> set (smw_holders w)" "semaphore_release (smw_semaphore w) = (s, served)"
  shows "semaphore_ok permits (w\<lparr>smw_semaphore := s, smw_permitted := smw_permitted w @ (case served of Some j \<Rightarrow> [j] | None \<Rightarrow> []),
      smw_holders := remove1 i (smw_holders w) @ (case served of Some j \<Rightarrow> [j] | None \<Rightarrow> [])\<rparr>)"
proof -
  have d: "distinct (smw_permitted w @ sm_waiters (smw_semaphore w))" 
  proof (rule subseq_distinct)
    show "subseq (smw_permitted w @ sm_waiters (smw_semaphore w)) (smw_asked w)" "distinct (smw_asked w)"
      using assms(1) unfolding semaphore_ok_def by blast+
  qed
  have len: "Suc (length (remove1 i (smw_holders w))) = length (smw_holders w)"
    using assms(2) length_pos_if_in_set [OF assms(2)] by (simp add: length_remove1)
  have ok: "0 < permits" "sm_available (smw_semaphore w) + length (smw_holders w) = nat permits" "distinct (smw_asked w)"
    "sm_waiters (smw_semaphore w) \<noteq> [] \<longrightarrow> sm_available (smw_semaphore w) = 0"
    "subseq (smw_permitted w @ sm_waiters (smw_semaphore w)) (smw_asked w)" "set (smw_holders w) \<subseteq> set (smw_permitted w)" "distinct (smw_holders w)"
    using assms(1) by (simp_all add: semaphore_ok_def)
  have held: "set (remove1 i (smw_holders w)) \<subseteq> set (smw_permitted w)" "distinct (remove1 i (smw_holders w))"
    using ok(6,7) set_remove1_subset [of i "smw_holders w"] by auto
  show ?thesis
  proof (cases "sm_waiters (smw_semaphore w)")
    case Nil
    then have "s = (smw_semaphore w)\<lparr>sm_available := sm_available (smw_semaphore w) + 1\<rparr>" "served = None"
      using assms(3) by (simp_all add: semaphore_release_def)
    then show ?thesis using ok held Nil by (simp add: semaphore_ok_def len [symmetric])
  next
    case (Cons j js)
    then have s: "s = (smw_semaphore w)\<lparr>sm_waiters := js\<rparr>" "served = Some j" using assms(3) by (simp_all add: semaphore_release_def)
    have "j \<notin> set (remove1 i (smw_holders w))" using d held(1) Cons by auto
    then show ?thesis using ok held Cons by (auto simp: semaphore_ok_def s len [symmetric])
  qed
qed

interpretation semaphore: invariant_machine "semaphore_start permits" semaphore_step "semaphore_ok permits" for permits
proof
  fix w assume "semaphore_start permits w"
  then show "semaphore_ok permits w" by (auto simp: semaphore_start_def new_semaphore_def semaphore_ok_def split: if_splits)
next
  fix w v assume ok: "semaphore_ok permits w" and "semaphore_step w v"
  from this(2) show "semaphore_ok permits v"
  proof cases
    case (step_abort i)
    then show ?thesis
      using ok by (auto simp: semaphore_ok_def semaphore_abort_def intro: subseq_remove_at split: option.splits)
  qed (use ok semaphore_ok_run semaphore_ok_release in auto)
qed

text \<open>
  C27: a semaphore bounds concurrency and is fair. Never more than the permitted number of tasks hold
  a permit and none is lost: as many are free as are not held, and none is free while a task waits.
  Tasks get permits in the order in which they asked, except those that were aborted, and every
  release serves the task that waits longest.
\<close>
theorem semaphore_fair:
  assumes "reach (semaphore_start permits) semaphore_step w"
  shows "sm_available (smw_semaphore w) + length (smw_holders w) = nat permits \<and> distinct (smw_holders w)
    \<and> subseq (smw_permitted w @ sm_waiters (smw_semaphore w)) (smw_asked w)
    \<and> (\<forall>i \<in> set (sm_waiters (smw_semaphore w)). smw_holders w \<noteq> []
         \<and> snd (semaphore_release (smw_semaphore w)) = Some (hd (sm_waiters (smw_semaphore w))))"
proof -
  have ok: "semaphore_ok permits w" using assms by (rule semaphore.inv_reach)
  then show ?thesis by (auto simp: semaphore_ok_def semaphore_release_def split: list.splits)
qed

lemma semaphore_fair_witness:
  "\<exists>w. reach (semaphore_start 1) semaphore_step w \<and> smw_holders w = [5] \<and> sm_waiters (smw_semaphore w) = [6]
     \<and> snd (semaphore_release (smw_semaphore w)) = Some 6"
proof -
  let ?w = "\<lparr>smw_semaphore = \<lparr>sm_available = 1, sm_waiters = []\<rparr>, smw_asked = [], smw_permitted = [], smw_holders = []\<rparr>"
  let ?v = "\<lparr>smw_semaphore = \<lparr>sm_available = 0, sm_waiters = []\<rparr>, smw_asked = [5], smw_permitted = [5], smw_holders = [5]\<rparr>"
  let ?u = "\<lparr>smw_semaphore = \<lparr>sm_available = 0, sm_waiters = [6]\<rparr>, smw_asked = [5, 6], smw_permitted = [5], smw_holders = [5]\<rparr>"
  have "reach (semaphore_start 1) semaphore_step ?w" by (rule reach_init) (simp add: semaphore_start_def new_semaphore_def)
  moreover have "semaphore_step ?w ?v" using step_run [of 5 ?w False] by (simp add: semaphore_acquire_def)
  moreover have "semaphore_step ?v ?u" using step_run [of 6 ?v False] by (simp add: semaphore_acquire_def)
  ultimately have u: "reach (semaphore_start 1) semaphore_step ?u" by (metis reach_step)
  then show ?thesis using semaphore_fair [OF u] by (intro exI [of _ ?u]) simp
qed

section \<open>The drain latch\<close>

text \<open>
  A task that waits for the drain: about to look at the counter, in the set of waiters, woken, or
  returned or thrown. \<open>dl_remaining\<close> and \<open>dl_aborted\<close> are what each was called with.
\<close>

datatype drain_task = Looking | Parked | Woken | Drained | Threw

record drain_latch =
  dl_active :: int
  dl_task :: "nat \<Rightarrow> drain_task option"
  dl_remaining :: "nat \<Rightarrow> int"
  dl_aborted :: "nat \<Rightarrow> bool"

definition latch_begin :: "drain_latch \<Rightarrow> drain_latch" where
  "latch_begin s = s\<lparr>dl_active := dl_active s + 1\<rparr>"

definition latch_end :: "drain_latch \<Rightarrow> drain_latch" where
  "latch_end s = s\<lparr>dl_active := dl_active s - 1, dl_task := (\<lambda>i. if dl_task s i = Some Parked then Some Woken else dl_task s i)\<rparr>"

text \<open>The loop from its test to the next \<open>await\<close> or the return.\<close>

definition latch_look :: "nat \<Rightarrow> drain_latch \<Rightarrow> drain_latch" where
  "latch_look i s = s\<lparr>dl_task := (dl_task s)(i \<mapsto> (if dl_active s > dl_remaining s i then Parked else Drained))\<rparr>"

definition waitForDrain :: "nat \<Rightarrow> int \<Rightarrow> bool \<Rightarrow> drain_latch \<Rightarrow> drain_latch" where
  "waitForDrain i remaining aborted s =
     (let s1 = s\<lparr>dl_remaining := (dl_remaining s)(i := remaining), dl_aborted := (dl_aborted s)(i := aborted)\<rparr>
      in if aborted then s1\<lparr>dl_task := (dl_task s1)(i \<mapsto> Threw)\<rparr> else latch_look i s1)"

text \<open>The signal of a task; a parked task is rejected and leaves the waiters.\<close>

definition latch_abort :: "nat \<Rightarrow> drain_latch \<Rightarrow> drain_latch" where
  "latch_abort i s = s\<lparr>dl_aborted := (dl_aborted s)(i := True),
     dl_task := (if dl_task s i = Some Parked then (dl_task s)(i \<mapsto> Threw) else dl_task s)\<rparr>"

definition latch_resume :: "nat \<Rightarrow> drain_latch \<Rightarrow> drain_latch" where
  "latch_resume i s = (if dl_aborted s i then s\<lparr>dl_task := (dl_task s)(i \<mapsto> Threw)\<rparr> else latch_look i s)"

definition new_latch :: drain_latch where
  "new_latch = \<lparr>dl_active = 0, dl_task = (\<lambda>i. None), dl_remaining = (\<lambda>i. 0), dl_aborted = (\<lambda>i. False)\<rparr>"

inductive latch_step :: "drain_latch \<Rightarrow> drain_latch \<Rightarrow> bool" where
  latch_begins: "latch_step s (latch_begin s)"
| latch_ends: "latch_step s (latch_end s)"
| latch_waits: "dl_task s i = None \<Longrightarrow> latch_step s (waitForDrain i remaining aborted s)"
| latch_aborts: "dl_task s i \<noteq> None \<Longrightarrow> latch_step s (latch_abort i s)"
| latch_resumes: "dl_task s i = Some Woken \<Longrightarrow> latch_step s (latch_resume i s)"

definition latch_ok :: "drain_latch \<Rightarrow> bool" where
  "latch_ok s = (\<forall>i. dl_task s i = Some Parked \<longrightarrow> dl_active s > dl_remaining s i \<and> \<not> dl_aborted s i)"

interpretation latch: invariant_machine "\<lambda>s. s = new_latch" latch_step latch_ok
proof
  show "s = new_latch \<Longrightarrow> latch_ok s" for s by (simp add: latch_ok_def new_latch_def)
next
  fix s t assume ok: "latch_ok s" and "latch_step s t"
  from this(2) show "latch_ok t"
    by cases (use ok in \<open>auto simp: latch_ok_def latch_begin_def latch_end_def waitForDrain_def latch_look_def latch_abort_def latch_resume_def Let_def\<close>)
qed

text \<open>
  No wakeup of the latch is lost: a task is parked only while more commands are active than it waits
  for, so it has been woken by the time it could return, and it returns only when they are drained.
\<close>

lemma latch_no_lost_wakeup:
  assumes "reach (\<lambda>s. s = new_latch) latch_step s" "dl_active s \<le> dl_remaining s i"
  shows "dl_task s i \<noteq> Some Parked"
    "dl_task s i = Some Woken \<Longrightarrow> \<not> dl_aborted s i \<Longrightarrow> dl_task (latch_resume i s) i = Some Drained"
  using latch.inv_reach [OF assms(1)] assms(2) by (auto simp: latch_ok_def latch_resume_def latch_look_def)

section \<open>The queue of mutations of a file\<close>

text \<open>
  Each operation adds a promise to the chain of its file. \<open>mq_chain\<close> is the map of the chains, each
  the promise of an operation; \<open>mq_previous\<close> is the promise an operation waits for, None for one that
  is resolved already; \<open>mq_released\<close> are the operations that called \<open>releaseNext\<close>, \<open>mq_settled\<close> those whose
  chained promise is resolved.
\<close>

record mutation_queues =
  mq_next :: nat
  mq_chain :: "string \<Rightarrow> nat option"
  mq_key :: "nat \<Rightarrow> string"
  mq_previous :: "nat \<Rightarrow> nat option"
  mq_started :: "nat set"
  mq_released :: "nat set"
  mq_settled :: "nat set"

definition new_queues :: mutation_queues where
  "new_queues = \<lparr>mq_next = 0, mq_chain = (\<lambda>k. None), mq_key = (\<lambda>i. []), mq_previous = (\<lambda>i. None), mq_started = {}, mq_released = {}, mq_settled = {}\<rparr>"

text \<open>\<open>withFileMutationQueue\<close> up to its \<open>await\<close>, for the key its file has then.\<close>

definition queue_mutation :: "string \<Rightarrow> mutation_queues \<Rightarrow> mutation_queues" where
  "queue_mutation key s =
     s\<lparr>mq_next := Suc (mq_next s), mq_key := (mq_key s)(mq_next s := key), mq_previous := (mq_previous s)(mq_next s := mq_chain s key),
       mq_chain := (mq_chain s)(key \<mapsto> mq_next s)\<rparr>"

definition previous_settled :: "nat \<Rightarrow> mutation_queues \<Rightarrow> bool" where
  "previous_settled i s = (case mq_previous s i of None \<Rightarrow> True | Some p \<Rightarrow> p \<in> mq_settled s)"

definition start_mutation :: "nat \<Rightarrow> mutation_queues \<Rightarrow> mutation_queues" where
  "start_mutation i s = s\<lparr>mq_started := insert i (mq_started s)\<rparr>"

text \<open>The \<open>finally\<close> block.\<close>

definition release_mutation :: "nat \<Rightarrow> mutation_queues \<Rightarrow> mutation_queues" where
  "release_mutation i s =
     s\<lparr>mq_released := insert i (mq_released s),
       mq_chain := (if mq_chain s (mq_key s i) = Some i then (mq_chain s)(mq_key s i := None) else mq_chain s)\<rparr>"

text \<open>\<open>currentQueue.then(() => nextQueue)\<close> is resolved after both.\<close>

definition settle_chain :: "nat \<Rightarrow> mutation_queues \<Rightarrow> mutation_queues" where
  "settle_chain i s = s\<lparr>mq_settled := insert i (mq_settled s)\<rparr>"

inductive mutation_step :: "mutation_queues \<Rightarrow> mutation_queues \<Rightarrow> bool" where
  mutation_queued: "mutation_step s (queue_mutation key s)"
| mutation_starts: "i < mq_next s \<Longrightarrow> i \<notin> mq_started s \<Longrightarrow> previous_settled i s \<Longrightarrow> mutation_step s (start_mutation i s)"
| mutation_ends: "i \<in> mq_started s \<Longrightarrow> i \<notin> mq_released s \<Longrightarrow> mutation_step s (release_mutation i s)"
| chain_settles: "i \<in> mq_released s \<Longrightarrow> previous_settled i s \<Longrightarrow> mutation_step s (settle_chain i s)"

definition earlier_released :: "nat \<Rightarrow> mutation_queues \<Rightarrow> bool" where
  "earlier_released i s = (\<forall>j < i. mq_key s j = mq_key s i \<longrightarrow> j \<in> mq_released s)"

text \<open>Operations run and end in order; chains end with the last operation of their file; each operation follows the one before it.\<close>

definition ids_ok :: "mutation_queues \<Rightarrow> bool" where
  "ids_ok s = (mq_started s \<subseteq> {..<mq_next s} \<and> mq_released s \<subseteq> mq_started s \<and> mq_settled s \<subseteq> mq_released s)"

definition chain_ok :: "string \<Rightarrow> mutation_queues \<Rightarrow> bool" where
  "chain_ok k s = (case mq_chain s k of
       Some t \<Rightarrow> t < mq_next s \<and> mq_key s t = k \<and> (\<forall>j < mq_next s. mq_key s j = k \<longrightarrow> j \<le> t)
     | None \<Rightarrow> \<forall>j < mq_next s. mq_key s j = k \<longrightarrow> j \<in> mq_released s)"

definition previous_ok :: "nat \<Rightarrow> mutation_queues \<Rightarrow> bool" where
  "previous_ok i s = (case mq_previous s i of
       None \<Rightarrow> earlier_released i s
     | Some p \<Rightarrow> p < i \<and> mq_key s p = mq_key s i \<and> (\<forall>j < i. mq_key s j = mq_key s i \<longrightarrow> j \<le> p))"

definition mutations_ok :: "mutation_queues \<Rightarrow> bool" where
  "mutations_ok s = (ids_ok s \<and> (\<forall>k. chain_ok k s) \<and> (\<forall>i < mq_next s. previous_ok i s) \<and> (\<forall>i \<in> mq_started s. earlier_released i s))"

lemma previous_released:
  assumes "mutations_ok s" "i < mq_next s" "previous_settled i s"
  shows "earlier_released i s"
proof (cases "mq_previous s i")
  case None
  then show ?thesis using assms by (auto simp: mutations_ok_def previous_ok_def)
next
  case (Some p)
  have "previous_ok i s" using assms(1,2) by (simp add: mutations_ok_def)
  then have p: "p < i" "mq_key s p = mq_key s i" "\<And>j. j < i \<Longrightarrow> mq_key s j = mq_key s i \<Longrightarrow> j \<le> p" by (auto simp: previous_ok_def Some)
  have "p \<in> mq_settled s" using assms(3) by (simp add: previous_settled_def Some)
  then have "p \<in> mq_released s" "earlier_released p s" using assms(1) by (auto simp: mutations_ok_def ids_ok_def)
  then show ?thesis using p unfolding earlier_released_def by (metis le_neq_implies_less)
qed

lemma mutations_ok_queued:
  assumes "mutations_ok s"
  shows "mutations_ok (queue_mutation key s)"
proof -
  let ?n = "mq_next s" and ?t = "queue_mutation key s"
  have key: "mq_key ?t j = mq_key s j" if "j < ?n" for j using that by (simp add: queue_mutation_def)
  have rel: "mq_released ?t = mq_released s" "mq_started ?t = mq_started s" "mq_settled ?t = mq_settled s" "mq_next ?t = Suc ?n" "mq_key ?t ?n = key"
    by (simp_all add: queue_mutation_def)
  have ids: "ids_ok s" and ch: "chain_ok k s" and pr: "i < ?n \<Longrightarrow> previous_ok i s" and st: "i \<in> mq_started s \<Longrightarrow> earlier_released i s" for i k
    using assms by (auto simp: mutations_ok_def)
  have er: "earlier_released i ?t" if "i < ?n" "earlier_released i s" for i
    using that key by (auto simp: earlier_released_def rel)
  have "chain_ok k ?t" for k
  proof (cases "k = key")
    case True
    then show ?thesis by (auto simp: chain_ok_def queue_mutation_def)
  next
    case False
    then show ?thesis using ch [of k] by (auto simp: chain_ok_def queue_mutation_def less_Suc_eq split: option.splits)
  qed
  moreover have "previous_ok i ?t" if "i < Suc ?n" for i
  proof (cases "i = ?n")
    case True
    then show ?thesis using ch [of key] by (auto simp: previous_ok_def chain_ok_def earlier_released_def queue_mutation_def split: option.splits)
  next
    case False
    then have "i < ?n" using that by simp
    then show ?thesis using pr [of i] er [of i] key by (auto simp: previous_ok_def queue_mutation_def split: option.splits)
  qed
  moreover have "earlier_released i ?t" if "i \<in> mq_started s" for i
    using that st ids by (intro er) (auto simp: ids_ok_def)
  moreover have "ids_ok ?t" using ids by (auto simp: ids_ok_def rel)
  ultimately show ?thesis by (simp add: mutations_ok_def rel)
qed

lemma mutation_ok_same [simp]:
  "earlier_released j (start_mutation i s) = earlier_released j s" "earlier_released j (settle_chain i s) = earlier_released j s"
  "chain_ok k (start_mutation i s) = chain_ok k s" "chain_ok k (settle_chain i s) = chain_ok k s"
  "previous_ok j (start_mutation i s) = previous_ok j s" "previous_ok j (settle_chain i s) = previous_ok j s"
  by (simp_all add: earlier_released_def chain_ok_def previous_ok_def start_mutation_def settle_chain_def cong: option.case_cong)

lemma mutations_ok_step:
  assumes "mutations_ok s" "mutation_step s t"
  shows "mutations_ok t"
  using assms(2)
proof cases
  case (mutation_queued key)
  then show ?thesis using assms(1) mutations_ok_queued by simp
next
  case (mutation_starts i)
  have "earlier_released i s" by (rule previous_released [OF assms(1) mutation_starts(2,4)])
  then show ?thesis
    using assms(1) mutation_starts(2)
    by (auto simp: mutation_starts(1) mutations_ok_def) (auto simp: start_mutation_def ids_ok_def)
next
  case (mutation_ends i)
  let ?t = "release_mutation i s"
  have ids: "ids_ok s" and ch: "chain_ok k s" and pr: "j < mq_next s \<Longrightarrow> previous_ok j s" and st: "j \<in> mq_started s \<Longrightarrow> earlier_released j s" for j k
    using assms(1) by (auto simp: mutations_ok_def)
  have er: "earlier_released j ?t" if "earlier_released j s" for j using that by (auto simp: earlier_released_def release_mutation_def)
  have i: "earlier_released i s" using st mutation_ends(2) by simp
  have "chain_ok k ?t" for k
  proof (cases "k = mq_key s i \<and> mq_chain s k = Some i")
    case True
    then have "j \<le> i" if "j < mq_next s" "mq_key s j = k" for j using ch [of k] that by (auto simp: chain_ok_def)
    then have "j \<in> insert i (mq_released s)" if "j < mq_next s" "mq_key s j = k" for j
      using i True that by (metis earlier_released_def insertCI le_neq_implies_less)
    moreover have "mq_chain ?t k = None" using True by (auto simp: release_mutation_def)
    ultimately show ?thesis by (simp add: chain_ok_def) (simp add: release_mutation_def)
  next
    case False
    then have "mq_chain ?t k = mq_chain s k" by (auto simp: release_mutation_def)
    then show ?thesis using ch [of k] by (auto simp: chain_ok_def release_mutation_def split: option.splits)
  qed
  moreover have "previous_ok j ?t" if "j < mq_next s" for j
    using pr [OF that] er [of j] by (auto simp: previous_ok_def release_mutation_def split: option.splits)
  moreover have "ids_ok ?t" using ids mutation_ends(2) by (auto simp: ids_ok_def release_mutation_def)
  ultimately show ?thesis using st er unfolding mutation_ends(1) mutations_ok_def by (simp add: release_mutation_def)
next
  case (chain_settles i)
  then show ?thesis
    using assms(1) by (auto simp: mutations_ok_def) (auto simp: settle_chain_def ids_ok_def)
qed

interpretation mutations: invariant_machine "\<lambda>s. s = new_queues" mutation_step mutations_ok
proof
  show "s = new_queues \<Longrightarrow> mutations_ok s" for s
    by (simp add: mutations_ok_def ids_ok_def chain_ok_def new_queues_def)
qed (rule mutations_ok_step)

text \<open>
  C28: mutations of a file never overlap and run in the order in which they were asked for. When an
  operation has started, all earlier ones for its file have ended, whatever runs for other files;
  the chain of a file is removed only when nothing for it is left.
\<close>
theorem mutations_of_a_file_in_order:
  assumes "reach (\<lambda>s. s = new_queues) mutation_step s"
  shows "(\<forall>j \<in> mq_started s. \<forall>i < j. mq_key s i = mq_key s j \<longrightarrow> i \<in> mq_started s \<and> i \<in> mq_released s)
    \<and> (\<forall>i < mq_next s. mq_chain s (mq_key s i) = None \<longrightarrow> i \<in> mq_released s)"
proof -
  have ok: "mutations_ok s" using assms by (rule mutations.inv_reach)
  have "i \<in> mq_released s" if "i < mq_next s" "mq_chain s (mq_key s i) = None" for i
  proof -
    have "chain_ok (mq_key s i) s" using ok by (simp add: mutations_ok_def)
    then show ?thesis using that by (simp add: chain_ok_def)
  qed
  then show ?thesis using ok by (auto simp: mutations_ok_def ids_ok_def earlier_released_def)
qed

lemma mutations_of_a_file_in_order_witness:
  "\<exists>s. reach (\<lambda>s. s = new_queues) mutation_step s \<and> 1 \<in> mq_started s \<and> 0 \<in> mq_released s \<and> mq_key s 0 = ''a'' \<and> mq_key s 1 = ''a''"
proof -
  let ?a = "queue_mutation ''a'' new_queues"
  let ?b = "queue_mutation ''a'' ?a"
  let ?d = "settle_chain 0 (release_mutation 0 (start_mutation 0 ?b))"
  let ?e = "start_mutation 1 ?d"
  have "reach (\<lambda>s. s = new_queues) mutation_step new_queues" by (rule reach_init) simp
  then have "reach (\<lambda>s. s = new_queues) mutation_step ?a" by (rule reach_step) (rule mutation_queued)
  then have "reach (\<lambda>s. s = new_queues) mutation_step ?b" by (rule reach_step) (rule mutation_queued)
  then have "reach (\<lambda>s. s = new_queues) mutation_step (start_mutation 0 ?b)"
    by (rule reach_step) (rule mutation_starts, simp_all add: queue_mutation_def new_queues_def previous_settled_def)
  then have "reach (\<lambda>s. s = new_queues) mutation_step (release_mutation 0 (start_mutation 0 ?b))"
    by (rule reach_step) (rule mutation_ends, simp_all add: start_mutation_def queue_mutation_def new_queues_def)
  then have "reach (\<lambda>s. s = new_queues) mutation_step ?d"
    by (rule reach_step) (rule chain_settles, simp_all add: release_mutation_def start_mutation_def queue_mutation_def new_queues_def previous_settled_def)
  then have e: "reach (\<lambda>s. s = new_queues) mutation_step ?e"
    by (rule reach_step) (rule mutation_starts, simp_all add: settle_chain_def release_mutation_def start_mutation_def queue_mutation_def new_queues_def previous_settled_def)
  have k: "1 \<in> mq_started ?e" "mq_key ?e 0 = mq_key ?e 1" "mq_key ?e 0 = ''a''" "mq_key ?e 1 = ''a''"
    by (simp_all add: settle_chain_def release_mutation_def start_mutation_def queue_mutation_def new_queues_def)
  then have "0 \<in> mq_released ?e" using mutations_of_a_file_in_order [OF e] by (metis less_numeral_extra(1))
  with e k show ?thesis by blast
qed

end
