(* ===== verification/Stdin_Buffer.thy ===== *)
theory Stdin_Buffer
  imports Edit_Diff
begin

text \<open>
  The input of the terminal, \<open>tui/src/stdin-buffer.ts\<close>: chunks of it are cut into keys and escape
  sequences, unfinished sequences are held back for a moment, and pastes become one event. Strings are
  lists of UTF-16 code units. What is emitted does not depend on how the terminal cuts the input.
\<close>

section \<open>Strings of code units\<close>

abbreviation ESC :: nat where "ESC \<equiv> 27"

definition BRACKETED_PASTE_START :: code_units where
  "BRACKETED_PASTE_START = [27, 91, 50, 48, 48, 126]"

definition BRACKETED_PASTE_END :: code_units where
  "BRACKETED_PASTE_END = [27, 91, 50, 48, 49, 126]"

text \<open>\<open>endsWith\<close>; \<open>startsWith\<close> is \<^const>\<open>prefix\<close> with its arguments swapped.\<close>

definition ends_with :: "code_units \<Rightarrow> code_units \<Rightarrow> bool" where
  "ends_with s p = prefix (rev p) (rev s)"

definition is_digit_unit :: "nat \<Rightarrow> bool" where
  "is_digit_unit c = (48 \<le> c \<and> c \<le> 57)"

text \<open>\<open>parseInt(ds, 10)\<close> of a string of digits, which the source compares with code units only.\<close>

definition digits_value :: "code_units \<Rightarrow> nat" where
  "digits_value ds = foldl (\<lambda>n d. 10 * n + (d - 48)) 0 ds"

text \<open>\<open>split(c)\<close> at one code unit.\<close>

fun split_unit :: "nat \<Rightarrow> code_units \<Rightarrow> code_units list" where
  "split_unit c [] = [[]]"
| "split_unit c (d # ds) =
     (if d = c then [] # split_unit c ds
      else (case split_unit c ds of [] \<Rightarrow> [[d]] | p # ps \<Rightarrow> (d # p) # ps))"

section \<open>Escape sequences\<close>

datatype seq_status = Complete | Incomplete | Not_Escape

text \<open>
  \<open>/^<\d+;\d+;\d+[Mm]$/\<close>. The classes of neighbouring parts are disjoint, so that each repetition
  takes all it can.
\<close>

definition mouse_payload :: "code_units \<Rightarrow> bool" where
  "mouse_payload p =
     (case p of [] \<Rightarrow> False | c # a \<Rightarrow>
       (let b = dropWhile is_digit_unit a in
        c = 60 \<and> takeWhile is_digit_unit a \<noteq> [] \<and>
        (case b of [] \<Rightarrow> False | d # e \<Rightarrow>
          (let f = dropWhile is_digit_unit e in
           d = 59 \<and> takeWhile is_digit_unit e \<noteq> [] \<and>
           (case f of [] \<Rightarrow> False | g # h \<Rightarrow>
             (let i = dropWhile is_digit_unit h in
              g = 59 \<and> takeWhile is_digit_unit h \<noteq> [] \<and> (i = [77] \<or> i = [109])))))))"

definition isCompleteCsiSequence :: "code_units \<Rightarrow> seq_status" where
  "isCompleteCsiSequence data =
     (if \<not> prefix [ESC, 91] data then Complete
      else if length data < 3 then Incomplete
      else let payload = drop 2 data; lastChar = last payload in
        if 64 \<le> lastChar \<and> lastChar \<le> 126 then
          if prefix [60] payload then
            if mouse_payload payload then Complete
            else if (lastChar = 77 \<or> lastChar = 109)
                 \<and> (let parts = split_unit 59 (butlast (tl payload)) in
                    length parts = 3 \<and> list_all (\<lambda>p. p \<noteq> [] \<and> list_all is_digit_unit p) parts)
            then Complete
            else Incomplete
          else Complete
        else Incomplete)"

definition isCompleteOscSequence :: "code_units \<Rightarrow> seq_status" where
  "isCompleteOscSequence data =
     (if \<not> prefix [ESC, 93] data then Complete
      else if ends_with data [ESC, 92] \<or> ends_with data [7] then Complete
      else Incomplete)"

definition isCompleteDcsSequence :: "code_units \<Rightarrow> seq_status" where
  "isCompleteDcsSequence data =
     (if \<not> prefix [ESC, 80] data then Complete
      else if ends_with data [ESC, 92] then Complete
      else Incomplete)"

definition isCompleteApcSequence :: "code_units \<Rightarrow> seq_status" where
  "isCompleteApcSequence data =
     (if \<not> prefix [ESC, 95] data then Complete
      else if ends_with data [ESC, 92] then Complete
      else Incomplete)"

definition isCompleteSequence :: "code_units \<Rightarrow> seq_status" where
  "isCompleteSequence data =
     (if \<not> prefix [ESC] data then Not_Escape
      else if length data = 1 then Incomplete
      else let afterEsc = drop 1 data in
        if prefix [91] afterEsc then
          if prefix [91, 77] afterEsc then if 6 \<le> length data then Complete else Incomplete
          else isCompleteCsiSequence data
        else if prefix [93] afterEsc then isCompleteOscSequence data
        else if prefix [80] afterEsc then isCompleteDcsSequence data
        else if prefix [95] afterEsc then isCompleteApcSequence data
        else if prefix [79] afterEsc then if 2 \<le> length afterEsc then Complete else Incomplete
        else if length afterEsc = 1 then Complete
        else Complete)"

text \<open>\<open>/^\x1b\[(\d+)(?::\d*)?(?::\d+)?u$/\<close>: the first option may stand for the second, not the other way round.\<close>

definition parseUnmodifiedKittyPrintableCodepoint :: "code_units \<Rightarrow> nat option" where
  "parseUnmodifiedKittyPrintableCodepoint sequence =
     (if \<not> prefix [ESC, 91] sequence then None
      else let ds = takeWhile is_digit_unit (drop 2 sequence);
               a = dropWhile is_digit_unit (drop 2 sequence);
               b = (if prefix [58] a then dropWhile is_digit_unit (tl a) else a);
               c = (if prefix [58] b \<and> takeWhile is_digit_unit (tl b) \<noteq> []
                    then dropWhile is_digit_unit (tl b) else b)
           in if ds \<noteq> [] \<and> c = [117] \<and> 32 \<le> digits_value ds then Some (digits_value ds) else None)"

definition is_line_end_unit :: "nat \<Rightarrow> bool" where
  "is_line_end_unit c = (c = 10 \<or> c = 13)"

text \<open>\<open>/[^\r\n][\r\n]+[^\r\n]/.test(data)\<close>: after the first other unit there are line ends, and then another unit.\<close>

definition isRawMultilinePaste :: "code_units \<Rightarrow> bool" where
  "isRawMultilinePaste data =
     (if ESC \<in> set data then False
      else dropWhile is_line_end_unit
             (dropWhile (\<lambda>c. \<not> is_line_end_unit c) (dropWhile is_line_end_unit data)) \<noteq> [])"

section \<open>Cutting a buffer into sequences\<close>

text \<open>
  The inner loop: \<open>candidate\<close> is the part of \<open>remaining\<close> before \<open>seqEnd\<close>. None is a loop that ran past the end.
\<close>

fun scan_sequence :: "code_units \<Rightarrow> code_units \<Rightarrow> (code_units \<times> code_units) option" where
  "scan_sequence candidate [] = None"
| "scan_sequence candidate (c # rest) =
     (if isCompleteSequence (candidate @ [c]) = Incomplete then scan_sequence (candidate @ [c]) rest
      else Some (candidate @ [c], rest))"


lemma scan_sequence_shorter: "scan_sequence cand xs = Some (s, rest) \<Longrightarrow> length rest < length xs"
  by (induction cand xs rule: scan_sequence.induct) (auto split: if_splits)

function extractCompleteSequences :: "code_units \<Rightarrow> code_units list \<times> code_units" where
  "extractCompleteSequences [] = ([], [])"
| "extractCompleteSequences (c # cs) =
     (if prefix [ESC] (c # cs) then
        (case scan_sequence [] (c # cs) of
           None \<Rightarrow> ([], c # cs)
         | Some (candidate, rest) \<Rightarrow>
             (let (sequences, remainder) = extractCompleteSequences rest in (candidate # sequences, remainder)))
      else (let (sequences, remainder) = extractCompleteSequences cs in ([c] # sequences, remainder)))"
  by pat_completeness auto
termination
  by (relation "measure length") (auto dest!: scan_sequence_shorter simp del: scan_sequence.simps)

section \<open>The buffer\<close>

text \<open>\<open>sb_timeout\<close> says whether a timer is set. The events are what the listeners of \<open>data\<close> and \<open>paste\<close> get.\<close>

record stdin_buffer =
  sb_buffer :: code_units
  sb_timeout :: bool
  sb_pasteMode :: bool
  sb_pasteBuffer :: code_units
  sb_pendingKittyPrintableCodepoint :: "nat option"

datatype stdin_event = Data_Event code_units | Paste_Event code_units

definition new_stdin_buffer :: stdin_buffer where
  "new_stdin_buffer = \<lparr>sb_buffer = [], sb_timeout = False, sb_pasteMode = False, sb_pasteBuffer = [],
     sb_pendingKittyPrintableCodepoint = None\<rparr>"

text \<open>\<open>codePointAt(0)\<close> of a string of one unit is that unit.\<close>

definition emitDataSequence :: "code_units \<Rightarrow> stdin_buffer \<Rightarrow> stdin_event list \<times> stdin_buffer" where
  "emitDataSequence sequence s =
     (let rawCodepoint = (if length sequence = 1 then Some (hd sequence) else None) in
      if rawCodepoint \<noteq> None \<and> rawCodepoint = sb_pendingKittyPrintableCodepoint s
      then ([], s\<lparr>sb_pendingKittyPrintableCodepoint := None\<rparr>)
      else ([Data_Event sequence],
            s\<lparr>sb_pendingKittyPrintableCodepoint := parseUnmodifiedKittyPrintableCodepoint sequence\<rparr>))"

fun emit_sequences :: "code_units list \<Rightarrow> stdin_buffer \<Rightarrow> stdin_event list \<times> stdin_buffer" where
  "emit_sequences [] s = ([], s)"
| "emit_sequences (x # xs) s =
     (let (es, s1) = emitDataSequence x s; (es', s2) = emit_sequences xs s1 in (es @ es', s2))"

text \<open>The chunks a listener of \<open>stdin\<close> is given; \<open>to_string\<close> is \<open>Buffer.toString\<close>.\<close>

datatype stdin_chunk = String_Chunk code_units | Buffer_Chunk "nat list"

definition chunk_string :: "(nat list \<Rightarrow> code_units) \<Rightarrow> stdin_chunk \<Rightarrow> code_units" where
  "chunk_string to_string data =
     (case data of
        Buffer_Chunk bs \<Rightarrow> if length bs = 1 \<and> hd bs > 127 then [ESC, hd bs - 128] else to_string bs
      | String_Chunk str \<Rightarrow> str)"

text \<open>
  \<open>process\<close> up to where the end of a paste is looked for: in a paste the buffer goes to the paste, the
  start of a paste begins one, and otherwise the buffer is emitted, as a paste or cut into sequences.
\<close>

definition begin_paste :: "nat \<Rightarrow> stdin_buffer \<Rightarrow> stdin_event list \<times> stdin_buffer" where
  "begin_paste startIndex s =
     (let (es, s1) = (if startIndex > 0
                      then emit_sequences (fst (extractCompleteSequences (take startIndex (sb_buffer s)))) s
                      else ([], s))
      in (es, s1\<lparr>sb_pendingKittyPrintableCodepoint := None, sb_pasteMode := True,
            sb_pasteBuffer := drop (startIndex + length BRACKETED_PASTE_START) (sb_buffer s1), sb_buffer := []\<rparr>))"

definition emit_buffer :: "stdin_buffer \<Rightarrow> stdin_event list \<times> stdin_buffer" where
  "emit_buffer s =
     (if isRawMultilinePaste (sb_buffer s)
      then ([Paste_Event (sb_buffer s)], s\<lparr>sb_buffer := [], sb_pendingKittyPrintableCodepoint := None\<rparr>)
      else let (sequences, remainder) = extractCompleteSequences (sb_buffer s);
               (es, s1) = emit_sequences sequences (s\<lparr>sb_buffer := remainder\<rparr>)
           in (es, s1\<lparr>sb_timeout := sb_timeout s1 \<or> sb_buffer s1 \<noteq> []\<rparr>))"

definition take_in :: "code_units \<Rightarrow> stdin_buffer \<Rightarrow> stdin_event list \<times> stdin_buffer" where
  "take_in str s0 =
     (let s = s0\<lparr>sb_timeout := False, sb_buffer := sb_buffer s0 @ str\<rparr> in
      if sb_pasteMode s then ([], s\<lparr>sb_pasteBuffer := sb_pasteBuffer s @ sb_buffer s, sb_buffer := []\<rparr>)
      else (case indexOf (sb_buffer s) BRACKETED_PASTE_START of
          Some startIndex \<Rightarrow> begin_paste startIndex s
        | None \<Rightarrow> emit_buffer s))"

text \<open>The content of a paste that has ended, what follows it, and the state left.\<close>

definition end_paste :: "stdin_buffer \<Rightarrow> (code_units \<times> code_units \<times> stdin_buffer) option" where
  "end_paste s =
     (if \<not> sb_pasteMode s then None
      else (case indexOf (sb_pasteBuffer s) BRACKETED_PASTE_END of
          None \<Rightarrow> None
        | Some endIndex \<Rightarrow>
            Some (take endIndex (sb_pasteBuffer s),
                  drop (endIndex + length BRACKETED_PASTE_END) (sb_pasteBuffer s),
                  s\<lparr>sb_pasteMode := False, sb_pasteBuffer := [], sb_pendingKittyPrintableCodepoint := None\<rparr>)))"

lemma indexOf_bound: "indexOf s p = Some i \<Longrightarrow> i + length p \<le> length s"
  by (induction s arbitrary: i) (auto split: if_splits dest: prefix_length_le)

lemma end_paste_shorter:
  "end_paste s = Some (content, remaining, t) \<Longrightarrow> length remaining < length (sb_pasteBuffer s)"
  by (auto simp: end_paste_def BRACKETED_PASTE_END_def split: if_splits option.splits dest: indexOf_bound)

lemma emitDataSequence_fields [simp]:
  "sb_buffer (snd (emitDataSequence x s)) = sb_buffer s"
  "sb_timeout (snd (emitDataSequence x s)) = sb_timeout s"
  "sb_pasteMode (snd (emitDataSequence x s)) = sb_pasteMode s"
  "sb_pasteBuffer (snd (emitDataSequence x s)) = sb_pasteBuffer s"
  by (simp_all add: emitDataSequence_def Let_def)

lemma emit_sequences_fields [simp]:
  "sb_buffer (snd (emit_sequences xs s)) = sb_buffer s"
  "sb_timeout (snd (emit_sequences xs s)) = sb_timeout s"
  "sb_pasteMode (snd (emit_sequences xs s)) = sb_pasteMode s"
  "sb_pasteBuffer (snd (emit_sequences xs s)) = sb_pasteBuffer s"
  by (induction xs arbitrary: s) (simp_all add: split_def Let_def)

lemma begin_paste_fields [simp]:
  "sb_buffer (snd (begin_paste i s)) = []"
  "sb_timeout (snd (begin_paste i s)) = sb_timeout s"
  "sb_pasteMode (snd (begin_paste i s))"
  "sb_pasteBuffer (snd (begin_paste i s)) = drop (i + length BRACKETED_PASTE_START) (sb_buffer s)"
  by (simp_all add: begin_paste_def split_def Let_def)

lemma emit_buffer_fields [simp]:
  "sb_buffer (snd (emit_buffer s)) =
     (if isRawMultilinePaste (sb_buffer s) then [] else snd (extractCompleteSequences (sb_buffer s)))"
  "sb_pasteMode (snd (emit_buffer s)) = sb_pasteMode s"
  "sb_pasteBuffer (snd (emit_buffer s)) = sb_pasteBuffer s"
  "sb_timeout (snd (emit_buffer s)) \<longleftrightarrow> sb_timeout s \<or> sb_buffer (snd (emit_buffer s)) \<noteq> []"
  by (simp_all add: emit_buffer_def split_def Let_def)

lemma take_in_paste:
  "sb_pasteMode (snd (take_in str s)) \<Longrightarrow> sb_buffer (snd (take_in str s)) = []
     \<and> length (sb_pasteBuffer (snd (take_in str s))) \<le> length str + length (sb_buffer s) + length (sb_pasteBuffer s)"
  by (auto simp: take_in_def Let_def split: if_splits option.splits)

lemma end_paste_state:
  "end_paste s = Some (content, remaining, t) \<Longrightarrow> sb_pasteMode s \<and> t = s\<lparr>sb_pasteMode := False, sb_pasteBuffer := [], sb_pendingKittyPrintableCodepoint := None\<rparr>"
  by (auto simp: end_paste_def split: if_splits option.splits)

text \<open>The rest of \<open>process\<close>, which calls itself with what follows a paste; its argument is the string of the chunk.\<close>

function process :: "code_units \<Rightarrow> stdin_buffer \<Rightarrow> stdin_event list \<times> stdin_buffer" where
  "process str s =
     (if str = [] \<and> sb_buffer s = [] then emitDataSequence [] (s\<lparr>sb_timeout := False\<rparr>)
      else (case end_paste (snd (take_in str s)) of
          None \<Rightarrow> take_in str s
        | Some (pastedContent, remaining, t) \<Rightarrow>
            (let (es, u) = (if remaining = [] then ([], t) else process remaining t)
             in (fst (take_in str s) @ Paste_Event pastedContent # es, u))))"
  by pat_completeness auto
termination
proof (relation "measure (\<lambda>(str, s). length str + length (sb_buffer s) + length (sb_pasteBuffer s))", goal_cases)
  case (2 str s x2 content y remaining t)
  then show ?case
    using end_paste_shorter[of "snd (take_in str s)"] end_paste_state[of "snd (take_in str s)"] take_in_paste[of str s]
    by fastforce
qed simp

lemmas [simp del] = process.simps

text \<open>\<open>process\<close> on a chunk, and what the timer runs.\<close>

definition process_chunk :: "(nat list \<Rightarrow> code_units) \<Rightarrow> stdin_chunk \<Rightarrow> stdin_buffer \<Rightarrow> stdin_event list \<times> stdin_buffer" where
  "process_chunk to_string data s = process (chunk_string to_string data) s"

definition stdin_flush :: "stdin_buffer \<Rightarrow> code_units list \<times> stdin_buffer" where
  "stdin_flush s =
     (if sb_buffer s = [] then ([], s\<lparr>sb_timeout := False\<rparr>)
      else ([sb_buffer s], s\<lparr>sb_timeout := False, sb_buffer := [], sb_pendingKittyPrintableCodepoint := None\<rparr>))"

definition stdin_timer :: "stdin_buffer \<Rightarrow> stdin_event list \<times> stdin_buffer" where
  "stdin_timer s = (let (flushed, s1) = stdin_flush s in emit_sequences flushed s1)"

definition stdin_clear :: "stdin_buffer \<Rightarrow> stdin_buffer" where
  "stdin_clear s = s\<lparr>sb_timeout := False, sb_buffer := [], sb_pasteMode := False, sb_pasteBuffer := [],
     sb_pendingKittyPrintableCodepoint := None\<rparr>"

definition stdin_destroy :: "stdin_buffer \<Rightarrow> stdin_buffer" where
  "stdin_destroy s = stdin_clear s"

definition getBuffer :: "stdin_buffer \<Rightarrow> code_units" where
  "getBuffer s = sb_buffer s"

text \<open>Chunks that arrive before the timer of an earlier one fires.\<close>

fun process_chunks :: "code_units list \<Rightarrow> stdin_buffer \<Rightarrow> stdin_event list \<times> stdin_buffer" where
  "process_chunks [] s = ([], s)"
| "process_chunks (c # cs) s =
     (let (es, s1) = process c s; (es', s2) = process_chunks cs s1 in (es @ es', s2))"

section \<open>Cutting does not depend on the chunks\<close>




lemma extract_remainder:
  "extractCompleteSequences (snd (extractCompleteSequences xs)) = ([], snd (extractCompleteSequences xs))"
  by (induction xs rule: extractCompleteSequences.induct)
     (auto simp: split_def Let_def simp del: scan_sequence.simps split: option.splits)




lemma indexOf_append_left: "indexOf xs p = Some i \<Longrightarrow> indexOf (xs @ ys) p = Some i"
proof (induction xs arbitrary: i)
  case Nil
  then show ?case by (cases ys) (auto split: if_splits)
next
  case (Cons x xs)
  show ?case
  proof (cases "prefix p (x # xs)")
    case True
    then show ?thesis using Cons prefix_prefix[of p "x # xs" ys] by simp
  next
    case False
    then obtain j where j: "indexOf xs p = Some j" "i = Suc j" using Cons.prems by auto
    then have "length p \<le> length (x # xs)" using indexOf_bound[of xs p j] by simp
    then have "\<not> prefix p ((x # xs) @ ys)"
      using False prefix_length_prefix[of p "(x # xs) @ ys" "x # xs"] by auto
    then show ?thesis using Cons.IH[OF j(1)] j by simp
  qed
qed


section \<open>What is held back\<close>

text \<open>A state between chunks in which no paste is open: what is held back is an unfinished escape sequence.\<close>

definition keys_state :: "stdin_buffer \<Rightarrow> bool" where
  "keys_state s \<longleftrightarrow> \<not> sb_pasteMode s \<and> sb_pasteBuffer s = []
     \<and> extractCompleteSequences (sb_buffer s) = ([], sb_buffer s) \<and> sb_timeout s = (sb_buffer s \<noteq> [])"

definition paste_state :: "stdin_buffer \<Rightarrow> bool" where
  "paste_state s \<longleftrightarrow> sb_pasteMode s \<and> sb_buffer s = [] \<and> \<not> sb_timeout s
     \<and> indexOf (sb_pasteBuffer s) BRACKETED_PASTE_END = None"

lemma new_keys_state: "keys_state new_stdin_buffer"
  by (simp add: keys_state_def new_stdin_buffer_def)

lemma take_in_state:
  assumes "keys_state s \<or> paste_state s"
  shows "keys_state (snd (take_in str s))
     \<or> sb_pasteMode (snd (take_in str s)) \<and> sb_buffer (snd (take_in str s)) = [] \<and> \<not> sb_timeout (snd (take_in str s))"
  using assms
  by (auto simp: take_in_def keys_state_def paste_state_def Let_def extract_remainder split: option.splits)

lemma end_paste_keys_state:
  "end_paste s = Some (content, remaining, t) \<Longrightarrow> sb_buffer s = [] \<Longrightarrow> \<not> sb_timeout s \<Longrightarrow> keys_state t"
  by (drule end_paste_state) (simp add: keys_state_def)

lemma end_paste_none:
  "end_paste s = None \<Longrightarrow> sb_pasteMode s \<Longrightarrow> sb_buffer s = [] \<Longrightarrow> \<not> sb_timeout s \<Longrightarrow> paste_state s"
  by (auto simp: end_paste_def paste_state_def split: option.splits)

lemma keys_not_end_paste: "keys_state s \<Longrightarrow> end_paste s = None"
  by (simp add: keys_state_def end_paste_def)

lemma emit_empty_state: "keys_state s \<Longrightarrow> keys_state (snd (emitDataSequence x s))"
  by (simp add: keys_state_def)

lemma process_empty: "sb_buffer s = [] \<Longrightarrow> process [] s = emitDataSequence [] (s\<lparr>sb_timeout := False\<rparr>)"
  by (simp add: process.simps[of "[]" s])

lemma process_none:
  "str \<noteq> [] \<or> sb_buffer s \<noteq> [] \<Longrightarrow> end_paste (snd (take_in str s)) = None \<Longrightarrow> process str s = take_in str s"
  by (auto simp: process.simps[of str s])

lemma process_some:
  "str \<noteq> [] \<or> sb_buffer s \<noteq> [] \<Longrightarrow> end_paste (snd (take_in str s)) = Some (content, remaining, t) \<Longrightarrow>
   process str s = (fst (take_in str s) @ Paste_Event content # fst (if remaining = [] then ([], t) else process remaining t),
     snd (if remaining = [] then ([], t) else process remaining t))"
  by (subst process.simps) (auto simp: split_def Let_def)

lemma process_state:
  "keys_state s \<or> paste_state s \<Longrightarrow> keys_state (snd (process str s)) \<or> paste_state (snd (process str s))"
proof (induction str s rule: process.induct)
  case (1 str s)
  show ?case
  proof (cases "str = [] \<and> sb_buffer s = []")
    case True
    then show ?thesis using 1(2) by (auto simp: process_empty keys_state_def paste_state_def)
  next
    case False
    then have ne: "str \<noteq> [] \<or> sb_buffer s \<noteq> []" by simp
    note st = take_in_state[OF 1(2), of str]
    show ?thesis
    proof (cases "end_paste (snd (take_in str s))")
      case None
      then show ?thesis using st process_none[OF ne None] end_paste_none[OF None] by auto
    next
      case (Some a)
      obtain content remaining t where a: "a = (content, remaining, t)" by (cases a)
      have "keys_state t"
        using st end_paste_keys_state[of "snd (take_in str s)"] keys_not_end_paste[of "snd (take_in str s)"] Some a by fastforce
      then show ?thesis
        using process_some[OF ne Some[unfolded a]] 1(1)[OF False Some a[symmetric] refl] a by auto
    qed
  qed
qed

text \<open>The states the buffer can reach: chunks, the timer if it is set, and \<open>clear\<close>.\<close>

inductive stdin_step :: "stdin_buffer \<Rightarrow> stdin_buffer \<Rightarrow> bool" where
  stdin_chunk: "stdin_step s (snd (process str s))"
| stdin_fires: "sb_timeout s \<Longrightarrow> stdin_step s (snd (stdin_timer s))"
| stdin_cleared: "stdin_step s (stdin_clear s)"

definition stdin_reachable :: "stdin_buffer \<Rightarrow> bool" where
  "stdin_reachable = reach (\<lambda>s. s = new_stdin_buffer) stdin_step"

interpretation stdin: invariant_machine "\<lambda>s. s = new_stdin_buffer" stdin_step "\<lambda>s. keys_state s \<or> paste_state s"
proof
  fix s t assume inv: "keys_state s \<or> paste_state s" and "stdin_step s t"
  from this(2) show "keys_state t \<or> paste_state t"
  proof cases
    case (stdin_chunk str)
    then show ?thesis using process_state[OF inv] by simp
  qed (use inv in \<open>auto simp: stdin_timer_def stdin_flush_def stdin_clear_def keys_state_def paste_state_def
         split_def Let_def\<close>)
qed (auto simp: new_keys_state)

text \<open>In every state the buffer can reach, it holds back at most an unfinished escape sequence, and never
  without a timer that hands it on as it is; while a paste is open nothing else is held back and its end was not read.\<close>

lemma stdin_never_stuck:
  assumes "stdin_reachable s"
  shows "(sb_buffer s \<noteq> []) = sb_timeout s
    \<and> extractCompleteSequences (sb_buffer s) = ([], sb_buffer s)
    \<and> (sb_timeout s \<longrightarrow> \<not> sb_pasteMode s \<and> fst (stdin_timer s) = [Data_Event (sb_buffer s)]
         \<and> sb_buffer (snd (stdin_timer s)) = [] \<and> \<not> sb_timeout (snd (stdin_timer s)))
    \<and> indexOf (sb_pasteBuffer s) BRACKETED_PASTE_END = None"
proof -
  have "keys_state s \<or> paste_state s" using stdin.inv_reach assms by (simp add: stdin_reachable_def)
  then show ?thesis
    by (auto simp: keys_state_def paste_state_def stdin_timer_def stdin_flush_def emitDataSequence_def split_def Let_def
        BRACKETED_PASTE_END_def)
qed

section \<open>Keys in chunks\<close>











section \<open>Pastes in chunks\<close>

lemma marker_no_overlap:
  assumes "prefix (x # q) (a @ x # q)" "x \<notin> set q" "a \<noteq> []"
  shows "prefix (x # q) a"
proof -
  obtain b zs where "a = x # b" "b @ x # q = q @ zs" using assms by (cases a) (auto simp: prefix_def)
  from this(2) obtain us where "b = q @ us \<or> b @ us = q \<and> x # q = us @ zs"
    by (auto simp: append_eq_append_conv2)
  then have "b = q @ us \<or> x \<notin> set us \<and> b @ us = q \<and> x # q = us @ zs" using assms(2) by auto
  then have "prefix q b" by (cases us) auto
  then show ?thesis using \<open>a = x # b\<close> by simp
qed

lemma indexOf_marker_end:
  assumes "indexOf content (x # q) = None" "x \<notin> set q"
  shows "indexOf (content @ x # q) (x # q) = Some (length content)"
  using assms(1)
proof (induction content)
  case (Cons c cs)
  then show ?case using marker_no_overlap[of x q "c # cs"] assms(2) by (auto split: if_splits simp del: prefix_Cons Cons_prefix_Cons)
qed simp

lemma indexOf_before_marker:
  assumes "indexOf content (x # q) = None" "x \<notin> set q" "content @ x # q = t @ u" "u \<noteq> []"
  shows "indexOf t (x # q) = None"
proof (rule ccontr)
  assume "indexOf t (x # q) \<noteq> None"
  then obtain i where i: "indexOf t (x # q) = Some i" by auto
  have "i = length content" using indexOf_append_left[OF i, of u] indexOf_marker_end[OF assms(1,2)] assms(3) by simp
  moreover have "length content + length (x # q) = length t + length u" using assms(3) by (metis length_append)
  ultimately show False using indexOf_bound[OF i] assms(4) by simp
qed

lemma end_marker: "\<exists>q. BRACKETED_PASTE_END = ESC # q \<and> ESC \<notin> set q"
  by (simp add: BRACKETED_PASTE_END_def)

text \<open>A state in which \<open>h\<close>, the text read since the last event, is the beginning of a paste.\<close>

definition reading_paste :: "code_units \<Rightarrow> stdin_buffer \<Rightarrow> bool" where
  "reading_paste h s \<longleftrightarrow>
     (if strict_prefix h BRACKETED_PASTE_START then \<not> sb_pasteMode s \<and> sb_buffer s = h \<and> sb_pasteBuffer s = []
      else sb_pasteMode s \<and> sb_buffer s = [] \<and> h = BRACKETED_PASTE_START @ sb_pasteBuffer s)"

lemma start_marker_held:
  assumes "strict_prefix h BRACKETED_PASTE_START"
  shows "h \<in> {[], [27], [27, 91], [27, 91, 50], [27, 91, 50, 48], [27, 91, 50, 48, 48]}"
  using assms by (auto simp: strict_prefix_def BRACKETED_PASTE_START_def prefix_Cons)

lemma start_marker_incomplete:
  assumes "strict_prefix h BRACKETED_PASTE_START"
  shows "extractCompleteSequences h = ([], h) \<and> \<not> isRawMultilinePaste h \<and> indexOf h BRACKETED_PASTE_START = None"
  using start_marker_held[OF assms]
  by (auto simp: BRACKETED_PASTE_START_def isCompleteSequence_def isCompleteCsiSequence_def isRawMultilinePaste_def Let_def)

lemma take_in_reading:
  assumes "reading_paste h s" "c \<noteq> []" "h @ c = t"
    and "strict_prefix t BRACKETED_PASTE_START \<or> prefix BRACKETED_PASTE_START t"
  shows "fst (take_in c s) = [] \<and> reading_paste t (snd (take_in c s)) \<and> \<not> (sb_timeout (snd (take_in c s)) \<and> sb_pasteMode (snd (take_in c s)))"
proof (cases "strict_prefix h BRACKETED_PASTE_START")
  case False
  then have "\<not> strict_prefix t BRACKETED_PASTE_START"
    using assms(3) by (auto simp: strict_prefix_def prefix_def)
  then show ?thesis using False assms(1,3) by (auto simp: reading_paste_def take_in_def Let_def)
next
  case True
  then have s: "\<not> sb_pasteMode s" "sb_buffer s = h" "sb_pasteBuffer s = []" using assms(1) by (auto simp: reading_paste_def)
  show ?thesis
  proof (cases "strict_prefix t BRACKETED_PASTE_START")
    case True
    then show ?thesis
      using s assms(3) start_marker_incomplete[OF True]
      by (simp add: take_in_def reading_paste_def Let_def emit_buffer_def)
  next
    case False
    then obtain x where x: "t = BRACKETED_PASTE_START @ x" using assms(4) by (auto simp: prefix_def)
    then have "indexOf t BRACKETED_PASTE_START = Some 0" by (simp add: BRACKETED_PASTE_START_def)
    then show ?thesis
      using s assms(3) False x by (simp add: take_in_def reading_paste_def Let_def begin_paste_def)
  qed
qed

lemma process_reading:
  assumes "reading_paste h s" "c \<noteq> []" "BRACKETED_PASTE_START @ content @ BRACKETED_PASTE_END = (h @ c) @ u" "u \<noteq> []"
    and "indexOf content BRACKETED_PASTE_END = None"
  shows "fst (process c s) = [] \<and> reading_paste (h @ c) (snd (process c s))"
proof -
  have start: "strict_prefix (h @ c) BRACKETED_PASTE_START \<or> prefix BRACKETED_PASTE_START (h @ c)"
    using assms(3) by (metis prefix_def prefix_same_cases strict_prefix_def)
  note tk = take_in_reading[OF assms(1,2) refl start]
  have "end_paste (snd (take_in c s)) = None"
  proof (cases "strict_prefix (h @ c) BRACKETED_PASTE_START")
    case True
    then show ?thesis using tk by (simp add: reading_paste_def end_paste_def)
  next
    case False
    then have pb: "h @ c = BRACKETED_PASTE_START @ sb_pasteBuffer (snd (take_in c s))"
      using tk by (simp add: reading_paste_def)
    then have "content @ BRACKETED_PASTE_END = sb_pasteBuffer (snd (take_in c s)) @ u"
      using assms(3) by simp
    moreover obtain q where "BRACKETED_PASTE_END = ESC # q" "ESC \<notin> set q" using end_marker by blast
    ultimately show ?thesis
      using indexOf_before_marker[of content ESC q "sb_pasteBuffer (snd (take_in c s))" u] assms(4,5)
      by (simp add: end_paste_def)
  qed
  then show ?thesis using process_none[of c s] assms(2) tk by simp
qed

lemma process_paste_end:
  assumes "reading_paste h s" "c \<noteq> []" "h @ c = BRACKETED_PASTE_START @ content @ BRACKETED_PASTE_END"
    and "indexOf content BRACKETED_PASTE_END = None"
  shows "fst (process c s) = [Paste_Event content] \<and> keys_state (snd (process c s))
    \<and> sb_buffer (snd (process c s)) = [] \<and> sb_pendingKittyPrintableCodepoint (snd (process c s)) = None"
proof -
  define t where "t = snd (take_in c s)"
  have "prefix BRACKETED_PASTE_START (h @ c)" using assms(3) by simp
  then have tk: "fst (take_in c s) = []" "reading_paste (h @ c) t" "\<not> (sb_timeout t \<and> sb_pasteMode t)"
    using take_in_reading[OF assms(1,2) refl] by (auto simp: t_def)
  have "\<not> strict_prefix (h @ c) BRACKETED_PASTE_START" using assms(3) by (auto simp: strict_prefix_def)
  then have t: "sb_pasteMode t" "sb_buffer t = []" "sb_pasteBuffer t = content @ BRACKETED_PASTE_END"
    using tk(2) assms(3) by (auto simp: reading_paste_def)
  have "indexOf (content @ BRACKETED_PASTE_END) BRACKETED_PASTE_END = Some (length content)"
    using end_marker indexOf_marker_end assms(4) by metis
  then have "end_paste t = Some (content, [],
      t\<lparr>sb_pasteMode := False, sb_pasteBuffer := [], sb_pendingKittyPrintableCodepoint := None\<rparr>)"
    using t by (simp add: end_paste_def)
  then show ?thesis
    using process_some[of c s content "[]"] assms(2) tk t by (simp add: t_def[symmetric] keys_state_def)
qed

lemma reading_chunks:
  assumes "reading_paste h s" "[] \<notin> set chunks" "chunks \<noteq> []"
    and "h @ concat chunks = BRACKETED_PASTE_START @ content @ BRACKETED_PASTE_END"
    and "indexOf content BRACKETED_PASTE_END = None"
  shows "fst (process_chunks chunks s) = [Paste_Event content] \<and> keys_state (snd (process_chunks chunks s))
    \<and> sb_buffer (snd (process_chunks chunks s)) = []"
  using assms
proof (induction chunks arbitrary: h s)
  case (Cons c cs)
  show ?case
  proof (cases "cs = []")
    case True
    then show ?thesis using process_paste_end[OF Cons.prems(1), of c content] Cons.prems by (simp add: split_def)
  next
    case False
    then have "concat cs \<noteq> []" using Cons.prems(2) by (cases cs) auto
    then have "fst (process c s) = [] \<and> reading_paste (h @ c) (snd (process c s))"
      using process_reading[OF Cons.prems(1), of c content "concat cs"] Cons.prems by auto
    then show ?thesis using Cons.IH[of "h @ c" "snd (process c s)"] Cons.prems False by (simp add: split_def)
  qed
qed simp

lemma keys_reading: "keys_state s \<Longrightarrow> sb_buffer s = [] \<Longrightarrow> reading_paste [] s"
  by (simp add: keys_state_def reading_paste_def strict_prefix_def BRACKETED_PASTE_START_def)

text \<open>A bracketed paste is one event with its content, however the terminal cuts it, the markers included.\<close>

lemma paste_survives_chunking:
  assumes "keys_state s" "sb_buffer s = []" "[] \<notin> set chunks"
    and "concat chunks = BRACKETED_PASTE_START @ content @ BRACKETED_PASTE_END"
    and "indexOf content BRACKETED_PASTE_END = None"
  shows "fst (process_chunks chunks s) = [Paste_Event content] \<and> keys_state (snd (process_chunks chunks s))
    \<and> sb_buffer (snd (process_chunks chunks s)) = []"
proof (rule reading_chunks[of "[]"])
  show "chunks \<noteq> []" using assms(4) by (auto simp: BRACKETED_PASTE_START_def)
qed (use assms keys_reading in auto)

text \<open>
  An escape key read in the same chunk as a paste is lost: what is left of the text before the paste when it was
  cut is not kept. Alone in its chunk the key is an event, when the timer fires.
\<close>

lemma escape_before_paste_is_lost:
  assumes "indexOf content BRACKETED_PASTE_END = None"
  shows "fst (process (ESC # BRACKETED_PASTE_START @ content @ BRACKETED_PASTE_END) new_stdin_buffer) = [Paste_Event content]"
    and "fst (stdin_timer (snd (process [ESC] new_stdin_buffer))) = [Data_Event [ESC]]"
proof -
  let ?str = "ESC # BRACKETED_PASTE_START @ content @ BRACKETED_PASTE_END"
  have "indexOf ?str BRACKETED_PASTE_START = Some 1" by (simp add: BRACKETED_PASTE_START_def)
  then have t: "take_in ?str new_stdin_buffer
      = ([], new_stdin_buffer\<lparr>sb_pasteMode := True, sb_pasteBuffer := content @ BRACKETED_PASTE_END\<rparr>)"
    by (simp add: take_in_def begin_paste_def new_stdin_buffer_def isCompleteSequence_def BRACKETED_PASTE_START_def Let_def)
  have "indexOf (content @ BRACKETED_PASTE_END) BRACKETED_PASTE_END = Some (length content)"
    using end_marker indexOf_marker_end assms by metis
  then show "fst (process ?str new_stdin_buffer) = [Paste_Event content]"
    using process_some[of ?str new_stdin_buffer content "[]"] t by (simp add: end_paste_def)
  have "process [ESC] new_stdin_buffer = take_in [ESC] new_stdin_buffer"
    by (rule process_none)
       (simp_all add: take_in_def emit_buffer_def new_stdin_buffer_def isRawMultilinePaste_def isCompleteSequence_def
          end_paste_def Let_def BRACKETED_PASTE_START_def)
  then show "fst (stdin_timer (snd (process [ESC] new_stdin_buffer))) = [Data_Event [ESC]]"
    by (simp add: take_in_def emit_buffer_def new_stdin_buffer_def isRawMultilinePaste_def isCompleteSequence_def
        Let_def BRACKETED_PASTE_START_def stdin_timer_def stdin_flush_def emitDataSequence_def)
qed

end
