(* ===== verification/Line_Input.thy ===== *)
theory Line_Input
  imports Stdin_Buffer
begin

text \<open>
  The input line, \<open>tui/src/components/input.ts\<close> with its kill ring and its undo stack
  (\<open>kill-ring.ts\<close>, \<open>undo-stack.ts\<close>): cursor moves, deletions, kills and yanks, pastes and undo.
  The key bindings, the decoding of Kitty reports and the segmenter of graphemes are parameters.
\<close>

section \<open>Slices\<close>

text \<open>\<open>slice(0, n)\<close> and \<open>slice(n)\<close>; a negative index counts from the end.\<close>

definition slice_index :: "code_units \<Rightarrow> int \<Rightarrow> nat" where
  "slice_index t n = nat (if n < 0 then int (length t) + n else n)"

definition slice_to :: "code_units \<Rightarrow> int \<Rightarrow> code_units" where
  "slice_to t n = take (slice_index t n) t"

definition slice_from :: "code_units \<Rightarrow> int \<Rightarrow> code_units" where
  "slice_from t n = drop (slice_index t n) t"

definition slice_between :: "code_units \<Rightarrow> int \<Rightarrow> int \<Rightarrow> code_units" where
  "slice_between t m n = drop (slice_index t m) (take (slice_index t n) t)"

section \<open>Classes of graphemes\<close>

text \<open>\<open>/\s/\<close> and the class of \<open>PUNCTUATION_REGEX\<close>, found anywhere in the grapheme.\<close>

definition is_space_unit :: "nat \<Rightarrow> bool" where
  "is_space_unit c = ((9 \<le> c \<and> c \<le> 13) \<or> (8192 \<le> c \<and> c \<le> 8202)
     \<or> c \<in> {32, 160, 5760, 8232, 8233, 8239, 8287, 12288, 65279})"

definition isWhitespaceChar :: "code_units \<Rightarrow> bool" where
  "isWhitespaceChar char = list_ex is_space_unit char"

definition isPunctuationChar :: "code_units \<Rightarrow> bool" where
  "isPunctuationChar char = list_ex (\<lambda>c. c \<in> {40, 41, 123, 125, 91, 93, 60, 62, 46, 44, 59, 58, 39, 34, 33, 63,
     43, 45, 61, 42, 47, 92, 124, 38, 37, 94, 36, 35, 64, 126, 96}) char"

text \<open>\<open>Intl.Segmenter\<close> is a parameter. Its segments are not empty and make up the text.\<close>

type_synonym segmenter = "code_units \<Rightarrow> code_units list"

definition segments_text :: "segmenter \<Rightarrow> bool" where
  "segments_text seg \<longleftrightarrow> (\<forall>t. concat (seg t) = t \<and> [] \<notin> set (seg t))"

section \<open>The kill ring\<close>

definition kill_push :: "code_units \<Rightarrow> bool \<Rightarrow> bool \<Rightarrow> code_units list \<Rightarrow> code_units list" where
  "kill_push t prepend accumulate ring =
     (if t = [] then ring
      else if accumulate \<and> ring \<noteq> [] then butlast ring @ [if prepend then t @ last ring else last ring @ t]
      else ring @ [t])"

definition kill_peek :: "code_units list \<Rightarrow> code_units option" where
  "kill_peek ring = (if ring \<noteq> [] then Some (last ring) else None)"

definition kill_rotate :: "code_units list \<Rightarrow> code_units list" where
  "kill_rotate ring = (if length ring > 1 then last ring # butlast ring else ring)"

section \<open>The state\<close>

record input_snapshot =
  is_value :: code_units
  is_cursor :: int

text \<open>A stack with its top first. The states that are pushed are values, so that \<open>clone\<close> is the identity.\<close>

definition undo_push :: "'s \<Rightarrow> 's list \<Rightarrow> 's list" where
  "undo_push s stack = s # stack"

definition undo_pop :: "'s list \<Rightarrow> 's option \<times> 's list" where
  "undo_pop stack = (case stack of [] \<Rightarrow> (None, []) | s # rest \<Rightarrow> (Some s, rest))"

definition undo_clear :: "'s list \<Rightarrow> 's list" where
  "undo_clear stack = []"

datatype input_action = Kill_Action | Yank_Action | Type_Word

record line_input =
  li_value :: code_units
  li_cursor :: int
  li_pasteBuffer :: code_units
  li_isInPaste :: bool
  li_killRing :: "code_units list"
  li_lastAction :: "input_action option"
  li_undoStack :: "input_snapshot list"

definition new_line_input :: line_input where
  "new_line_input = \<lparr>li_value = [], li_cursor = 0, li_pasteBuffer = [], li_isInPaste = False, li_killRing = [],
     li_lastAction = None, li_undoStack = []\<rparr>"

definition setValue :: "code_units \<Rightarrow> line_input \<Rightarrow> line_input" where
  "setValue v s = s\<lparr>li_value := v, li_cursor := min (li_cursor s) (int (length v))\<rparr>"

definition pushUndo :: "line_input \<Rightarrow> line_input" where
  "pushUndo s = s\<lparr>li_undoStack := undo_push \<lparr>is_value = li_value s, is_cursor = li_cursor s\<rparr> (li_undoStack s)\<rparr>"

definition undo :: "line_input \<Rightarrow> line_input" where
  "undo s =
     (case undo_pop (li_undoStack s) of
        (None, _) \<Rightarrow> s
      | (Some snapshot, stack) \<Rightarrow>
          s\<lparr>li_undoStack := stack, li_value := is_value snapshot, li_cursor := is_cursor snapshot, li_lastAction := None\<rparr>)"

text \<open>\<open>value.slice(0, cursor) + text + value.slice(cursor)\<close> and the cursor behind it.\<close>

definition insert_text :: "code_units \<Rightarrow> line_input \<Rightarrow> line_input" where
  "insert_text t s = s\<lparr>li_value := slice_to (li_value s) (li_cursor s) @ t @ slice_from (li_value s) (li_cursor s),
     li_cursor := li_cursor s + int (length t)\<rparr>"

definition insertCharacter :: "code_units \<Rightarrow> line_input \<Rightarrow> line_input" where
  "insertCharacter char s =
     (let s1 = (if isWhitespaceChar char \<or> li_lastAction s \<noteq> Some Type_Word then pushUndo s else s)
      in insert_text char (s1\<lparr>li_lastAction := Some Type_Word\<rparr>))"

section \<open>Moves\<close>

text \<open>A loop over graphemes that moves the cursor by the length of each, in the direction \<open>dir\<close>.\<close>

fun move_while :: "int \<Rightarrow> (code_units \<Rightarrow> bool) \<Rightarrow> code_units list \<Rightarrow> int \<Rightarrow> code_units list \<times> int" where
  "move_while dir p [] cursor = ([], cursor)"
| "move_while dir p (g # gs) cursor =
     (if p g then move_while dir p gs (cursor + dir * int (length g)) else (g # gs, cursor))"

definition move_word :: "int \<Rightarrow> code_units list \<Rightarrow> int \<Rightarrow> int" where
  "move_word dir graphemes cursor =
     (let (rest, c) = move_while dir isWhitespaceChar graphemes cursor in
      case rest of
        [] \<Rightarrow> c
      | g # gs \<Rightarrow>
          if isPunctuationChar g then snd (move_while dir isPunctuationChar rest c)
          else snd (move_while dir (\<lambda>x. \<not> isWhitespaceChar x \<and> \<not> isPunctuationChar x) rest c))"

text \<open>Graphemes before the cursor are taken from the last one on.\<close>

definition moveWordBackwards :: "segmenter \<Rightarrow> line_input \<Rightarrow> line_input" where
  "moveWordBackwards seg s =
     (if li_cursor s = 0 then s
      else s\<lparr>li_lastAction := None,
             li_cursor := move_word (-1) (rev (seg (slice_to (li_value s) (li_cursor s)))) (li_cursor s)\<rparr>)"

definition moveWordForwards :: "segmenter \<Rightarrow> line_input \<Rightarrow> line_input" where
  "moveWordForwards seg s =
     (if li_cursor s \<ge> int (length (li_value s)) then s
      else s\<lparr>li_lastAction := None,
             li_cursor := move_word 1 (seg (slice_from (li_value s) (li_cursor s))) (li_cursor s)\<rparr>)"

text \<open>The length of the grapheme before the cursor, and of the one behind it; 1 where there is none.\<close>

definition last_length :: "code_units list \<Rightarrow> int" where
  "last_length graphemes = (if graphemes = [] then 1 else int (length (last graphemes)))"

definition first_length :: "code_units list \<Rightarrow> int" where
  "first_length graphemes = (if graphemes = [] then 1 else int (length (hd graphemes)))"

definition cursorLeft :: "segmenter \<Rightarrow> line_input \<Rightarrow> line_input" where
  "cursorLeft seg s0 =
     (let s = s0\<lparr>li_lastAction := None\<rparr> in
      if li_cursor s > 0 then s\<lparr>li_cursor := li_cursor s - last_length (seg (slice_to (li_value s) (li_cursor s)))\<rparr> else s)"

definition cursorRight :: "segmenter \<Rightarrow> line_input \<Rightarrow> line_input" where
  "cursorRight seg s0 =
     (let s = s0\<lparr>li_lastAction := None\<rparr> in
      if li_cursor s < int (length (li_value s))
      then s\<lparr>li_cursor := li_cursor s + first_length (seg (slice_from (li_value s) (li_cursor s)))\<rparr> else s)"

section \<open>Deletions and yanks\<close>

definition handleBackspace :: "segmenter \<Rightarrow> line_input \<Rightarrow> line_input" where
  "handleBackspace seg s0 =
     (let s = s0\<lparr>li_lastAction := None\<rparr> in
      if li_cursor s > 0 then
        let s1 = pushUndo s;
            graphemeLength = last_length (seg (slice_to (li_value s1) (li_cursor s1)))
        in s1\<lparr>li_value := slice_to (li_value s1) (li_cursor s1 - graphemeLength) @ slice_from (li_value s1) (li_cursor s1),
              li_cursor := li_cursor s1 - graphemeLength\<rparr>
      else s)"

definition handleForwardDelete :: "segmenter \<Rightarrow> line_input \<Rightarrow> line_input" where
  "handleForwardDelete seg s0 =
     (let s = s0\<lparr>li_lastAction := None\<rparr> in
      if li_cursor s < int (length (li_value s)) then
        let s1 = pushUndo s;
            graphemeLength = first_length (seg (slice_from (li_value s1) (li_cursor s1)))
        in s1\<lparr>li_value := slice_to (li_value s1) (li_cursor s1) @ slice_from (li_value s1) (li_cursor s1 + graphemeLength)\<rparr>
      else s)"

definition deleteToLineStart :: "line_input \<Rightarrow> line_input" where
  "deleteToLineStart s =
     (if li_cursor s = 0 then s
      else let s1 = pushUndo s;
               deletedText = slice_to (li_value s1) (li_cursor s1)
           in s1\<lparr>li_killRing := kill_push deletedText True (li_lastAction s1 = Some Kill_Action) (li_killRing s1),
                 li_lastAction := Some Kill_Action,
                 li_value := slice_from (li_value s1) (li_cursor s1), li_cursor := 0\<rparr>)"

definition deleteToLineEnd :: "line_input \<Rightarrow> line_input" where
  "deleteToLineEnd s =
     (if li_cursor s \<ge> int (length (li_value s)) then s
      else let s1 = pushUndo s;
               deletedText = slice_from (li_value s1) (li_cursor s1)
           in s1\<lparr>li_killRing := kill_push deletedText False (li_lastAction s1 = Some Kill_Action) (li_killRing s1),
                 li_lastAction := Some Kill_Action,
                 li_value := slice_to (li_value s1) (li_cursor s1)\<rparr>)"

definition deleteWordBackwards :: "segmenter \<Rightarrow> line_input \<Rightarrow> line_input" where
  "deleteWordBackwards seg s =
     (if li_cursor s = 0 then s
      else let wasKill = (li_lastAction s = Some Kill_Action);
               s1 = pushUndo s;
               oldCursor = li_cursor s1;
               s2 = moveWordBackwards seg s1;
               deleteFrom = li_cursor s2;
               deletedText = slice_between (li_value s2) deleteFrom oldCursor
           in s2\<lparr>li_killRing := kill_push deletedText True wasKill (li_killRing s2),
                 li_lastAction := Some Kill_Action,
                 li_value := slice_to (li_value s2) deleteFrom @ slice_from (li_value s2) oldCursor,
                 li_cursor := deleteFrom\<rparr>)"

definition deleteWordForward :: "segmenter \<Rightarrow> line_input \<Rightarrow> line_input" where
  "deleteWordForward seg s =
     (if li_cursor s \<ge> int (length (li_value s)) then s
      else let wasKill = (li_lastAction s = Some Kill_Action);
               s1 = pushUndo s;
               oldCursor = li_cursor s1;
               s2 = moveWordForwards seg s1;
               deleteTo = li_cursor s2;
               deletedText = slice_between (li_value s2) oldCursor deleteTo
           in s2\<lparr>li_cursor := oldCursor,
                 li_killRing := kill_push deletedText False wasKill (li_killRing s2),
                 li_lastAction := Some Kill_Action,
                 li_value := slice_to (li_value s2) oldCursor @ slice_from (li_value s2) deleteTo\<rparr>)"

definition yank :: "line_input \<Rightarrow> line_input" where
  "yank s =
     (case kill_peek (li_killRing s) of
        None \<Rightarrow> s
      | Some t \<Rightarrow> if t = [] then s
          else (insert_text t (pushUndo s))\<lparr>li_lastAction := Some Yank_Action\<rparr>)"

text \<open>\<open>peek() || ""\<close>.\<close>

definition peek_text :: "code_units list \<Rightarrow> code_units" where
  "peek_text ring = (case kill_peek ring of None \<Rightarrow> [] | Some t \<Rightarrow> t)"

definition yankPop :: "line_input \<Rightarrow> line_input" where
  "yankPop s =
     (if li_lastAction s \<noteq> Some Yank_Action \<or> length (li_killRing s) \<le> 1 then s
      else let s1 = pushUndo s;
               prevText = peek_text (li_killRing s1);
               s2 = s1\<lparr>li_value := slice_to (li_value s1) (li_cursor s1 - int (length prevText)) @ slice_from (li_value s1) (li_cursor s1),
                       li_cursor := li_cursor s1 - int (length prevText),
                       li_killRing := kill_rotate (li_killRing s1)\<rparr>
           in (insert_text (peek_text (li_killRing s2)) s2)\<lparr>li_lastAction := Some Yank_Action\<rparr>)"

section \<open>Pastes and keys\<close>

text \<open>\<open>replace(/\r\n/g, "")\<close>.\<close>

fun remove_crlf :: "code_units \<Rightarrow> code_units" where
  "remove_crlf [] = []"
| "remove_crlf [c] = [c]"
| "remove_crlf (c # d # cs) = (if c = 13 \<and> d = 10 then remove_crlf cs else c # remove_crlf (d # cs))"

definition clean_paste :: "code_units \<Rightarrow> code_units" where
  "clean_paste pastedText =
     concat (map (\<lambda>c. if c = 9 then [32, 32, 32, 32] else [c])
       (filter (\<lambda>c. c \<noteq> 10) (filter (\<lambda>c. c \<noteq> 13) (remove_crlf pastedText))))"

definition handlePaste :: "code_units \<Rightarrow> line_input \<Rightarrow> line_input" where
  "handlePaste pastedText s =
     (let s1 = pushUndo (s\<lparr>li_lastAction := None\<rparr>) in insert_text (clean_paste pastedText) s1)"

datatype input_binding =
    Select_Cancel | Editor_Undo | Input_Submit | Delete_Char_Backward | Delete_Char_Forward
  | Delete_Word_Backward | Delete_Word_Forward | Delete_To_Line_Start | Delete_To_Line_End
  | Editor_Yank | Editor_Yank_Pop | Cursor_Left | Cursor_Right | Cursor_Line_Start | Cursor_Line_End
  | Cursor_Word_Left | Cursor_Word_Right

text \<open>
  The keys: \<open>matches\<close> is \<open>matches\<close> of the keybindings, which the user configures, and \<open>kitty\<close> is
  \<open>decodeKittyPrintable\<close>. Both are parameters, as is the segmenter.
\<close>

record input_config =
  ic_matches :: "code_units \<Rightarrow> input_binding \<Rightarrow> bool"
  ic_kitty :: "code_units \<Rightarrow> code_units option"
  ic_segmenter :: segmenter

text \<open>The callbacks that are run.\<close>

datatype input_event = On_Submit code_units | On_Escape

text \<open>
  Code points are looked at by their first unit. The second unit of a pair is no control character, so that
  all units can be looked at.
\<close>

definition has_control_chars :: "code_units \<Rightarrow> bool" where
  "has_control_chars data = list_ex (\<lambda>c. c < 32 \<or> c = 127 \<or> (128 \<le> c \<and> c \<le> 159)) data"

definition handle_key :: "input_config \<Rightarrow> code_units \<Rightarrow> line_input \<Rightarrow> input_event list \<times> line_input" where
  "handle_key cfg data s =
     (let kb = ic_matches cfg data; seg = ic_segmenter cfg in
      if kb Select_Cancel then ([On_Escape], s)
      else if kb Editor_Undo then ([], undo s)
      else if kb Input_Submit \<or> data = [10] then ([On_Submit (li_value s)], s)
      else if kb Delete_Char_Backward then ([], handleBackspace seg s)
      else if kb Delete_Char_Forward then ([], handleForwardDelete seg s)
      else if kb Delete_Word_Backward then ([], deleteWordBackwards seg s)
      else if kb Delete_Word_Forward then ([], deleteWordForward seg s)
      else if kb Delete_To_Line_Start then ([], deleteToLineStart s)
      else if kb Delete_To_Line_End then ([], deleteToLineEnd s)
      else if kb Editor_Yank then ([], yank s)
      else if kb Editor_Yank_Pop then ([], yankPop s)
      else if kb Cursor_Left then ([], cursorLeft seg s)
      else if kb Cursor_Right then ([], cursorRight seg s)
      else if kb Cursor_Line_Start then ([], s\<lparr>li_lastAction := None, li_cursor := 0\<rparr>)
      else if kb Cursor_Line_End then ([], s\<lparr>li_lastAction := None, li_cursor := int (length (li_value s))\<rparr>)
      else if kb Cursor_Word_Left then ([], moveWordBackwards seg s)
      else if kb Cursor_Word_Right then ([], moveWordForwards seg s)
      else (case ic_kitty cfg data of
          Some char \<Rightarrow> ([], insertCharacter char s)
        | None \<Rightarrow> if \<not> has_control_chars data then ([], insertCharacter data s) else ([], s)))"

text \<open>\<open>replace(p, "")\<close> of a string: the first occurrence.\<close>

definition remove_first_text :: "code_units \<Rightarrow> code_units \<Rightarrow> code_units" where
  "remove_first_text p data =
     (case indexOf data p of None \<Rightarrow> data | Some i \<Rightarrow> take i data @ drop (i + length p) data)"

text \<open>The start of \<open>handleInput\<close>: a paste begins, or goes on, with the data that is left.\<close>

definition read_paste :: "code_units \<Rightarrow> line_input \<Rightarrow> line_input" where
  "read_paste data s =
     (if indexOf data BRACKETED_PASTE_START \<noteq> None
      then s\<lparr>li_isInPaste := True, li_pasteBuffer := remove_first_text BRACKETED_PASTE_START data\<rparr>
      else if li_isInPaste s then s\<lparr>li_pasteBuffer := li_pasteBuffer s @ data\<rparr>
      else s)"

lemma remove_first_shorter:
  "indexOf data p = Some i \<Longrightarrow> length (remove_first_text p data) + length p = length data"
  by (auto simp: remove_first_text_def dest: indexOf_bound)

lemma indexOf_end_positive: "indexOf s BRACKETED_PASTE_END = Some i \<Longrightarrow> length s - (i + length BRACKETED_PASTE_END) < length s"
  by (drule indexOf_bound) (simp add: BRACKETED_PASTE_END_def)

lemma read_paste_length:
  "li_isInPaste (read_paste data s) \<Longrightarrow>
   length (li_pasteBuffer (read_paste data s)) \<le> length data + length (li_pasteBuffer s)"
  by (auto simp: read_paste_def dest: remove_first_shorter[of data BRACKETED_PASTE_START])

function handleInput :: "input_config \<Rightarrow> code_units \<Rightarrow> line_input \<Rightarrow> input_event list \<times> line_input" where
  "handleInput cfg data s =
     (if li_isInPaste (read_paste data s) then
        (case indexOf (li_pasteBuffer (read_paste data s)) BRACKETED_PASTE_END of
           None \<Rightarrow> ([], read_paste data s)
         | Some endIndex \<Rightarrow>
             (let s1 = read_paste data s;
                  remaining = drop (endIndex + length BRACKETED_PASTE_END) (li_pasteBuffer s1);
                  s2 = (handlePaste (take endIndex (li_pasteBuffer s1)) s1)\<lparr>li_isInPaste := False, li_pasteBuffer := []\<rparr>
              in if remaining \<noteq> [] then handleInput cfg remaining s2 else ([], s2)))
      else handle_key cfg data s)"
  by pat_completeness auto

termination
proof (relation "measure (\<lambda>(cfg, data, s). length data + length (li_pasteBuffer s))", goal_cases)
  case (2 cfg data s endIndex s1 remaining s2)
  then show ?case
    using read_paste_length[of data s] indexOf_end_positive[of "li_pasteBuffer (read_paste data s)" endIndex] by simp
qed simp

lemmas [simp del] = handleInput.simps

text \<open>The pair that is drawn; a masked value is one bullet for each grapheme.\<close>

definition displayState :: "bool \<Rightarrow> segmenter \<Rightarrow> line_input \<Rightarrow> code_units \<times> int" where
  "displayState masked seg s =
     (if \<not> masked then (li_value s, li_cursor s)
      else (map (\<lambda>_. 8226) (seg (li_value s)), int (length (seg (slice_to (li_value s) (li_cursor s))))))"

section \<open>The invariant of the input\<close>

lemma slice_nonneg [simp]:
  "0 \<le> n \<Longrightarrow> slice_to t n = take (nat n) t"
  "0 \<le> n \<Longrightarrow> slice_from t n = drop (nat n) t"
  "0 \<le> m \<Longrightarrow> 0 \<le> n \<Longrightarrow> slice_between t m n = drop (nat m) (take (nat n) t)"
  by (simp_all add: slice_to_def slice_from_def slice_between_def slice_index_def)

lemma move_while_taken:
  "\<exists>taken. gs = taken @ fst (move_while dir p gs c) \<and> snd (move_while dir p gs c) = c + dir * int (length (concat taken))
     \<and> (gs \<noteq> [] \<and> p (hd gs) \<longrightarrow> taken \<noteq> [])"
proof (induction gs arbitrary: c)
  case (Cons g gs)
  show ?case
  proof (cases "p g")
    case True
    obtain taken where "gs = taken @ fst (move_while dir p gs (c + dir * int (length g)))"
      "snd (move_while dir p gs (c + dir * int (length g))) = c + dir * int (length g) + dir * int (length (concat taken))"
      using Cons by blast
    then show ?thesis using True by (intro exI[of _ "g # taken"]) (simp add: algebra_simps)
  qed simp
qed simp

lemma move_word_taken:
  obtains taken rest where "gs = taken @ rest" "move_word dir gs c = c + dir * int (length (concat taken))"
    "gs \<noteq> [] \<Longrightarrow> taken \<noteq> []"
proof -
  define rest where "rest = fst (move_while dir isWhitespaceChar gs c)"
  define d where "d = snd (move_while dir isWhitespaceChar gs c)"
  obtain t1 where t1: "gs = t1 @ rest" "d = c + dir * int (length (concat t1))"
    "gs \<noteq> [] \<and> isWhitespaceChar (hd gs) \<Longrightarrow> t1 \<noteq> []"
    using move_while_taken[of gs dir isWhitespaceChar c] by (auto simp: rest_def d_def)
  define q where "q = (if isPunctuationChar (hd rest) then isPunctuationChar
    else (\<lambda>x. \<not> isWhitespaceChar x \<and> \<not> isPunctuationChar x))"
  have m: "move_word dir gs c = (if rest = [] then d else snd (move_while dir q rest d))"
    by (simp add: move_word_def rest_def d_def q_def split_def Let_def split: list.splits)
  obtain t2 where t2: "rest = t2 @ fst (move_while dir q rest d)"
    "snd (move_while dir q rest d) = d + dir * int (length (concat t2))" "rest \<noteq> [] \<and> q (hd rest) \<Longrightarrow> t2 \<noteq> []"
    using move_while_taken[of rest dir q d] by auto
  show ?thesis
  proof (cases "rest = []")
    case True
    then show ?thesis using that[of t1 "[]"] t1 m by simp
  next
    case False
    have "gs = (t1 @ t2) @ fst (move_while dir q rest d)" using t1(1) t2(1) by (metis append.assoc)
    moreover have "q (hd rest) \<or> isWhitespaceChar (hd rest)" by (cases "isPunctuationChar (hd rest)") (auto simp: q_def)
    then have "t1 @ t2 \<noteq> []" using t1(1,3) t2(3) False by (cases t1) auto
    ultimately show ?thesis
      using that[of "t1 @ t2" "fst (move_while dir q rest d)"] m t1(2) t2(2) False by (simp add: algebra_simps)
  qed
qed

lemma concat_length_pos: "taken \<noteq> [] \<Longrightarrow> [] \<notin> set taken \<Longrightarrow> 0 < length (concat taken)"
  by (cases taken) auto

lemma move_back_range:
  assumes "segments_text seg" "t \<noteq> []" "int (length t) = c"
  shows "0 \<le> move_word (-1) (rev (seg t)) c \<and> move_word (-1) (rev (seg t)) c < c"
proof -
  have st: "concat (seg t) = t" "[] \<notin> set (seg t)" using assms(1) by (auto simp: segments_text_def)
  obtain taken rest where tk: "rev (seg t) = taken @ rest"
      "move_word (-1) (rev (seg t)) c = c + -1 * int (length (concat taken))" "rev (seg t) \<noteq> [] \<Longrightarrow> taken \<noteq> []"
    using move_word_taken[of "rev (seg t)" "-1" c] by metis
  have "seg t \<noteq> []" using st(1) assms(2) by auto
  moreover have "[] \<notin> set taken" using st(2) tk(1) by (metis Un_iff set_append set_rev)
  ultimately have pos: "0 < length (concat taken)" using tk(3) concat_length_pos by auto
  have "length t = sum_list (map length (rev (seg t)))" using st(1) by (metis length_concat rev_map sum_list_rev)
  then have "length (concat taken) \<le> length t" unfolding tk(1) by (simp add: length_concat)
  then show ?thesis using tk(2) pos assms(3) by linarith
qed

lemma move_forward_range:
  assumes "segments_text seg" "t \<noteq> []"
  shows "c < move_word 1 (seg t) c \<and> move_word 1 (seg t) c \<le> c + int (length t)"
proof -
  have st: "concat (seg t) = t" "[] \<notin> set (seg t)" using assms(1) by (auto simp: segments_text_def)
  obtain taken rest where tk: "seg t = taken @ rest" "move_word 1 (seg t) c = c + 1 * int (length (concat taken))"
      "seg t \<noteq> [] \<Longrightarrow> taken \<noteq> []"
    using move_word_taken[of "seg t" 1 c] by metis
  have "seg t \<noteq> []" using st(1) assms(2) by auto
  then have "taken \<noteq> []" by (rule tk(3))
  moreover have "[] \<notin> set taken" using st(2) by (simp add: tk(1))
  ultimately have "0 < length (concat taken)" by (rule concat_length_pos)
  moreover have "length (concat (seg t)) = length t" using st(1) by simp
  then have "length (concat taken) \<le> length t" by (simp add: tk(1))
  ultimately show ?thesis using tk(2) by linarith
qed

lemma grapheme_lengths:
  assumes "segments_text seg" "t \<noteq> []"
  shows "0 < last_length (seg t) \<and> last_length (seg t) \<le> int (length t)"
    and "0 < first_length (seg t) \<and> first_length (seg t) \<le> int (length t)"
proof -
  have st: "concat (seg t) = t" "[] \<notin> set (seg t)" using assms(1) by (auto simp: segments_text_def)
  then have ne: "seg t \<noteq> []" using assms(2) by auto
  then have "last (seg t) \<in> set (seg t)" "hd (seg t) \<in> set (seg t)" by simp_all
  moreover have "0 < length g \<and> length g \<le> length t" if g: "g \<in> set (seg t)" for g
  proof -
    obtain xs ys where "seg t = xs @ g # ys" using g split_list by fastforce
    moreover have "length (concat (seg t)) = length t" using st(1) by simp
    ultimately show ?thesis using g st(2) by auto
  qed
  ultimately show "0 < last_length (seg t) \<and> last_length (seg t) \<le> int (length t)"
    "0 < first_length (seg t) \<and> first_length (seg t) \<le> int (length t)"
    using ne by (simp_all add: last_length_def first_length_def)
qed

definition snapshot_ok :: "input_snapshot \<Rightarrow> bool" where
  "snapshot_ok u \<longleftrightarrow> 0 \<le> is_cursor u \<and> is_cursor u \<le> int (length (is_value u))"

text \<open>After a yank the text before the cursor ends with the entry on top of the kill ring.\<close>

definition input_ok :: "line_input \<Rightarrow> bool" where
  "input_ok s \<longleftrightarrow> 0 \<le> li_cursor s \<and> li_cursor s \<le> int (length (li_value s))
     \<and> list_all snapshot_ok (li_undoStack s) \<and> [] \<notin> set (li_killRing s)
     \<and> (li_lastAction s = Some Yank_Action \<longrightarrow> li_killRing s \<noteq> []
          \<and> suffix (last (li_killRing s)) (take (nat (li_cursor s)) (li_value s)))"

lemma kill_push_nonempty: "[] \<notin> set ring \<Longrightarrow> [] \<notin> set (kill_push t b c ring)"
  by (auto simp: kill_push_def dest: in_set_butlastD)

lemma pushUndo_ok: "input_ok s \<Longrightarrow> input_ok (pushUndo s)"
  by (simp add: input_ok_def pushUndo_def undo_push_def snapshot_ok_def)

lemma pushUndo_fields [simp]:
  "li_value (pushUndo s) = li_value s" "li_cursor (pushUndo s) = li_cursor s" "li_killRing (pushUndo s) = li_killRing s"
  "li_lastAction (pushUndo s) = li_lastAction s" "li_isInPaste (pushUndo s) = li_isInPaste s"
  "li_pasteBuffer (pushUndo s) = li_pasteBuffer s"
  by (simp_all add: pushUndo_def)

lemma last_action_ok: "input_ok s \<Longrightarrow> a \<noteq> Some Yank_Action \<Longrightarrow> input_ok (s\<lparr>li_lastAction := a\<rparr>)"
  by (simp add: input_ok_def)

lemma insert_text_ok:
  assumes "input_ok s" "li_lastAction s \<noteq> Some Yank_Action"
  shows "input_ok (insert_text t s)"
  using assms by (auto simp: input_ok_def insert_text_def)

lemma undo_ok: "input_ok s \<Longrightarrow> input_ok (undo s)"
  by (auto simp: undo_def undo_pop_def input_ok_def snapshot_ok_def split: list.splits)

lemma undo_list_ok: "input_ok s \<Longrightarrow> list_all snapshot_ok (li_undoStack (pushUndo s))"
  by (simp add: input_ok_def pushUndo_def undo_push_def snapshot_ok_def)

lemma moveWordBackwards_ok:
  assumes "segments_text seg" "input_ok s"
  shows "input_ok (moveWordBackwards seg s) \<and> (0 < li_cursor s \<longrightarrow> li_cursor (moveWordBackwards seg s) < li_cursor s)"
proof (cases "li_cursor s = 0")
  case False
  then have "take (nat (li_cursor s)) (li_value s) \<noteq> []" "0 < li_cursor s" using assms(2) by (auto simp: input_ok_def)
  then show ?thesis
    using move_back_range[OF assms(1), of "take (nat (li_cursor s)) (li_value s)" "li_cursor s"] assms(2)
    by (auto simp: input_ok_def moveWordBackwards_def)
qed (use assms in \<open>simp add: moveWordBackwards_def\<close>)

lemma moveWordForwards_ok:
  assumes "segments_text seg" "input_ok s"
  shows "input_ok (moveWordForwards seg s)
    \<and> (li_cursor s < int (length (li_value s)) \<longrightarrow> li_cursor s < li_cursor (moveWordForwards seg s))"
proof (cases "li_cursor s < int (length (li_value s))")
  case True
  then have "drop (nat (li_cursor s)) (li_value s) \<noteq> []" using assms(2) by (auto simp: input_ok_def)
  then show ?thesis
    using move_forward_range[OF assms(1), of "drop (nat (li_cursor s)) (li_value s)" "li_cursor s"] assms(2) True
    by (auto simp: input_ok_def moveWordForwards_def)
qed (use assms in \<open>simp add: moveWordForwards_def\<close>)

lemma grapheme_before:
  assumes "segments_text seg" "0 < c" "c \<le> int (length v)"
  shows "0 < last_length (seg (take (nat c) v)) \<and> last_length (seg (take (nat c) v)) \<le> c"
proof -
  have "take (nat c) v \<noteq> []" using assms(2,3) by auto
  then show ?thesis using grapheme_lengths(1)[OF assms(1), of "take (nat c) v"] assms(2,3) by simp
qed

lemma grapheme_behind:
  assumes "segments_text seg" "0 \<le> c" "c < int (length v)"
  shows "0 < first_length (seg (drop (nat c) v)) \<and> c + first_length (seg (drop (nat c) v)) \<le> int (length v)"
proof -
  have "drop (nat c) v \<noteq> []" using assms(2,3) by auto
  then show ?thesis using grapheme_lengths(2)[OF assms(1), of "drop (nat c) v"] assms(2,3) by (simp add: of_nat_diff)
qed

lemma cursorLeft_ok: "segments_text seg \<Longrightarrow> input_ok s \<Longrightarrow> input_ok (cursorLeft seg s)"
  using grapheme_before[of seg "li_cursor s" "li_value s"]
  by (auto simp: input_ok_def cursorLeft_def Let_def)

lemma cursorRight_ok: "segments_text seg \<Longrightarrow> input_ok s \<Longrightarrow> input_ok (cursorRight seg s)"
  using grapheme_behind[of seg "li_cursor s" "li_value s"]
  by (auto simp: input_ok_def cursorRight_def Let_def)

lemma handleBackspace_ok: "segments_text seg \<Longrightarrow> input_ok s \<Longrightarrow> input_ok (handleBackspace seg s)"
  using grapheme_before[of seg "li_cursor s" "li_value s"] undo_list_ok[of "s\<lparr>li_lastAction := None\<rparr>"]
  by (auto simp: input_ok_def handleBackspace_def Let_def)

lemma handleForwardDelete_ok: "segments_text seg \<Longrightarrow> input_ok s \<Longrightarrow> input_ok (handleForwardDelete seg s)"
  using grapheme_behind[of seg "li_cursor s" "li_value s"] undo_list_ok[of "s\<lparr>li_lastAction := None\<rparr>"]
  by (auto simp: input_ok_def handleForwardDelete_def Let_def)

lemma deleteToLineStart_ok: "input_ok s \<Longrightarrow> input_ok (deleteToLineStart s)"
  using undo_list_ok[of s] kill_push_nonempty by (auto simp: input_ok_def deleteToLineStart_def Let_def)

lemma deleteToLineEnd_ok: "input_ok s \<Longrightarrow> input_ok (deleteToLineEnd s)"
  using undo_list_ok[of s] kill_push_nonempty by (auto simp: input_ok_def deleteToLineEnd_def Let_def)

lemma move_word_fields [simp]:
  "li_value (moveWordBackwards seg s) = li_value s" "li_value (moveWordForwards seg s) = li_value s"
  "li_killRing (moveWordBackwards seg s) = li_killRing s" "li_killRing (moveWordForwards seg s) = li_killRing s"
  "li_undoStack (moveWordBackwards seg s) = li_undoStack s" "li_undoStack (moveWordForwards seg s) = li_undoStack s"
  "li_isInPaste (moveWordBackwards seg s) = li_isInPaste s" "li_isInPaste (moveWordForwards seg s) = li_isInPaste s"
  by (simp_all add: moveWordBackwards_def moveWordForwards_def)

lemma deleteWordBackwards_ok:
  assumes "segments_text seg" "input_ok s"
  shows "input_ok (deleteWordBackwards seg s)"
  using moveWordBackwards_ok[OF assms(1) pushUndo_ok[OF assms(2)]] kill_push_nonempty assms(2)
  by (auto simp: input_ok_def deleteWordBackwards_def Let_def)

lemma deleteWordForward_ok:
  assumes "segments_text seg" "input_ok s"
  shows "input_ok (deleteWordForward seg s)"
  using moveWordForwards_ok[OF assms(1) pushUndo_ok[OF assms(2)]] kill_push_nonempty assms(2)
  by (auto simp: input_ok_def deleteWordForward_def Let_def)

lemma insertCharacter_ok: "input_ok s \<Longrightarrow> input_ok (insertCharacter c s)"
  unfolding insertCharacter_def Let_def
  by (rule insert_text_ok) (auto intro: last_action_ok pushUndo_ok)

lemma handlePaste_ok: "input_ok s \<Longrightarrow> input_ok (handlePaste t s)"
  unfolding handlePaste_def Let_def
  by (rule insert_text_ok) (auto intro: last_action_ok pushUndo_ok)

lemma insert_yank_ok:
  assumes "input_ok (s\<lparr>li_lastAction := None\<rparr>)" "li_killRing s \<noteq> []" "t = last (li_killRing s)"
  shows "input_ok ((insert_text t s)\<lparr>li_lastAction := Some Yank_Action\<rparr>)"
  using assms by (auto simp: input_ok_def insert_text_def nat_add_distrib suffix_def)

lemma yank_ok: "input_ok s \<Longrightarrow> input_ok (yank s)"
  using insert_yank_ok[of "pushUndo s" "last (li_killRing s)"] pushUndo_ok[of s] last_action_ok[of "pushUndo s" None]
  by (auto simp: yank_def kill_peek_def)

lemma kill_rotate_set: "set (kill_rotate ring) = set ring"
  by (cases ring rule: rev_cases) (auto simp: kill_rotate_def)

lemma yankPop_ok:
  assumes "input_ok s"
  shows "input_ok (yankPop s)"
proof (cases "li_lastAction s \<noteq> Some Yank_Action \<or> length (li_killRing s) \<le> 1")
  case False
  then have ne: "li_killRing s \<noteq> []" by auto
  define prevText where "prevText = last (li_killRing s)"
  have suf: "suffix prevText (take (nat (li_cursor s)) (li_value s))"
    using assms False by (simp add: input_ok_def prevText_def)
  then have len: "int (length prevText) \<le> li_cursor s"
    using suffix_length_le[OF suf] assms unfolding input_ok_def by simp linarith
  define s2 where "s2 = (pushUndo s)\<lparr>li_value := slice_to (li_value s) (li_cursor s - int (length prevText)) @ slice_from (li_value s) (li_cursor s),
      li_cursor := li_cursor s - int (length prevText), li_killRing := kill_rotate (li_killRing s)\<rparr>"
  have ring: "kill_rotate (li_killRing s) \<noteq> []" using kill_rotate_set[of "li_killRing s"] ne by (metis set_empty)
  have "input_ok (s2\<lparr>li_lastAction := None\<rparr>)"
    using assms len undo_list_ok[OF assms] kill_rotate_set by (auto simp: s2_def input_ok_def)
  then have "input_ok ((insert_text (last (li_killRing s2)) s2)\<lparr>li_lastAction := Some Yank_Action\<rparr>)"
    by (rule insert_yank_ok) (simp_all add: s2_def ring)
  moreover have "peek_text (li_killRing s) = prevText" "peek_text (kill_rotate (li_killRing s)) = last (kill_rotate (li_killRing s))"
    using ne ring by (simp_all add: peek_text_def kill_peek_def prevText_def)
  ultimately show ?thesis using False by (simp add: yankPop_def Let_def s2_def)
qed (use assms in \<open>auto simp: yankPop_def\<close>)

lemma handle_key_ok:
  assumes "segments_text (ic_segmenter cfg)" "input_ok s"
  shows "input_ok (snd (handle_key cfg data s))"
proof -
  have "input_ok (s\<lparr>li_lastAction := None, li_cursor := 0\<rparr>)"
    "input_ok (s\<lparr>li_lastAction := None, li_cursor := int (length (li_value s))\<rparr>)"
    using assms(2) by (simp_all add: input_ok_def)
  then show ?thesis
    using assms undo_ok yank_ok yankPop_ok insertCharacter_ok deleteToLineStart_ok deleteToLineEnd_ok
      handleBackspace_ok handleForwardDelete_ok deleteWordBackwards_ok deleteWordForward_ok cursorLeft_ok cursorRight_ok
      moveWordBackwards_ok moveWordForwards_ok
    by (simp add: handle_key_def Let_def split: option.split)
qed

lemma read_paste_ok: "input_ok s \<Longrightarrow> input_ok (read_paste data s)"
  by (simp add: read_paste_def input_ok_def)

lemma paste_fields_ok: "input_ok s \<Longrightarrow> input_ok (s\<lparr>li_isInPaste := b, li_pasteBuffer := p\<rparr>)"
  by (simp add: input_ok_def)

lemma handleInput_ok:
  "segments_text (ic_segmenter cfg) \<Longrightarrow> input_ok s \<Longrightarrow> input_ok (snd (handleInput cfg data s))"
proof (induction cfg data s rule: handleInput.induct)
  case (1 cfg data s)
  note rd = read_paste_ok[OF 1(3), of data]
  show ?case
  proof (cases "li_isInPaste (read_paste data s)")
    case False
    then show ?thesis using handle_key_ok[OF 1(2,3)] by (simp add: handleInput.simps[of cfg data s])
  next
    case True
    show ?thesis
    proof (cases "indexOf (li_pasteBuffer (read_paste data s)) BRACKETED_PASTE_END")
      case None
      then show ?thesis using True rd by (simp add: handleInput.simps[of cfg data s])
    next
      case (Some i)
      define t where "t = take i (li_pasteBuffer (read_paste data s))"
      note ok = paste_fields_ok[OF handlePaste_ok[OF rd, of t], of "[]" False]
      show ?thesis
        using 1(1)[OF True Some refl refl refl _ 1(2)] ok True Some
        by (simp add: handleInput.simps[of cfg data s] Let_def t_def)
    qed
  qed
qed

section \<open>Sequences of inputs\<close>

fun run_inputs :: "input_config \<Rightarrow> code_units list \<Rightarrow> line_input \<Rightarrow> input_event list \<times> line_input" where
  "run_inputs cfg [] s = ([], s)"
| "run_inputs cfg (d # ds) s =
     (let (es, s1) = handleInput cfg d s; (es', s2) = run_inputs cfg ds s1 in (es @ es', s2))"






text \<open>A segmenter, bindings and a decoder: each unit is a grapheme, and the unit 23 is bound to a deletion.\<close>

definition sample_config :: input_config where
  "sample_config = \<lparr>ic_matches = (\<lambda>d b. d = [23] \<and> b = Delete_Word_Backward \<or> d = [25] \<and> b = Editor_Yank),
     ic_kitty = (\<lambda>_. None), ic_segmenter = map (\<lambda>c. [c])\<rparr>"

lemma sample_segments: "segments_text (ic_segmenter sample_config)"
  by (auto simp: sample_config_def segments_text_def)


text \<open>
  Where the value is set after a yank, the code does not forget the yank: a yank-pop then takes the length of
  the yanked text off a cursor that was set back, and the cursor gets negative.
\<close>

lemma yank_pop_after_setValue:
  assumes "li_lastAction s = Some Yank_Action" "li_killRing s = [older, newer]" "older \<noteq> []" "length older < length newer"
  shows "li_cursor (yankPop (setValue [] s)) < 0"
  using assms by (simp add: yankPop_def setValue_def kill_rotate_def peek_text_def kill_peek_def insert_text_def Let_def pushUndo_def)

section \<open>Kill and yank\<close>

text \<open>A key that is bound to a command and to none that \<open>handleInput\<close> asks for earlier.\<close>

definition input_bindings :: "input_binding list" where
  "input_bindings =
     [Select_Cancel, Editor_Undo, Input_Submit, Delete_Char_Backward, Delete_Char_Forward,
      Delete_Word_Backward, Delete_Word_Forward, Delete_To_Line_Start, Delete_To_Line_End,
      Editor_Yank, Editor_Yank_Pop, Cursor_Left, Cursor_Right, Cursor_Line_Start, Cursor_Line_End,
      Cursor_Word_Left, Cursor_Word_Right]"

definition key_of :: "input_config \<Rightarrow> code_units \<Rightarrow> input_binding \<Rightarrow> bool" where
  "key_of cfg data b \<longleftrightarrow> ic_matches cfg data b \<and> data \<noteq> [10] \<and> indexOf data BRACKETED_PASTE_START = None
     \<and> list_all (\<lambda>a. \<not> ic_matches cfg data a) (takeWhile (\<lambda>a. a \<noteq> b) input_bindings)"

definition is_kill_key :: "input_config \<Rightarrow> code_units \<Rightarrow> bool" where
  "is_kill_key cfg data \<longleftrightarrow> key_of cfg data Delete_Word_Backward \<or> key_of cfg data Delete_Word_Forward
     \<or> key_of cfg data Delete_To_Line_Start \<or> key_of cfg data Delete_To_Line_End"

lemma handleInput_key:
  "\<not> li_isInPaste s \<Longrightarrow> indexOf data BRACKETED_PASTE_START = None \<Longrightarrow> handleInput cfg data s = handle_key cfg data s"
  by (simp add: handleInput.simps[of cfg data s] read_paste_def)

lemma handle_bound_key:
  "key_of cfg data Delete_Word_Backward \<Longrightarrow> handle_key cfg data s = ([], deleteWordBackwards (ic_segmenter cfg) s)"
  "key_of cfg data Delete_Word_Forward \<Longrightarrow> handle_key cfg data s = ([], deleteWordForward (ic_segmenter cfg) s)"
  "key_of cfg data Delete_To_Line_Start \<Longrightarrow> handle_key cfg data s = ([], deleteToLineStart s)"
  "key_of cfg data Delete_To_Line_End \<Longrightarrow> handle_key cfg data s = ([], deleteToLineEnd s)"
  "key_of cfg data Editor_Yank \<Longrightarrow> handle_key cfg data s = ([], yank s)"
  by (simp_all add: key_of_def input_bindings_def handle_key_def Let_def)

text \<open>The text before the cursor and the text behind it.\<close>

definition text_before :: "line_input \<Rightarrow> code_units" where
  "text_before s = take (nat (li_cursor s)) (li_value s)"

definition text_behind :: "line_input \<Rightarrow> code_units" where
  "text_behind s = drop (nat (li_cursor s)) (li_value s)"

text \<open>What a kill does: it takes a text before or behind the cursor away, into the ring.\<close>

definition killed :: "line_input \<Rightarrow> line_input \<Rightarrow> bool" where
  "killed s t \<longleftrightarrow> li_lastAction t = Some Kill_Action \<and> (\<exists>k. k \<noteq> [] \<and>
     (text_before s = text_before t @ k \<and> text_behind t = text_behind s
        \<and> li_killRing t = kill_push k True (li_lastAction s = Some Kill_Action) (li_killRing s)
      \<or> text_behind s = k @ text_behind t \<and> text_before t = text_before s
        \<and> li_killRing t = kill_push k False (li_lastAction s = Some Kill_Action) (li_killRing s)))"

lemma line_kills:
  assumes "input_ok s"
  shows "deleteToLineStart s = s \<or> killed s (deleteToLineStart s)"
    and "deleteToLineEnd s = s \<or> killed s (deleteToLineEnd s)"
proof -
  have c: "0 \<le> li_cursor s" "li_cursor s \<le> int (length (li_value s))" using assms by (auto simp: input_ok_def)
  show "deleteToLineStart s = s \<or> killed s (deleteToLineStart s)"
  proof (cases "li_cursor s = 0")
    case False
    then show ?thesis using c
      by (auto simp: killed_def deleteToLineStart_def Let_def text_before_def text_behind_def
          intro!: exI[of _ "take (nat (li_cursor s)) (li_value s)"])
  qed (simp add: deleteToLineStart_def)
  show "deleteToLineEnd s = s \<or> killed s (deleteToLineEnd s)"
  proof (cases "li_cursor s \<ge> int (length (li_value s))")
    case False
    then show ?thesis using c
      by (auto simp: killed_def deleteToLineEnd_def Let_def text_before_def text_behind_def
          intro!: exI[of _ "drop (nat (li_cursor s)) (li_value s)"])
  qed (simp add: deleteToLineEnd_def)
qed

lemma word_kill_back:
  assumes "segments_text seg" "input_ok s"
  shows "deleteWordBackwards seg s = s \<or> killed s (deleteWordBackwards seg s)"
proof (cases "li_cursor s = 0")
  case False
  define m where "m = li_cursor (moveWordBackwards seg (pushUndo s))"
  have c: "0 \<le> li_cursor s" "li_cursor s \<le> int (length (li_value s))" "0 \<le> m" "m < li_cursor s"
    using moveWordBackwards_ok[OF assms(1) pushUndo_ok[OF assms(2)]] assms(2) False by (auto simp: input_ok_def m_def)
  define k where "k = drop (nat m) (take (nat (li_cursor s)) (li_value s))"
  have "take (nat (li_cursor s)) (li_value s) = take (nat m) (li_value s) @ k"
    using c unfolding k_def by (metis append_take_drop_id min.absorb1 nat_mono less_imp_le take_take)
  moreover have "k \<noteq> []" using c by (auto simp: k_def)
  moreover have "deleteWordBackwards seg s = (moveWordBackwards seg (pushUndo s))\<lparr>
      li_killRing := kill_push k True (li_lastAction s = Some Kill_Action) (li_killRing s), li_lastAction := Some Kill_Action,
      li_value := take (nat m) (li_value s) @ drop (nat (li_cursor s)) (li_value s), li_cursor := m\<rparr>"
    using c False by (simp add: deleteWordBackwards_def Let_def m_def[symmetric] k_def)
  ultimately have "killed s (deleteWordBackwards seg s)"
    unfolding killed_def using c by (intro conjI exI[of _ k]) (simp_all add: text_before_def text_behind_def)
  then show ?thesis ..
qed (simp add: deleteWordBackwards_def)

lemma word_kill_forward:
  assumes "segments_text seg" "input_ok s"
  shows "deleteWordForward seg s = s \<or> killed s (deleteWordForward seg s)"
proof (cases "li_cursor s \<ge> int (length (li_value s))")
  case False
  define m where "m = li_cursor (moveWordForwards seg (pushUndo s))"
  have c: "0 \<le> li_cursor s" "li_cursor s < m" "m \<le> int (length (li_value s))"
    using moveWordForwards_ok[OF assms(1) pushUndo_ok[OF assms(2)]] assms(2) False by (auto simp: input_ok_def m_def)
  define k where "k = drop (nat (li_cursor s)) (take (nat m) (li_value s))"
  have "drop (nat (li_cursor s)) (take (nat m) (li_value s) @ drop (nat m) (li_value s)) = k @ drop (nat m) (li_value s)"
    using c by (simp add: k_def del: append_take_drop_id)
  then have "drop (nat (li_cursor s)) (li_value s) = k @ drop (nat m) (li_value s)" by simp
  moreover have "k \<noteq> []" using c by (auto simp: k_def)
  moreover have "deleteWordForward seg s = (moveWordForwards seg (pushUndo s))\<lparr>li_cursor := li_cursor s,
      li_killRing := kill_push k False (li_lastAction s = Some Kill_Action) (li_killRing s), li_lastAction := Some Kill_Action,
      li_value := take (nat (li_cursor s)) (li_value s) @ drop (nat m) (li_value s)\<rparr>"
    using c False by (simp add: deleteWordForward_def Let_def m_def[symmetric] k_def)
  ultimately have "killed s (deleteWordForward seg s)"
    unfolding killed_def using c by (intro conjI exI[of _ k]) (simp_all add: text_before_def text_behind_def)
  then show ?thesis ..
qed (simp add: deleteWordForward_def)

lemma kill_key_kills:
  assumes "is_kill_key cfg data" "\<not> li_isInPaste s" "segments_text (ic_segmenter cfg)" "input_ok s"
  shows "snd (handleInput cfg data s) = s \<or> killed s (snd (handleInput cfg data s))"
proof -
  have "indexOf data BRACKETED_PASTE_START = None" using assms(1) by (auto simp: is_kill_key_def key_of_def)
  then show ?thesis
    using assms(1) handleInput_key[OF assms(2)] line_kills[OF assms(4)] word_kill_back[OF assms(3,4)]
      word_kill_forward[OF assms(3,4)] by (auto simp: is_kill_key_def handle_bound_key)
qed

lemma kills_isInPaste [simp]:
  "li_isInPaste (deleteWordBackwards seg s) = li_isInPaste s" "li_isInPaste (deleteWordForward seg s) = li_isInPaste s"
  "li_isInPaste (deleteToLineStart s) = li_isInPaste s" "li_isInPaste (deleteToLineEnd s) = li_isInPaste s"
  by (simp_all add: deleteWordBackwards_def deleteWordForward_def deleteToLineStart_def deleteToLineEnd_def Let_def)

lemma kill_key_not_paste:
  assumes "is_kill_key cfg data" "\<not> li_isInPaste s"
  shows "\<not> li_isInPaste (snd (handleInput cfg data s))"
proof -
  have "indexOf data BRACKETED_PASTE_START = None" using assms(1) by (auto simp: is_kill_key_def key_of_def)
  then show ?thesis
    using assms handleInput_key[OF assms(2)]
    by (auto simp: is_kill_key_def handle_bound_key)
qed

lemma value_around: "li_value s = text_before s @ text_behind s"
  by (simp add: text_before_def text_behind_def)

text \<open>After kills that took something away, the top of the ring is the whole text that is gone from around the cursor.\<close>

definition kills_since :: "line_input \<Rightarrow> line_input \<Rightarrow> bool" where
  "kills_since s t \<longleftrightarrow> li_lastAction t = Some Kill_Action \<and> li_killRing t \<noteq> []
     \<and> li_value s = text_before t @ last (li_killRing t) @ text_behind t"

lemma killed_first: "killed s t \<Longrightarrow> li_lastAction s \<noteq> Some Kill_Action \<Longrightarrow> kills_since s t"
  by (auto simp: killed_def kills_since_def kill_push_def value_around[of s])

lemma killed_next: "kills_since r s \<Longrightarrow> killed s t \<Longrightarrow> kills_since r t"
  by (auto simp: killed_def kills_since_def kill_push_def value_around[of s])

lemma kills_run:
  assumes "segments_text (ic_segmenter cfg)" "list_all (is_kill_key cfg) keys" "input_ok s" "\<not> li_isInPaste s"
    "li_lastAction r \<noteq> Some Kill_Action" "s = r \<or> kills_since r s"
  defines "t \<equiv> snd (run_inputs cfg keys s)"
  shows "(t = r \<or> kills_since r t) \<and> input_ok t \<and> \<not> li_isInPaste t"
  using assms(2-6) unfolding t_def
proof (induction keys arbitrary: s)
  case (Cons d ds)
  let ?u = "snd (handleInput cfg d s)"
  have k: "is_kill_key cfg d" "list_all (is_kill_key cfg) ds" using Cons.prems(1) by simp_all
  have "?u = r \<or> kills_since r ?u"
    using kill_key_kills[OF k(1) Cons.prems(3) assms(1) Cons.prems(2)] Cons.prems(4,5) killed_first killed_next by metis
  then show ?case
    using Cons.IH[OF k(2), of ?u] handleInput_ok[OF assms(1) Cons.prems(2)] kill_key_not_paste[OF k(1) Cons.prems(3)]
      Cons.prems(4) by (simp add: split_def Let_def)
qed simp

text \<open>C31: Kills in a row, of words and to the ends of the line, before and behind the cursor and in any order,
  are one entry of the kill ring: where they took something away, a yank right after them brings back the text as it was.\<close>

theorem kills_then_yank_restores:
  assumes "segments_text (ic_segmenter cfg)" "input_ok s" "\<not> li_isInPaste s" "li_lastAction s \<noteq> Some Kill_Action"
    and "list_all (is_kill_key cfg) keys" "key_of cfg yank_data Editor_Yank"
    and "li_value (snd (run_inputs cfg keys s)) \<noteq> li_value s"
  shows "li_value (snd (handleInput cfg yank_data (snd (run_inputs cfg keys s)))) = li_value s"
proof -
  define t where "t = snd (run_inputs cfg keys s)"
  have t: "kills_since s t" "input_ok t" "\<not> li_isInPaste t"
    using kills_run[OF assms(1,5,2,3,4)] assms(7) by (auto simp: t_def)
  have "indexOf yank_data BRACKETED_PASTE_START = None" using assms(6) by (simp add: key_of_def)
  then have "handleInput cfg yank_data t = ([], yank t)"
    using handleInput_key[OF t(3)] handle_bound_key(5)[OF assms(6)] by simp
  moreover have "last (li_killRing t) \<noteq> []" "0 \<le> li_cursor t" using t(1,2) by (auto simp: kills_since_def input_ok_def) (metis last_in_set)
  ultimately show ?thesis
    using t(1) by (simp add: t_def[symmetric] kills_since_def yank_def kill_peek_def insert_text_def text_before_def text_behind_def)
qed

text \<open>Two words are killed, one after the other, and yanked.\<close>

theorem kills_then_yank_restores_witness:
  "let s = new_line_input\<lparr>li_value := [97, 32, 98, 99], li_cursor := 4\<rparr>
   in li_value (snd (handleInput sample_config [25] (snd (run_inputs sample_config [[23], [23]] s)))) = [97, 32, 98, 99]"
proof -
  let ?s = "new_line_input\<lparr>li_value := [97, 32, 98, 99], li_cursor := 4\<rparr>"
  have k: "is_kill_key sample_config [23]" "key_of sample_config [25] Editor_Yank"
    by (simp_all add: is_kill_key_def key_of_def sample_config_def input_bindings_def BRACKETED_PASTE_START_def)
  have h: "handleInput sample_config [23] s = ([], deleteWordBackwards (ic_segmenter sample_config) s)"
    if "\<not> li_isInPaste s" for s
    using that handleInput_key[of s "[23]" sample_config] handle_bound_key(1)[of sample_config "[23]" s]
    by (simp add: key_of_def sample_config_def input_bindings_def BRACKETED_PASTE_START_def)
  have "snd (run_inputs sample_config [[23], [23]] ?s)
      = deleteWordBackwards (ic_segmenter sample_config) (deleteWordBackwards (ic_segmenter sample_config) ?s)"
    by (simp add: h new_line_input_def)
  then have "li_value (snd (run_inputs sample_config [[23], [23]] ?s)) \<noteq> li_value ?s"
    by (simp add: new_line_input_def deleteWordBackwards_def Let_def moveWordBackwards_def move_word_def pushUndo_def
        isWhitespaceChar_def isPunctuationChar_def is_space_unit_def sample_config_def)
  then show ?thesis
    using kills_then_yank_restores[OF sample_segments, of ?s "[[23], [23]]" "[25]"] k
    by (simp add: new_line_input_def input_ok_def)
qed

section \<open>Pastes\<close>





lemma clean_paste_units: "set (clean_paste t) \<inter> {9, 10, 13} = {}"
  by (auto simp: clean_paste_def split: if_splits)

section \<open>Undo\<close>

text \<open>Either the state before can be undone to, or the text is the same or grew by typing on within a word.\<close>

definition undoable :: "line_input \<Rightarrow> line_input \<Rightarrow> bool" where
  "undoable s t \<longleftrightarrow>
     li_undoStack t = \<lparr>is_value = li_value s, is_cursor = li_cursor s\<rparr> # li_undoStack s
     \<or> li_undoStack t = li_undoStack s
       \<and> (li_value t = li_value s \<or> li_lastAction s = Some Type_Word \<and> li_lastAction t = Some Type_Word)"

lemma pushUndo_stack [simp]: "li_undoStack (pushUndo s) = \<lparr>is_value = li_value s, is_cursor = li_cursor s\<rparr> # li_undoStack s"
  by (simp add: pushUndo_def undo_push_def)

lemma insert_text_stack [simp]:
  "li_undoStack (insert_text t s) = li_undoStack s" "li_lastAction (insert_text t s) = li_lastAction s"
  by (simp_all add: insert_text_def)

lemma undoable_ops:
  "undoable s (handleBackspace seg s)" "undoable s (handleForwardDelete seg s)"
  "undoable s (deleteWordBackwards seg s)" "undoable s (deleteWordForward seg s)"
  "undoable s (deleteToLineStart s)" "undoable s (deleteToLineEnd s)" "undoable s (yank s)" "undoable s (yankPop s)"
  "undoable s (cursorLeft seg s)" "undoable s (cursorRight seg s)"
  "undoable s (moveWordBackwards seg s)" "undoable s (moveWordForwards seg s)" "undoable s (insertCharacter c s)"
  by (simp_all add: undoable_def handleBackspace_def handleForwardDelete_def deleteWordBackwards_def deleteWordForward_def
      deleteToLineStart_def deleteToLineEnd_def yank_def yankPop_def cursorLeft_def cursorRight_def insertCharacter_def
      Let_def split: option.split)

lemma undoable_same: "li_undoStack t = li_undoStack s \<Longrightarrow> li_value t = li_value s \<Longrightarrow> undoable s t"
  by (simp add: undoable_def)

text \<open>Any key but undo either leaves the text, types on in a word, or can be undone exactly.\<close>

lemma keys_undoable:
  assumes "\<not> ic_matches cfg data Editor_Undo"
  shows "undoable s (snd (handle_key cfg data s))"
proof -
  have moves: "undoable s s" "undoable s (s\<lparr>li_lastAction := None, li_cursor := c\<rparr>)" for c
    by (simp_all add: undoable_same)
  show ?thesis using assms by (simp add: handle_key_def Let_def undoable_ops moves split: option.split)
qed

lemma undo_after_key:
  assumes "\<not> ic_matches cfg data Editor_Undo" "li_undoStack (snd (handle_key cfg data s)) \<noteq> li_undoStack s"
  defines "u \<equiv> undo (snd (handle_key cfg data s))"
  shows "li_value u = li_value s \<and> li_cursor u = li_cursor s \<and> li_undoStack u = li_undoStack s"
  using keys_undoable[OF assms(1), of s] assms(2) by (simp add: u_def undoable_def undo_def undo_pop_def)

section \<open>Yank-pop\<close>

text \<open>A yank-pop replaces what was yanked by the entry before it in the ring.\<close>

lemma yankPop_replaces:
  assumes "input_ok s" "li_lastAction s = Some Yank_Action" "li_killRing s = ring @ [older, newer]"
    "li_value s = before @ newer @ behind" "li_cursor s = int (length (before @ newer))"
  shows "li_value (yankPop s) = before @ older @ behind \<and> li_cursor (yankPop s) = int (length (before @ older))
    \<and> li_killRing (yankPop s) = newer # ring @ [older] \<and> li_lastAction (yankPop s) = Some Yank_Action"
proof -
  have "nat (int (length before) + int (length newer)) = length before + length newer" by simp
  moreover have "slice_to (li_value s) (int (length before)) = before"
    "slice_from (li_value s) (int (length before) + int (length newer)) = behind"
    using assms(4) by (simp_all add: nat_add_distrib)
  moreover have "int (length before) + int (length newer) - int (length newer) = int (length before)" by simp
  ultimately show ?thesis
    using assms(2,3,5)
    by (simp add: yankPop_def Let_def peek_text_def kill_peek_def kill_rotate_def insert_text_def butlast_append)
qed

end
