(* ===== verification/Session_Lease.thy ===== *)
theory Session_Lease
  imports Prelude
begin

text \<open>
  Leases of sessions, \<open>coding-agent/src/core/session-lease.ts\<close>: a directory for each session that a process
  renames into place, with the owner in a file, so that no two processes run one session. Processes
  start, stop anywhere and are interleaved; what they do with the directory is done under a guard.
\<close>

section \<open>Owners and their processes\<close>

text \<open>
  A random token is the process that draws it and a number the process has not used before, so that no
  two are equal. The sessions path is the same in all of this theory.
\<close>

type_synonym lease_token = "nat \<times> nat"

record lease_owner =
  lo_token :: lease_token
  lo_pid :: int
  lo_processStartId :: "string option"
  lo_activeSessionId :: "string option"
  lo_sessionPath :: string
  lo_createdAt :: string

definition leasesEnabled :: "string option \<Rightarrow> bool" where
  "leasesEnabled enabled_env =
     (case map_option to_lower enabled_env of
        None \<Rightarrow> False
      | Some value \<Rightarrow> value = ''1'' \<or> value = ''true'' \<or> value = ''yes'')"

text \<open>\<open>realpath\<close> is None where \<open>realpathSync\<close> throws; \<open>resolve\<close>, \<open>dirname\<close>, \<open>basename\<close> and \<open>join\<close> are those of \<open>path\<close>.\<close>

definition canonicalSessionPath ::
  "(string \<Rightarrow> string) \<Rightarrow> (string \<Rightarrow> string option) \<Rightarrow> (string \<Rightarrow> string) \<Rightarrow> (string \<Rightarrow> string) \<Rightarrow> (string \<Rightarrow> string \<Rightarrow> string)
   \<Rightarrow> string \<Rightarrow> string" where
  "canonicalSessionPath resolve realpath dirname basename join sessionPath =
     (let resolvedPath = resolve sessionPath in
      case realpath resolvedPath of
        Some p \<Rightarrow> p
      | None \<Rightarrow> (case realpath (dirname resolvedPath) of
          Some d \<Rightarrow> join d (basename resolvedPath)
        | None \<Rightarrow> resolvedPath))"

text \<open>
  The directory of a lease: it is there or not, its owner file is there or not, and the file is an owner's or not
  well-formed. \<open>failed\<close> is a read that fails for another reason than a missing file.
\<close>

datatype owner_file = Owner_File lease_owner | Corrupt_File

type_synonym lease_dir = "owner_file option option"

datatype owner_read = Read_Owner lease_owner | Read_Absent | Read_Unreadable | Read_Corrupt

definition readLeaseOwner :: "bool \<Rightarrow> lease_dir \<Rightarrow> owner_read" where
  "readLeaseOwner failed d =
     (if failed then Read_Unreadable
      else case d of
        Some (Some (Owner_File owner)) \<Rightarrow> Read_Owner owner
      | Some (Some Corrupt_File) \<Rightarrow> Read_Corrupt
      | _ \<Rightarrow> Read_Absent)"

text \<open>What the queries of the system print for a process; None is an error.\<close>

record process_queries =
  pq_powershell :: "string \<Rightarrow> int \<Rightarrow> string option"
  pq_ps :: "int \<Rightarrow> string option"
  pq_stat :: "int \<Rightarrow> string option"

fun windows_start_ticks :: "process_queries \<Rightarrow> int \<Rightarrow> string list \<Rightarrow> string option" where
  "windows_start_ticks q pid [] = None"
| "windows_start_ticks q pid (executable # executables) =
     (case pq_powershell q executable pid of
        Some out \<Rightarrow>
          (let startTicks = trim_text out in
           if startTicks \<noteq> [] \<and> list_all is_digit startTicks then Some (''win:'' @ startTicks) else None)
      | None \<Rightarrow> windows_start_ticks q pid executables)"

definition getWindowsProcessStartId :: "process_queries \<Rightarrow> string list \<Rightarrow> int \<Rightarrow> string option" where
  "getWindowsProcessStartId q executables pid = (if pid \<le> 0 then None else windows_start_ticks q pid executables)"

definition getPsProcessStartId :: "process_queries \<Rightarrow> int \<Rightarrow> string option" where
  "getPsProcessStartId q pid =
     (if pid \<le> 0 then None
      else case pq_ps q pid of
        None \<Rightarrow> None
      | Some out \<Rightarrow> (let startTime = trim_text out in if startTime \<noteq> [] then Some (''ps:'' @ startTime) else None))"

text \<open>The field of \<open>/proc/<pid>/stat\<close>: \<open>lastIndexOf(")")\<close>, and \<open>fields[19]\<close> of the rest, which may be undefined.\<close>

definition last_index :: "char \<Rightarrow> string \<Rightarrow> int" where
  "last_index c s = (if c \<in> set s then int (length s) - 1 - int (length (takeWhile (\<lambda>d. d \<noteq> c) (rev s))) else -1)"

definition stat_start_time :: "string \<Rightarrow> string option" where
  "stat_start_time stat =
     (let commandEnd = last_index CHR '')'' stat;
          fields = split_at CHR '' '' (drop (nat (commandEnd + 2)) stat)
      in if 19 < length fields \<and> fields ! 19 \<noteq> [] then Some (fields ! 19) else None)"

definition getProcessStartId :: "bool \<Rightarrow> string list \<Rightarrow> process_queries \<Rightarrow> int \<Rightarrow> string option" where
  "getProcessStartId windows executables q pid =
     (if pid \<le> 0 then None
      else if windows then getWindowsProcessStartId q executables pid
      else (case Option.bind (pq_stat q pid) stat_start_time of
          Some startTime \<Rightarrow> Some (''proc:'' @ startTime)
        | None \<Rightarrow> getPsProcessStartId q pid))"

text \<open>An empty start id is none: \<open>!owner.processStartId\<close>.\<close>

definition isLeaseOwnerAlive :: "(int \<Rightarrow> bool) \<Rightarrow> (int \<Rightarrow> string option) \<Rightarrow> lease_owner \<Rightarrow> bool" where
  "isLeaseOwnerAlive isProcessAlive startId owner =
     (if \<not> isProcessAlive (lo_pid owner) then False
      else case lo_processStartId owner of
        None \<Rightarrow> True
      | Some known \<Rightarrow> if known = [] then True
          else (let currentStartId = startId (lo_pid owner) in currentStartId = None \<or> currentStartId = Some known))"

definition isRenameTargetContention :: "bool \<Rightarrow> string \<Rightarrow> bool \<Rightarrow> bool" where
  "isRenameTargetContention directoryExists code windows =
     (if code = ''EEXIST'' \<or> code = ''ENOTEMPTY'' then True
      else if (code = ''EPERM'' \<or> code = ''EACCES'') \<and> windows then directoryExists
      else False)"

text \<open>
  An owner that is alive is taken for dead when its start id was read from \<open>/proc\<close> and this read fails for
  whoever checks it: the fallback answers in another form.
\<close>

lemma fallback_start_id_differs:
  assumes "lo_processStartId owner = Some (''proc:'' @ t)" "0 < lo_pid owner" "pq_stat q (lo_pid owner) = None"
    and "pq_ps q (lo_pid owner) = Some out" "trim_text out \<noteq> []"
  shows "\<not> isLeaseOwnerAlive (\<lambda>_. True) (getProcessStartId False executables q) owner"
  using assms by (simp add: isLeaseOwnerAlive_def getProcessStartId_def getPsProcessStartId_def Let_def)

section \<open>Taking and releasing a lease\<close>

text \<open>
  Where a process is in \<open>acquireSessionLease\<close> or \<open>release\<close>. What is done under the guard starts with
  \<open>Acquiring\<close> or \<open>Releasing\<close> and ends with \<open>Leaving\<close>.
\<close>

datatype lease_action = Acquire_Action | Release_Action lease_token

datatype lease_pc =
    Lease_Idle
  | Waiting_For_Guard lease_action
  | Acquiring nat
  | Renaming nat lease_owner
  | Judging nat
  | Reclaiming nat
  | Releasing lease_token
  | Reclaiming_Own
  | Leaving

text \<open>The directory of one session, the guard, and the processes: which run, where they are, which leases they hold.\<close>

record lease_world =
  lw_dir :: lease_dir
  lw_guard :: "nat option"
  lw_running :: "nat \<Rightarrow> bool"
  lw_pc :: "nat \<Rightarrow> lease_pc"
  lw_held :: "nat \<Rightarrow> lease_token set"
  lw_drawn :: "nat \<Rightarrow> nat"

definition empty_world :: lease_world where
  "empty_world = \<lparr>lw_dir = None, lw_guard = None, lw_running = (\<lambda>_. False), lw_pc = (\<lambda>_. Lease_Idle),
     lw_held = (\<lambda>_. {}), lw_drawn = (\<lambda>_. 0)\<rparr>"

definition at_pc :: "nat \<Rightarrow> lease_pc \<Rightarrow> lease_world \<Rightarrow> lease_world" where
  "at_pc p k w = w\<lparr>lw_pc := (lw_pc w)(p := k)\<rparr>"

definition start_action :: "lease_action \<Rightarrow> lease_pc" where
  "start_action a = (case a of Acquire_Action \<Rightarrow> Acquiring 0 | Release_Action t \<Rightarrow> Releasing t)"

text \<open>One pass of the loop; after the third it throws. A candidate is written, or writing it throws.\<close>

definition write_candidate :: "nat \<Rightarrow> nat \<Rightarrow> lease_owner option \<Rightarrow> lease_world \<Rightarrow> lease_world" where
  "write_candidate p attempt written w =
     (if \<not> attempt < 3 then at_pc p Leaving w
      else case written of
        None \<Rightarrow> at_pc p Leaving w
      | Some owner \<Rightarrow> at_pc p (Renaming attempt owner) (w\<lparr>lw_drawn := (lw_drawn w)(p := Suc (lw_drawn w p))\<rparr>))"

text \<open>\<open>renameSync\<close> onto the lease: it replaces an empty directory, and fails with a code otherwise or for another reason.\<close>

definition rename_candidate :: "nat \<Rightarrow> nat \<Rightarrow> lease_owner \<Rightarrow> lease_world \<Rightarrow> lease_world" where
  "rename_candidate p attempt owner w =
     at_pc p Leaving (w\<lparr>lw_dir := Some (Some (Owner_File owner)), lw_held := (lw_held w)(p := insert (lo_token owner) (lw_held w p))\<rparr>)"

definition rename_failed :: "bool \<Rightarrow> nat \<Rightarrow> nat \<Rightarrow> string \<Rightarrow> lease_world \<Rightarrow> lease_world" where
  "rename_failed windows p attempt code w =
     (if code = ''ENOENT'' then at_pc p (Acquiring (Suc attempt)) w
      else if isRenameTargetContention (lw_dir w \<noteq> None) code windows
           \<or> (code = ''EPERM'' \<or> code = ''EACCES'') \<and> lw_dir w \<noteq> None
      then at_pc p (Judging attempt) w
      else at_pc p Leaving w)"

definition judge_owner :: "nat \<Rightarrow> nat \<Rightarrow> owner_read \<Rightarrow> (lease_owner \<Rightarrow> bool) \<Rightarrow> lease_world \<Rightarrow> lease_world" where
  "judge_owner p attempt existingOwner owner_alive w =
     (case existingOwner of
        Read_Unreadable \<Rightarrow> at_pc p (Acquiring (Suc attempt)) w
      | Read_Corrupt \<Rightarrow> at_pc p Leaving w
      | Read_Absent \<Rightarrow> at_pc p (Reclaiming attempt) w
      | Read_Owner owner \<Rightarrow> if owner_alive owner then at_pc p Leaving w else at_pc p (Reclaiming attempt) w)"

text \<open>\<open>reclaimStaleLease\<close> moves the directory away; it gives true also where there is none, and false where it cannot.\<close>

definition reclaimStaleLease :: "bool \<Rightarrow> lease_world \<Rightarrow> bool \<times> lease_world" where
  "reclaimStaleLease moved w = (if lw_dir w = None then (True, w) else if moved then (True, w\<lparr>lw_dir := None\<rparr>) else (False, w))"

definition reclaim_and_retry :: "nat \<Rightarrow> nat \<Rightarrow> bool \<Rightarrow> lease_world \<Rightarrow> lease_world" where
  "reclaim_and_retry p attempt moved w =
     (let (reclaimed, w1) = reclaimStaleLease moved w in
      if reclaimed then at_pc p (Acquiring (Suc attempt)) w1 else at_pc p Leaving w1)"

definition begin_release :: "nat \<Rightarrow> lease_token \<Rightarrow> lease_world \<Rightarrow> lease_world" where
  "begin_release p t w =
     (if t \<notin> lw_held w p then w
      else at_pc p (Waiting_For_Guard (Release_Action t)) (w\<lparr>lw_held := (lw_held w)(p := lw_held w p - {t})\<rparr>))"

definition release_owner :: "nat \<Rightarrow> lease_token \<Rightarrow> owner_read \<Rightarrow> lease_world \<Rightarrow> lease_world" where
  "release_owner p t owner w =
     (case owner of
        Read_Owner o1 \<Rightarrow> if lo_token o1 = t then at_pc p Reclaiming_Own w else at_pc p Leaving w
      | _ \<Rightarrow> at_pc p Leaving w)"

definition release_reclaim :: "nat \<Rightarrow> bool \<Rightarrow> lease_world \<Rightarrow> lease_world" where
  "release_reclaim p moved w = at_pc p Leaving (snd (reclaimStaleLease moved w))"

text \<open>The end of \<open>withLeaseGuard\<close>: a guard that another process has taken over is not released.\<close>

definition leave_guard :: "nat \<Rightarrow> lease_world \<Rightarrow> lease_world" where
  "leave_guard p w = at_pc p Lease_Idle (w\<lparr>lw_guard := (if lw_guard w = Some p then None else lw_guard w)\<rparr>)"

section \<open>All processes of all users of a session\<close>

text \<open>
  The system: the pid of a process, its start id, the platform. \<open>takeover\<close> says whether a guard can be taken over
  from a process that runs: the guard (\<open>proper-lockfile\<close>) is held to be stale when it was not touched for five
  seconds, which the timers of a running process do unless it is busy that long.
\<close>

record lease_system =
  ls_pid :: "nat \<Rightarrow> int"
  ls_start :: "nat \<Rightarrow> string"
  ls_windows :: bool
  ls_takeover :: bool

text \<open>No two processes run with the same pid. The start id of a process is read or not, but never wrong.\<close>

definition process_exists :: "lease_system \<Rightarrow> lease_world \<Rightarrow> int \<Rightarrow> bool" where
  "process_exists sys w pid = (\<exists>r. lw_running w r \<and> ls_pid sys r = pid)"

definition reads_start :: "lease_system \<Rightarrow> lease_world \<Rightarrow> (int \<Rightarrow> string option) \<Rightarrow> bool" where
  "reads_start sys w startId \<longleftrightarrow> (\<forall>r. lw_running w r \<longrightarrow> startId (ls_pid sys r) \<in> {None, Some (ls_start sys r)})"

text \<open>The owner a process writes of itself.\<close>

definition own_owner :: "lease_system \<Rightarrow> lease_world \<Rightarrow> nat \<Rightarrow> lease_owner \<Rightarrow> bool" where
  "own_owner sys w p owner \<longleftrightarrow> lo_token owner = (p, lw_drawn w p) \<and> lo_pid owner = ls_pid sys p
     \<and> lo_processStartId owner \<in> {None, Some (ls_start sys p)}"

inductive lease_step :: "lease_system \<Rightarrow> lease_world \<Rightarrow> lease_world \<Rightarrow> bool" for sys where
  process_starts: "\<not> lw_running w p \<Longrightarrow> \<not> process_exists sys w (ls_pid sys p)
    \<Longrightarrow> lease_step sys w (w\<lparr>lw_running := (lw_running w)(p := True)\<rparr>)"
| process_ends: "lw_running w p
    \<Longrightarrow> lease_step sys w (at_pc p Lease_Idle (w\<lparr>lw_running := (lw_running w)(p := False), lw_held := (lw_held w)(p := {})\<rparr>))"
| guard_stale: "lw_guard w = Some q \<Longrightarrow> \<not> lw_running w q \<or> ls_takeover sys \<Longrightarrow> lease_step sys w (w\<lparr>lw_guard := None\<rparr>)"
| acquire_called: "lw_running w p \<Longrightarrow> lw_pc w p = Lease_Idle
    \<Longrightarrow> lease_step sys w (at_pc p (Waiting_For_Guard Acquire_Action) w)"
| release_called: "lw_running w p \<Longrightarrow> lw_pc w p = Lease_Idle \<Longrightarrow> lease_step sys w (begin_release p t w)"
| guard_taken: "lw_pc w p = Waiting_For_Guard a \<Longrightarrow> lw_guard w = None
    \<Longrightarrow> lease_step sys w (at_pc p (start_action a) (w\<lparr>lw_guard := Some p\<rparr>))"
| guard_refused: "lw_pc w p = Waiting_For_Guard a \<Longrightarrow> lease_step sys w (at_pc p Lease_Idle w)"
| candidate: "lw_pc w p = Acquiring attempt \<Longrightarrow> (\<forall>owner. written = Some owner \<longrightarrow> own_owner sys w p owner)
    \<Longrightarrow> lease_step sys w (write_candidate p attempt written w)"
| renamed: "lw_pc w p = Renaming attempt owner \<Longrightarrow> lw_dir w \<in> {None, Some None}
    \<Longrightarrow> lease_step sys w (rename_candidate p attempt owner w)"
| not_renamed: "lw_pc w p = Renaming attempt owner \<Longrightarrow> lease_step sys w (rename_failed (ls_windows sys) p attempt code w)"
| judged: "lw_pc w p = Judging attempt \<Longrightarrow> reads_start sys w startId
    \<Longrightarrow> lease_step sys w (judge_owner p attempt (readLeaseOwner failed (lw_dir w))
          (isLeaseOwnerAlive (process_exists sys w) startId) w)"
| reclaimed: "lw_pc w p = Reclaiming attempt \<Longrightarrow> lease_step sys w (reclaim_and_retry p attempt moved w)"
| release_read: "lw_pc w p = Releasing t \<Longrightarrow> lease_step sys w (release_owner p t (readLeaseOwner failed (lw_dir w)) w)"
| release_moved: "lw_pc w p = Reclaiming_Own \<Longrightarrow> lease_step sys w (release_reclaim p moved w)"
| guard_left: "lw_pc w p = Leaving \<Longrightarrow> lease_step sys w (leave_guard p w)"

definition lease_reachable :: "lease_system \<Rightarrow> lease_world \<Rightarrow> bool" where
  "lease_reachable sys = reach (\<lambda>w. w = empty_world) (lease_step sys)"

section \<open>The invariant\<close>







text \<open>A step of one process that leaves the directory, the leases and the guard of others alone.\<close>

lemma at_pc_fields [simp]:
  "lw_dir (at_pc p k w) = lw_dir w" "lw_guard (at_pc p k w) = lw_guard w" "lw_running (at_pc p k w) = lw_running w"
  "lw_held (at_pc p k w) = lw_held w" "lw_drawn (at_pc p k w) = lw_drawn w" "lw_pc (at_pc p k w) = (lw_pc w)(p := k)"
  by (simp_all add: at_pc_def)

















lemma reclaim_fields [simp]:
  "lw_guard (snd (reclaimStaleLease moved w)) = lw_guard w" "lw_running (snd (reclaimStaleLease moved w)) = lw_running w"
  "lw_pc (snd (reclaimStaleLease moved w)) = lw_pc w"
  by (simp_all add: reclaimStaleLease_def)













text \<open>A process takes the lease of a session.\<close>

definition sample_system :: lease_system where
  "sample_system = \<lparr>ls_pid = (\<lambda>p. int p + 1), ls_start = (\<lambda>_. ''proc:7''), ls_windows = False, ls_takeover = False\<rparr>"

definition sample_owner :: lease_owner where
  "sample_owner = \<lparr>lo_token = (0, 0), lo_pid = 1, lo_processStartId = Some ''proc:7'', lo_activeSessionId = None,
     lo_sessionPath = ''/s'', lo_createdAt = ''now''\<rparr>"

definition sample_world :: lease_world where
  "sample_world =
     (let w1 = empty_world\<lparr>lw_running := (\<lambda>_. False)(0 := True)\<rparr>;
          w2 = at_pc 0 (Waiting_For_Guard Acquire_Action) w1;
          w3 = at_pc 0 (start_action Acquire_Action) (w2\<lparr>lw_guard := Some 0\<rparr>);
          w4 = write_candidate 0 0 (Some sample_owner) w3
      in rename_candidate 0 0 sample_owner w4)"

lemma sample_reachable:
  assumes "ls_pid sys 0 = 1" "ls_start sys 0 = ''proc:7''"
  shows "lease_reachable sys sample_world"
proof -
  let ?w1 = "empty_world\<lparr>lw_running := (\<lambda>_. False)(0 := True)\<rparr>"
  let ?w2 = "at_pc 0 (Waiting_For_Guard Acquire_Action) ?w1"
  let ?w3 = "at_pc 0 (start_action Acquire_Action) (?w2\<lparr>lw_guard := Some 0\<rparr>)"
  let ?w4 = "write_candidate 0 0 (Some sample_owner) ?w3"
  let ?r = "lease_reachable sys"
  have step: "?r v" if "?r w" "lease_step sys w v" for v w
    using that unfolding lease_reachable_def by (rule reach_step)
  have "?r empty_world" unfolding lease_reachable_def by (rule reach_init) simp
  then have "?r ?w1"
    by (rule step) (use process_starts[of empty_world 0 sys] in \<open>simp add: empty_world_def process_exists_def\<close>)
  then have "?r ?w2" by (rule step) (rule acquire_called, simp_all add: empty_world_def)
  then have "?r ?w3" by (rule step) (rule guard_taken, simp_all add: empty_world_def)
  then have "?r ?w4"
    by (rule step) (rule candidate, simp_all add: start_action_def own_owner_def sample_owner_def empty_world_def assms)
  then have "?r (rename_candidate 0 0 sample_owner ?w4)"
    by (rule step) (rule renamed, simp_all add: write_candidate_def start_action_def empty_world_def)
  then show ?thesis by (simp add: sample_world_def Let_def)
qed


text \<open>
  A release that does not get the guard leaves the lease to its process: it is not held any more, but it is in
  the directory with an owner that runs, which every process judges to be alive, this one included. It
  is free again only when the process ends.
\<close>

lemma refused_release_keeps_lease:
  assumes "lw_dir w = Some (Some (Owner_File owner))" "lw_running w p" "lo_pid owner = ls_pid sys p"
    and "lo_processStartId owner \<in> {None, Some (ls_start sys p)}" "reads_start sys w startId"
  shows "judge_owner q attempt (readLeaseOwner False (lw_dir w)) (isLeaseOwnerAlive (process_exists sys w) startId) w
    = at_pc q Leaving w"
proof -
  have "process_exists sys w (lo_pid owner)" using assms(2,3) by (auto simp: process_exists_def)
  moreover have "startId (lo_pid owner) \<in> {None, Some (ls_start sys p)}" using assms(2,3,5) by (auto simp: reads_start_def)
  ultimately have "isLeaseOwnerAlive (process_exists sys w) startId owner" using assms(4) by (auto simp: isLeaseOwnerAlive_def Let_def)
  then show ?thesis using assms(1) by (simp add: judge_owner_def readLeaseOwner_def)
qed

text \<open>An owner that has ended, with no other process at its pid, is reclaimed.\<close>

lemma dead_owner_is_reclaimed:
  assumes "lw_dir w = Some (Some (Owner_File owner))" "\<not> process_exists sys w (lo_pid owner)"
  shows "judge_owner q attempt (readLeaseOwner False (lw_dir w)) (isLeaseOwnerAlive (process_exists sys w) startId) w
    = at_pc q (Reclaiming attempt) w"
  using assms by (simp add: judge_owner_def readLeaseOwner_def isLeaseOwnerAlive_def)

section \<open>When the guard is taken over\<close>

text \<open>Process 0 has died with the lease; 2 and 3 run.\<close>

definition two_processes ::
  "lease_dir \<Rightarrow> nat option \<Rightarrow> lease_pc \<Rightarrow> lease_pc \<Rightarrow> lease_token set \<Rightarrow> lease_token set \<Rightarrow> nat \<Rightarrow> nat \<Rightarrow> lease_world" where
  "two_processes d g k1 k2 h1 h2 n1 n2 =
     \<lparr>lw_dir = d, lw_guard = g, lw_running = (\<lambda>_. False)(2 := True, 3 := True), lw_pc = (\<lambda>_. Lease_Idle)(2 := k1, 3 := k2),
      lw_held = (\<lambda>_. {})(2 := h1, 3 := h2), lw_drawn = (\<lambda>_. 0)(0 := 1, 2 := n1, 3 := n2)\<rparr>"

definition takeover_system :: lease_system where
  "takeover_system = sample_system\<lparr>ls_takeover := True\<rparr>"

definition owner_of :: "nat \<Rightarrow> nat \<Rightarrow> lease_owner" where
  "owner_of p n = sample_owner\<lparr>lo_token := (p, n), lo_pid := int p + 1\<rparr>"

lemma two_processes_fields [simp]:
  "lw_dir (two_processes d g k1 k2 h1 h2 n1 n2) = d" "lw_guard (two_processes d g k1 k2 h1 h2 n1 n2) = g"
  "lw_pc (two_processes d g k1 k2 h1 h2 n1 n2) = (\<lambda>_. Lease_Idle)(2 := k1, 3 := k2)"
  "lw_held (two_processes d g k1 k2 h1 h2 n1 n2) = (\<lambda>_. {})(2 := h1, 3 := h2)"
  "lw_running (two_processes d g k1 k2 h1 h2 n1 n2) = (\<lambda>_. False)(2 := True, 3 := True)"
  "lw_drawn (two_processes d g k1 k2 h1 h2 n1 n2) = (\<lambda>_. 0)(0 := 1, 2 := n1, 3 := n2)"
  by (simp_all add: two_processes_def)

lemma two_processes_steps:
  fixes d g k1 k2 h1 h2 n1 n2
  defines "w \<equiv> two_processes d g k1 k2 h1 h2 n1 n2" and "sys \<equiv> takeover_system"
  shows "k1 = Lease_Idle \<Longrightarrow> lease_step sys w (two_processes d g (Waiting_For_Guard Acquire_Action) k2 h1 h2 n1 n2)"
    and "k2 = Lease_Idle \<Longrightarrow> lease_step sys w (two_processes d g k1 (Waiting_For_Guard Acquire_Action) h1 h2 n1 n2)"
    and "g \<noteq> None \<Longrightarrow> lease_step sys w (two_processes d None k1 k2 h1 h2 n1 n2)"
    and "k1 = Waiting_For_Guard Acquire_Action \<Longrightarrow> g = None \<Longrightarrow> lease_step sys w (two_processes d (Some 2) (Acquiring 0) k2 h1 h2 n1 n2)"
    and "k2 = Waiting_For_Guard Acquire_Action \<Longrightarrow> g = None \<Longrightarrow> lease_step sys w (two_processes d (Some 3) k1 (Acquiring 0) h1 h2 n1 n2)"
    and "k1 = Acquiring a \<Longrightarrow> a < 3 \<Longrightarrow> lease_step sys w (two_processes d g (Renaming a (owner_of 2 n1)) k2 h1 h2 (Suc n1) n2)"
    and "k2 = Acquiring a \<Longrightarrow> a < 3 \<Longrightarrow> lease_step sys w (two_processes d g k1 (Renaming a (owner_of 3 n2)) h1 h2 n1 (Suc n2))"
    and "k1 = Renaming a own1 \<Longrightarrow> d \<noteq> None \<Longrightarrow> lease_step sys w (two_processes d g (Judging a) k2 h1 h2 n1 n2)"
    and "k2 = Renaming a own1 \<Longrightarrow> d \<noteq> None \<Longrightarrow> lease_step sys w (two_processes d g k1 (Judging a) h1 h2 n1 n2)"
    and "k1 = Judging a \<Longrightarrow> d = Some (Some (Owner_File sample_owner)) \<Longrightarrow> lease_step sys w (two_processes d g (Reclaiming a) k2 h1 h2 n1 n2)"
    and "k2 = Judging a \<Longrightarrow> d = Some (Some (Owner_File sample_owner)) \<Longrightarrow> lease_step sys w (two_processes d g k1 (Reclaiming a) h1 h2 n1 n2)"
    and "k1 = Reclaiming a \<Longrightarrow> lease_step sys w (two_processes None g (Acquiring (Suc a)) k2 h1 h2 n1 n2)"
    and "k2 = Reclaiming a \<Longrightarrow> lease_step sys w (two_processes None g k1 (Acquiring (Suc a)) h1 h2 n1 n2)"
    and "k1 = Renaming a own1 \<Longrightarrow> d = None \<Longrightarrow>
      lease_step sys w (two_processes (Some (Some (Owner_File own1))) g Leaving k2 (insert (lo_token own1) h1) h2 n1 n2)"
    and "k2 = Renaming a own1 \<Longrightarrow> d = None \<Longrightarrow>
      lease_step sys w (two_processes (Some (Some (Owner_File own1))) g k1 Leaving h1 (insert (lo_token own1) h2) n1 n2)"
proof -
  have up: "at_pc 2 k (two_processes d g k1 k2 h1 h2 n1 n2) = two_processes d g k k2 h1 h2 n1 n2"
    "at_pc 3 k (two_processes d g k1 k2 h1 h2 n1 n2) = two_processes d g k1 k h1 h2 n1 n2" for k d g k1 k2 h1 h2 n1 n2
    by (simp_all add: two_processes_def at_pc_def fun_upd_twist)
  have upg: "w\<lparr>lw_guard := g'\<rparr> = two_processes d g' k1 k2 h1 h2 n1 n2" for g'
    by (simp add: w_def two_processes_def)
  show "k1 = Lease_Idle \<Longrightarrow> lease_step sys w (two_processes d g (Waiting_For_Guard Acquire_Action) k2 h1 h2 n1 n2)"
    using acquire_called[of w 2 sys] by (simp add: w_def up)
  show "k2 = Lease_Idle \<Longrightarrow> lease_step sys w (two_processes d g k1 (Waiting_For_Guard Acquire_Action) h1 h2 n1 n2)"
    using acquire_called[of w 3 sys] by (simp add: w_def up)
  show "g \<noteq> None \<Longrightarrow> lease_step sys w (two_processes d None k1 k2 h1 h2 n1 n2)"
    using guard_stale[of w _ sys] by (auto simp: w_def two_processes_def sys_def takeover_system_def)
  show "k1 = Waiting_For_Guard Acquire_Action \<Longrightarrow> g = None \<Longrightarrow> lease_step sys w (two_processes d (Some 2) (Acquiring 0) k2 h1 h2 n1 n2)"
    using guard_taken[of w 2 Acquire_Action sys] by (simp add: upg up start_action_def) (simp add: w_def)
  show "k2 = Waiting_For_Guard Acquire_Action \<Longrightarrow> g = None \<Longrightarrow> lease_step sys w (two_processes d (Some 3) k1 (Acquiring 0) h1 h2 n1 n2)"
    using guard_taken[of w 3 Acquire_Action sys] by (simp add: upg up start_action_def) (simp add: w_def)
  have own: "own_owner sys w 2 (owner_of 2 n1)" "own_owner sys w 3 (owner_of 3 n2)"
    by (simp_all add: own_owner_def w_def owner_of_def sample_owner_def sys_def takeover_system_def sample_system_def)
  have cand: "a < 3 \<Longrightarrow> write_candidate 2 a (Some (owner_of 2 n1)) w = two_processes d g (Renaming a (owner_of 2 n1)) k2 h1 h2 (Suc n1) n2"
    "a < 3 \<Longrightarrow> write_candidate 3 a (Some (owner_of 3 n2)) w = two_processes d g k1 (Renaming a (owner_of 3 n2)) h1 h2 n1 (Suc n2)" for a
    by (simp_all add: write_candidate_def w_def two_processes_def at_pc_def fun_upd_twist)
  show "k1 = Acquiring a \<Longrightarrow> a < 3 \<Longrightarrow> lease_step sys w (two_processes d g (Renaming a (owner_of 2 n1)) k2 h1 h2 (Suc n1) n2)"
    using candidate[of w 2 a "Some (owner_of 2 n1)" sys] own(1) cand(1) by (simp add: w_def)
  show "k2 = Acquiring a \<Longrightarrow> a < 3 \<Longrightarrow> lease_step sys w (two_processes d g k1 (Renaming a (owner_of 3 n2)) h1 h2 n1 (Suc n2))"
    using candidate[of w 3 a "Some (owner_of 3 n2)" sys] own(2) cand(2) by (simp add: w_def)
  have eexist: "isRenameTargetContention True ''EEXIST'' b" for b by (simp add: isRenameTargetContention_def)
  show "k1 = Renaming a own1 \<Longrightarrow> d \<noteq> None \<Longrightarrow> lease_step sys w (two_processes d g (Judging a) k2 h1 h2 n1 n2)"
    using not_renamed[of w 2 a own1 sys "''EEXIST''"] by (simp add: rename_failed_def eexist w_def up)
  show "k2 = Renaming a own1 \<Longrightarrow> d \<noteq> None \<Longrightarrow> lease_step sys w (two_processes d g k1 (Judging a) h1 h2 n1 n2)"
    using not_renamed[of w 3 a own1 sys "''EEXIST''"] by (simp add: rename_failed_def eexist w_def up)
  have dead: "\<not> isLeaseOwnerAlive (process_exists sys w) (\<lambda>_. None) sample_owner"
    by (simp add: isLeaseOwnerAlive_def process_exists_def w_def sys_def takeover_system_def sample_system_def sample_owner_def)
  have rs: "reads_start sys w (\<lambda>_. None)" by (simp add: reads_start_def)
  show "k1 = Judging a \<Longrightarrow> d = Some (Some (Owner_File sample_owner)) \<Longrightarrow> lease_step sys w (two_processes d g (Reclaiming a) k2 h1 h2 n1 n2)"
    using judged[of w 2 a sys "\<lambda>_. None" False] rs dead by (simp add: judge_owner_def readLeaseOwner_def) (simp add: w_def up)
  show "k2 = Judging a \<Longrightarrow> d = Some (Some (Owner_File sample_owner)) \<Longrightarrow> lease_step sys w (two_processes d g k1 (Reclaiming a) h1 h2 n1 n2)"
    using judged[of w 3 a sys "\<lambda>_. None" False] rs dead by (simp add: judge_owner_def readLeaseOwner_def) (simp add: w_def up)
  have free: "snd (reclaimStaleLease True w) = two_processes None g k1 k2 h1 h2 n1 n2" "fst (reclaimStaleLease True w)"
    by (auto simp: reclaimStaleLease_def w_def two_processes_def)
  show "k1 = Reclaiming a \<Longrightarrow> lease_step sys w (two_processes None g (Acquiring (Suc a)) k2 h1 h2 n1 n2)"
    using reclaimed[of w 2 a sys True] free by (simp add: reclaim_and_retry_def split_def Let_def up) (simp add: w_def)
  show "k2 = Reclaiming a \<Longrightarrow> lease_step sys w (two_processes None g k1 (Acquiring (Suc a)) h1 h2 n1 n2)"
    using reclaimed[of w 3 a sys True] free by (simp add: reclaim_and_retry_def split_def Let_def up) (simp add: w_def)
  have ren: "rename_candidate 2 a own1 w = two_processes (Some (Some (Owner_File own1))) g Leaving k2 (insert (lo_token own1) h1) h2 n1 n2"
    "rename_candidate 3 a own1 w = two_processes (Some (Some (Owner_File own1))) g k1 Leaving h1 (insert (lo_token own1) h2) n1 n2" for a
    by (simp_all add: rename_candidate_def w_def two_processes_def at_pc_def fun_upd_twist)
  show "k1 = Renaming a own1 \<Longrightarrow> d = None \<Longrightarrow>
      lease_step sys w (two_processes (Some (Some (Owner_File own1))) g Leaving k2 (insert (lo_token own1) h1) h2 n1 n2)"
    using renamed[of w 2 a own1 sys] ren(1) by (simp add: w_def)
  show "k2 = Renaming a own1 \<Longrightarrow> d = None \<Longrightarrow>
      lease_step sys w (two_processes (Some (Some (Owner_File own1))) g k1 Leaving h1 (insert (lo_token own1) h2) n1 n2)"
    using renamed[of w 3 a own1 sys] ren(2) by (simp add: w_def)
qed

lemma takeover_start:
  "lease_reachable takeover_system (two_processes (Some (Some (Owner_File sample_owner))) None Lease_Idle Lease_Idle {} {} 0 0)"
proof -
  let ?r = "lease_reachable takeover_system"
  have step: "?r v" if "?r w" "lease_step takeover_system w v" for v w
    using that unfolding lease_reachable_def by (rule reach_step)
  have sys: "ls_pid takeover_system p = int p + 1" "ls_start takeover_system p = ''proc:7''" for p
    by (simp_all add: takeover_system_def sample_system_def)
  let ?w1 = "at_pc 0 Lease_Idle (sample_world\<lparr>lw_running := (lw_running sample_world)(0 := False), lw_held := (lw_held sample_world)(0 := {})\<rparr>)"
  let ?w2 = "?w1\<lparr>lw_guard := None\<rparr>"
  let ?w3 = "?w2\<lparr>lw_running := (lw_running ?w2)(2 := True)\<rparr>"
  let ?w4 = "?w3\<lparr>lw_running := (lw_running ?w3)(3 := True)\<rparr>"
  have f: "lw_running sample_world = (\<lambda>_. False)(0 := True)" "lw_guard sample_world = Some 0"
    by (simp_all add: sample_world_def Let_def rename_candidate_def write_candidate_def start_action_def empty_world_def)
  have "?r sample_world" by (rule sample_reachable) (simp_all add: sys)
  then have "?r ?w1" by (rule step) (rule process_ends, simp add: f)
  then have "?r ?w2" by (rule step) (rule guard_stale[of _ 0], simp_all add: f)
  then have "?r ?w3" by (rule step) (rule process_starts, simp_all add: f process_exists_def)
  then have "?r ?w4" by (rule step) (rule process_starts, simp_all add: f process_exists_def sys)
  moreover have "?w4 = two_processes (Some (Some (Owner_File sample_owner))) None Lease_Idle Lease_Idle {} {} 0 0"
    by (simp add: sample_world_def Let_def rename_candidate_def write_candidate_def start_action_def empty_world_def at_pc_def
        two_processes_def fun_eq_iff)
  ultimately show ?thesis by simp
qed

text \<open>
  Both judge the lease of the dead process. Process 2 stops before it moves it away, for five seconds, and
  loses the guard; 3 takes the lease; 2 goes on, moves this lease away and takes its place. Both hold one.
\<close>

lemma guard_takeover_two_holders:
  "\<exists>w. lease_reachable takeover_system w \<and> (2, 1) \<in> lw_held w 2 \<and> (3, 1) \<in> lw_held w 3"
proof -
  let ?d = "Some (Some (Owner_File sample_owner))"
  define r where "r d g k1 k2 h1 h2 n1 n2 \<longleftrightarrow> lease_reachable takeover_system (two_processes d g k1 k2 h1 h2 n1 n2)"
    for d g k1 k2 h1 h2 n1 n2
  have r: "r d g k1 k2 h1 h2 n1 n2 \<Longrightarrow> lease_step takeover_system (two_processes d g k1 k2 h1 h2 n1 n2)
      (two_processes d' g' k1' k2' h1' h2' n1' n2') \<Longrightarrow> r d' g' k1' k2' h1' h2' n1' n2'"
    for d g k1 k2 h1 h2 n1 n2 d' g' k1' k2' h1' h2' n1' n2'
    unfolding r_def lease_reachable_def by (rule reach_step)
  note S = two_processes_steps
  have "r ?d None Lease_Idle Lease_Idle {} {} 0 0" unfolding r_def by (rule takeover_start)
  then have "r ?d None (Waiting_For_Guard Acquire_Action) Lease_Idle {} {} 0 0" by (rule r) (rule S(1), simp)
  then have "r ?d (Some 2) (Acquiring 0) Lease_Idle {} {} 0 0" by (rule r) (rule S(4), simp_all)
  then have "r ?d (Some 2) (Renaming 0 (owner_of 2 0)) Lease_Idle {} {} (Suc 0) 0" by (rule r) (rule S(6), simp_all)
  then have "r ?d (Some 2) (Judging 0) Lease_Idle {} {} (Suc 0) 0" by (rule r) (rule S(8), simp_all)
  then have "r ?d (Some 2) (Reclaiming 0) Lease_Idle {} {} (Suc 0) 0" by (rule r) (rule S(10), simp_all)
  then have "r ?d None (Reclaiming 0) Lease_Idle {} {} (Suc 0) 0" by (rule r) (rule S(3), simp)
  then have "r ?d None (Reclaiming 0) (Waiting_For_Guard Acquire_Action) {} {} (Suc 0) 0" by (rule r) (rule S(2), simp)
  then have "r ?d (Some 3) (Reclaiming 0) (Acquiring 0) {} {} (Suc 0) 0" by (rule r) (rule S(5), simp_all)
  then have "r ?d (Some 3) (Reclaiming 0) (Renaming 0 (owner_of 3 0)) {} {} (Suc 0) (Suc 0)" by (rule r) (rule S(7), simp_all)
  then have "r ?d (Some 3) (Reclaiming 0) (Judging 0) {} {} (Suc 0) (Suc 0)" by (rule r) (rule S(9), simp_all)
  then have "r ?d (Some 3) (Reclaiming 0) (Reclaiming 0) {} {} (Suc 0) (Suc 0)" by (rule r) (rule S(11), simp_all)
  then have "r None (Some 3) (Reclaiming 0) (Acquiring (Suc 0)) {} {} (Suc 0) (Suc 0)" by (rule r) (rule S(13), simp)
  then have "r None (Some 3) (Reclaiming 0) (Renaming (Suc 0) (owner_of 3 1)) {} {} (Suc 0) (Suc 1)"
    by (rule r) (use S(7)[where ?n2.0 = 1] in simp)
  then have "r (Some (Some (Owner_File (owner_of 3 1)))) (Some 3) (Reclaiming 0) Leaving {} {lo_token (owner_of 3 1)} (Suc 0) (Suc 1)"
    by (rule r) (rule S(15), simp_all)
  then have "r None (Some 3) (Acquiring (Suc 0)) Leaving {} {lo_token (owner_of 3 1)} (Suc 0) (Suc 1)" by (rule r) (rule S(12), simp)
  then have "r None (Some 3) (Renaming (Suc 0) (owner_of 2 1)) Leaving {} {lo_token (owner_of 3 1)} (Suc 1) (Suc 1)"
    by (rule r) (use S(6)[where ?n1.0 = 1] in simp)
  then have "r (Some (Some (Owner_File (owner_of 2 1)))) (Some 3) Leaving Leaving {lo_token (owner_of 2 1)} {lo_token (owner_of 3 1)} (Suc 1) (Suc 1)"
    by (rule r) (rule S(14), simp_all)
  then show ?thesis
    unfolding r_def by (intro exI conjI) (assumption, simp_all add: owner_of_def)
qed

end
