(* ===== verification/Compact_Stream.thy ===== *)
theory Compact_Stream
  imports Messages
begin

text \<open>
  The compact form of assistant updates between a session worker and the supervisor,
  \<open>coding-agent/src/modes/daemon/compact-session-stream.ts\<close>: the worker leaves the partial message out of
  each update, the supervisor reconstructs it from the one it was given at the start.
\<close>

section \<open>Messages and events on the wire\<close>

text \<open>
  A message that is streamed: its other fields and its content, an array that may have holes where a
  block was written past the end.
\<close>

type_synonym slots = "assistant_block option list"

record streamed_message =
  sm_fields :: assistant_message
  sm_content :: slots

definition slot :: "slots \<Rightarrow> nat \<Rightarrow> assistant_block option" where
  "slot content i = (if i < length content then content ! i else None)"

definition set_slot :: "nat \<Rightarrow> assistant_block \<Rightarrow> slots \<Rightarrow> slots" where
  "set_slot i b content =
     (if i < length content then content[i := Some b]
      else content @ replicate (i - length content) None @ [Some b])"

text \<open>\<open>AssistantMessageEvent\<close> without the partial message.\<close>

datatype compact_event =
    Ev_Start
  | Text_Start nat | Text_Delta nat string | Text_End nat string
  | Thinking_Start nat | Thinking_Delta nat string | Thinking_End nat string
  | Toolcall_Start nat | Toolcall_Delta nat string | Toolcall_End nat tool_call
  | Ev_Done | Ev_Error

datatype wire_event =
    Message_Start "streamed_message option"  \<comment> \<open>None for a role other than assistant\<close>
  | Message_Update "streamed_message option" compact_event
  | Message_End
  | Other_Session_Event

datatype daemon_outbound =
    Session_Event string wire_event "json option"
  | Session_Replaced string | Session_Resynced string | Session_Closed string
  | Other_Outbound

record compact_delta =
  cd_activeSessionId :: string
  cd_event :: compact_event
  cd_contentStart :: "assistant_block option"
  cd_toolCallArguments :: "json option"
  cd_meta :: "json option"

section \<open>The worker's side\<close>

definition compactToolCallArguments :: "streamed_message \<Rightarrow> compact_event \<Rightarrow> json option" where
  "compactToolCallArguments message event =
     (case event of
        Toolcall_Delta i _ \<Rightarrow> (case slot (sm_content message) i of
            Some (A_tool_call c) \<Rightarrow> Some (tc_arguments c)
          | _ \<Rightarrow> None)
      | _ \<Rightarrow> None)"

definition compactContentStart :: "streamed_message \<Rightarrow> compact_event \<Rightarrow> assistant_block option" where
  "compactContentStart message event =
     (case event of
        Text_Start i \<Rightarrow> (case slot (sm_content message) i of Some (A_text t s) \<Rightarrow> Some (A_text [] s) | _ \<Rightarrow> None)
      | Thinking_Start i \<Rightarrow> (case slot (sm_content message) i of Some (A_thinking t s r) \<Rightarrow> Some (A_thinking [] s r) | _ \<Rightarrow> None)
      | Toolcall_Start i \<Rightarrow> (case slot (sm_content message) i of
            Some (A_tool_call c) \<Rightarrow> Some (A_tool_call (c\<lparr>tc_arguments := JObj []\<rparr>)) | _ \<Rightarrow> None)
      | _ \<Rightarrow> None)"


section \<open>The supervisor's side\<close>

record reconstructor =
  rc_partialMessages :: "string \<rightharpoonup> streamed_message"
  rc_toolCallJson :: "string \<rightharpoonup> string"


fun nat_digits :: "nat \<Rightarrow> string" where
  "nat_digits n = (if n < 10 then [char_of (48 + n)] else nat_digits (n div 10) @ [char_of (48 + n mod 10)])"

lemmas [simp del] = nat_digits.simps

definition toolCallKey :: "string \<Rightarrow> nat \<Rightarrow> string" where
  "toolCallKey activeSessionId contentIndex = activeSessionId @ '':'' @ nat_digits contentIndex"


definition clear_session :: "string \<Rightarrow> reconstructor \<Rightarrow> reconstructor" where
  "clear_session activeSessionId r =
     r\<lparr>rc_partialMessages := (rc_partialMessages r)(activeSessionId := None),
       rc_toolCallJson := (\<lambda>key. if prefix (activeSessionId @ '':'') key then None else rc_toolCallJson r key)\<rparr>"

definition observe :: "daemon_outbound \<Rightarrow> reconstructor \<Rightarrow> reconstructor" where
  "observe message r =
     (case message of
        Session_Replaced sid \<Rightarrow> clear_session sid r
      | Session_Resynced sid \<Rightarrow> clear_session sid r
      | Session_Closed sid \<Rightarrow> clear_session sid r
      | Other_Outbound \<Rightarrow> r
      | Session_Event sid event _ \<Rightarrow> (case event of
            Message_Start (Some m) \<Rightarrow> r\<lparr>rc_partialMessages := (rc_partialMessages r)(sid \<mapsto> m)\<rparr>
          | Message_End \<Rightarrow> clear_session sid r
          | _ \<Rightarrow> r))"

text \<open>
  What an event does to the content, and the JSON of the tool call it goes to; None where the event does
  not fit. \<open>parse\<close> is \<open>parseStreamingJson\<close>.
\<close>

definition reconstruct_content ::
  "(string \<Rightarrow> json) \<Rightarrow> compact_delta \<Rightarrow> slots \<Rightarrow> (string \<rightharpoonup> string) \<Rightarrow> (slots \<times> (string \<rightharpoonup> string)) option" where
  "reconstruct_content parse delta content js =
     (case cd_event delta of
        Text_Start i \<Rightarrow> Some (set_slot i (case cd_contentStart delta of Some b \<Rightarrow> b | None \<Rightarrow> A_text [] None) content, js)
      | Text_Delta i d \<Rightarrow> (case slot content i of
            Some (A_text t s) \<Rightarrow> Some (set_slot i (A_text (t @ d) s) content, js)
          | _ \<Rightarrow> None)
      | Text_End i c \<Rightarrow> (case slot content i of
            Some (A_text t s) \<Rightarrow> Some (set_slot i (A_text c s) content, js)
          | _ \<Rightarrow> None)
      | Thinking_Start i \<Rightarrow> Some (set_slot i (case cd_contentStart delta of Some b \<Rightarrow> b | None \<Rightarrow> A_thinking [] None None) content, js)
      | Thinking_Delta i d \<Rightarrow> (case slot content i of
            Some (A_thinking t s x) \<Rightarrow> Some (set_slot i (A_thinking (t @ d) s x) content, js)
          | _ \<Rightarrow> None)
      | Thinking_End i c \<Rightarrow> (case slot content i of
            Some (A_thinking t s x) \<Rightarrow> Some (set_slot i (A_thinking c s x) content, js)
          | _ \<Rightarrow> None)
      | Toolcall_Start i \<Rightarrow> (case cd_contentStart delta of
            Some (A_tool_call c) \<Rightarrow>
              Some (set_slot i (A_tool_call c) content, js(toolCallKey (cd_activeSessionId delta) i \<mapsto> []))
          | _ \<Rightarrow> None)
      | Toolcall_Delta i d \<Rightarrow> (case slot content i of
            Some (A_tool_call c) \<Rightarrow> (case cd_toolCallArguments delta of
                Some args \<Rightarrow> Some (set_slot i (A_tool_call (c\<lparr>tc_arguments := args\<rparr>)) content, js)
              | None \<Rightarrow>
                  (let key = toolCallKey (cd_activeSessionId delta) i;
                       partialJson = (case js key of None \<Rightarrow> [] | Some t \<Rightarrow> t) @ d
                   in Some (set_slot i (A_tool_call (c\<lparr>tc_arguments := parse partialJson\<rparr>)) content, js(key \<mapsto> partialJson))))
          | _ \<Rightarrow> None)
      | Toolcall_End i toolCall \<Rightarrow>
          Some (set_slot i (A_tool_call toolCall) content, js(toolCallKey (cd_activeSessionId delta) i := None))
      | _ \<Rightarrow> None)"

definition reconstruct ::
  "(string \<Rightarrow> json) \<Rightarrow> compact_delta \<Rightarrow> reconstructor \<Rightarrow> daemon_outbound option \<times> reconstructor" where
  "reconstruct parse delta r =
     (case rc_partialMessages r (cd_activeSessionId delta) of
        None \<Rightarrow> (None, r)
      | Some m \<Rightarrow> (case reconstruct_content parse delta (sm_content m) (rc_toolCallJson r) of
          None \<Rightarrow> (None, r)
        | Some (content, js) \<Rightarrow>
            (let m1 = m\<lparr>sm_content := content\<rparr> in
             (Some (Session_Event (cd_activeSessionId delta) (Message_Update (Some m1) (cd_event delta)) (cd_meta delta)),
              r\<lparr>rc_partialMessages := (rc_partialMessages r)(cd_activeSessionId delta \<mapsto> m1), rc_toolCallJson := js\<rparr>))))"

section \<open>The stream of a message\<close>








lemma slot_set_slot [simp]: "slot (set_slot i b c) i = Some b"
  by (simp add: slot_def set_slot_def nth_append)







text \<open>Updates of one session leave the messages of the others alone.\<close>

lemma reconstruct_other_sessions:
  "sid \<noteq> cd_activeSessionId delta \<Longrightarrow>
   rc_partialMessages (snd (reconstruct parse delta r)) sid = rc_partialMessages r sid"
  by (auto simp: reconstruct_def Let_def split: option.splits)

text \<open>A delta with no message it belongs to, or that does not fit it, gives nothing and changes nothing.\<close>

lemma reconstruct_refused:
  "fst (reconstruct parse delta r) = None \<Longrightarrow> snd (reconstruct parse delta r) = r"
  by (auto simp: reconstruct_def Let_def split: option.splits)

text \<open>
  A block of redacted reasoning starts with a text and gets no delta; the delta that starts it has none,
  so it is shown empty until it ends.
\<close>

lemma redacted_reasoning_starts_empty:
  assumes "slot (sm_content m) i = Some (A_thinking t s x)" "event = Thinking_Start i"
  shows "reconstruct_content parse
      \<lparr>cd_activeSessionId = sid, cd_event = event, cd_contentStart = compactContentStart m event,
        cd_toolCallArguments = compactToolCallArguments m event, cd_meta = meta\<rparr> content js
    = Some (set_slot i (A_thinking [] s x) content, js)"
  using assms by (simp add: reconstruct_content_def compactContentStart_def)

end
