(* ===== verification/Snapshot_Cache.thy ===== *)
theory Snapshot_Cache
  imports Journal_Files
begin

text \<open>
  The cache of a session's transcript (\<open>modes/daemon/snapshot-transcript-cache.ts\<close>): a snapshot that is sent to
  clients in chunks is held in memory up to a limit and in files above it, while it is still written and several readers
  follow it. The encoding of messages, the text before a chunk's messages and which file operations fail are parameters.
  A chunk that the code throws on is one that is not stored; an error that a call throws is not part of the state.
\<close>

section \<open>The chunks of a transcript\<close>

text \<open>\<open>{"type":"session_snapshot_chunk",...,"messages":[\<close> with the index, the messages between commas, and \<open>]}\<close> with a line end.\<close>

definition chunk_line :: "(nat \<Rightarrow> bytes) \<Rightarrow> nat \<Rightarrow> bytes list \<Rightarrow> bytes" where
  "chunk_line header index serializedMessages =
     header index @ concat (map (\<lambda>(k, m). (if k = 0 then [] else [44]) @ m) (enumerate 0 serializedMessages)) @ [93, 125, 10]"

text \<open>
  The loop: the messages of each chunk that is yielded, and whether the signal threw; \<open>aborted\<close> is its state when a
  message is begun, and at the end. \<open>serialize\<close> is \<open>JSON.stringify\<close> in UTF-8.
\<close>

fun chunk_loop ::
  "('m \<Rightarrow> bytes) \<Rightarrow> nat \<Rightarrow> (nat \<Rightarrow> bool) \<Rightarrow> nat \<Rightarrow> 'm list \<Rightarrow> nat \<Rightarrow> 'm list \<Rightarrow> 'm list list \<times> bool" where
  "chunk_loop serialize target aborted k pending pendingBytes [] =
     (if aborted k then ([], True) else (if pending = [] then [] else [pending], False))"
| "chunk_loop serialize target aborted k pending pendingBytes (m # ms) =
     (if aborted k then ([], True)
      else let bytes = length (serialize m) + (if pending \<noteq> [] then 1 else 0) in
        if pending \<noteq> [] \<and> pendingBytes + bytes > target
        then (let (chunks, threw) = chunk_loop serialize target aborted (Suc k) [m] bytes ms in (pending # chunks, threw))
        else chunk_loop serialize target aborted (Suc k) (pending @ [m]) (pendingBytes + bytes) ms)"

definition createSnapshotTranscriptChunks ::
  "('m \<Rightarrow> bytes) \<Rightarrow> nat \<Rightarrow> (nat \<Rightarrow> bool) \<Rightarrow> (nat \<Rightarrow> bytes) \<Rightarrow> 'm list \<Rightarrow> bytes list \<times> bool" where
  "createSnapshotTranscriptChunks serialize target aborted header messages =
     (if aborted 0 then ([], True)
      else let (chunks, threw) = chunk_loop serialize target aborted 0 [] 0 messages
           in (map (\<lambda>(index, ms). chunk_line header index (map serialize ms)) (enumerate 0 chunks), threw))"

text \<open>The bytes of the messages of a chunk with the commas between them, as the loop counts them after a flush.\<close>

definition joined_bytes :: "('m \<Rightarrow> bytes) \<Rightarrow> 'm list \<Rightarrow> nat" where
  "joined_bytes serialize ms = sum_list (map (\<lambda>m. length (serialize m)) ms) + (length ms - 1)"

section \<open>The cache\<close>

datatype cached_chunk = In_Memory bytes | On_Disk nat

datatype chunk_outcome = Got_Chunk bytes | Got_End | Got_Error string

text \<open>\<open>tc_files\<close> holds the files of the cache directory, which is there when \<open>tc_fileBacked\<close>. Waiters and readers are numbered.\<close>

record transcript_cache =
  tc_chunks :: "cached_chunk list"
  tc_fileBacked :: bool
  tc_files :: "nat \<rightharpoonup> bytes"
  tc_totalBytes :: nat
  tc_completed :: bool
  tc_readers :: "nat set"
  tc_disposeRequested :: bool
  tc_disposed :: bool
  tc_failure :: "string option"
  tc_waiters :: "(nat \<times> nat) list"  \<comment> \<open>index, waiter\<close>

definition new_cache :: transcript_cache where
  "new_cache = \<lparr>tc_chunks = [], tc_fileBacked = False, tc_files = Map.empty, tc_totalBytes = 0, tc_completed = False,
     tc_readers = {}, tc_disposeRequested = False, tc_disposed = False, tc_failure = None, tc_waiters = []\<rparr>"

definition snapshot_complete :: "transcript_cache \<Rightarrow> bool" where
  "snapshot_complete c = (tc_completed c \<and> tc_failure c = None \<and> \<not> tc_disposed c)"

definition readChunk :: "nat \<Rightarrow> transcript_cache \<Rightarrow> string + bytes" where
  "readChunk index c =
     (if \<not> index < length (tc_chunks c) then Inl ''Unknown snapshot transcript chunk''
      else case tc_chunks c ! index of
        In_Memory buffer \<Rightarrow> Inr buffer
      | On_Disk path \<Rightarrow> (case tc_files c path of None \<Rightarrow> Inl ''ENOENT'' | Some buffer \<Rightarrow> Inr buffer))"

text \<open>Which writes succeed, and what one that fails leaves in its file.\<close>

record store_io =
  so_mkdir :: bool
  so_move :: "nat \<Rightarrow> bool"
  so_write :: bool
  so_left :: "nat \<Rightarrow> bytes"

fun move_chunks ::
  "store_io \<Rightarrow> nat \<Rightarrow> cached_chunk list \<Rightarrow> (nat \<rightharpoonup> bytes) \<Rightarrow> cached_chunk list \<times> (nat \<rightharpoonup> bytes) \<times> bool" where
  "move_chunks io i [] files = ([], files, True)"
| "move_chunks io i (On_Disk path # cs) files =
     (let (cs', files', moved) = move_chunks io (Suc i) cs files in (On_Disk path # cs', files', moved))"
| "move_chunks io i (In_Memory buffer # cs) files =
     (if so_move io i
      then let (cs', files', moved) = move_chunks io (Suc i) cs (files(i \<mapsto> buffer)) in (On_Disk i # cs', files', moved)
      else (In_Memory buffer # cs, files(i \<mapsto> so_left io i), False))"

text \<open>Going over to files; False where it throws.\<close>

definition spill_to_disk :: "nat \<Rightarrow> store_io \<Rightarrow> transcript_cache \<Rightarrow> transcript_cache \<times> bool" where
  "spill_to_disk memoryLimit io c =
     (if \<not> tc_fileBacked c \<and> tc_totalBytes c > memoryLimit then
        (let c1 = c\<lparr>tc_fileBacked := True\<rparr> in
         if \<not> so_mkdir io then (c1, False)
         else let (chunks, files, moved) = move_chunks io 0 (tc_chunks c1) (tc_files c1)
              in (c1\<lparr>tc_chunks := chunks, tc_files := files\<rparr>, moved))
      else (c, True))"

definition resolve_waiters :: "nat \<Rightarrow> chunk_outcome \<Rightarrow> transcript_cache \<Rightarrow> (nat \<times> nat \<times> chunk_outcome) list" where
  "resolve_waiters index outcome c = map (\<lambda>(i, waiter). (waiter, i, outcome)) (filter (\<lambda>(i, _). i = index) (tc_waiters c))"

text \<open>The outcomes of waiters, the state, and whether the chunk is stored.\<close>

definition storeChunk ::
  "nat \<Rightarrow> store_io \<Rightarrow> bytes \<Rightarrow> transcript_cache \<Rightarrow> (nat \<times> nat \<times> chunk_outcome) list \<times> transcript_cache \<times> bool" where
  "storeChunk memoryLimit io buffer c0 =
     (let (c, spilled) = spill_to_disk memoryLimit io (c0\<lparr>tc_totalBytes := tc_totalBytes c0 + length buffer\<rparr>);
          index = length (tc_chunks c)
      in if \<not> spilled then ([], c, False)
         else if tc_fileBacked c \<and> \<not> so_write io then ([], c\<lparr>tc_files := (tc_files c)(index \<mapsto> so_left io index)\<rparr>, False)
         else let c1 = (if tc_fileBacked c
                        then c\<lparr>tc_files := (tc_files c)(index \<mapsto> buffer), tc_chunks := tc_chunks c @ [On_Disk index]\<rparr>
                        else c\<lparr>tc_chunks := tc_chunks c @ [In_Memory buffer]\<rparr>)
              in (case readChunk index c1 of
                    Inl _ \<Rightarrow> ([], c1, False)
                  | Inr stored \<Rightarrow> (resolve_waiters index (Got_Chunk stored) c1,
                      c1\<lparr>tc_waiters := filter (\<lambda>(i, _). i \<noteq> index) (tc_waiters c1)\<rparr>, True)))"

definition appendEncodedChunk ::
  "nat \<Rightarrow> store_io \<Rightarrow> bytes \<Rightarrow> transcript_cache \<Rightarrow> (nat \<times> nat \<times> chunk_outcome) list \<times> transcript_cache \<times> bool" where
  "appendEncodedChunk memoryLimit io buffer c =
     (if tc_completed c \<or> tc_failure c \<noteq> None \<or> tc_disposed c then ([], c, False) else storeChunk memoryLimit io buffer c)"

definition markComplete :: "transcript_cache \<Rightarrow> (nat \<times> nat \<times> chunk_outcome) list \<times> transcript_cache" where
  "markComplete c =
     (if tc_completed c \<or> tc_failure c \<noteq> None \<or> tc_disposed c then ([], c)
      else let late = filter (\<lambda>(i, _). \<not> i < length (tc_chunks c)) (tc_waiters c)
           in (map (\<lambda>(i, waiter). (waiter, i, Got_End)) late,
               c\<lparr>tc_completed := True, tc_waiters := filter (\<lambda>(i, _). i < length (tc_chunks c)) (tc_waiters c)\<rparr>))"

definition markFailed :: "string \<Rightarrow> transcript_cache \<Rightarrow> (nat \<times> nat \<times> chunk_outcome) list \<times> transcript_cache" where
  "markFailed error c =
     (if tc_failure c \<noteq> None then ([], c)
      else (map (\<lambda>(i, waiter). (waiter, i, Got_Error error)) (tc_waiters c), c\<lparr>tc_failure := Some error, tc_waiters := []\<rparr>))"

definition waitForChunk ::
  "nat \<Rightarrow> nat \<Rightarrow> bool \<Rightarrow> transcript_cache \<Rightarrow> (nat \<times> nat \<times> chunk_outcome) list \<times> transcript_cache" where
  "waitForChunk index waiter aborted c =
     (if aborted then ([(waiter, index, Got_Error ''aborted'')], c)
      else case tc_failure c of
        Some e \<Rightarrow> ([(waiter, index, Got_Error e)], c)
      | None \<Rightarrow>
          if index < length (tc_chunks c)
          then ([(waiter, index, case readChunk index c of Inl e \<Rightarrow> Got_Error e | Inr buffer \<Rightarrow> Got_Chunk buffer)], c)
          else if tc_completed c then ([(waiter, index, Got_End)], c)
          else ([], c\<lparr>tc_waiters := tc_waiters c @ [(index, waiter)]\<rparr>))"

definition abort_waiter :: "nat \<Rightarrow> transcript_cache \<Rightarrow> (nat \<times> nat \<times> chunk_outcome) list \<times> transcript_cache" where
  "abort_waiter waiter c =
     (map (\<lambda>(i, _). (waiter, i, Got_Error ''aborted'')) (filter (\<lambda>(_, v). v = waiter) (tc_waiters c)),
      c\<lparr>tc_waiters := filter (\<lambda>(_, v). v \<noteq> waiter) (tc_waiters c)\<rparr>)"

definition disposeNow :: "transcript_cache \<Rightarrow> (nat \<times> nat \<times> chunk_outcome) list \<times> transcript_cache" where
  "disposeNow c =
     (if tc_disposed c then ([], c)
      else let (out, c1) = markFailed ''disposed'' (c\<lparr>tc_disposed := True\<rparr>)
           in (out, c1\<lparr>tc_files := (if tc_fileBacked c1 then Map.empty else tc_files c1), tc_fileBacked := False, tc_chunks := []\<rparr>))"

definition retain_cache :: "nat \<Rightarrow> transcript_cache \<Rightarrow> transcript_cache option" where
  "retain_cache reader c = (if tc_disposed c then None else Some (c\<lparr>tc_readers := insert reader (tc_readers c)\<rparr>))"

text \<open>The function a reader was given; run again it does nothing.\<close>

definition release_reader :: "nat \<Rightarrow> transcript_cache \<Rightarrow> (nat \<times> nat \<times> chunk_outcome) list \<times> transcript_cache" where
  "release_reader reader c =
     (if reader \<notin> tc_readers c then ([], c)
      else let c1 = c\<lparr>tc_readers := tc_readers c - {reader}\<rparr> in
        if tc_readers c1 = {} \<and> tc_disposeRequested c1 then disposeNow c1 else ([], c1))"

definition dispose_cache :: "transcript_cache \<Rightarrow> (nat \<times> nat \<times> chunk_outcome) list \<times> transcript_cache" where
  "dispose_cache c =
     (if tc_disposed c \<or> tc_disposeRequested c then ([], c)
      else let c1 = c\<lparr>tc_disposeRequested := True\<rparr> in if tc_readers c1 \<noteq> {} then ([], c1) else disposeNow c1)"

section \<open>Chunks are the messages\<close>

lemma joined_bytes_snoc: "pending \<noteq> [] \<Longrightarrow> joined_bytes serialize (pending @ [m]) = joined_bytes serialize pending + (length (serialize m) + 1)"
  by (cases pending) (simp_all add: joined_bytes_def)

text \<open>The count restarts at a flush with the comma of the message that caused it, so that it may be one too high.\<close>

lemma chunk_loop_correct:
  assumes "chunk_loop serialize target aborted k pending n messages = (chunks, threw)"
    and "pending = [] \<and> n = 0 \<or> pending \<noteq> [] \<and> joined_bytes serialize pending \<le> n \<and> (length pending = 1 \<or> n \<le> target)"
  shows "(\<not> threw \<longrightarrow> concat chunks = pending @ messages) \<and> prefix (concat chunks) (pending @ messages)
    \<and> (\<forall>ms \<in> set chunks. ms \<noteq> [] \<and> (length ms = 1 \<or> joined_bytes serialize ms \<le> target))"
  using assms
proof (induction messages arbitrary: k pending n chunks)
  case Nil
  then show ?case by (auto split: if_splits)
next
  case (Cons m ms)
  let ?b = "length (serialize m) + (if pending \<noteq> [] then 1 else 0)"
  consider "aborted k" | "\<not> aborted k" "pending \<noteq> [] \<and> n + ?b > target" | "\<not> aborted k" "\<not> (pending \<noteq> [] \<and> n + ?b > target)"
    by blast
  then show ?case
  proof cases
    case 1
    then show ?thesis using Cons.prems(1) by auto
  next
    case 2
    obtain rest where r: "chunk_loop serialize target aborted (Suc k) [m] ?b ms = (rest, threw)" "chunks = pending # rest"
      using Cons.prems(1) 2 by (auto simp: Let_def split: prod.splits)
    have "joined_bytes serialize [m] \<le> ?b" by (simp add: joined_bytes_def)
    then show ?thesis using Cons.IH[OF r(1)] Cons.prems(2) 2 r(2) by (auto simp: joined_bytes_def)
  next
    case 3
    then have r: "chunk_loop serialize target aborted (Suc k) (pending @ [m]) (n + ?b) ms = (chunks, threw)"
      using Cons.prems(1) by (auto simp: Let_def)
    have "joined_bytes serialize (pending @ [m]) \<le> n + ?b"
    proof (cases "pending = []")
      case True
      then show ?thesis by (simp add: joined_bytes_def)
    next
      case False
      then show ?thesis using Cons.prems(2) joined_bytes_snoc[OF False, of serialize m] by simp
    qed
    moreover have "length (pending @ [m]) = 1 \<or> n + ?b \<le> target" using 3(2) by (cases pending) auto
    ultimately have "pending @ [m] \<noteq> [] \<and> joined_bytes serialize (pending @ [m]) \<le> n + ?b
      \<and> (length (pending @ [m]) = 1 \<or> n + ?b \<le> target)" by blast
    from Cons.IH[OF r disjI2[OF this]] show ?thesis by simp
  qed
qed

section \<open>The cache and its readers\<close>

text \<open>A cache, the chunks that were stored, and what its waiters were given.\<close>

record snapshot_world =
  sw_cache :: transcript_cache
  sw_log :: "bytes list"
  sw_out :: "(nat \<times> nat \<times> chunk_outcome) list"

definition with_outcomes :: "(nat \<times> nat \<times> chunk_outcome) list \<times> transcript_cache \<Rightarrow> snapshot_world \<Rightarrow> snapshot_world" where
  "with_outcomes r w = w\<lparr>sw_cache := snd r, sw_out := sw_out w @ fst r\<rparr>"

inductive snapshot_step :: "nat \<Rightarrow> snapshot_world \<Rightarrow> snapshot_world \<Rightarrow> bool" for limit where
  "appendEncodedChunk limit io buffer (sw_cache w) = (out, c, stored) \<Longrightarrow>
     snapshot_step limit w (w\<lparr>sw_cache := c, sw_out := sw_out w @ out, sw_log := sw_log w @ (if stored then [buffer] else [])\<rparr>)"
| "snapshot_step limit w (with_outcomes (markComplete (sw_cache w)) w)"
| "snapshot_step limit w (with_outcomes (markFailed e (sw_cache w)) w)"
| "snapshot_step limit w (with_outcomes (waitForChunk index waiter aborted (sw_cache w)) w)"
| "snapshot_step limit w (with_outcomes (abort_waiter waiter (sw_cache w)) w)"
| "reader \<notin> tc_readers (sw_cache w) \<Longrightarrow> retain_cache reader (sw_cache w) = Some c \<Longrightarrow> snapshot_step limit w (w\<lparr>sw_cache := c\<rparr>)"
| "snapshot_step limit w (with_outcomes (release_reader reader (sw_cache w)) w)"
| "snapshot_step limit w (with_outcomes (dispose_cache (sw_cache w)) w)"


text \<open>A chunk on disk is in the file of its index.\<close>

definition chunk_is :: "(nat \<rightharpoonup> bytes) \<Rightarrow> nat \<Rightarrow> cached_chunk \<Rightarrow> bytes \<Rightarrow> bool" where
  "chunk_is files i chunk b \<longleftrightarrow> (case chunk of In_Memory b' \<Rightarrow> b' = b | On_Disk j \<Rightarrow> j = i \<and> files i = Some b)"

definition chunks_are :: "(nat \<rightharpoonup> bytes) \<Rightarrow> nat \<Rightarrow> cached_chunk list \<Rightarrow> bytes list \<Rightarrow> bool" where
  "chunks_are files i cs bs \<longleftrightarrow> length cs = length bs \<and> (\<forall>k<length cs. chunk_is files (i + k) (cs ! k) (bs ! k))"

definition in_memory :: "cached_chunk \<Rightarrow> bool" where
  "in_memory chunk = (case chunk of In_Memory _ \<Rightarrow> True | On_Disk _ \<Rightarrow> False)"

definition outcome_ok :: "bytes list \<Rightarrow> bool \<Rightarrow> nat \<times> nat \<times> chunk_outcome \<Rightarrow> bool" where
  "outcome_ok bs completed r \<longleftrightarrow>
     (case r of (_, i, outcome) \<Rightarrow> (case outcome of
        Got_Chunk b \<Rightarrow> i < length bs \<and> bs ! i = b
      | Got_End \<Rightarrow> completed \<and> length bs \<le> i
      | Got_Error _ \<Rightarrow> True))"

definition cache_ok :: "nat \<Rightarrow> bytes list \<Rightarrow> transcript_cache \<Rightarrow> bool" where
  "cache_ok limit bs c \<longleftrightarrow>
     (if tc_disposed c then tc_chunks c = [] else chunks_are (tc_files c) 0 (tc_chunks c) bs)
     \<and> (\<not> tc_fileBacked c \<longrightarrow> list_all in_memory (tc_chunks c) \<and> (\<not> tc_disposed c \<longrightarrow> tc_totalBytes c \<le> limit))
     \<and> (\<forall>(i, v) \<in> set (tc_waiters c). length bs \<le> i \<and> \<not> tc_completed c \<and> tc_failure c = None)
     \<and> (tc_disposed c \<longrightarrow> tc_failure c \<noteq> None \<and> tc_readers c = {})
     \<and> (tc_disposeRequested c \<and> \<not> tc_disposed c \<longrightarrow> tc_readers c \<noteq> {})"

definition snapshot_inv :: "nat \<Rightarrow> snapshot_world \<Rightarrow> bool" where
  "snapshot_inv limit w \<longleftrightarrow> cache_ok limit (sw_log w) (sw_cache w)
     \<and> (\<forall>r \<in> set (sw_out w). outcome_ok (sw_log w) (tc_completed (sw_cache w)) r)"

lemma chunks_are_Cons:
  "chunks_are files i (c # cs) bs \<longleftrightarrow> (\<exists>b bs'. bs = b # bs' \<and> chunk_is files i c b \<and> chunks_are files (Suc i) cs bs')"
  by (cases bs) (auto simp: chunks_are_def less_Suc_eq_0_disj)

lemma chunks_are_snoc:
  "chunks_are files 0 cs bs \<Longrightarrow> chunk_is files (length cs) c b \<Longrightarrow> chunks_are files 0 (cs @ [c]) (bs @ [b])"
  by (auto simp: chunks_are_def nth_append less_Suc_eq)

lemma chunks_are_files:
  "chunks_are files i cs bs \<Longrightarrow> (\<And>k. k < length cs \<Longrightarrow> files' (i + k) = files (i + k)) \<Longrightarrow> chunks_are files' i cs bs"
  by (fastforce simp: chunks_are_def chunk_is_def split: cached_chunk.splits)

text \<open>Moving chunks keeps them, also when it stops.\<close>

lemma move_chunks_keeps:
  assumes "chunks_are files i cs bs" "move_chunks io i cs files = (cs', files', moved)"
  shows "chunks_are files' i cs' bs \<and> (\<forall>j<i. files' j = files j)"
  using assms
proof (induction cs arbitrary: i files cs' bs)
  case (Cons c cs)
  obtain b bs' where bs: "bs = b # bs'" "chunk_is files i c b" "chunks_are files (Suc i) cs bs'"
    using Cons.prems(1) chunks_are_Cons by blast
  show ?case
  proof (cases c)
    case (On_Disk path)
    then obtain cs1 where m: "move_chunks io (Suc i) cs files = (cs1, files', moved)" "cs' = On_Disk path # cs1"
      using Cons.prems(2) by (auto split: prod.splits)
    from Cons.IH[OF bs(3) m(1)] show ?thesis using bs On_Disk m(2) by (auto simp: chunks_are_Cons chunk_is_def)
  next
    case (In_Memory buffer)
    show ?thesis
    proof (cases "so_move io i")
      case True
      then obtain cs1 where m: "move_chunks io (Suc i) cs (files(i \<mapsto> buffer)) = (cs1, files', moved)" "cs' = On_Disk i # cs1"
        using Cons.prems(2) In_Memory by (auto split: prod.splits)
      have "chunks_are (files(i \<mapsto> buffer)) (Suc i) cs bs'" by (rule chunks_are_files[OF bs(3)]) simp
      from Cons.IH[OF this m(1)] show ?thesis using bs In_Memory m(2) by (auto simp: chunks_are_Cons chunk_is_def)
    next
      case False
      then have e: "cs' = In_Memory buffer # cs" "files' = files(i \<mapsto> so_left io i)" using Cons.prems(2) In_Memory by auto
      have "chunks_are (files(i \<mapsto> so_left io i)) (Suc i) cs bs'" by (rule chunks_are_files[OF bs(3)]) simp
      moreover have "chunk_is (files(i \<mapsto> so_left io i)) i (In_Memory buffer) b" using bs(2) In_Memory by (simp add: chunk_is_def)
      ultimately have "chunks_are files' i cs' bs" unfolding e bs(1) chunks_are_Cons by blast
      moreover have "\<forall>j<i. files' j = files j" using e(2) by simp
      ultimately show ?thesis by blast
    qed
  qed
qed simp

lemma readChunk_is:
  assumes "chunks_are (tc_files c) 0 (tc_chunks c) bs" "i < length bs"
  shows "readChunk i c = Inr (bs ! i)"
  using assms by (auto simp: chunks_are_def readChunk_def chunk_is_def split: cached_chunk.splits option.splits)

lemma spill_ok:
  assumes "chunks_are (tc_files c) 0 (tc_chunks c) bs" "spill_to_disk limit io c = (c', spilled)"
  shows "chunks_are (tc_files c') 0 (tc_chunks c') bs \<and> (\<not> tc_fileBacked c' \<longrightarrow> c' = c \<and> tc_totalBytes c \<le> limit)
    \<and> tc_waiters c' = tc_waiters c \<and> tc_completed c' = tc_completed c \<and> tc_disposed c' = tc_disposed c
    \<and> tc_failure c' = tc_failure c \<and> tc_readers c' = tc_readers c \<and> tc_disposeRequested c' = tc_disposeRequested c
    \<and> (\<not> spilled \<longrightarrow> tc_fileBacked c')"
  using assms move_chunks_keeps[OF assms(1)]
  by (auto simp: spill_to_disk_def Let_def split: if_splits prod.splits)

lemma storeChunk_ok:
  assumes "cache_ok limit bs c" "\<not> tc_disposed c" "storeChunk limit io b c = (out, c', stored)"
  shows "cache_ok limit (bs @ (if stored then [b] else [])) c' \<and> tc_completed c' = tc_completed c
    \<and> (\<forall>r \<in> set out. outcome_ok (bs @ (if stored then [b] else [])) (tc_completed c) r)"
proof -
  let ?c0 = "c\<lparr>tc_totalBytes := tc_totalBytes c + length b\<rparr>"
  obtain c1 spilled where sp: "spill_to_disk limit io ?c0 = (c1, spilled)" by fastforce
  have "chunks_are (tc_files ?c0) 0 (tc_chunks ?c0) bs" using assms(1,2) by (simp add: cache_ok_def)
  note s = spill_ok[OF this sp]
  have len: "length (tc_chunks c1) = length bs" using s by (simp add: chunks_are_def)
  let ?i = "length bs"
  consider "\<not> spilled" | "spilled" "tc_fileBacked c1" "\<not> so_write io" | "spilled" "tc_fileBacked c1 \<longrightarrow> so_write io" by blast
  then show ?thesis
  proof cases
    case 1
    then have "out = []" "c' = c1" "\<not> stored" using assms(3) sp by (auto simp: storeChunk_def Let_def)
    then show ?thesis using s 1 assms(1,2) by (auto simp: cache_ok_def)
  next
    case 2
    then have e: "out = []" "c' = c1\<lparr>tc_files := (tc_files c1)(?i \<mapsto> so_left io ?i)\<rparr>" "\<not> stored"
      using assms(3) sp len by (auto simp: storeChunk_def Let_def)
    have "chunks_are ((tc_files c1)(?i \<mapsto> so_left io ?i)) 0 (tc_chunks c1) bs"
      by (rule chunks_are_files[of "tc_files c1"]) (use s len in auto)
    then show ?thesis using s 2 e assms(1,2) by (auto simp: cache_ok_def)
  next
    case 3
    define c2 where "c2 = (if tc_fileBacked c1
        then c1\<lparr>tc_files := (tc_files c1)(?i \<mapsto> b), tc_chunks := tc_chunks c1 @ [On_Disk ?i]\<rparr>
        else c1\<lparr>tc_chunks := tc_chunks c1 @ [In_Memory b]\<rparr>)"
    have ch: "chunks_are (tc_files c2) 0 (tc_chunks c2) (bs @ [b])"
    proof (cases "tc_fileBacked c1")
      case True
      have "chunks_are ((tc_files c1)(?i \<mapsto> b)) 0 (tc_chunks c1) bs"
        by (rule chunks_are_files[of "tc_files c1"]) (use s len in auto)
      then show ?thesis using True len by (simp add: c2_def) (rule chunks_are_snoc, simp_all add: chunk_is_def)
    next
      case False
      have "chunks_are (tc_files c1) 0 (tc_chunks c1) bs" using s by blast
      then show ?thesis using False by (simp add: c2_def chunks_are_snoc chunk_is_def)
    qed
    have rd: "readChunk ?i c2 = Inr b" using readChunk_is[OF ch, of ?i] by simp
    have e: "out = resolve_waiters ?i (Got_Chunk b) c2" "stored" "c' = c2\<lparr>tc_waiters := filter (\<lambda>(i, _). i \<noteq> ?i) (tc_waiters c2)\<rparr>"
      using assms(3) sp len 3 rd by (auto simp: storeChunk_def Let_def c2_def split: if_splits)
    have f: "tc_fileBacked c2 = tc_fileBacked c1" "tc_waiters c2 = tc_waiters c" "tc_completed c2 = tc_completed c"
      "tc_disposed c2 = tc_disposed c" "tc_failure c2 = tc_failure c" "tc_readers c2 = tc_readers c"
      "tc_disposeRequested c2 = tc_disposeRequested c" "tc_totalBytes c2 = tc_totalBytes c1"
      "\<not> tc_fileBacked c1 \<Longrightarrow> tc_chunks c2 = tc_chunks c @ [In_Memory b]"
      using s by (auto simp: c2_def)
    have "list_all in_memory (tc_chunks c2) \<and> tc_totalBytes c2 \<le> limit" if "\<not> tc_fileBacked c2"
      using that s f(1,8,9) assms(1) by (auto simp: cache_ok_def in_memory_def)
    moreover have "length bs < i" if "(i, v) \<in> set (tc_waiters c)" "i \<noteq> ?i" for i v
      using that assms(1) by (fastforce simp: cache_ok_def)
    ultimately have "cache_ok limit (bs @ [b]) c'"
      using ch assms(1,2) e(3) f by (auto simp: cache_ok_def Suc_le_eq)
    moreover have "\<forall>r \<in> set out. outcome_ok (bs @ [b]) (tc_completed c) r"
      by (auto simp: e(1) resolve_waiters_def outcome_ok_def)
    ultimately show ?thesis using e(2,3) f(3) by simp
  qed
qed

lemma markFailed_ok:
  assumes "cache_ok limit bs c"
  shows "cache_ok limit bs (snd (markFailed e c)) \<and> tc_completed (snd (markFailed e c)) = tc_completed c
    \<and> (\<forall>r \<in> set (fst (markFailed e c)). outcome_ok bs (tc_completed c) r)"
  using assms by (auto simp: markFailed_def cache_ok_def outcome_ok_def)

lemma markComplete_ok:
  assumes "cache_ok limit bs c"
  shows "cache_ok limit bs (snd (markComplete c)) \<and> (tc_completed c \<longrightarrow> tc_completed (snd (markComplete c)))
    \<and> (\<forall>r \<in> set (fst (markComplete c)). outcome_ok bs (tc_completed (snd (markComplete c))) r)"
proof -
  have "tc_disposed c \<or> length (tc_chunks c) = length bs" using assms by (auto simp: cache_ok_def chunks_are_def)
  then show ?thesis
    using assms by (fastforce simp: markComplete_def cache_ok_def outcome_ok_def Let_def split: if_splits)
qed

lemma waitForChunk_ok:
  assumes "cache_ok limit bs c"
  shows "cache_ok limit bs (snd (waitForChunk i v a c)) \<and> tc_completed (snd (waitForChunk i v a c)) = tc_completed c
    \<and> (\<forall>r \<in> set (fst (waitForChunk i v a c)). outcome_ok bs (tc_completed c) r)"
proof -
  have d: "tc_failure c = None \<Longrightarrow> chunks_are (tc_files c) 0 (tc_chunks c) bs" using assms by (auto simp: cache_ok_def split: if_splits)
  then have "tc_failure c = None \<Longrightarrow> length (tc_chunks c) = length bs" by (simp add: chunks_are_def)
  then show ?thesis
    using assms readChunk_is[OF d, of i] by (auto simp: waitForChunk_def cache_ok_def outcome_ok_def split: option.splits)
qed

lemma disposeNow_ok:
  assumes "cache_ok limit bs (c\<lparr>tc_disposeRequested := False\<rparr>)" "tc_readers c = {}"
  shows "cache_ok limit bs (snd (disposeNow c)) \<and> tc_completed (snd (disposeNow c)) = tc_completed c
    \<and> (\<forall>r \<in> set (fst (disposeNow c)). outcome_ok bs (tc_completed c) r)"
  using assms by (auto simp: disposeNow_def markFailed_def cache_ok_def outcome_ok_def Let_def split: if_splits)

lemma outcome_mono: "outcome_ok bs False r \<Longrightarrow> outcome_ok (bs @ xs) e r"
  by (auto simp: outcome_ok_def nth_append split: chunk_outcome.splits prod.splits)

lemma outcome_completed: "outcome_ok bs d r \<Longrightarrow> (d \<longrightarrow> e) \<Longrightarrow> outcome_ok bs e r"
  by (auto simp: outcome_ok_def split: chunk_outcome.splits prod.splits)

lemma with_outcomes_inv:
  assumes "snapshot_inv limit w" "cache_ok limit (sw_log w) (snd r)" "tc_completed (sw_cache w) \<longrightarrow> tc_completed (snd r)"
    and "\<forall>x \<in> set (fst r). outcome_ok (sw_log w) (tc_completed (snd r)) x"
  shows "snapshot_inv limit (with_outcomes r w)"
proof -
  have "outcome_ok (sw_log w) (tc_completed (snd r)) x" if "x \<in> set (sw_out w)" for x
    using outcome_completed[OF _ assms(3), of "sw_log w" x] assms(1) that by (simp add: snapshot_inv_def)
  then show ?thesis using assms(2,4) by (auto simp: snapshot_inv_def with_outcomes_def)
qed

lemma abort_waiter_ok:
  "cache_ok limit bs c \<Longrightarrow> cache_ok limit bs (snd (abort_waiter v c)) \<and> (\<forall>r \<in> set (fst (abort_waiter v c)). outcome_ok bs d r)"
  by (auto simp: abort_waiter_def cache_ok_def outcome_ok_def)

lemma release_ok:
  assumes "cache_ok limit bs c"
  shows "cache_ok limit bs (snd (release_reader v c)) \<and> tc_completed (snd (release_reader v c)) = tc_completed c
    \<and> (\<forall>r \<in> set (fst (release_reader v c)). outcome_ok bs (tc_completed c) r)"
proof -
  let ?c = "c\<lparr>tc_readers := tc_readers c - {v}\<rparr>"
  consider "v \<notin> tc_readers c" | "v \<in> tc_readers c" "tc_readers ?c = {}" "tc_disposeRequested c"
    | "v \<in> tc_readers c" "\<not> (tc_readers ?c = {} \<and> tc_disposeRequested c)" by blast
  then show ?thesis
  proof cases
    case 2
    then have "cache_ok limit bs (?c\<lparr>tc_disposeRequested := False\<rparr>)" using assms by (auto simp: cache_ok_def)
    then show ?thesis using disposeNow_ok[of limit bs ?c] 2 by (simp add: release_reader_def Let_def)
  qed (use assms in \<open>auto simp: release_reader_def Let_def cache_ok_def\<close>)
qed

lemma dispose_ok:
  assumes "cache_ok limit bs c"
  shows "cache_ok limit bs (snd (dispose_cache c)) \<and> tc_completed (snd (dispose_cache c)) = tc_completed c
    \<and> (\<forall>r \<in> set (fst (dispose_cache c)). outcome_ok bs (tc_completed c) r)"
proof -
  let ?c = "c\<lparr>tc_disposeRequested := True\<rparr>"
  consider "tc_disposed c \<or> tc_disposeRequested c" | "\<not> tc_disposed c" "\<not> tc_disposeRequested c" "tc_readers c \<noteq> {}"
    | "\<not> tc_disposed c" "\<not> tc_disposeRequested c" "tc_readers c = {}" by blast
  then show ?thesis
  proof cases
    case 3
    then have "cache_ok limit bs (?c\<lparr>tc_disposeRequested := False\<rparr>)" using assms by (auto simp: cache_ok_def)
    then show ?thesis using disposeNow_ok[of limit bs ?c] 3 by (simp add: dispose_cache_def Let_def)
  qed (use assms in \<open>auto simp: dispose_cache_def Let_def cache_ok_def\<close>)
qed

lemma snapshot_step_inv:
  assumes "snapshot_inv limit w" "snapshot_step limit w w'"
  shows "snapshot_inv limit w'"
proof -
  have c: "cache_ok limit (sw_log w) (sw_cache w)" using assms(1) by (simp add: snapshot_inv_def)
  note W = with_outcomes_inv[OF assms(1)]
  from assms(2) show ?thesis
  proof cases
    case (1 io buffer out c' stored)
    show ?thesis
    proof (cases "tc_completed (sw_cache w) \<or> tc_failure (sw_cache w) \<noteq> None \<or> tc_disposed (sw_cache w)")
      case True
      then show ?thesis using 1 assms(1) by (auto simp: appendEncodedChunk_def snapshot_inv_def)
    next
      case False
      then have st: "storeChunk limit io buffer (sw_cache w) = (out, c', stored)" using 1(2) by (auto simp: appendEncodedChunk_def)
      note k = storeChunk_ok[OF c _ st]
      have "\<forall>r \<in> set (sw_out w). outcome_ok (sw_log w @ (if stored then [buffer] else [])) False r"
        using assms(1) False outcome_mono by (auto simp: snapshot_inv_def)
      then show ?thesis using k False 1(1) by (auto simp: snapshot_inv_def)
    qed
  next
    case 2
    then show ?thesis using markComplete_ok[OF c] by (auto intro!: W)
  next
    case (3 e)
    then show ?thesis using markFailed_ok[OF c, of e] by (auto intro!: W)
  next
    case (4 i v a)
    then show ?thesis using waitForChunk_ok[OF c, of i v a] by (auto intro!: W)
  next
    case (5 v)
    then show ?thesis using abort_waiter_ok[OF c, of v] by (auto intro!: W simp: abort_waiter_def)
  next
    case (6 v c')
    then show ?thesis using assms(1) by (auto simp: snapshot_inv_def retain_cache_def cache_ok_def split: if_splits)
  next
    case (7 v)
    then show ?thesis using release_ok[OF c, of v] by (auto intro!: W)
  next
    case 8
    then show ?thesis using dispose_ok[OF c] by (auto intro!: W)
  qed
qed

interpretation snapshot: invariant_machine "\<lambda>w. w = \<lparr>sw_cache = new_cache, sw_log = [], sw_out = []\<rparr>" "snapshot_step limit"
  "snapshot_inv limit" for limit
  by unfold_locales (simp add: snapshot_inv_def cache_ok_def new_cache_def chunks_are_def, rule snapshot_step_inv)



section \<open>A cache made from messages\<close>

text \<open>The constructor with \<open>messages\<close>; None where a write fails and it throws. \<open>io n\<close> is the state of the disk for chunk \<open>n\<close>.\<close>

fun store_chunks :: "nat \<Rightarrow> (nat \<Rightarrow> store_io) \<Rightarrow> nat \<Rightarrow> bytes list \<Rightarrow> transcript_cache \<Rightarrow> transcript_cache option" where
  "store_chunks memoryLimit io n [] c = Some c"
| "store_chunks memoryLimit io n (b # bs) c =
     (let (_, c', stored) = storeChunk memoryLimit (io n) b c
      in if stored then store_chunks memoryLimit io (Suc n) bs c' else None)"

definition cache_of_messages ::
  "nat \<Rightarrow> (nat \<Rightarrow> store_io) \<Rightarrow> ('m \<Rightarrow> bytes) \<Rightarrow> nat \<Rightarrow> (nat \<Rightarrow> bytes) \<Rightarrow> 'm list \<Rightarrow> transcript_cache option" where
  "cache_of_messages memoryLimit io serialize target header messages =
     map_option (\<lambda>c. c\<lparr>tc_completed := True\<rparr>)
       (store_chunks memoryLimit io 0 (fst (createSnapshotTranscriptChunks serialize target (\<lambda>_. False) header messages)) new_cache)"

lemma storeChunk_keeps_disposed: "storeChunk limit io b c = (out, c', stored) \<Longrightarrow> tc_disposed c' = tc_disposed c \<and> tc_failure c' = tc_failure c"
  by (auto simp: storeChunk_def spill_to_disk_def Let_def split: if_splits prod.splits sum.splits)

lemma store_chunks_ok:
  assumes "store_chunks limit io n bs c = Some c'" "cache_ok limit bs0 c" "\<not> tc_disposed c"
  shows "cache_ok limit (bs0 @ bs) c' \<and> tc_disposed c' = tc_disposed c \<and> tc_failure c' = tc_failure c"
  using assms
proof (induction bs arbitrary: n c bs0)
  case (Cons b bs)
  obtain out c1 where st: "storeChunk limit (io n) b c = (out, c1, True)" "store_chunks limit io (Suc n) bs c1 = Some c'"
    using Cons.prems(1) by (auto split: prod.splits if_splits)
  note d = storeChunk_keeps_disposed[OF st(1)]
  have "cache_ok limit (bs0 @ [b]) c1" using storeChunk_ok[OF Cons.prems(2,3) st(1)] by simp
  from Cons.IH[OF st(2) this] show ?case using d Cons.prems(3) by simp
qed simp

lemma chunk_loop_not_aborted: "\<not> snd (chunk_loop serialize target (\<lambda>_. False) k pending n ms)"
  by (induction ms arbitrary: k pending n) (auto simp: Let_def split: prod.splits, (metis snd_conv)+)

text \<open>It holds every message, in order and once, in chunks that are below the target or of one message.\<close>

lemma cache_holds_every_message:
  assumes "cache_of_messages limit io serialize target header messages = Some c"
  shows "\<exists>chunks. concat chunks = messages \<and> (\<forall>ms \<in> set chunks. ms \<noteq> [] \<and> (length ms = 1 \<or> joined_bytes serialize ms \<le> target))
    \<and> map (\<lambda>i. readChunk i c) [0..<length chunks]
      = map (\<lambda>(i, ms). Inr (chunk_line header i (map serialize ms))) (enumerate 0 chunks) \<and> snapshot_complete c"
proof -
  obtain chunks where l: "chunk_loop serialize target (\<lambda>_. False) 0 [] 0 messages = (chunks, False)"
    using chunk_loop_not_aborted[of serialize target 0 "[]" 0 messages] by (metis (full_types) prod.collapse)
  let ?bs = "map (\<lambda>(i, ms). chunk_line header i (map serialize ms)) (enumerate 0 chunks)"
  obtain c0 where c0: "store_chunks limit io 0 ?bs new_cache = Some c0" "c = c0\<lparr>tc_completed := True\<rparr>"
    using assms l by (auto simp: cache_of_messages_def createSnapshotTranscriptChunks_def)
  have n: "cache_ok limit [] new_cache" "\<not> tc_disposed new_cache" "tc_failure new_cache = None"
    by (simp_all add: cache_ok_def new_cache_def chunks_are_def)
  have k: "cache_ok limit ?bs c0" "\<not> tc_disposed c0" "tc_failure c0 = None" using store_chunks_ok[OF c0(1) n(1,2)] n(2,3) by simp_all
  have "chunks_are (tc_files c) 0 (tc_chunks c) ?bs" using k c0(2) by (simp add: cache_ok_def)
  then have "map (\<lambda>i. readChunk i c) [0..<length chunks] = map Inr ?bs"
    using readChunk_is[of c ?bs] by (intro nth_equalityI) auto
  moreover have "snapshot_complete c" using k c0(2) by (simp add: snapshot_complete_def)
  ultimately show ?thesis using chunk_loop_correct[OF l] by (intro exI[of _ chunks]) (auto simp: case_prod_beta)
qed

end
