(* ===== verification/Spec2Isabelle.thy ===== *)
theory Spec2Isabelle
  imports Session_Actions Action_Delivery Agent_State Session_Paths Compaction_Cuts Framing_Roundtrip Edit_Display Session_Retry_Ends Cron_Claims
    Output_Accumulator Transform_Messages Command_Journal Worker_Journal Concurrency Line_Input Session_Lease Compact_Stream Snapshot_Cache
begin

text \<open>
  A verification library for oneharness, a coding agent in TypeScript.

  The program. A user's input becomes a session action (\<open>session-action-store.ts\<close>), which a session
  (\<open>agent-session.ts\<close>) runs as a turn of its agent (\<open>packages/agent/src\<close>): the loop streams a message from
  a provider, executes the tools it calls and goes on until no call is left. Every message is appended
  to the session tree and its file (\<open>session-manager.ts\<close>); a branch that grows too long is compacted
  (\<open>core/compaction\<close>); a turn that fails is retried or waits for the provider
  (\<open>provider-retry.ts\<close>). Prompts can be scheduled for later (\<open>cron-jobs.ts\<close>). Sessions live in worker processes that talk to a supervisor in frames
  (\<open>session-worker/private-framing.ts\<close>).

  Theories and the code they model (paths below \<open>packages/coding-agent/src\<close> unless given in full):

  \<^item> \<open>Prelude\<close>: arrays as lists, text, reachable states with the locale \<open>invariant_machine\<close>, numbers of
    JavaScript (a finite rational, an infinity or NaN).
  \<^item> \<open>Session_Actions\<close> (\<open>core/session-action-store.ts\<close>): a heap of action objects with their lifecycle,
    the lanes, tickets and all operations of \<open>ActionStore\<close>; the eviction policies of workers. Shows the
    invariant of every reachable store, stable insertion by priority, first-in first-out selection, exact
    cancellation, and that workers are evicted only when idle.
  \<^item> \<open>Messages\<close> (\<open>core/messages.ts\<close>, \<open>core/usage.ts\<close>, \<open>packages/ai/src/types.ts\<close>): the message types, their
    conversion for the model, token usage.
  \<^item> \<open>Transform_Messages\<close> (\<open>packages/ai/src/providers/transform-messages.ts\<close>): the transcript a provider is
    sent; every call in it is answered.
  \<^item> \<open>Agent_Loop\<close>, \<open>Agent_Loop_Runs\<close>, \<open>Agent_Loop_Ends\<close> (\<open>packages/agent/src/agent-loop.ts\<close>): the loop as a program
    over a world whose provider, tools, hooks and scheduler are parameters. A run is bounded by fuel, one
    unit per pass of the loop and one per event of a response or partial result of a tool; without enough
    of it the result is None. The theorems state the messages, events and tool results of runs that
    return and of runs that throw, for every interleaving of parallel tools; a measure of the work the
    world has left gives fuel that is enough.
  \<^item> \<open>Agent_State\<close> (\<open>packages/agent/src/agent.ts\<close>): queues of pending messages, the transcript reduced from
    events, the configuration a run of the loop gets from the agent, start and end of runs; the
    transcript mirrors the loop's.
  \<^item> \<open>Action_Delivery\<close> (\<open>core/agent-session.ts\<close>, message events and the end of a dispatch in the pump): how the
    queued turns are delivered. A turn whose message reached the transcript is not queued again.
  \<^item> \<open>Session_Tree\<close>, \<open>Session_Invariant\<close>, \<open>Session_Paths\<close> (\<open>core/session-manager.ts\<close>): entries, index, labels,
    the file and its failing writes, branching, model contexts, migrations. The walk to the root gets as
    much fuel as there are entries, which is shown to be enough.
  \<^item> \<open>Compaction\<close>, \<open>Compaction_Cuts\<close> (\<open>core/compaction/compaction.ts\<close>, \<open>utils.ts\<close>): token estimates, cut points,
    what is summarised and what is kept, the text for the summariser.
  \<^item> \<open>Private_Framing\<close>, \<open>Framing_Roundtrip\<close> (\<open>modes/session-worker/private-framing.ts\<close>): encoder, incremental
    decoder with its chunk list, channel. The locale \<open>byte_buffer\<close> states what the frame loop needs of the
    buffer; the decoder's chunks interpret it.
  \<^item> \<open>Truncation\<close>, \<open>Truncation_Bounds\<close> (\<open>core/tools/truncate.ts\<close>): truncation of tool output by lines and bytes
    with UTF-8 written out.
  \<^item> \<open>Output_Accumulator\<close> (\<open>core/tools/output-accumulator.ts\<close>): what a running command has printed, as a tail,
    counters and a spill file. The snapshot refines the truncation of the whole output; nothing is lost
    unless writing the file fails.
  \<^item> \<open>Edit_Diff\<close>, \<open>Edit_Exact\<close>, \<open>Edit_Display\<close> (\<open>core/tools/edit-diff.ts\<close>, part of \<open>core/tools/edit.ts\<close>): matching and
    applying edits, line endings, the diff that is shown.
  \<^item> \<open>Provider_Retry\<close>, \<open>Session_Retry\<close>, \<open>Session_Retry_Ends\<close> (\<open>core/provider-retry.ts\<close>, the retry handlers of
    \<open>core/agent-session.ts\<close>): delays, waits, the backup model; retrying comes to an end.
  \<^item> \<open>Cron_Schedule\<close>, \<open>Cron_Next\<close>, \<open>Cron_Jobs\<close>, \<open>Cron_Invariant\<close>, \<open>Cron_Claims\<close> (\<open>core/cron-jobs.ts\<close>): schedules
    from their text to the next run, the store of jobs in one file or one per session, claims, dispatches
    and their recovery, the timer. The operations form a step relation with an invariant that holds in
    every store that can be reached; a job that has ended never runs, a one-shot job runs once. The
    search for a next run is a partial function, total in a zone without transitions: there it is the
    first of the 527041 minutes that matches. The lemmas on a clock that is set back and on leap days
    show where the code does not do what it means to.

  \<^item> \<open>Journal_Files\<close>, \<open>Command_Journal\<close>, \<open>Worker_Journal\<close> (\<open>modes/daemon/command-recovery-journal.ts\<close>,
    \<open>recovery-journal-file.ts\<close>, \<open>worker-recovery-journal.ts\<close>, \<open>utils/atomic-file.ts\<close>): the journals that survive
    the daemon's processes, over files in which every write may fail or stop at any byte. A command is
    executed at most once, a recorded state is not lost; a lemma shows the one failure the command
    journal does not survive.

  \<^item> \<open>Concurrency\<close> (\<open>packages/ai/src/utils/event-stream.ts\<close>, \<open>utils/semaphore.ts\<close>,
    \<open>modes/daemon/mutation-drain-latch.ts\<close>, \<open>core/tools/file-mutation-queue.ts\<close>): step relations over every
    interleaving; order and completeness of streams, fairness of the semaphore, exclusion of mutations.

  \<^item> \<open>Compact_Stream\<close> (\<open>modes/daemon/compact-session-stream.ts\<close>): the compact updates of a streamed message from a
    worker to the supervisor; what is reconstructed is the message but for signatures.
  \<^item> \<open>Snapshot_Cache\<close> (\<open>modes/daemon/snapshot-transcript-cache.ts\<close>): the transcript of a snapshot in chunks,
    held in memory and files while it is written and read. Its readers get the chunks as stored, whichever
    writes fail; a cache made from messages holds them all.
  \<^item> \<open>Session_Lease\<close> (\<open>core/session-lease.ts\<close>): which process runs a session. At most one holds its lease,
    unless the guard is taken over from a process that runs; a lemma gives the run in which two hold it then.

  \<^item> \<open>Stdin_Buffer\<close> (\<open>packages/tui/src/stdin-buffer.ts\<close>): the terminal's input, cut into keys, escape sequences
    and pastes. What is emitted does not depend on how the input arrives in chunks, and nothing is held
    back without a timer.
  \<^item> \<open>Line_Input\<close> (\<open>packages/tui/src/components/input.ts\<close>, \<open>kill-ring.ts\<close>, \<open>undo-stack.ts\<close>): the input line. Its
    state stays consistent under all keys, kills in a row can be yanked back, a paste arrives as it was
    pasted, a key can be undone. \<open>segments_text\<close> is what is assumed of the segmenter of graphemes.

  Conventions. Objects compared by identity are addresses; a class is a record and a method a function
  of it; a thrown error is the left side of a sum or a constructor of its own; what other processes,
  providers, the clock, time zones, random numbers and packages do is a parameter. Numbers that only count are
  naturals or integers.

  Not modelled: generated model and tool catalogues; the HTTP side of providers and sign-in; terminal
  rendering, the multi-line editor and the interactive, print and agents-view modes; process handling of daemon and supervisor;
  the rest of \<open>agent-session.ts\<close> (prompting, extensions, subagents, refinement); the command line,
  extensions, export, themes, packages and telemetry. They are input and output, or glue between the
  parts above and services the repository does not hold.
\<close>

end
